(* ===== verification/Prelude.thy ===== *)
theory Prelude
  imports Main "HOL-Library.Sublist" "HOL-Library.Code_Target_Nat"
begin

text \<open>
  Shared material of the development: the named collections that the component
  theories fill and use, machine arithmetic on \<open>usize\<close>, \<open>u64\<close>, \<open>u32\<close>, \<open>u16\<close> and
  \<open>i64\<close> with the saturation of the Rust methods written out, Rust's \<open>Vec\<close>
  operations that can panic (as options), and list lemmas used by more than
  one component.

  A \<open>usize\<close> is a natural number; the target has 64-bit pointers, so its maximum is
  \<open>2 ^ 64 - 1\<close>. Lengths of vectors and strings are far below that maximum and
  plain additions on them are additions on \<open>nat\<close>; the saturating methods are
  modelled with their bound.
\<close>

section \<open>Collections\<close>

named_theorems run_simps "evaluation rules of the executable models"
named_theorems step_intros "introduction rules of invariants"

section \<open>Results\<close>

text \<open>A Rust \<open>Result<T, E>\<close> is \<open>E + T\<close> with \<open>Inl\<close> the error.\<close>

abbreviation is_ok :: "'e + 'a \<Rightarrow> bool" where
  "is_ok r \<equiv> (case r of Inl _ \<Rightarrow> False | Inr _ \<Rightarrow> True)"

definition map_err :: "('e \<Rightarrow> 'f) \<Rightarrow> 'e + 'a \<Rightarrow> 'f + 'a" where
  "map_err f r = (case r of Inl e \<Rightarrow> Inl (f e) | Inr a \<Rightarrow> Inr a)"

text \<open>\<open>iter.map(f).collect::<Result<Vec<_>, _>>()\<close>: the first error, or all values.\<close>

fun collect_results :: "('a \<Rightarrow> 'e + 'b) \<Rightarrow> 'a list \<Rightarrow> 'e + 'b list" where
  "collect_results f [] = Inr []"
| "collect_results f (x # xs) =
     (case f x of
        Inl e \<Rightarrow> Inl e
      | Inr y \<Rightarrow> (case collect_results f xs of Inl e \<Rightarrow> Inl e | Inr ys \<Rightarrow> Inr (y # ys)))"

lemma collect_results_Inr_iff:
  "collect_results f xs = Inr ys \<longleftrightarrow> list_all2 (\<lambda>x y. f x = Inr y) xs ys"
proof (induction xs arbitrary: ys)
  case (Cons x xs)
  show ?case
    by (cases ys; cases "f x"; cases "collect_results f xs") (auto simp flip: Cons.IH)
qed auto

lemma collect_results_length: "collect_results f xs = Inr ys \<Longrightarrow> length ys = length xs"
  by (simp add: collect_results_Inr_iff list_all2_lengthD)

section \<open>Saturating machine arithmetic\<close>

definition usize_max :: nat where "usize_max = 18446744073709551615"
definition u16_max :: nat where "u16_max = 65535"
definition i64_max :: int where "i64_max = 9223372036854775807"
definition i64_min :: int where "i64_min = - 9223372036854775808"

text \<open>\<open>saturating_sub\<close> on unsigned integers is the subtraction of \<open>nat\<close>.\<close>

definition sat_add :: "nat \<Rightarrow> nat \<Rightarrow> nat" where
  "sat_add a b = min (a + b) usize_max"

definition sat_mul :: "nat \<Rightarrow> nat \<Rightarrow> nat" where
  "sat_mul a b = min (a * b) usize_max"

definition sat_add_u16 :: "nat \<Rightarrow> nat \<Rightarrow> nat" where
  "sat_add_u16 a b = min (a + b) u16_max"

definition clamp_i64 :: "int \<Rightarrow> int" where
  "clamp_i64 x = max i64_min (min x i64_max)"

definition sat_add_i64 :: "int \<Rightarrow> int \<Rightarrow> int" where
  "sat_add_i64 a b = clamp_i64 (a + b)"

definition sat_sub_i64 :: "int \<Rightarrow> int \<Rightarrow> int" where
  "sat_sub_i64 a b = clamp_i64 (a - b)"

text \<open>\<open>i64::try_from(n).unwrap_or(i64::MAX)\<close> on a \<open>usize\<close> or \<open>u64\<close>.\<close>

definition i64_of_usize :: "nat \<Rightarrow> int" where
  "i64_of_usize n = min (int n) i64_max"

lemma sat_add_exact [simp]: "a + b \<le> usize_max \<Longrightarrow> sat_add a b = a + b"
  by (simp add: sat_add_def)

lemma sat_mul_exact [simp]: "a * b \<le> usize_max \<Longrightarrow> sat_mul a b = a * b"
  by (simp add: sat_mul_def)

lemma sat_add_le: "sat_add a b \<le> a + b"
  by (simp add: sat_add_def)

lemma sat_add_assoc: "sat_add (sat_add a b) c = sat_add a (sat_add b c)"
  by (simp add: sat_add_def)

lemma sat_add_min: "sat_add (min a usize_max) b = sat_add a b"
  by (simp add: sat_add_def)

lemma clamp_i64_bounds: "i64_min \<le> clamp_i64 x \<and> clamp_i64 x \<le> i64_max"
  by (simp add: clamp_i64_def i64_min_def i64_max_def)

lemma clamp_i64_id: "i64_min \<le> x \<Longrightarrow> x \<le> i64_max \<Longrightarrow> clamp_i64 x = x"
  by (simp add: clamp_i64_def)

lemma sat_add_i64_nonneg: "0 \<le> a \<Longrightarrow> 0 \<le> b \<Longrightarrow> 0 \<le> sat_add_i64 a b"
  by (simp add: sat_add_i64_def clamp_i64_def i64_max_def)

lemma i64_of_usize_bounds: "0 \<le> i64_of_usize n \<and> i64_of_usize n \<le> i64_max"
  by (simp add: i64_of_usize_def i64_max_def)

section \<open>Vectors\<close>

text \<open>\<open>Vec::insert\<close> panics when the index is past the length; \<open>None\<close> is the panic.\<close>

definition vec_insert :: "nat \<Rightarrow> 'a \<Rightarrow> 'a list \<Rightarrow> 'a list option" where
  "vec_insert i x xs = (if i \<le> length xs then Some (take i xs @ x # drop i xs) else None)"

text \<open>\<open>Vec::remove\<close> at an index that is known to be in range.\<close>

definition vec_remove :: "nat \<Rightarrow> 'a list \<Rightarrow> 'a list" where
  "vec_remove i xs = take i xs @ drop (Suc i) xs"

lemma length_vec_remove: "i < length xs \<Longrightarrow> length (vec_remove i xs) = length xs - 1"
  by (simp add: vec_remove_def)

lemma vec_insert_Some: "i \<le> length xs \<Longrightarrow> vec_insert i x xs = Some (take i xs @ x # drop i xs)"
  by (simp add: vec_insert_def)

text \<open>\<open>iter().position(p)\<close>.\<close>

fun position :: "('a \<Rightarrow> bool) \<Rightarrow> 'a list \<Rightarrow> nat option" where
  "position p [] = None"
| "position p (x # xs) = (if p x then Some 0 else map_option Suc (position p xs))"

lemma position_None: "position p xs = None \<longleftrightarrow> (\<forall>x\<in>set xs. \<not> p x)"
  by (induction xs) auto

lemma position_Some:
  "position p xs = Some i \<longleftrightarrow> i < length xs \<and> p (xs ! i) \<and> (\<forall>j<i. \<not> p (xs ! j))"
proof (induction xs arbitrary: i)
  case (Cons x xs)
  show ?case by (cases i) (auto simp: Cons.IH All_less_Suc2)
qed simp

text \<open>The last element, and replacing it (\<open>last_mut\<close>).\<close>

definition last_opt :: "'a list \<Rightarrow> 'a option" where
  "last_opt xs = (if xs = [] then None else Some (last xs))"

definition map_last :: "('a \<Rightarrow> 'a) \<Rightarrow> 'a list \<Rightarrow> 'a list" where
  "map_last f xs = (if xs = [] then [] else butlast xs @ [f (last xs)])"

lemma last_opt_simps [simp]:
  "last_opt [] = None" "last_opt (xs @ [x]) = Some x" "last_opt [x] = Some x"
  by (simp_all add: last_opt_def)

lemma last_opt_eq_None [simp]: "last_opt xs = None \<longleftrightarrow> xs = []"
  by (simp add: last_opt_def)

lemma last_opt_Some_iff: "last_opt xs = Some x \<longleftrightarrow> (\<exists>ys. xs = ys @ [x])"
  by (auto simp: last_opt_def) (metis append_butlast_last_id)

lemma map_last_simps [simp]:
  "map_last f [] = []" "map_last f (xs @ [x]) = xs @ [f x]" "map_last f [x] = [f x]"
  by (simp_all add: map_last_def)

lemma map_last_eq_Nil [simp]: "map_last f xs = [] \<longleftrightarrow> xs = []"
  by (simp add: map_last_def)

section \<open>Lists\<close>

lemma find_upt_Some:
  "find p [a..<b] = Some i \<longleftrightarrow> a \<le> i \<and> i < b \<and> p i \<and> (\<forall>j. a \<le> j \<longrightarrow> j < i \<longrightarrow> \<not> p j)"
proof
  assume "find p [a..<b] = Some i"
  then obtain k where k: "k < b - a" "p (a + k)" "i = a + k" "\<forall>j<k. \<not> p (a + j)"
    by (auto simp: find_Some_iff)
  have "\<not> p j" if "a \<le> j" "j < i" for j
    using k(4)[rule_format, of "j - a"] that k(3) by simp
  with k show "a \<le> i \<and> i < b \<and> p i \<and> (\<forall>j. a \<le> j \<longrightarrow> j < i \<longrightarrow> \<not> p j)" by simp
next
  assume R: "a \<le> i \<and> i < b \<and> p i \<and> (\<forall>j. a \<le> j \<longrightarrow> j < i \<longrightarrow> \<not> p j)"
  then show "find p [a..<b] = Some i"
    by (auto simp: find_Some_iff intro!: exI[of _ "i - a"])
qed

lemma find_upt_None:
  "find p [a..<b] = None \<longleftrightarrow> (\<forall>j. a \<le> j \<longrightarrow> j < b \<longrightarrow> \<not> p j)"
  by (auto simp: find_None_iff)

lemma list_all_enumerate:
  "list_all p (enumerate k xs) \<longleftrightarrow> (\<forall>i<length xs. p (k + i, xs ! i))"
proof (induction xs arbitrary: k)
  case (Cons x xs)
  then show ?case by (auto simp: All_less_Suc2)
qed simp

lemma takeWhile_dropWhile_rev:
  "rev (dropWhile p (rev xs)) @ rev (takeWhile p (rev xs)) = xs"
  by (metis rev_append rev_rev_ident takeWhile_dropWhile_id)

end
