(* ===== verification/RustStr.thy ===== *)
theory RustStr
  imports Prelude
begin

text \<open>
  Rust strings. A \<open>char\<close> is a Unicode scalar value, here its code point as a natural
  number, and a \<open>str\<close> is the list of its characters, so that \<open>chars()\<close>, \<open>trim()\<close>
  and the fuzzy matching on typographic punctuation are modelled on the characters
  the code sees. Byte lengths (\<open>len()\<close>) are computed by \<open>str_len\<close> from the UTF-8
  width of each character. The methods of the standard library that the program
  calls are defined here once, with the laws that the components use.
  A literal of the source is written \<open>lit ''...''\<close>.
\<close>

type_synonym uchar = nat
type_synonym str = "nat list"

definition lit :: "string \<Rightarrow> str" where
  "lit s = map of_char s"

lemma lit_simps [run_simps]: "lit [] = []" "lit (c # s) = of_char c # lit s"
  by (simp_all add: lit_def)

lemma length_lit [simp]: "length (lit s) = length s"
  by (simp add: lit_def)

lemma lit_eq_Nil [simp]: "lit s = [] \<longleftrightarrow> s = []"
  by (simp add: lit_def)

lemma set_lit [simp]: "set (lit s) = of_char ` set s"
  by (simp add: lit_def)

section \<open>Characters\<close>

abbreviation NL :: uchar where "NL \<equiv> 10"
abbreviation CR :: uchar where "CR \<equiv> 13"
abbreviation SPACE :: uchar where "SPACE \<equiv> 32"

text \<open>\<open>char::is_whitespace\<close>: the Unicode property White\_Space.\<close>

definition is_whitespace :: "uchar \<Rightarrow> bool" where
  "is_whitespace c \<longleftrightarrow>
     9 \<le> c \<and> c \<le> 13 \<or> c = 32 \<or> c = 0x85 \<or> c = 0xA0 \<or> c = 0x1680 \<or>
     0x2000 \<le> c \<and> c \<le> 0x200A \<or> c = 0x2028 \<or> c = 0x2029 \<or> c = 0x202F \<or> c = 0x205F \<or> c = 0x3000"

definition is_ascii_digit :: "uchar \<Rightarrow> bool" where
  "is_ascii_digit c \<longleftrightarrow> 48 \<le> c \<and> c \<le> 57"

definition to_ascii_lowercase_char :: "uchar \<Rightarrow> uchar" where
  "to_ascii_lowercase_char c = (if 65 \<le> c \<and> c \<le> 90 then c + 32 else c)"

definition to_ascii_lowercase :: "str \<Rightarrow> str" where
  "to_ascii_lowercase s = map to_ascii_lowercase_char s"

text \<open>\<open>char::len_utf8\<close> and \<open>str::len\<close>.\<close>

definition len_utf8 :: "uchar \<Rightarrow> nat" where
  "len_utf8 c = (if c < 0x80 then 1 else if c < 0x800 then 2 else if c < 0x10000 then 3 else 4)"

definition str_len :: "str \<Rightarrow> nat" where
  "str_len s = sum_list (map len_utf8 s)"

lemma len_utf8_pos [simp]: "0 < len_utf8 c"
  by (simp add: len_utf8_def)

lemma len_utf8_le: "len_utf8 c \<le> 4"
  by (simp add: len_utf8_def)

lemma str_len_simps [simp]:
  "str_len [] = 0" "str_len (c # s) = len_utf8 c + str_len s"
  "str_len (s @ t) = str_len s + str_len t"
  by (simp_all add: str_len_def)

lemma str_len_eq_0 [simp]: "str_len s = 0 \<longleftrightarrow> s = []"
  by (cases s) auto

lemma length_le_str_len: "length s \<le> str_len s"
proof (induction s)
  case (Cons c s)
  moreover have "1 \<le> len_utf8 c" by (simp add: len_utf8_def)
  ultimately show ?case by simp
qed simp

lemma not_whitespace_to_lower [simp]:
  "is_whitespace (to_ascii_lowercase_char c) = is_whitespace c"
  by (auto simp: is_whitespace_def to_ascii_lowercase_char_def)

section \<open>Trimming\<close>

definition trim_start :: "str \<Rightarrow> str" where
  "trim_start s = dropWhile is_whitespace s"

definition trim_end :: "str \<Rightarrow> str" where
  "trim_end s = rev (dropWhile is_whitespace (rev s))"

definition trim :: "str \<Rightarrow> str" where
  "trim s = trim_end (trim_start s)"

definition trim_end_matches :: "uchar \<Rightarrow> str \<Rightarrow> str" where
  "trim_end_matches c s = rev (dropWhile (\<lambda>x. x = c) (rev s))"

text \<open>A string that \<open>trim\<close> leaves as it is.\<close>

definition trimmed_end :: "str \<Rightarrow> bool" where
  "trimmed_end s \<longleftrightarrow> s = [] \<or> \<not> is_whitespace (last s)"

definition trimmed :: "str \<Rightarrow> bool" where
  "trimmed s \<longleftrightarrow> s = [] \<or> \<not> is_whitespace (hd s) \<and> \<not> is_whitespace (last s)"

lemma trim_end_Nil [simp]: "trim_end [] = []"
  by (simp add: trim_end_def)

lemma trim_end_snoc: "trim_end (s @ [c]) = (if is_whitespace c then trim_end s else s @ [c])"
  by (simp add: trim_end_def)

lemma trim_end_append: "trim_end t \<noteq> [] \<Longrightarrow> trim_end (s @ t) = s @ trim_end t"
proof (induction t rule: rev_induct)
  case (snoc c t)
  then show ?case by (metis append.assoc trim_end_snoc)
qed simp

lemma trim_end_append_ws: "trim_end t = [] \<Longrightarrow> trim_end (s @ t) = trim_end s"
proof (induction t rule: rev_induct)
  case (snoc c t)
  then show ?case
    by (metis append.assoc snoc_eq_iff_butlast trim_end_snoc)
qed simp

lemma trim_end_eq_Nil: "trim_end s = [] \<longleftrightarrow> (\<forall>c\<in>set s. is_whitespace c)"
  by (simp add: trim_end_def)

lemma trimmed_end_trim_end [simp]: "trimmed_end (trim_end s)"
  by (induction s rule: rev_induct) (auto simp: trim_end_snoc trimmed_end_def)

lemma trim_end_id: "trimmed_end s \<Longrightarrow> trim_end s = s"
  by (cases s rule: rev_cases) (auto simp: trimmed_end_def trim_end_snoc)

lemma trim_end_Cons: "trim_end (c # s) = (if trim_end s = [] \<and> is_whitespace c then [] else c # trim_end s)"
proof (cases "trim_end s = []")
  case True
  then show ?thesis using trim_end_append_ws[of s "[c]"] by (simp add: trim_end_def)
next
  case False
  then show ?thesis using trim_end_append[of s "[c]"] by simp
qed

lemma trim_end_idem [simp]: "trim_end (trim_end s) = trim_end s"
  by (simp add: trim_end_id)

lemma prefix_trim_end: "prefix (trim_end s) s"
proof (induction s rule: rev_induct)
  case (snoc c s)
  then show ?case by (simp add: trim_end_snoc prefix_def) (metis append.assoc)
qed simp

lemma trim_end_hd: "trim_end s \<noteq> [] \<Longrightarrow> hd (trim_end s) = hd s"
  using prefix_trim_end[of s] by (metis hd_append2 prefix_def)

lemma trimmed_trim [simp]: "trimmed (trim s)"
proof -
  have "trim s \<noteq> [] \<Longrightarrow> \<not> is_whitespace (hd (trim s))"
    by (metis hd_dropWhile prefix_trim_end prefix_Nil trim_def trim_end_Nil trim_end_hd trim_start_def)
  then show ?thesis
    using trimmed_end_trim_end[of "trim_start s"] by (auto simp: trimmed_def trimmed_end_def trim_def)
qed

lemma trim_id: "trimmed s \<Longrightarrow> trim s = s"
  by (cases s) (auto simp: trimmed_def trim_def trim_start_def trimmed_end_def intro!: trim_end_id)

lemma trim_idem [simp]: "trim (trim s) = trim s"
  by (simp add: trim_id)

lemma trimmed_imp_trimmed_end: "trimmed s \<Longrightarrow> trimmed_end s"
  by (auto simp: trimmed_def trimmed_end_def)

lemma trim_Nil [simp]: "trim [] = []"
  by (simp add: trim_def trim_start_def)

lemma trim_trim_end: "trim (trim_end s) = trim s"
proof (induction s)
  case (Cons c s)
  show ?case
  proof (cases "is_whitespace c")
    case True
    then show ?thesis using Cons by (auto simp: trim_end_Cons trim_def trim_start_def)
  next
    case False
    then show ?thesis by (simp add: trim_end_Cons trim_def trim_start_def)
  qed
qed simp

lemma trim_of_trim_end_eq: "trim_end s = trim_end t \<Longrightarrow> trim s = trim t"
  by (metis trim_trim_end)

lemma trim_end_nonempty_not_ws: "trim_end s \<noteq> [] \<Longrightarrow> \<not> is_whitespace (last (trim_end s))"
  using trimmed_end_trim_end[of s] by (simp add: trimmed_end_def)

section \<open>Prefixes, suffixes and searching\<close>

definition starts_with :: "str \<Rightarrow> str \<Rightarrow> bool" where
  "starts_with s p \<longleftrightarrow> take (length p) s = p"

definition ends_with :: "str \<Rightarrow> str \<Rightarrow> bool" where
  "ends_with s p \<longleftrightarrow> length p \<le> length s \<and> drop (length s - length p) s = p"

definition strip_prefix :: "str \<Rightarrow> str \<Rightarrow> str option" where
  "strip_prefix s p = (if starts_with s p then Some (drop (length p) s) else None)"

definition strip_suffix :: "str \<Rightarrow> str \<Rightarrow> str option" where
  "strip_suffix s p = (if ends_with s p then Some (take (length s - length p) s) else None)"

lemma starts_with_prefix: "starts_with s p \<longleftrightarrow> prefix p s"
  by (auto simp: starts_with_def prefix_def) (metis append_take_drop_id)

lemma starts_with_append [simp]: "starts_with (p @ s) p"
  by (simp add: starts_with_def)

lemma ends_with_suffix: "ends_with s p \<longleftrightarrow> suffix p s"
  by (auto simp: ends_with_def suffix_def) (metis append_take_drop_id)

lemma strip_prefix_append [simp]: "strip_prefix (p @ s) p = Some s"
  by (simp add: strip_prefix_def)

lemma strip_prefix_Some: "strip_prefix s p = Some r \<longleftrightarrow> s = p @ r"
  by (auto simp: strip_prefix_def starts_with_def) (metis append_take_drop_id)

lemma strip_prefix_None: "strip_prefix s p = None \<longleftrightarrow> \<not> prefix p s"
  by (simp add: strip_prefix_def starts_with_prefix)

lemma strip_suffix_Some: "strip_suffix s p = Some r \<longleftrightarrow> s = r @ p"
  by (auto simp: strip_suffix_def ends_with_def) (metis append_take_drop_id)

lemma strip_suffix_None: "strip_suffix s p = None \<longleftrightarrow> \<not> suffix p s"
  by (simp add: strip_suffix_def ends_with_suffix)

text \<open>
  \<open>str::find\<close> for a non-empty needle. The result is a character position; the code uses
  it only to cut the string at the match, which is the same cut in bytes.
\<close>

fun find_sub :: "str \<Rightarrow> str \<Rightarrow> nat option" where
  "find_sub needle [] = (if needle = [] then Some 0 else None)"
| "find_sub needle (c # s) =
     (if starts_with (c # s) needle then Some 0 else map_option Suc (find_sub needle s))"

definition contains_sub :: "str \<Rightarrow> str \<Rightarrow> bool" where
  "contains_sub s needle \<longleftrightarrow> find_sub needle s \<noteq> None"

lemma find_sub_Some:
  "find_sub needle s = Some i \<longleftrightarrow>
     i \<le> length s \<and> prefix needle (drop i s) \<and> (\<forall>j<i. \<not> prefix needle (drop j s))"
proof (induction s arbitrary: i)
  case Nil
  then show ?case by auto
next
  case (Cons c s)
  show ?case
    by (cases i) (auto simp: Cons.IH starts_with_prefix All_less_Suc2)
qed

lemma find_sub_None:
  "find_sub needle s = None \<longleftrightarrow> (\<forall>j\<le>length s. \<not> prefix needle (drop j s))"
proof (induction s)
  case (Cons c s)
  have "(\<forall>j\<le>Suc (length s). \<not> prefix needle (drop j (c # s))) \<longleftrightarrow>
      \<not> prefix needle (c # s) \<and> (\<forall>j\<le>length s. \<not> prefix needle (drop j s))"
    by (auto simp: all_conj_distrib) (metis Suc_le_mono drop0 drop_Suc_Cons not0_implies_Suc)
  then show ?case by (simp add: Cons.IH starts_with_prefix)
qed auto

section \<open>Splitting, joining, lines\<close>

text \<open>\<open>str::split\<close> on a character.\<close>

fun split_on :: "uchar \<Rightarrow> str \<Rightarrow> str list" where
  "split_on c [] = [[]]"
| "split_on c (x # s) =
     (if x = c then [] # split_on c s
      else (case split_on c s of [] \<Rightarrow> [[x]] | p # ps \<Rightarrow> (x # p) # ps))"

text \<open>\<open>split_once\<close> and \<open>rsplit_once\<close> on a character.\<close>

fun split_once :: "uchar \<Rightarrow> str \<Rightarrow> (str \<times> str) option" where
  "split_once c [] = None"
| "split_once c (x # s) =
     (if x = c then Some ([], s) else map_option (\<lambda>(a, b). (x # a, b)) (split_once c s))"

definition rsplit_once :: "uchar \<Rightarrow> str \<Rightarrow> (str \<times> str) option" where
  "rsplit_once c s = map_option (\<lambda>(a, b). (rev b, rev a)) (split_once c (rev s))"

text \<open>\<open>split_once\<close> with a string separator.\<close>

definition split_once_str :: "str \<Rightarrow> str \<Rightarrow> (str \<times> str) option" where
  "split_once_str sep s =
     (case find_sub sep s of Some i \<Rightarrow> Some (take i s, drop (i + length sep) s) | None \<Rightarrow> None)"

text \<open>\<open>eq_ignore_ascii_case\<close> and \<open>Option::is_some_and\<close>.\<close>

definition eq_ignore_ascii_case :: "str \<Rightarrow> str \<Rightarrow> bool" where
  "eq_ignore_ascii_case a b \<longleftrightarrow> to_ascii_lowercase a = to_ascii_lowercase b"

definition is_some_and :: "('a \<Rightarrow> bool) \<Rightarrow> 'a option \<Rightarrow> bool" where
  "is_some_and p x = (case x of Some y \<Rightarrow> p y | None \<Rightarrow> False)"

text \<open>\<open>[&str]::join\<close>.\<close>

fun join :: "str \<Rightarrow> str list \<Rightarrow> str" where
  "join sep [] = []"
| "join sep [l] = l"
| "join sep (l # ls) = l @ sep @ join sep ls"

text \<open>\<open>str::split_inclusive('\n')\<close>, and \<open>str::lines\<close>, which drops the terminator
  \<open>\n\<close> or \<open>\r\n\<close> of each of its pieces.\<close>

fun split_inclusive_nl :: "str \<Rightarrow> str list" where
  "split_inclusive_nl [] = []"
| "split_inclusive_nl (x # s) =
     (if x = NL then [NL] # split_inclusive_nl s
      else (case split_inclusive_nl s of [] \<Rightarrow> [[x]] | p # ps \<Rightarrow> (x # p) # ps))"

definition strip_cr :: "str \<Rightarrow> str" where
  "strip_cr l = (case strip_suffix l [CR] of Some r \<Rightarrow> r | None \<Rightarrow> l)"

definition strip_line_end :: "str \<Rightarrow> str" where
  "strip_line_end l = (case strip_suffix l [NL] of None \<Rightarrow> l | Some r \<Rightarrow> strip_cr r)"

definition str_lines :: "str \<Rightarrow> str list" where
  "str_lines s = map strip_line_end (split_inclusive_nl s)"

lemma split_on_not_Nil [simp]: "split_on c s \<noteq> []"
  by (induction s) (auto split: list.splits)

lemma split_on_append:
  "c \<notin> set l \<Longrightarrow> split_on c (l @ c # s) = l # split_on c s"
  by (induction l) auto

lemma split_on_id: "c \<notin> set l \<Longrightarrow> split_on c l = [l]"
  by (induction l) auto

lemma split_on_join:
  "ls \<noteq> [] \<Longrightarrow> \<forall>l\<in>set ls. c \<notin> set l \<Longrightarrow> split_on c (join [c] ls) = ls"
  by (induction "[c]" ls rule: join.induct) (auto simp: split_on_append split_on_id)

lemma join_split_on: "join [c] (split_on c s) = s"
proof (induction s)
  case (Cons x s)
  then show ?case
    by (cases "split_on c s"; cases "tl (split_on c s)") (auto split: list.splits)
qed simp

lemma split_on_no_sep: "l \<in> set (split_on c s) \<Longrightarrow> c \<notin> set l"
  by (induction s arbitrary: l) (auto split: list.splits if_splits)

lemma join_snoc: "ls \<noteq> [] \<Longrightarrow> join sep (ls @ [l]) = join sep ls @ sep @ l"
  by (induction sep ls rule: join.induct) auto

lemma join_Cons: "ls \<noteq> [] \<Longrightarrow> join sep (l # ls) = l @ sep @ join sep ls"
  by (cases ls) auto

lemma split_once_Some: "split_once c s = Some (a, b) \<longleftrightarrow> s = a @ c # b \<and> c \<notin> set a"
proof (induction s arbitrary: a)
  case (Cons x s)
  show ?case by (cases a) (auto simp: Cons.IH)
qed simp

lemma split_once_None: "split_once c s = None \<longleftrightarrow> c \<notin> set s"
  by (induction s) auto

lemma rsplit_once_Some: "rsplit_once c s = Some (a, b) \<longleftrightarrow> s = a @ c # b \<and> c \<notin> set b"
proof -
  have "rsplit_once c s = Some (a, b) \<longleftrightarrow> split_once c (rev s) = Some (rev b, rev a)"
    by (auto simp: rsplit_once_def)
  also have "\<dots> \<longleftrightarrow> s = a @ c # b \<and> c \<notin> set b"
    unfolding split_once_Some by (metis append.assoc append_Cons append_Nil rev.simps(2) rev_append rev_rev_ident set_rev)
  finally show ?thesis .
qed

lemma split_inclusive_line:
  "NL \<notin> set l \<Longrightarrow> split_inclusive_nl (l @ NL # s) = (l @ [NL]) # split_inclusive_nl s"
  by (induction l) auto

lemma split_inclusive_last:
  "NL \<notin> set l \<Longrightarrow> split_inclusive_nl l = (if l = [] then [] else [l])"
  by (induction l) auto

lemma strip_line_end_nl [simp]: "strip_line_end (l @ [NL]) = strip_cr l"
  by (simp add: strip_line_end_def strip_suffix_def ends_with_def)

lemma strip_line_end_other: "NL \<notin> set l \<Longrightarrow> strip_line_end l = l"
  by (auto simp: strip_line_end_def strip_suffix_Some split: option.splits)

text \<open>A line of text: no line feed inside and no carriage return at the end.\<close>

definition is_line :: "str \<Rightarrow> bool" where
  "is_line l \<longleftrightarrow> NL \<notin> set l \<and> (l \<noteq> [] \<longrightarrow> last l \<noteq> CR)"

lemma strip_cr_id: "is_line l \<Longrightarrow> strip_cr l = l"
  by (auto simp: strip_cr_def strip_suffix_Some is_line_def split: option.splits)

lemma str_lines_join:
  "\<forall>l\<in>set ls. is_line l \<Longrightarrow> ls = [] \<or> last ls \<noteq> [] \<Longrightarrow> str_lines (join [NL] ls) = ls"
proof (induction "[NL]" ls rule: join.induct)
  case (2 l)
  then show ?case
    by (auto simp: str_lines_def split_inclusive_last strip_line_end_other is_line_def)
next
  case (3 l l' ls)
  then have "str_lines (join [NL] (l' # ls)) = l' # ls" by auto
  with 3 show ?case
    by (auto simp: str_lines_def split_inclusive_line strip_cr_id is_line_def)
qed (simp add: str_lines_def)

lemmas [run_simps] = is_whitespace_def trim_def trim_end_def trim_start_def

section \<open>Numbers and quotes in messages\<close>

text \<open>The decimal rendering of an unsigned integer, as \<open>format!\<close> prints it.\<close>

fun show_nat :: "nat \<Rightarrow> str" where
  "show_nat n = (if n < 10 then [48 + n] else show_nat (n div 10) @ [48 + n mod 10])"

declare show_nat.simps [simp del]

lemma show_nat_digits: "c \<in> set (show_nat n) \<Longrightarrow> is_ascii_digit c"
proof (induction n rule: show_nat.induct)
  case (1 n)
  then show ?case
    by (subst (asm) (2) show_nat.simps) (auto simp: is_ascii_digit_def split: if_splits)
qed

lemma show_nat_not_Nil [simp]: "show_nat n \<noteq> []"
  by (subst show_nat.simps) simp

text \<open>\<open>'{x}'\<close> inside a message.\<close>

definition quoted :: "str \<Rightarrow> str" where
  "quoted s = [39] @ s @ [39]"

section \<open>Unix paths\<close>

text \<open>
  \<open>Path::file_name\<close> on Unix for a path that is valid UTF-8: the last component, unless
  that is the root, the current directory or \<open>..\<close>. Empty components and \<open>.\<close> components
  are not components of a path (a leading \<open>.\<close> is, as \<open>CurDir\<close>).
\<close>

definition path_normal_parts :: "str \<Rightarrow> str list" where
  "path_normal_parts p = filter (\<lambda>x. x \<noteq> [] \<and> x \<noteq> [46]) (split_on 47 p)"

definition path_file_name :: "str \<Rightarrow> str option" where
  "path_file_name p =
     (case last_opt (path_normal_parts p) of
        None \<Rightarrow> None
      | Some l \<Rightarrow> if l = [46, 46] then None else Some l)"

definition path_is_absolute :: "str \<Rightarrow> bool" where
  "path_is_absolute p \<longleftrightarrow> starts_with p [47]"

definition path_component_count :: "str \<Rightarrow> nat" where
  "path_component_count p =
     (if path_is_absolute p then 1 else if hd (split_on 47 p) = [46] then 1 else 0)
     + length (path_normal_parts p)"

lemma path_file_name_bare:
  "47 \<notin> set p \<Longrightarrow> p \<noteq> [] \<Longrightarrow> p \<noteq> [46] \<Longrightarrow> p \<noteq> [46, 46] \<Longrightarrow> path_file_name p = Some p"
  by (simp add: path_file_name_def path_normal_parts_def split_on_id)

lemma path_file_name_no_slash: "path_file_name p = Some n \<Longrightarrow> 47 \<notin> set n \<and> n \<noteq> [] \<and> n \<noteq> [46]"
proof -
  assume "path_file_name p = Some n"
  then have "n \<in> set (path_normal_parts p)"
    by (auto simp: path_file_name_def last_opt_def split: option.splits if_splits)
  then show ?thesis by (auto simp: path_normal_parts_def dest: split_on_no_sep)
qed

end
