(* ===== verification/NetAddr.thy ===== *)
theory NetAddr
  imports RustStr "HOL-Library.Word"
begin

text \<open>
  IP addresses as the network proxy uses them: the parser of the Rust standard library
  (\<open>core::net::parser\<close>: octets without leading zeros, hexadecimal groups, one \<open>::\<close>, an embedded
  IPv4 tail), and the classification of addresses that are not public
  (\<open>network-proxy/src/policy.rs\<close>, \<open>is_non_public_ip\<close>). An IPv4 address is a 32-bit word and an IPv6
  address the list of its eight 16-bit segments. The classes are shown to be intervals, an address
  that embeds an IPv4 address is classified as that address, and a dotted decimal address parses
  back to its octets.
\<close>

unbundle bit_operations_syntax

section \<open>Addresses\<close>

text \<open>\<open>Ipv4Addr\<close> is its 32-bit number, \<open>Ipv6Addr\<close> its eight 16-bit segments.\<close>

type_synonym ipv4 = "32 word"
type_synonym ipv6 = "16 word list"

datatype ip_addr = V4 ipv4 | V6 ipv6

definition ipv4_of_octets :: "nat \<Rightarrow> nat \<Rightarrow> nat \<Rightarrow> nat \<Rightarrow> ipv4" where
  "ipv4_of_octets a b c d = word_of_nat (((a * 256 + b) * 256 + c) * 256 + d)"

definition octet :: "nat \<Rightarrow> ipv4 \<Rightarrow> nat" where
  "octet i ip = unat ip div 2 ^ (8 * (3 - i)) mod 256"

section \<open>Parsing\<close>

text \<open>\<open>char::to_digit\<close> for the radixes 10 and 16.\<close>

definition to_digit :: "nat \<Rightarrow> uchar \<Rightarrow> nat option" where
  "to_digit radix c =
     (let d = (if 48 \<le> c \<and> c \<le> 57 then c - 48
               else if 97 \<le> c \<and> c \<le> 122 then c - 87
               else if 65 \<le> c \<and> c \<le> 90 then c - 55
               else radix)
      in if d < radix then Some d else None)"

text \<open>\<open>Parser::read_number\<close>: the digits are read greedily, the number fails on one digit too many,
  on a leading zero where that is not allowed, and when it does not fit.\<close>

fun read_digits :: "nat \<Rightarrow> nat \<Rightarrow> nat \<Rightarrow> nat \<Rightarrow> str \<Rightarrow> (nat \<times> nat \<times> str) option" where
  "read_digits radix limit result count [] = Some (result, count, [])"
| "read_digits radix limit result count (c # s) =
     (case to_digit radix c of
        None \<Rightarrow> Some (result, count, c # s)
      | Some d \<Rightarrow>
          if count + 1 > limit then None
          else read_digits radix limit (result * radix + d) (count + 1) s)"

definition read_number :: "nat \<Rightarrow> nat \<Rightarrow> bool \<Rightarrow> nat \<Rightarrow> str \<Rightarrow> (nat \<times> str) option" where
  "read_number radix limit allow_zero_prefix bound s =
     (case read_digits radix limit 0 0 s of
        None \<Rightarrow> None
      | Some (result, count, rest) \<Rightarrow>
          if count = 0 then None
          else if \<not> allow_zero_prefix \<and> take 1 s = [48] \<and> count > 1 then None
          else if result < bound then Some (result, rest) else None)"

definition read_given_char :: "uchar \<Rightarrow> str \<Rightarrow> str option" where
  "read_given_char c s = (case s of x # r \<Rightarrow> if x = c then Some r else None | [] \<Rightarrow> None)"

definition read_separator :: "uchar \<Rightarrow> bool \<Rightarrow> (str \<Rightarrow> ('a \<times> str) option) \<Rightarrow> str \<Rightarrow> ('a \<times> str) option" where
  "read_separator sep first inner s =
     (if first then inner s else Option.bind (read_given_char sep s) inner)"

definition read_octet :: "bool \<Rightarrow> str \<Rightarrow> (nat \<times> str) option" where
  "read_octet first = read_separator 46 first (read_number 10 3 False 256)"

definition read_ipv4_addr :: "str \<Rightarrow> (ipv4 \<times> str) option" where
  "read_ipv4_addr s =
     Option.bind (read_octet True s) (\<lambda>(a, s).
     Option.bind (read_octet False s) (\<lambda>(b, s).
     Option.bind (read_octet False s) (\<lambda>(c, s).
     Option.bind (read_octet False s) (\<lambda>(d, s).
       Some (ipv4_of_octets a b c d, s)))))"

definition high_half :: "ipv4 \<Rightarrow> 16 word" where
  "high_half ip = word_of_nat (unat ip div 65536)"

definition low_half :: "ipv4 \<Rightarrow> 16 word" where
  "low_half ip = word_of_nat (unat ip mod 65536)"

text \<open>\<open>read_groups\<close> with \<open>n\<close> groups left to fill: the groups, whether an embedded IPv4 address ends
  them, and the rest of the input.\<close>

fun read_groups :: "nat \<Rightarrow> bool \<Rightarrow> str \<Rightarrow> ipv6 \<times> bool \<times> str" where
  "read_groups 0 first s = ([], False, s)"
| "read_groups (Suc n) first s =
     (case (if n \<ge> 1 then read_separator 58 first read_ipv4_addr s else None) of
        Some (v4, r) \<Rightarrow> ([high_half v4, low_half v4], True, r)
      | None \<Rightarrow>
          (case read_separator 58 first (read_number 16 4 True 65536) s of
             None \<Rightarrow> ([], False, s)
           | Some (g, r) \<Rightarrow>
               (case read_groups n False r of (gs, v4, r) \<Rightarrow> (word_of_nat g # gs, v4, r))))"

definition read_ipv6_addr :: "str \<Rightarrow> (ipv6 \<times> str) option" where
  "read_ipv6_addr s =
     (case read_groups 8 True s of (head, head_ipv4, s) \<Rightarrow>
        if length head = 8 then Some (head, s)
        else if head_ipv4 then None
        else
          Option.bind (read_given_char 58 s) (\<lambda>s.
          Option.bind (read_given_char 58 s) (\<lambda>s.
            (case read_groups (8 - (length head + 1)) True s of (tail, tail_ipv4, s) \<Rightarrow>
               Some (head @ replicate (8 - length head - length tail) 0 @ tail, s)))))"

definition read_ip_addr :: "str \<Rightarrow> (ip_addr \<times> str) option" where
  "read_ip_addr s =
     (case read_ipv4_addr s of
        Some (ip, r) \<Rightarrow> Some (V4 ip, r)
      | None \<Rightarrow> map_option (\<lambda>(ip, r). (V6 ip, r)) (read_ipv6_addr s))"

text \<open>\<open>str::parse::<IpAddr>\<close> succeeds when the whole input is read.\<close>

definition parse_ip :: "str \<Rightarrow> ip_addr option" where
  "parse_ip s =
     (case read_ip_addr s of Some (ip, []) \<Rightarrow> Some ip | _ \<Rightarrow> None)"

section \<open>Classification\<close>

definition v4_is_loopback :: "ipv4 \<Rightarrow> bool" where
  "v4_is_loopback ip \<longleftrightarrow> octet 0 ip = 127"

definition v4_is_private :: "ipv4 \<Rightarrow> bool" where
  "v4_is_private ip \<longleftrightarrow>
     octet 0 ip = 10 \<or> octet 0 ip = 172 \<and> 16 \<le> octet 1 ip \<and> octet 1 ip \<le> 31 \<or>
     octet 0 ip = 192 \<and> octet 1 ip = 168"

definition v4_is_link_local :: "ipv4 \<Rightarrow> bool" where
  "v4_is_link_local ip \<longleftrightarrow> octet 0 ip = 169 \<and> octet 1 ip = 254"

definition v4_is_unspecified :: "ipv4 \<Rightarrow> bool" where
  "v4_is_unspecified ip \<longleftrightarrow> ip = 0"

definition v4_is_multicast :: "ipv4 \<Rightarrow> bool" where
  "v4_is_multicast ip \<longleftrightarrow> 224 \<le> octet 0 ip \<and> octet 0 ip \<le> 239"

definition v4_is_broadcast :: "ipv4 \<Rightarrow> bool" where
  "v4_is_broadcast ip \<longleftrightarrow> ip = - 1"

definition ipv4_in_cidr :: "ipv4 \<Rightarrow> ipv4 \<Rightarrow> nat \<Rightarrow> bool" where
  "ipv4_in_cidr ip base len =
     (let msk = (if len = 0 then 0 else push_bit (32 - len) (- 1))
      in ip AND msk = base AND msk)"

definition is_non_public_ipv4 :: "ipv4 \<Rightarrow> bool" where
  "is_non_public_ipv4 ip \<longleftrightarrow>
     v4_is_loopback ip \<or> v4_is_private ip \<or> v4_is_link_local ip \<or> v4_is_unspecified ip \<or>
     v4_is_multicast ip \<or> v4_is_broadcast ip \<or>
     ipv4_in_cidr ip (ipv4_of_octets 0 0 0 0) 8 \<or>
     ipv4_in_cidr ip (ipv4_of_octets 100 64 0 0) 10 \<or>
     ipv4_in_cidr ip (ipv4_of_octets 192 0 0 0) 24 \<or>
     ipv4_in_cidr ip (ipv4_of_octets 192 0 2 0) 24 \<or>
     ipv4_in_cidr ip (ipv4_of_octets 198 18 0 0) 15 \<or>
     ipv4_in_cidr ip (ipv4_of_octets 198 51 100 0) 24 \<or>
     ipv4_in_cidr ip (ipv4_of_octets 203 0 113 0) 24 \<or>
     ipv4_in_cidr ip (ipv4_of_octets 240 0 0 0) 4"

text \<open>\<open>Ipv6Addr::to_ipv4\<close> reads the compatible (\<open>::a.b.c.d\<close>) and the mapped (\<open>::ffff:a.b.c.d\<close>) form.\<close>

definition join_halves :: "16 word \<Rightarrow> 16 word \<Rightarrow> ipv4" where
  "join_halves hi lo = word_of_nat (unat hi * 65536 + unat lo)"

definition to_ipv4 :: "ipv6 \<Rightarrow> ipv4 option" where
  "to_ipv4 ip =
     (if take 5 ip = [0, 0, 0, 0, 0] \<and> (ip ! 5 = 0 \<or> ip ! 5 = 0xFFFF)
      then Some (join_halves (ip ! 6) (ip ! 7)) else None)"

definition v6_is_loopback :: "ipv6 \<Rightarrow> bool" where
  "v6_is_loopback ip \<longleftrightarrow> ip = [0, 0, 0, 0, 0, 0, 0, 1]"

definition v6_is_unspecified :: "ipv6 \<Rightarrow> bool" where
  "v6_is_unspecified ip \<longleftrightarrow> ip = [0, 0, 0, 0, 0, 0, 0, 0]"

definition v6_is_multicast :: "ipv6 \<Rightarrow> bool" where
  "v6_is_multicast ip \<longleftrightarrow> ip ! 0 AND 0xFF00 = 0xFF00"

definition v6_is_unique_local :: "ipv6 \<Rightarrow> bool" where
  "v6_is_unique_local ip \<longleftrightarrow> ip ! 0 AND 0xFE00 = 0xFC00"

definition v6_is_unicast_link_local :: "ipv6 \<Rightarrow> bool" where
  "v6_is_unicast_link_local ip \<longleftrightarrow> ip ! 0 AND 0xFFC0 = 0xFE80"

definition is_non_public_ipv6 :: "ipv6 \<Rightarrow> bool" where
  "is_non_public_ipv6 ip =
     (case to_ipv4 ip of
        Some v4 \<Rightarrow> is_non_public_ipv4 v4 \<or> v6_is_loopback ip
      | None \<Rightarrow>
          v6_is_loopback ip \<or> v6_is_unspecified ip \<or> v6_is_multicast ip \<or>
          v6_is_unique_local ip \<or> v6_is_unicast_link_local ip)"

fun is_non_public_ip :: "ip_addr \<Rightarrow> bool" where
  "is_non_public_ip (V4 ip) = is_non_public_ipv4 ip"
| "is_non_public_ip (V6 ip) = is_non_public_ipv6 ip"

text \<open>\<open>IpAddr::is_loopback\<close>; a mapped address is not a loopback address for the library.\<close>

fun ip_is_loopback :: "ip_addr \<Rightarrow> bool" where
  "ip_is_loopback (V4 ip) = v4_is_loopback ip"
| "ip_is_loopback (V6 ip) = v6_is_loopback ip"

section \<open>Classes as intervals\<close>

lemma and_not_mask_eq_iff:
  fixes x y :: "'a::len word"
  shows "x AND NOT (mask n) = y AND NOT (mask n) \<longleftrightarrow> drop_bit n x = drop_bit n y"
proof
  assume eq: "x AND NOT (mask n) = y AND NOT (mask n)"
  show "drop_bit n x = drop_bit n y"
  proof (rule bit_word_eqI)
    fix m assume "m < LENGTH('a)"
    have "bit (x AND NOT (mask n)) (n + m) = bit (y AND NOT (mask n)) (n + m)" by (simp only: eq)
    then show "bit (drop_bit n x) m = bit (drop_bit n y) m"
      by (auto simp: bit_simps dest: bit_imp_le_length)
  qed
next
  assume eq: "drop_bit n x = drop_bit n y"
  show "x AND NOT (mask n) = y AND NOT (mask n)"
  proof (rule bit_word_eqI)
    fix m assume "m < LENGTH('a)"
    have "bit (drop_bit n x) (m - n) = bit (drop_bit n y) (m - n)" by (simp only: eq)
    then show "bit (x AND NOT (mask n)) m = bit (y AND NOT (mask n)) m"
      by (auto simp: bit_simps)
  qed
qed

lemma and_not_mask_unat:
  fixes x y :: "'a::len word"
  shows "x AND NOT (mask n) = y AND NOT (mask n) \<longleftrightarrow> unat x div 2 ^ n = unat y div 2 ^ n"
  unfolding and_not_mask_eq_iff
  by (simp only: word_unat_eq_iff[of "drop_bit n x"] unat_drop_bit_eq) (simp add: drop_bit_eq_div)

lemma unat_ipv4_lt: "unat (ip :: ipv4) < 4294967296"
proof -
  have "unat ip < 2 ^ LENGTH(32)" by (rule unsigned_less)
  then show ?thesis by simp
qed

lemma ipv4_in_cidr_iff_div:
  assumes "len \<le> 32"
  shows "ipv4_in_cidr ip base len \<longleftrightarrow> unat ip div 2 ^ (32 - len) = unat base div 2 ^ (32 - len)"
proof (cases "len = 0")
  case True
  have "unat x div 4294967296 = 0" for x :: ipv4 using unat_ipv4_lt[of x] by simp
  then show ?thesis using True by (simp add: ipv4_in_cidr_def)
next
  case False
  have m: "(push_bit (32 - len) (- 1) :: ipv4) = NOT (mask (32 - len))" 
    by (simp add: minus_exp_eq_not_mask push_bit_eq_mult)
  show ?thesis using False by (simp add: ipv4_in_cidr_def m and_not_mask_unat)
qed

lemma unat_word_of_nat_ipv4: "n < 4294967296 \<Longrightarrow> unat (word_of_nat n :: ipv4) = n"
  by (simp add: unsigned_of_nat take_bit_nat_eq_self)

definition ipv4_number :: "nat \<times> nat \<times> nat \<times> nat \<Rightarrow> nat" where
  "ipv4_number q = (case q of (a, b, c, d) \<Rightarrow> ((a * 256 + b) * 256 + c) * 256 + d)"

lemma unat_ipv4_of_octets:
  assumes "a < 256" "b < 256" "c < 256" "d < 256"
  shows "unat (ipv4_of_octets a b c d) = ipv4_number (a, b, c, d)"
  unfolding ipv4_of_octets_def ipv4_number_def prod.case
  by (rule unat_word_of_nat_ipv4) (use assms in simp)

text \<open>The non-public IPv4 addresses as inclusive intervals.\<close>

definition NON_PUBLIC_RANGES :: "((nat \<times> nat \<times> nat \<times> nat) \<times> (nat \<times> nat \<times> nat \<times> nat)) list" where
  "NON_PUBLIC_RANGES =
     [((0, 0, 0, 0), (0, 255, 255, 255)), ((10, 0, 0, 0), (10, 255, 255, 255)),
      ((100, 64, 0, 0), (100, 127, 255, 255)), ((127, 0, 0, 0), (127, 255, 255, 255)),
      ((169, 254, 0, 0), (169, 254, 255, 255)), ((172, 16, 0, 0), (172, 31, 255, 255)),
      ((192, 0, 0, 0), (192, 0, 0, 255)), ((192, 0, 2, 0), (192, 0, 2, 255)),
      ((192, 168, 0, 0), (192, 168, 255, 255)), ((198, 18, 0, 0), (198, 19, 255, 255)),
      ((198, 51, 100, 0), (198, 51, 100, 255)), ((203, 0, 113, 0), (203, 0, 113, 255)),
      ((224, 0, 0, 0), (255, 255, 255, 255))]"

definition in_range :: "ipv4 \<Rightarrow> (nat \<times> nat \<times> nat \<times> nat) \<times> (nat \<times> nat \<times> nat \<times> nat) \<Rightarrow> bool" where
  "in_range ip r \<longleftrightarrow> ipv4_number (fst r) \<le> unat ip \<and> unat ip \<le> ipv4_number (snd r)"

lemma div_eq_interval: "0 < k \<Longrightarrow> n div k = m \<longleftrightarrow> m * k \<le> n \<and> n < m * k + k" for n k m :: nat
  by (metis add.commute div_nat_eqI dividend_less_times_div mult.commute mult_Suc times_div_less_eq_dividend)

lemma octet0: "octet 0 ip = unat ip div 16777216"
proof -
  have "unat ip div 16777216 < 256" using unat_ipv4_lt[of ip] by (simp add: less_mult_imp_div_less)
  then show ?thesis by (simp add: octet_def)
qed

lemma div_le_iff_less: "0 < k \<Longrightarrow> n div k \<le> m \<longleftrightarrow> n < m * k + k" for n k m :: nat
  using div_less_iff_less_mult[of k n "Suc m"] by (simp add: less_Suc_eq_le add.commute)

lemma two_octets:
  "octet 0 ip = p \<and> octet 1 ip = q \<longleftrightarrow> q < 256 \<and> unat ip div 65536 = p * 256 + q"
  and two_octets_between:
  "hi < 256 \<Longrightarrow> octet 0 ip = p \<and> lo \<le> octet 1 ip \<and> octet 1 ip \<le> hi \<longleftrightarrow>
     p * 256 + lo \<le> unat ip div 65536 \<and> unat ip div 65536 \<le> p * 256 + hi"
proof -
  define m where "m = unat ip div 65536"
  have oct: "octet 0 ip = m div 256" "octet 1 ip = m mod 256"
    by (simp add: octet0 m_def flip: div_mult2_eq) (simp add: octet_def m_def)
  have m: "m = 256 * (m div 256) + m mod 256" "m mod 256 < 256" by simp_all
  show "octet 0 ip = p \<and> octet 1 ip = q \<longleftrightarrow> q < 256 \<and> unat ip div 65536 = p * 256 + q"
    unfolding m_def[symmetric] oct using m by (cases "m div 256" p rule: linorder_cases) linarith+
  show "octet 0 ip = p \<and> lo \<le> octet 1 ip \<and> octet 1 ip \<le> hi \<longleftrightarrow>
     p * 256 + lo \<le> unat ip div 65536 \<and> unat ip div 65536 \<le> p * 256 + hi" if "hi < 256"
    unfolding m_def[symmetric] oct
    using m that by (cases "m div 256" p rule: linorder_cases) linarith+
qed

lemma cidr_interval:
  assumes "len \<le> 32" "a < 256" "b < 256" "c < 256" "d < 256"
  shows "ipv4_in_cidr ip (ipv4_of_octets a b c d) len \<longleftrightarrow>
    ipv4_number (a, b, c, d) div 2 ^ (32 - len) * 2 ^ (32 - len) \<le> unat ip \<and>
    unat ip < ipv4_number (a, b, c, d) div 2 ^ (32 - len) * 2 ^ (32 - len) + 2 ^ (32 - len)"
  using assms by (simp add: ipv4_in_cidr_iff_div unat_ipv4_of_octets div_eq_interval)

lemma class_intervals:
  "v4_is_loopback ip \<longleftrightarrow> 2130706432 \<le> unat ip \<and> unat ip < 2147483648"
  "v4_is_private ip \<longleftrightarrow> 167772160 \<le> unat ip \<and> unat ip < 184549376 \<or>
     2886729728 \<le> unat ip \<and> unat ip < 2887778304 \<or> 3232235520 \<le> unat ip \<and> unat ip < 3232301056"
  "v4_is_link_local ip \<longleftrightarrow> 2851995648 \<le> unat ip \<and> unat ip < 2852061184"
  "v4_is_unspecified ip \<longleftrightarrow> unat ip = 0"
  "v4_is_multicast ip \<longleftrightarrow> 3758096384 \<le> unat ip \<and> unat ip < 4026531840"
  "v4_is_broadcast ip \<longleftrightarrow> unat ip = 4294967295"
proof -
  show "v4_is_loopback ip \<longleftrightarrow> 2130706432 \<le> unat ip \<and> unat ip < 2147483648"
    by (simp add: v4_is_loopback_def octet0 div_eq_interval)
  have small: "31 < (256 :: nat)" by simp
  show "v4_is_private ip \<longleftrightarrow> 167772160 \<le> unat ip \<and> unat ip < 184549376 \<or>
     2886729728 \<le> unat ip \<and> unat ip < 2887778304 \<or> 3232235520 \<le> unat ip \<and> unat ip < 3232301056"
    unfolding v4_is_private_def two_octets two_octets_between[OF small]
    by (simp add: octet0 div_eq_interval less_eq_div_iff_mult_less_eq div_le_iff_less)
  show "v4_is_link_local ip \<longleftrightarrow> 2851995648 \<le> unat ip \<and> unat ip < 2852061184"
    unfolding v4_is_link_local_def two_octets by (simp add: div_eq_interval)
  show "v4_is_unspecified ip \<longleftrightarrow> unat ip = 0"
    by (simp add: v4_is_unspecified_def unat_eq_0)
  show "v4_is_multicast ip \<longleftrightarrow> 3758096384 \<le> unat ip \<and> unat ip < 4026531840"
    by (simp add: v4_is_multicast_def octet0 less_eq_div_iff_mult_less_eq div_le_iff_less)
  have "(- 1 :: ipv4) = word_of_nat 4294967295" by simp
  then have "unat (- 1 :: ipv4) = 4294967295" by (simp only: unat_word_of_nat_ipv4)
  then show "v4_is_broadcast ip \<longleftrightarrow> unat ip = 4294967295"
    unfolding v4_is_broadcast_def by (metis word_unat_eq_iff)
qed

text \<open>
  The SSRF classification of IPv4 addresses: an address is non-public exactly when it lies in
  one of thirteen intervals, from \<open>0.0.0.0/8\<close> to the last eighth of the address space.
\<close>
theorem non_public_ipv4_ranges:
  "is_non_public_ipv4 ip \<longleftrightarrow> list_ex (in_range ip) NON_PUBLIC_RANGES"
proof -
  have ranges: "in_range ip r \<longleftrightarrow> ipv4_number (fst r) \<le> unat ip \<and> unat ip < ipv4_number (snd r) + 1" for r
    by (simp add: in_range_def less_Suc_eq_le)
  show ?thesis
    unfolding is_non_public_ipv4_def NON_PUBLIC_RANGES_def class_intervals
    using unat_ipv4_lt[of ip]
    by (simp add: ranges cidr_interval ipv4_number_def) (rule iffI; elim disjE; ((simp; fail) | auto))
qed

lemma unat_segment_lt: "unat (g :: 16 word) < 65536"
proof -
  have "unat g < 2 ^ LENGTH(16)" by (rule unsigned_less)
  then show ?thesis by simp
qed

lemma segment_classes:
  fixes g :: "16 word"
  shows "g AND 0xFF00 = 0xFF00 \<longleftrightarrow> 0xFF00 \<le> unat g"
    "g AND 0xFE00 = 0xFC00 \<longleftrightarrow> 0xFC00 \<le> unat g \<and> unat g < 0xFE00"
    "g AND 0xFFC0 = 0xFE80 \<longleftrightarrow> 0xFE80 \<le> unat g \<and> unat g < 0xFEC0"
proof -
  have "(0xFF00 :: 16 word) = NOT (mask 8)" "(0xFE00 :: 16 word) = NOT (mask 9)" "(0xFFC0 :: 16 word) = NOT (mask 6)"
    by (simp_all add: mask_eq_exp_minus_1)
  note masks = this
  have "(0xFF00 :: 16 word) = 0xFF00 AND 0xFF00" "(0xFC00 :: 16 word) = 0xFC00 AND 0xFE00"
    "(0xFE80 :: 16 word) = 0xFE80 AND 0xFFC0" by simp_all
  note eqs = this
  have "unat (0xFF00 :: 16 word) = 0xFF00" "unat (0xFC00 :: 16 word) = 0xFC00" "unat (0xFE80 :: 16 word) = 0xFE80"
    by simp_all
  note unats = this
  show "g AND 0xFF00 = 0xFF00 \<longleftrightarrow> 0xFF00 \<le> unat g"
    using and_not_mask_unat[of g 8 "0xFF00"] unat_segment_lt[of g]
    unfolding masks[symmetric] by (simp add: div_eq_interval)
  show "g AND 0xFE00 = 0xFC00 \<longleftrightarrow> 0xFC00 \<le> unat g \<and> unat g < 0xFE00"
    using and_not_mask_unat[of g 9 "0xFC00"]
    unfolding masks[symmetric] by (simp add: div_eq_interval)
  show "g AND 0xFFC0 = 0xFE80 \<longleftrightarrow> 0xFE80 \<le> unat g \<and> unat g < 0xFEC0"
    using and_not_mask_unat[of g 6 "0xFE80"]
    unfolding masks[symmetric] by (simp add: div_eq_interval)
qed

text \<open>The IPv4 address that the last two segments of a compatible or mapped address hold.\<close>

definition embeds_ipv4 :: "ipv6 \<Rightarrow> bool" where
  "embeds_ipv4 ip \<longleftrightarrow> take 5 ip = [0, 0, 0, 0, 0] \<and> (ip ! 5 = 0 \<or> ip ! 5 = 0xFFFF)"

lemma small_ipv4_non_public: "unat ip < 16777216 \<Longrightarrow> is_non_public_ipv4 ip"
proof -
  assume "unat ip < 16777216"
  then have "ipv4_in_cidr ip (ipv4_of_octets 0 0 0 0) 8"
    by (simp add: cidr_interval ipv4_number_def)
  then show ?thesis by (simp add: is_non_public_ipv4_def)
qed

lemma eight_segments: "length ip = 8 \<Longrightarrow> \<exists>a b c d e f g h. ip = [a, b, c, d, e, f, g, h]"
  by (auto simp: numeral_eq_Suc length_Suc_conv)

text \<open>
  The SSRF classification of IPv6 addresses: a compatible or IPv4-mapped address is non-public
  exactly when the IPv4 address inside it is, so \<open>::ffff:127.0.0.1\<close> is no way around the check;
  any other address is non-public exactly when its first segment is in \<open>fc00::/7\<close>, \<open>fe80::/10\<close> or
  \<open>ff00::/8\<close>.
\<close>
theorem non_public_ipv6_ranges:
  assumes "length ip = 8"
  shows "is_non_public_ipv6 ip \<longleftrightarrow>
    (if embeds_ipv4 ip then is_non_public_ipv4 (join_halves (ip ! 6) (ip ! 7))
     else 0xFC00 \<le> unat (hd ip) \<and> unat (hd ip) < 0xFE00 \<or>
          0xFE80 \<le> unat (hd ip) \<and> unat (hd ip) < 0xFEC0 \<or> 0xFF00 \<le> unat (hd ip))"
proof -
  obtain a b c d e f g h where ip: "ip = [a, b, c, d, e, f, g, h]" using eight_segments[OF assms] by blast
  have "join_halves 0 1 = 1" by (simp add: join_halves_def)
  then have "is_non_public_ipv4 (join_halves 0 1)" by (simp add: small_ipv4_non_public)
  then show ?thesis
    unfolding ip is_non_public_ipv6_def to_ipv4_def embeds_ipv4_def v6_is_loopback_def v6_is_unspecified_def
      v6_is_multicast_def v6_is_unique_local_def v6_is_unicast_link_local_def
    by (auto simp: segment_classes)
qed

theorem non_public_ipv6_ranges_witness:
  "\<not> is_non_public_ipv6 [0x2001, 0xdb8, 0, 0, 0, 0, 0, 1] \<and>
   is_non_public_ipv6 [0xfe80, 0, 0, 0, 0, 0, 0, 1] \<and>
   is_non_public_ipv6 [0, 0, 0, 0, 0, 0xFFFF, 0x7F00, 1] = is_non_public_ipv4 (ipv4_of_octets 127 0 0 1)"
  using non_public_ipv6_ranges[of "[0x2001, 0xdb8, 0, 0, 0, 0, 0, 1]"]
    non_public_ipv6_ranges[of "[0xfe80, 0, 0, 0, 0, 0, 0, 1]"]
    non_public_ipv6_ranges[of "[0, 0, 0, 0, 0, 0xFFFF, 0x7F00, 1]"]
  by (simp add: embeds_ipv4_def join_halves_def ipv4_of_octets_def)

section \<open>What the parser accepts\<close>

lemma read_groups_length: "length (fst (read_groups n first s)) \<le> n"
  by (induction n first s rule: read_groups.induct) (auto split: option.splits prod.splits)

lemma read_ipv6_addr_length: "read_ipv6_addr s = Some (ip, r) \<Longrightarrow> length ip = 8"
proof -
  assume r: "read_ipv6_addr s = Some (ip, r)"
  obtain head b s' where h: "read_groups 8 True s = (head, b, s')" by (cases "read_groups 8 True s")
  have l: "length head \<le> 8" using read_groups_length[of 8 True s] h by simp
  have t: "length (fst (read_groups (7 - length head) True u)) \<le> 7 - length head" for u
    by (rule read_groups_length)
  have "length (head @ replicate (8 - (length head + length x)) 0 @ x) = 8" if "length x \<le> 7 - length head" "length head \<noteq> 8" for x :: ipv6
    using that l by simp
  then have e: "length (head @ replicate (8 - (length head + length (fst (read_groups (7 - length head) True u)))) 0 @
      fst (read_groups (7 - length head) True u)) = 8" if "length head \<noteq> 8" for u
    using that t by blast
  from r l show ?thesis
    by (auto simp: read_ipv6_addr_def h bind_eq_Some_conv case_prod_beta simp del: length_append split: if_splits intro!: e)
qed

lemma parse_ip_V6_length: "parse_ip s = Some (V6 ip) \<Longrightarrow> length ip = 8"
  by (auto simp: parse_ip_def read_ip_addr_def split: option.splits list.splits prod.splits dest: read_ipv6_addr_length)

lemma to_digit_digit: "is_ascii_digit c \<Longrightarrow> to_digit 10 c = Some (c - 48)"
  by (auto simp: to_digit_def is_ascii_digit_def Let_def)

lemma read_digits_append:
  "\<forall>c\<in>set ds. is_ascii_digit c \<Longrightarrow> k + length ds \<le> lim \<Longrightarrow>
   read_digits 10 lim r k (ds @ rest) = read_digits 10 lim (foldl (\<lambda>a c. a * 10 + (c - 48)) r ds) (k + length ds) rest"
  by (induction ds arbitrary: r k) (auto simp: to_digit_digit)

lemma show_nat_value: "foldl (\<lambda>a c. a * 10 + (c - 48)) 0 (show_nat n) = n"
proof (induction n rule: show_nat.induct)
  case (1 n)
  then show ?case by (subst show_nat.simps) (auto simp: mult.commute)
qed

lemma length_show_octet: "n < 256 \<Longrightarrow> length (show_nat n) \<le> 3"
  by (subst show_nat.simps, subst show_nat.simps, subst show_nat.simps) auto

lemma show_nat_leading_zero: "take 1 (show_nat n) = [48] \<Longrightarrow> n = 0"
proof (induction n rule: show_nat.induct)
  case (1 n)
  show ?case
  proof (cases "n < 10")
    case True
    with 1(2) show ?thesis by (subst (asm) show_nat.simps) simp
  next
    case False
    then have "show_nat n = show_nat (n div 10) @ [48 + n mod 10]" by (subst show_nat.simps) simp
    with 1(2) have "take 1 (show_nat (n div 10)) = [48]" by (cases "show_nat (n div 10)") auto
    from 1(1)[OF False this] False show ?thesis by simp
  qed
qed

definition no_digit_first :: "str \<Rightarrow> bool" where
  "no_digit_first s \<longleftrightarrow> s = [] \<or> to_digit 10 (hd s) = None"

lemma read_number_show_nat:
  assumes "n < 256" "no_digit_first rest"
  shows "read_number 10 3 False 256 (show_nat n @ rest) = Some (n, rest)"
proof -
  have "read_digits 10 3 0 0 (show_nat n @ rest) = read_digits 10 3 n (length (show_nat n)) rest"
    using read_digits_append[of "show_nat n" 0 3 0 rest] length_show_octet[OF assms(1)] show_nat_digits
    by (simp add: show_nat_value)
  also have "\<dots> = Some (n, length (show_nat n), rest)"
    using assms(2) by (cases rest) (auto simp: no_digit_first_def)
  finally have d: "read_digits 10 3 0 0 (show_nat n @ rest) = Some (n, length (show_nat n), rest)" .
  have z: "take 1 (show_nat n @ rest) = take 1 (show_nat n)" by (cases "show_nat n") auto
  have "length (show_nat 0) = 1" by (simp add: show_nat.simps)
  then have "\<not> (take 1 (show_nat n) = [48] \<and> length (show_nat n) > 1)"
    using show_nat_leading_zero[of n] by auto
  then show ?thesis using assms(1) by (simp add: read_number_def d z del: One_nat_def take_append)
qed

definition show_ipv4 :: "nat \<times> nat \<times> nat \<times> nat \<Rightarrow> str" where
  "show_ipv4 q = (case q of (a, b, c, d) \<Rightarrow>
     show_nat a @ [46] @ show_nat b @ [46] @ show_nat c @ [46] @ show_nat d)"

lemma no_digit_first_dot [simp]: "no_digit_first (46 # s)" "no_digit_first []"
  by (simp_all add: no_digit_first_def to_digit_def)

lemma read_ipv4_show:
  assumes "a < 256" "b < 256" "c < 256" "d < 256" "no_digit_first rest"
  shows "read_ipv4_addr (show_ipv4 (a, b, c, d) @ rest) = Some (ipv4_of_octets a b c d, rest)"
  using assms by (simp add: read_ipv4_addr_def show_ipv4_def read_octet_def read_separator_def
      read_given_char_def read_number_show_nat)

lemma parse_ip_show:
  "a < 256 \<Longrightarrow> b < 256 \<Longrightarrow> c < 256 \<Longrightarrow> d < 256 \<Longrightarrow>
   parse_ip (show_ipv4 (a, b, c, d)) = Some (V4 (ipv4_of_octets a b c d))"
  using read_ipv4_show[of a b c d "[]"] by (simp add: parse_ip_def read_ip_addr_def)

end
