(* ===== verification/NetPolicy.thy ===== *)
theory NetPolicy
  imports NetAddr
begin

text \<open>
  The host and domain rules of the network proxy (\<open>network-proxy/src/policy.rs\<close>): the normal form of
  a host, domain patterns (an exact host, \<open>*.domain\<close> for the subdomains, \<open>**.domain\<close> for the domain
  and its subdomains, \<open>*\<close> for every host), the comparison of a user's pattern with a managed one,
  and the compilation of pattern lists with the \<open>globset\<close> crate, which is a parameter. The
  comparison is shown to be inclusion of the hosts covered, and a compiled list to match exactly
  what one of its patterns covers.
\<close>

section \<open>Hosts\<close>

text \<open>\<open>unscoped_ip_literal\<close>: the address before the zone of a scoped literal.\<close>

definition unscoped_ip_literal :: "str \<Rightarrow> str option" where
  "unscoped_ip_literal host =
     (case split_once 37 host of
        None \<Rightarrow> None
      | Some (ip, zone) \<Rightarrow> if parse_ip ip \<noteq> None then Some ip else None)"

fun normalize_scoped :: "str list \<Rightarrow> str \<Rightarrow> str option" where
  "normalize_scoped [] host = None"
| "normalize_scoped (delimiter # ds) host =
     (case split_once_str delimiter host of
        Some (ip, zone) \<Rightarrow>
          if parse_ip ip \<noteq> None then Some (ip @ [37] @ zone) else normalize_scoped ds host
      | None \<Rightarrow> normalize_scoped ds host)"

definition normalize_ip_literal :: "str \<Rightarrow> str option" where
  "normalize_ip_literal host =
     (if parse_ip host \<noteq> None then Some host
      else normalize_scoped [lit ''%25'', lit ''%''] host)"

definition normalize_dns_host_or_ip_literal :: "str \<Rightarrow> str" where
  "normalize_dns_host_or_ip_literal host =
     (let host = trim_end_matches 46 (to_ascii_lowercase host)
      in case normalize_ip_literal host of Some ip \<Rightarrow> ip | None \<Rightarrow> host)"

definition normalize_host :: "str \<Rightarrow> str" where
  "normalize_host host =
     (let host = trim host
      in case (if starts_with host [91] then find_sub [93] host else None) of
           Some end_pos \<Rightarrow> normalize_dns_host_or_ip_literal (drop 1 (take end_pos host))
         | None \<Rightarrow>
             if length (filter (\<lambda>b. b = 58) host) = 1
             then normalize_dns_host_or_ip_literal (hd (split_on 58 host))
             else normalize_dns_host_or_ip_literal host)"

text \<open>\<open>Host::parse\<close>; the only error is an empty host.\<close>

definition host_parse :: "str \<Rightarrow> str option" where
  "host_parse input = (let normalized = normalize_host input in if normalized = [] then None else Some normalized)"

definition is_loopback_host :: "str \<Rightarrow> bool" where
  "is_loopback_host host =
     (let host = (case unscoped_ip_literal host of Some ip \<Rightarrow> ip | None \<Rightarrow> host)
      in if host = lit ''localhost'' then True
         else (case parse_ip host of Some ip \<Rightarrow> ip_is_loopback ip | None \<Rightarrow> False))"

section \<open>Domain patterns\<close>

definition normalize_pattern :: "str \<Rightarrow> str" where
  "normalize_pattern pattern =
     (let pattern = trim pattern
      in if pattern = lit ''*'' then lit ''*''
         else
           (let (pre, remainder) =
              (case strip_prefix pattern (lit ''**.'') of
                 Some domain \<Rightarrow> (lit ''**.'', domain)
               | None \<Rightarrow>
                   (case strip_prefix pattern (lit ''*.'') of
                      Some domain \<Rightarrow> (lit ''*.'', domain)
                    | None \<Rightarrow> ([], pattern)));
                remainder = normalize_host remainder
            in if pre = [] then remainder else pre @ remainder))"

datatype domain_pattern = ApexAndSubdomains str | SubdomainsOnly str | Exact str

definition parse_domain :: "str \<Rightarrow> (str \<Rightarrow> domain_pattern) \<Rightarrow> domain_pattern" where
  "parse_domain domain build =
     (let domain = trim domain in if domain = [] then Exact [] else build domain)"

definition parse_domain_pattern :: "str \<Rightarrow> domain_pattern" where
  "parse_domain_pattern input =
     (let input = trim input
      in if input = [] then Exact []
         else (case strip_prefix input (lit ''**.'') of
                 Some domain \<Rightarrow> parse_domain domain ApexAndSubdomains
               | None \<Rightarrow>
                   (case strip_prefix input (lit ''*.'') of
                      Some domain \<Rightarrow> parse_domain domain SubdomainsOnly
                    | None \<Rightarrow> Exact input)))"

text \<open>The \<open>url\<close> crate's \<open>Host::parse\<close>, rendered back, is the parameter \<open>url_host\<close>.\<close>

definition parse_domain_for_constraints :: "(str \<Rightarrow> str option) \<Rightarrow> str \<Rightarrow> str" where
  "parse_domain_for_constraints url_host domain =
     (let domain = trim_end_matches 46 (trim domain)
      in if domain = [] then []
         else
           (let host = (if starts_with domain [91] \<and> ends_with domain [93]
                        then drop 1 (take (length domain - 1) domain) else domain)
            in if 42 \<in> set host \<or> 63 \<in> set host \<or> 37 \<in> set host then domain
               else (case url_host host of Some host \<Rightarrow> host | None \<Rightarrow> [])))"

definition parse_for_constraints :: "(str \<Rightarrow> str option) \<Rightarrow> str \<Rightarrow> domain_pattern" where
  "parse_for_constraints url_host input =
     (let input = trim input
      in if input = [] then Exact []
         else (case strip_prefix input (lit ''**.'') of
                 Some domain \<Rightarrow> ApexAndSubdomains (parse_domain_for_constraints url_host domain)
               | None \<Rightarrow>
                   (case strip_prefix input (lit ''*.'') of
                      Some domain \<Rightarrow> SubdomainsOnly (parse_domain_for_constraints url_host domain)
                    | None \<Rightarrow> Exact (parse_domain_for_constraints url_host input))))"

definition normalize_domain :: "str \<Rightarrow> str" where
  "normalize_domain domain = to_ascii_lowercase (trim_end_matches 46 domain)"

definition domain_eq :: "str \<Rightarrow> str \<Rightarrow> bool" where
  "domain_eq left right \<longleftrightarrow> normalize_domain left = normalize_domain right"

definition is_subdomain_or_equal :: "str \<Rightarrow> str \<Rightarrow> bool" where
  "is_subdomain_or_equal child parent =
     (let child = normalize_domain child; parent = normalize_domain parent
      in if child = parent then True else ends_with child ([46] @ parent))"

definition is_strict_subdomain :: "str \<Rightarrow> str \<Rightarrow> bool" where
  "is_strict_subdomain child parent =
     (let child = normalize_domain child; parent = normalize_domain parent
      in child \<noteq> parent \<and> ends_with child ([46] @ parent))"

fun allows :: "domain_pattern \<Rightarrow> domain_pattern \<Rightarrow> bool" where
  "allows (Exact domain) (Exact candidate) = domain_eq candidate domain"
| "allows (Exact domain) _ = False"
| "allows (SubdomainsOnly domain) (Exact candidate) = is_strict_subdomain candidate domain"
| "allows (SubdomainsOnly domain) (SubdomainsOnly candidate) = is_subdomain_or_equal candidate domain"
| "allows (SubdomainsOnly domain) (ApexAndSubdomains candidate) = is_strict_subdomain candidate domain"
| "allows (ApexAndSubdomains domain) (Exact candidate) = is_subdomain_or_equal candidate domain"
| "allows (ApexAndSubdomains domain) (SubdomainsOnly candidate) = is_subdomain_or_equal candidate domain"
| "allows (ApexAndSubdomains domain) (ApexAndSubdomains candidate) = is_subdomain_or_equal candidate domain"

definition expand_domain_pattern :: "str \<Rightarrow> str list" where
  "expand_domain_pattern pattern =
     (case parse_domain_pattern pattern of
        Exact domain \<Rightarrow> [domain]
      | SubdomainsOnly domain \<Rightarrow> [lit ''?*.'' @ domain]
      | ApexAndSubdomains domain \<Rightarrow> [domain, lit ''?*.'' @ domain])"

definition is_global_wildcard_domain_pattern :: "str \<Rightarrow> bool" where
  "is_global_wildcard_domain_pattern pattern \<longleftrightarrow>
     list_ex (\<lambda>candidate. candidate = lit ''*'') (expand_domain_pattern (normalize_pattern pattern))"

section \<open>Compiled pattern sets\<close>

text \<open>
  The \<open>globset\<close> crate: building a case-insensitive glob, building a glob with backslash escapes and
  a choice for the path separator, matching one glob, building a set of globs and matching the set.
\<close>

record ('g, 's) glob_engine =
  build_glob :: "str \<Rightarrow> 'g option"
  build_escaped_glob :: "bool \<Rightarrow> str \<Rightarrow> 'g option"
  glob_is_match :: "'g \<Rightarrow> str \<Rightarrow> bool"
  build_set :: "'g list \<Rightarrow> 's option"
  set_is_match :: "'s \<Rightarrow> str \<Rightarrow> bool"

datatype global_wildcard = AllowGlobalWildcard | RejectGlobalWildcard

datatype globset_error =
    GlobalWildcardUnsupported
  | InvalidGlobPattern str
  | GlobSetBuildFailed

text \<open>The candidates of one pattern; a candidate that was seen before adds nothing.\<close>

fun add_candidates ::
  "('g, 's) glob_engine \<Rightarrow> str set \<times> 'g list \<Rightarrow> str list \<Rightarrow> globset_error + str set \<times> 'g list" where
  "add_candidates eng st [] = Inr st"
| "add_candidates eng (seen, globs) (candidate # cs) =
     (if candidate \<in> seen then add_candidates eng (seen, globs) cs
      else (case build_glob eng candidate of
              None \<Rightarrow> Inl (InvalidGlobPattern candidate)
            | Some glob \<Rightarrow> add_candidates eng (insert candidate seen, globs @ [glob]) cs))"

fun add_patterns ::
  "('g, 's) glob_engine \<Rightarrow> global_wildcard \<Rightarrow> str set \<times> 'g list \<Rightarrow> str list \<Rightarrow> globset_error + str set \<times> 'g list" where
  "add_patterns eng gw st [] = Inr st"
| "add_patterns eng gw st (pattern # ps) =
     (if gw = RejectGlobalWildcard \<and> is_global_wildcard_domain_pattern pattern
      then Inl GlobalWildcardUnsupported
      else (case add_candidates eng st (expand_domain_pattern (normalize_pattern pattern)) of
              Inl e \<Rightarrow> Inl e
            | Inr st' \<Rightarrow> add_patterns eng gw st' ps))"

definition compile_globset_with_policy ::
  "('g, 's) glob_engine \<Rightarrow> global_wildcard \<Rightarrow> str list \<Rightarrow> globset_error + 's" where
  "compile_globset_with_policy eng gw patterns =
     (case add_patterns eng gw ({}, []) patterns of
        Inl e \<Rightarrow> Inl e
      | Inr (seen, globs) \<Rightarrow>
          (case build_set eng globs of None \<Rightarrow> Inl GlobSetBuildFailed | Some s \<Rightarrow> Inr s))"

definition compile_allowlist_globset :: "('g, 's) glob_engine \<Rightarrow> str list \<Rightarrow> globset_error + 's" where
  "compile_allowlist_globset eng = compile_globset_with_policy eng AllowGlobalWildcard"

definition compile_denylist_globset :: "('g, 's) glob_engine \<Rightarrow> str list \<Rightarrow> globset_error + 's" where
  "compile_denylist_globset eng = compile_globset_with_policy eng RejectGlobalWildcard"

section \<open>Domains\<close>

lemma trim_end_matches_snoc:
  "trim_end_matches c (s @ [x]) = (if x = c then trim_end_matches c s else s @ [x])"
  by (simp add: trim_end_matches_def)

lemma trim_end_matches_id: "s = [] \<or> last s \<noteq> c \<Longrightarrow> trim_end_matches c s = s"
  by (cases s rule: rev_cases) (auto simp: trim_end_matches_def)

lemma last_trim_end_matches: "trim_end_matches c s \<noteq> [] \<Longrightarrow> last (trim_end_matches c s) \<noteq> c"
  by (induction s rule: rev_induct) (auto simp: trim_end_matches_snoc trim_end_matches_def)

lemma to_ascii_lowercase_idem [simp]: "to_ascii_lowercase (to_ascii_lowercase s) = to_ascii_lowercase s"
  by (simp add: to_ascii_lowercase_def to_ascii_lowercase_char_def)

lemma to_ascii_lowercase_append [simp]:
  "to_ascii_lowercase (s @ t) = to_ascii_lowercase s @ to_ascii_lowercase t"
  by (simp add: to_ascii_lowercase_def)

lemma to_ascii_lowercase_eq_Nil [simp]: "to_ascii_lowercase s = [] \<longleftrightarrow> s = []"
  by (simp add: to_ascii_lowercase_def)

lemma lowercase_char_eq_dot [simp]: "to_ascii_lowercase_char c = 46 \<longleftrightarrow> c = 46"
  by (simp add: to_ascii_lowercase_char_def)

lemma to_ascii_lowercase_dot [simp]: "to_ascii_lowercase (46 # s) = 46 # to_ascii_lowercase s"
  by (simp add: to_ascii_lowercase_def to_ascii_lowercase_char_def)

lemma last_normalize_domain: "normalize_domain d \<noteq> [] \<Longrightarrow> last (normalize_domain d) \<noteq> 46"
  using last_trim_end_matches[of 46 d]
  by (auto simp: normalize_domain_def to_ascii_lowercase_def last_map)

lemma normalize_domain_idem [simp]: "normalize_domain (normalize_domain d) = normalize_domain d"
  using last_normalize_domain[of d]
  by (cases "normalize_domain d = []")
    (simp_all add: normalize_domain_def[of "normalize_domain d"] trim_end_matches_id,
     simp_all add: normalize_domain_def trim_end_matches_def)

lemma normalize_domain_subdomain:
  "normalize_domain d \<noteq> [] \<Longrightarrow>
   normalize_domain (l @ [46] @ normalize_domain d) = to_ascii_lowercase l @ [46] @ normalize_domain d"
  using last_normalize_domain[of d]
  by (simp add: normalize_domain_def[of "l @ _"] trim_end_matches_id)
    (simp add: normalize_domain_def)

lemma is_subdomain_or_equal_iff:
  "is_subdomain_or_equal c p \<longleftrightarrow>
     normalize_domain c = normalize_domain p \<or> (\<exists>l. normalize_domain c = l @ [46] @ normalize_domain p)"
  by (auto simp: is_subdomain_or_equal_def Let_def ends_with_suffix suffix_def)

lemma is_strict_subdomain_iff:
  "is_strict_subdomain c p \<longleftrightarrow> (\<exists>l. normalize_domain c = l @ [46] @ normalize_domain p)"
  by (auto simp: is_strict_subdomain_def Let_def ends_with_suffix suffix_def)

text \<open>The hosts that a pattern covers, as the configuration documents it.\<close>

fun covers :: "domain_pattern \<Rightarrow> str \<Rightarrow> bool" where
  "covers (Exact d) h = (normalize_domain h = normalize_domain d)"
| "covers (SubdomainsOnly d) h = (\<exists>l. l \<noteq> [] \<and> normalize_domain h = l @ [46] @ normalize_domain d)"
| "covers (ApexAndSubdomains d) h =
     (normalize_domain h = normalize_domain d \<or>
      (\<exists>l. l \<noteq> [] \<and> normalize_domain h = l @ [46] @ normalize_domain d))"

fun pattern_domain :: "domain_pattern \<Rightarrow> str" where
  "pattern_domain (Exact d) = d"
| "pattern_domain (SubdomainsOnly d) = d"
| "pattern_domain (ApexAndSubdomains d) = d"

definition proper_domain :: "str \<Rightarrow> bool" where
  "proper_domain d \<longleftrightarrow> normalize_domain d \<noteq> [] \<and> hd (normalize_domain d) \<noteq> 46"

text \<open>Every label in front of a proper domain gives a host below it.\<close>

lemma below_domain:
  assumes "proper_domain q"
  shows "normalize_domain (x # 46 # normalize_domain q) = to_ascii_lowercase_char x # 46 # normalize_domain q"
  using normalize_domain_subdomain[of q "[x]"] assms
  by (simp add: proper_domain_def to_ascii_lowercase_def)

lemma suffix_below:
  assumes "Q = P \<or> (\<exists>l. Q = l @ [46] @ P)" "l \<noteq> []" 
  shows "\<exists>l'. l' \<noteq> [] \<and> l @ [46] @ Q = l' @ [46] @ (P :: str)"
  using assms by (metis append.assoc append_is_Nil_conv)

lemma below_all_imp_suffix:
  assumes "c # 46 # Q = l @ [46] @ (P :: str)" "c \<noteq> 46"
  shows "Q = P \<or> (\<exists>l'. Q = l' @ [46] @ P)"
  using assms by (cases l; cases "tl l") (auto simp: Cons_eq_append_conv)

lemma allows_SubdomainsOnly_iff:
  assumes q: "proper_domain q"
  shows "(\<forall>h. covers (SubdomainsOnly q) h \<longrightarrow> covers (SubdomainsOnly p) h) \<longleftrightarrow> is_subdomain_or_equal q p"
    and "(\<forall>h. covers (SubdomainsOnly q) h \<longrightarrow> covers (ApexAndSubdomains p) h) \<longleftrightarrow> is_subdomain_or_equal q p"
    and "\<not> (\<forall>h. covers (SubdomainsOnly q) h \<longrightarrow> covers (Exact p) h)"
proof -
  let ?Q = "normalize_domain q" and ?P = "normalize_domain p"
  have x: "normalize_domain (120 # 46 # ?Q) = [120] @ [46] @ ?Q" and y: "normalize_domain (121 # 46 # ?Q) = [121] @ [46] @ ?Q"
    using below_domain[OF q] by (simp_all add: to_ascii_lowercase_char_def)
  have cx: "covers (SubdomainsOnly q) (120 # 46 # ?Q)" and cy: "covers (SubdomainsOnly q) (121 # 46 # ?Q)"
    unfolding covers.simps x y by blast+
  have up: "is_subdomain_or_equal q p" if "[120] @ [46] @ ?Q = l @ [46] @ ?P" for l
    using that below_all_imp_suffix[of 120 ?Q l ?P] by (simp add: is_subdomain_or_equal_iff)
  have up': "is_subdomain_or_equal q p" if "[121] @ [46] @ ?Q = l @ [46] @ ?P" for l
    using that below_all_imp_suffix[of 121 ?Q l ?P] by (simp add: is_subdomain_or_equal_iff)
  have down: "\<exists>l'. l' \<noteq> [] \<and> l @ [46] @ ?Q = l' @ [46] @ ?P" if "is_subdomain_or_equal q p" "l \<noteq> []" for l
    using that suffix_below[of ?Q ?P l] by (simp add: is_subdomain_or_equal_iff)
  show "(\<forall>h. covers (SubdomainsOnly q) h \<longrightarrow> covers (SubdomainsOnly p) h) \<longleftrightarrow> is_subdomain_or_equal q p"
  proof
    assume "\<forall>h. covers (SubdomainsOnly q) h \<longrightarrow> covers (SubdomainsOnly p) h"
    then have "covers (SubdomainsOnly p) (120 # 46 # ?Q)" using cx by blast
    then show "is_subdomain_or_equal q p" using up unfolding covers.simps x by blast
  qed (use down in force)
  show "\<not> (\<forall>h. covers (SubdomainsOnly q) h \<longrightarrow> covers (Exact p) h)"
  proof
    assume "\<forall>h. covers (SubdomainsOnly q) h \<longrightarrow> covers (Exact p) h"
    then have "covers (Exact p) (120 # 46 # ?Q)" "covers (Exact p) (121 # 46 # ?Q)" using cx cy by blast+
    then have a: "[120] @ [46] @ ?Q = ?P" and b: "[121] @ [46] @ ?Q = ?P" unfolding covers.simps x y .
    from a[folded b] show False by simp
  qed
  show "(\<forall>h. covers (SubdomainsOnly q) h \<longrightarrow> covers (ApexAndSubdomains p) h) \<longleftrightarrow> is_subdomain_or_equal q p"
  proof
    assume "\<forall>h. covers (SubdomainsOnly q) h \<longrightarrow> covers (ApexAndSubdomains p) h"
    then have "covers (ApexAndSubdomains p) (120 # 46 # ?Q)" "covers (ApexAndSubdomains p) (121 # 46 # ?Q)"
      using cx cy by blast+
    then have "[120] @ [46] @ ?Q = ?P \<or> is_subdomain_or_equal q p"
      "[121] @ [46] @ ?Q = ?P \<or> is_subdomain_or_equal q p"
      unfolding covers.simps x y using up up' by blast+
    moreover have "[120] @ [46] @ ?Q \<noteq> [121] @ [46] @ ?Q" by simp
    ultimately show "is_subdomain_or_equal q p" by (metis (no_types))
  qed (use down in force)
qed


lemma proper_split: "proper_domain q \<Longrightarrow> normalize_domain q = l @ [46] @ P \<Longrightarrow> l \<noteq> []"
  by (auto simp: proper_domain_def)

lemma strict_iff_below:
  "proper_domain q \<Longrightarrow> is_strict_subdomain q p \<longleftrightarrow> covers (SubdomainsOnly p) q"
  using proper_split[of q] by (auto simp: is_strict_subdomain_iff)

lemma subdomain_or_equal_iff_covers:
  "proper_domain q \<Longrightarrow> is_subdomain_or_equal q p \<longleftrightarrow> covers (ApexAndSubdomains p) q"
  using proper_split[of q] by (auto simp: is_subdomain_or_equal_iff)

lemma covers_Exact_all: "(\<forall>h. covers (Exact q) h \<longrightarrow> covers p h) \<longleftrightarrow> covers p q"
  by (cases p) auto

lemma covers_Apex_all:
  "(\<forall>h. covers (ApexAndSubdomains q) h \<longrightarrow> covers p h) \<longleftrightarrow>
     covers p q \<and> (\<forall>h. covers (SubdomainsOnly q) h \<longrightarrow> covers p h)"
  using covers_Exact_all[of q p] by auto

lemma allows_covers:
  assumes "proper_domain (pattern_domain candidate)"
  shows "allows managed candidate \<longleftrightarrow> (\<forall>h. covers candidate h \<longrightarrow> covers managed h)"
proof (cases candidate)
  case (Exact q)
  with assms have q: "proper_domain q" by simp
  show ?thesis
    unfolding Exact covers_Exact_all using strict_iff_below[OF q] subdomain_or_equal_iff_covers[OF q]
    by (cases managed) (auto simp: domain_eq_def)
next
  case (SubdomainsOnly q)
  with assms have q: "proper_domain q" by simp
  show ?thesis
    unfolding SubdomainsOnly using allows_SubdomainsOnly_iff[OF q] by (cases managed) simp_all
next
  case (ApexAndSubdomains q)
  with assms have q: "proper_domain q" by simp
  have "is_strict_subdomain q p \<Longrightarrow> is_subdomain_or_equal q p" for p
    by (auto simp: is_strict_subdomain_iff is_subdomain_or_equal_iff)
  then show ?thesis
    unfolding ApexAndSubdomains covers_Apex_all
    using allows_SubdomainsOnly_iff[OF q] strict_iff_below[OF q] subdomain_or_equal_iff_covers[OF q]
    by (cases managed) auto
qed

text \<open>
  C26 The comparison of a user's domain pattern with a managed one is exact: the managed pattern
  allows the candidate exactly when every host that the candidate covers is covered by the managed
  pattern. The candidate's domain is a proper one, neither empty nor starting with a dot.
\<close>
theorem allows_iff_covers:
  assumes "proper_domain (pattern_domain candidate)"
  shows "allows managed candidate \<longleftrightarrow> (\<forall>h. covers candidate h \<longrightarrow> covers managed h)"
  by (rule allows_covers[OF assms])

theorem allows_iff_covers_witness:
  "covers (SubdomainsOnly (lit ''example.com'')) (lit ''api.example.com'') \<and>
   (\<exists>h. covers (ApexAndSubdomains (lit ''example.com'')) h \<and> \<not> covers (SubdomainsOnly (lit ''example.com'')) h)"
proof -
  have p: "proper_domain (pattern_domain (Exact (lit ''API.example.com'')))"
    "proper_domain (pattern_domain (ApexAndSubdomains (lit ''example.com'')))" by code_simp+
  have a: "allows (SubdomainsOnly (lit ''example.com'')) (Exact (lit ''API.example.com''))"
    "\<not> allows (SubdomainsOnly (lit ''example.com'')) (ApexAndSubdomains (lit ''example.com''))" by code_simp+
  have c: "covers (Exact (lit ''API.example.com'')) (lit ''api.example.com'')" unfolding covers.simps by code_simp
  from a(1)[unfolded allows_iff_covers[OF p(1)], rule_format, OF c]
  have "covers (SubdomainsOnly (lit ''example.com'')) (lit ''api.example.com'')" .
  moreover from a(2) have "\<exists>h. covers (ApexAndSubdomains (lit ''example.com'')) h \<and> \<not> covers (SubdomainsOnly (lit ''example.com'')) h"
    unfolding allows_iff_covers[OF p(2)] by (simp only: not_all not_imp)
  ultimately show ?thesis by (rule conjI)
qed

section \<open>Compiled sets\<close>

lemma add_candidates_globs:
  assumes "add_candidates eng (seen, globs) cs = Inr (seen', globs')"
    "set (map Some globs) = build_glob eng ` seen"
  shows "set (map Some globs') = build_glob eng ` seen' \<and> seen' = seen \<union> set cs"
  using assms
proof (induction cs arbitrary: seen globs)
  case (Cons c cs)
  show ?case
  proof (cases "c \<in> seen")
    case True
    with Cons.prems(1) have "add_candidates eng (seen, globs) cs = Inr (seen', globs')" by simp
    from Cons.IH[OF this Cons.prems(2)] True show ?thesis by auto
  next
    case False
    with Cons.prems obtain g where g: "build_glob eng c = Some g"
      "add_candidates eng (insert c seen, globs @ [g]) cs = Inr (seen', globs')"
      by (auto split: option.splits)
    have "set (map Some (globs @ [g])) = build_glob eng ` insert c seen" using g(1) Cons.prems(2) by auto
    from Cons.IH[OF g(2) this] show ?thesis by simp
  qed
qed simp

lemma add_patterns_globs:
  assumes "add_patterns eng gw (seen, globs) ps = Inr (seen', globs')"
    "set (map Some globs) = build_glob eng ` seen"
  shows "set (map Some globs') = build_glob eng ` seen' \<and>
    seen' = seen \<union> (\<Union>p\<in>set ps. set (expand_domain_pattern (normalize_pattern p)))"
  using assms
proof (induction ps arbitrary: seen globs)
  case (Cons p ps)
  from Cons.prems(1) obtain seen1 globs1 where
    st: "add_candidates eng (seen, globs) (expand_domain_pattern (normalize_pattern p)) = Inr (seen1, globs1)"
    "add_patterns eng gw (seen1, globs1) ps = Inr (seen', globs')"
    by (auto split: if_splits sum.splits)
  from add_candidates_globs[OF st(1) Cons.prems(2)] Cons.IH[OF st(2)] show ?case by auto
qed simp

definition plain_char :: "uchar \<Rightarrow> bool" where
  "plain_char c \<longleftrightarrow> 32 < c \<and> c < 127 \<and> c \<notin> set (lit ''*?[]{}!/,'') \<and> c \<noteq> 92"

definition plain :: "str \<Rightarrow> bool" where
  "plain d \<longleftrightarrow> (\<forall>c\<in>set d. plain_char c)"

definition is_ascii :: "str \<Rightarrow> bool" where
  "is_ascii s \<longleftrightarrow> (\<forall>c\<in>set s. c < 128)"

text \<open>
  The documented behaviour of \<open>globset\<close> on the patterns that the policy makes: a set matches what
  one of its globs matches; case is ignored; a text without metacharacters matches itself; \<open>?*.\<close>
  matches one or more characters and a dot; \<open>*\<close> matches everything.
\<close>

definition glob_laws :: "('g, 's) glob_engine \<Rightarrow> bool" where
  "glob_laws eng \<longleftrightarrow>
     (\<forall>globs s h. build_set eng globs = Some s \<longrightarrow> (set_is_match eng s h \<longleftrightarrow> (\<exists>g\<in>set globs. glob_is_match eng g h))) \<and>
     (\<forall>d g h. plain d \<longrightarrow> build_glob eng d = Some g \<longrightarrow> is_ascii h \<longrightarrow>
        (glob_is_match eng g h \<longleftrightarrow> to_ascii_lowercase h = to_ascii_lowercase d)) \<and>
     (\<forall>d g h. plain d \<longrightarrow> build_glob eng (lit ''?*.'' @ d) = Some g \<longrightarrow> is_ascii h \<longrightarrow>
        (glob_is_match eng g h \<longleftrightarrow>
           (\<exists>l. l \<noteq> [] \<and> to_ascii_lowercase h = l @ [46] @ to_ascii_lowercase d))) \<and>
     (\<forall>g h. build_glob eng (lit ''*'') = Some g \<longrightarrow> glob_is_match eng g h)"

text \<open>What a pattern of the policy matches.\<close>

fun glob_covers :: "domain_pattern \<Rightarrow> str \<Rightarrow> bool" where
  "glob_covers (Exact d) h = (d = lit ''*'' \<or> to_ascii_lowercase h = to_ascii_lowercase d)"
| "glob_covers (SubdomainsOnly d) h = (\<exists>l. l \<noteq> [] \<and> to_ascii_lowercase h = l @ [46] @ to_ascii_lowercase d)"
| "glob_covers (ApexAndSubdomains d) h =
     (d = lit ''*'' \<or> to_ascii_lowercase h = to_ascii_lowercase d \<or>
      (\<exists>l. l \<noteq> [] \<and> to_ascii_lowercase h = l @ [46] @ to_ascii_lowercase d))"

definition policy_pattern :: "str \<Rightarrow> domain_pattern" where
  "policy_pattern p = parse_domain_pattern (normalize_pattern p)"

definition plain_pattern :: "str \<Rightarrow> bool" where
  "plain_pattern p \<longleftrightarrow> policy_pattern p = Exact (lit ''*'') \<or> plain (pattern_domain (policy_pattern p))"

lemma star_not_plain [simp]: "\<not> plain (lit ''*'')"
  by (simp add: plain_def plain_char_def)

lemma glob_covers_candidates:
  assumes laws: "glob_laws eng" and plain: "plain_pattern p" and h: "is_ascii h"
    and built: "\<forall>c\<in>set (expand_domain_pattern (normalize_pattern p)). build_glob eng c \<noteq> None"
  shows "(\<exists>c\<in>set (expand_domain_pattern (normalize_pattern p)). \<exists>g. build_glob eng c = Some g \<and> glob_is_match eng g h)
    \<longleftrightarrow> glob_covers (policy_pattern p) h"
proof -
  have lit: "build_glob eng d = Some g \<Longrightarrow> plain d \<Longrightarrow>
      glob_is_match eng g h \<longleftrightarrow> to_ascii_lowercase h = to_ascii_lowercase d" for d g
    using laws h by (simp add: glob_laws_def)
  have sub: "build_glob eng (lit ''?*.'' @ d) = Some g \<Longrightarrow> plain d \<Longrightarrow>
      glob_is_match eng g h \<longleftrightarrow> (\<exists>l. l \<noteq> [] \<and> to_ascii_lowercase h = l @ [46] @ to_ascii_lowercase d)" for d g
    using laws h by (simp add: glob_laws_def)
  have star: "build_glob eng (lit ''*'') = Some g \<Longrightarrow> glob_is_match eng g h" for g
    using laws by (simp add: glob_laws_def)
  show ?thesis
  proof (cases "policy_pattern p")
    case (Exact d)
    with plain built lit star show ?thesis
      by (cases "d = lit ''*''") (auto simp: expand_domain_pattern_def policy_pattern_def plain_pattern_def)
  next
    case (SubdomainsOnly d)
    with plain built sub show ?thesis
      by (auto simp: expand_domain_pattern_def policy_pattern_def plain_pattern_def)
  next
    case (ApexAndSubdomains d)
    with plain have d: "plain d" by (simp add: plain_pattern_def)
    then have "d \<noteq> lit ''*''" by auto
    with ApexAndSubdomains d built lit[of d] sub[of d] show ?thesis
      by (auto simp: expand_domain_pattern_def policy_pattern_def)
  qed
qed

lemma compiled_set_spec:
  assumes laws: "glob_laws eng" and plain: "list_all plain_pattern ps" and h: "is_ascii h"
    and c: "compile_globset_with_policy eng gw ps = Inr s"
  shows "set_is_match eng s h \<longleftrightarrow> (\<exists>p\<in>set ps. glob_covers (policy_pattern p) h)"
proof -
  from c obtain seen globs where st: "add_patterns eng gw ({}, []) ps = Inr (seen, globs)"
    "build_set eng globs = Some s"
    by (auto simp: compile_globset_with_policy_def split: sum.splits option.splits)
  have g: "Some ` set globs = build_glob eng ` (\<Union>p\<in>set ps. set (expand_domain_pattern (normalize_pattern p)))"
    using add_patterns_globs[OF st(1)] by simp
  have "set_is_match eng s h \<longleftrightarrow> (\<exists>g\<in>set globs. glob_is_match eng g h)"
    using laws st(2) by (simp add: glob_laws_def)
  also have "\<dots> \<longleftrightarrow> (\<exists>g. Some g \<in> Some ` set globs \<and> glob_is_match eng g h)" by auto
  also have "\<dots> \<longleftrightarrow> (\<exists>p\<in>set ps. \<exists>c\<in>set (expand_domain_pattern (normalize_pattern p)).
      \<exists>g. build_glob eng c = Some g \<and> glob_is_match eng g h)"
    unfolding g by (auto simp: image_iff) (metis)+
  also have "\<dots> \<longleftrightarrow> (\<exists>p\<in>set ps. glob_covers (policy_pattern p) h)"
  proof (rule bex_cong[OF refl])
    fix p assume p: "p \<in> set ps"
    have "build_glob eng c \<noteq> None" if "c \<in> set (expand_domain_pattern (normalize_pattern p))" for c
    proof -
      have "build_glob eng c \<in> Some ` set globs" unfolding g using p that by blast
      then show ?thesis by auto
    qed
    with plain p show "(\<exists>c\<in>set (expand_domain_pattern (normalize_pattern p)).
        \<exists>g. build_glob eng c = Some g \<and> glob_is_match eng g h) \<longleftrightarrow> glob_covers (policy_pattern p) h"
      by (intro glob_covers_candidates[OF laws _ h]) (auto simp: list_all_iff)
  qed
  finally show ?thesis .
qed

section \<open>An engine with these laws\<close>

text \<open>A matcher for the three forms of patterns that the policy makes, to instantiate the parameter.\<close>

definition simple_glob_match :: "str \<Rightarrow> str \<Rightarrow> bool" where
  "simple_glob_match p h =
     (if p = lit ''*'' then True
      else (case strip_prefix p (lit ''?*.'') of
              Some d \<Rightarrow> ends_with (to_ascii_lowercase h) (46 # to_ascii_lowercase d) \<and> length h > length d + 1
            | None \<Rightarrow> to_ascii_lowercase h = to_ascii_lowercase p))"

definition simple_glob_engine :: "(str, str list) glob_engine" where
  "simple_glob_engine =
     \<lparr>build_glob = Some, build_escaped_glob = (\<lambda>_. Some), glob_is_match = simple_glob_match,
      build_set = Some, set_is_match = (\<lambda>ps h. list_ex (\<lambda>p. simple_glob_match p h) ps)\<rparr>"

lemma length_to_ascii_lowercase [simp]: "length (to_ascii_lowercase s) = length s"
  by (simp add: to_ascii_lowercase_def)

lemma plain_no_prefix: "plain d \<Longrightarrow> strip_prefix d (lit ''?*.'') = None"
  by (cases d) (auto simp: strip_prefix_def starts_with_def plain_def plain_char_def lit_simps)

lemma simple_glob_sub:
  "simple_glob_match (lit ''?*.'' @ d) h \<longleftrightarrow>
     (\<exists>l. l \<noteq> [] \<and> to_ascii_lowercase h = l @ [46] @ to_ascii_lowercase d)"
proof -
  have s: "strip_prefix (lit ''?*.'' @ d) (lit ''?*.'') = Some d" by (simp add: strip_prefix_def)
  have n: "lit ''?*.'' @ d \<noteq> lit ''*''" by (simp add: lit_simps)
  have "length h = length l + Suc (length d)" if "to_ascii_lowercase h = l @ 46 # to_ascii_lowercase d" for l
    using arg_cong[OF that, of length] by simp
  then show ?thesis
    unfolding simple_glob_match_def s if_not_P[OF n] option.case
    by (fastforce simp: ends_with_suffix suffix_def)
qed

lemma simple_glob_laws: "glob_laws simple_glob_engine"
proof -
  have "simple_glob_match d h \<longleftrightarrow> to_ascii_lowercase h = to_ascii_lowercase d" if "plain d" for d h
    using plain_no_prefix[OF that] that by (auto simp: simple_glob_match_def)
  moreover have "\<forall>h. simple_glob_match (lit ''*'') h" by (simp add: simple_glob_match_def)
  ultimately show ?thesis
    by (simp add: glob_laws_def simple_glob_engine_def simple_glob_sub list_ex_iff)
qed

end
