(* ===== verification/AbsPath.thy ===== *)
theory AbsPath
  imports RustStr
begin

text \<open>
  Absolute paths: \<open>AbsolutePathBuf::try_from\<close> on Unix
  (codex-rs/utils/absolute-path/src/lib.rs and absolutize.rs), with the home directory and the
  current directory as parameters. A normalised path has no empty, \<open>.\<close> or \<open>..\<close> component, and
  normalising is idempotent.
\<close>

section \<open>Absolute paths\<close>

text \<open>The process state that \<open>AbsolutePathBuf::from_absolute_path\<close> reads.\<close>

record path_env =
  home_dir :: "str option"
  current_dir :: "str option" \<comment> \<open>\<open>None\<close> when it cannot be read\<close>

text \<open>\<open>Path::join\<close> on Unix.\<close>

definition path_join :: "str \<Rightarrow> str \<Rightarrow> str" where
  "path_join base p =
     (if path_is_absolute p then p
      else if base = [] \<or> ends_with base [47] then base @ p
      else base @ [47] @ p)"

definition expand_home :: "path_env \<Rightarrow> str \<Rightarrow> str" where
  "expand_home env path =
     (case home_dir env of
        None \<Rightarrow> path
      | Some home \<Rightarrow>
          (case strip_prefix path [126] of
             None \<Rightarrow> path
           | Some rest \<Rightarrow>
               if rest = [] then home
               else (case strip_prefix rest [47] of
                       Some r \<Rightarrow> path_join home (dropWhile (\<lambda>c. c = 47) r)
                     | None \<Rightarrow> path)))"

text \<open>\<open>normalize_path\<close> on an absolute path: the components with \<open>.\<close> dropped and \<open>..\<close> popping the
  component before it; popping the root does nothing.\<close>

fun push_component :: "str list \<Rightarrow> str \<Rightarrow> str list" where
  "push_component acc c = (if c = [46, 46] then butlast acc else acc @ [c])"

definition normalized_components :: "str \<Rightarrow> str list" where
  "normalized_components p = foldl push_component [] (path_normal_parts p)"

definition render_absolute :: "str list \<Rightarrow> str" where
  "render_absolute cs = [47] @ join [47] cs"

definition normalize_path :: "str \<Rightarrow> str" where
  "normalize_path p = render_absolute (normalized_components p)"

text \<open>\<open>absolutize\<close> and \<open>AbsolutePathBuf::try_from\<close>; the current directory is an absolute path.\<close>

definition absolutize :: "path_env \<Rightarrow> str \<Rightarrow> str option" where
  "absolutize env p =
     (if path_is_absolute p then Some (normalize_path p)
      else map_option (\<lambda>cwd. normalize_path (path_join cwd p)) (current_dir env))"

definition absolute_path_buf :: "path_env \<Rightarrow> str \<Rightarrow> str option" where
  "absolute_path_buf env p = absolutize env (expand_home env p)"

section \<open>Normal forms\<close>

definition normal_component :: "str \<Rightarrow> bool" where
  "normal_component c \<longleftrightarrow> c \<noteq> [] \<and> c \<noteq> [46] \<and> c \<noteq> [46, 46] \<and> 47 \<notin> set c"

lemma normalized_components_fold:
  "list_all normal_component acc \<Longrightarrow> \<forall>c\<in>set cs. c \<noteq> [] \<and> c \<noteq> [46] \<and> 47 \<notin> set c \<Longrightarrow>
   list_all normal_component (foldl push_component acc cs)"
proof (induction cs arbitrary: acc)
  case (Cons c cs)
  have "list_all normal_component (push_component acc c)"
  proof (cases "c = [46, 46]")
    case True
    then show ?thesis using Cons.prems(1) by (auto simp: list_all_iff dest: in_set_butlastD)
  next
    case False
    then have "normal_component c" using Cons.prems(2) by (simp add: normal_component_def)
    with False Cons.prems(1) show ?thesis by simp
  qed
  with Cons.IH[of "push_component acc c"] Cons.prems(2) show ?case by simp
qed simp

lemma normalized_components_normal: "list_all normal_component (normalized_components p)"
  unfolding normalized_components_def
  by (rule normalized_components_fold) (auto simp: path_normal_parts_def dest: split_on_no_sep)

lemma path_normal_parts_render:
  assumes "list_all normal_component cs"
  shows "path_normal_parts (render_absolute cs) = cs"
proof (cases "cs = []")
  case False
  then have "split_on 47 (47 # join [47] cs) = [] # cs"
    using split_on_join[of cs 47] assms by (auto simp: list_all_iff normal_component_def)
  then show ?thesis
    using assms by (auto simp: path_normal_parts_def render_absolute_def list_all_iff normal_component_def
        intro: filter_True)
qed (simp add: render_absolute_def path_normal_parts_def)

lemma foldl_push_normal:
  "list_all normal_component cs \<Longrightarrow> foldl push_component acc cs = acc @ cs"
  by (induction cs arbitrary: acc) (auto simp: normal_component_def)

lemma normalize_path_idem [simp]: "normalize_path (normalize_path p) = normalize_path p"
  by (simp add: normalize_path_def normalized_components_def[of "render_absolute _"]
      path_normal_parts_render normalized_components_normal foldl_push_normal)

lemma normalize_path_absolute: "path_is_absolute (normalize_path p)"
  by (simp add: normalize_path_def render_absolute_def path_is_absolute_def starts_with_def)

lemma absolute_path_buf_absolute:
  "absolute_path_buf env p = Some q \<Longrightarrow> path_is_absolute q \<and> normalize_path q = q"
  by (auto simp: absolute_path_buf_def absolutize_def normalize_path_absolute split: if_splits)

lemma normalize_path_file_name:
  "path_file_name (normalize_path p) = last_opt (normalized_components p)"
  using normalized_components_normal[of p]
  by (auto simp: path_file_name_def normalize_path_def path_normal_parts_render last_opt_def
      list_all_iff normal_component_def split: option.splits)

end
