(* ===== verification/NetMitm.thy ===== *)
theory NetMitm
  imports NetPolicy AbsPath
begin

text \<open>
  The request hooks of the intercepting proxy (\<open>network-proxy/src/mitm_hook.rs\<close>): their
  configuration, its validation, the compilation with the secrets resolved, and the evaluation on a
  request. The crates \<open>http\<close>, \<open>globset\<close> and \<open>form_urlencoded\<close>, the environment and the file system
  are parameters. The compiled table keeps the configured order, and validation leaves only the
  secrets to fail later.
\<close>

section \<open>Results\<close>

text \<open>The operator \<open>?\<close>.\<close>

definition and_then :: "'e + 'a \<Rightarrow> ('a \<Rightarrow> 'e + 'b) \<Rightarrow> 'e + 'b" where
  "and_then r f = (case r of Inl e \<Rightarrow> Inl e | Inr a \<Rightarrow> f a)"

definition ensure :: "bool \<Rightarrow> 'e \<Rightarrow> 'e + unit" where
  "ensure c e = (if c then Inr () else Inl e)"

lemma and_then_Inr_iff: "and_then r f = Inr b \<longleftrightarrow> (\<exists>a. r = Inr a \<and> f a = Inr b)"
  by (cases r) (auto simp: and_then_def)

lemma and_then_simps [simp]: "and_then (Inl e) f = Inl e" "and_then (Inr a) f = f a"
  by (simp_all add: and_then_def)

lemma ensure_Inr_iff [simp]: "ensure c e = Inr u \<longleftrightarrow> c"
  by (simp add: ensure_def)

text \<open>A loop that stops at the first error.\<close>

fun try_for_each :: "('a \<Rightarrow> 'e + unit) \<Rightarrow> 'a list \<Rightarrow> 'e + unit" where
  "try_for_each f [] = Inr ()"
| "try_for_each f (x # xs) = (case f x of Inl e \<Rightarrow> Inl e | Inr u \<Rightarrow> try_for_each f xs)"

lemma try_for_each_Inr_iff: "try_for_each f xs = Inr u \<longleftrightarrow> (\<forall>x\<in>set xs. f x = Inr ())"
  by (induction xs) (auto split: sum.splits)

section \<open>Hook configuration\<close>

record injected_header_config =
  injected_name :: str
  secret_env_var :: "str option"
  secret_file :: "str option"
  value_prefix :: "str option"

record 'j mitm_hook_match_config =
  match_methods :: "str list"
  match_path_prefixes :: "str list"
  match_query :: "(str \<times> str list) list"
  match_headers :: "(str \<times> str list) list"
  match_body :: "'j option"

record mitm_hook_actions_config =
  cfg_strip_request_headers :: "str list"
  cfg_inject_request_headers :: "injected_header_config list"

record 'j mitm_hook_config =
  hook_host :: str
  hook_match :: "'j mitm_hook_match_config"
  hook_actions :: mitm_hook_actions_config

section \<open>Compiled hooks\<close>

text \<open>A compiled glob keeps its pattern; two of them are equal when their patterns are.\<close>

record 'g compiled_glob =
  glob_source :: str
  glob_matcher :: 'g

datatype 'g path_matcher = PathPrefix str | PathGlob "'g compiled_glob"
datatype 'g value_matcher = ValueExact str | ValueGlob "'g compiled_glob"
datatype matcher_pattern = LiteralPattern str | GlobPattern str
datatype secret_source = SecretEnvVar str | SecretFile str

record ('n, 'v) resolved_header =
  resolved_name :: 'n
  resolved_value :: 'v
  resolved_source :: secret_source

record ('n, 'g) mitm_hook_matcher =
  mitm_methods :: "str list"
  mitm_path_prefixes :: "'g path_matcher list"
  query_constraints :: "(str \<times> 'g value_matcher list) list"
  header_constraints :: "('n \<times> 'g value_matcher list) list"

record ('n, 'v) mitm_hook_actions =
  strip_request_headers :: "'n list"
  inject_request_headers :: "('n, 'v) resolved_header list"

record ('n, 'v, 'g) mitm_hook =
  mitm_host :: str
  mitm_matcher :: "('n, 'g) mitm_hook_matcher"
  mitm_actions :: "('n, 'v) mitm_hook_actions"

datatype mitm_error =
    HooksRequireMitm
  | InvalidHook nat string mitm_error
  | EmptyHookField nat string
  | BodyMatcherUnsupported nat
  | EmptyHookHost
  | WildcardHookHost
  | EmptyMethod
  | EmptyPathPrefix
  | EmptyGlobPattern
  | InvalidMatcherGlob str
  | EmptyQueryKey
  | NoQueryValues str
  | InvalidMatcher str mitm_error
  | InvalidHeaderName str
  | EmptySecretEnvVar
  | EmptySecretFile
  | SecretFileNotAbsolute str
  | NotExactlyOneSecret
  | MissingEnvVar str
  | UnreadableSecretFile str
  | InvalidHeaderValue str
  | InvalidInjectedHeader str mitm_error

text \<open>
  What the hooks use of the outside: \<open>HeaderName::from_bytes\<close> and \<open>HeaderValue::from_str\<close> of the
  \<open>http\<close> crate, the environment, and the file system for the secrets.
\<close>

record ('n, 'v) mitm_env =
  header_name :: "str \<Rightarrow> 'n option"
  header_value :: "str \<Rightarrow> 'v option"
  get_env_var :: "str \<Rightarrow> str option"
  read_file :: "str \<Rightarrow> str option"
  mitm_path_env :: path_env

definition PATTERN_PREFIX :: str where "PATTERN_PREFIX = lit ''pattern:''"
definition LITERAL_PREFIX :: str where "LITERAL_PREFIX = lit ''literal:''"

definition parse_matcher_pattern :: "str \<Rightarrow> mitm_error + matcher_pattern" where
  "parse_matcher_pattern pattern =
     (case strip_prefix pattern LITERAL_PREFIX of
        Some literal \<Rightarrow> Inr (LiteralPattern literal)
      | None \<Rightarrow>
          (case strip_prefix pattern PATTERN_PREFIX of
             None \<Rightarrow> Inr (LiteralPattern pattern)
           | Some glob_pattern \<Rightarrow>
               if glob_pattern = [] then Inl EmptyGlobPattern else Inr (GlobPattern glob_pattern)))"

definition compile_glob_matcher :: "('g, 's) glob_engine \<Rightarrow> str \<Rightarrow> bool \<Rightarrow> mitm_error + 'g compiled_glob" where
  "compile_glob_matcher eng pattern literal_separator =
     (case build_escaped_glob eng literal_separator pattern of
        None \<Rightarrow> Inl (InvalidMatcherGlob pattern)
      | Some g \<Rightarrow> Inr \<lparr>glob_source = pattern, glob_matcher = g\<rparr>)"

definition compile_path_matcher :: "('g, 's) glob_engine \<Rightarrow> str \<Rightarrow> mitm_error + 'g path_matcher" where
  "compile_path_matcher eng pre =
     and_then (parse_matcher_pattern pre) (\<lambda>m.
       case m of
         LiteralPattern pre \<Rightarrow> if pre = [] then Inl EmptyPathPrefix else Inr (PathPrefix pre)
       | GlobPattern p \<Rightarrow> and_then (compile_glob_matcher eng p True) (\<lambda>g. Inr (PathGlob g)))"

definition compile_path_matchers :: "('g, 's) glob_engine \<Rightarrow> str list \<Rightarrow> mitm_error + 'g path_matcher list" where
  "compile_path_matchers eng = collect_results (compile_path_matcher eng)"

definition compile_value_matcher :: "('g, 's) glob_engine \<Rightarrow> str \<Rightarrow> mitm_error + 'g value_matcher" where
  "compile_value_matcher eng v =
     and_then (parse_matcher_pattern v) (\<lambda>m.
       case m of
         LiteralPattern v \<Rightarrow> Inr (ValueExact v)
       | GlobPattern p \<Rightarrow> and_then (compile_glob_matcher eng p False) (\<lambda>g. Inr (ValueGlob g)))"

definition compile_value_matchers :: "('g, 's) glob_engine \<Rightarrow> str list \<Rightarrow> mitm_error + 'g value_matcher list" where
  "compile_value_matchers eng = collect_results (compile_value_matcher eng)"

definition normalize_hook_host :: "str \<Rightarrow> mitm_error + str" where
  "normalize_hook_host host =
     (let normalized = normalize_host host
      in if normalized = [] then Inl EmptyHookHost
         else if 42 \<in> set normalized then Inl WildcardHookHost
         else Inr normalized)"

definition to_ascii_uppercase :: "str \<Rightarrow> str" where
  "to_ascii_uppercase s = map (\<lambda>c. if 97 \<le> c \<and> c \<le> 122 then c - 32 else c) s"

definition normalize_method :: "str \<Rightarrow> mitm_error + str" where
  "normalize_method m =
     (let normalized = to_ascii_uppercase (trim m)
      in if normalized = [] then Inl EmptyMethod else Inr normalized)"

definition normalize_methods :: "str list \<Rightarrow> mitm_error + str list" where
  "normalize_methods = collect_results normalize_method"

definition normalize_query_name :: "str \<Rightarrow> mitm_error + str" where
  "normalize_query_name name = (if name = [] then Inl EmptyQueryKey else Inr name)"

definition parse_header_name :: "('n, 'v) mitm_env \<Rightarrow> str \<Rightarrow> mitm_error + 'n" where
  "parse_header_name env name =
     (case header_name env name of None \<Rightarrow> Inl (InvalidHeaderName name) | Some n \<Rightarrow> Inr n)"

definition parse_secret_file :: "('n, 'v) mitm_env \<Rightarrow> str \<Rightarrow> mitm_error + str" where
  "parse_secret_file env path =
     (if trim path = [] then Inl EmptySecretFile
      else if \<not> path_is_absolute path then Inl (SecretFileNotAbsolute path)
      else (case absolute_path_buf (mitm_path_env env) path of
              None \<Rightarrow> Inl (SecretFileNotAbsolute path)
            | Some p \<Rightarrow> Inr p))"

section \<open>Validation\<close>

definition validate_query_constraint :: "('g, 's) glob_engine \<Rightarrow> str \<times> str list \<Rightarrow> mitm_error + unit" where
  "validate_query_constraint eng q =
     (case q of (name, vals) \<Rightarrow>
        and_then (normalize_query_name name) (\<lambda>normalized.
        and_then (ensure (normalized \<noteq> []) EmptyQueryKey) (\<lambda>_.
        and_then (ensure (vals \<noteq> []) (NoQueryValues name)) (\<lambda>_.
        and_then (map_err (InvalidMatcher name) (compile_value_matchers eng vals)) (\<lambda>_. Inr ())))))"

definition validate_query_constraints :: "('g, 's) glob_engine \<Rightarrow> (str \<times> str list) list \<Rightarrow> mitm_error + unit" where
  "validate_query_constraints eng = try_for_each (validate_query_constraint eng)"

definition validate_header_constraints ::
  "('g, 's) glob_engine \<Rightarrow> ('n, 'v) mitm_env \<Rightarrow> (str \<times> str list) list \<Rightarrow> mitm_error + unit" where
  "validate_header_constraints eng env = try_for_each (\<lambda>(name, vals).
     and_then (parse_header_name env name) (\<lambda>_.
     and_then (map_err (InvalidMatcher name) (compile_value_matchers eng vals)) (\<lambda>_. Inr ())))"

definition validate_strip_request_headers :: "('n, 'v) mitm_env \<Rightarrow> str list \<Rightarrow> mitm_error + unit" where
  "validate_strip_request_headers env = try_for_each (\<lambda>name.
     and_then (parse_header_name env name) (\<lambda>_. Inr ()))"

definition validate_injected_header :: "('n, 'v) mitm_env \<Rightarrow> injected_header_config \<Rightarrow> mitm_error + unit" where
  "validate_injected_header env hdr =
     and_then (parse_header_name env (injected_name hdr)) (\<lambda>_.
       case (secret_env_var hdr, secret_file hdr) of
         (Some v, None) \<Rightarrow> if trim v = [] then Inl EmptySecretEnvVar else Inr ()
       | (None, Some f) \<Rightarrow> and_then (parse_secret_file env f) (\<lambda>_. Inr ())
       | _ \<Rightarrow> Inl NotExactlyOneSecret)"

definition validate_injected_headers :: "('n, 'v) mitm_env \<Rightarrow> injected_header_config list \<Rightarrow> mitm_error + unit" where
  "validate_injected_headers env = try_for_each (validate_injected_header env)"

definition validate_hook ::
  "('g, 's) glob_engine \<Rightarrow> ('n, 'v) mitm_env \<Rightarrow> nat \<times> 'j mitm_hook_config \<Rightarrow> mitm_error + unit" where
  "validate_hook eng env ih =
     (case ih of (i, hook) \<Rightarrow>
        and_then (map_err (InvalidHook i ''host'') (normalize_hook_host (hook_host hook))) (\<lambda>host.
        and_then (map_err (InvalidHook i ''match.methods'') (normalize_methods (match_methods (hook_match hook)))) (\<lambda>ms.
        and_then (ensure (ms \<noteq> []) (EmptyHookField i ''match.methods'')) (\<lambda>_.
        and_then (map_err (InvalidHook i ''match.path_prefixes'')
                    (compile_path_matchers eng (match_path_prefixes (hook_match hook)))) (\<lambda>ps.
        and_then (ensure (ps \<noteq> []) (EmptyHookField i ''match.path_prefixes'')) (\<lambda>_.
        and_then (ensure (match_body (hook_match hook) = None) (BodyMatcherUnsupported i)) (\<lambda>_.
        and_then (map_err (InvalidHook i ''match.query'')
                    (validate_query_constraints eng (match_query (hook_match hook)))) (\<lambda>_.
        and_then (map_err (InvalidHook i ''match.headers'')
                    (validate_header_constraints eng env (match_headers (hook_match hook)))) (\<lambda>_.
        and_then (map_err (InvalidHook i ''actions.strip_request_headers'')
                    (validate_strip_request_headers env (cfg_strip_request_headers (hook_actions hook)))) (\<lambda>_.
        and_then (map_err (InvalidHook i ''actions.inject_request_headers'')
                    (validate_injected_headers env (cfg_inject_request_headers (hook_actions hook)))) (\<lambda>_.
          ensure (host \<noteq> []) (EmptyHookField i ''host''))))))))))))"

text \<open>\<open>validate_mitm_hook_config\<close> on the two fields of the configuration that it reads.\<close>

definition validate_mitm_hooks ::
  "('g, 's) glob_engine \<Rightarrow> ('n, 'v) mitm_env \<Rightarrow> bool \<Rightarrow> 'j mitm_hook_config list \<Rightarrow> mitm_error + unit" where
  "validate_mitm_hooks eng env mitm hooks =
     (if hooks = [] then Inr ()
      else if \<not> mitm then Inl HooksRequireMitm
      else try_for_each (validate_hook eng env) (enumerate 0 hooks))"

section \<open>Compilation\<close>

definition compile_injected_header ::
  "('n, 'v) mitm_env \<Rightarrow> injected_header_config \<Rightarrow> mitm_error + ('n, 'v) resolved_header" where
  "compile_injected_header env hdr =
     and_then (parse_header_name env (injected_name hdr)) (\<lambda>name.
     and_then
       (case (secret_env_var hdr, secret_file hdr) of
          (Some v, None) \<Rightarrow>
            (case get_env_var env v of None \<Rightarrow> Inl (MissingEnvVar v) | Some s \<Rightarrow> Inr (s, SecretEnvVar v))
        | (None, Some f) \<Rightarrow>
            and_then (parse_secret_file env f) (\<lambda>path.
              (case read_file env path of
                 None \<Rightarrow> Inl (UnreadableSecretFile path)
               | Some s \<Rightarrow> Inr (trim s, SecretFile path)))
        | _ \<Rightarrow> Inl NotExactlyOneSecret) (\<lambda>(secret, source).
     let pre = (case value_prefix hdr of Some p \<Rightarrow> p | None \<Rightarrow> [])
     in (case header_value env (pre @ secret) of
           None \<Rightarrow> Inl (InvalidHeaderValue (injected_name hdr))
         | Some v \<Rightarrow> Inr \<lparr>resolved_name = name, resolved_value = v, resolved_source = source\<rparr>)))"

definition compile_hook ::
  "('g, 's) glob_engine \<Rightarrow> ('n, 'v) mitm_env \<Rightarrow> 'j mitm_hook_config \<Rightarrow> mitm_error + ('n, 'v, 'g) mitm_hook" where
  "compile_hook eng env hook =
     and_then (normalize_hook_host (hook_host hook)) (\<lambda>h.
     and_then (normalize_methods (match_methods (hook_match hook))) (\<lambda>ms.
     and_then (compile_path_matchers eng (match_path_prefixes (hook_match hook))) (\<lambda>ps.
     and_then (collect_results (\<lambda>(name, vals).
                 and_then (normalize_query_name name) (\<lambda>n.
                 and_then (compile_value_matchers eng vals) (\<lambda>vs. Inr (n, vs))))
                 (match_query (hook_match hook))) (\<lambda>qs.
     and_then (collect_results (\<lambda>(name, vals).
                 and_then (parse_header_name env name) (\<lambda>n.
                 and_then (compile_value_matchers eng vals) (\<lambda>vs. Inr (n, vs))))
                 (match_headers (hook_match hook))) (\<lambda>hs.
     and_then (collect_results (parse_header_name env) (cfg_strip_request_headers (hook_actions hook))) (\<lambda>strip.
     and_then (collect_results (\<lambda>hdr. map_err (InvalidInjectedHeader (injected_name hdr)) (compile_injected_header env hdr))
                 (cfg_inject_request_headers (hook_actions hook))) (\<lambda>inject.
       Inr \<lparr>mitm_host = h,
            mitm_matcher = \<lparr>mitm_methods = ms, mitm_path_prefixes = ps, query_constraints = qs, header_constraints = hs\<rparr>,
            mitm_actions = \<lparr>strip_request_headers = strip, inject_request_headers = inject\<rparr>\<rparr>)))))))"

text \<open>\<open>entry(host).or_default().push(hook)\<close>.\<close>

definition push_hook :: "(str \<rightharpoonup> ('n, 'v, 'g) mitm_hook list) \<Rightarrow> ('n, 'v, 'g) mitm_hook \<Rightarrow> str \<rightharpoonup> ('n, 'v, 'g) mitm_hook list" where
  "push_hook m hook = m(mitm_host hook \<mapsto> (case m (mitm_host hook) of Some hs \<Rightarrow> hs | None \<Rightarrow> []) @ [hook])"

fun compile_hooks ::
  "('g, 's) glob_engine \<Rightarrow> ('n, 'v) mitm_env \<Rightarrow> (str \<rightharpoonup> ('n, 'v, 'g) mitm_hook list) \<Rightarrow>
   'j mitm_hook_config list \<Rightarrow> mitm_error + (str \<rightharpoonup> ('n, 'v, 'g) mitm_hook list)" where
  "compile_hooks eng env m [] = Inr m"
| "compile_hooks eng env m (c # cs) =
     (case compile_hook eng env c of
        Inl e \<Rightarrow> Inl e
      | Inr hook \<Rightarrow> compile_hooks eng env (push_hook m hook) cs)"

definition compile_mitm_hooks ::
  "('g, 's) glob_engine \<Rightarrow> ('n, 'v) mitm_env \<Rightarrow> bool \<Rightarrow> 'j mitm_hook_config list \<Rightarrow>
   mitm_error + (str \<rightharpoonup> ('n, 'v, 'g) mitm_hook list)" where
  "compile_mitm_hooks eng env mitm hooks =
     and_then (validate_mitm_hooks eng env mitm hooks) (\<lambda>_. compile_hooks eng env Map.empty hooks)"

section \<open>Evaluation\<close>

text \<open>
  The parts of a request that a hook reads; a header value is \<open>None\<close> when it is not visible ASCII.
  \<open>form_pairs\<close> is \<open>form_urlencoded::parse\<close>.
\<close>

record 'n request =
  req_method :: str
  req_path :: str
  req_query :: "str option"
  req_headers :: "('n \<times> str option) list"

datatype ('n, 'v) hook_evaluation =
    NoHooksForHost
  | Matched "('n, 'v) mitm_hook_actions"
  | HookedHostNoMatch

fun path_matcher_matches :: "('g, 's) glob_engine \<Rightarrow> 'g path_matcher \<Rightarrow> str \<Rightarrow> bool" where
  "path_matcher_matches eng (PathPrefix p) candidate = starts_with candidate p"
| "path_matcher_matches eng (PathGlob g) candidate = glob_is_match eng (glob_matcher g) candidate"

fun value_matcher_matches :: "('g, 's) glob_engine \<Rightarrow> 'g value_matcher \<Rightarrow> str \<Rightarrow> bool" where
  "value_matcher_matches eng (ValueExact v) candidate = (v = candidate)"
| "value_matcher_matches eng (ValueGlob g) candidate = glob_is_match eng (glob_matcher g) candidate"

definition path_matches :: "('g, 's) glob_engine \<Rightarrow> 'g path_matcher list \<Rightarrow> str \<Rightarrow> bool" where
  "path_matches eng ms path \<longleftrightarrow> list_ex (\<lambda>m. path_matcher_matches eng m path) ms"

definition query_matches ::
  "('g, 's) glob_engine \<Rightarrow> (str \<Rightarrow> (str \<times> str) list) \<Rightarrow> (str \<times> 'g value_matcher list) list \<Rightarrow> 'n request \<Rightarrow> bool" where
  "query_matches eng form_pairs constraints req =
     (if constraints = [] then True
      else
        (let pairs = form_pairs (case req_query req of Some q \<Rightarrow> q | None \<Rightarrow> [])
         in list_all (\<lambda>(name, allowed).
              let actual = map snd (filter (\<lambda>(n, v). n = name) pairs)
              in list_ex (\<lambda>candidate. list_ex (\<lambda>m. value_matcher_matches eng m candidate) allowed) actual)
            constraints))"

definition headers_match ::
  "('g, 's) glob_engine \<Rightarrow> ('n \<times> 'g value_matcher list) list \<Rightarrow> 'n request \<Rightarrow> bool" where
  "headers_match eng constraints req \<longleftrightarrow>
     list_all (\<lambda>(name, allowed).
       let actual = map snd (filter (\<lambda>(n, v). n = name) (req_headers req))
       in if actual = [] then False
          else if allowed = [] then True
          else list_ex (\<lambda>v. case v of
                 None \<Rightarrow> False
               | Some candidate \<Rightarrow> list_ex (\<lambda>m. value_matcher_matches eng m candidate) allowed) actual)
     constraints"

definition hook_matches ::
  "('g, 's) glob_engine \<Rightarrow> (str \<Rightarrow> (str \<times> str) list) \<Rightarrow> ('n, 'v, 'g) mitm_hook \<Rightarrow> 'n request \<Rightarrow> bool" where
  "hook_matches eng form_pairs hook req =
     (let m = mitm_matcher hook; meth = to_ascii_uppercase (req_method req)
      in if \<not> list_ex (\<lambda>allowed. allowed = meth) (mitm_methods m) then False
         else if \<not> path_matches eng (mitm_path_prefixes m) (req_path req) then False
         else if \<not> query_matches eng form_pairs (query_constraints m) req then False
         else headers_match eng (header_constraints m) req)"

definition evaluate_mitm_hooks ::
  "('g, 's) glob_engine \<Rightarrow> (str \<Rightarrow> (str \<times> str) list) \<Rightarrow> (str \<rightharpoonup> ('n, 'v, 'g) mitm_hook list) \<Rightarrow>
   str \<Rightarrow> 'n request \<Rightarrow> ('n, 'v) hook_evaluation" where
  "evaluate_mitm_hooks eng form_pairs hooks_by_host h req =
     (case hooks_by_host (normalize_host h) of
        None \<Rightarrow> NoHooksForHost
      | Some hooks \<Rightarrow>
          (case find (\<lambda>hook. hook_matches eng form_pairs hook req) hooks of
             Some hook \<Rightarrow> Matched (mitm_actions hook)
           | None \<Rightarrow> HookedHostNoMatch))"

section \<open>The compiled table\<close>

lemma compile_hooks_fold:
  "compile_hooks eng env m cs = Inr t \<longleftrightarrow>
     (\<exists>hooks. list_all2 (\<lambda>c hook. compile_hook eng env c = Inr hook) cs hooks \<and> t = foldl push_hook m hooks)"
proof (induction cs arbitrary: m)
  case (Cons c cs)
  show ?case
    by (cases "compile_hook eng env c") (auto simp: Cons.IH list_all2_Cons1 split: sum.splits)
qed auto

lemma foldl_push_hook:
  "foldl push_hook m hooks h =
     (case filter (\<lambda>k. mitm_host k = h) hooks of
        [] \<Rightarrow> m h
      | k # ks \<Rightarrow> Some ((case m h of Some hs \<Rightarrow> hs | None \<Rightarrow> []) @ k # ks))"
  by (induction hooks arbitrary: m) (auto simp: push_hook_def split: list.splits option.splits)

lemma normalize_hook_host_Inr:
  "normalize_hook_host h = Inr n \<longleftrightarrow> n = normalize_host h \<and> n \<noteq> [] \<and> 42 \<notin> set n"
  by (auto simp: normalize_hook_host_def Let_def)

lemma list_all2_preimage: "list_all2 P xs ys \<Longrightarrow> y \<in> set ys \<Longrightarrow> \<exists>x\<in>set xs. P x y"
  by (induction xs ys rule: list_all2_induct) auto

lemma compile_hook_host: "compile_hook eng env c = Inr hook \<Longrightarrow> normalize_hook_host (hook_host c) = Inr (mitm_host hook)"
  by (auto simp: compile_hook_def and_then_Inr_iff)

text \<open>
  C37. The table compiled from the configured hooks keeps their order: for a request to a host, the
  first configured hook of that host whose conditions hold decides; a host without hooks is told
  apart from a host none of whose hooks applies; and the host of a compiled hook is not empty and
  has no wildcard.
\<close>
theorem compiled_hooks_first_match:
  assumes "compile_mitm_hooks eng env mitm cfgs = Inr table"
  shows "\<exists>hooks.
    list_all2 (\<lambda>c hook. compile_hook eng env c = Inr hook) cfgs hooks \<and>
    list_all (\<lambda>hook. mitm_host hook \<noteq> [] \<and> 42 \<notin> set (mitm_host hook)) hooks \<and>
    (\<forall>h req. evaluate_mitm_hooks eng form_pairs table h req =
      (let own = filter (\<lambda>hook. mitm_host hook = normalize_host h) hooks
       in if own = [] then NoHooksForHost
          else (case find (\<lambda>hook. hook_matches eng form_pairs hook req) own of
                  Some hook \<Rightarrow> Matched (mitm_actions hook)
                | None \<Rightarrow> HookedHostNoMatch)))"
proof -
  from assms obtain hooks where hooks: "list_all2 (\<lambda>c hook. compile_hook eng env c = Inr hook) cfgs hooks"
    and table: "table = foldl push_hook Map.empty hooks"
    by (auto simp: compile_mitm_hooks_def and_then_Inr_iff compile_hooks_fold)
  have hosts: "list_all (\<lambda>hook. mitm_host hook \<noteq> [] \<and> 42 \<notin> set (mitm_host hook)) hooks"
    unfolding list_all_iff
  proof
    fix hook assume "hook \<in> set hooks"
    then obtain c where "c \<in> set cfgs" and c: "compile_hook eng env c = Inr hook"
      using list_all2_preimage[OF hooks, of hook] by blast
    from compile_hook_host[OF c] show "mitm_host hook \<noteq> [] \<and> 42 \<notin> set (mitm_host hook)"
      unfolding normalize_hook_host_Inr by blast
  qed
  have own: "evaluate_mitm_hooks eng form_pairs table h req =
      (let own = filter (\<lambda>hook. mitm_host hook = normalize_host h) hooks
       in if own = [] then NoHooksForHost
          else (case find (\<lambda>hook. hook_matches eng form_pairs hook req) own of
                  Some hook \<Rightarrow> Matched (mitm_actions hook)
                | None \<Rightarrow> HookedHostNoMatch))" for h req
    unfolding evaluate_mitm_hooks_def table foldl_push_hook Let_def
    by (cases "filter (\<lambda>k. mitm_host k = normalize_host h) hooks") simp_all
  from hooks hosts own show ?thesis by blast
qed

section \<open>Validation is complete\<close>

text \<open>The errors that only the compilation can find: the secrets themselves.\<close>

fun secret_error :: "mitm_error \<Rightarrow> bool" where
  "secret_error (InvalidInjectedHeader name e) =
     ((\<exists>v. e = MissingEnvVar v) \<or> (\<exists>p. e = UnreadableSecretFile p) \<or> e = InvalidHeaderValue name)"
| "secret_error _ = False"

lemma map_err_Inr_iff [simp]: "map_err f r = Inr a \<longleftrightarrow> r = Inr a"
  by (cases r) (auto simp: map_err_def)

lemma collect_results_total:
  "(\<And>x. x \<in> set xs \<Longrightarrow> \<exists>y. f x = Inr y) \<Longrightarrow> \<exists>ys. collect_results f xs = Inr ys"
  by (induction xs) (fastforce split: sum.splits)+

lemma collect_pairs_total:
  assumes "\<And>a b. (a, b) \<in> set xs \<Longrightarrow> \<exists>n vs. f a = Inr n \<and> g b = Inr vs"
  shows "\<exists>ys. collect_results (\<lambda>(a, b). and_then (f a) (\<lambda>n. and_then (g b) (\<lambda>vs. Inr (n, vs)))) xs = Inr ys"
  by (rule collect_results_total) (use assms in \<open>force simp: and_then_Inr_iff\<close>)

lemma collect_results_Inl:
  "collect_results f xs = Inl e \<Longrightarrow> \<exists>x\<in>set xs. f x = Inl e"
  by (induction xs) (auto split: sum.splits)

lemma compile_injected_header_errors:
  assumes "validate_injected_header env hdr = Inr ()" "compile_injected_header env hdr = Inl e"
  shows "secret_error (InvalidInjectedHeader (injected_name hdr) e)"
  using assms
  by (auto simp: validate_injected_header_def compile_injected_header_def and_then_Inr_iff Let_def
      split: option.splits if_splits)

lemma compile_hook_errors:
  assumes v: "validate_hook eng env (i, c) = Inr ()" and e: "compile_hook eng env c = Inl e"
  shows "secret_error e"
proof -
  let ?m = "hook_match c" and ?a = "hook_actions c"
  from v obtain h ms ps where head: "normalize_hook_host (hook_host c) = Inr h"
      "normalize_methods (match_methods ?m) = Inr ms" "compile_path_matchers eng (match_path_prefixes ?m) = Inr ps"
    and q: "validate_query_constraints eng (match_query ?m) = Inr ()"
    and hd: "validate_header_constraints eng env (match_headers ?m) = Inr ()"
    and st: "validate_strip_request_headers env (cfg_strip_request_headers ?a) = Inr ()"
    and inj: "validate_injected_headers env (cfg_inject_request_headers ?a) = Inr ()"
    by (auto simp: validate_hook_def and_then_Inr_iff)
  have "\<exists>n vs. normalize_query_name name = Inr n \<and> compile_value_matchers eng vals = Inr vs"
    if "(name, vals) \<in> set (match_query ?m)" for name vals
  proof -
    from q that have "validate_query_constraint eng (name, vals) = Inr ()"
      by (auto simp: validate_query_constraints_def try_for_each_Inr_iff)
    then show ?thesis by (auto simp: validate_query_constraint_def and_then_Inr_iff)
  qed
  from collect_pairs_total[of "match_query ?m" normalize_query_name "compile_value_matchers eng", OF this] obtain qs where qs: "collect_results (\<lambda>(name, vals).
      and_then (normalize_query_name name) (\<lambda>n.
      and_then (compile_value_matchers eng vals) (\<lambda>vs. Inr (n, vs)))) (match_query ?m) = Inr qs" by blast
  have "\<exists>n vs. parse_header_name env name = Inr n \<and> compile_value_matchers eng vals = Inr vs"
    if "(name, vals) \<in> set (match_headers ?m)" for name vals
    using bspec[OF hd[unfolded validate_header_constraints_def try_for_each_Inr_iff] that]
    by (auto simp: and_then_Inr_iff)
  from collect_pairs_total[of "match_headers ?m" "parse_header_name env" "compile_value_matchers eng", OF this] obtain hs where hs: "collect_results (\<lambda>(name, vals).
      and_then (parse_header_name env name) (\<lambda>n.
      and_then (compile_value_matchers eng vals) (\<lambda>vs. Inr (n, vs)))) (match_headers ?m) = Inr hs" by blast
  from st obtain strip where strip: "collect_results (parse_header_name env) (cfg_strip_request_headers ?a) = Inr strip"
    using collect_results_total[of "cfg_strip_request_headers ?a" "parse_header_name env"]
    by (auto simp: validate_strip_request_headers_def try_for_each_Inr_iff and_then_Inr_iff)
  have "\<exists>e'. collect_results (\<lambda>hdr. map_err (InvalidInjectedHeader (injected_name hdr)) (compile_injected_header env hdr))
      (cfg_inject_request_headers ?a) = Inl e'" and
    "collect_results (\<lambda>hdr. map_err (InvalidInjectedHeader (injected_name hdr)) (compile_injected_header env hdr))
      (cfg_inject_request_headers ?a) = Inl e"
    using e unfolding compile_hook_def head qs hs strip and_then_simps
    by (auto simp: and_then_def split: sum.splits)
  then obtain hdr where hdr: "hdr \<in> set (cfg_inject_request_headers ?a)"
    "map_err (InvalidInjectedHeader (injected_name hdr)) (compile_injected_header env hdr) = Inl e"
    by (blast dest: collect_results_Inl)
  from hdr(2) obtain e' where "compile_injected_header env hdr = Inl e'" "e = InvalidInjectedHeader (injected_name hdr) e'"
    by (auto simp: map_err_def split: sum.splits)
  with compile_injected_header_errors[of env hdr e'] inj hdr(1) show ?thesis
    by (simp add: validate_injected_headers_def try_for_each_Inr_iff)
qed

lemma compile_hooks_Inl: "compile_hooks eng env m cs = Inl e \<Longrightarrow> \<exists>c\<in>set cs. compile_hook eng env c = Inl e"
  by (induction cs arbitrary: m) (auto split: sum.splits)

text \<open>
  The validation of the hooks is complete: once it accepts them, the only thing that can still
  fail in their compilation is a secret, a missing environment variable, a file that cannot be read
  or a value that is no header value.
\<close>
theorem validated_hooks_compile:
  assumes "validate_mitm_hooks eng env mitm cfgs = Inr ()"
  shows "(\<exists>table. compile_mitm_hooks eng env mitm cfgs = Inr table) \<or>
    (\<exists>e. compile_mitm_hooks eng env mitm cfgs = Inl e \<and> secret_error e)"
proof (cases "compile_hooks eng env Map.empty cfgs")
  case (Inl e)
  then obtain c where c: "c \<in> set cfgs" "compile_hook eng env c = Inl e" by (blast dest: compile_hooks_Inl)
  then obtain i where "i < length cfgs" "cfgs ! i = c" by (auto simp: in_set_conv_nth)
  then have "(i, c) \<in> set (enumerate 0 cfgs)" by (auto simp: in_set_enumerate_eq)
  with assms c(1) have "validate_hook eng env (i, c) = Inr ()"
    by (auto simp: validate_mitm_hooks_def try_for_each_Inr_iff split: if_splits)
  from compile_hook_errors[OF this c(2)] Inl assms show ?thesis by (simp add: compile_mitm_hooks_def)
next
  case (Inr t)
  with assms show ?thesis by (simp add: compile_mitm_hooks_def)
qed

section \<open>An example\<close>

definition example_mitm_env :: "(str, str) mitm_env" where
  "example_mitm_env =
     \<lparr>header_name = (\<lambda>n. if n = [] then None else Some (to_ascii_lowercase n)), header_value = Some,
      get_env_var = (\<lambda>_. None), read_file = (\<lambda>_. None),
      mitm_path_env = \<lparr>home_dir = None, current_dir = None\<rparr>\<rparr>"

definition example_hook :: "str list \<Rightarrow> injected_header_config list \<Rightarrow> unit mitm_hook_config" where
  "example_hook ms inject =
     \<lparr>hook_host = lit ''API.Example.com:443'',
      hook_match = \<lparr>match_methods = ms, match_path_prefixes = [lit ''/v1/''], match_query = [],
                    match_headers = [], match_body = None\<rparr>,
      hook_actions = \<lparr>cfg_strip_request_headers = [lit ''Authorization''],
                      cfg_inject_request_headers = inject\<rparr>\<rparr>"

lemma list_all2_pair: "list_all2 P [a, b] ys \<longleftrightarrow> (\<exists>x y. ys = [x, y] \<and> P a x \<and> P b y)"
  by (auto simp: list_all2_Cons1)

theorem compiled_hooks_first_match_witness:
  "\<exists>table. \<forall>form_pairs req.
     compile_mitm_hooks simple_glob_engine example_mitm_env True
       [example_hook [lit ''get''] [], example_hook [lit ''post''] []] = Inr table \<and>
     evaluate_mitm_hooks simple_glob_engine form_pairs table (lit ''api.example.com'') req \<noteq> NoHooksForHost"
proof -
  let ?cfgs = "[example_hook [lit ''get''] [], example_hook [lit ''post''] []]"
  let ?eng = "simple_glob_engine" and ?env = "example_mitm_env"
  have ok: "is_ok (compile_mitm_hooks ?eng ?env True ?cfgs)" by code_simp
  obtain table where t: "compile_mitm_hooks ?eng ?env True ?cfgs = Inr table"
    using ok by (cases "compile_mitm_hooks ?eng ?env True ?cfgs") auto
  have n: "normalize_host (lit ''API.Example.com:443'') = lit ''api.example.com''"
    "normalize_host (lit ''api.example.com'') = lit ''api.example.com''" by code_simp+
  have "evaluate_mitm_hooks ?eng fp table (lit ''api.example.com'') req \<noteq> NoHooksForHost" for fp req
  proof -
    from compiled_hooks_first_match[OF t, of fp] obtain hooks where
      h: "list_all2 (\<lambda>c hook. compile_hook ?eng ?env c = Inr hook) ?cfgs hooks"
      and e: "\<forall>h req. evaluate_mitm_hooks ?eng fp table h req =
      (let own = filter (\<lambda>hook. mitm_host hook = normalize_host h) hooks
       in if own = [] then NoHooksForHost
          else (case find (\<lambda>hook. hook_matches ?eng fp hook req) own of
                  Some hook \<Rightarrow> Matched (mitm_actions hook)
                | None \<Rightarrow> HookedHostNoMatch))" by blast
    from h obtain x y where hooks: "hooks = [x, y]" and x: "compile_hook ?eng ?env (example_hook [lit ''get''] []) = Inr x"
      unfolding list_all2_pair by blast
    have "mitm_host x = lit ''api.example.com''"
      using compile_hook_host[OF x] by (simp add: normalize_hook_host_Inr example_hook_def n)
    then show ?thesis unfolding hooks using e[rule_format, of "lit ''api.example.com''" req]
      by (auto simp: hooks Let_def n split: option.splits)
  qed
  with t show ?thesis by blast
qed

theorem validated_hooks_compile_witness:
  "\<exists>e. compile_mitm_hooks simple_glob_engine example_mitm_env True
     [example_hook [lit ''get'']
       [\<lparr>injected_name = lit ''Authorization'', secret_env_var = Some (lit ''TOKEN''),
         secret_file = None, value_prefix = Some (lit ''Bearer '')\<rparr>]] = Inl e \<and> secret_error e"
proof -
  let ?cfgs = "[example_hook [lit ''get'']
       [\<lparr>injected_name = lit ''Authorization'', secret_env_var = Some (lit ''TOKEN''),
         secret_file = None, value_prefix = Some (lit ''Bearer '')\<rparr>]]"
  have v: "validate_mitm_hooks simple_glob_engine example_mitm_env True ?cfgs = Inr ()" by code_simp
  have "\<not> is_ok (compile_mitm_hooks simple_glob_engine example_mitm_env True ?cfgs)" by code_simp
  then show ?thesis using validated_hooks_compile[OF v] by auto
qed

end
