(* ===== verification/NetConfig.thy ===== *)
theory NetConfig
  imports NetMitm "HOL-Library.List_Lexorder"
begin

text \<open>
  The configuration of the network proxy (\<open>network-proxy/src/config.rs\<close>): domain permissions with
  their precedence, the setters, the listener addresses; and its validation against the managed
  constraints (\<open>network-proxy/src/state.rs\<close>). \<open>Url::parse\<close> and the rendering of \<open>url::Host\<close> are
  parameters. \<open>within_constraints\<close> reads the validation as one condition, for the proofs of \<open>NetRuntime\<close>.
\<close>

section \<open>Permissions\<close>

datatype domain_permission = PermNone | PermAllow | PermDeny

text \<open>The variant order is the precedence of duplicate patterns: \<open>None < Allow < Deny\<close>.\<close>

fun permission_rank :: "domain_permission \<Rightarrow> nat" where
  "permission_rank PermNone = 0"
| "permission_rank PermAllow = 1"
| "permission_rank PermDeny = 2"

instantiation domain_permission :: linorder
begin

definition less_eq_domain_permission :: "domain_permission \<Rightarrow> domain_permission \<Rightarrow> bool" where
  "p \<le> q \<longleftrightarrow> permission_rank p \<le> permission_rank q"

definition less_domain_permission :: "domain_permission \<Rightarrow> domain_permission \<Rightarrow> bool" where
  "p < q \<longleftrightarrow> permission_rank p < permission_rank q"

instance
proof
  fix p q r :: domain_permission
  show "p < q \<longleftrightarrow> p \<le> q \<and> \<not> q \<le> p" by (auto simp: less_eq_domain_permission_def less_domain_permission_def)
  show "p \<le> p" by (simp add: less_eq_domain_permission_def)
  show "p \<le> q \<Longrightarrow> q \<le> r \<Longrightarrow> p \<le> r" by (simp add: less_eq_domain_permission_def)
  show "p \<le> q \<Longrightarrow> q \<le> p \<Longrightarrow> p = q" by (cases p; cases q) (simp_all add: less_eq_domain_permission_def)
  show "p \<le> q \<or> q \<le> p" by (auto simp: less_eq_domain_permission_def)
qed

end

type_synonym domain_entry = "str \<times> domain_permission"

text \<open>The loop of \<open>effective_entries\<close>: the order of first occurrences and the strongest permissions.\<close>

fun effective_loop :: "str list \<Rightarrow> (str \<rightharpoonup> domain_permission) \<Rightarrow> domain_entry list \<Rightarrow> str list \<times> (str \<rightharpoonup> domain_permission)" where
  "effective_loop order m [] = (order, m)"
| "effective_loop order m ((pattern, perm) # es) =
     (let order = (if m pattern = None then order @ [pattern] else order);
          current = (case m pattern of Some p \<Rightarrow> p | None \<Rightarrow> perm)
      in effective_loop order (m(pattern \<mapsto> (if current < perm then perm else current))) es)"

fun drain_permissions :: "(str \<rightharpoonup> domain_permission) \<Rightarrow> str list \<Rightarrow> domain_entry list" where
  "drain_permissions m [] = []"
| "drain_permissions m (p # ps) =
     (case m p of
        Some perm \<Rightarrow> (p, perm) # drain_permissions (m(p := None)) ps
      | None \<Rightarrow> drain_permissions m ps)"

definition effective_entries :: "domain_entry list \<Rightarrow> domain_entry list" where
  "effective_entries entries =
     (case effective_loop [] Map.empty entries of (order, m) \<Rightarrow> drain_permissions m order)"

datatype unix_socket_permission = SocketAllow | SocketDeny

datatype network_mode = LimitedMode | FullMode

definition allows_method :: "network_mode \<Rightarrow> str \<Rightarrow> bool" where
  "allows_method mode meth =
     (case mode of
        FullMode \<Rightarrow> True
      | LimitedMode \<Rightarrow> meth = lit ''GET'' \<or> meth = lit ''HEAD'' \<or> meth = lit ''OPTIONS'')"

section \<open>Configuration\<close>

text \<open>A \<open>BTreeMap\<close> with string keys is the list of its entries in key order.\<close>

record 'j network_proxy_config =
  enabled :: bool
  proxy_url :: str
  enable_socks5 :: bool
  socks_url :: str
  enable_socks5_udp :: bool
  allow_upstream_proxy :: bool
  allow_non_loopback_proxy :: bool \<comment> \<open>\<open>dangerously_allow_non_loopback_proxy\<close>\<close>
  allow_all_unix_sockets :: bool \<comment> \<open>\<open>dangerously_allow_all_unix_sockets\<close>\<close>
  mode :: network_mode
  domains :: "domain_entry list option"
  unix_sockets :: "(str \<times> unix_socket_permission) list option"
  allow_local_binding :: bool
  mitm :: bool
  credential_broker :: bool
  allow_plaintext_credential_injection :: bool \<comment> \<open>\<open>dangerously_allow_plaintext_credential_injection\<close>\<close>
  mitm_hooks :: "'j mitm_hook_config list"

definition default_config :: "'j network_proxy_config" where
  "default_config =
     \<lparr>enabled = False, proxy_url = lit ''http://127.0.0.1:3128'', enable_socks5 = True,
      socks_url = lit ''http://127.0.0.1:8081'', enable_socks5_udp = True, allow_upstream_proxy = True,
      allow_non_loopback_proxy = False, allow_all_unix_sockets = False, mode = FullMode, domains = None,
      unix_sockets = None, allow_local_binding = False, mitm = False, credential_broker = False,
      allow_plaintext_credential_injection = False, mitm_hooks = []\<rparr>"

definition set_credential_broker_enabled :: "bool \<Rightarrow> 'j network_proxy_config \<Rightarrow> 'j network_proxy_config" where
  "set_credential_broker_enabled b cfg = cfg\<lparr>credential_broker := b, mitm := mitm cfg \<or> b\<rparr>"

definition domain_entries :: "domain_permission \<Rightarrow> 'j network_proxy_config \<Rightarrow> str list option" where
  "domain_entries perm cfg =
     (case map_option (\<lambda>ds. map fst (filter (\<lambda>e. snd e = perm) (effective_entries ds))) (domains cfg) of
        Some (e # es) \<Rightarrow> Some (e # es)
      | _ \<Rightarrow> None)"

definition allowed_domains :: "'j network_proxy_config \<Rightarrow> str list option" where
  "allowed_domains = domain_entries PermAllow"

definition denied_domains :: "'j network_proxy_config \<Rightarrow> str list option" where
  "denied_domains = domain_entries PermDeny"

text \<open>\<open>unwrap_or_default\<close>.\<close>

definition entries_or_empty :: "'a list option \<Rightarrow> 'a list" where
  "entries_or_empty x = (case x of Some xs \<Rightarrow> xs | None \<Rightarrow> [])"

definition allow_unix_sockets :: "'j network_proxy_config \<Rightarrow> str list" where
  "allow_unix_sockets cfg =
     entries_or_empty (map_option (\<lambda>es. map fst (filter (\<lambda>e. snd e = SocketAllow) es)) (unix_sockets cfg))"

definition non_empty :: "'a list \<Rightarrow> 'a list option" where
  "non_empty xs = (if xs = [] then None else Some xs)"

definition upsert_domain_permission ::
  "str \<Rightarrow> domain_permission \<Rightarrow> (str \<Rightarrow> str) \<Rightarrow> 'j network_proxy_config \<Rightarrow> 'j network_proxy_config" where
  "upsert_domain_permission host perm norm cfg =
     (let entries = entries_or_empty (domains cfg);
          normalized_host = norm host;
          entries = filter (\<lambda>e. norm (fst e) \<noteq> normalized_host) entries @ [(host, perm)]
      in cfg\<lparr>domains := non_empty entries\<rparr>)"

fun push_new_entries :: "domain_permission \<Rightarrow> domain_entry list \<Rightarrow> str list \<Rightarrow> domain_entry list" where
  "push_new_entries perm entries [] = entries"
| "push_new_entries perm entries (e # es) =
     push_new_entries perm (if (e, perm) \<in> set entries then entries else entries @ [(e, perm)]) es"

definition set_domain_entries :: "domain_permission \<Rightarrow> str list \<Rightarrow> 'j network_proxy_config \<Rightarrow> 'j network_proxy_config" where
  "set_domain_entries perm entries cfg =
     cfg\<lparr>domains := non_empty
       (push_new_entries perm (filter (\<lambda>e. snd e \<noteq> perm) (entries_or_empty (domains cfg))) entries)\<rparr>"

definition set_allowed_domains :: "str list \<Rightarrow> 'j network_proxy_config \<Rightarrow> 'j network_proxy_config" where
  "set_allowed_domains = set_domain_entries PermAllow"

definition set_denied_domains :: "str list \<Rightarrow> 'j network_proxy_config \<Rightarrow> 'j network_proxy_config" where
  "set_denied_domains = set_domain_entries PermDeny"

fun btree_insert :: "str \<Rightarrow> 'v \<Rightarrow> (str \<times> 'v) list \<Rightarrow> (str \<times> 'v) list" where
  "btree_insert k v [] = [(k, v)]"
| "btree_insert k v ((k', v') # es) =
     (if k < k' then (k, v) # (k', v') # es
      else if k = k' then (k, v) # es
      else (k', v') # btree_insert k v es)"

definition set_allow_unix_sockets :: "str list \<Rightarrow> 'j network_proxy_config \<Rightarrow> 'j network_proxy_config" where
  "set_allow_unix_sockets paths cfg =
     (let entries = filter (\<lambda>e. snd e \<noteq> SocketAllow) (entries_or_empty (unix_sockets cfg))
      in cfg\<lparr>unix_sockets := non_empty (foldl (\<lambda>es p. btree_insert p SocketAllow es) entries paths)\<rparr>)"

section \<open>Listeners\<close>

type_synonym socket_addr = "ip_addr \<times> nat"

definition LOCALHOST :: ip_addr where "LOCALHOST = V4 (ipv4_of_octets 127 0 0 1)"

definition clamp_non_loopback :: "socket_addr \<Rightarrow> bool \<Rightarrow> socket_addr" where
  "clamp_non_loopback addr allow_non_loopback =
     (if ip_is_loopback (fst addr) then addr
      else if allow_non_loopback then addr
      else (LOCALHOST, snd addr))"

definition clamp_bind_addrs :: "socket_addr \<Rightarrow> socket_addr \<Rightarrow> 'j network_proxy_config \<Rightarrow> socket_addr \<times> socket_addr" where
  "clamp_bind_addrs http_addr socks_addr cfg =
     (let http_addr = clamp_non_loopback http_addr (allow_non_loopback_proxy cfg);
          socks_addr = clamp_non_loopback socks_addr (allow_non_loopback_proxy cfg)
      in if allow_unix_sockets cfg = [] \<and> \<not> allow_all_unix_sockets cfg then (http_addr, socks_addr)
         else ((LOCALHOST, snd http_addr), (LOCALHOST, snd socks_addr)))"

text \<open>\<open>str::parse::<u16>\<close>: an optional plus sign and decimal digits up to 65535.\<close>

definition parse_u16 :: "str \<Rightarrow> nat option" where
  "parse_u16 s =
     (let ds = (case s of c # r \<Rightarrow> if c = 43 then r else s | [] \<Rightarrow> [])
      in if ds = [] \<or> \<not> list_all is_ascii_digit ds then None
         else (let n = foldl (\<lambda>a c. a * 10 + (c - 48)) 0 ds in if n < 65536 then Some n else None))"

datatype config_error =
    MissingProxyHost str
  | InvalidUnixSocket nat str
  | InvalidProxyUrl config_error
  | InvalidSocksUrl config_error
  | ProxyPortNotFixed
  | SocksPortNotFixed

definition parse_host_port_fallback :: "str \<Rightarrow> nat \<Rightarrow> config_error + str \<times> nat" where
  "parse_host_port_fallback input default_port =
     (let without_scheme = (case split_once_str (lit ''://'') input of Some (scheme, rest) \<Rightarrow> rest | None \<Rightarrow> input);
          host_port = hd (split_on 47 without_scheme);
          host_port = (case rsplit_once 64 host_port of Some (user, rest) \<Rightarrow> rest | None \<Rightarrow> host_port)
      in case (if starts_with host_port [91] then find_sub [93] host_port else None) of
           Some end_pos \<Rightarrow>
             (let h = drop 1 (take end_pos host_port);
                  port = (case Option.bind (strip_prefix (drop (end_pos + 1) host_port) [58]) parse_u16 of
                            Some p \<Rightarrow> p | None \<Rightarrow> default_port)
              in if h = [] then Inl (MissingProxyHost input) else Inr (h, port))
         | None \<Rightarrow>
             (case (if length (filter (\<lambda>b. b = 58) host_port) = 1 then rsplit_once 58 host_port else None) of
                Some (h, port) \<Rightarrow>
                  if h = [] then Inl (MissingProxyHost input)
                  else Inr (h, case parse_u16 port of Some p \<Rightarrow> p | None \<Rightarrow> default_port)
              | None \<Rightarrow>
                  if host_port = [] then Inl (MissingProxyHost input) else Inr (host_port, default_port)))"

text \<open>\<open>trim_matches\<close> on the brackets.\<close>

definition trim_brackets :: "str \<Rightarrow> str" where
  "trim_brackets s =
     rev (dropWhile (\<lambda>c. c = 91 \<or> c = 93) (rev (dropWhile (\<lambda>c. c = 91 \<or> c = 93) s)))"

text \<open>The parameter \<open>url_parse\<close> is \<open>Url::parse\<close>, read through \<open>host_str\<close> and \<open>port\<close>.\<close>

definition parse_host_port ::
  "(str \<Rightarrow> (str option \<times> nat option) option) \<Rightarrow> str \<Rightarrow> nat \<Rightarrow> config_error + str \<times> nat" where
  "parse_host_port url_parse url default_port =
     (let trimmed = trim url
      in if trimmed = [] then Inl (MissingProxyHost url)
         else if (case parse_ip trimmed of Some (V6 ip) \<Rightarrow> True | _ \<Rightarrow> False) \<and> \<not> starts_with trimmed [91]
         then Inr (trimmed, default_port)
         else
           (let candidate = (if contains_sub (lit ''://'') trimmed then trimmed else lit ''http://'' @ trimmed)
            in case url_parse candidate of
                 Some (Some h, port) \<Rightarrow>
                   (let h = trim_brackets h
                    in if h = [] then Inl (MissingProxyHost url)
                       else Inr (h, case port of Some p \<Rightarrow> p | None \<Rightarrow> default_port))
               | _ \<Rightarrow> parse_host_port_fallback trimmed default_port))"

definition resolve_addr ::
  "(str \<Rightarrow> (str option \<times> nat option) option) \<Rightarrow> str \<Rightarrow> nat \<Rightarrow> config_error + socket_addr" where
  "resolve_addr url_parse url default_port =
     and_then (parse_host_port url_parse url default_port) (\<lambda>(h, port).
       let h = (if eq_ignore_ascii_case h (lit ''localhost'') then lit ''127.0.0.1'' else h)
       in case parse_ip h of Some ip \<Rightarrow> Inr (ip, port) | None \<Rightarrow> Inr (LOCALHOST, port))"

definition format_host_and_port :: "str \<Rightarrow> nat \<Rightarrow> str" where
  "format_host_and_port h port =
     (if 58 \<in> set h then [91] @ h @ [93, 58] @ show_nat port else h @ [58] @ show_nat port)"

definition host_and_port_from_network_addr ::
  "(str \<Rightarrow> (str option \<times> nat option) option) \<Rightarrow> str \<Rightarrow> nat \<Rightarrow> str" where
  "host_and_port_from_network_addr url_parse v default_port =
     (let trimmed = trim v
      in if trimmed = [] then lit ''<missing>''
         else (case parse_host_port url_parse trimmed default_port of
                 Inl e \<Rightarrow> format_host_and_port trimmed default_port
               | Inr (h, port) \<Rightarrow> format_host_and_port h port))"

text \<open>\<open>ValidatedUnixSocketPath::parse\<close> on Unix, where a path that starts with a slash is absolute.\<close>

definition parse_unix_socket_path :: "path_env \<Rightarrow> str \<Rightarrow> str option" where
  "parse_unix_socket_path env p = (if path_is_absolute p then absolute_path_buf env p else None)"

definition validate_unix_socket_allowlist_paths :: "path_env \<Rightarrow> 'j network_proxy_config \<Rightarrow> config_error + unit" where
  "validate_unix_socket_allowlist_paths env cfg =
     try_for_each (\<lambda>(i, p). case parse_unix_socket_path env p of None \<Rightarrow> Inl (InvalidUnixSocket i p) | Some q \<Rightarrow> Inr ())
       (enumerate 0 (allow_unix_sockets cfg))"

definition resolve_runtime ::
  "(str \<Rightarrow> (str option \<times> nat option) option) \<Rightarrow> path_env \<Rightarrow> 'j network_proxy_config \<Rightarrow>
   config_error + socket_addr \<times> socket_addr" where
  "resolve_runtime url_parse env cfg =
     and_then (validate_unix_socket_allowlist_paths env cfg) (\<lambda>_.
     and_then (map_err InvalidProxyUrl (resolve_addr url_parse (proxy_url cfg) 3128)) (\<lambda>http_addr.
     and_then (map_err InvalidSocksUrl (resolve_addr url_parse (socks_url cfg) 8081)) (\<lambda>socks_addr.
       Inr (clamp_bind_addrs http_addr socks_addr cfg))))"

definition managed_proxy_ports ::
  "(str \<Rightarrow> (str option \<times> nat option) option) \<Rightarrow> path_env \<Rightarrow> 'j network_proxy_config \<Rightarrow> config_error + nat list" where
  "managed_proxy_ports url_parse env cfg =
     and_then (resolve_runtime url_parse env cfg) (\<lambda>(http_addr, socks_addr).
       if snd http_addr = 0 then Inl ProxyPortNotFixed
       else if enable_socks5 cfg then
         (if snd socks_addr = 0 then Inl SocksPortNotFixed
          else Inr (remdups_adj (sort [snd http_addr, snd socks_addr])))
       else Inr [snd http_addr])"

section \<open>Managed constraints\<close>

record network_proxy_constraints =
  max_enabled :: "bool option"
  max_mode :: "network_mode option"
  max_upstream_proxy :: "bool option"
  max_non_loopback_proxy :: "bool option"
  max_all_unix_sockets :: "bool option"
  managed_allowed_domains :: "str list option"
  allowlist_expansion_enabled :: "bool option"
  managed_denied_domains :: "str list option"
  denylist_expansion_enabled :: "bool option"
  managed_unix_sockets :: "str list option"
  max_local_binding :: "bool option"

definition no_constraints :: network_proxy_constraints where
  "no_constraints =
     \<lparr>max_enabled = None, max_mode = None, max_upstream_proxy = None, max_non_loopback_proxy = None,
      max_all_unix_sockets = None, managed_allowed_domains = None, allowlist_expansion_enabled = None,
      managed_denied_domains = None, denylist_expansion_enabled = None, managed_unix_sockets = None,
      max_local_binding = None\<rparr>"

text \<open>
  \<open>NetworkProxyConstraintError::InvalidValue\<close>: the field and what is wrong with it. The entries that
  are missing come from a hash set, so they are a set.
\<close>

datatype constraint_violation =
    DisabledByManagedConfig
  | ModeTooPermissive network_mode network_mode
  | InvalidMitmHooks mitm_error
  | GlobalWildcardEntry str
  | MissingManagedEntries "str set"
  | MustMatchManaged "str list"
  | NotSubsetOfManaged "str list"

datatype constraint_error = InvalidValue string constraint_violation

definition network_mode_rank :: "network_mode \<Rightarrow> nat" where
  "network_mode_rank m = (case m of LimitedMode \<Rightarrow> 0 | FullMode \<Rightarrow> 1)"

definition validate_non_global_wildcard_domain_patterns :: "string \<Rightarrow> str list \<Rightarrow> constraint_error + unit" where
  "validate_non_global_wildcard_domain_patterns field patterns =
     (case find is_global_wildcard_domain_pattern patterns of
        Some p \<Rightarrow> Inl (InvalidValue field (GlobalWildcardEntry (trim p)))
      | None \<Rightarrow> Inr ())"

text \<open>A switch that the managed configuration can turn off.\<close>

definition validate_switch :: "string \<Rightarrow> bool \<Rightarrow> bool \<Rightarrow> constraint_error + unit" where
  "validate_switch field candidate allowed =
     (if candidate \<and> \<not> allowed then Inl (InvalidValue field DisabledByManagedConfig) else Inr ())"

definition lowercase_set :: "str list \<Rightarrow> str set" where
  "lowercase_set entries = set (map to_ascii_lowercase entries)"

definition validate_required :: "string \<Rightarrow> str set \<Rightarrow> constraint_error + unit" where
  "validate_required field missing =
     (if missing = {} then Inr () else Inl (InvalidValue field (MissingManagedEntries missing)))"

definition validate_subset :: "string \<Rightarrow> (str \<Rightarrow> bool) \<Rightarrow> str list \<Rightarrow> constraint_error + unit" where
  "validate_subset field ok candidate =
     (let invalid = filter (\<lambda>e. \<not> ok e) candidate
      in if invalid = [] then Inr () else Inl (InvalidValue field (NotSubsetOfManaged invalid)))"

definition validate_allowed_domains ::
  "(str \<Rightarrow> str option) \<Rightarrow> str list \<Rightarrow> bool option \<Rightarrow> str set \<Rightarrow> str list \<Rightarrow> constraint_error + unit" where
  "validate_allowed_domains url_host managed expansion denied_overrides candidate =
     and_then (validate_non_global_wildcard_domain_patterns ''network.allowed_domains'' managed) (\<lambda>_.
       case expansion of
         Some True \<Rightarrow>
           validate_required ''network.allowed_domains''
             (lowercase_set managed - lowercase_set candidate - denied_overrides)
       | Some False \<Rightarrow>
           (if lowercase_set candidate = lowercase_set managed - denied_overrides then Inr ()
            else Inl (InvalidValue ''network.allowed_domains'' (MustMatchManaged candidate)))
       | None \<Rightarrow>
           (let managed_patterns = map (parse_for_constraints url_host) managed
            in validate_subset ''network.allowed_domains''
                 (\<lambda>entry. list_ex (\<lambda>m. allows m (parse_for_constraints url_host entry)) managed_patterns) candidate))"

definition validate_denied_domains :: "str list \<Rightarrow> bool option \<Rightarrow> str list \<Rightarrow> constraint_error + unit" where
  "validate_denied_domains managed expansion candidate =
     and_then (validate_non_global_wildcard_domain_patterns ''network.denied_domains'' managed) (\<lambda>_.
       if expansion = Some False then
         (if lowercase_set candidate = lowercase_set managed then Inr ()
          else Inl (InvalidValue ''network.denied_domains'' (MustMatchManaged candidate)))
       else validate_required ''network.denied_domains'' (lowercase_set managed - lowercase_set candidate))"

definition validate_policy_against_constraints ::
  "('g, 's) glob_engine \<Rightarrow> ('n, 'v) mitm_env \<Rightarrow> (str \<Rightarrow> str option) \<Rightarrow>
   'j network_proxy_config \<Rightarrow> network_proxy_constraints \<Rightarrow> constraint_error + unit" where
  "validate_policy_against_constraints eng env url_host cfg con =
     (let config_allowed = entries_or_empty (allowed_domains cfg);
          config_denied = entries_or_empty (denied_domains cfg);
          denied_overrides = lowercase_set config_denied;
          config_sockets = allow_unix_sockets cfg
      in
      and_then (map_err (\<lambda>e. InvalidValue ''network.mitm_hooks'' (InvalidMitmHooks e))
                  (validate_mitm_hooks eng env (mitm cfg) (mitm_hooks cfg))) (\<lambda>_.
      and_then (validate_non_global_wildcard_domain_patterns ''network.denied_domains'' config_denied) (\<lambda>_.
      and_then (case max_enabled con of None \<Rightarrow> Inr ()
                | Some m \<Rightarrow> validate_switch ''network.enabled'' (enabled cfg) m) (\<lambda>_.
      and_then (case max_mode con of None \<Rightarrow> Inr ()
                | Some m \<Rightarrow>
                    if network_mode_rank (mode cfg) > network_mode_rank m
                    then Inl (InvalidValue ''network.mode'' (ModeTooPermissive (mode cfg) m)) else Inr ()) (\<lambda>_.
      and_then (validate_switch ''network.allow_upstream_proxy'' (allow_upstream_proxy cfg)
                  (max_upstream_proxy con \<noteq> Some False)) (\<lambda>_.
      and_then (validate_switch ''network.dangerously_allow_non_loopback_proxy'' (allow_non_loopback_proxy cfg)
                  (max_non_loopback_proxy con \<noteq> Some False)) (\<lambda>_.
      and_then (validate_switch ''network.dangerously_allow_all_unix_sockets'' (allow_all_unix_sockets cfg)
                  (case max_all_unix_sockets con of Some b \<Rightarrow> b | None \<Rightarrow> managed_unix_sockets con = None)) (\<lambda>_.
      and_then (case max_local_binding con of None \<Rightarrow> Inr ()
                | Some m \<Rightarrow> validate_switch ''network.allow_local_binding'' (allow_local_binding cfg) m) (\<lambda>_.
      and_then (case managed_allowed_domains con of None \<Rightarrow> Inr ()
                | Some managed \<Rightarrow>
                    validate_allowed_domains url_host managed (allowlist_expansion_enabled con)
                      denied_overrides config_allowed) (\<lambda>_.
      and_then (case managed_denied_domains con of None \<Rightarrow> Inr ()
                | Some managed \<Rightarrow>
                    validate_denied_domains managed (denylist_expansion_enabled con) config_denied) (\<lambda>_.
      case managed_unix_sockets con of None \<Rightarrow> Inr ()
      | Some managed \<Rightarrow>
          validate_subset ''network.allow_unix_sockets''
            (\<lambda>entry. to_ascii_lowercase entry \<in> lowercase_set managed) config_sockets)))))))))))"

section \<open>What validation accepts\<close>

lemma validate_switch_iff [simp]: "validate_switch field c a = Inr u \<longleftrightarrow> (c \<longrightarrow> a)"
  by (simp add: validate_switch_def)

lemma validate_required_iff [simp]: "validate_required field m = Inr u \<longleftrightarrow> m = {}"
  by (simp add: validate_required_def)

lemma validate_subset_iff [simp]: "validate_subset field ok xs = Inr u \<longleftrightarrow> (\<forall>x\<in>set xs. ok x)"
  by (simp add: validate_subset_def Let_def filter_empty_conv)

lemma validate_non_global_iff [simp]:
  "validate_non_global_wildcard_domain_patterns field ps = Inr u \<longleftrightarrow>
     (\<forall>p\<in>set ps. \<not> is_global_wildcard_domain_pattern p)"
proof (cases "find is_global_wildcard_domain_pattern ps")
  case None
  then have "\<forall>p\<in>set ps. \<not> is_global_wildcard_domain_pattern p" by (auto simp: find_None_iff)
  with None show ?thesis by (simp add: validate_non_global_wildcard_domain_patterns_def)
next
  case (Some p)
  then have "p \<in> set ps \<and> is_global_wildcard_domain_pattern p" by (auto simp: find_Some_iff)
  with Some show ?thesis by (auto simp: validate_non_global_wildcard_domain_patterns_def)
qed

text \<open>
  The validation read as one condition, field by field, for the proofs that use that a configuration passed it. What it
  comes to for a host is proved in \<open>NetRuntime\<close>.
\<close>

definition within_switch :: "bool option \<Rightarrow> bool \<Rightarrow> bool" where
  "within_switch limit b \<longleftrightarrow> (limit = Some False \<longrightarrow> \<not> b)"

definition within_allowed_domains ::
  "(str \<Rightarrow> str option) \<Rightarrow> network_proxy_constraints \<Rightarrow> str list \<Rightarrow> str list \<Rightarrow> bool" where
  "within_allowed_domains url_host con allowed denied \<longleftrightarrow>
     (\<forall>managed. managed_allowed_domains con = Some managed \<longrightarrow>
        (\<forall>p\<in>set managed. \<not> is_global_wildcard_domain_pattern p) \<and>
        (case allowlist_expansion_enabled con of
           Some True \<Rightarrow> lowercase_set managed \<subseteq> lowercase_set allowed \<union> lowercase_set denied
         | Some False \<Rightarrow> lowercase_set allowed = lowercase_set managed - lowercase_set denied
         | None \<Rightarrow> \<forall>e\<in>set allowed. \<exists>m\<in>set managed.
             allows (parse_for_constraints url_host m) (parse_for_constraints url_host e)))"

definition within_denied_domains :: "network_proxy_constraints \<Rightarrow> str list \<Rightarrow> bool" where
  "within_denied_domains con denied \<longleftrightarrow>
     (\<forall>managed. managed_denied_domains con = Some managed \<longrightarrow>
        (\<forall>p\<in>set managed. \<not> is_global_wildcard_domain_pattern p) \<and>
        lowercase_set managed \<subseteq> lowercase_set denied \<and>
        (denylist_expansion_enabled con = Some False \<longrightarrow> lowercase_set denied \<subseteq> lowercase_set managed))"

definition within_constraints ::
  "('g, 's) glob_engine \<Rightarrow> ('n, 'v) mitm_env \<Rightarrow> (str \<Rightarrow> str option) \<Rightarrow>
   'j network_proxy_config \<Rightarrow> network_proxy_constraints \<Rightarrow> bool" where
  "within_constraints eng env url_host cfg con \<longleftrightarrow>
     validate_mitm_hooks eng env (mitm cfg) (mitm_hooks cfg) = Inr () \<and>
     (\<forall>p\<in>set (entries_or_empty (denied_domains cfg)). \<not> is_global_wildcard_domain_pattern p) \<and>
     within_switch (max_enabled con) (enabled cfg) \<and>
     (max_mode con = Some LimitedMode \<longrightarrow> mode cfg = LimitedMode) \<and>
     within_switch (max_upstream_proxy con) (allow_upstream_proxy cfg) \<and>
     within_switch (max_non_loopback_proxy con) (allow_non_loopback_proxy cfg) \<and>
     within_switch (max_all_unix_sockets con) (allow_all_unix_sockets cfg) \<and>
     (max_all_unix_sockets con = None \<and> managed_unix_sockets con \<noteq> None \<longrightarrow> \<not> allow_all_unix_sockets cfg) \<and>
     within_switch (max_local_binding con) (allow_local_binding cfg) \<and>
     within_allowed_domains url_host con (entries_or_empty (allowed_domains cfg)) (entries_or_empty (denied_domains cfg)) \<and>
     within_denied_domains con (entries_or_empty (denied_domains cfg)) \<and>
     (\<forall>managed. managed_unix_sockets con = Some managed \<longrightarrow>
        lowercase_set (allow_unix_sockets cfg) \<subseteq> lowercase_set managed)"

lemma validate_allowed_domains_iff:
  "(case managed_allowed_domains con of None \<Rightarrow> Inr ()
    | Some managed \<Rightarrow> validate_allowed_domains url_host managed (allowlist_expansion_enabled con)
        (lowercase_set denied) allowed) = Inr () \<longleftrightarrow>
   within_allowed_domains url_host con allowed denied"
  by (auto simp: within_allowed_domains_def validate_allowed_domains_def and_then_Inr_iff list_ex_iff Let_def
      split: option.splits bool.splits if_splits)

lemma validate_denied_domains_iff:
  "(case managed_denied_domains con of None \<Rightarrow> Inr ()
    | Some managed \<Rightarrow> validate_denied_domains managed (denylist_expansion_enabled con) denied) = Inr () \<longleftrightarrow>
   within_denied_domains con denied"
  by (auto simp: within_denied_domains_def validate_denied_domains_def and_then_Inr_iff
      split: option.splits if_splits)

lemma validate_policy_iff:
  "validate_policy_against_constraints eng env url_host cfg con = Inr () \<longleftrightarrow>
   within_constraints eng env url_host cfg con"
proof -
  have mode: "(case max_mode con of None \<Rightarrow> Inr ()
      | Some m \<Rightarrow> if network_mode_rank (mode cfg) > network_mode_rank m
          then Inl (InvalidValue ''network.mode'' (ModeTooPermissive (mode cfg) m)) else Inr ()) = Inr () \<longleftrightarrow>
      (max_mode con = Some LimitedMode \<longrightarrow> mode cfg = LimitedMode)"
    by (auto simp: network_mode_rank_def split: option.splits network_mode.splits)
  have switch: "(case l of None \<Rightarrow> Inr () | Some m \<Rightarrow> validate_switch field b m) = Inr () \<longleftrightarrow> within_switch l b" for l field b
    by (auto simp: within_switch_def split: option.splits)
  have sockets: "(case managed_unix_sockets con of None \<Rightarrow> Inr ()
      | Some managed \<Rightarrow> validate_subset ''network.allow_unix_sockets''
          (\<lambda>entry. to_ascii_lowercase entry \<in> lowercase_set managed) (allow_unix_sockets cfg)) = Inr () \<longleftrightarrow>
      (\<forall>managed. managed_unix_sockets con = Some managed \<longrightarrow> lowercase_set (allow_unix_sockets cfg) \<subseteq> lowercase_set managed)"
    by (auto simp: lowercase_set_def split: option.splits)
  have all: "(allow_all_unix_sockets cfg \<longrightarrow>
        (case max_all_unix_sockets con of Some b \<Rightarrow> b | None \<Rightarrow> managed_unix_sockets con = None)) \<longleftrightarrow>
      within_switch (max_all_unix_sockets con) (allow_all_unix_sockets cfg) \<and>
      (max_all_unix_sockets con = None \<and> managed_unix_sockets con \<noteq> None \<longrightarrow> \<not> allow_all_unix_sockets cfg)"
    by (auto simp: within_switch_def split: option.splits)
  have off: "(b \<longrightarrow> l \<noteq> Some False) \<longleftrightarrow> within_switch l b" for l b
    by (auto simp: within_switch_def)
  show ?thesis
    unfolding validate_policy_against_constraints_def within_constraints_def Let_def and_then_Inr_iff
      validate_allowed_domains_iff validate_denied_domains_iff sockets map_err_Inr_iff
      validate_switch_iff validate_non_global_iff
    by (simp add: mode switch all off validate_allowed_domains_iff validate_denied_domains_iff sockets)
qed

section \<open>Effective permissions\<close>

lemma permission_order [simp]:
  "q \<le> PermDeny" "q \<le> PermAllow \<longleftrightarrow> q \<noteq> PermDeny" "PermDeny \<le> q \<longleftrightarrow> q = PermDeny"
  by (cases q; simp add: less_eq_domain_permission_def)+

text \<open>The strongest permission that the entries give to a pattern.\<close>

definition strongest :: "domain_entry list \<Rightarrow> str \<Rightarrow> domain_permission option" where
  "strongest es p =
     (if \<exists>perm. (p, perm) \<in> set es then Some (Max {perm. (p, perm) \<in> set es}) else None)"

definition distinct_first :: "'a list \<Rightarrow> 'a list" where
  "distinct_first xs = rev (remdups (rev xs))"

lemma distinct_first_snoc: "distinct_first (xs @ [x]) = (if x \<in> set xs then distinct_first xs else distinct_first xs @ [x])"
  by (simp add: distinct_first_def)

lemma distinct_first_simps [simp]:
  "distinct_first [] = []" "set (distinct_first xs) = set xs" "distinct (distinct_first xs)"
  by (simp_all add: distinct_first_def)

lemma finite_permissions [simp]: "finite {perm. (p, perm) \<in> set es}"
proof -
  have "{perm. (p, perm) \<in> set es} \<subseteq> snd ` set es" by force
  then show ?thesis using finite_subset by blast
qed

lemma strongest_None_iff: "strongest es p = None \<longleftrightarrow> p \<notin> fst ` set es"
  by (force simp: strongest_def)

lemma strongest_Some_iff:
  "strongest es p = Some perm \<longleftrightarrow> (p, perm) \<in> set es \<and> (\<forall>q. (p, q) \<in> set es \<longrightarrow> q \<le> perm)"
proof
  assume s: "strongest es p = Some perm"
  then have ne: "{perm. (p, perm) \<in> set es} \<noteq> {}" and m: "perm = Max {perm. (p, perm) \<in> set es}"
    by (auto simp: strongest_def split: if_splits)
  have "perm \<in> {perm. (p, perm) \<in> set es}" unfolding m by (rule Max_in[OF finite_permissions ne])
  moreover have "q \<le> perm" if "(p, q) \<in> set es" for q unfolding m by (rule Max_ge) (simp_all add: that)
  ultimately show "(p, perm) \<in> set es \<and> (\<forall>q. (p, q) \<in> set es \<longrightarrow> q \<le> perm)" by simp
next
  assume "(p, perm) \<in> set es \<and> (\<forall>q. (p, q) \<in> set es \<longrightarrow> q \<le> perm)"
  then show "strongest es p = Some perm" by (auto simp: strongest_def intro!: Max_eqI)
qed

lemma strongest_snoc:
  "strongest (es @ [(q, perm)]) p =
     (if p = q then Some (case strongest es p of Some c \<Rightarrow> if c < perm then perm else c | None \<Rightarrow> perm)
      else strongest es p)"
proof (cases "p = q")
  case True
  show ?thesis
  proof (cases "strongest es p")
    case None
    then have "p \<notin> fst ` set es" by (simp add: strongest_None_iff)
    with None True show ?thesis by (auto simp: strongest_Some_iff image_iff)
  next
    case (Some c)
    then have c: "(p, c) \<in> set es" "\<forall>q. (p, q) \<in> set es \<longrightarrow> q \<le> c" by (simp_all add: strongest_Some_iff)
    have "strongest (es @ [(p, perm)]) p = Some (if c < perm then perm else c)"
      unfolding strongest_Some_iff using c by (auto simp: not_less)
    with True Some show ?thesis by simp
  qed
qed (simp add: strongest_def)

lemma effective_loop_spec:
  "effective_loop (distinct_first (map fst d)) (strongest d) es =
     (distinct_first (map fst (d @ es)), strongest (d @ es))"
proof (induction es arbitrary: d)
  case (Cons e es)
  obtain p perm where e: "e = (p, perm)" by (cases e)
  have o: "(if strongest d p = None then distinct_first (map fst d) @ [p] else distinct_first (map fst d)) =
      distinct_first (map fst (d @ [e]))"
    by (simp add: e distinct_first_snoc strongest_None_iff)
  have m: "(strongest d)(p \<mapsto> (if (case strongest d p of Some q \<Rightarrow> q | None \<Rightarrow> perm) < perm then perm
      else (case strongest d p of Some q \<Rightarrow> q | None \<Rightarrow> perm))) = strongest (d @ [e])"
    by (rule ext) (auto simp: e strongest_snoc split: option.splits)
  show ?case
    using Cons.IH[of "d @ [e]"] by (simp add: e[symmetric] Let_def) (simp add: e Let_def o[unfolded e] m[unfolded e])
qed simp

lemma drain_permissions_distinct:
  "distinct ps \<Longrightarrow> \<forall>p\<in>set ps. m p \<noteq> None \<Longrightarrow> drain_permissions m ps = map (\<lambda>p. (p, the (m p))) ps"
proof (induction ps arbitrary: m)
  case (Cons p ps)
  have "drain_permissions (m(p := None)) ps = map (\<lambda>q. (q, the ((m(p := None)) q))) ps"
    using Cons.prems by (intro Cons.IH) auto
  also have "\<dots> = map (\<lambda>q. (q, the (m q))) ps" using Cons.prems(1) by auto
  finally show ?case using Cons.prems(2) by auto
qed simp

lemma effective_entries_eq:
  "effective_entries es = map (\<lambda>p. (p, the (strongest es p))) (distinct_first (map fst es))"
proof -
  have "strongest [] = Map.empty" by (auto simp: strongest_def)
  then have "effective_loop [] Map.empty es = (distinct_first (map fst es), strongest es)"
    using effective_loop_spec[of "[]" es] by simp
  moreover have "\<forall>p\<in>set (distinct_first (map fst es)). strongest es p \<noteq> None"
    by (simp add: strongest_None_iff)
  ultimately show ?thesis by (simp add: effective_entries_def drain_permissions_distinct)
qed

definition config_entries :: "'j network_proxy_config \<Rightarrow> domain_entry list" where
  "config_entries cfg = entries_or_empty (domains cfg)"

lemma entries_or_empty_simps [simp]: "entries_or_empty None = []" "entries_or_empty (Some xs) = xs"
  by (simp_all add: entries_or_empty_def)

lemma entries_or_empty_non_empty [simp]: "entries_or_empty (non_empty xs) = xs"
  by (simp add: non_empty_def)

lemma domain_entries_eq:
  "entries_or_empty (domain_entries perm cfg) =
     filter (\<lambda>p. strongest (config_entries cfg) p = Some perm) (distinct_first (map fst (config_entries cfg)))"
proof -
  have "map fst (filter (\<lambda>e. snd e = perm) (effective_entries es)) =
      filter (\<lambda>p. strongest es p = Some perm) (distinct_first (map fst es))" for es
  proof -
    have "filter (\<lambda>p. the (strongest es p) = perm) (distinct_first (map fst es)) =
        filter (\<lambda>p. strongest es p = Some perm) (distinct_first (map fst es))"
      by (rule filter_cong[OF refl]) (use strongest_None_iff[of es] in \<open>force\<close>)
    then show ?thesis by (simp add: effective_entries_eq filter_map o_def)
  qed
  then show ?thesis
    by (cases "domains cfg")
      (auto simp: domain_entries_def config_entries_def split: list.splits)
qed

lemma set_domain_entries_of:
  "set (entries_or_empty (domain_entries perm cfg)) = {p. strongest (config_entries cfg) p = Some perm}"
  by (force simp: domain_entries_eq strongest_Some_iff)

lemma domain_entries_not_Nil: "domain_entries perm cfg \<noteq> Some []"
  by (auto simp: domain_entries_def split: option.splits list.splits)

lemma domain_entries_None_iff: "domain_entries perm cfg = None \<longleftrightarrow> entries_or_empty (domain_entries perm cfg) = []"
  using domain_entries_not_Nil[of perm cfg] by (cases "domain_entries perm cfg") auto

text \<open>
  Duplicate patterns: every pattern of the configuration is listed once, in the order of first
  occurrence, under the strongest permission that any of its entries gives, so a denied pattern is
  denied whatever else is said about it, and no pattern is in both lists.
\<close>
theorem effective_permissions:
  "entries_or_empty (denied_domains cfg) =
     filter (\<lambda>p. (p, PermDeny) \<in> set (config_entries cfg)) (distinct_first (map fst (config_entries cfg))) \<and>
   entries_or_empty (allowed_domains cfg) =
     filter (\<lambda>p. (p, PermAllow) \<in> set (config_entries cfg) \<and> (p, PermDeny) \<notin> set (config_entries cfg))
       (distinct_first (map fst (config_entries cfg)))"
proof -
  have "strongest es p = Some PermDeny \<longleftrightarrow> (p, PermDeny) \<in> set es" for es p
    unfolding strongest_Some_iff by simp
  moreover have "strongest es p = Some PermAllow \<longleftrightarrow> (p, PermAllow) \<in> set es \<and> (p, PermDeny) \<notin> set es" for es p
    unfolding strongest_Some_iff by auto
  ultimately show ?thesis by (simp add: denied_domains_def allowed_domains_def domain_entries_eq)
qed

section \<open>Setters\<close>

lemma set_push_new_entries: "set (push_new_entries perm es xs) = set es \<union> (\<lambda>x. (x, perm)) ` set xs"
  by (induction xs arbitrary: es) auto

lemma set_config_entries_set:
  "set (config_entries (set_domain_entries perm xs cfg)) =
     {e \<in> set (config_entries cfg). snd e \<noteq> perm} \<union> (\<lambda>x. (x, perm)) ` set xs"
  by (auto simp: config_entries_def set_domain_entries_def set_push_new_entries)

lemma deny_listed: "set (entries_or_empty (denied_domains cfg)) = {p. (p, PermDeny) \<in> set (config_entries cfg)}"
  by (simp add: denied_domains_def set_domain_entries_of strongest_Some_iff)

lemma allow_listed:
  "set (entries_or_empty (allowed_domains cfg)) =
     {p. (p, PermAllow) \<in> set (config_entries cfg) \<and> (p, PermDeny) \<notin> set (config_entries cfg)}"
  by (auto simp: allowed_domains_def set_domain_entries_of strongest_Some_iff)

text \<open>
  Setting a list and reading it back: the denied list is the one that was set, the allowed list is
  the one that was set without the denied patterns, and neither setter changes the denied list or
  adds to the allowed list of the other.
\<close>
theorem set_domains_roundtrip:
  "set (entries_or_empty (denied_domains (set_denied_domains xs cfg))) = set xs \<and>
   set (entries_or_empty (allowed_domains (set_allowed_domains xs cfg))) =
     set xs - set (entries_or_empty (denied_domains cfg)) \<and>
   set (entries_or_empty (denied_domains (set_allowed_domains xs cfg))) = set (entries_or_empty (denied_domains cfg)) \<and>
   set (entries_or_empty (allowed_domains (set_denied_domains xs cfg))) =
     {p. (p, PermAllow) \<in> set (config_entries cfg)} - set xs"
  by (auto simp: deny_listed allow_listed set_denied_domains_def set_allowed_domains_def set_config_entries_set)

lemma config_entries_upsert:
  "config_entries (upsert_domain_permission h perm norm cfg) =
     filter (\<lambda>e. norm (fst e) \<noteq> norm h) (config_entries cfg) @ [(h, perm)]"
  by (simp add: config_entries_def upsert_domain_permission_def Let_def)

lemma upsert_deny_listed:
  "set (entries_or_empty (denied_domains (upsert_domain_permission h perm norm cfg))) =
     {p \<in> set (entries_or_empty (denied_domains cfg)). norm p \<noteq> norm h} \<union> (if perm = PermDeny then {h} else {})"
  by (auto simp: deny_listed config_entries_upsert)

lemma upsert_allow_listed:
  "set (entries_or_empty (allowed_domains (upsert_domain_permission h perm norm cfg))) =
     {p \<in> set (entries_or_empty (allowed_domains cfg)). norm p \<noteq> norm h} \<union> (if perm = PermAllow then {h} else {})"
  by (auto simp: allow_listed config_entries_upsert)

section \<open>Listeners\<close>

lemma clamp_non_loopback_loopback: "\<not> allow \<Longrightarrow> ip_is_loopback (fst (clamp_non_loopback addr allow))"
proof -
  have "octet 0 (ipv4_of_octets 127 0 0 1) = 127" by (simp add: octet0 unat_ipv4_of_octets ipv4_number_def)
  then show "\<not> allow \<Longrightarrow> ?thesis"
    by (simp add: clamp_non_loopback_def LOCALHOST_def v4_is_loopback_def)
qed

lemma LOCALHOST_loopback: "ip_is_loopback LOCALHOST"
  using clamp_non_loopback_loopback[of False "(V4 0, 0)"]
  by (simp add: clamp_non_loopback_def v4_is_loopback_def octet_def)

text \<open>
  Where the proxy listens: both listeners are on a loopback address unless the configuration
  dangerously allows other addresses and opens no unix socket; the ports are the requested ones; and
  an address that was a loopback address stays as it is without unix sockets.
\<close>
theorem clamp_bind_addrs_loopback:
  "(let (http, socks) = clamp_bind_addrs h s cfg;
        no_sockets = (allow_unix_sockets cfg = [] \<and> \<not> allow_all_unix_sockets cfg)
    in snd http = snd h \<and> snd socks = snd s \<and>
       (\<not> (allow_non_loopback_proxy cfg \<and> no_sockets) \<longrightarrow> ip_is_loopback (fst http) \<and> ip_is_loopback (fst socks)) \<and>
       (no_sockets \<and> ip_is_loopback (fst h) \<longrightarrow> http = h) \<and>
       (no_sockets \<and> ip_is_loopback (fst s) \<longrightarrow> socks = s))"
  using clamp_non_loopback_loopback[of "allow_non_loopback_proxy cfg"] LOCALHOST_loopback
  by (auto simp: clamp_bind_addrs_def Let_def clamp_non_loopback_def split: if_splits)

theorem clamp_bind_addrs_loopback_witness:
  "clamp_bind_addrs (V4 (ipv4_of_octets 127 0 0 5), 3128) (V4 (ipv4_of_octets 0 0 0 0), 8081)
     (default_config :: unit network_proxy_config) = ((V4 (ipv4_of_octets 127 0 0 5), 3128), (LOCALHOST, 8081))"
proof -
  have l: "octet 0 (ipv4_of_octets 127 0 0 5) = 127" "octet 0 (ipv4_of_octets 0 0 0 0) = 0"
    by (simp_all add: octet0 unat_ipv4_of_octets ipv4_number_def)
  let ?cfg = "default_config :: unit network_proxy_config"
  have n: "allow_unix_sockets ?cfg = []" "\<not> allow_all_unix_sockets ?cfg" "\<not> allow_non_loopback_proxy ?cfg"
    by (simp_all add: allow_unix_sockets_def default_config_def)
  have "snd (clamp_bind_addrs h s ?cfg) = (LOCALHOST, snd s)" if "\<not> ip_is_loopback (fst s)" for h s
    using that n by (simp add: clamp_bind_addrs_def clamp_non_loopback_def Let_def)
  then show ?thesis
    using clamp_bind_addrs_loopback[of "(V4 (ipv4_of_octets 127 0 0 5), 3128)" "(V4 (ipv4_of_octets 0 0 0 0), 8081)" ?cfg]
    by (auto simp: n l v4_is_loopback_def prod_eq_iff)
qed

end
