(* ===== verification/NetRuntime.thy ===== *)
theory NetRuntime
  imports NetConfig
begin

text \<open>
  The running network proxy: its state and the checks made on it (\<open>network-proxy/src/runtime.rs\<close>), the
  decision with the decider and its audit event (\<open>network_policy.rs\<close>), and the check of the address
  that is finally connected to (\<open>connect_policy.rs\<close>). Updates prepare under a read lock and install
  under a write lock, so they interleave: the theory gives them as a step relation over the state and
  the operations in flight, shows what every reachable state keeps, and derives from it what managed
  constraints guarantee. DNS, the compilation of glob sets and of MITM hooks, the MITM certificate
  state and the parsing of URLs are parameters.
\<close>

section \<open>State\<close>

datatype host_block_reason = Denied | NotAllowed | NotAllowedLocal
datatype host_block_decision = Allowed | Blocked host_block_reason

definition reason_str :: "host_block_reason \<Rightarrow> str" where
  "reason_str r =
     (case r of Denied \<Rightarrow> lit ''denied'' | NotAllowed \<Rightarrow> lit ''not_allowed'' | NotAllowedLocal \<Rightarrow> lit ''not_allowed_local'')"

record blocked_request =
  blocked_host :: str
  blocked_reason :: str
  blocked_client :: "str option"
  blocked_method :: "str option"
  blocked_mode :: "network_mode option"
  blocked_protocol :: str
  blocked_execution_id :: "str option"
  blocked_decision :: "str option"
  blocked_source :: "str option"
  blocked_port :: "nat option"
  blocked_timestamp :: int

record ('j, 's, 'm, 'n, 'v, 'g) config_state =
  st_config :: "'j network_proxy_config"
  st_allow_set :: 's
  st_deny_set :: 's
  st_mitm :: "'m option"
  st_mitm_hooks :: "str \<rightharpoonup> ('n, 'v, 'g) mitm_hook list"
  st_constraints :: network_proxy_constraints
  st_blocked :: "blocked_request list"
  st_blocked_total :: nat

text \<open>
  The outside of the runtime: the globs, what the hooks use, the rendering of \<open>url::Host\<close>, and the
  creation of the intercepting proxy's certificate authority, which is file and key handling.
\<close>

record ('g, 's, 'n, 'v, 'm) proxy_env =
  px_globs :: "('g, 's) glob_engine"
  px_mitm :: "('n, 'v) mitm_env"
  px_url_host :: "str \<Rightarrow> str option"
  px_mitm_state :: "bool \<Rightarrow> 'm option"

datatype build_error =
    UnixSocketAllowlist config_error
  | BrokerRequiresMitm
  | BuildConstraint constraint_error
  | DenylistGlobs globset_error
  | AllowlistGlobs globset_error
  | HooksNotCompiled mitm_error
  | MitmStateFailed

definition build_config_state ::
  "('g, 's, 'n, 'v, 'm) proxy_env \<Rightarrow> 'j network_proxy_config \<Rightarrow> network_proxy_constraints \<Rightarrow>
   build_error + ('j, 's, 'm, 'n, 'v, 'g) config_state" where
  "build_config_state px cfg con =
     and_then (map_err UnixSocketAllowlist
                 (validate_unix_socket_allowlist_paths (mitm_path_env (px_mitm px)) cfg)) (\<lambda>_.
     and_then (ensure (\<not> credential_broker cfg \<or> mitm cfg) BrokerRequiresMitm) (\<lambda>_.
     let allowed = entries_or_empty (allowed_domains cfg);
         denied = entries_or_empty (denied_domains cfg)
     in
     and_then (map_err BuildConstraint
                 (validate_non_global_wildcard_domain_patterns ''network.denied_domains'' denied)) (\<lambda>_.
     and_then (map_err DenylistGlobs (compile_denylist_globset (px_globs px) denied)) (\<lambda>deny_set.
     and_then (map_err AllowlistGlobs (compile_allowlist_globset (px_globs px) allowed)) (\<lambda>allow_set.
     and_then (map_err HooksNotCompiled
                 (compile_mitm_hooks (px_globs px) (px_mitm px) (mitm cfg) (mitm_hooks cfg))) (\<lambda>hooks.
     and_then (if mitm cfg
               then (case px_mitm_state px (allow_upstream_proxy cfg) of
                       None \<Rightarrow> Inl MitmStateFailed | Some m \<Rightarrow> Inr (Some m))
               else Inr None) (\<lambda>m.
       Inr \<lparr>st_config = cfg, st_allow_set = allow_set, st_deny_set = deny_set, st_mitm = m,
            st_mitm_hooks = hooks, st_constraints = con, st_blocked = [], st_blocked_total = 0\<rparr>)))))))"

section \<open>The decision on a host\<close>

datatype dns_result = Resolved "ip_addr list" | LookupFailed | LookupTimedOut

definition host_resolves_to_non_public_ip :: "(str \<Rightarrow> nat \<Rightarrow> dns_result) \<Rightarrow> str \<Rightarrow> nat \<Rightarrow> bool" where
  "host_resolves_to_non_public_ip dns host port =
     (case parse_ip host of
        Some ip \<Rightarrow> is_non_public_ip ip
      | None \<Rightarrow>
          (case dns host port of
             Resolved addrs \<Rightarrow> list_ex is_non_public_ip addrs
           | LookupFailed \<Rightarrow> True
           | LookupTimedOut \<Rightarrow> True))"

definition globset_matches_host_or_unscoped :: "('g, 's) glob_engine \<Rightarrow> 's \<Rightarrow> str \<Rightarrow> bool" where
  "globset_matches_host_or_unscoped eng gs host \<longleftrightarrow>
     set_is_match eng gs host \<or>
     (case unscoped_ip_literal host of Some ip \<Rightarrow> set_is_match eng gs ip | None \<Rightarrow> False)"

definition is_explicit_local_allowlisted :: "str list \<Rightarrow> str \<Rightarrow> bool" where
  "is_explicit_local_allowlisted allowed host =
     list_ex (\<lambda>pattern.
       let pattern = trim pattern
       in if pattern = lit ''*'' \<or> starts_with pattern (lit ''*.'') \<or> starts_with pattern (lit ''**.'') then False
          else if 42 \<in> set pattern \<or> 63 \<in> set pattern then False
          else (let normalized_pattern = normalize_host pattern
                in normalized_pattern = host \<or>
                   (case unscoped_ip_literal host of Some ip \<Rightarrow> normalized_pattern = ip | None \<Rightarrow> False)))
       allowed"

definition is_local_literal :: "str \<Rightarrow> bool" where
  "is_local_literal host =
     (let host_no_scope = (case unscoped_ip_literal host of Some ip \<Rightarrow> ip | None \<Rightarrow> host)
      in if is_loopback_host host then True
         else (case parse_ip host_no_scope of Some ip \<Rightarrow> is_non_public_ip ip | None \<Rightarrow> False))"

text \<open>\<open>host_blocked\<close> on the state that the read lock gives.\<close>

definition host_blocked ::
  "('g, 's) glob_engine \<Rightarrow> (str \<Rightarrow> nat \<Rightarrow> dns_result) \<Rightarrow> ('j, 's, 'm, 'n, 'v, 'g) config_state \<Rightarrow>
   str \<Rightarrow> nat \<Rightarrow> host_block_decision" where
  "host_blocked eng dns st raw_host port =
     (case host_parse raw_host of
        None \<Rightarrow> Blocked NotAllowed
      | Some host \<Rightarrow>
          (let allowed = allowed_domains (st_config st);
               allowed_domains_empty = (allowed = None);
               allowed = entries_or_empty allowed
           in if globset_matches_host_or_unscoped eng (st_deny_set st) host then Blocked Denied
              else
                (let is_allowlisted = globset_matches_host_or_unscoped eng (st_allow_set st) host;
                     local_block =
                       (if \<not> allow_local_binding (st_config st) then
                          (if is_local_literal host then \<not> is_explicit_local_allowlisted allowed host
                           else host_resolves_to_non_public_ip dns host port)
                        else False)
                 in if local_block then Blocked NotAllowedLocal
                    else if allowed_domains_empty \<or> \<not> is_allowlisted then Blocked NotAllowed
                    else Allowed)))"

section \<open>The decision with a decider\<close>

datatype proxy_network_protocol = Http | HttpsConnect | Socks5Tcp | Socks5Udp
datatype network_policy_decision = PolicyDeny | PolicyAsk
datatype decision_source = BaselinePolicy | ModeGuard | ProxyState | Decider
datatype network_decision = DecisionAllow | DecisionDeny str decision_source network_policy_decision

record policy_request =
  rq_protocol :: proxy_network_protocol
  rq_host :: str
  rq_port :: nat
  rq_environment_id :: "str option"
  rq_client_addr :: "str option"
  rq_method :: "str option"
  rq_command :: "str option"
  rq_exec_policy_hint :: "str option"
  rq_execution_id :: "str option"

definition non_empty_reason :: "str \<Rightarrow> str" where
  "non_empty_reason reason = (if reason = [] then lit ''policy_denied'' else reason)"

definition deny_with_source :: "str \<Rightarrow> decision_source \<Rightarrow> network_decision" where
  "deny_with_source reason source = DecisionDeny (non_empty_reason reason) source PolicyDeny"

definition ask_with_source :: "str \<Rightarrow> decision_source \<Rightarrow> network_decision" where
  "ask_with_source reason source = DecisionDeny (non_empty_reason reason) source PolicyAsk"

fun map_decider_decision :: "network_decision \<Rightarrow> network_decision" where
  "map_decider_decision DecisionAllow = DecisionAllow"
| "map_decider_decision (DecisionDeny reason source decision) = DecisionDeny reason Decider decision"

text \<open>What the proxy knows of the execution that a connection belongs to.\<close>

record execution_scope =
  scope_environment_id :: "str option"
  scope_execution_id :: "str option"

text \<open>The audit event: scope, decision, source, reason and whether the decider overrode the policy.\<close>

record audit_event =
  audit_decision :: str
  audit_source :: decision_source
  audit_reason :: str
  audit_request :: policy_request
  audit_execution_id :: "str option"
  audit_override :: bool

definition decision_str :: "network_policy_decision \<Rightarrow> str" where
  "decision_str d = (case d of PolicyDeny \<Rightarrow> lit ''deny'' | PolicyAsk \<Rightarrow> lit ''ask'')"

text \<open>The request that the decider sees.\<close>

definition decider_request :: "execution_scope \<Rightarrow> policy_request \<Rightarrow> policy_request" where
  "decider_request scope request =
     (let request = (if rq_environment_id request = None
                     then request\<lparr>rq_environment_id := scope_environment_id scope\<rparr> else request)
      in request\<lparr>rq_execution_id := scope_execution_id scope\<rparr>)"

text \<open>\<open>evaluate_host_policy\<close>: the decision and whether it overrides the policy, then the audit event.\<close>

definition host_policy_decision ::
  "(str \<Rightarrow> nat \<Rightarrow> host_block_decision) \<Rightarrow> execution_scope \<Rightarrow> (policy_request \<Rightarrow> network_decision) option \<Rightarrow>
   policy_request \<Rightarrow> network_decision \<times> bool" where
  "host_policy_decision blocked scope decider request =
     (case blocked (rq_host request) (rq_port request) of
        Allowed \<Rightarrow> (DecisionAllow, False)
      | Blocked NotAllowed \<Rightarrow>
          (case decider of
             Some decide \<Rightarrow>
               (let decider_decision = map_decider_decision (decide (decider_request scope request))
                in (decider_decision, decider_decision = DecisionAllow))
           | None \<Rightarrow> (deny_with_source (reason_str NotAllowed) BaselinePolicy, False))
      | Blocked reason \<Rightarrow> (deny_with_source (reason_str reason) BaselinePolicy, False))"

fun audit_fields :: "network_decision \<Rightarrow> bool \<Rightarrow> str \<times> decision_source \<times> str" where
  "audit_fields DecisionAllow policy_override =
     (lit ''allow'', if policy_override then Decider else BaselinePolicy,
      if policy_override then reason_str NotAllowed else lit ''allow'')"
| "audit_fields (DecisionDeny reason source d) policy_override = (decision_str d, source, reason)"

definition evaluate_host_policy ::
  "(str \<Rightarrow> nat \<Rightarrow> host_block_decision) \<Rightarrow> execution_scope \<Rightarrow> (policy_request \<Rightarrow> network_decision) option \<Rightarrow>
   policy_request \<Rightarrow> network_decision \<times> audit_event" where
  "evaluate_host_policy blocked scope decider request =
     (let (decision, policy_override) = host_policy_decision blocked scope decider request;
          (policy_decision, source, reason) = audit_fields decision policy_override
      in (decision,
          \<lparr>audit_decision = policy_decision, audit_source = source, audit_reason = reason,
           audit_request = request, audit_execution_id = scope_execution_id scope,
           audit_override = policy_override\<rparr>))"

text \<open>The check on the address that is about to be connected to (\<open>connect_policy.rs\<close>).\<close>

datatype target_host = TargetAddress ip_addr | TargetName str

definition is_localhost_name :: "str \<Rightarrow> bool" where
  "is_localhost_name name \<longleftrightarrow> eq_ignore_ascii_case (trim_end_matches 46 name) (lit ''localhost'')"

fun is_non_public_target :: "target_host \<Rightarrow> bool" where
  "is_non_public_target (TargetAddress ip) = is_non_public_ip ip"
| "is_non_public_target (TargetName name) = is_localhost_name name"

fun target_matches_non_public_addr :: "target_host \<Rightarrow> ip_addr \<Rightarrow> bool" where
  "target_matches_non_public_addr (TargetAddress ip) addr = (ip = addr)"
| "target_matches_non_public_addr (TargetName name) addr = (is_localhost_name name \<and> ip_is_loopback addr)"

text \<open>\<open>show_host\<close> is the rendering of the target by the \<open>rama\<close> crate.\<close>

definition allows_non_public_target ::
  "(target_host \<Rightarrow> str) \<Rightarrow> (str \<Rightarrow> nat \<Rightarrow> host_block_decision) \<Rightarrow> bool \<Rightarrow> target_host \<Rightarrow> nat \<Rightarrow> ip_addr \<Rightarrow> bool" where
  "allows_non_public_target show_host blocked local_binding target port addr =
     (if local_binding then True
      else if \<not> target_matches_non_public_addr target addr then False
      else blocked (show_host target) port = Allowed)"

definition connect_permitted ::
  "(target_host \<Rightarrow> str) \<Rightarrow> (str \<Rightarrow> nat \<Rightarrow> host_block_decision) \<Rightarrow> bool \<Rightarrow> target_host \<Rightarrow> nat \<Rightarrow> ip_addr \<Rightarrow> bool" where
  "connect_permitted show_host blocked local_binding target port addr =
     (\<not> (is_non_public_ip addr \<and> \<not> allows_non_public_target show_host blocked local_binding target port addr))"

section \<open>Updates\<close>

definition MAX_BLOCKED_EVENTS :: nat where "MAX_BLOCKED_EVENTS = 200"

text \<open>The loop that drops the oldest entries.\<close>

fun trim_blocked :: "blocked_request list \<Rightarrow> blocked_request list" where
  "trim_blocked q = (if length q > MAX_BLOCKED_EVENTS then trim_blocked (tl q) else q)"

declare trim_blocked.simps [simp del]

definition record_blocked ::
  "str option \<Rightarrow> blocked_request \<Rightarrow> ('j, 's, 'm, 'n, 'v, 'g) config_state \<Rightarrow> ('j, 's, 'm, 'n, 'v, 'g) config_state" where
  "record_blocked execution_id entry st =
     st\<lparr>st_blocked := trim_blocked (st_blocked st @ [entry\<lparr>blocked_execution_id := execution_id\<rparr>]),
        st_blocked_total := min (st_blocked_total st + 1) 18446744073709551615\<rparr>"

definition drain_blocked ::
  "('j, 's, 'm, 'n, 'v, 'g) config_state \<Rightarrow> blocked_request list \<times> ('j, 's, 'm, 'n, 'v, 'g) config_state" where
  "drain_blocked st = (st_blocked st, st\<lparr>st_blocked := []\<rparr>)"

datatype domain_list_kind = AllowList | DenyList

definition list_permission :: "domain_list_kind \<Rightarrow> domain_permission" where
  "list_permission k = (case k of AllowList \<Rightarrow> PermAllow | DenyList \<Rightarrow> PermDeny)"

definition list_entries :: "domain_list_kind \<Rightarrow> 'j network_proxy_config \<Rightarrow> str list" where
  "list_entries k cfg =
     (case k of AllowList \<Rightarrow> entries_or_empty (allowed_domains cfg) | DenyList \<Rightarrow> entries_or_empty (denied_domains cfg))"

definition opposite_entries :: "domain_list_kind \<Rightarrow> 'j network_proxy_config \<Rightarrow> str list" where
  "opposite_entries k cfg =
     (case k of AllowList \<Rightarrow> entries_or_empty (denied_domains cfg) | DenyList \<Rightarrow> entries_or_empty (allowed_domains cfg))"

datatype runtime_error =
    InvalidNetworkHost
  | ConstrainedByManagedConfig constraint_error
  | UpdateNotCompiled build_error
  | CredentialBrokerChanged

text \<open>
  The two critical sections of \<open>update_domain_list\<close>: the first reads a snapshot and prepares the new
  state, the second installs it when constraints and configuration are still those of the snapshot.
\<close>

datatype ('j, 's, 'm, 'n, 'v, 'g) update_step =
    UpdateDone
  | UpdateError runtime_error
  | UpdatePrepared "('j, 's, 'm, 'n, 'v, 'g) config_state"

definition prepare_domain_update ::
  "('g, 's, 'n, 'v, 'm) proxy_env \<Rightarrow> str \<Rightarrow> domain_list_kind \<Rightarrow> ('j, 's, 'm, 'n, 'v, 'g) config_state \<Rightarrow>
   ('j, 's, 'm, 'n, 'v, 'g) update_step" where
  "prepare_domain_update px normalized_host target st =
     (let previous_cfg = st_config st;
          target_contains = list_ex (\<lambda>e. normalize_host e = normalized_host) (list_entries target previous_cfg);
          opposite_contains = list_ex (\<lambda>e. normalize_host e = normalized_host) (opposite_entries target previous_cfg)
      in if target_contains \<and> \<not> opposite_contains then UpdateDone
         else
           (let candidate = upsert_domain_permission normalized_host (list_permission target) normalize_host previous_cfg
            in case validate_policy_against_constraints (px_globs px) (px_mitm px) (px_url_host px)
                      candidate (st_constraints st) of
                 Inl e \<Rightarrow> UpdateError (ConstrainedByManagedConfig e)
               | Inr u \<Rightarrow>
                   (case build_config_state px candidate (st_constraints st) of
                      Inl e \<Rightarrow> UpdateError (UpdateNotCompiled e)
                    | Inr new_state \<Rightarrow>
                        UpdatePrepared (new_state\<lparr>st_blocked := st_blocked st,
                                                  st_blocked_total := st_blocked_total st\<rparr>))))"

text \<open>\<open>None\<close> is the retry.\<close>

definition install_domain_update ::
  "'j network_proxy_config \<Rightarrow> ('j, 's, 'm, 'n, 'v, 'g) config_state \<Rightarrow> ('j, 's, 'm, 'n, 'v, 'g) config_state \<Rightarrow>
   ('j, 's, 'm, 'n, 'v, 'g) config_state option" where
  "install_domain_update previous_cfg new_state st =
     (if st_constraints st \<noteq> st_constraints new_state \<or> st_config st \<noteq> previous_cfg then None
      else Some new_state)"

definition prepare_mode_update ::
  "('g, 's, 'n, 'v, 'm) proxy_env \<Rightarrow> network_mode \<Rightarrow> ('j, 's, 'm, 'n, 'v, 'g) config_state \<Rightarrow>
   runtime_error + network_proxy_constraints" where
  "prepare_mode_update px m st =
     and_then (map_err ConstrainedByManagedConfig
       (validate_policy_against_constraints (px_globs px) (px_mitm px) (px_url_host px)
          ((st_config st)\<lparr>mode := m\<rparr>) (st_constraints st)))
       (\<lambda>_. Inr (st_constraints st))"

definition install_mode_update ::
  "network_mode \<Rightarrow> network_proxy_constraints \<Rightarrow> ('j, 's, 'm, 'n, 'v, 'g) config_state \<Rightarrow>
   ('j, 's, 'm, 'n, 'v, 'g) config_state option" where
  "install_mode_update m con st =
     (if st_constraints st \<noteq> con then None else Some (st\<lparr>st_config := (st_config st)\<lparr>mode := m\<rparr>\<rparr>))"

text \<open>
  A reload: \<open>reload_if_needed\<close> carries over the blocked requests it read before it takes the write
  lock, \<open>force_reload\<close> and \<open>replace_config_state\<close> read them under that lock, and \<open>force_reload\<close> keeps
  the total of the new state. The flag of the credential broker is fixed.
\<close>

definition check_broker :: "bool \<Rightarrow> ('j, 's, 'm, 'n, 'v, 'g) config_state \<Rightarrow> runtime_error + unit" where
  "check_broker broker new_state = ensure (broker = credential_broker (st_config new_state)) CredentialBrokerChanged"

definition prepare_reload ::
  "bool \<Rightarrow> ('j, 's, 'm, 'n, 'v, 'g) config_state \<Rightarrow> ('j, 's, 'm, 'n, 'v, 'g) config_state \<Rightarrow>
   runtime_error + ('j, 's, 'm, 'n, 'v, 'g) config_state" where
  "prepare_reload broker new_state st =
     and_then (check_broker broker new_state) (\<lambda>_.
       Inr (new_state\<lparr>st_blocked := st_blocked st, st_blocked_total := st_blocked_total st\<rparr>))"

definition force_reload ::
  "bool \<Rightarrow> ('j, 's, 'm, 'n, 'v, 'g) config_state \<Rightarrow> ('j, 's, 'm, 'n, 'v, 'g) config_state \<Rightarrow>
   runtime_error + ('j, 's, 'm, 'n, 'v, 'g) config_state" where
  "force_reload broker new_state st =
     and_then (check_broker broker new_state) (\<lambda>_. Inr (new_state\<lparr>st_blocked := st_blocked st\<rparr>))"

definition replace_config_state ::
  "bool \<Rightarrow> ('j, 's, 'm, 'n, 'v, 'g) config_state \<Rightarrow> ('j, 's, 'm, 'n, 'v, 'g) config_state \<Rightarrow>
   runtime_error + ('j, 's, 'm, 'n, 'v, 'g) config_state" where
  "replace_config_state broker new_state st =
     and_then (check_broker broker new_state) (\<lambda>_.
       Inr (new_state\<lparr>st_blocked := st_blocked st, st_blocked_total := st_blocked_total st\<rparr>))"

text \<open>\<open>is_unix_socket_allowed\<close>; sockets are supported on macOS only, and \<open>canonicalize\<close> reads the file system.\<close>

definition is_unix_socket_allowed ::
  "bool \<Rightarrow> path_env \<Rightarrow> (str \<Rightarrow> str option) \<Rightarrow> ('j, 's, 'm, 'n, 'v, 'g) config_state \<Rightarrow> str \<Rightarrow> bool" where
  "is_unix_socket_allowed supported env canonicalize st path =
     (if \<not> supported then False
      else if \<not> path_is_absolute path then False
      else if allow_all_unix_sockets (st_config st) then True
      else (case absolute_path_buf env path of
              None \<Rightarrow> False
            | Some requested_abs \<Rightarrow>
                (let requested_canonical = canonicalize requested_abs
                 in list_ex (\<lambda>allowed.
                      case parse_unix_socket_path env allowed of
                        None \<Rightarrow> False
                      | Some allowed_path \<Rightarrow>
                          if allowed_path = requested_abs then True
                          else requested_canonical \<noteq> None \<and> canonicalize allowed_path = requested_canonical)
                      (allow_unix_sockets (st_config st)))))"

text \<open>The attribution of connections to executions, by token.\<close>

definition register_execution ::
  "str \<Rightarrow> str \<Rightarrow> str \<Rightarrow> (str \<rightharpoonup> str \<times> str) \<Rightarrow> (str \<rightharpoonup> str \<times> str)" where
  "register_execution token environment_id execution_id m = m(token \<mapsto> (environment_id, execution_id))"

definition unregister_execution :: "str \<Rightarrow> (str \<rightharpoonup> str \<times> str) \<Rightarrow> (str \<rightharpoonup> str \<times> str)" where
  "unregister_execution token m = m(token := None)"

definition for_execution_token :: "str \<Rightarrow> (str \<rightharpoonup> str \<times> str) \<Rightarrow> execution_scope option" where
  "for_execution_token token m =
     map_option (\<lambda>(e, x). \<lparr>scope_environment_id = Some e, scope_execution_id = Some x\<rparr>) (m token)"

section \<open>The decision over the configured patterns\<close>

text \<open>The sets of a state are the compiled lists of its configuration.\<close>

definition compiled_from_config :: "('g, 's) glob_engine \<Rightarrow> ('j, 's, 'm, 'n, 'v, 'g) config_state \<Rightarrow> bool" where
  "compiled_from_config eng st \<longleftrightarrow>
     compile_denylist_globset eng (entries_or_empty (denied_domains (st_config st))) = Inr (st_deny_set st) \<and>
     compile_allowlist_globset eng (entries_or_empty (allowed_domains (st_config st))) = Inr (st_allow_set st)"

lemma build_config_state_Inr:
  assumes "build_config_state px cfg con = Inr st"
  shows "compiled_from_config (px_globs px) st \<and> st_config st = cfg \<and> st_constraints st = con \<and>
    st_blocked st = [] \<and> st_blocked_total st = 0"
  using assms by (auto simp: build_config_state_def compiled_from_config_def and_then_Inr_iff Let_def)

text \<open>A host, or the address of a scoped literal without its zone, is covered by a pattern of a list.\<close>

definition listed :: "str list \<Rightarrow> str \<Rightarrow> bool" where
  "listed ps h \<longleftrightarrow>
     (\<exists>p\<in>set ps. glob_covers (policy_pattern p) h \<or>
        (\<exists>ip. unscoped_ip_literal h = Some ip \<and> glob_covers (policy_pattern p) ip))"

lemma unscoped_ascii: "unscoped_ip_literal h = Some ip \<Longrightarrow> is_ascii h \<Longrightarrow> is_ascii ip"
  by (auto simp: unscoped_ip_literal_def is_ascii_def split_once_Some split: option.splits if_splits)

lemma globset_matches_listed:
  assumes "glob_laws eng" "list_all plain_pattern ps" "compile_globset_with_policy eng gw ps = Inr gs" "is_ascii h"
  shows "globset_matches_host_or_unscoped eng gs h \<longleftrightarrow> listed ps h"
  using compiled_set_spec[OF assms(1,2) _ assms(3)] assms(4) unscoped_ascii[of h]
  by (auto simp: globset_matches_host_or_unscoped_def listed_def split: option.splits)

text \<open>Local and private destinations: the literal forms, and the names that resolve to one.\<close>

definition reaches_local_network :: "(str \<Rightarrow> nat \<Rightarrow> dns_result) \<Rightarrow> str list \<Rightarrow> str \<Rightarrow> nat \<Rightarrow> bool" where
  "reaches_local_network dns allowed h port \<longleftrightarrow>
     (if is_local_literal h then \<not> is_explicit_local_allowlisted allowed h
      else host_resolves_to_non_public_ip dns h port)"

text \<open>
  C23 The decision on a host, from the configured patterns: a denied host is blocked whatever else is
  configured; then a local or private destination is blocked unless local binding is on or the literal
  is on the allowlist itself; then exactly the hosts on the allowlist are let through, so without an
  allowlist nothing is.
\<close>
theorem host_blocked_spec:
  assumes "glob_laws eng" "compiled_from_config eng st"
    "allowed = entries_or_empty (allowed_domains (st_config st))" "list_all plain_pattern allowed"
    "denied = entries_or_empty (denied_domains (st_config st))" "list_all plain_pattern denied"
    "host_parse raw = Some h" "is_ascii h"
  shows "host_blocked eng dns st raw port =
    (if listed denied h then Blocked Denied
     else if \<not> allow_local_binding (st_config st) \<and> reaches_local_network dns allowed h port
     then Blocked NotAllowedLocal
     else if listed allowed h then Allowed
     else Blocked NotAllowed)"
proof -
  have d: "globset_matches_host_or_unscoped eng (st_deny_set st) h \<longleftrightarrow> listed denied h"
    using assms(2,5) globset_matches_listed[OF assms(1,6) _ assms(8)]
    unfolding compiled_from_config_def compile_denylist_globset_def by blast
  have a: "globset_matches_host_or_unscoped eng (st_allow_set st) h \<longleftrightarrow> listed allowed h"
    using assms(2,3) globset_matches_listed[OF assms(1,4) _ assms(8)]
    unfolding compiled_from_config_def compile_allowlist_globset_def by blast
  have e: "\<not> listed allowed h" if "allowed_domains (st_config st) = None"
    using that assms(3) by (simp add: listed_def)
  show ?thesis
    using e assms(7)
    by (simp add: host_blocked_def d a Let_def reaches_local_network_def assms(3)[symmetric])
qed

section \<open>The decider\<close>

lemma map_decider_Allow [simp]: "map_decider_decision d = DecisionAllow \<longleftrightarrow> d = DecisionAllow"
  by (cases d) simp_all

text \<open>
  The limits of the decider: a request is allowed exactly when the policy allows the host, or the
  host is merely not on the allowlist and the decider allows it. A denied host and a local destination
  are blocked whatever the decider would say; an allowance that came from the decider, and only that,
  is audited as an override.
\<close>
theorem decider_limits:
  "(case evaluate_host_policy blocked scope decider request of
     (decision, event) \<Rightarrow>
       (decision = DecisionAllow \<longleftrightarrow>
          blocked (rq_host request) (rq_port request) = Allowed \<or>
          blocked (rq_host request) (rq_port request) = Blocked NotAllowed \<and>
          (\<exists>decide. decider = Some decide \<and> decide (decider_request scope request) = DecisionAllow)) \<and>
       (audit_override event \<longleftrightarrow>
          decision = DecisionAllow \<and> blocked (rq_host request) (rq_port request) \<noteq> Allowed))"
  by (cases "blocked (rq_host request) (rq_port request)"; cases decider)
    (auto simp: evaluate_host_policy_def host_policy_decision_def Let_def deny_with_source_def case_prod_beta
      split: host_block_reason.splits)

section \<open>The address that is connected to\<close>

text \<open>
  No rebinding: with local binding off, a connection to a non-public address is made only when the
  target is that address itself, or \<open>localhost\<close> with a loopback address, and the policy allows that
  target. A name that resolves to a private address is never connected there.
\<close>
theorem connect_no_rebinding:
  "connect_permitted show_host blocked False target port addr \<longleftrightarrow>
     (if is_non_public_ip addr
      then blocked (show_host target) port = Allowed \<and>
        (target = TargetAddress addr \<or>
         (\<exists>name. target = TargetName name \<and> is_localhost_name name \<and> ip_is_loopback addr))
      else True)"
  by (cases target) (auto simp: connect_permitted_def allows_non_public_target_def)

section \<open>Concurrent operation\<close>

text \<open>
  The operations of the proxy run concurrently and take the lock of the state for each critical
  section. The state of an operation between two sections is what it has read.
\<close>

datatype ('j, 's, 'm, 'n, 'v, 'g) operation =
    ModeStart network_mode
  | ModeInstall network_mode network_proxy_constraints
  | DomainStart str domain_list_kind
  | DomainInstall str domain_list_kind "'j network_proxy_config" "('j, 's, 'm, 'n, 'v, 'g) config_state"
  | ReloadStart "('j, 's, 'm, 'n, 'v, 'g) config_state"
  | ReloadInstall "('j, 's, 'm, 'n, 'v, 'g) config_state"
  | Finished "runtime_error option"

type_synonym ('j, 's, 'm, 'n, 'v, 'g) system =
  "('j, 's, 'm, 'n, 'v, 'g) config_state \<times> ('j, 's, 'm, 'n, 'v, 'g) operation list"

text \<open>
  What a reloader hands over: a state built from a configuration that was validated against its
  constraints, as \<open>NetworkProxySpec\<close> makes it.
\<close>

definition loaded :: "('g, 's, 'n, 'v, 'm) proxy_env \<Rightarrow> ('j, 's, 'm, 'n, 'v, 'g) config_state \<Rightarrow> bool" where
  "loaded px st \<longleftrightarrow>
     validate_policy_against_constraints (px_globs px) (px_mitm px) (px_url_host px)
       (st_config st) (st_constraints st) = Inr () \<and>
     build_config_state px (st_config st) (st_constraints st) = Inr st"

inductive step ::
  "('g, 's, 'n, 'v, 'm) proxy_env \<Rightarrow> bool \<Rightarrow> ('j, 's, 'm, 'n, 'v, 'g) system \<Rightarrow> ('j, 's, 'm, 'n, 'v, 'g) system \<Rightarrow> bool"
  for px :: "('g, 's, 'n, 'v, 'm) proxy_env" and broker :: bool
where
  begin_mode: "step px broker (st, ops) (st, ops @ [ModeStart m])"
| begin_domain: "host_parse raw = Some h \<Longrightarrow> step px broker (st, ops) (st, ops @ [DomainStart h k])"
| begin_reload: "loaded px new \<Longrightarrow> step px broker (st, ops) (st, ops @ [ReloadStart new])"
| mode_rejected: "i < length ops \<Longrightarrow> ops ! i = ModeStart m \<Longrightarrow> prepare_mode_update px m st = Inl e \<Longrightarrow>
    step px broker (st, ops) (st, ops[i := Finished (Some e)])"
| mode_prepared: "i < length ops \<Longrightarrow> ops ! i = ModeStart m \<Longrightarrow> prepare_mode_update px m st = Inr con \<Longrightarrow>
    step px broker (st, ops) (st, ops[i := ModeInstall m con])"
| mode_retry: "i < length ops \<Longrightarrow> ops ! i = ModeInstall m con \<Longrightarrow> install_mode_update m con st = None \<Longrightarrow>
    step px broker (st, ops) (st, ops[i := ModeStart m])"
| mode_installed: "i < length ops \<Longrightarrow> ops ! i = ModeInstall m con \<Longrightarrow> install_mode_update m con st = Some st' \<Longrightarrow>
    step px broker (st, ops) (st', ops[i := Finished None])"
| domain_unchanged: "i < length ops \<Longrightarrow> ops ! i = DomainStart h k \<Longrightarrow> prepare_domain_update px h k st = UpdateDone \<Longrightarrow>
    step px broker (st, ops) (st, ops[i := Finished None])"
| domain_rejected: "i < length ops \<Longrightarrow> ops ! i = DomainStart h k \<Longrightarrow> prepare_domain_update px h k st = UpdateError e \<Longrightarrow>
    step px broker (st, ops) (st, ops[i := Finished (Some e)])"
| domain_prepared: "i < length ops \<Longrightarrow> ops ! i = DomainStart h k \<Longrightarrow> prepare_domain_update px h k st = UpdatePrepared new \<Longrightarrow>
    step px broker (st, ops) (st, ops[i := DomainInstall h k (st_config st) new])"
| domain_retry: "i < length ops \<Longrightarrow> ops ! i = DomainInstall h k prev new \<Longrightarrow> install_domain_update prev new st = None \<Longrightarrow>
    step px broker (st, ops) (st, ops[i := DomainStart h k])"
| domain_installed: "i < length ops \<Longrightarrow> ops ! i = DomainInstall h k prev new \<Longrightarrow> install_domain_update prev new st = Some st' \<Longrightarrow>
    step px broker (st, ops) (st', ops[i := Finished None])"
| reload_rejected: "i < length ops \<Longrightarrow> ops ! i = ReloadStart new \<Longrightarrow> prepare_reload broker new st = Inl e \<Longrightarrow>
    step px broker (st, ops) (st, ops[i := Finished (Some e)])"
| reload_read: "i < length ops \<Longrightarrow> ops ! i = ReloadStart new \<Longrightarrow> prepare_reload broker new st = Inr new' \<Longrightarrow>
    step px broker (st, ops) (st, ops[i := ReloadInstall new'])"
| reload_installed: "i < length ops \<Longrightarrow> ops ! i = ReloadInstall new \<Longrightarrow>
    step px broker (st, ops) (new, ops[i := Finished None])"
| forced: "loaded px new \<Longrightarrow> force_reload broker new st = Inr st' \<Longrightarrow> step px broker (st, ops) (st', ops)"
| replaced: "loaded px new \<Longrightarrow> replace_config_state broker new st = Inr st' \<Longrightarrow> step px broker (st, ops) (st', ops)"
| recorded: "step px broker (st, ops) (record_blocked x entry st, ops)"
| drained: "drain_blocked st = (entries, st') \<Longrightarrow> step px broker (st, ops) (st', ops)"

inductive reachable ::
  "('g, 's, 'n, 'v, 'm) proxy_env \<Rightarrow> bool \<Rightarrow> ('j, 's, 'm, 'n, 'v, 'g) system \<Rightarrow> bool"
  for px :: "('g, 's, 'n, 'v, 'm) proxy_env" and broker :: bool
where
  start: "loaded px st \<Longrightarrow> broker = credential_broker (st_config st) \<Longrightarrow> reachable px broker (st, [])"
| run: "reachable px broker s \<Longrightarrow> step px broker s s' \<Longrightarrow> reachable px broker s'"

section \<open>The invariant\<close>

definition within_limits :: "('g, 's, 'n, 'v, 'm) proxy_env \<Rightarrow> 'j network_proxy_config \<Rightarrow> network_proxy_constraints \<Rightarrow> bool" where
  "within_limits px cfg con \<longleftrightarrow>
     validate_policy_against_constraints (px_globs px) (px_mitm px) (px_url_host px) cfg con = Inr ()"

definition good_state :: "('g, 's, 'n, 'v, 'm) proxy_env \<Rightarrow> bool \<Rightarrow> ('j, 's, 'm, 'n, 'v, 'g) config_state \<Rightarrow> bool" where
  "good_state px broker st \<longleftrightarrow>
     within_limits px (st_config st) (st_constraints st) \<and>
     compiled_from_config (px_globs px) st \<and>
     credential_broker (st_config st) = broker \<and>
     length (st_blocked st) \<le> MAX_BLOCKED_EVENTS"

fun good_operation :: "('g, 's, 'n, 'v, 'm) proxy_env \<Rightarrow> bool \<Rightarrow> ('j, 's, 'm, 'n, 'v, 'g) operation \<Rightarrow> bool" where
  "good_operation px broker (ModeInstall m con) = (max_mode con = Some LimitedMode \<longrightarrow> m = LimitedMode)"
| "good_operation px broker (DomainInstall h k prev new) = good_state px broker new"
| "good_operation px broker (ReloadInstall new) = good_state px broker new"
| "good_operation px broker (ReloadStart new) = loaded px new"
| "good_operation px broker _ = True"

lemma domain_lists_mode [simp]:
  "allowed_domains (cfg\<lparr>mode := m\<rparr>) = allowed_domains cfg" "denied_domains (cfg\<lparr>mode := m\<rparr>) = denied_domains cfg"
  "allow_unix_sockets (cfg\<lparr>mode := m\<rparr>) = allow_unix_sockets cfg"
  by (simp_all add: allowed_domains_def denied_domains_def domain_entries_def allow_unix_sockets_def)

lemma domain_lists_upsert [simp]:
  "allow_unix_sockets (upsert_domain_permission h p norm cfg) = allow_unix_sockets cfg"
  "credential_broker (upsert_domain_permission h p norm cfg) = credential_broker cfg"
  by (simp_all add: upsert_domain_permission_def allow_unix_sockets_def Let_def)

text \<open>The mode is checked on its own, so a stale snapshot of the other fields does not matter.\<close>

lemma within_limits_iff:
  "within_limits px cfg con \<longleftrightarrow> within_constraints (px_globs px) (px_mitm px) (px_url_host px) cfg con"
  unfolding within_limits_def by (rule validate_policy_iff)

lemma within_limits_mode:
  "within_limits px (cfg\<lparr>mode := m\<rparr>) con \<Longrightarrow> max_mode con = Some LimitedMode \<longrightarrow> m = LimitedMode"
  by (simp add: within_limits_iff within_constraints_def)

lemma within_limits_set_mode:
  "within_limits px cfg con \<Longrightarrow> max_mode con = Some LimitedMode \<longrightarrow> m = LimitedMode \<Longrightarrow>
   within_limits px (cfg\<lparr>mode := m\<rparr>) con"
  by (simp add: within_limits_iff within_constraints_def)

lemma length_trim_blocked: "length (trim_blocked q) = min (length q) MAX_BLOCKED_EVENTS"
proof (induction q rule: trim_blocked.induct)
  case (1 q)
  then show ?case by (subst trim_blocked.simps) auto
qed

lemma loaded_good: "loaded px st \<Longrightarrow> credential_broker (st_config st) = broker \<Longrightarrow> good_state px broker st"
  using build_config_state_Inr[of px "st_config st" "st_constraints st" st]
  by (simp add: loaded_def good_state_def within_limits_def)

lemma check_broker_Inr [simp]: "check_broker broker new = Inr u \<longleftrightarrow> credential_broker (st_config new) = broker"
  by (auto simp: check_broker_def)

lemma good_state_blocked:
  "good_state px broker st \<Longrightarrow> length q \<le> MAX_BLOCKED_EVENTS \<Longrightarrow> good_state px broker (st\<lparr>st_blocked := q, st_blocked_total := t\<rparr>)"
  "good_state px broker st \<Longrightarrow> length q \<le> MAX_BLOCKED_EVENTS \<Longrightarrow> good_state px broker (st\<lparr>st_blocked := q\<rparr>)"
  by (simp_all add: good_state_def compiled_from_config_def)

lemma good_state_bound: "good_state px broker st \<Longrightarrow> length (st_blocked st) \<le> MAX_BLOCKED_EVENTS"
  by (simp add: good_state_def)

lemma prepare_reload_good:
  "loaded px new \<Longrightarrow> good_state px broker st \<Longrightarrow> prepare_reload broker new st = Inr new' \<Longrightarrow> good_state px broker new'"
  "loaded px new \<Longrightarrow> good_state px broker st \<Longrightarrow> force_reload broker new st = Inr new' \<Longrightarrow> good_state px broker new'"
  "loaded px new \<Longrightarrow> good_state px broker st \<Longrightarrow> replace_config_state broker new st = Inr new' \<Longrightarrow> good_state px broker new'"
  by (auto simp: prepare_reload_def force_reload_def replace_config_state_def and_then_Inr_iff
      intro!: good_state_blocked[OF loaded_good] dest: good_state_bound)

lemma prepare_domain_good:
  assumes "good_state px broker st" "prepare_domain_update px h k st = UpdatePrepared new"
  shows "good_state px broker new"
proof -
  let ?cfg = "upsert_domain_permission h (list_permission k) normalize_host (st_config st)"
  from assms(2) obtain new0 where v: "within_limits px ?cfg (st_constraints st)"
    and b: "build_config_state px ?cfg (st_constraints st) = Inr new0"
    and new: "new = new0\<lparr>st_blocked := st_blocked st, st_blocked_total := st_blocked_total st\<rparr>"
    by (auto simp: prepare_domain_update_def Let_def within_limits_def split: if_splits sum.splits)
  from build_config_state_Inr[OF b] v assms(1) have "good_state px broker new0"
    by (simp add: good_state_def MAX_BLOCKED_EVENTS_def)
  then show ?thesis unfolding new using good_state_bound[OF assms(1)] by (rule good_state_blocked)
qed

lemma prepare_mode_good:
  "prepare_mode_update px m st = Inr con \<Longrightarrow> max_mode con = Some LimitedMode \<longrightarrow> m = LimitedMode"
  using within_limits_mode[where px = px and cfg = "st_config st" and m = m and con = con]
  by (auto simp: prepare_mode_update_def and_then_Inr_iff within_limits_def)

lemma install_mode_good:
  assumes "good_state px broker st" "install_mode_update m con st = Some st'"
    "max_mode con = Some LimitedMode \<longrightarrow> m = LimitedMode"
  shows "good_state px broker st'"
  using assms within_limits_set_mode[where px = px and cfg = "st_config st" and con = "st_constraints st" and m = m]
  by (auto simp: install_mode_update_def good_state_def compiled_from_config_def split: if_splits)

lemma record_blocked_good: "good_state px broker st \<Longrightarrow> good_state px broker (record_blocked x entry st)"
  by (simp add: record_blocked_def good_state_blocked length_trim_blocked)

lemma drain_blocked_good: "good_state px broker st \<Longrightarrow> drain_blocked st = (entries, st') \<Longrightarrow> good_state px broker st'"
  by (auto simp: drain_blocked_def intro: good_state_blocked)

definition good_system :: "('g, 's, 'n, 'v, 'm) proxy_env \<Rightarrow> bool \<Rightarrow> ('j, 's, 'm, 'n, 'v, 'g) system \<Rightarrow> bool" where
  "good_system px broker s \<longleftrightarrow> good_state px broker (fst s) \<and> list_all (good_operation px broker) (snd s)"

lemma list_all_update: "list_all P xs \<Longrightarrow> P x \<Longrightarrow> list_all P (xs[i := x])"
  by (auto simp: list_all_iff dest: set_update_subset_insert[THEN subsetD])

lemma list_all_nth: "list_all P xs \<Longrightarrow> i < length xs \<Longrightarrow> xs ! i = y \<Longrightarrow> P y"
  by (auto simp: list_all_length)

lemma step_good: "step px broker s s' \<Longrightarrow> good_system px broker s \<Longrightarrow> good_system px broker s'"
proof (induction rule: step.induct)
  case (mode_prepared i ops m st con)
  then show ?case by (auto simp: good_system_def intro!: list_all_update dest: prepare_mode_good)
next
  case (mode_installed i ops m con st st')
  then show ?case
    using list_all_nth[OF _ mode_installed(1,2), of "good_operation px broker"]
    by (auto simp: good_system_def intro!: list_all_update intro: install_mode_good)
next
  case (domain_prepared i ops h k st new)
  then show ?case by (auto simp: good_system_def intro!: list_all_update intro: prepare_domain_good)
next
  case (domain_installed i ops h k prev new st st')
  then show ?case
    using list_all_nth[OF _ domain_installed(1,2), of "good_operation px broker"]
    by (auto simp: good_system_def install_domain_update_def intro!: list_all_update split: if_splits)
next
  case (reload_read i ops new st new')
  then show ?case
    using list_all_nth[OF _ reload_read(1,2), of "good_operation px broker"]
    by (auto simp: good_system_def intro!: list_all_update intro: prepare_reload_good)
next
  case (reload_installed i ops new st)
  then show ?case
    using list_all_nth[OF _ reload_installed(1,2), of "good_operation px broker"]
    by (auto simp: good_system_def intro!: list_all_update)
qed (auto simp: good_system_def intro!: list_all_update intro: prepare_reload_good record_blocked_good drain_blocked_good)

lemma reachable_good: "reachable px broker s \<Longrightarrow> good_system px broker s"
proof (induction rule: reachable.induct)
  case (start st)
  then show ?case by (simp add: good_system_def loaded_good)
next
  case (run s s')
  then show ?case by (simp add: step_good)
qed

text \<open>
  C12 Under every interleaving of mode changes, domain updates, reloads, replacements, recordings and
  drains, the installed configuration satisfies the constraints installed with it, the compiled sets
  are those of that configuration, the flag of the credential broker never changes and the buffer of
  blocked requests stays within its bound.
\<close>
theorem runtime_within_constraints:
  assumes "reachable px broker (st, ops)"
  shows "validate_policy_against_constraints (px_globs px) (px_mitm px) (px_url_host px)
      (st_config st) (st_constraints st) = Inr () \<and>
    compile_denylist_globset (px_globs px) (entries_or_empty (denied_domains (st_config st))) = Inr (st_deny_set st) \<and>
    compile_allowlist_globset (px_globs px) (entries_or_empty (allowed_domains (st_config st))) = Inr (st_allow_set st) \<and>
    credential_broker (st_config st) = broker \<and>
    length (st_blocked st) \<le> MAX_BLOCKED_EVENTS"
  using reachable_good[OF assms]
  by (simp add: good_system_def good_state_def within_limits_def compiled_from_config_def)

section \<open>Updates without interference\<close>

text \<open>\<open>update_domain_list\<close> when no other operation comes between its two critical sections.\<close>

definition update_domain_list ::
  "('g, 's, 'n, 'v, 'm) proxy_env \<Rightarrow> str \<Rightarrow> domain_list_kind \<Rightarrow> ('j, 's, 'm, 'n, 'v, 'g) config_state \<Rightarrow>
   runtime_error + ('j, 's, 'm, 'n, 'v, 'g) config_state option" where
  "update_domain_list px raw_host target st =
     (case host_parse raw_host of
        None \<Rightarrow> Inl InvalidNetworkHost
      | Some h \<Rightarrow>
          (case prepare_domain_update px h target st of
             UpdateDone \<Rightarrow> Inr (Some st)
           | UpdateError e \<Rightarrow> Inl e
           | UpdatePrepared new_state \<Rightarrow> Inr (install_domain_update (st_config st) new_state st)))"

lemma prepare_domain_update_Prepared:
  assumes "prepare_domain_update px h k st = UpdatePrepared new"
  shows "\<exists>new0. build_config_state px (upsert_domain_permission h (list_permission k) normalize_host (st_config st))
      (st_constraints st) = Inr new0 \<and>
    new = new0\<lparr>st_blocked := st_blocked st, st_blocked_total := st_blocked_total st\<rparr>"
  using assms by (auto simp: prepare_domain_update_def Let_def split: if_splits sum.splits)

lemma prepared_install:
  assumes "prepare_domain_update px h k st = UpdatePrepared new" "st_constraints st' = st_constraints st"
    "st_config st' = st_config st"
  shows "install_domain_update (st_config st) new st' = Some new"
  using prepare_domain_update_Prepared[OF assms(1)] build_config_state_Inr assms(2,3)
  by (fastforce simp: install_domain_update_def)

lemma two_steps: "r a b \<Longrightarrow> r b c \<Longrightarrow> r\<^sup>*\<^sup>* a c"
  by (rule rtranclp.rtrancl_into_rtrancl[OF r_into_rtranclp])

text \<open>
  An update that is not disturbed returns: from any state, an operation that waits for its first
  section finishes, with its result or an error, by its own steps; a retry needs another operation
  that changed the constraints or the configuration in between.
\<close>
theorem undisturbed_update_finishes:
  assumes "i < length ops" "ops ! i = ModeStart m \<or> ops ! i = DomainStart h k"
  shows "\<exists>st' r. (step px broker)\<^sup>*\<^sup>* (st, ops) (st', ops[i := Finished r])"
  using assms(2)
proof
  assume o: "ops ! i = ModeStart m"
  show ?thesis
  proof (cases "prepare_mode_update px m st")
    case (Inl e)
    from step.mode_rejected[OF assms(1) o this] show ?thesis by blast
  next
    case (Inr con)
    then have "con = st_constraints st" by (auto simp: prepare_mode_update_def and_then_Inr_iff)
    then have i: "install_mode_update m con st = Some (st\<lparr>st_config := (st_config st)\<lparr>mode := m\<rparr>\<rparr>)"
      by (simp add: install_mode_update_def)
    let ?ops = "ops[i := ModeInstall m con]"
    have "i < length ?ops" "?ops ! i = ModeInstall m con" using assms(1) by simp_all
    from step.mode_installed[OF this i, of px broker] step.mode_prepared[OF assms(1) o Inr, of broker]
    show ?thesis unfolding list_update_overwrite by (blast intro: two_steps)
  qed
next
  assume o: "ops ! i = DomainStart h k"
  show ?thesis
  proof (cases "prepare_domain_update px h k st")
    case UpdateDone
    from step.domain_unchanged[OF assms(1) o this] show ?thesis by blast
  next
    case (UpdateError e)
    from step.domain_rejected[OF assms(1) o this] show ?thesis by blast
  next
    case (UpdatePrepared new)
    let ?ops = "ops[i := DomainInstall h k (st_config st) new]"
    have l: "i < length ?ops" "?ops ! i = DomainInstall h k (st_config st) new" using assms(1) by simp_all
    have i: "install_domain_update (st_config st) new st = Some new" by (rule prepared_install[OF UpdatePrepared]) simp_all
    from step.domain_installed[OF l i, of px broker] step.domain_prepared[OF assms(1) o UpdatePrepared, of broker]
    show ?thesis unfolding list_update_overwrite by (blast intro: two_steps)
  qed
qed

text \<open>
  The snapshot that an update carries over is older than its installation: a request that is recorded
  in between is dropped from the buffer and from the total, since only the constraints and the
  configuration are compared.
\<close>

lemma update_drops_record:
  assumes "prepare_domain_update px h k st = UpdatePrepared new"
  shows "install_domain_update (st_config st) new (record_blocked x entry st) = Some new \<and>
    st_blocked new = st_blocked st \<and> st_blocked_total new = st_blocked_total st"
  using prepared_install[OF assms, of "record_blocked x entry st"] prepare_domain_update_Prepared[OF assms]
  by (auto simp: record_blocked_def)

section \<open>Case\<close>

definition caseless :: "str \<Rightarrow> bool" where
  "caseless p \<longleftrightarrow> (\<forall>c\<in>set p. to_ascii_lowercase_char c = c \<and> \<not> (97 \<le> c \<and> c \<le> 122))"

lemma lowercase_char_caseless:
  "\<not> (97 \<le> c \<and> c \<le> 122) \<Longrightarrow> to_ascii_lowercase_char x = c \<longleftrightarrow> x = c \<and> to_ascii_lowercase_char c = c"
  by (auto simp: to_ascii_lowercase_char_def)

lemma lowercase_eq_caseless: "caseless p \<Longrightarrow> to_ascii_lowercase s = p \<longleftrightarrow> s = p"
proof (induction p arbitrary: s)
  case (Cons c p)
  then show ?case
    by (cases s) (auto simp: to_ascii_lowercase_def caseless_def lowercase_char_caseless)
qed simp

lemma take_lowercase: "take n (to_ascii_lowercase s) = to_ascii_lowercase (take n s)"
  and drop_lowercase: "drop n (to_ascii_lowercase s) = to_ascii_lowercase (drop n s)"
  by (simp_all add: to_ascii_lowercase_def take_map drop_map)

lemma starts_with_lowercase: "caseless p \<Longrightarrow> starts_with (to_ascii_lowercase s) p = starts_with s p"
  by (simp add: starts_with_def take_lowercase lowercase_eq_caseless)

lemma strip_prefix_lowercase:
  "caseless p \<Longrightarrow> strip_prefix (to_ascii_lowercase s) p = map_option to_ascii_lowercase (strip_prefix s p)"
  by (simp add: strip_prefix_def starts_with_lowercase drop_lowercase)

lemma find_sub_lowercase: "caseless p \<Longrightarrow> find_sub p (to_ascii_lowercase s) = find_sub p s"
proof (induction s)
  case Nil
  then show ?case by (simp add: to_ascii_lowercase_def)
next
  case (Cons c s)
  have "starts_with (to_ascii_lowercase (c # s)) p = starts_with (c # s) p"
    using Cons.prems by (rule starts_with_lowercase)
  with Cons show ?case by (simp add: to_ascii_lowercase_def)
qed

lemma trim_lowercase: "trim (to_ascii_lowercase s) = to_ascii_lowercase (trim s)"
proof -
  have w: "is_whitespace \<circ> to_ascii_lowercase_char = is_whitespace" by (rule ext) simp
  show ?thesis
    by (simp add: trim_def trim_start_def trim_end_def to_ascii_lowercase_def dropWhile_map rev_map w)
qed

lemma caseless_char: "caseless [c] \<Longrightarrow> to_ascii_lowercase_char x = c \<longleftrightarrow> x = c"
  by (auto simp: caseless_def lowercase_char_caseless)

lemma to_ascii_lowercase_simps [simp]:
  "to_ascii_lowercase [] = []" "to_ascii_lowercase (c # s) = to_ascii_lowercase_char c # to_ascii_lowercase s"
  by (simp_all add: to_ascii_lowercase_def)

lemma count_lowercase:
  "caseless [c] \<Longrightarrow> length (filter (\<lambda>b. b = c) (to_ascii_lowercase s)) = length (filter (\<lambda>b. b = c) s)"
  by (induction s) (simp_all add: caseless_char)

lemma hd_split_on_lowercase:
  assumes "caseless [c]"
  shows "hd (split_on c (to_ascii_lowercase s)) = to_ascii_lowercase (hd (split_on c s))"
proof (induction s)
  case (Cons x s)
  obtain p ps where p: "split_on c s = p # ps" using split_on_not_Nil[of c s] by (cases "split_on c s") auto
  obtain q qs where q: "split_on c (to_ascii_lowercase s) = q # qs"
    using split_on_not_Nil[of c "to_ascii_lowercase s"] by (cases "split_on c (to_ascii_lowercase s)") auto
  from Cons have "q = to_ascii_lowercase p" by (simp add: p q)
  then show ?case by (simp add: p q caseless_char[OF assms])
qed simp

lemma normalize_dns_lowercase [simp]:
  "normalize_dns_host_or_ip_literal (to_ascii_lowercase s) = normalize_dns_host_or_ip_literal s"
  by (simp add: normalize_dns_host_or_ip_literal_def)

lemma normalize_host_lowercase: "normalize_host (to_ascii_lowercase s) = normalize_host s"
proof -
  have c: "caseless [91]" "caseless [93]" "caseless [58]" by (simp_all add: caseless_def to_ascii_lowercase_char_def)
  show ?thesis
    by (simp add: normalize_host_def Let_def trim_lowercase starts_with_lowercase find_sub_lowercase count_lowercase
        hd_split_on_lowercase c take_lowercase drop_lowercase split: option.splits)
qed

lemma normalize_pattern_lowercase: "normalize_pattern (to_ascii_lowercase p) = normalize_pattern p"
proof -
  have c: "caseless (lit ''*'')" "caseless (lit ''**.'')" "caseless (lit ''*.'')"
    by (simp_all add: caseless_def to_ascii_lowercase_char_def)
  show ?thesis
    unfolding normalize_pattern_def Let_def trim_lowercase lowercase_eq_caseless[OF c(1)]
      strip_prefix_lowercase[OF c(2)] strip_prefix_lowercase[OF c(3)]
    by (auto simp: normalize_host_lowercase split: option.splits)
qed

lemma policy_pattern_lowercase:
  "to_ascii_lowercase p = to_ascii_lowercase q \<Longrightarrow> policy_pattern p = policy_pattern q"
  unfolding policy_pattern_def by (metis normalize_pattern_lowercase)

section \<open>Denied hosts\<close>

lemma listed_denied_blocked:
  assumes "glob_laws eng" "compiled_from_config eng st"
    "list_all plain_pattern (entries_or_empty (denied_domains (st_config st)))"
    "host_parse raw = Some h" "is_ascii h" "listed (entries_or_empty (denied_domains (st_config st))) h"
  shows "host_blocked eng dns st raw port = Blocked Denied"
proof -
  have "globset_matches_host_or_unscoped eng (st_deny_set st) h"
    using assms(2,6) globset_matches_listed[OF assms(1,3) _ assms(5)]
    unfolding compiled_from_config_def compile_denylist_globset_def by blast
  then show ?thesis by (simp add: host_blocked_def assms(4) Let_def)
qed

text \<open>
  C19 A managed denied domain stays denied: in every state that the proxy can reach, whatever the user
  adds, removes, reloads or switches, a host that is covered by a denied pattern of the constraints in
  force is blocked as denied.
\<close>
theorem managed_denial_stands:
  assumes "reachable px broker (st, ops)" "glob_laws (px_globs px)"
    "managed_denied_domains (st_constraints st) = Some managed" "p \<in> set managed"
    "list_all plain_pattern (entries_or_empty (denied_domains (st_config st)))"
    "host_parse raw = Some h" "is_ascii h" "glob_covers (policy_pattern p) h"
  shows "host_blocked (px_globs px) dns st raw port = Blocked Denied"
proof (rule listed_denied_blocked[OF assms(2) _ assms(5-7)])
  from reachable_good[OF assms(1)] have g: "good_state px broker st" by (simp add: good_system_def)
  then show "compiled_from_config (px_globs px) st" by (simp add: good_state_def)
  from g have "within_denied_domains (st_constraints st) (entries_or_empty (denied_domains (st_config st)))"
    by (simp add: good_state_def within_limits_iff within_constraints_def)
  with assms(3,4) obtain q where "q \<in> set (entries_or_empty (denied_domains (st_config st)))"
    "to_ascii_lowercase p = to_ascii_lowercase q"
    by (auto simp: within_denied_domains_def lowercase_set_def)
  with assms(8) policy_pattern_lowercase[of p q]
  show "listed (entries_or_empty (denied_domains (st_config st))) h"
    by (auto simp: listed_def)
qed

section \<open>Denying a host\<close>

lemma parse_ip_Nil: "parse_ip [] = None"
  by code_simp

lemma normalize_scoped_hd:
  "normalize_scoped ds (c # s) = Some r \<Longrightarrow> \<exists>r'. r = c # r'"
proof (induction ds)
  case (Cons d ds)
  show ?case
  proof (cases "split_once_str d (c # s)")
    case None
    with Cons show ?thesis by simp
  next
    case (Some x)
    obtain ip zone where x: "x = (ip, zone)" by (cases x)
    then obtain i where i: "ip = take i (c # s)" using Some by (auto simp: split_once_str_def split: option.splits)
    show ?thesis
    proof (cases "parse_ip ip = None")
      case True
      with Cons Some x show ?thesis by simp
    next
      case False
      then have "ip \<noteq> []" using parse_ip_Nil by auto
      with i have "\<exists>ip'. ip = c # ip'" by (cases i) auto
      with False Cons.prems Some x show ?thesis by auto
    qed
  qed
qed simp

lemma trim_end_matches_Cons: "x \<noteq> c \<Longrightarrow> trim_end_matches c (x # s) = x # trim_end_matches c s"
  by (simp add: trim_end_matches_def dropWhile_append)

lemma normalize_dns_star: "42 \<in> set (normalize_dns_host_or_ip_literal (42 # s))"
proof -
  let ?h = "42 # trim_end_matches 46 (to_ascii_lowercase s)"
  have l: "trim_end_matches 46 (to_ascii_lowercase (42 # s)) = ?h"
    by (simp add: trim_end_matches_Cons to_ascii_lowercase_char_def)
  have "normalize_ip_literal ?h = Some r \<Longrightarrow> 42 \<in> set r" for r
    using normalize_scoped_hd[of "[lit ''%25'', lit ''%'']" 42 "trim_end_matches 46 (to_ascii_lowercase s)" r]
    by (auto simp: normalize_ip_literal_def simp del: normalize_scoped.simps split: if_splits)
  then show ?thesis
    unfolding normalize_dns_host_or_ip_literal_def Let_def l by (auto split: option.splits)
qed

lemma normalize_host_trim: "normalize_host (trim s) = normalize_host s"
  by (simp add: normalize_host_def)

lemma normalize_host_star: "trim e = 42 # s \<Longrightarrow> 42 \<in> set (normalize_host e)"
proof -
  assume t: "trim e = 42 # s"
  obtain q qs where q: "split_on 58 s = q # qs" using split_on_not_Nil[of 58 s] by (cases "split_on 58 s") auto
  show ?thesis
    unfolding normalize_host_def Let_def t
    using normalize_dns_star by (simp add: starts_with_def q)
qed

lemma star_prefix: "strip_prefix t p = Some d \<Longrightarrow> p = 42 # p' \<Longrightarrow> \<exists>s. t = 42 # s"
  by (cases t) (auto simp: strip_prefix_def starts_with_def split: if_splits)

lemma plain_trim:
  assumes "plain h"
  shows "trim h = h"
proof -
  have "\<not> is_whitespace c" if "plain_char c" for c using that by (auto simp: plain_char_def is_whitespace_def)
  then have "trimmed h" using assms by (cases "h = []") (auto simp: trimmed_def plain_def)
  then show ?thesis by (rule trim_id)
qed

lemma plain_no_star: "plain h \<Longrightarrow> 42 \<notin> set h"
  by (auto simp: plain_def plain_char_def lit_simps)

lemma no_star_normalize_pattern:
  assumes "42 \<notin> set (normalize_host e)"
  shows "normalize_pattern e = normalize_host e"
proof -
  have n: "trim e \<noteq> 42 # s" for s using normalize_host_star[of e s] assms by blast
  have "strip_prefix (trim e) (lit ''**.'') = None"
    using n star_prefix[of "trim e" "lit ''**.''"] by (cases "strip_prefix (trim e) (lit ''**.'')") (auto simp: lit_simps)
  moreover have "strip_prefix (trim e) (lit ''*.'') = None"
    using n star_prefix[of "trim e" "lit ''*.''"] by (cases "strip_prefix (trim e) (lit ''*.'')") (auto simp: lit_simps)
  moreover have "trim e \<noteq> lit ''*''" using n by (simp add: lit_simps)
  ultimately show ?thesis by (simp add: normalize_pattern_def Let_def normalize_host_trim)
qed

lemma parse_plain: 
  assumes "plain h" "h \<noteq> []"
  shows "parse_domain_pattern h = Exact h"
proof -
  have s: "strip_prefix h (42 # p) = None" for p
    using plain_no_star[OF assms(1)] by (cases h) (auto simp: strip_prefix_def starts_with_def)
  show ?thesis
    using assms by (simp add: parse_domain_pattern_def Let_def plain_trim lit_simps s)
qed

lemma policy_pattern_plain_host:
  assumes "plain (normalize_host e)" "normalize_host e \<noteq> []"
  shows "policy_pattern e = Exact (normalize_host e)"
  unfolding policy_pattern_def no_star_normalize_pattern[OF plain_no_star[OF assms(1)]]
  by (rule parse_plain[OF assms])

lemma plain_ascii: "plain h \<Longrightarrow> is_ascii h"
proof -
  have "c < 127" if "plain_char c" for c using that unfolding plain_char_def by blast
  then show "plain h \<Longrightarrow> is_ascii h" by (fastforce simp: plain_def is_ascii_def)
qed

text \<open>
  C33 Denying a host takes effect: when \<open>add_denied_domain\<close> succeeds, the host is blocked as denied,
  also when an entry for it was there already or when it was on the allowlist. The host has no
  metacharacters and its normal form is stable.
\<close>
theorem add_denied_domain_blocks:
  assumes "glob_laws (px_globs px)" "compiled_from_config (px_globs px) st"
    "list_all plain_pattern (entries_or_empty (denied_domains (st_config st)))"
    "host_parse raw = Some h" "plain h" "normalize_host h = h"
    "update_domain_list px raw DenyList st = Inr (Some st')"
  shows "host_blocked (px_globs px) dns st' raw port = Blocked Denied"
proof -
  from assms(4) have h: "h = normalize_host raw" "h \<noteq> []" by (auto simp: host_parse_def Let_def split: if_splits)
  have exact: "policy_pattern e = Exact h" if "normalize_host e = h" for e
    using policy_pattern_plain_host[of e] assms(5) h(2) that by simp
  have listed: "listed ps h" if "e \<in> set ps" "normalize_host e = h" for e ps
  proof -
    have "glob_covers (policy_pattern e) h" by (simp add: exact[OF that(2)])
    with that(1) show ?thesis unfolding listed_def by blast
  qed
  note blocked = listed_denied_blocked[OF assms(1) _ _ assms(4) plain_ascii[OF assms(5)]]
  show ?thesis
  proof (cases "prepare_domain_update px h DenyList st")
    case UpdateDone
    then have "\<exists>e\<in>set (entries_or_empty (denied_domains (st_config st))). normalize_host e = h"
      by (auto simp: prepare_domain_update_def Let_def list_entries_def list_ex_iff split: if_splits sum.splits)
    then have "listed (entries_or_empty (denied_domains (st_config st))) h" using listed by blast
    moreover have "st' = st" using assms(7) UpdateDone by (simp add: update_domain_list_def assms(4))
    ultimately show ?thesis using blocked[OF assms(2,3)] by simp
  next
    case (UpdateError e)
    then show ?thesis using assms(7) by (simp add: update_domain_list_def assms(4))
  next
    case (UpdatePrepared new)
    with assms(7) prepared_install[OF UpdatePrepared refl refl] have st': "st' = new"
      by (simp add: update_domain_list_def assms(4))
    let ?cfg = "upsert_domain_permission h PermDeny normalize_host (st_config st)"
    from prepare_domain_update_Prepared[OF UpdatePrepared] obtain new0 where
      b: "build_config_state px ?cfg (st_constraints st) = Inr new0"
      and new: "new = new0\<lparr>st_blocked := st_blocked st, st_blocked_total := st_blocked_total st\<rparr>"
      by (auto simp: list_permission_def)
    have c: "compiled_from_config (px_globs px) new" "st_config new = ?cfg"
    proof -
      have "compiled_from_config (px_globs px) new0" "st_config new0 = ?cfg"
        using build_config_state_Inr[OF b] by blast+
      then show "compiled_from_config (px_globs px) new" "st_config new = ?cfg"
        by (simp_all add: new compiled_from_config_def)
    qed
    have "plain_pattern h" using exact[OF assms(6)] assms(5) by (simp add: plain_pattern_def)
    then have "list_all plain_pattern (entries_or_empty (denied_domains (st_config new)))"
      using assms(3) unfolding c(2) by (auto simp: list_all_iff upsert_deny_listed)
    moreover have "listed (entries_or_empty (denied_domains (st_config new))) h"
      by (rule listed[OF _ assms(6)]) (simp add: c(2) upsert_deny_listed)
    ultimately show ?thesis unfolding st' using blocked[OF c(1)] by blast
  qed
qed

section \<open>Canonical patterns\<close>

text \<open>
  A host name in its usual form: lower-case letters, digits, hyphens and dots, without an empty or
  encoded label, whose last label starts with a letter, so that it is no number.
\<close>

definition dns_char :: "uchar \<Rightarrow> bool" where
  "dns_char c \<longleftrightarrow> 97 \<le> c \<and> c \<le> 122 \<or> 48 \<le> c \<and> c \<le> 57 \<or> c = 45 \<or> c = 46"

definition dns_name :: "str \<Rightarrow> bool" where
  "dns_name d \<longleftrightarrow>
     list_all dns_char d \<and> list_all (\<lambda>l. l \<noteq> []) (split_on 46 d) \<and> \<not> contains_sub (lit ''xn--'') d \<and>
     (case last (split_on 46 d) of c # l \<Rightarrow> 97 \<le> c \<and> c \<le> 122 | [] \<Rightarrow> False)"

fun render_pattern :: "domain_pattern \<Rightarrow> str" where
  "render_pattern (Exact d) = d"
| "render_pattern (SubdomainsOnly d) = lit ''*.'' @ d"
| "render_pattern (ApexAndSubdomains d) = lit ''**.'' @ d"

definition canonical :: "domain_pattern \<Rightarrow> bool" where
  "canonical q \<longleftrightarrow> dns_name (pattern_domain q)"

text \<open>The \<open>url\<close> crate leaves such a name as it is.\<close>

definition url_host_law :: "(str \<Rightarrow> str option) \<Rightarrow> bool" where
  "url_host_law url_host \<longleftrightarrow> (\<forall>d. dns_name d \<longrightarrow> url_host d = Some d)"

lemma last_join: "ls \<noteq> [] \<Longrightarrow> last ls \<noteq> [] \<Longrightarrow> last (join sep ls) = last (last ls) \<and> join sep ls \<noteq> []"
proof (induction sep ls rule: join.induct)
  case (3 sep l v va)
  then show ?case by (cases va) auto
qed auto

lemma set_last_join: "ls \<noteq> [] \<Longrightarrow> set (last ls) \<subseteq> set (join sep ls)"
  by (induction sep ls rule: join.induct) auto

lemma hd_join: "ls \<noteq> [] \<Longrightarrow> hd ls \<noteq> [] \<Longrightarrow> hd (join sep ls) = hd (hd ls)"
  by (induction sep ls rule: join.induct) auto

lemma dns_name_facts:
  assumes "dns_name d"
  shows "d \<noteq> []" "hd d \<noteq> 46" "last d \<noteq> 46" "\<exists>c\<in>set d. 97 \<le> c \<and> c \<le> 122"
proof -
  let ?ls = "split_on 46 d"
  have ne: "?ls \<noteq> []" by (rule split_on_not_Nil)
  have l: "\<forall>l\<in>set ?ls. l \<noteq> [] \<and> 46 \<notin> set l"
    using assms split_on_no_sep by (auto simp: dns_name_def list_all_iff)
  then have lh: "last ?ls \<noteq> []" "46 \<notin> set (last ?ls)" "hd ?ls \<noteq> []" "46 \<notin> set (hd ?ls)" using ne by auto
  have j: "join [46] ?ls = d" by (rule join_split_on)
  show "d \<noteq> []" using last_join[OF ne lh(1), of "[46]"] by (simp add: j)
  show "hd d \<noteq> 46" using hd_join[OF ne lh(3), of "[46]"] lh(3,4) by (metis j list.set_sel(1))
  show "last d \<noteq> 46" using last_join[OF ne lh(1), of "[46]"] lh(1,2) by (metis j last_in_set)
  have "\<exists>c\<in>set (last ?ls). 97 \<le> c \<and> c \<le> 122"
    using assms by (auto simp: dns_name_def split: list.splits)
  then show "\<exists>c\<in>set d. 97 \<le> c \<and> c \<le> 122" using set_last_join[OF ne, of "[46]"] unfolding j by blast
qed

lemma dns_char_facts:
  assumes "dns_char c"
  shows "c \<noteq> 37" "c \<noteq> 42" "c \<noteq> 58" "c \<noteq> 63" "c \<noteq> 91" "plain_char c" "to_ascii_lowercase_char c = c" "\<not> is_whitespace c"
  using assms by (auto simp: dns_char_def plain_char_def to_ascii_lowercase_char_def is_whitespace_def)

lemma dns_name_set:
  assumes "dns_name d"
  shows "37 \<notin> set d" "42 \<notin> set d" "58 \<notin> set d" "63 \<notin> set d" "91 \<notin> set d" "plain d" "to_ascii_lowercase d = d"
proof -
  have a: "\<forall>c\<in>set d. dns_char c" using assms by (simp add: dns_name_def list_all_iff)
  then show "37 \<notin> set d" "42 \<notin> set d" "58 \<notin> set d" "63 \<notin> set d" "91 \<notin> set d" using dns_char_facts by blast+
  from a show "plain d" unfolding plain_def using dns_char_facts(6) by blast
  from a show "to_ascii_lowercase d = d" unfolding to_ascii_lowercase_def using dns_char_facts(7) by (intro map_idI) blast
qed

lemma read_digits_split:
  "read_digits radix lim r k s = Some (r', k', rest) \<Longrightarrow> \<exists>ds. s = ds @ rest \<and> (\<forall>c\<in>set ds. to_digit radix c \<noteq> None)"
proof (induction s arbitrary: r k)
  case (Cons c s)
  show ?case
  proof (cases "to_digit radix c")
    case None
    with Cons.prems show ?thesis by auto
  next
    case (Some d)
    with Cons.prems have "read_digits radix lim (r * radix + d) (k + 1) s = Some (r', k', rest)"
      by (auto split: if_splits)
    from Cons.IH[OF this] obtain ds where "s = ds @ rest" "\<forall>c\<in>set ds. to_digit radix c \<noteq> None" by blast
    then show ?thesis using Some by (intro exI[of _ "c # ds"]) auto
  qed
qed simp

lemma read_number_split:
  "read_number radix lim z b s = Some (n, rest) \<Longrightarrow> \<exists>ds. s = ds @ rest \<and> (\<forall>c\<in>set ds. to_digit radix c \<noteq> None)"
  using read_digits_split[of radix lim 0 0 s] by (auto simp: read_number_def split: option.splits if_splits)

lemma to_digit_10: "to_digit 10 c \<noteq> None \<Longrightarrow> is_ascii_digit c"
  by (auto simp: to_digit_def is_ascii_digit_def Let_def split: if_splits)

lemma read_octet_split:
  assumes "read_octet first s = Some (n, rest)"
  shows "\<exists>ds. s = ds @ rest \<and> (\<forall>c\<in>set ds. is_ascii_digit c \<or> c = 46)"
proof (cases first)
  case True
  with assms show ?thesis using read_number_split[of 10 3 False 256 s n rest] to_digit_10
    by (auto simp: read_octet_def read_separator_def)
next
  case False
  with assms obtain t where t: "s = 46 # t" "read_number 10 3 False 256 t = Some (n, rest)"
    by (auto simp: read_octet_def read_separator_def read_given_char_def bind_eq_Some_conv split: list.splits if_splits)
  from read_number_split[OF t(2)] obtain ds where "t = ds @ rest" "\<forall>c\<in>set ds. to_digit 10 c \<noteq> None" by blast
  then show ?thesis using t(1) to_digit_10 by (intro exI[of _ "46 # ds"]) auto
qed

lemma read_ipv4_split:
  assumes "read_ipv4_addr s = Some (ip, rest)"
  shows "\<exists>ds. s = ds @ rest \<and> (\<forall>c\<in>set ds. is_ascii_digit c \<or> c = 46)"
proof -
  from assms obtain a s1 b s2 c s3 d where
    "read_octet True s = Some (a, s1)" "read_octet False s1 = Some (b, s2)"
    "read_octet False s2 = Some (c, s3)" "read_octet False s3 = Some (d, rest)"
    by (auto simp: read_ipv4_addr_def bind_eq_Some_conv)
  then obtain d1 d2 d3 d4 where "s = d1 @ s1" "s1 = d2 @ s2" "s2 = d3 @ s3" "s3 = d4 @ rest"
    "\<forall>c\<in>set d1 \<union> set d2 \<union> set d3 \<union> set d4. is_ascii_digit c \<or> c = 46"
    using read_octet_split by (metis (no_types, opaque_lifting) Un_iff)
  then show ?thesis by (intro exI[of _ "d1 @ d2 @ d3 @ d4"]) auto
qed

lemma read_groups_no_colon: "58 \<notin> set s \<Longrightarrow> read_groups n False s = ([], False, s)"
proof (cases n)
  case (Suc m)
  assume "58 \<notin> set s"
  then have "read_given_char 58 s = None" by (auto simp: read_given_char_def split: list.splits)
  then show ?thesis by (simp add: Suc read_separator_def)
qed simp

lemma read_groups_8:
  "read_groups 8 True s =
     (case read_ipv4_addr s of
        Some (v4, r) \<Rightarrow> ([high_half v4, low_half v4], True, r)
      | None \<Rightarrow>
          (case read_number 16 4 True 65536 s of
             None \<Rightarrow> ([], False, s)
           | Some (g, r) \<Rightarrow> (case read_groups 7 False r of (gs, v4, r) \<Rightarrow> (word_of_nat g # gs, v4, r))))"
  using read_groups.simps(2)[of 7 True s] by (simp add: read_separator_def split: option.split)

lemma read_ipv6_no_colon: "58 \<notin> set s \<Longrightarrow> read_ipv6_addr s = None"
proof -
  assume n: "58 \<notin> set s"
  have g: "read_given_char 58 r = None" if "58 \<notin> set r" for r
    using that by (auto simp: read_given_char_def split: list.splits)
  have r: "58 \<notin> set r" if "read_number 16 4 True 65536 s = Some (v, r)" for v r
    using read_number_split[OF that] n by auto
  show ?thesis
    by (auto simp: read_ipv6_addr_def read_groups_8 read_groups_no_colon r g[OF n] g[OF r] split: option.splits)
qed

lemma parse_ip_dns_name: "dns_name d \<Longrightarrow> parse_ip d = None"
proof (rule ccontr)
  assume d: "dns_name d" and "parse_ip d \<noteq> None"
  then obtain ip where "read_ipv4_addr d = Some (ip, [])"
    using read_ipv6_no_colon[OF dns_name_set(3)[OF d]]
    by (auto simp: parse_ip_def read_ip_addr_def split: option.splits list.splits)
  from read_ipv4_split[OF this] have "\<forall>c\<in>set d. is_ascii_digit c \<or> c = 46" by simp
  with dns_name_facts(4)[OF d] show False by (auto simp: is_ascii_digit_def)
qed

lemma split_once_str_absent: "c \<notin> set s \<Longrightarrow> split_once_str (c # p) s = None"
proof -
  assume c: "c \<notin> set s"
  have "\<not> prefix (c # p) (drop j s)" for j
    using c by (metis Cons_prefix_Cons in_set_dropD list.set_intros(1) prefix_Cons list.exhaust prefix_Nil)
  then have "find_sub (c # p) s = None" by (simp add: find_sub_None)
  then show ?thesis by (simp add: split_once_str_def)
qed

lemma normalize_dns_name:
  assumes "dns_name d"
  shows "normalize_host d = d"
proof -
  note f = dns_name_facts[OF assms] and s = dns_name_set[OF assms]
  have "split_once_str (lit ''%25'') d = None" "split_once_str (lit ''%'') d = None"
    using split_once_str_absent[OF s(1)] by (simp_all add: lit_simps)
  then have "normalize_ip_literal d = None"
    by (simp add: normalize_ip_literal_def parse_ip_dns_name[OF assms])
  then have n: "normalize_dns_host_or_ip_literal d = d"
    using f(3) by (simp add: normalize_dns_host_or_ip_literal_def s(7) trim_end_matches_id Let_def)
  have "\<not> starts_with d [91]" using s(5) f(1) by (cases d) (auto simp: starts_with_def)
  moreover have "filter (\<lambda>b. b = 58) d = []" using s(3) by (auto simp: filter_empty_conv)
  ultimately show ?thesis by (simp add: normalize_host_def Let_def plain_trim[OF s(6)] n)
qed

section \<open>Hosts and the managed allowlist\<close>

lemma strip_prefix_no_star: "42 \<notin> set d \<Longrightarrow> strip_prefix d (42 # p) = None"
  by (cases d) (auto simp: strip_prefix_def starts_with_def)

lemma strip_prefix_self [simp]: "strip_prefix (p @ s) p = Some s"
  by (simp add: strip_prefix_def)

lemma strip_double_star: "strip_prefix (lit ''*.'' @ d) (lit ''**.'') = None"
  by (simp add: strip_prefix_def starts_with_def lit_simps)

lemma trim_star_domain: "dns_name d \<Longrightarrow> trim (42 # p @ d) = 42 # p @ d"
  using dns_name_facts(1)[of d] plain_trim[OF dns_name_set(6), of d] trimmed_trim[of d]
  by (intro trim_id) (auto simp: trimmed_def is_whitespace_def)

lemma star_ne: "42 # p @ d = lit ''*'' \<longleftrightarrow> p = [] \<and> d = []"
  by (simp add: lit_simps)

text \<open>The policy and the comparison read a canonical pattern back as it was written.\<close>

lemma policy_pattern_render:
  assumes "canonical q"
  shows "policy_pattern (render_pattern q) = q"
proof -
  let ?d = "pattern_domain q"
  have d: "dns_name ?d" using assms by (simp add: canonical_def)
  note s = dns_name_set[OF d] and ne = dns_name_facts(1)[OF d]
  have t: "trim ?d = ?d" by (rule plain_trim[OF s(6)])
  show ?thesis
  proof (cases q)
    case (Exact e)
    have "normalize_host (render_pattern q) = e" using normalize_dns_name[OF d] by (simp add: Exact)
    with policy_pattern_plain_host[of "render_pattern q"] s(6) ne show ?thesis by (simp add: Exact)
  next
    case (SubdomainsOnly e)
    have tr: "trim (lit ''*.'' @ e) = lit ''*.'' @ e" using trim_star_domain[of e "[46]"] d by (simp add: SubdomainsOnly lit_simps)
    have "normalize_pattern (render_pattern q) = lit ''*.'' @ e"
      using normalize_dns_name[OF d] ne strip_prefix_self[of "lit ''*.''" e]
      by (simp add: normalize_pattern_def Let_def SubdomainsOnly tr strip_double_star)
    then show ?thesis
      using t ne strip_prefix_self[of "lit ''*.''" e]
      by (simp add: policy_pattern_def parse_domain_pattern_def Let_def tr strip_double_star parse_domain_def SubdomainsOnly)
  next
    case (ApexAndSubdomains e)
    have tr: "trim (lit ''**.'' @ e) = lit ''**.'' @ e" using trim_star_domain[of e "[42, 46]"] d by (simp add: ApexAndSubdomains lit_simps)
    have "normalize_pattern (render_pattern q) = lit ''**.'' @ e"
      using normalize_dns_name[OF d] ne strip_prefix_self[of "lit ''**.''" e]
      by (simp add: normalize_pattern_def Let_def ApexAndSubdomains tr)
    then show ?thesis
      using t ne strip_prefix_self[of "lit ''**.''" e]
      by (simp add: policy_pattern_def parse_domain_pattern_def Let_def tr parse_domain_def ApexAndSubdomains)
  qed
qed

lemma parse_domain_for_constraints_dns:
  assumes "url_host_law url_host" "dns_name d"
  shows "parse_domain_for_constraints url_host d = d"
proof -
  note s = dns_name_set[OF assms(2)] and f = dns_name_facts[OF assms(2)]
  have "\<not> starts_with d [91]" using s(5) f(1) by (cases d) (auto simp: starts_with_def)
  then show ?thesis
    using assms f(1,3) s(1,2,4)
    by (simp add: parse_domain_for_constraints_def Let_def plain_trim[OF s(6)] trim_end_matches_id url_host_law_def)
qed

lemma parse_for_constraints_render:
  assumes "url_host_law url_host" "canonical q"
  shows "parse_for_constraints url_host (render_pattern q) = q"
proof -
  let ?d = "pattern_domain q"
  have d: "dns_name ?d" using assms(2) by (simp add: canonical_def)
  note s = dns_name_set[OF d] and ne = dns_name_facts(1)[OF d]
  have t: "trim ?d = ?d" by (rule plain_trim[OF s(6)])
  note p = parse_domain_for_constraints_dns[OF assms(1) d]
  show ?thesis
  proof (cases q)
    case (Exact e)
    then show ?thesis using t p ne strip_prefix_no_star[OF s(2)]
      by (simp add: parse_for_constraints_def Let_def lit_simps)
  next
    case (SubdomainsOnly e)
    have "trim (lit ''*.'' @ e) = lit ''*.'' @ e" using trim_star_domain[of e "[46]"] d by (simp add: SubdomainsOnly lit_simps)
    then show ?thesis using p strip_prefix_self[of "lit ''*.''" e]
      by (simp add: parse_for_constraints_def Let_def strip_double_star SubdomainsOnly)
  next
    case (ApexAndSubdomains e)
    have "trim (lit ''**.'' @ e) = lit ''**.'' @ e" using trim_star_domain[of e "[42, 46]"] d by (simp add: ApexAndSubdomains lit_simps)
    then show ?thesis using p strip_prefix_self[of "lit ''**.''" e]
      by (simp add: parse_for_constraints_def Let_def ApexAndSubdomains)
  qed
qed

lemma normalize_domain_dns: "dns_name d \<Longrightarrow> normalize_domain d = d"
  using dns_name_facts(3) by (simp add: normalize_domain_def trim_end_matches_id dns_name_set(7))

lemma normalize_domain_of_lower:
  assumes "to_ascii_lowercase h = l @ d" "dns_name d"
  shows "normalize_domain h = l @ d"
proof -
  have "h \<noteq> []" using assms dns_name_facts(1)[OF assms(2)] by auto
  have "to_ascii_lowercase_char (last h) = last (to_ascii_lowercase h)"
    using \<open>h \<noteq> []\<close> by (simp add: to_ascii_lowercase_def last_map)
  also have "\<dots> \<noteq> 46" using dns_name_facts(1,3)[OF assms(2)] by (simp add: assms(1))
  finally have "last h \<noteq> 46" by auto
  then show ?thesis by (simp add: normalize_domain_def trim_end_matches_id assms(1))
qed

lemma glob_covers_covers:
  assumes "canonical q" "glob_covers q h"
  shows "covers q h"
proof -
  let ?d = "pattern_domain q"
  have d: "dns_name ?d" using assms(1) by (simp add: canonical_def)
  have star: "?d \<noteq> lit ''*''" using dns_name_set(2)[OF d] by (auto simp: lit_simps)
  have eq: "to_ascii_lowercase h = ?d \<Longrightarrow> normalize_domain h = ?d"
    using normalize_domain_of_lower[of h "[]" ?d] d by simp
  have sub: "to_ascii_lowercase h = l @ 46 # ?d \<Longrightarrow> normalize_domain h = l @ 46 # ?d" for l
    using normalize_domain_of_lower[of h "l @ [46]" ?d] d by simp
  show ?thesis
    using assms(2) eq sub star normalize_domain_dns[OF d] dns_name_set(7)[OF d]
    by (cases q) auto
qed

lemma canonical_proper: "canonical q \<Longrightarrow> proper_domain (pattern_domain q)"
  using dns_name_facts(1,2) normalize_domain_dns by (simp add: canonical_def proper_domain_def)

lemma canonical_plain: "canonical q \<Longrightarrow> plain_pattern (render_pattern q)"
  using dns_name_set(6) by (simp add: plain_pattern_def policy_pattern_render) (simp add: canonical_def)

lemma render_lowercase: "canonical q \<Longrightarrow> to_ascii_lowercase (render_pattern q) = render_pattern q"
  using dns_name_set(7)[of "pattern_domain q"]
  by (cases q) (simp_all add: canonical_def to_ascii_lowercase_def lit_simps to_ascii_lowercase_char_def)

lemma allows_self: "canonical q \<Longrightarrow> allows q q"
  by (cases q) (auto simp: domain_eq_def is_subdomain_or_equal_def)

text \<open>Entries that pass the comparison with a fixed allowlist, written canonically.\<close>

lemma within_allowed_canonical:
  assumes "within_allowed_domains uh con (map render_pattern own) denied" "url_host_law uh"
    and "managed_allowed_domains con = Some (map render_pattern managed)" "allowlist_expansion_enabled con \<noteq> Some True"
    and "list_all canonical managed" "q \<in> set own" "canonical q"
  shows "\<exists>m\<in>set managed. allows m q"
proof (cases "allowlist_expansion_enabled con")
  case None
  then have "\<exists>m\<in>set managed. allows (parse_for_constraints uh (render_pattern m)) (parse_for_constraints uh (render_pattern q))"
    using assms(1,3,6) by (auto simp: within_allowed_domains_def)
  then show ?thesis using parse_for_constraints_render[OF assms(2)] assms(5,7) by (auto simp: list_all_iff)
next
  case (Some b)
  then have "lowercase_set (map render_pattern own) \<subseteq> lowercase_set (map render_pattern managed)"
    using assms(1,3,4) by (auto simp: within_allowed_domains_def)
  then have "to_ascii_lowercase (render_pattern q) \<in> lowercase_set (map render_pattern managed)"
    using assms(6) by (auto simp: lowercase_set_def)
  then obtain m where m: "m \<in> set managed" "to_ascii_lowercase (render_pattern m) = to_ascii_lowercase (render_pattern q)"
    by (auto simp: lowercase_set_def)
  have "canonical m" using m(1) assms(5) by (simp add: list_all_iff)
  then have "render_pattern m = render_pattern q" using m(2) render_lowercase[of m] render_lowercase[OF assms(7)] by metis
  then have "m = q" using policy_pattern_render[OF \<open>canonical m\<close>] policy_pattern_render[OF assms(7)] by metis
  with m(1) allows_self[OF assms(7)] show ?thesis by blast
qed

text \<open>
  C8 No host beyond the managed allowlist: when the constraints in force fix the allowlist, do not let it be expanded (whether
  they say so or leave the setting out), and its
  entries and the user's are canonical patterns (lower case DNS names, alone or below a subdomain wildcard), every host name that the proxy lets through, in any state
  it can reach, is covered by a managed pattern.
\<close>
theorem no_host_beyond_managed:
  assumes "reachable px broker (st, ops)" "glob_laws (px_globs px)" "url_host_law (px_url_host px)"
    "managed_allowed_domains (st_constraints st) = Some (map render_pattern managed)"
    "allowlist_expansion_enabled (st_constraints st) \<noteq> Some True" "list_all canonical managed"
    "entries_or_empty (allowed_domains (st_config st)) = map render_pattern own" "list_all canonical own"
    "host_parse raw = Some h" "is_ascii h" "unscoped_ip_literal h = None"
    "host_blocked (px_globs px) dns st raw port = Allowed"
  shows "\<exists>m\<in>set managed. covers m h"
proof -
  from reachable_good[OF assms(1)] have g: "good_state px broker st" by (simp add: good_system_def)
  have "list_all plain_pattern (entries_or_empty (allowed_domains (st_config st)))"
    using assms(8) by (auto simp: assms(7) list_all_iff canonical_plain)
  then have m: "globset_matches_host_or_unscoped (px_globs px) (st_allow_set st) h \<longleftrightarrow>
      listed (entries_or_empty (allowed_domains (st_config st))) h"
    using g globset_matches_listed[OF assms(2) _ _ assms(10)]
    unfolding good_state_def compiled_from_config_def compile_allowlist_globset_def by blast
  have "globset_matches_host_or_unscoped (px_globs px) (st_allow_set st) h"
    using assms(12) by (auto simp: host_blocked_def assms(9) Let_def split: if_splits)
  then obtain q where q: "q \<in> set own" "glob_covers (policy_pattern (render_pattern q)) h"
    unfolding m using assms(7,11) by (auto simp: listed_def)
  have cq: "canonical q" using q(1) assms(8) by (simp add: list_all_iff)
  have "covers q h" using q(2) glob_covers_covers[OF cq] by (simp add: policy_pattern_render[OF cq])
  from g have "within_allowed_domains (px_url_host px) (st_constraints st) (map render_pattern own)
      (entries_or_empty (denied_domains (st_config st)))"
    by (simp add: good_state_def within_limits_iff within_constraints_def assms(7))
  from within_allowed_canonical[OF this assms(3,4,5,6) q(1) cq]
  obtain m where m: "m \<in> set managed" "allows m q" by blast
  with allows_covers[OF canonical_proper[OF cq]] \<open>covers q h\<close> show ?thesis by blast
qed

text \<open>
  Without canonical entries the comparison has a gap: an entry with a port parses to no domain for the
  comparison, so every such entry passes next to a managed one, while the compiled pattern drops the port.
\<close>

lemma port_entries_compare_equal:
  assumes "url_host (lit ''intranet.example:443'') = None" "url_host (lit ''evil.example:443'') = None"
  shows "allows (parse_for_constraints url_host (lit ''intranet.example:443''))
      (parse_for_constraints url_host (lit ''evil.example:443'')) \<and>
    policy_pattern (lit ''evil.example:443'') = Exact (lit ''evil.example'')"
proof -
  have none: "parse_for_constraints url_host s = Exact []"
    if "url_host s = None" "trim s = s" "trim_end_matches 46 s = s" "s \<noteq> []" "\<not> starts_with s [91]"
      "42 \<notin> set s \<and> 63 \<notin> set s \<and> 37 \<notin> set s" for s
    using that strip_prefix_no_star[of s]
    by (simp add: parse_for_constraints_def parse_domain_for_constraints_def Let_def lit_simps)
  have "parse_for_constraints url_host (lit ''intranet.example:443'') = Exact []"
    by (rule none[OF assms(1)]; code_simp)
  moreover have "parse_for_constraints url_host (lit ''evil.example:443'') = Exact []"
    by (rule none[OF assms(2)]; code_simp)
  moreover have "policy_pattern (lit ''evil.example:443'') = Exact (lit ''evil.example'')" by code_simp
  ultimately show ?thesis by (simp add: domain_eq_def)
qed

section \<open>An example\<close>

definition example_proxy :: "(str, str list, str, str, unit) proxy_env" where
  "example_proxy =
     \<lparr>px_globs = simple_glob_engine, px_mitm = example_mitm_env, px_url_host = Some, px_mitm_state = (\<lambda>_. Some ())\<rparr>"

definition example_config :: "unit network_proxy_config" where
  "example_config =
     default_config\<lparr>domains := Some [(lit ''api.good.com'', PermAllow), (lit ''**.EVIL.com'', PermDeny), (lit ''Bad.org'', PermDeny)],
                    allow_local_binding := True\<rparr>"

definition example_constraints :: network_proxy_constraints where
  "example_constraints =
     no_constraints\<lparr>managed_allowed_domains := Some [lit ''**.good.com''], managed_denied_domains := Some [lit ''**.evil.com'']\<rparr>"

lemma example_loaded:
  "\<exists>st :: (unit, str list, unit, str, str, str) config_state.
     loaded example_proxy st \<and> st_config st = example_config \<and> st_constraints st = example_constraints \<and>
     st_deny_set st = [lit ''evil.com'', lit ''?*.evil.com'', lit ''bad.org''] \<and> st_allow_set st = [lit ''api.good.com'']"
proof -
  have "is_ok (build_config_state example_proxy example_config example_constraints)" by code_simp
  then obtain st where st: "build_config_state example_proxy example_config example_constraints = Inr st"
    by (cases "build_config_state example_proxy example_config example_constraints") auto
  have v: "validate_policy_against_constraints (px_globs example_proxy) (px_mitm example_proxy) (px_url_host example_proxy)
      example_config example_constraints = Inr ()" by code_simp
  have d: "compile_denylist_globset (px_globs example_proxy) (entries_or_empty (denied_domains example_config)) =
      Inr [lit ''evil.com'', lit ''?*.evil.com'', lit ''bad.org'']" by code_simp
  have a: "compile_allowlist_globset (px_globs example_proxy) (entries_or_empty (allowed_domains example_config)) =
      Inr [lit ''api.good.com'']" by code_simp
  from build_config_state_Inr[OF st] st v d a show ?thesis
    by (intro exI[of _ st]) (auto simp: loaded_def compiled_from_config_def)
qed

lemma example_reachable:
  "loaded example_proxy st \<Longrightarrow> st_config st = example_config \<Longrightarrow> reachable example_proxy False (st, [])"
  by (rule reachable.start) (simp_all add: example_config_def default_config_def)

lemma example_globs: "px_globs example_proxy = simple_glob_engine"
  by (simp add: example_proxy_def)

lemma example_lists:
  "entries_or_empty (denied_domains example_config) = [lit ''**.EVIL.com'', lit ''Bad.org'']"
  "entries_or_empty (allowed_domains example_config) = [lit ''api.good.com'']"
  by code_simp+

lemma example_plain:
  "list_all plain_pattern [lit ''**.EVIL.com'', lit ''Bad.org'']" "list_all plain_pattern [lit ''api.good.com'']"
  by code_simp+

lemma example_hosts:
  "host_parse (lit ''WWW.evil.com:443'') = Some (lit ''www.evil.com'')" "is_ascii (lit ''www.evil.com'')"
  "policy_pattern (lit ''**.EVIL.com'') = ApexAndSubdomains (lit ''evil.com'')"
  "policy_pattern (lit ''**.evil.com'') = ApexAndSubdomains (lit ''evil.com'')"
  by code_simp+

lemma example_covered: "glob_covers (ApexAndSubdomains (lit ''evil.com'')) (lit ''www.evil.com'')"
proof -
  have "to_ascii_lowercase (lit ''www.evil.com'') = lit ''www'' @ [46] @ to_ascii_lowercase (lit ''evil.com'')" by code_simp
  moreover have "lit ''www'' \<noteq> []" by code_simp
  ultimately show ?thesis unfolding glob_covers.simps by blast
qed

theorem host_blocked_spec_witness:
  "\<exists>st :: (unit, str list, unit, str, str, str) config_state. \<forall>dns port.
     host_blocked simple_glob_engine dns st (lit ''WWW.evil.com:443'') port = Blocked Denied"
proof -
  obtain st :: "(unit, str list, unit, str, str, str) config_state" where st: "loaded example_proxy st"
    "st_config st = example_config" using example_loaded by blast
  then have c: "compiled_from_config simple_glob_engine st"
    using loaded_good[OF st(1) refl] by (simp add: good_state_def example_globs)
  have "listed [lit ''**.EVIL.com'', lit ''Bad.org''] (lit ''www.evil.com'')"
    using example_covered by (simp add: listed_def example_hosts)
  moreover have "list_all plain_pattern (entries_or_empty (allowed_domains (st_config st)))"
    "list_all plain_pattern (entries_or_empty (denied_domains (st_config st)))"
    by (simp_all only: st(2) example_lists example_plain)
  ultimately show ?thesis
    using host_blocked_spec[OF simple_glob_laws c refl _ refl _ example_hosts(1,2)]
    unfolding st(2) example_lists by (intro exI[of _ st]) simp
qed

theorem runtime_within_constraints_witness:
  "\<exists>st ops. reachable example_proxy False (st :: (unit, str list, unit, str, str, str) config_state, ops) \<and> ops \<noteq> [] \<and>
     validate_policy_against_constraints simple_glob_engine example_mitm_env Some (st_config st) (st_constraints st) = Inr ()"
proof -
  obtain st :: "(unit, str list, unit, str, str, str) config_state" where st: "loaded example_proxy st"
    "st_config st = example_config" using example_loaded by blast
  have r: "reachable example_proxy False (st, [] @ [ModeStart LimitedMode])"
    using example_reachable[OF st] step.begin_mode by (rule reachable.run)
  from runtime_within_constraints[OF r] r show ?thesis
    by (intro exI[of _ st] exI[of _ "[] @ [ModeStart LimitedMode]"]) (simp add: example_proxy_def)
qed

theorem undisturbed_update_finishes_witness:
  "\<exists>st st' :: (unit, str list, unit, str, str, str) config_state. \<exists>r.
     (step example_proxy False)\<^sup>*\<^sup>* (st, [ModeStart LimitedMode]) (st', [Finished r])"
proof -
  fix st :: "(unit, str list, unit, str, str, str) config_state"
  have "\<exists>st' r. (step example_proxy False)\<^sup>*\<^sup>* (st, [ModeStart LimitedMode]) (st', [Finished r])"
    using undisturbed_update_finishes[of 0 "[ModeStart LimitedMode]" LimitedMode "[]" AllowList example_proxy False st]
    by simp
  then show ?thesis by (rule exI)
qed

theorem managed_denial_stands_witness:
  "\<exists>st :: (unit, str list, unit, str, str, str) config_state. \<forall>dns port.
     host_blocked simple_glob_engine dns st (lit ''WWW.evil.com:443'') port = Blocked Denied"
proof -
  obtain st :: "(unit, str list, unit, str, str, str) config_state" where st: "loaded example_proxy st"
    "st_config st = example_config" "st_constraints st = example_constraints" using example_loaded by blast
  have m: "managed_denied_domains (st_constraints st) = Some [lit ''**.evil.com'']"
    by (simp add: st(3) example_constraints_def no_constraints_def)
  have l: "glob_laws (px_globs example_proxy)" by (simp add: example_globs simple_glob_laws)
  have p: "list_all plain_pattern (entries_or_empty (denied_domains (st_config st)))"
    by (simp only: st(2) example_lists example_plain)
  from managed_denial_stands[OF example_reachable[OF st(1,2)] l m _ p example_hosts(1,2), of "lit ''**.evil.com''"]
  show ?thesis using example_covered by (auto simp: example_hosts example_globs)
qed

theorem add_denied_domain_blocks_witness:
  "\<exists>st :: (unit, str list, unit, str, str, str) config_state. \<forall>dns port.
     host_blocked simple_glob_engine dns st (lit ''bad.ORG'') port = Blocked Denied"
proof -
  obtain st :: "(unit, str list, unit, str, str, str) config_state" where st: "loaded example_proxy st"
    "st_config st = example_config" using example_loaded by blast
  have c: "compiled_from_config (px_globs example_proxy) st"
    using loaded_good[OF st(1) refl] by (simp add: good_state_def)
  have l: "glob_laws (px_globs example_proxy)" by (simp add: example_globs simple_glob_laws)
  have p: "list_all plain_pattern (entries_or_empty (denied_domains (st_config st)))"
    by (simp only: st(2) example_lists example_plain)
  have h: "host_parse (lit ''bad.ORG'') = Some (lit ''bad.org'')" "plain (lit ''bad.org'')"
    "normalize_host (lit ''bad.org'') = lit ''bad.org''" by code_simp+
  have "list_ex (\<lambda>e. normalize_host e = lit ''bad.org'') (list_entries DenyList example_config)"
    "\<not> list_ex (\<lambda>e. normalize_host e = lit ''bad.org'') (opposite_entries DenyList example_config)" by code_simp+
  then have "update_domain_list example_proxy (lit ''bad.ORG'') DenyList st = Inr (Some st)"
    by (simp add: update_domain_list_def h prepare_domain_update_def st(2))
  from add_denied_domain_blocks[OF l c p h this] show ?thesis by (auto simp: example_globs)
qed

theorem no_host_beyond_managed_witness:
  "\<exists>m\<in>set [ApexAndSubdomains (lit ''good.com'')]. covers m (lit ''api.good.com'')"
proof -
  obtain st :: "(unit, str list, unit, str, str, str) config_state" where st: "loaded example_proxy st"
    "st_config st = example_config" "st_constraints st = example_constraints"
    "st_deny_set st = [lit ''evil.com'', lit ''?*.evil.com'', lit ''bad.org'']" "st_allow_set st = [lit ''api.good.com'']"
    using example_loaded by blast
  let ?h = "lit ''api.good.com''"
  have m: "managed_allowed_domains (st_constraints st) = Some (map render_pattern [ApexAndSubdomains (lit ''good.com'')])"
    "allowlist_expansion_enabled (st_constraints st) \<noteq> Some True"
    by (simp_all add: st(3) example_constraints_def no_constraints_def lit_simps)
  have o: "entries_or_empty (allowed_domains (st_config st)) = map render_pattern [Exact ?h]"
    by (simp add: st(2) example_lists)
  have c: "list_all canonical [ApexAndSubdomains (lit ''good.com'')]" "list_all canonical [Exact ?h]" by code_simp+
  have h: "host_parse ?h = Some ?h" "is_ascii ?h" "unscoped_ip_literal ?h = None" by code_simp+
  have l: "glob_laws (px_globs example_proxy)" "url_host_law (px_url_host example_proxy)"
    by (simp_all add: example_globs simple_glob_laws url_host_law_def example_proxy_def)
  have "\<not> globset_matches_host_or_unscoped simple_glob_engine [lit ''evil.com'', lit ''?*.evil.com'', lit ''bad.org''] ?h"
    "globset_matches_host_or_unscoped simple_glob_engine [?h] ?h" "allowed_domains example_config \<noteq> None"
    "allow_local_binding example_config" by code_simp+
  then have "host_blocked (px_globs example_proxy) (\<lambda>_ _. LookupFailed) st ?h 443 = Allowed"
    by (simp add: host_blocked_def h Let_def st example_globs)
  from no_host_beyond_managed[OF example_reachable[OF st(1,2)] l m c(1) o c(2) h this] show ?thesis .
qed

end
