(* ===== verification/SeekSequence.thy ===== *)
theory SeekSequence
  imports RustStr
begin

text \<open>
  The line matcher of apply-patch, \<open>seek_sequence\<close> in
  codex-rs/apply-patch/src/seek_sequence.rs: it looks for a block of lines in a file
  in four passes of decreasing strictness (exact, ignoring trailing whitespace,
  ignoring surrounding whitespace, and after mapping typographic punctuation to
  ASCII). The passes are the same scan under four views of a line; the locale
  \<open>coarser_view\<close> states when one view identifies whatever another does, and carries
  the facts about two successive passes.
\<close>

section \<open>The code\<close>

definition normalise_char :: "uchar \<Rightarrow> uchar" where
  "normalise_char c =
     (if c \<in> {0x2010, 0x2011, 0x2012, 0x2013, 0x2014, 0x2015, 0x2212} then 45
      else if c \<in> {0x2018, 0x2019, 0x201A, 0x201B} then 39
      else if c \<in> {0x201C, 0x201D, 0x201E, 0x201F} then 34
      else if c \<in> {0xA0, 0x2002, 0x2003, 0x2004, 0x2005, 0x2006, 0x2007, 0x2008, 0x2009, 0x200A,
                   0x202F, 0x205F, 0x3000} then 32
      else c)"

definition normalise :: "str \<Rightarrow> str" where
  "normalise s = map normalise_char (trim s)"

text \<open>One pass of the inner loop at position \<open>i\<close>: every line of the pattern agrees with
  the line of the file that it is put on, under the view \<open>f\<close> of a line. The slice of the
  exact pass and the indexing of the others are in range for \<open>i + pattern.len() \<le> lines.len()\<close>,
  which the loop bounds give.\<close>

definition match_at :: "(str \<Rightarrow> 'a) \<Rightarrow> str list \<Rightarrow> str list \<Rightarrow> nat \<Rightarrow> bool" where
  "match_at f lns pat i = list_all (\<lambda>(p_idx, p). f (lns ! (i + p_idx)) = f p) (enumerate 0 pat)"

text \<open>One \<open>for\<close> loop over the start positions.\<close>

definition seek_pass :: "(str \<Rightarrow> 'a) \<Rightarrow> str list \<Rightarrow> str list \<Rightarrow> nat \<Rightarrow> nat option" where
  "seek_pass f lns pat search_start =
     find (match_at f lns pat) [search_start ..< Suc (length lns - length pat)]"

text \<open>The position the loops start from.\<close>

definition search_from :: "str list \<Rightarrow> str list \<Rightarrow> nat \<Rightarrow> bool \<Rightarrow> nat" where
  "search_from lns pat start eof =
     (if eof \<and> length pat \<le> length lns then length lns - length pat else start)"

definition seek_sequence :: "str list \<Rightarrow> str list \<Rightarrow> nat \<Rightarrow> bool \<Rightarrow> nat option" where
  "seek_sequence lns pat start eof =
     (if pat = [] then Some start
      else if length pat > length lns then None
      else
        let search_start = search_from lns pat start eof
        in case seek_pass (\<lambda>l. l) lns pat search_start of
             Some i \<Rightarrow> Some i
           | None \<Rightarrow>
        (case seek_pass trim_end lns pat search_start of
             Some i \<Rightarrow> Some i
           | None \<Rightarrow>
        (case seek_pass trim lns pat search_start of
             Some i \<Rightarrow> Some i
           | None \<Rightarrow> seek_pass normalise lns pat search_start)))"

lemmas seek_eval = seek_sequence_def search_from_def seek_pass_def match_at_def normalise_def normalise_char_def upt_rec

section \<open>One pass\<close>

lemma match_at_iff:
  "match_at f lns pat i \<longleftrightarrow> (\<forall>k<length pat. f (lns ! (i + k)) = f (pat ! k))"
  by (simp add: match_at_def list_all_enumerate)

lemma match_at_block:
  "i + length pat \<le> length lns \<Longrightarrow>
   match_at f lns pat i \<longleftrightarrow> map f (take (length pat) (drop i lns)) = map f pat"
  by (simp add: match_at_iff list_eq_iff_nth_eq min_absorb2)

lemma seek_pass_Some:
  "seek_pass f lns pat s = Some i \<longleftrightarrow>
     s \<le> i \<and> i \<le> length lns - length pat \<and> match_at f lns pat i \<and>
     (\<forall>j. s \<le> j \<longrightarrow> j < i \<longrightarrow> \<not> match_at f lns pat j)"
  unfolding seek_pass_def find_upt_Some by auto

lemma seek_pass_None:
  "seek_pass f lns pat s = None \<longleftrightarrow>
     (\<forall>j. s \<le> j \<longrightarrow> j \<le> length lns - length pat \<longrightarrow> \<not> match_at f lns pat j)"
  unfolding seek_pass_def find_upt_None by (simp add: less_Suc_eq_le)

lemma seek_pass_in_range:
  "seek_pass f lns pat s = Some i \<Longrightarrow> length pat \<le> length lns \<Longrightarrow> i + length pat \<le> length lns"
  by (auto simp: seek_pass_Some)

section \<open>Successive passes\<close>

locale coarser_view =
  fixes f :: "str \<Rightarrow> 'a" and g :: "str \<Rightarrow> 'b"
  assumes coarser: "f x = f y \<Longrightarrow> g x = g y"
begin

lemma match_at_mono: "match_at f lns pat i \<Longrightarrow> match_at g lns pat i"
  by (auto simp: match_at_iff intro: coarser)

lemma pass_none_mono: "seek_pass g lns pat s = None \<Longrightarrow> seek_pass f lns pat s = None"
  by (auto simp: seek_pass_None dest: match_at_mono)

lemma pass_le: "seek_pass f lns pat s = Some i \<Longrightarrow> \<exists>j\<le>i. seek_pass g lns pat s = Some j"
proof -
  assume a: "seek_pass f lns pat s = Some i"
  then have "seek_pass g lns pat s \<noteq> None"
    using pass_none_mono by (metis option.distinct(1))
  then obtain j where j: "seek_pass g lns pat s = Some j" by blast
  have "j \<le> i"
  proof (rule ccontr)
    assume "\<not> j \<le> i"
    with a j show False by (auto simp: seek_pass_Some dest: match_at_mono)
  qed
  with j show ?thesis by blast
qed

end

lemma normalise_of_trim_eq: "trim x = trim y \<Longrightarrow> normalise x = normalise y"
  by (simp add: normalise_def)

interpretation exact_rstrip: coarser_view "\<lambda>l. l" trim_end
  by unfold_locales simp

interpretation rstrip_trim: coarser_view trim_end trim
  by unfold_locales (rule trim_of_trim_end_eq)

interpretation trim_norm: coarser_view trim normalise
  by unfold_locales (rule normalise_of_trim_eq)

lemmas view_mono = exact_rstrip.match_at_mono rstrip_trim.match_at_mono trim_norm.match_at_mono

section \<open>The whole search\<close>

lemma seek_sequence_Nil [simp]: "seek_sequence lns [] start eof = Some start"
  by (simp add: seek_sequence_def)

lemma seek_sequence_cases:
  assumes "seek_sequence lns pat start eof = Some i" and "pat \<noteq> []"
  shows "length pat \<le> length lns"
    and "seek_pass (\<lambda>l. l) lns pat (search_from lns pat start eof) = Some i \<or>
         seek_pass trim_end lns pat (search_from lns pat start eof) = Some i \<or>
         seek_pass trim lns pat (search_from lns pat start eof) = Some i \<or>
         seek_pass normalise lns pat (search_from lns pat start eof) = Some i"
  using assms by (auto simp: seek_sequence_def Let_def split: if_splits option.splits)

lemma seek_sequence_bounds:
  assumes "seek_sequence lns pat start eof = Some i" and "pat \<noteq> []"
  shows "i + length pat \<le> length lns"
  using seek_sequence_cases[OF assms] seek_pass_in_range by metis

lemma seek_sequence_ge_from:
  assumes "seek_sequence lns pat start eof = Some i" and "pat \<noteq> []"
  shows "search_from lns pat start eof \<le> i"
  using seek_sequence_cases(2)[OF assms] by (auto simp: seek_pass_Some)

lemma seek_sequence_ge_start:
  assumes "seek_sequence lns pat start False = Some i"
  shows "start \<le> i"
  using assms seek_sequence_ge_from[OF assms] by (cases "pat = []") (auto simp: search_from_def)

text \<open>
  Soundness of the fuzzy line search: a hit for a non-empty pattern lies inside the
  file, at or after the requested start (in the end-of-file mode: at the last position where
  the pattern fits), and the file lines there equal the pattern lines up to surrounding
  whitespace and typographic punctuation.
\<close>

theorem seek_sequence_sound:
  assumes "seek_sequence lns pat start eof = Some i" and "pat \<noteq> []"
  shows "i + length pat \<le> length lns \<and>
         (if eof then i = length lns - length pat else start \<le> i) \<and>
         map normalise (take (length pat) (drop i lns)) = map normalise pat"
proof -
  note c = seek_sequence_cases[OF assms]
  note b = seek_sequence_bounds[OF assms]
  have "match_at normalise lns pat i"
    using c(2) by (auto simp: seek_pass_Some dest: view_mono)
  moreover have "if eof then i = length lns - length pat else start \<le> i"
    using c(1) b seek_sequence_ge_from[OF assms] by (auto simp: search_from_def)
  ultimately show ?thesis using b by (simp add: match_at_block)
qed

text \<open>
  Completeness and strictness of the search: it fails exactly when no position from the
  search start on matches even under the most lenient view, and whenever some position
  matches exactly, the result is an exact match, no later than it.
\<close>

theorem seek_sequence_complete:
  assumes "pat \<noteq> []" and "length pat \<le> length lns"
  shows "(seek_sequence lns pat start eof = None \<longleftrightarrow>
          (\<forall>j. search_from lns pat start eof \<le> j \<longrightarrow> j + length pat \<le> length lns \<longrightarrow>
               map normalise (take (length pat) (drop j lns)) \<noteq> map normalise pat)) \<and>
         (\<forall>i. search_from lns pat start eof \<le> i \<and> i + length pat \<le> length lns \<and>
              take (length pat) (drop i lns) = pat \<longrightarrow>
          (\<exists>j\<le>i. seek_sequence lns pat start eof = Some j \<and> take (length pat) (drop j lns) = pat))"
proof -
  let ?s = "search_from lns pat start eof"
  have unf: "seek_sequence lns pat start eof =
     (case seek_pass (\<lambda>l. l) lns pat ?s of Some i \<Rightarrow> Some i | None \<Rightarrow>
      (case seek_pass trim_end lns pat ?s of Some i \<Rightarrow> Some i | None \<Rightarrow>
      (case seek_pass trim lns pat ?s of Some i \<Rightarrow> Some i | None \<Rightarrow>
       seek_pass normalise lns pat ?s)))"
    using assms by (simp add: seek_sequence_def Let_def)
  have "seek_sequence lns pat start eof = None \<longleftrightarrow> seek_pass normalise lns pat ?s = None"
    unfolding unf
    using trim_norm.pass_none_mono[of lns pat ?s] rstrip_trim.pass_none_mono[of lns pat ?s]
      exact_rstrip.pass_none_mono[of lns pat ?s]
    by (cases "seek_pass normalise lns pat ?s") (auto split: option.splits)
  also have "\<dots> \<longleftrightarrow> (\<forall>j. ?s \<le> j \<longrightarrow> j + length pat \<le> length lns \<longrightarrow>
      map normalise (take (length pat) (drop j lns)) \<noteq> map normalise pat)"
    using assms(2) by (auto simp: seek_pass_None le_diff_conv2 match_at_block)
  finally have A: "seek_sequence lns pat start eof = None \<longleftrightarrow> \<dots>" .
  have B: "\<exists>j\<le>i. seek_sequence lns pat start eof = Some j \<and> take (length pat) (drop j lns) = pat"
    if i: "?s \<le> i" "i + length pat \<le> length lns" "take (length pat) (drop i lns) = pat" for i
  proof -
    have m: "match_at (\<lambda>l. l) lns pat i" using i by (simp add: match_at_block)
    then have "seek_pass (\<lambda>l. l) lns pat ?s \<noteq> None"
      using i by (auto simp: seek_pass_None)
    then obtain j where j: "seek_pass (\<lambda>l. l) lns pat ?s = Some j" by blast
    then have "j \<le> i" "match_at (\<lambda>l. l) lns pat j" "j + length pat \<le> length lns"
      using m i assms(2) by (auto simp: seek_pass_Some not_less[symmetric])
    with j show ?thesis unfolding unf by (auto simp: match_at_block)
  qed
  show ?thesis using A B by blast
qed

text \<open>
  The end-of-file mode looks at one position only: the documented fallback to the start
  position does not exist, so a line that the same search without the mode finds is missed.
\<close>

theorem seek_sequence_eof_no_fallback:
  "seek_sequence [lit ''a'', lit ''b''] [lit ''a''] 0 True = None \<and>
   seek_sequence [lit ''a'', lit ''b''] [lit ''a''] 0 False = Some 0"
  by (simp add: seek_eval run_simps)


theorem seek_sequence_sound_witness:
  "map normalise (take 1 (drop 1 [lit ''x'', [0x2018] @ lit ''y  ''])) = map normalise [lit ''  '' @ [39] @ lit ''y'']"
proof -
  have h: "seek_sequence [lit ''x'', [0x2018] @ lit ''y  ''] [lit ''  '' @ [39] @ lit ''y''] 0 False = Some 1"
    by (simp add: seek_eval run_simps)
  show ?thesis using seek_sequence_sound[OF h] by simp
qed

theorem seek_sequence_complete_witness:
  "\<exists>j\<le>1. seek_sequence [lit ''x'', lit ''y''] [lit ''y''] 0 False = Some j"
  using seek_sequence_complete[of "[lit ''y'']" "[lit ''x'', lit ''y'']" 0 False]
  by (auto simp: search_from_def)

end
