(* ===== verification/PatchParser.thy ===== *)
theory PatchParser
  imports RustStr
begin

text \<open>
  The parser of the apply-patch format: the data of codex-rs/apply-patch/src/parser.rs
  (hunks, chunks, parse errors), the streaming state machine
  \<open>StreamingPatchParser\<close> of codex-rs/apply-patch/src/streaming\_parser.rs and the entry
  point \<open>parse_patch\<close> with its lenient heredoc handling. A \<open>PathBuf\<close> is the string it was
  made from; \<open>path.display()\<close> prints that string. The private struct
  \<open>StreamingParserState\<close> is inlined into the parser record. Every operation returns its
  result together with the parser, so that the state after an error is modelled as well.
\<close>

section \<open>Markers, errors and hunks\<close>

definition BEGIN_PATCH_MARKER :: str where "BEGIN_PATCH_MARKER = lit ''*** Begin Patch''"
definition END_PATCH_MARKER :: str where "END_PATCH_MARKER = lit ''*** End Patch''"
definition ADD_FILE_MARKER :: str where "ADD_FILE_MARKER = lit ''*** Add File: ''"
definition DELETE_FILE_MARKER :: str where "DELETE_FILE_MARKER = lit ''*** Delete File: ''"
definition UPDATE_FILE_MARKER :: str where "UPDATE_FILE_MARKER = lit ''*** Update File: ''"
definition MOVE_TO_MARKER :: str where "MOVE_TO_MARKER = lit ''*** Move to: ''"
definition EOF_MARKER :: str where "EOF_MARKER = lit ''*** End of File''"
definition CHANGE_CONTEXT_MARKER :: str where "CHANGE_CONTEXT_MARKER = lit ''@@ ''"
definition EMPTY_CHANGE_CONTEXT_MARKER :: str where "EMPTY_CHANGE_CONTEXT_MARKER = lit ''@@''"
definition ENVIRONMENT_ID_MARKER :: str where "ENVIRONMENT_ID_MARKER = lit ''*** Environment ID:''"

lemmas marker_defs = BEGIN_PATCH_MARKER_def END_PATCH_MARKER_def ADD_FILE_MARKER_def
  DELETE_FILE_MARKER_def UPDATE_FILE_MARKER_def MOVE_TO_MARKER_def EOF_MARKER_def
  CHANGE_CONTEXT_MARKER_def EMPTY_CHANGE_CONTEXT_MARKER_def ENVIRONMENT_ID_MARKER_def

datatype parse_error =
    InvalidPatchError str
  | InvalidHunkError str nat \<comment> \<open>message and line number\<close>

record update_file_chunk =
  change_context :: "str option"
  old_lines :: "str list"
  new_lines :: "str list"
  is_end_of_file :: bool

datatype hunk =
    AddFile str str
  | DeleteFile str
  | UpdateFile str "str option" "update_file_chunk list"

text \<open>\<open>Hunk::path\<close> and the path that \<open>Hunk::resolve_path\<close> joins to the working directory.\<close>

fun hunk_path :: "hunk \<Rightarrow> str" where
  "hunk_path (AddFile p _) = p"
| "hunk_path (DeleteFile p) = p"
| "hunk_path (UpdateFile _ (Some p) _) = p"
| "hunk_path (UpdateFile p None _) = p"

fun hunk_source_path :: "hunk \<Rightarrow> str" where
  "hunk_source_path (UpdateFile p _ _) = p"
| "hunk_source_path h = hunk_path h"

section \<open>The streaming parser\<close>

datatype parser_mode =
    NotStarted | StartedPatch | AddFileMode | DeleteFileMode
  | UpdateFileMode nat \<comment> \<open>line number of the hunk header\<close>
  | EndedPatch

record patch_parser =
  line_buffer :: str
  line_number :: nat
  mode :: parser_mode
  hunks :: "hunk list"
  environment_id :: "str option"

definition new_patch_parser :: patch_parser where
  "new_patch_parser = \<lparr>line_buffer = [], line_number = 0, mode = NotStarted, hunks = [],
     environment_id = None\<rparr>"

definition msg_first_line :: str where
  "msg_first_line = lit ''The first line of the patch must be '' @ quoted BEGIN_PATCH_MARKER"

definition msg_last_line :: str where
  "msg_last_line = lit ''The last line of the patch must be '' @ quoted END_PATCH_MARKER"

definition msg_no_lines :: str where
  "msg_no_lines = lit ''Update hunk does not contain any lines''"

definition msg_unexpected :: "str \<Rightarrow> str" where
  "msg_unexpected line = lit ''Unexpected line found in update hunk: '' @ quoted line @
     lit ''. Every line should start with '' @ quoted (lit '' '') @ lit '' (context line), '' @
     quoted (lit ''+'') @ lit '' (added line), or '' @ quoted (lit ''-'') @ lit '' (removed line)''"

definition msg_expected_marker :: "str \<Rightarrow> str" where
  "msg_expected_marker line =
     lit ''Expected update hunk to start with a @@ context marker, got: '' @ quoted line"

definition msg_empty_update :: "str \<Rightarrow> str" where
  "msg_empty_update path = lit ''Update file hunk for path '' @ quoted path @ lit '' is empty''"

definition msg_bad_header :: "str \<Rightarrow> str" where
  "msg_bad_header line = quoted line @ lit '' is not a valid hunk header. Valid hunk headers: '' @
     quoted (lit ''*** Add File: {path}'') @ lit '', '' @ quoted (lit ''*** Delete File: {path}'') @
     lit '', '' @ quoted (lit ''*** Update File: {path}'')"

definition chunk_is_empty :: "update_file_chunk \<Rightarrow> bool" where
  "chunk_is_empty c \<longleftrightarrow> old_lines c = [] \<and> new_lines c = []"

definition ensure_update_hunk_is_not_empty :: "patch_parser \<Rightarrow> str \<Rightarrow> parse_error + unit" where
  "ensure_update_hunk_is_not_empty p line =
     (case last_opt (hunks p) of
        Some (UpdateFile path mv chunks) \<Rightarrow>
          (case (chunks, mode p) of
             ([], UpdateFileMode n) \<Rightarrow> Inl (InvalidHunkError (msg_empty_update path) n)
           | _ \<Rightarrow>
             (case last_opt chunks of
                Some c \<Rightarrow>
                  if chunk_is_empty c then
                    if line = END_PATCH_MARKER then Inl (InvalidHunkError msg_no_lines (line_number p))
                    else Inl (InvalidHunkError (msg_unexpected line) (line_number p))
                  else Inr ()
              | None \<Rightarrow> Inr ()))
      | _ \<Rightarrow> Inr ())"

text \<open>The four branches that a header line takes; \<open>Inr False\<close> when the line is no header.\<close>

definition push_hunk :: "patch_parser \<Rightarrow> str \<Rightarrow> hunk \<Rightarrow> parser_mode \<Rightarrow> (parse_error + bool) \<times> patch_parser" where
  "push_hunk p line h m =
     (case ensure_update_hunk_is_not_empty p line of
        Inl e \<Rightarrow> (Inl e, p)
      | Inr _ \<Rightarrow> (Inr True, p\<lparr>hunks := hunks p @ [h], mode := m\<rparr>))"

definition handle_hunk_headers_and_end_patch ::
    "patch_parser \<Rightarrow> str \<Rightarrow> (parse_error + bool) \<times> patch_parser" where
  "handle_hunk_headers_and_end_patch p line =
     (case (mode p, strip_prefix line ENVIRONMENT_ID_MARKER) of
        (StartedPatch, Some eid) \<Rightarrow>
          if environment_id p \<noteq> None then
            (Inl (InvalidPatchError (lit ''apply_patch environment_id cannot be specified more than once'')), p)
          else if trim eid = [] then
            (Inl (InvalidPatchError (lit ''apply_patch environment_id cannot be empty'')), p)
          else (Inr True, p\<lparr>environment_id := Some (trim eid)\<rparr>)
      | _ \<Rightarrow>
        if line = END_PATCH_MARKER then
          (case ensure_update_hunk_is_not_empty p line of
             Inl e \<Rightarrow> (Inl e, p)
           | Inr _ \<Rightarrow> (Inr True, p\<lparr>mode := EndedPatch\<rparr>))
        else
        (case strip_prefix line ADD_FILE_MARKER of
           Some path \<Rightarrow> push_hunk p line (AddFile path []) AddFileMode
         | None \<Rightarrow>
        (case strip_prefix line DELETE_FILE_MARKER of
           Some path \<Rightarrow> push_hunk p line (DeleteFile path) DeleteFileMode
         | None \<Rightarrow>
        (case strip_prefix line UPDATE_FILE_MARKER of
           Some path \<Rightarrow> push_hunk p line (UpdateFile path None []) (UpdateFileMode (line_number p))
         | None \<Rightarrow> (Inr False, p)))))"

definition fresh_chunk :: "str option \<Rightarrow> update_file_chunk" where
  "fresh_chunk ctx = \<lparr>change_context = ctx, old_lines = [], new_lines = [], is_end_of_file = False\<rparr>"

text \<open>\<open>if chunks.is_empty() { push }\<close> followed by an update of the last chunk.\<close>

definition on_last_chunk :: "(update_file_chunk \<Rightarrow> update_file_chunk) \<Rightarrow> update_file_chunk list \<Rightarrow> update_file_chunk list" where
  "on_last_chunk f chunks = map_last f (if chunks = [] then [fresh_chunk None] else chunks)"

definition add_context_line :: "str \<Rightarrow> update_file_chunk \<Rightarrow> update_file_chunk" where
  "add_context_line l c = c\<lparr>old_lines := old_lines c @ [l], new_lines := new_lines c @ [l]\<rparr>"

definition add_new_line :: "str \<Rightarrow> update_file_chunk \<Rightarrow> update_file_chunk" where
  "add_new_line l c = c\<lparr>new_lines := new_lines c @ [l]\<rparr>"

definition add_old_line :: "str \<Rightarrow> update_file_chunk \<Rightarrow> update_file_chunk" where
  "add_old_line l c = c\<lparr>old_lines := old_lines c @ [l]\<rparr>"

text \<open>
  The body of the update-file branch of \<open>process_line\<close>, on the last hunk: the new move path and
  chunks, or the error. \<open>n\<close> is the line number reported.
\<close>

definition last_chunk_ends_file :: "update_file_chunk list \<Rightarrow> bool" where
  "last_chunk_ends_file chunks \<longleftrightarrow> (case last_opt chunks of Some c \<Rightarrow> is_end_of_file c | None \<Rightarrow> False)"

definition last_chunk_empty :: "update_file_chunk list \<Rightarrow> bool" where
  "last_chunk_empty chunks \<longleftrightarrow> (case last_opt chunks of Some c \<Rightarrow> chunk_is_empty c | None \<Rightarrow> False)"

definition last_chunk_nonempty :: "update_file_chunk list \<Rightarrow> bool" where
  "last_chunk_nonempty chunks \<longleftrightarrow> (case last_opt chunks of Some c \<Rightarrow> \<not> chunk_is_empty c | None \<Rightarrow> False)"

definition is_context_marker :: "str \<Rightarrow> bool" where
  "is_context_marker l \<longleftrightarrow> l = EMPTY_CHANGE_CONTEXT_MARKER \<or> starts_with l CHANGE_CONTEXT_MARKER"

definition update_hunk_line ::
    "nat \<Rightarrow> str \<Rightarrow> str option \<Rightarrow> update_file_chunk list \<Rightarrow> parse_error + (str option \<times> update_file_chunk list)" where
  "update_hunk_line n line move_path chunks =
     (let update_line = trim_end line in
      if last_chunk_ends_file chunks \<and> update_line = [] then Inr (move_path, chunks)
      else if last_chunk_ends_file chunks \<and> \<not> is_context_marker update_line
      then Inl (InvalidHunkError (msg_expected_marker line) n)
      else
      (case if chunks = [] \<and> move_path = None then strip_prefix update_line MOVE_TO_MARKER else None of
         Some dest \<Rightarrow> Inr (Some dest, chunks)
       | None \<Rightarrow>
      if is_context_marker update_line \<and> last_chunk_empty chunks
      then Inl (InvalidHunkError (msg_unexpected line) n)
      else if update_line = EMPTY_CHANGE_CONTEXT_MARKER then Inr (move_path, chunks @ [fresh_chunk None])
      else
      (case strip_prefix update_line CHANGE_CONTEXT_MARKER of
         Some ctx \<Rightarrow> Inr (move_path, chunks @ [fresh_chunk (Some ctx)])
       | None \<Rightarrow>
      if update_line = EOF_MARKER then
        if last_chunk_empty chunks then Inl (InvalidHunkError msg_no_lines n)
        else Inr (move_path, map_last (\<lambda>c. c\<lparr>is_end_of_file := True\<rparr>) chunks)
      else if line = [] then Inr (move_path, on_last_chunk (add_context_line []) chunks)
      else
      (case strip_prefix line (lit '' '') of
         Some l \<Rightarrow> Inr (move_path, on_last_chunk (add_context_line l) chunks)
       | None \<Rightarrow>
      (case strip_prefix line (lit ''+'') of
         Some l \<Rightarrow> Inr (move_path, on_last_chunk (add_new_line l) chunks)
       | None \<Rightarrow>
      (case strip_prefix line (lit ''-'') of
         Some l \<Rightarrow> Inr (move_path, on_last_chunk (add_old_line l) chunks)
       | None \<Rightarrow>
      if last_chunk_nonempty chunks then Inl (InvalidHunkError (msg_expected_marker line) n)
      else Inl (InvalidHunkError (msg_unexpected line) n)))))))"

definition process_line :: "patch_parser \<Rightarrow> str \<Rightarrow> (parse_error + unit) \<times> patch_parser" where
  "process_line p line =
     (let trimmed = trim line in
      case mode p of
        NotStarted \<Rightarrow>
          if trimmed = BEGIN_PATCH_MARKER then (Inr (), p\<lparr>mode := StartedPatch\<rparr>)
          else (Inl (InvalidPatchError msg_first_line), p)
      | StartedPatch \<Rightarrow>
          (case handle_hunk_headers_and_end_patch p trimmed of
             (Inl e, p') \<Rightarrow> (Inl e, p')
           | (Inr True, p') \<Rightarrow> (Inr (), p')
           | (Inr False, p') \<Rightarrow> (Inl (InvalidHunkError (msg_bad_header trimmed) (line_number p')), p'))
      | AddFileMode \<Rightarrow>
          (case handle_hunk_headers_and_end_patch p trimmed of
             (Inl e, p') \<Rightarrow> (Inl e, p')
           | (Inr True, p') \<Rightarrow> (Inr (), p')
           | (Inr False, p') \<Rightarrow>
               (case (strip_prefix line (lit ''+''), last_opt (hunks p')) of
                  (Some l, Some (AddFile path contents)) \<Rightarrow>
                    (Inr (), p'\<lparr>hunks := map_last (\<lambda>_. AddFile path (contents @ l @ [NL])) (hunks p')\<rparr>)
                | _ \<Rightarrow> (Inl (InvalidHunkError (msg_bad_header trimmed) (line_number p')), p')))
      | DeleteFileMode \<Rightarrow>
          (case handle_hunk_headers_and_end_patch p trimmed of
             (Inl e, p') \<Rightarrow> (Inl e, p')
           | (Inr True, p') \<Rightarrow> (Inr (), p')
           | (Inr False, p') \<Rightarrow> (Inl (InvalidHunkError (msg_bad_header trimmed) (line_number p')), p'))
      | UpdateFileMode hunk_line_number \<Rightarrow>
          (case handle_hunk_headers_and_end_patch p (trim_end line) of
             (Inl e, p') \<Rightarrow> (Inl e, p')
           | (Inr True, p') \<Rightarrow> (Inr (), p')
           | (Inr False, p') \<Rightarrow>
               (case last_opt (hunks p') of
                  Some (UpdateFile path mv chunks) \<Rightarrow>
                    (case update_hunk_line (line_number p') line mv chunks of
                       Inl e \<Rightarrow> (Inl e, p')
                     | Inr (mv', chunks') \<Rightarrow>
                         (Inr (), p'\<lparr>hunks := map_last (\<lambda>_. UpdateFile path mv' chunks') (hunks p'),
                                     mode := UpdateFileMode hunk_line_number\<rparr>))
                | _ \<Rightarrow> (Inl (InvalidHunkError (msg_unexpected line) (line_number p')), p')))
      | EndedPatch \<Rightarrow>
          if trimmed = [] then (Inr (), p) else (Inl (InvalidPatchError msg_last_line), p))"

text \<open>The loop of \<open>push_delta\<close> over the characters of a delta.\<close>

fun push_chars :: "patch_parser \<Rightarrow> str \<Rightarrow> (parse_error + unit) \<times> patch_parser" where
  "push_chars p [] = (Inr (), p)"
| "push_chars p (ch # s) =
     (if ch = NL then
        (let line = strip_cr (line_buffer p);
             p1 = p\<lparr>line_buffer := [], line_number := line_number p + 1\<rparr>
         in case process_line p1 line of
              (Inl e, p2) \<Rightarrow> (Inl e, p2)
            | (Inr _, p2) \<Rightarrow> push_chars p2 s)
      else push_chars (p\<lparr>line_buffer := line_buffer p @ [ch]\<rparr>) s)"

definition push_delta :: "patch_parser \<Rightarrow> str \<Rightarrow> (parse_error + hunk list) \<times> patch_parser" where
  "push_delta p delta =
     (case push_chars p delta of
        (Inl e, p') \<Rightarrow> (Inl e, p')
      | (Inr _, p') \<Rightarrow> (Inr (hunks p'), p'))"

text \<open>The unterminated last line at the end of the stream.\<close>

definition finish_buffer :: "patch_parser \<Rightarrow> (parse_error + unit) \<times> patch_parser" where
  "finish_buffer p =
     (if line_buffer p = [] then (Inr (), p)
      else
        (let line = line_buffer p;
             p1 = p\<lparr>line_buffer := [], line_number := line_number p + 1\<rparr>
         in if trim line = END_PATCH_MARKER then
              (case ensure_update_hunk_is_not_empty p1 (trim line) of
                 Inl e \<Rightarrow> (Inl e, p1)
               | Inr _ \<Rightarrow> (Inr (), p1\<lparr>mode := EndedPatch\<rparr>))
            else process_line p1 line))"

definition finish_parser :: "patch_parser \<Rightarrow> (parse_error + hunk list) \<times> patch_parser" where
  "finish_parser p =
     (case finish_buffer p of
        (Inl e, p') \<Rightarrow> (Inl e, p')
      | (Inr _, p') \<Rightarrow>
          if mode p' = EndedPatch then (Inr (hunks p'), p')
          else (Inl (InvalidPatchError msg_last_line), p'))"

section \<open>Parsing a complete patch\<close>

record apply_patch_args =
  args_patch :: str
  args_hunks :: "hunk list"
  args_workdir :: "str option"
  args_environment_id :: "str option"

datatype parse_mode = Strict | Lenient

definition check_start_and_end_lines_strict :: "str option \<Rightarrow> str option \<Rightarrow> parse_error + unit" where
  "check_start_and_end_lines_strict first_line last_line =
     (case (map_option trim first_line, map_option trim last_line) of
        (Some f, Some l) \<Rightarrow>
          if f = BEGIN_PATCH_MARKER \<and> l = END_PATCH_MARKER then Inr ()
          else if f \<noteq> BEGIN_PATCH_MARKER then Inl (InvalidPatchError msg_first_line)
          else Inl (InvalidPatchError msg_last_line)
      | (Some f, None) \<Rightarrow>
          if f \<noteq> BEGIN_PATCH_MARKER then Inl (InvalidPatchError msg_first_line)
          else Inl (InvalidPatchError msg_last_line)
      | _ \<Rightarrow> Inl (InvalidPatchError msg_last_line))"

definition check_patch_boundaries_strict :: "str list \<Rightarrow> parse_error + str list" where
  "check_patch_boundaries_strict lns =
     (case check_start_and_end_lines_strict
             (case lns of [] \<Rightarrow> None | f # _ \<Rightarrow> Some f) (last_opt lns) of
        Inl e \<Rightarrow> Inl e
      | Inr _ \<Rightarrow> Inr lns)"

definition check_patch_boundaries_lenient :: "str list \<Rightarrow> parse_error + str list" where
  "check_patch_boundaries_lenient original_lines =
     (case check_patch_boundaries_strict original_lines of
        Inr lns \<Rightarrow> Inr lns
      | Inl original_parse_error \<Rightarrow>
          (case original_lines of
             first # second # rest \<Rightarrow>
               if first \<in> {lit ''<<EOF'', lit ''<<'' @ quoted (lit ''EOF''), lit ''<<'' @ [34] @ lit ''EOF'' @ [34]}
                  \<and> ends_with (last (second # rest)) (lit ''EOF'') \<and> 4 \<le> length original_lines
               then check_patch_boundaries_strict (butlast (second # rest))
               else Inl original_parse_error
           | _ \<Rightarrow> Inl original_parse_error))"

definition parse_patch_text :: "str \<Rightarrow> parse_mode \<Rightarrow> parse_error + apply_patch_args" where
  "parse_patch_text patch m =
     (case (case m of Strict \<Rightarrow> check_patch_boundaries_strict | Lenient \<Rightarrow> check_patch_boundaries_lenient)
             (str_lines (trim patch)) of
        Inl e \<Rightarrow> Inl e
      | Inr patch_lines \<Rightarrow>
          (let patch' = join [NL] patch_lines in
           case push_delta new_patch_parser patch' of
             (Inl e, _) \<Rightarrow> Inl e
           | (Inr _, p1) \<Rightarrow>
               (case finish_parser p1 of
                  (Inl e, _) \<Rightarrow> Inl e
                | (Inr hs, p2) \<Rightarrow>
                    Inr \<lparr>args_patch = patch', args_hunks = hs, args_workdir = None,
                         args_environment_id = environment_id p2\<rparr>)))"

definition parse_patch :: "str \<Rightarrow> parse_error + apply_patch_args" where
  "parse_patch patch = parse_patch_text patch (if False then Strict else Lenient)"

section \<open>Deltas\<close>

lemma push_chars_append:
  "push_chars p (a @ b) =
     (case push_chars p a of (Inl e, p') \<Rightarrow> (Inl e, p') | (Inr _, p') \<Rightarrow> push_chars p' b)"
proof (induction p a rule: push_chars.induct)
  case (2 p ch s)
  show ?case
  proof (cases "ch = NL")
    case True
    let ?p1 = "p\<lparr>line_buffer := [], line_number := line_number p + 1\<rparr>"
    obtain r p2 where r: "process_line ?p1 (strip_cr (line_buffer p)) = (r, p2)" by fastforce
    show ?thesis
    proof (cases r)
      case (Inl e)
      with r True show ?thesis by (simp add: Let_def)
    next
      case (Inr u)
      with 2(1)[OF True refl refl r[symmetric] Inr] r True show ?thesis by (simp add: Let_def)
    qed
  next
    case False
    with 2(2)[OF False] show ?thesis by simp
  qed
qed simp

text \<open>
  Chunking invariance of the streaming parser: pushing a delta in two pieces is pushing it
  in one, in the result as in the state, and an error in the first piece is final.
\<close>

theorem push_delta_append:
  "push_delta p (a @ b) =
     (case push_delta p a of (Inl e, p') \<Rightarrow> (Inl e, p') | (Inr _, p') \<Rightarrow> push_delta p' b)"
  by (simp add: push_delta_def push_chars_append split: prod.splits sum.splits)

section \<open>Lines\<close>

lemma push_chars_buffer:
  "NL \<notin> set l \<Longrightarrow> push_chars p (l @ s) = push_chars (p\<lparr>line_buffer := line_buffer p @ l\<rparr>) s"
  by (induction l arbitrary: p) auto

text \<open>The lines of a patch one after the other, each ended by a line feed.\<close>

fun process_lines :: "patch_parser \<Rightarrow> str list \<Rightarrow> (parse_error + unit) \<times> patch_parser" where
  "process_lines p [] = (Inr (), p)"
| "process_lines p (l # ls) =
     (case process_line (p\<lparr>line_number := line_number p + 1\<rparr>) l of
        (Inl e, p') \<Rightarrow> (Inl e, p')
      | (Inr _, p') \<Rightarrow> process_lines p' ls)"

definition unlines :: "str list \<Rightarrow> str" where
  "unlines ls = concat (map (\<lambda>l. l @ [NL]) ls)"

lemma unlines_simps [simp]:
  "unlines [] = []" "unlines (l # ls) = l @ NL # unlines ls" "unlines (xs @ ys) = unlines xs @ unlines ys"
  by (simp_all add: unlines_def)

lemma join_unlines: "join [NL] (ls @ [e]) = unlines ls @ e"
  by (induction ls) (auto simp: join_Cons)

lemma handle_line_buffer:
  "handle_hunk_headers_and_end_patch p l = (r, p') \<Longrightarrow> line_buffer p' = line_buffer p"
  by (auto simp: handle_hunk_headers_and_end_patch_def push_hunk_def
      split: option.splits sum.splits if_splits parser_mode.splits)

lemma process_line_buffer: "process_line p l = (r, p') \<Longrightarrow> line_buffer p' = line_buffer p"
  by (cases "mode p")
    (auto simp: process_line_def Let_def dest!: handle_line_buffer
      split: prod.splits sum.splits bool.splits if_splits option.splits hunk.splits)

lemma push_chars_unlines:
  "line_buffer p = [] \<Longrightarrow> \<forall>l\<in>set ls. is_line l \<Longrightarrow>
   push_chars p (unlines ls @ s) =
     (case process_lines p ls of (Inl e, p') \<Rightarrow> (Inl e, p') | (Inr _, p') \<Rightarrow> push_chars p' s)"
proof (induction ls arbitrary: p)
  case (Cons l ls)
  have nl: "NL \<notin> set l" using Cons.prems by (simp add: is_line_def)
  have p: "p\<lparr>line_buffer := [], line_number := Suc (line_number p)\<rparr> = p\<lparr>line_number := Suc (line_number p)\<rparr>"
    using Cons.prems(1) by simp
  show ?case
  proof (cases "process_line (p\<lparr>line_number := Suc (line_number p)\<rparr>) l")
    case (Pair r p')
    moreover have "line_buffer p' = []"
      using process_line_buffer[OF Pair] Cons.prems(1) by simp
    ultimately show ?thesis
      using Cons.prems Cons.IH[of p']
      by (cases r) (auto simp: push_chars_buffer[OF nl] strip_cr_id p Let_def)
  qed
qed simp

lemma process_lines_append:
  "process_lines p (xs @ ys) =
     (case process_lines p xs of (Inl e, p') \<Rightarrow> (Inl e, p') | (Inr _, p') \<Rightarrow> process_lines p' ys)"
  by (induction xs arbitrary: p) (auto split: prod.splits sum.splits)

section \<open>Accepted patches are complete\<close>

text \<open>A hunk of an accepted patch, and the last hunk while it is still read.\<close>

fun hunk_complete :: "hunk \<Rightarrow> bool" where
  "hunk_complete (AddFile path contents) \<longleftrightarrow> path \<noteq> [] \<and> (contents = [] \<or> last contents = NL)"
| "hunk_complete (DeleteFile path) \<longleftrightarrow> path \<noteq> []"
| "hunk_complete (UpdateFile path mv chunks) \<longleftrightarrow>
     path \<noteq> [] \<and> mv \<noteq> Some [] \<and> chunks \<noteq> [] \<and> (\<forall>c\<in>set chunks. \<not> chunk_is_empty c)"

fun hunk_open :: "hunk \<Rightarrow> bool" where
  "hunk_open (UpdateFile path mv chunks) \<longleftrightarrow>
     path \<noteq> [] \<and> mv \<noteq> Some [] \<and> (\<forall>c\<in>set (butlast chunks). \<not> chunk_is_empty c)"
| "hunk_open h \<longleftrightarrow> hunk_complete h"

text \<open>What the parser's state keeps: the mode names the kind of the last hunk, all hunks before
  it are complete, and all of them are once the patch has ended.\<close>

fun mode_fits :: "parser_mode \<Rightarrow> hunk list \<Rightarrow> bool" where
  "mode_fits NotStarted hs \<longleftrightarrow> hs = []"
| "mode_fits StartedPatch hs \<longleftrightarrow> hs = []"
| "mode_fits EndedPatch hs \<longleftrightarrow> list_all hunk_complete hs"
| "mode_fits AddFileMode hs \<longleftrightarrow> (\<exists>hs' p c. hs = hs' @ [AddFile p c])"
| "mode_fits DeleteFileMode hs \<longleftrightarrow> (\<exists>hs' p. hs = hs' @ [DeleteFile p])"
| "mode_fits (UpdateFileMode n) hs \<longleftrightarrow> (\<exists>hs' p mv cs. hs = hs' @ [UpdateFile p mv cs])"

definition parser_inv :: "patch_parser \<Rightarrow> bool" where
  "parser_inv p \<longleftrightarrow>
     mode_fits (mode p) (hunks p) \<and> list_all hunk_complete (butlast (hunks p)) \<and>
     (hunks p \<noteq> [] \<longrightarrow> hunk_open (last (hunks p))) \<and>
     (case environment_id p of None \<Rightarrow> True | Some e \<Rightarrow> e \<noteq> [] \<and> trimmed e)"

lemma hunk_complete_open: "hunk_complete h \<Longrightarrow> hunk_open h"
  by (cases h) (auto dest: in_set_butlastD)

lemma parser_inv_new [step_intros]: "parser_inv new_patch_parser"
  by (simp add: parser_inv_def new_patch_parser_def)

lemma ensure_last_chunk:
  "last_opt (hunks p) = Some (UpdateFile path mv (cs @ [c])) \<Longrightarrow>
   ensure_update_hunk_is_not_empty p line = Inr u \<longleftrightarrow> \<not> chunk_is_empty c"
proof -
  assume h: "last_opt (hunks p) = Some (UpdateFile path mv (cs @ [c]))"
  have l: "(case cs @ [c] of [] \<Rightarrow> a | x # xs \<Rightarrow> b) = b" for a b :: "parse_error + unit"
    by (cases "cs @ [c]") auto
  show ?thesis
    using h by (simp add: ensure_update_hunk_is_not_empty_def l)
qed

lemma ensure_complete:
  assumes "parser_inv p" and "ensure_update_hunk_is_not_empty p line = Inr u"
  shows "list_all hunk_complete (hunks p)"
proof (cases "hunks p" rule: rev_cases)
  case (snoc hs h)
  show ?thesis
  proof (cases h)
    case (UpdateFile path mv chunks)
    show ?thesis
    proof (cases chunks rule: rev_cases)
      case Nil
      with assms snoc UpdateFile show ?thesis
        by (cases "mode p") (auto simp: parser_inv_def ensure_update_hunk_is_not_empty_def)
    next
      case chunks: (snoc cs c)
      then have "\<not> chunk_is_empty c"
        using assms(2) ensure_last_chunk[of p path mv cs c line u] snoc UpdateFile by simp
      then show ?thesis using assms(1) snoc UpdateFile chunks by (auto simp: parser_inv_def)
    qed
  qed (use assms snoc in \<open>auto simp: parser_inv_def\<close>)
qed simp

lemma push_hunk_inv:
  assumes "parser_inv p" and "push_hunk p line h m = (r, p')"
    and "hunk_open h" and "mode_fits m (hunks p @ [h])"
  shows "parser_inv p'"
  using assms ensure_complete[OF assms(1), of line]
  by (auto simp: push_hunk_def parser_inv_def split: sum.splits)

lemma strip_prefix_trimmed_nonempty:
  "strip_prefix l m = Some path \<Longrightarrow> trimmed_end l \<Longrightarrow> m \<noteq> [] \<Longrightarrow> is_whitespace (last m) \<Longrightarrow> path \<noteq> []"
  by (auto simp: strip_prefix_Some trimmed_end_def)

lemma is_whitespace_SPACE [simp]: "is_whitespace SPACE"
  by (simp add: is_whitespace_def)

lemma file_marker_ends [simp]:
  "is_whitespace (last ADD_FILE_MARKER)" "ADD_FILE_MARKER \<noteq> []"
  "is_whitespace (last DELETE_FILE_MARKER)" "DELETE_FILE_MARKER \<noteq> []"
  "is_whitespace (last UPDATE_FILE_MARKER)" "UPDATE_FILE_MARKER \<noteq> []"
  "is_whitespace (last MOVE_TO_MARKER)" "MOVE_TO_MARKER \<noteq> []"
  by (simp_all add: marker_defs lit_simps)

lemma handle_cases:
  assumes "handle_hunk_headers_and_end_patch p l = (r, p')"
  obtains
    (err) e where "r = Inl e" "p' = p"
  | (env) e where "r = Inr True" "mode p = StartedPatch" "trim e \<noteq> []"
      "p' = p\<lparr>environment_id := Some (trim e)\<rparr>"
  | (end_patch) u where "r = Inr True" "ensure_update_hunk_is_not_empty p l = Inr u"
      "p' = p\<lparr>mode := EndedPatch\<rparr>"
  | (add) path where "strip_prefix l ADD_FILE_MARKER = Some path"
      "push_hunk p l (AddFile path []) AddFileMode = (r, p')"
  | (del) path where "strip_prefix l DELETE_FILE_MARKER = Some path"
      "push_hunk p l (DeleteFile path) DeleteFileMode = (r, p')"
  | (upd) path where "strip_prefix l UPDATE_FILE_MARKER = Some path"
      "push_hunk p l (UpdateFile path None []) (UpdateFileMode (line_number p)) = (r, p')"
  | (no_header) "r = Inr False" "p' = p"
proof -
  have "(\<exists>e. r = Inl e \<and> p' = p) \<or>
      (\<exists>e. r = Inr True \<and> mode p = StartedPatch \<and> trim e \<noteq> [] \<and> p' = p\<lparr>environment_id := Some (trim e)\<rparr>) \<or>
      (\<exists>u. r = Inr True \<and> ensure_update_hunk_is_not_empty p l = Inr u \<and> p' = p\<lparr>mode := EndedPatch\<rparr>) \<or>
      (\<exists>path. strip_prefix l ADD_FILE_MARKER = Some path \<and> push_hunk p l (AddFile path []) AddFileMode = (r, p')) \<or>
      (\<exists>path. strip_prefix l DELETE_FILE_MARKER = Some path \<and> push_hunk p l (DeleteFile path) DeleteFileMode = (r, p')) \<or>
      (\<exists>path. strip_prefix l UPDATE_FILE_MARKER = Some path \<and>
         push_hunk p l (UpdateFile path None []) (UpdateFileMode (line_number p)) = (r, p')) \<or>
      (r = Inr False \<and> p' = p)"
    using assms unfolding handle_hunk_headers_and_end_patch_def
    by (cases "mode p"; cases "strip_prefix l ENVIRONMENT_ID_MARKER")
      (auto split: if_splits option.splits sum.splits)
  then show thesis using that by blast
qed

lemma handle_inv:
  assumes "parser_inv p" and "trimmed_end l"
    and "handle_hunk_headers_and_end_patch p l = (r, p')"
  shows "parser_inv p'"
  using assms(3)
proof (cases rule: handle_cases)
  case (env e)
  with assms(1) show ?thesis by (simp add: parser_inv_def)
next
  case (end_patch u)
  then show ?thesis using assms(1) ensure_complete[OF assms(1) end_patch(2)] by (simp add: parser_inv_def)
next
  case (add path)
  then show ?thesis using push_hunk_inv[OF assms(1) add(2)] strip_prefix_trimmed_nonempty[OF add(1) assms(2)] by simp
next
  case (del path)
  then show ?thesis using push_hunk_inv[OF assms(1) del(2)] strip_prefix_trimmed_nonempty[OF del(1) assms(2)] by simp
next
  case (upd path)
  then show ?thesis using push_hunk_inv[OF assms(1) upd(2)] strip_prefix_trimmed_nonempty[OF upd(1) assms(2)] by simp
qed (use assms(1) in simp_all)

lemma handle_no_header: "handle_hunk_headers_and_end_patch p l = (Inr False, p') \<Longrightarrow> p' = p"
  by (erule handle_cases) (auto simp: push_hunk_def split: sum.splits)
lemma butlast_on_last_chunk [simp]: "butlast (on_last_chunk f cs) = butlast cs"
  by (auto simp: on_last_chunk_def map_last_def)

lemma butlast_map_last [simp]: "butlast (map_last f xs) = butlast xs"
  by (simp add: map_last_def)

lemma chunks_before_new_context:
  "\<forall>c\<in>set (butlast cs). \<not> chunk_is_empty c \<Longrightarrow> \<not> last_chunk_empty cs \<Longrightarrow>
   c \<in> set cs \<Longrightarrow> \<not> chunk_is_empty c"
  by (cases cs rule: rev_cases) (auto simp: last_chunk_empty_def)

lemma update_hunk_line_open:
  assumes "update_hunk_line n line mv cs = Inr (mv', cs')"
    and "mv \<noteq> Some []" and cs: "\<forall>c\<in>set (butlast cs). \<not> chunk_is_empty c"
  shows "mv' \<noteq> Some [] \<and> (\<forall>c\<in>set (butlast cs'). \<not> chunk_is_empty c)"
proof -
  have mv: "strip_prefix (trim_end line) MOVE_TO_MARKER = Some d \<Longrightarrow> d \<noteq> []" for d
    using strip_prefix_trimmed_nonempty[of "trim_end line" MOVE_TO_MARKER d] by simp
  have ctx: "is_context_marker (trim_end line) \<Longrightarrow> \<not> last_chunk_empty cs \<Longrightarrow>
      \<forall>c\<in>set cs. \<not> chunk_is_empty c"
    using chunks_before_new_context[OF cs] by blast
  have m: "trim_end line = EMPTY_CHANGE_CONTEXT_MARKER \<Longrightarrow> is_context_marker (trim_end line)"
    "strip_prefix (trim_end line) CHANGE_CONTEXT_MARKER = Some d \<Longrightarrow> is_context_marker (trim_end line)" for d
    by (auto simp: is_context_marker_def strip_prefix_def split: if_splits)
  show ?thesis
    using assms mv ctx m unfolding update_hunk_line_def Let_def
    by (auto split: if_splits option.splits)
qed

lemma process_line_update_inv:
  assumes "parser_inv p" and "last_opt (hunks p) = Some (UpdateFile path mv cs)"
    and "mode p = UpdateFileMode n"
    and "update_hunk_line k line mv cs = Inr (mv', cs')"
  shows "parser_inv (p\<lparr>hunks := map_last (\<lambda>_. UpdateFile path mv' cs') (hunks p), mode := UpdateFileMode n\<rparr>)"
  using assms update_hunk_line_open[OF assms(4)]
  by (auto simp: parser_inv_def last_opt_Some_iff)

lemma process_line_header:
  assumes "mode p \<noteq> NotStarted" "mode p \<noteq> EndedPatch"
  obtains l r' q where "trimmed_end l" "handle_hunk_headers_and_end_patch p l = (r', q)"
    "r' \<noteq> Inr False \<Longrightarrow> snd (process_line p line) = q"
    "r' = Inr False \<Longrightarrow> \<forall>n. mode p \<noteq> UpdateFileMode n \<Longrightarrow> mode p \<noteq> AddFileMode \<Longrightarrow>
       snd (process_line p line) = q"
    "l = (case mode p of UpdateFileMode n \<Rightarrow> trim_end line | _ \<Rightarrow> trim line)"
proof -
  define l where "l = (case mode p of UpdateFileMode n \<Rightarrow> trim_end line | _ \<Rightarrow> trim line)"
  obtain r' q where h: "handle_hunk_headers_and_end_patch p l = (r', q)" by fastforce
  moreover have "trimmed_end l"
    by (simp add: l_def trimmed_imp_trimmed_end split: parser_mode.splits)
  moreover have "r' \<noteq> Inr False \<Longrightarrow> snd (process_line p line) = q"
    using h assms by (cases "mode p"; cases r') (auto simp: process_line_def Let_def l_def split: bool.splits)
  moreover have "r' = Inr False \<Longrightarrow> \<forall>n. mode p \<noteq> UpdateFileMode n \<Longrightarrow> mode p \<noteq> AddFileMode \<Longrightarrow>
       snd (process_line p line) = q"
    using h assms by (cases "mode p") (auto simp: process_line_def Let_def l_def)
  ultimately show thesis using that l_def by blast
qed

lemma process_line_inv [step_intros]:
  assumes inv: "parser_inv p"
  shows "parser_inv (snd (process_line p line))"
proof (cases "mode p = NotStarted \<or> mode p = EndedPatch")
  case True
  with assms show ?thesis by (auto simp: process_line_def parser_inv_def)
next
  case False
  then obtain l r' q where h: "trimmed_end l" "handle_hunk_headers_and_end_patch p l = (r', q)"
      "r' \<noteq> Inr False \<Longrightarrow> snd (process_line p line) = q"
      "r' = Inr False \<Longrightarrow> \<forall>n. mode p \<noteq> UpdateFileMode n \<Longrightarrow> mode p \<noteq> AddFileMode \<Longrightarrow>
         snd (process_line p line) = q"
      "l = (case mode p of UpdateFileMode n \<Rightarrow> trim_end line | _ \<Rightarrow> trim line)"
    using process_line_header[of p line] by auto
  have q: "parser_inv q" using handle_inv[OF inv h(1,2)] .
  show ?thesis
  proof (cases "r' = Inr False")
    case True
    with h(2) have [simp]: "q = p" by (blast dest: handle_no_header)
    show ?thesis
    proof (cases "mode p")
      case AddFileMode
      with inv True h(2,5) show ?thesis
        by (auto simp: process_line_def Let_def parser_inv_def last_opt_Some_iff split: option.splits)
    next
      case (UpdateFileMode n)
      with inv True h(2,5) show ?thesis
        by (auto simp: process_line_def Let_def process_line_update_inv
            split: sum.splits option.splits hunk.splits)
    qed (use True h(4) q in auto)
  qed (use h(3) q in simp)
qed

lemma parser_inv_buffer [simp]:
  "parser_inv (p\<lparr>line_buffer := b\<rparr>) = parser_inv p"
  "parser_inv (p\<lparr>line_number := n\<rparr>) = parser_inv p"
  "parser_inv (p\<lparr>line_buffer := b, line_number := n\<rparr>) = parser_inv p"
  by (simp_all add: parser_inv_def)

lemma push_chars_inv [step_intros]: "parser_inv p \<Longrightarrow> parser_inv (snd (push_chars p s))"
proof (induction p s rule: push_chars.induct)
  case (2 p ch s)
  show ?case
  proof (cases "ch = NL")
    case True
    let ?p1 = "p\<lparr>line_buffer := [], line_number := line_number p + 1\<rparr>"
    obtain r p2 where r: "process_line ?p1 (strip_cr (line_buffer p)) = (r, p2)" by fastforce
    have "parser_inv p2"
      using process_line_inv[of ?p1 "strip_cr (line_buffer p)"] r 2(3) by simp
    with 2(1)[OF True refl refl r[symmetric]] r True show ?thesis
      by (simp add: Let_def split: sum.splits)
  next
    case False
    with 2(2)[OF False] 2(3) show ?thesis by simp
  qed
qed simp

lemma finish_buffer_inv [step_intros]: "parser_inv p \<Longrightarrow> parser_inv (snd (finish_buffer p))"
proof -
  assume p: "parser_inv p"
  let ?p1 = "p\<lparr>line_buffer := [], line_number := line_number p + 1\<rparr>"
  have p1: "parser_inv ?p1" using p by simp
  show ?thesis
    using p process_line_inv[OF p1, of "line_buffer p"] ensure_complete[OF p1, of "trim (line_buffer p)"]
    by (auto simp: finish_buffer_def Let_def split: sum.splits) (auto simp: parser_inv_def)
qed

lemma finish_parser_inv:
  assumes "parser_inv p" and "finish_parser p = (r, p')"
  shows "parser_inv p' \<and> (case r of Inl _ \<Rightarrow> True | Inr hs \<Rightarrow> hs = hunks p' \<and> list_all hunk_complete hs)"
proof -
  obtain b q where q: "finish_buffer p = (b, q)" by fastforce
  then have "parser_inv q" using finish_buffer_inv[OF assms(1)] by simp
  with assms(2) q show ?thesis
    by (auto simp: finish_parser_def parser_inv_def split: sum.splits if_splits)
qed

text \<open>
  Accepted patches are complete: in the result of \<open>parse_patch\<close> every path is non-empty,
  every added file is empty or ends its last line, every update has at least one chunk, every
  chunk has at least one line, and the environment id is non-empty and trimmed.
\<close>

theorem parse_patch_complete:
  assumes "parse_patch patch = Inr args"
  shows "list_all hunk_complete (args_hunks args) \<and>
         (\<forall>e. args_environment_id args = Some e \<longrightarrow> e \<noteq> [] \<and> trimmed e)"
proof -
  from assms obtain body r1 p1 p2 where
    push: "push_delta new_patch_parser body = (Inr r1, p1)" and
    fin: "finish_parser p1 = (Inr (args_hunks args), p2)" and
    env: "args_environment_id args = environment_id p2"
    by (auto simp: parse_patch_def parse_patch_text_def Let_def
        split: sum.splits prod.splits)
  from push have "snd (push_chars new_patch_parser body) = p1"
    by (auto simp: push_delta_def split: prod.splits sum.splits)
  then have "parser_inv p1"
    using push_chars_inv[OF parser_inv_new, of body] by simp
  from finish_parser_inv[OF this fin] env show ?thesis
    by (auto simp: parser_inv_def)
qed

end
