(* ===== verification/PatchText.thy ===== *)
theory PatchText
  imports PatchParser
begin

text \<open>
  The text of a patch and its parse: \<open>render_patch\<close> is the reference for the format of
  codex-rs/apply-patch/src/parser.rs, written the way the grammar in that file reads. The
  lemmas follow the parser line by line over a rendered patch; the theorems are the round trip
  and the transparency of the heredoc leniency.
\<close>

section \<open>Rendering and the round trip\<close>

text \<open>The text of a patch: the reference for what the grammar writes. The old lines of a chunk
  are written before its new lines; the parser collects them separately.\<close>

definition render_chunk :: "update_file_chunk \<Rightarrow> str list" where
  "render_chunk c =
     (case change_context c of
        None \<Rightarrow> EMPTY_CHANGE_CONTEXT_MARKER
      | Some x \<Rightarrow> CHANGE_CONTEXT_MARKER @ x) #
     map ((#) 45) (old_lines c) @ map ((#) 43) (new_lines c) @
     (if is_end_of_file c then [EOF_MARKER] else [])"

fun render_hunk :: "hunk \<Rightarrow> str list" where
  "render_hunk (AddFile path contents) =
     (ADD_FILE_MARKER @ path) # map ((#) 43) (butlast (split_on NL contents))"
| "render_hunk (DeleteFile path) = [DELETE_FILE_MARKER @ path]"
| "render_hunk (UpdateFile path mv chunks) =
     (UPDATE_FILE_MARKER @ path) #
     (case mv of None \<Rightarrow> [] | Some d \<Rightarrow> [MOVE_TO_MARKER @ d]) @
     concat (map render_chunk chunks)"

definition render_patch :: "str option \<Rightarrow> hunk list \<Rightarrow> str" where
  "render_patch eid hs =
     join [NL]
       ([BEGIN_PATCH_MARKER] @
        (case eid of None \<Rightarrow> [] | Some e \<Rightarrow> [ENVIRONMENT_ID_MARKER @ lit '' '' @ e]) @
        concat (map render_hunk hs) @ [END_PATCH_MARKER])"

text \<open>Paths and contexts that survive the trimming of header lines, and lines that survive the
  line splitting.\<close>

definition header_text :: "str \<Rightarrow> bool" where
  "header_text s \<longleftrightarrow> s \<noteq> [] \<and> trimmed_end s \<and> NL \<notin> set s"

definition chunk_renderable :: "update_file_chunk \<Rightarrow> bool" where
  "chunk_renderable c \<longleftrightarrow>
     (case change_context c of None \<Rightarrow> True | Some x \<Rightarrow> header_text x) \<and>
     \<not> chunk_is_empty c \<and> list_all is_line (old_lines c) \<and> list_all is_line (new_lines c)"

fun hunk_renderable :: "hunk \<Rightarrow> bool" where
  "hunk_renderable (AddFile path contents) \<longleftrightarrow>
     header_text path \<and> (contents = [] \<or> last contents = NL) \<and> list_all is_line (split_on NL contents)"
| "hunk_renderable (DeleteFile path) \<longleftrightarrow> header_text path"
| "hunk_renderable (UpdateFile path mv chunks) \<longleftrightarrow>
     header_text path \<and> (case mv of None \<Rightarrow> True | Some d \<Rightarrow> header_text d) \<and>
     chunks \<noteq> [] \<and> list_all chunk_renderable chunks"

lemmas marker_eval = marker_defs lit_simps strip_prefix_None starts_with_prefix

lemma header_text_trim:
  "header_text s \<Longrightarrow> trim_end (m @ s) = m @ s"
  by (rule trim_end_id) (auto simp: header_text_def trimmed_end_def)

lemma trim_star: "trim_start (42 # s) = 42 # s"
  by (simp add: trim_start_def is_whitespace_def)

lemma star_markers:
  "ADD_FILE_MARKER = 42 # tl ADD_FILE_MARKER" "DELETE_FILE_MARKER = 42 # tl DELETE_FILE_MARKER"
  "UPDATE_FILE_MARKER = 42 # tl UPDATE_FILE_MARKER" "END_PATCH_MARKER = 42 # tl END_PATCH_MARKER"
  "ENVIRONMENT_ID_MARKER = 42 # tl ENVIRONMENT_ID_MARKER" "BEGIN_PATCH_MARKER = 42 # tl BEGIN_PATCH_MARKER"
  by (simp_all add: marker_defs lit_simps)

lemma star_markers_append:
  "ADD_FILE_MARKER @ s = 42 # (tl ADD_FILE_MARKER @ s)" "DELETE_FILE_MARKER @ s = 42 # (tl DELETE_FILE_MARKER @ s)"
  "UPDATE_FILE_MARKER @ s = 42 # (tl UPDATE_FILE_MARKER @ s)"
  "ENVIRONMENT_ID_MARKER @ s = 42 # (tl ENVIRONMENT_ID_MARKER @ s)"
  by (simp_all add: marker_defs lit_simps)

lemma header_trim:
  "header_text s \<Longrightarrow> trim (ADD_FILE_MARKER @ s) = ADD_FILE_MARKER @ s"
  "header_text s \<Longrightarrow> trim (DELETE_FILE_MARKER @ s) = DELETE_FILE_MARKER @ s"
  "header_text s \<Longrightarrow> trim (UPDATE_FILE_MARKER @ s) = UPDATE_FILE_MARKER @ s"
  using header_text_trim[of s ADD_FILE_MARKER] header_text_trim[of s DELETE_FILE_MARKER]
    header_text_trim[of s UPDATE_FILE_MARKER]
  by (simp_all add: trim_def star_markers_append trim_star)

lemma markers_disjoint [simp]:
  "strip_prefix (ADD_FILE_MARKER @ s) ENVIRONMENT_ID_MARKER = None"
  "strip_prefix (DELETE_FILE_MARKER @ s) ENVIRONMENT_ID_MARKER = None"
  "strip_prefix (UPDATE_FILE_MARKER @ s) ENVIRONMENT_ID_MARKER = None"
  "strip_prefix (DELETE_FILE_MARKER @ s) ADD_FILE_MARKER = None"
  "strip_prefix (UPDATE_FILE_MARKER @ s) ADD_FILE_MARKER = None"
  "strip_prefix (UPDATE_FILE_MARKER @ s) DELETE_FILE_MARKER = None"
  "strip_prefix (MOVE_TO_MARKER @ s) ADD_FILE_MARKER = None"
  "strip_prefix (MOVE_TO_MARKER @ s) DELETE_FILE_MARKER = None"
  "strip_prefix (MOVE_TO_MARKER @ s) UPDATE_FILE_MARKER = None"
  "strip_prefix EOF_MARKER ADD_FILE_MARKER = None"
  "strip_prefix EOF_MARKER DELETE_FILE_MARKER = None"
  "strip_prefix EOF_MARKER UPDATE_FILE_MARKER = None"
  "strip_prefix EOF_MARKER MOVE_TO_MARKER = None"
  "strip_prefix EOF_MARKER CHANGE_CONTEXT_MARKER = None"
  "strip_prefix END_PATCH_MARKER ENVIRONMENT_ID_MARKER = None"
  "ADD_FILE_MARKER @ s \<noteq> END_PATCH_MARKER" "DELETE_FILE_MARKER @ s \<noteq> END_PATCH_MARKER"
  "UPDATE_FILE_MARKER @ s \<noteq> END_PATCH_MARKER" "MOVE_TO_MARKER @ s \<noteq> END_PATCH_MARKER"
  "EOF_MARKER \<noteq> END_PATCH_MARKER" "EOF_MARKER \<noteq> EMPTY_CHANGE_CONTEXT_MARKER"
  "BEGIN_PATCH_MARKER \<noteq> END_PATCH_MARKER"
  by (simp_all add: marker_eval)

lemma not_header_char:
  assumes "c \<noteq> 42"
  shows "strip_prefix (c # s) ADD_FILE_MARKER = None" "strip_prefix (c # s) DELETE_FILE_MARKER = None"
    "strip_prefix (c # s) UPDATE_FILE_MARKER = None" "strip_prefix (c # s) MOVE_TO_MARKER = None"
    "c # s \<noteq> END_PATCH_MARKER" "c # s \<noteq> EOF_MARKER"
  using assms by (simp_all add: marker_eval)

lemma not_context_char:
  assumes "c \<noteq> 64"
  shows "\<not> is_context_marker (c # s)" "strip_prefix (c # s) CHANGE_CONTEXT_MARKER = None"
    "c # s \<noteq> EMPTY_CHANGE_CONTEXT_MARKER"
  using assms by (simp_all add: marker_eval is_context_marker_def)

lemma trim_end_sign: "c = 43 \<or> c = 45 \<or> c = 64 \<Longrightarrow> \<exists>s'. trim_end (c # s) = c # s'"
  by (auto simp: trim_end_Cons is_whitespace_def)

text \<open>One line inside an update hunk.\<close>

lemma process_line_in_update:
  assumes "mode p = UpdateFileMode n" and "hunks p = hs @ [UpdateFile path mv cs]"
    and "trim_end l \<noteq> END_PATCH_MARKER"
    and "strip_prefix (trim_end l) ADD_FILE_MARKER = None"
    and "strip_prefix (trim_end l) DELETE_FILE_MARKER = None"
    and "strip_prefix (trim_end l) UPDATE_FILE_MARKER = None"
    and "update_hunk_line (line_number p) l mv cs = Inr (mv', cs')"
  shows "process_line p l = (Inr (), p\<lparr>hunks := hs @ [UpdateFile path mv' cs']\<rparr>)"
proof -
  have "handle_hunk_headers_and_end_patch p (trim_end l) = (Inr False, p)"
    using assms by (simp add: handle_hunk_headers_and_end_patch_def split: option.split)
  then show ?thesis using assms by (simp add: process_line_def Let_def)
qed

lemma process_sign_line:
  assumes "mode p = UpdateFileMode n" and "hunks p = hs @ [UpdateFile path mv (cs @ [c])]"
    and "\<not> is_end_of_file c" and "sg = 43 \<or> sg = 45"
  shows "process_line p (sg # l) = (Inr (), p\<lparr>hunks := hs @ [UpdateFile path mv
           (cs @ [(if sg = 43 then add_new_line else add_old_line) l c])]\<rparr>)"
proof (rule process_line_in_update[OF assms(1,2)])
  obtain s' where s: "trim_end (sg # l) = sg # s'" using trim_end_sign[of sg l] assms(4) by auto
  have c: "sg \<noteq> 42" "sg \<noteq> 64" using assms(4) by auto
  show "trim_end (sg # l) \<noteq> END_PATCH_MARKER"
    "strip_prefix (trim_end (sg # l)) ADD_FILE_MARKER = None"
    "strip_prefix (trim_end (sg # l)) DELETE_FILE_MARKER = None"
    "strip_prefix (trim_end (sg # l)) UPDATE_FILE_MARKER = None"
    unfolding s using not_header_char[OF c(1)] by auto
  show "update_hunk_line (line_number p) (sg # l) mv (cs @ [c]) =
      Inr (mv, cs @ [(if sg = 43 then add_new_line else add_old_line) l c])"
    unfolding update_hunk_line_def s Let_def
    using not_header_char[OF c(1)] not_context_char[OF c(2)] assms(3,4)
    by (auto simp: last_chunk_ends_file_def on_last_chunk_def lit_simps strip_prefix_def starts_with_def)
qed

lemma process_old_lines:
  assumes "mode p = UpdateFileMode n" and "hunks p = hs @ [UpdateFile path mv (cs @ [c])]"
    and "\<not> is_end_of_file c"
  shows "process_lines p (map ((#) 45) ls) =
     (Inr (), p\<lparr>line_number := line_number p + length ls,
                hunks := hs @ [UpdateFile path mv (cs @ [c\<lparr>old_lines := old_lines c @ ls\<rparr>])]\<rparr>)"
  using assms
proof (induction ls arbitrary: p c)
  case (Cons l ls)
  then show ?case by (simp add: process_sign_line add_old_line_def)
qed simp

lemma process_new_lines:
  assumes "mode p = UpdateFileMode n" and "hunks p = hs @ [UpdateFile path mv (cs @ [c])]"
    and "\<not> is_end_of_file c"
  shows "process_lines p (map ((#) 43) ls) =
     (Inr (), p\<lparr>line_number := line_number p + length ls,
                hunks := hs @ [UpdateFile path mv (cs @ [c\<lparr>new_lines := new_lines c @ ls\<rparr>])]\<rparr>)"
  using assms
proof (induction ls arbitrary: p c)
  case (Cons l ls)
  then show ?case by (simp add: process_sign_line add_new_line_def)
qed simp

lemma process_eof_line:
  assumes "mode p = UpdateFileMode n" and "hunks p = hs @ [UpdateFile path mv (cs @ [c])]"
    and "\<not> is_end_of_file c" and "\<not> chunk_is_empty c"
  shows "process_line p EOF_MARKER =
     (Inr (), p\<lparr>hunks := hs @ [UpdateFile path mv (cs @ [c\<lparr>is_end_of_file := True\<rparr>])]\<rparr>)"
proof -
  have e: "trim_end EOF_MARKER = EOF_MARKER"
    by (rule trim_end_id) (simp add: trimmed_end_def marker_defs lit_simps is_whitespace_def)
  have "\<not> is_context_marker EOF_MARKER" by (simp add: is_context_marker_def marker_eval)
  then have "update_hunk_line (line_number p) EOF_MARKER mv (cs @ [c]) =
      Inr (mv, cs @ [c\<lparr>is_end_of_file := True\<rparr>])"
    using assms by (simp add: update_hunk_line_def Let_def e last_chunk_ends_file_def last_chunk_empty_def)
  then show ?thesis
    using process_line_in_update[OF assms(1,2), of EOF_MARKER] by (simp add: e)
qed

definition context_line :: "str option \<Rightarrow> str" where
  "context_line ctx = (case ctx of None \<Rightarrow> EMPTY_CHANGE_CONTEXT_MARKER | Some x \<Rightarrow> CHANGE_CONTEXT_MARKER @ x)"

lemma process_context_line:
  assumes "mode p = UpdateFileMode n" and "hunks p = hs @ [UpdateFile path mv cs]"
    and "\<not> last_chunk_empty cs" and "case ctx of None \<Rightarrow> True | Some x \<Rightarrow> header_text x"
  shows "process_line p (context_line ctx) =
     (Inr (), p\<lparr>hunks := hs @ [UpdateFile path mv (cs @ [fresh_chunk ctx])]\<rparr>)"
proof -
  let ?l = "context_line ctx"
  have l: "trim_end ?l = ?l"
  proof (cases ctx)
    case None
    then show ?thesis
      by (auto simp: context_line_def trimmed_end_def marker_defs lit_simps is_whitespace_def intro!: trim_end_id)
  next
    case (Some x)
    then show ?thesis using assms(4) header_text_trim[of x CHANGE_CONTEXT_MARKER]
      by (simp add: context_line_def)
  qed
  obtain s where s: "?l = 64 # s"
    by (cases ctx) (auto simp: context_line_def marker_defs lit_simps)
  have m: "is_context_marker ?l" "?l \<noteq> []"
    by (cases ctx; simp add: context_line_def is_context_marker_def starts_with_prefix marker_defs lit_simps)+
  have n: "\<exists>x. ctx = Some x \<Longrightarrow> ?l \<noteq> EMPTY_CHANGE_CONTEXT_MARKER"
    using assms(4) by (auto simp: context_line_def marker_defs lit_simps header_text_def)
  have h: "strip_prefix ?l ADD_FILE_MARKER = None" "strip_prefix ?l DELETE_FILE_MARKER = None"
    "strip_prefix ?l UPDATE_FILE_MARKER = None" "strip_prefix ?l MOVE_TO_MARKER = None"
    "?l \<noteq> END_PATCH_MARKER" unfolding s using not_header_char[of 64 s] by simp_all
  have "update_hunk_line (line_number p) ?l mv cs = Inr (mv, cs @ [fresh_chunk ctx])"
    unfolding update_hunk_line_def Let_def l using m n h assms(3)
    by (cases ctx) (auto simp: context_line_def)
  then show ?thesis
    using process_line_in_update[OF assms(1,2), of ?l] h by (simp add: l)
qed

lemma process_chunk:
  assumes "mode p = UpdateFileMode n" and "hunks p = hs @ [UpdateFile path mv cs]"
    and "\<not> last_chunk_empty cs" and "chunk_renderable c"
  shows "\<exists>k. process_lines p (render_chunk c) =
     (Inr (), p\<lparr>line_number := k, hunks := hs @ [UpdateFile path mv (cs @ [c])]\<rparr>)"
proof -
  have r: "render_chunk c = context_line (change_context c) # map ((#) 45) (old_lines c) @
      map ((#) 43) (new_lines c) @ (if is_end_of_file c then [EOF_MARKER] else [])"
    by (simp add: render_chunk_def context_line_def)
  let ?p1 = "p\<lparr>line_number := Suc (line_number p)\<rparr>"
  have ctx: "process_line ?p1 (context_line (change_context c)) =
     (Inr (), ?p1\<lparr>hunks := hs @ [UpdateFile path mv (cs @ [fresh_chunk (change_context c)])]\<rparr>)"
    by (rule process_context_line) (use assms in \<open>simp_all add: chunk_renderable_def\<close>)
  have eta: "is_end_of_file c \<Longrightarrow> \<lparr>change_context = change_context c, old_lines = old_lines c,
      new_lines = new_lines c, is_end_of_file = True\<rparr> = c"
    "\<not> is_end_of_file c \<Longrightarrow> \<lparr>change_context = change_context c, old_lines = old_lines c,
      new_lines = new_lines c, is_end_of_file = False\<rparr> = c"
    by (cases c; simp)+
  show ?thesis
    using assms
    by (auto simp: r process_lines_append process_old_lines process_new_lines process_eof_line
        fresh_chunk_def ctx chunk_renderable_def chunk_is_empty_def eta intro!: exI)
qed

lemma process_chunks:
  assumes "mode p = UpdateFileMode n" and "hunks p = hs @ [UpdateFile path mv cs]"
    and "\<not> last_chunk_empty cs" and "list_all chunk_renderable xs"
  shows "\<exists>k. process_lines p (concat (map render_chunk xs)) =
     (Inr (), p\<lparr>line_number := k, hunks := hs @ [UpdateFile path mv (cs @ xs)]\<rparr>)"
  using assms
proof (induction xs arbitrary: p cs)
  case Nil
  then show ?case by (auto intro!: exI[of _ "line_number p"])
next
  case (Cons c xs)
  then obtain k where k: "process_lines p (render_chunk c) =
     (Inr (), p\<lparr>line_number := k, hunks := hs @ [UpdateFile path mv (cs @ [c])]\<rparr>)"
    using process_chunk[of p n hs path mv cs c] by auto
  have "\<not> last_chunk_empty (cs @ [c])"
    using Cons.prems(4) by (simp add: last_chunk_empty_def chunk_renderable_def)
  with Cons.IH[of "p\<lparr>line_number := k, hunks := hs @ [UpdateFile path mv (cs @ [c])]\<rparr>" "cs @ [c]"]
  show ?case using Cons.prems by (auto simp: process_lines_append k)
qed

text \<open>A parser that expects a hunk header or the end of the patch.\<close>

definition ready :: "patch_parser \<Rightarrow> bool" where
  "ready p \<longleftrightarrow> mode p \<noteq> NotStarted \<and> mode p \<noteq> EndedPatch \<and>
     (\<forall>l. ensure_update_hunk_is_not_empty p l = Inr ())"

lemma ready_line_number [simp]: "ready (p\<lparr>line_number := n\<rparr>) = ready p"
  by (simp add: ready_def ensure_update_hunk_is_not_empty_def split: option.splits hunk.splits list.splits)

lemma process_header_line:
  assumes "ready p" and "trim l = l" and "trim_end l = l"
    and "handle_hunk_headers_and_end_patch p l = (Inr True, p')"
  shows "process_line p l = (Inr (), p')"
  using assms by (cases "mode p") (simp_all add: process_line_def ready_def)

lemma process_file_headers:
  assumes "ready p" and "header_text path"
  shows "process_line p (ADD_FILE_MARKER @ path) =
      (Inr (), p\<lparr>hunks := hunks p @ [AddFile path []], mode := AddFileMode\<rparr>)"
    and "process_line p (DELETE_FILE_MARKER @ path) =
      (Inr (), p\<lparr>hunks := hunks p @ [DeleteFile path], mode := DeleteFileMode\<rparr>)"
    and "process_line p (UPDATE_FILE_MARKER @ path) =
      (Inr (), p\<lparr>hunks := hunks p @ [UpdateFile path None []], mode := UpdateFileMode (line_number p)\<rparr>)"
  using assms(1) header_trim[OF assms(2)] header_text_trim[OF assms(2)]
  by (simp_all add: process_header_line handle_hunk_headers_and_end_patch_def push_hunk_def ready_def
      split: parser_mode.splits)

lemma process_move_line:
  assumes "mode p = UpdateFileMode n" and "hunks p = hs @ [UpdateFile path None []]" and "header_text d"
  shows "process_line p (MOVE_TO_MARKER @ d) = (Inr (), p\<lparr>hunks := hs @ [UpdateFile path (Some d) []]\<rparr>)"
  using process_line_in_update[OF assms(1,2), of "MOVE_TO_MARKER @ d" "Some d" "[]"] header_text_trim[OF assms(3)]
  by (simp add: update_hunk_line_def Let_def last_chunk_ends_file_def)

lemma process_add_lines:
  assumes "mode p = AddFileMode" and "hunks p = hs @ [AddFile path contents]"
  shows "process_lines p (map ((#) 43) ls) =
     (Inr (), p\<lparr>line_number := line_number p + length ls,
                hunks := hs @ [AddFile path (contents @ unlines ls)]\<rparr>)"
  using assms
proof (induction ls arbitrary: p contents)
  case (Cons l ls)
  let ?p = "p\<lparr>line_number := Suc (line_number p)\<rparr>"
  obtain s' where s: "trim (43 # l) = 43 # s'"
    using trim_end_sign[of 43 l] by (auto simp: trim_def trim_start_def is_whitespace_def)
  have "handle_hunk_headers_and_end_patch ?p (trim (43 # l)) = (Inr False, ?p)"
    using Cons.prems not_header_char[of 43 s'] unfolding s
    by (simp add: handle_hunk_headers_and_end_patch_def)
  then have "process_line ?p (43 # l) = (Inr (), ?p\<lparr>hunks := hs @ [AddFile path (contents @ l @ [NL])]\<rparr>)"
    using Cons.prems by (simp add: process_line_def Let_def lit_simps strip_prefix_def starts_with_def)
  then show ?case using Cons by simp
qed simp

lemma unlines_butlast_split:
  "contents = [] \<or> last contents = NL \<Longrightarrow> unlines (butlast (split_on NL contents)) = contents"
proof -
  assume c: "contents = [] \<or> last contents = NL"
  let ?ls = "split_on NL contents"
  have "unlines (butlast ?ls) @ last ?ls = contents"
    using join_unlines[of "butlast ?ls" "last ?ls"] join_split_on[of NL contents] by simp
  moreover have "last ?ls = []"
  proof (rule ccontr)
    assume n: "last ?ls \<noteq> []"
    with calculation have "last contents = last (last ?ls)" "contents \<noteq> []"
      by (metis last_appendR, metis append_is_Nil_conv)
    moreover have "NL \<notin> set (last ?ls)" using split_on_no_sep[of "last ?ls" NL contents] by simp
    ultimately show False using c n last_in_set by metis
  qed
  ultimately show ?thesis by simp
qed

lemma ready_after_hunk:
  assumes "hunk_renderable h" and "hunks p = hs @ [h]" and "mode p \<noteq> NotStarted" "mode p \<noteq> EndedPatch"
  shows "ready p"
proof (cases h)
  case (UpdateFile path mv cs)
  with assms(1) obtain cs' c where "cs = cs' @ [c]" "\<not> chunk_is_empty c"
    by (cases cs rule: rev_cases) (auto simp: chunk_renderable_def)
  with UpdateFile assms show ?thesis
    by (simp add: ready_def ensure_last_chunk[of p path mv cs' c])
qed (use assms in \<open>simp_all add: ready_def ensure_update_hunk_is_not_empty_def\<close>)

lemma process_hunk:
  assumes "ready p" and "hunk_renderable h"
  shows "\<exists>k m. process_lines p (render_hunk h) =
      (Inr (), p\<lparr>line_number := k, hunks := hunks p @ [h], mode := m\<rparr>) \<and>
      m \<noteq> NotStarted \<and> m \<noteq> EndedPatch"
proof -
  let ?p = "p\<lparr>line_number := Suc (line_number p)\<rparr>"
  have rp: "ready ?p" using assms(1) by simp
  show ?thesis
  proof (cases h)
    case (AddFile path contents)
    with assms(2) have "header_text path" "unlines (butlast (split_on NL contents)) = contents"
      by (simp_all add: unlines_butlast_split)
    with AddFile show ?thesis
      by (intro exI[of _ "Suc (line_number p + (length (split_on NL contents) - 1))"] exI[of _ AddFileMode])
        (simp add: process_file_headers[OF rp] process_add_lines)
  next
    case (DeleteFile path)
    with assms(2) show ?thesis
      by (intro exI[of _ "Suc (line_number p)"] exI[of _ DeleteFileMode])
        (simp add: process_file_headers[OF rp])
  next
    case (UpdateFile path mv cs)
    let ?q = "?p\<lparr>hunks := hunks p @ [UpdateFile path None []], mode := UpdateFileMode (Suc (line_number p))\<rparr>"
    have h: "process_line ?p (UPDATE_FILE_MARKER @ path) = (Inr (), ?q)"
      using assms(2) UpdateFile process_file_headers(3)[OF rp] by simp
    have cs: "list_all chunk_renderable cs" using assms(2) UpdateFile by simp
    have mv: "\<exists>k. process_lines ?q (case mv of None \<Rightarrow> [] | Some d \<Rightarrow> [MOVE_TO_MARKER @ d]) =
        (Inr (), ?q\<lparr>line_number := k, hunks := hunks p @ [UpdateFile path mv []]\<rparr>)"
      using assms(2) UpdateFile
      by (intro exI[of _ "line_number ?q + (case mv of None \<Rightarrow> 0 | Some _ \<Rightarrow> 1)"])
        (cases mv; simp add: process_move_line)
    then obtain k where k: "process_lines ?q (case mv of None \<Rightarrow> [] | Some d \<Rightarrow> [MOVE_TO_MARKER @ d]) =
        (Inr (), ?q\<lparr>line_number := k, hunks := hunks p @ [UpdateFile path mv []]\<rparr>)" ..
    let ?r = "?q\<lparr>line_number := k, hunks := hunks p @ [UpdateFile path mv []]\<rparr>"
    obtain k' where "process_lines ?r (concat (map render_chunk cs)) =
        (Inr (), ?r\<lparr>line_number := k', hunks := hunks p @ [UpdateFile path mv cs]\<rparr>)"
      using process_chunks[of ?r _ "hunks p" path mv "[]" cs] cs by (auto simp: last_chunk_empty_def)
    with k h UpdateFile show ?thesis
      by (intro exI[of _ k'] exI[of _ "UpdateFileMode (Suc (line_number p))"]) (simp add: process_lines_append)
  qed
qed

lemma process_hunks:
  assumes "ready p" and "list_all hunk_renderable hs"
  shows "\<exists>k m. process_lines p (concat (map render_hunk hs)) =
      (Inr (), p\<lparr>line_number := k, hunks := hunks p @ hs, mode := m\<rparr>) \<and>
      ready (p\<lparr>line_number := k, hunks := hunks p @ hs, mode := m\<rparr>)"
  using assms
proof (induction hs arbitrary: p)
  case Nil
  then show ?case by (intro exI[of _ "line_number p"] exI[of _ "mode p"]) simp
next
  case (Cons h hs)
  then obtain k m where h: "process_lines p (render_hunk h) =
      (Inr (), p\<lparr>line_number := k, hunks := hunks p @ [h], mode := m\<rparr>)" "m \<noteq> NotStarted" "m \<noteq> EndedPatch"
    using process_hunk[of p h] by auto
  let ?q = "p\<lparr>line_number := k, hunks := hunks p @ [h], mode := m\<rparr>"
  have "ready ?q" using ready_after_hunk[of h ?q "hunks p"] h Cons.prems by simp
  then obtain k' m' where "process_lines ?q (concat (map render_hunk hs)) =
      (Inr (), ?q\<lparr>line_number := k', hunks := hunks ?q @ hs, mode := m'\<rparr>)"
      "ready (?q\<lparr>line_number := k', hunks := hunks ?q @ hs, mode := m'\<rparr>)"
    using Cons.IH[of ?q] Cons.prems by auto
  with h(1) show ?case
    by (intro exI[of _ k'] exI[of _ m']) (simp add: process_lines_append)
qed

definition env_line :: "str option \<Rightarrow> str list" where
  "env_line eid = (case eid of None \<Rightarrow> [] | Some e \<Rightarrow> [ENVIRONMENT_ID_MARKER @ lit '' '' @ e])"

text \<open>The part of a patch before its last line.\<close>

definition patch_body :: "str option \<Rightarrow> hunk list \<Rightarrow> str list" where
  "patch_body eid hs = [BEGIN_PATCH_MARKER] @ env_line eid @ concat (map render_hunk hs)"

definition env_renderable :: "str option \<Rightarrow> bool" where
  "env_renderable eid = (case eid of None \<Rightarrow> True | Some e \<Rightarrow> e \<noteq> [] \<and> trimmed e \<and> NL \<notin> set e)"

lemma trim_marker_lines:
  "trim BEGIN_PATCH_MARKER = BEGIN_PATCH_MARKER" "trim END_PATCH_MARKER = END_PATCH_MARKER"
  by (simp_all add: marker_defs lit_simps trim_def trim_start_def trim_end_def is_whitespace_def)

lemma process_env_line:
  assumes "mode p = StartedPatch" "environment_id p = None" "e \<noteq> []" "trimmed e"
  shows "process_line p (ENVIRONMENT_ID_MARKER @ SPACE # e) = (Inr (), p\<lparr>environment_id := Some e\<rparr>)"
proof -
  let ?l = "ENVIRONMENT_ID_MARKER @ SPACE # e"
  have "trim_end ?l = ?l"
    using assms(3,4) by (intro trim_end_id) (simp add: trimmed_end_def trimmed_def)
  then have t: "trim ?l = ?l" by (simp add: trim_def star_markers_append trim_star)
  have "trim (SPACE # e) = e" using trim_id[OF assms(4)] by (simp add: trim_def trim_start_def)
  then show ?thesis
    using assms by (simp add: process_line_def Let_def t handle_hunk_headers_and_end_patch_def)
qed

lemma process_patch_body:
  assumes "env_renderable eid" and "list_all hunk_renderable hs"
  shows "\<exists>p. process_lines new_patch_parser (patch_body eid hs) = (Inr (), p) \<and> ready p \<and>
     hunks p = hs \<and> environment_id p = eid \<and> line_buffer p = []"
proof -
  let ?p0 = "new_patch_parser\<lparr>line_number := 1, mode := StartedPatch\<rparr>"
  have s: "process_line (new_patch_parser\<lparr>line_number := 1\<rparr>) BEGIN_PATCH_MARKER = (Inr (), ?p0)"
    by (simp add: process_line_def new_patch_parser_def trim_marker_lines)
  let ?p1 = "?p0\<lparr>line_number := 1 + length (env_line eid), environment_id := eid\<rparr>"
  have e: "process_lines ?p0 (env_line eid) = (Inr (), ?p1)"
    using assms(1)
    by (cases eid) (auto simp: env_line_def env_renderable_def process_env_line new_patch_parser_def lit_simps)
  have "ready ?p1" by (simp add: ready_def ensure_update_hunk_is_not_empty_def new_patch_parser_def)
  then obtain k m where "process_lines ?p1 (concat (map render_hunk hs)) =
      (Inr (), ?p1\<lparr>line_number := k, hunks := hunks ?p1 @ hs, mode := m\<rparr>)"
      "ready (?p1\<lparr>line_number := k, hunks := hunks ?p1 @ hs, mode := m\<rparr>)"
    using process_hunks[of ?p1 hs] assms(2) by blast
  then show ?thesis
    using s e by (auto simp: patch_body_def process_lines_append new_patch_parser_def)
qed
lemma is_line_marker:
  assumes "header_text s" and "NL \<notin> set m"
  shows "is_line (m @ s)"
  using assms by (auto simp: is_line_def header_text_def trimmed_end_def is_whitespace_def)

lemma is_line_sign: "is_line l \<Longrightarrow> c \<noteq> NL \<Longrightarrow> c \<noteq> CR \<Longrightarrow> is_line (c # l)"
  by (auto simp: is_line_def)

lemma NL_not_in_markers [simp]:
  "NL \<notin> set ADD_FILE_MARKER" "NL \<notin> set DELETE_FILE_MARKER" "NL \<notin> set UPDATE_FILE_MARKER"
  "NL \<notin> set MOVE_TO_MARKER" "NL \<notin> set CHANGE_CONTEXT_MARKER" "NL \<notin> set ENVIRONMENT_ID_MARKER"
  by (simp_all add: marker_defs lit_simps del: set_lit)

lemma is_line_markers [simp]:
  "is_line BEGIN_PATCH_MARKER" "is_line END_PATCH_MARKER" "is_line EOF_MARKER"
  "is_line EMPTY_CHANGE_CONTEXT_MARKER"
  by (simp_all add: marker_defs lit_simps is_line_def del: set_lit)

lemma render_chunk_lines: "chunk_renderable c \<Longrightarrow> list_all is_line (render_chunk c)"
  by (auto simp: chunk_renderable_def render_chunk_def list_all_iff is_line_sign is_line_marker split: option.splits)

lemma render_hunk_lines: "hunk_renderable h \<Longrightarrow> list_all is_line (render_hunk h)"
proof (cases h)
  case (AddFile path contents)
  moreover assume "hunk_renderable h"
  ultimately show ?thesis
    by (auto simp: list_all_iff is_line_sign is_line_marker dest: in_set_butlastD)
next
  case (UpdateFile path mv cs)
  moreover assume "hunk_renderable h"
  ultimately show ?thesis
    by (auto simp: list_all_iff is_line_marker split: option.splits
        dest!: render_chunk_lines[unfolded list_all_iff, THEN bspec, rotated])
qed (simp add: is_line_marker)

lemma patch_body_lines:
  assumes "env_renderable eid" and "list_all hunk_renderable hs"
  shows "list_all is_line (patch_body eid hs)"
proof -
  have "list_all is_line (env_line eid)"
  proof (cases eid)
    case (Some e)
    then have "header_text (SPACE # e)" using assms(1)
      by (auto simp: env_renderable_def header_text_def trimmed_end_def trimmed_def)
    then show ?thesis using Some by (simp add: env_line_def is_line_marker lit_simps)
  qed (simp add: env_line_def)
  moreover have "list_all is_line (concat (map render_hunk hs))"
    using assms(2) by (auto simp: list_all_iff dest!: render_hunk_lines)
  ultimately show ?thesis by (simp add: patch_body_def)
qed

lemma render_patch_body: "render_patch eid hs = unlines (patch_body eid hs) @ END_PATCH_MARKER"
  using join_unlines[of "patch_body eid hs" END_PATCH_MARKER]
  by (simp add: render_patch_def patch_body_def env_line_def del: unlines_simps)

lemma trimmed_render_patch: "trimmed (render_patch eid hs)"
proof -
  have "last END_PATCH_MARKER = 104" "hd BEGIN_PATCH_MARKER = 42" "BEGIN_PATCH_MARKER \<noteq> []" "END_PATCH_MARKER \<noteq> []"
    by (simp_all add: marker_defs lit_simps)
  then show ?thesis
    by (simp add: render_patch_body patch_body_def trimmed_def is_whitespace_def)
qed

lemma END_PATCH_MARKER_nonempty [simp]: "END_PATCH_MARKER \<noteq> []"
  by (simp add: marker_defs)

lemma str_lines_render_patch:
  assumes "env_renderable eid" and "list_all hunk_renderable hs"
  shows "str_lines (render_patch eid hs) = patch_body eid hs @ [END_PATCH_MARKER]"
  unfolding render_patch_body join_unlines[symmetric]
  by (rule str_lines_join) (use patch_body_lines[OF assms] in \<open>auto simp: list_all_iff\<close>)

lemma strict_boundaries:
  assumes "trim a = BEGIN_PATCH_MARKER" and "trim b = END_PATCH_MARKER"
  shows "check_patch_boundaries_strict (a # ls @ [b]) = Inr (a # ls @ [b])"
  using assms by (simp add: check_patch_boundaries_strict_def check_start_and_end_lines_strict_def last_opt_def)

lemma patch_body_strict:
  "check_patch_boundaries_strict (patch_body eid hs @ [END_PATCH_MARKER]) =
   Inr (patch_body eid hs @ [END_PATCH_MARKER])"
  using strict_boundaries[OF trim_marker_lines, of "env_line eid @ concat (map render_hunk hs)"]
  by (simp add: patch_body_def)

lemma ensure_ignores_buffer [simp]:
  "ensure_update_hunk_is_not_empty (p\<lparr>line_buffer := b, line_number := k\<rparr>) l =
   ensure_update_hunk_is_not_empty (p\<lparr>line_number := k\<rparr>) l"
proof (cases p)
  case (fields lb ln m hs eid)
  show ?thesis
    unfolding fields ensure_update_hunk_is_not_empty_def patch_parser.select_convs patch_parser.update_convs
    by (rule refl)
qed

lemma finish_at_end_marker:
  assumes "ready p" and "line_buffer p = []"
  shows "\<exists>p'. finish_parser (p\<lparr>line_buffer := END_PATCH_MARKER\<rparr>) = (Inr (hunks p), p') \<and>
     environment_id p' = environment_id p"
proof -
  have "ready (p\<lparr>line_number := Suc (line_number p)\<rparr>)" using assms(1) by simp
  then have "ensure_update_hunk_is_not_empty (p\<lparr>line_number := Suc (line_number p)\<rparr>) l = Inr ()" for l
    by (simp only: ready_def)
  then have "ensure_update_hunk_is_not_empty (p\<lparr>line_buffer := [], line_number := Suc (line_number p)\<rparr>) l = Inr ()" for l
    by simp
  then show ?thesis
    by (simp add: finish_parser_def finish_buffer_def Let_def trim_marker_lines)
qed

lemma parse_rendered_lines:
  assumes "env_renderable eid" and "list_all hunk_renderable hs"
  shows "\<exists>p1 p2. push_delta new_patch_parser (render_patch eid hs) = (Inr hs, p1) \<and>
     finish_parser p1 = (Inr hs, p2) \<and> environment_id p2 = eid"
proof -
  from process_patch_body[OF assms] obtain p where
    p: "process_lines new_patch_parser (patch_body eid hs) = (Inr (), p)" "ready p"
      "hunks p = hs" "environment_id p = eid" "line_buffer p = []" by blast
  have "line_buffer new_patch_parser = []" by (simp add: new_patch_parser_def)
  then have "push_chars new_patch_parser (render_patch eid hs) = push_chars p END_PATCH_MARKER"
    using push_chars_unlines[of new_patch_parser "patch_body eid hs" END_PATCH_MARKER]
      patch_body_lines[OF assms] by (simp add: p(1) render_patch_body list_all_iff)
  also have "\<dots> = (Inr (), p\<lparr>line_buffer := END_PATCH_MARKER\<rparr>)"
    using push_chars_buffer[of END_PATCH_MARKER p "[]"] p(5) by (simp add: marker_defs lit_simps)
  finally show ?thesis
    using finish_at_end_marker[OF p(2,5)] p(3,4) by (auto simp: push_delta_def)
qed

lemma parse_patch_text_rendered:
  assumes "env_renderable eid" and "list_all hunk_renderable hs"
  shows "parse_patch_text (render_patch eid hs) m =
     Inr \<lparr>args_patch = render_patch eid hs, args_hunks = hs, args_workdir = None,
          args_environment_id = eid\<rparr>"
proof -
  have "join [NL] (patch_body eid hs @ [END_PATCH_MARKER]) = render_patch eid hs"
    by (simp add: join_unlines render_patch_body)
  moreover from parse_rendered_lines[OF assms] obtain p1 p2 where
    "push_delta new_patch_parser (render_patch eid hs) = (Inr hs, p1)"
    "finish_parser p1 = (Inr hs, p2)" "environment_id p2 = eid" by blast
  ultimately show ?thesis
    using str_lines_render_patch[OF assms]
    by (simp add: parse_patch_text_def trim_id[OF trimmed_render_patch]
        check_patch_boundaries_lenient_def patch_body_strict split: parse_mode.split)
qed

text \<open>
  C32. Round trip: the text of a list of hunks parses back to exactly those hunks, with its
  environment id, for all paths, contexts and lines that the line-based format can carry.
\<close>

theorem parse_render_patch:
  assumes "env_renderable eid" and "list_all hunk_renderable hs"
  shows "parse_patch (render_patch eid hs) =
     Inr \<lparr>args_patch = render_patch eid hs, args_hunks = hs, args_workdir = None,
          args_environment_id = eid\<rparr>"
  unfolding parse_patch_def by (rule parse_patch_text_rendered[OF assms])

theorem parse_render_patch_witness:
  "is_ok (parse_patch (render_patch (Some (lit ''env''))
     [AddFile (lit ''a.txt'') (lit ''hi'' @ [NL]),
      UpdateFile (lit ''b c'') (Some (lit ''d''))
        [\<lparr>change_context = Some (lit ''fn f''), old_lines = [lit ''x''], new_lines = [[], lit ''y''], is_end_of_file = True\<rparr>],
      DeleteFile (lit ''e'')]) )"
  by (subst parse_render_patch)
    (simp_all add: env_renderable_def header_text_def trimmed_def trimmed_end_def is_whitespace_def lit_simps
      chunk_renderable_def chunk_is_empty_def is_line_def)

section \<open>Heredoc leniency\<close>

lemma split_inclusive_append:
  "s \<noteq> [] \<Longrightarrow> last s \<noteq> NL \<Longrightarrow>
   split_inclusive_nl (s @ NL # t) =
     butlast (split_inclusive_nl s) @ [last (split_inclusive_nl s) @ [NL]] @ split_inclusive_nl t \<and>
   split_inclusive_nl s \<noteq> []"
proof (induction s)
  case (Cons x s)
  show ?case
  proof (cases "s = []")
    case False
    with Cons show ?thesis by (cases "split_inclusive_nl s") auto
  qed (use Cons in auto)
qed simp

lemma split_inclusive_last_line:
  "s \<noteq> [] \<Longrightarrow> last s \<noteq> NL \<Longrightarrow>
   last (split_inclusive_nl s) \<noteq> [] \<and> NL \<notin> set (last (split_inclusive_nl s)) \<and>
   last (last (split_inclusive_nl s)) = last s"
proof (induction s)
  case (Cons x s)
  show ?case
  proof (cases "s = []")
    case False
    with Cons.prems Cons.IH split_inclusive_append[of s "[]"] show ?thesis
      by (cases "split_inclusive_nl s") (auto split: if_splits)
  qed (use Cons in auto)
qed simp

lemma str_lines_append_line:
  assumes "s \<noteq> []" and "last s \<noteq> NL" and "last s \<noteq> CR"
  shows "str_lines (s @ NL # t) = str_lines s @ str_lines t"
proof -
  let ?l = "last (split_inclusive_nl s)"
  have l: "?l \<noteq> []" "NL \<notin> set ?l" "last ?l = last s"
    using split_inclusive_last_line[OF assms(1,2)] by auto
  have "strip_line_end (?l @ [NL]) = ?l"
    using l assms by (simp add: strip_cr_id is_line_def)
  moreover have "map strip_line_end (split_inclusive_nl s) =
      map strip_line_end (butlast (split_inclusive_nl s)) @ [?l]"
  proof -
    have "split_inclusive_nl s = butlast (split_inclusive_nl s) @ [?l]"
      using split_inclusive_append[OF assms(1,2), of t] by simp
    from arg_cong[OF this, of "map strip_line_end"] strip_line_end_other[OF l(2)]
    show ?thesis by (simp del: append_butlast_last_id)
  qed
  ultimately show ?thesis
    using split_inclusive_append[OF assms(1,2), of t] by (simp add: str_lines_def)
qed

lemma strict_boundaries_Inr:
  assumes "check_patch_boundaries_strict ls = Inr ls'"
  shows "ls' = ls \<and> (\<exists>a m b. ls = a # m @ [b])"
proof -
  have n: "BEGIN_PATCH_MARKER \<noteq> END_PATCH_MARKER" "END_PATCH_MARKER \<noteq> BEGIN_PATCH_MARKER"
    by (simp_all add: marker_defs lit_simps)
  from assms have "ls' = ls"
    by (auto simp: check_patch_boundaries_strict_def split: sum.splits)
  moreover from assms n obtain a ls0 where "ls = a # ls0" "ls0 \<noteq> []"
    by (cases ls; cases "tl ls") (auto simp: check_patch_boundaries_strict_def
        check_start_and_end_lines_strict_def split: sum.splits if_splits)
  ultimately show ?thesis by (metis rev_exhaust)
qed

text \<open>The three ways to write the first line of the heredoc.\<close>

definition heredoc :: "str \<Rightarrow> str \<Rightarrow> str" where
  "heredoc q s = lit ''<<'' @ q @ lit ''EOF'' @ q @ NL # s @ NL # lit ''EOF''"

text \<open>
  Lenient mode is conservative and transparent: a patch that the strict mode accepts gives
  the same result when it is passed to \<open>parse_patch\<close>, bare or wrapped in a heredoc with a bare, a
  single-quoted or a double-quoted delimiter.
\<close>

theorem parse_patch_heredoc:
  assumes "parse_patch_text s Strict = Inr args" and "trimmed s" and "q \<in> {[], [39], [34]}"
  shows "parse_patch s = Inr args \<and> parse_patch (heredoc q s) = Inr args"
proof -
  let ?first = "lit ''<<'' @ q @ lit ''EOF'' @ q"
  have strict: "check_patch_boundaries_strict (str_lines s) = Inr (str_lines s)"
    using assms(1) by (auto simp: parse_patch_text_def trim_id[OF assms(2)] dest: strict_boundaries_Inr split: sum.splits)
  then obtain a m b where lines: "str_lines s = a # m @ [b]" using strict_boundaries_Inr by blast
  then have ne: "s \<noteq> []" by (auto simp: str_lines_def)
  then have last: "last s \<noteq> NL" "last s \<noteq> CR"
    using assms(2) by (auto simp: trimmed_def is_whitespace_def)
  have eof: "str_lines (lit ''EOF'') = [lit ''EOF'']"
    using str_lines_join[of "[lit ''EOF'']"] by (simp add: is_line_def lit_simps)
  have first: "NL \<notin> set ?first" "is_line ?first" "?first \<noteq> []"
    using assms(3) by (auto simp: lit_simps is_line_def simp del: set_lit)
  have "str_lines (?first @ NL # s @ NL # lit ''EOF'') = ?first # str_lines (s @ NL # lit ''EOF'')"
    using split_inclusive_line[OF first(1)] strip_cr_id[OF first(2)] strip_line_end_nl[of ?first]
    by (simp add: str_lines_def)
  then have all: "str_lines (heredoc q s) = ?first # a # m @ [b, lit ''EOF'']"
    using str_lines_append_line[OF ne last] by (simp add: lines eof heredoc_def)
  have "trimmed (heredoc q s)"
    by (simp add: heredoc_def trimmed_def is_whitespace_def lit_simps)
  moreover have "check_patch_boundaries_lenient (str_lines (heredoc q s)) = Inr (str_lines s)"
  proof -
    have "trim ?first \<noteq> BEGIN_PATCH_MARKER"
      using assms(3) by (auto simp: trim_def trim_start_def trim_end_def is_whitespace_def lit_simps marker_defs)
    then obtain e where e: "check_patch_boundaries_strict (str_lines (heredoc q s)) = Inl e"
      by (auto simp: all check_patch_boundaries_strict_def check_start_and_end_lines_strict_def
          last_opt_def)
    have "?first \<in> {lit ''<<EOF'', lit ''<<'' @ quoted (lit ''EOF''), lit ''<<'' @ [34] @ lit ''EOF'' @ [34]}"
      using assms(3) by (auto simp: lit_simps quoted_def)
    moreover have "ends_with (lit ''EOF'') (lit ''EOF'')" by (simp add: ends_with_def)
    ultimately show ?thesis
      using e strict unfolding check_patch_boundaries_lenient_def
      by (simp add: all lines butlast_append)
  qed
  moreover have "check_patch_boundaries_lenient (str_lines s) = Inr (str_lines s)"
    using strict by (simp add: check_patch_boundaries_lenient_def)
  ultimately show ?thesis
    using assms(1) by (simp add: parse_patch_def parse_patch_text_def trim_id assms(2) strict)
qed

theorem parse_patch_heredoc_witness:
  "is_ok (parse_patch (heredoc [39] (render_patch None [DeleteFile (lit ''e'')])))"
proof -
  let ?s = "render_patch None [DeleteFile (lit ''e'')]"
  have r: "list_all hunk_renderable [DeleteFile (lit ''e'')]" "env_renderable None"
    by (simp_all add: header_text_def trimmed_end_def is_whitespace_def lit_simps env_renderable_def)
  note parse_patch_text_rendered[OF r(2,1), of Strict]
  from parse_patch_heredoc[OF this trimmed_render_patch, of "[39]"] show ?thesis by simp
qed

theorem parse_patch_complete_witness:
  "list_all hunk_complete [DeleteFile (lit ''e'')]"
proof -
  have r: "list_all hunk_renderable [DeleteFile (lit ''e'')]" "env_renderable None"
    by (simp_all add: header_text_def trimmed_end_def is_whitespace_def lit_simps env_renderable_def)
  then have "\<exists>args. parse_patch (render_patch None [DeleteFile (lit ''e'')]) = Inr args \<and>
      args_hunks args = [DeleteFile (lit ''e'')]"
    unfolding parse_patch_def using parse_patch_text_rendered[OF r(2,1)] by simp
  then obtain args where "parse_patch (render_patch None [DeleteFile (lit ''e'')]) = Inr args"
    "args_hunks args = [DeleteFile (lit ''e'')]" by blast
  with parse_patch_complete[of "render_patch None [DeleteFile (lit ''e'')]" args] show ?thesis by simp
qed

end
