(* ===== verification/PatchApply.thy ===== *)
theory PatchApply
  imports SeekSequence PatchText
begin

text \<open>
  Turning the chunks of an update into new file contents: \<open>compute_replacements\<close>,
  \<open>apply_replacements\<close> and the pure part of \<open>derive_new_contents_from_chunks\<close> in
  codex-rs/apply-patch/src/lib.rs. \<open>Vec::insert\<close> panics past the end of the vector, so the
  in-place editing is an option; the first group of lemmas shows that it never is \<open>None\<close>. The
  second group compares the in-place editing with a left-to-right cut of the file.
\<close>

section \<open>Errors\<close>

datatype io_kind = NotFound | InvalidInput | OtherIo

record io_error =
  io_kind :: io_kind
  io_message :: str

datatype apply_patch_error =
    ParseError parse_error
  | IoError str io_error \<comment> \<open>context and source\<close>
  | ComputeReplacements str
  | PathUri str
  | ImplicitInvocation

section \<open>Computing and applying replacements\<close>

type_synonym replacement = "nat \<times> nat \<times> str list" \<comment> \<open>start index, old length, new lines\<close>

definition ends_with_empty :: "str list \<Rightarrow> bool" where
  "ends_with_empty ls \<longleftrightarrow> (case last_opt ls of Some l \<Rightarrow> l = [] | None \<Rightarrow> False)"

definition msg_no_context :: "str \<Rightarrow> str \<Rightarrow> str" where
  "msg_no_context ctx path = lit ''Failed to find context '' @ quoted ctx @ lit '' in '' @ path"

definition msg_no_lines_found :: "str \<Rightarrow> str list \<Rightarrow> str" where
  "msg_no_lines_found path old = lit ''Failed to find expected lines in '' @ path @ lit '':'' @ [NL] @ join [NL] old"

text \<open>The start of the search after the context line of a chunk.\<close>

definition context_index :: "str list \<Rightarrow> str \<Rightarrow> nat \<Rightarrow> update_file_chunk \<Rightarrow> apply_patch_error + nat" where
  "context_index original path line_index chunk =
     (case change_context chunk of
        None \<Rightarrow> Inr line_index
      | Some ctx \<Rightarrow>
          (case seek_sequence original [ctx] line_index False of
             Some idx \<Rightarrow> Inr (idx + 1)
           | None \<Rightarrow> Inl (ComputeReplacements (msg_no_context ctx path))))"

text \<open>Where a chunk without old lines is inserted.\<close>

definition insertion_index :: "str list \<Rightarrow> nat" where
  "insertion_index original = (if ends_with_empty original then length original - 1 else length original)"

text \<open>The search for the old lines, retried without a final empty line: the position, the pattern
  that was found and the lines that replace it.\<close>

definition find_old_lines ::
    "str list \<Rightarrow> nat \<Rightarrow> update_file_chunk \<Rightarrow> (nat \<times> str list \<times> str list) option" where
  "find_old_lines original line_index chunk =
     (case seek_sequence original (old_lines chunk) line_index (is_end_of_file chunk) of
        Some i \<Rightarrow> Some (i, old_lines chunk, new_lines chunk)
      | None \<Rightarrow>
          if ends_with_empty (old_lines chunk) then
            (let pat = butlast (old_lines chunk);
                 new = (if ends_with_empty (new_lines chunk) then butlast (new_lines chunk) else new_lines chunk)
             in map_option (\<lambda>i. (i, pat, new))
                  (seek_sequence original pat line_index (is_end_of_file chunk)))
          else None)"

fun compute_loop ::
    "str list \<Rightarrow> str \<Rightarrow> nat \<Rightarrow> replacement list \<Rightarrow> update_file_chunk list \<Rightarrow> apply_patch_error + replacement list" where
  "compute_loop original path line_index reps [] = Inr reps"
| "compute_loop original path line_index reps (chunk # chunks) =
     (case context_index original path line_index chunk of
        Inl e \<Rightarrow> Inl e
      | Inr line_index1 \<Rightarrow>
          if old_lines chunk = [] then
            compute_loop original path line_index1
              (reps @ [(insertion_index original, 0, new_lines chunk)]) chunks
          else
            (case find_old_lines original line_index1 chunk of
               Some (start_idx, pat, new) \<Rightarrow>
                 compute_loop original path (start_idx + length pat)
                   (reps @ [(start_idx, length pat, new)]) chunks
             | None \<Rightarrow> Inl (ComputeReplacements (msg_no_lines_found path (old_lines chunk)))))"

definition compute_replacements ::
    "str list \<Rightarrow> str \<Rightarrow> update_file_chunk list \<Rightarrow> apply_patch_error + replacement list" where
  "compute_replacements original path chunks =
     (case compute_loop original path 0 [] chunks of
        Inl e \<Rightarrow> Inl e
      | Inr reps \<Rightarrow> Inr (sort_key fst reps))"

text \<open>The two loops over one replacement; \<open>None\<close> is the panic of \<open>Vec::insert\<close>.\<close>

fun remove_loop :: "nat \<Rightarrow> nat \<Rightarrow> str list \<Rightarrow> str list" where
  "remove_loop start 0 ls = ls"
| "remove_loop start (Suc n) ls =
     remove_loop start n (if start < length ls then vec_remove start ls else ls)"

fun insert_loop :: "nat \<Rightarrow> str list \<Rightarrow> str list \<Rightarrow> str list option" where
  "insert_loop at [] ls = Some ls"
| "insert_loop at (l # new) ls =
     (case vec_insert at l ls of None \<Rightarrow> None | Some ls' \<Rightarrow> insert_loop (at + 1) new ls')"

definition apply_replacement :: "replacement \<Rightarrow> str list \<Rightarrow> str list option" where
  "apply_replacement r ls = (case r of (start_idx, old_len, new) \<Rightarrow>
     insert_loop start_idx new (remove_loop start_idx old_len ls))"

fun apply_all :: "replacement list \<Rightarrow> str list \<Rightarrow> str list option" where
  "apply_all [] ls = Some ls"
| "apply_all (r # rs) ls =
     (case apply_replacement r ls of None \<Rightarrow> None | Some ls' \<Rightarrow> apply_all rs ls')"

definition apply_replacements :: "str list \<Rightarrow> replacement list \<Rightarrow> str list option" where
  "apply_replacements ls reps = apply_all (rev reps) ls"

text \<open>The contents of the updated file; the outer option is the panic.\<close>

definition file_lines :: "str \<Rightarrow> str list" where
  "file_lines contents =
     (let ls = split_on NL contents in if ends_with_empty ls then butlast ls else ls)"

definition render_lines :: "str list \<Rightarrow> str" where
  "render_lines ls = join [NL] (if ends_with_empty ls then ls else ls @ [[]])"

definition new_contents_from_chunks ::
    "str \<Rightarrow> str \<Rightarrow> update_file_chunk list \<Rightarrow> (apply_patch_error + str) option" where
  "new_contents_from_chunks contents path chunks =
     (case compute_replacements (file_lines contents) path chunks of
        Inl e \<Rightarrow> Some (Inl e)
      | Inr reps \<Rightarrow>
          map_option (\<lambda>ls. Inr (render_lines ls)) (apply_replacements (file_lines contents) reps))"

section \<open>One replacement\<close>

lemma remove_loop_eq: "start \<le> length ls \<Longrightarrow> remove_loop start n ls = take start ls @ drop (start + n) ls"
proof (induction n arbitrary: ls)
  case (Suc n)
  show ?case
  proof (cases "start < length ls")
    case True
    with Suc.IH[of "vec_remove start ls"] show ?thesis
      by (simp add: vec_remove_def add.commute)
  next
    case False
    with Suc show ?thesis by simp
  qed
qed simp

lemma insert_loop_eq:
  "at \<le> length ls \<Longrightarrow> insert_loop at new ls = Some (take at ls @ new @ drop at ls)"
proof (induction new arbitrary: at ls)
  case (Cons l new)
  then show ?case by (simp add: vec_insert_Some)
qed simp

lemma apply_replacement_eq:
  "s \<le> length ls \<Longrightarrow>
   apply_replacement (s, n, new) ls = Some (take s ls @ new @ drop (s + n) ls)"
  by (simp add: apply_replacement_def remove_loop_eq insert_loop_eq)

lemma apply_replacement_length:
  "s \<le> length ls \<Longrightarrow> apply_replacement (s, n, new) ls = Some ls' \<Longrightarrow> s \<le> length ls'"
  by (auto simp: apply_replacement_eq)

section \<open>No panic\<close>

lemma apply_all_total:
  "sorted (map fst (rev rs)) \<Longrightarrow> \<forall>r\<in>set rs. fst r \<le> length ls \<Longrightarrow> apply_all rs ls \<noteq> None"
proof (induction rs arbitrary: ls)
  case (Cons r rs)
  obtain s n new where r: "r = (s, n, new)" by (cases r)
  have "\<forall>r'\<in>set rs. fst r' \<le> s"
    using Cons.prems(1) r by (auto simp: sorted_append)
  moreover have "sorted (map fst (rev rs))" using Cons.prems(1) by (simp add: sorted_append)
  ultimately show ?case
    using Cons.prems(2) r Cons.IH[of "take s ls @ new @ drop (s + n) ls"]
    by (fastforce simp: apply_replacement_eq)
qed simp

section \<open>The computed replacements\<close>

lemma compute_loop_acc:
  "compute_loop original path i acc chunks =
     (case compute_loop original path i [] chunks of Inl e \<Rightarrow> Inl e | Inr reps \<Rightarrow> Inr (acc @ reps))"
proof (induction chunks arbitrary: i acc)
  case (Cons c chunks)
  show ?case
  proof (cases "context_index original path i c")
    case (Inr j)
    then show ?thesis
      using Cons.IH[of j "acc @ [(insertion_index original, 0, new_lines c)]"]
        Cons.IH[of j "[(insertion_index original, 0, new_lines c)]"]
        Cons.IH[of _ "acc @ [r]" for r] Cons.IH[of _ "[r]" for r]
      by (auto split: sum.splits option.splits)
  qed simp
qed simp

lemma context_index_bounds:
  assumes "context_index original path i c = Inr j" and "i \<le> length original"
  shows "i \<le> j \<and> j \<le> length original"
  using assms seek_sequence_bounds[of original _ i False] seek_sequence_ge_start[of original _ i]
  by (fastforce simp: context_index_def split: option.splits)

lemma insertion_index_le: "insertion_index original \<le> length original"
  by (simp add: insertion_index_def)

lemma find_old_lines_bounds:
  assumes "find_old_lines original i c = Some (s, pat, new)" and "i \<le> length original"
  shows "s + length pat \<le> length original \<and> (\<not> is_end_of_file c \<longrightarrow> i \<le> s)"
proof -
  have seek: "s + length p \<le> length original \<and> (\<not> e \<longrightarrow> i \<le> s)"
    if "seek_sequence original p i e = Some s" for p e
    using that assms(2) seek_sequence_bounds[OF that] seek_sequence_ge_start[of original p i s]
    by (cases "p = []"; cases e) auto
  show ?thesis
    using assms(1) by (auto simp: find_old_lines_def Let_def dest!: seek split: option.splits if_splits)
qed

definition in_file :: "str list \<Rightarrow> replacement \<Rightarrow> bool" where
  "in_file original r \<longleftrightarrow> fst r + fst (snd r) \<le> length original"

lemma compute_loop_in_file:
  assumes "compute_loop original path i [] chunks = Inr reps" and "i \<le> length original"
  shows "\<forall>r\<in>set reps. in_file original r"
  using assms
proof (induction chunks arbitrary: i reps)
  case (Cons c chunks)
  from Cons.prems obtain j where j: "context_index original path i c = Inr j"
    by (auto split: sum.splits)
  note jb = context_index_bounds[OF j Cons.prems(2)]
  show ?case
  proof (cases "old_lines c = []")
    case True
    with Cons.prems j obtain reps' where "compute_loop original path j [] chunks = Inr reps'"
      "reps = (insertion_index original, 0, new_lines c) # reps'"
      by (auto simp: compute_loop_acc[of _ _ _ "[_]"] split: sum.splits)
    then show ?thesis using Cons.IH jb insertion_index_le by (auto simp: in_file_def)
  next
    case False
    with Cons.prems j obtain s pat new where f: "find_old_lines original j c = Some (s, pat, new)"
      by (auto split: option.splits)
    with Cons.prems j False obtain reps' where "compute_loop original path (s + length pat) [] chunks = Inr reps'"
      "reps = (s, length pat, new) # reps'"
      by (auto simp: compute_loop_acc[of _ _ _ "[_]"] split: sum.splits)
    then show ?thesis using Cons.IH[of "s + length pat" reps'] find_old_lines_bounds[OF f] jb by (auto simp: in_file_def)
  qed
qed simp

lemma compute_replacements_sorted:
  assumes "compute_replacements original path chunks = Inr reps"
  shows "sorted (map fst reps) \<and> (\<forall>r\<in>set reps. in_file original r)"
  using assms compute_loop_in_file[of original path 0 chunks]
  by (auto simp: compute_replacements_def split: sum.splits)

lemma render_lines_end: "render_lines ls = [] \<or> last (render_lines ls) = NL"
proof -
  have j: "join [NL] (xs @ [[]]) = [] \<or> last (join [NL] (xs @ [[]])) = NL" for xs
    by (simp add: join_unlines) (metis append_is_Nil_conv last_appendR last_snoc list.simps(3)
        rev_exhaust unlines_simps(1,2,3))
  show ?thesis
  proof (cases "ends_with_empty ls")
    case True
    then obtain xs where "ls = xs @ [[]]" by (auto simp: ends_with_empty_def last_opt_Some_iff split: option.splits)
    with j[of xs] True show ?thesis by (simp add: render_lines_def)
  qed (use j in \<open>simp add: render_lines_def\<close>)
qed

lemma apply_computed_total:
  assumes "compute_replacements original path chunks = Inr reps"
  shows "apply_replacements original reps \<noteq> None"
  unfolding apply_replacements_def
  by (rule apply_all_total) (use compute_replacements_sorted[OF assms] in \<open>auto simp: in_file_def\<close>)

lemma new_contents_some: "\<exists>r. new_contents_from_chunks contents path chunks = Some r"
  by (cases "compute_replacements (file_lines contents) path chunks")
    (auto simp: new_contents_from_chunks_def dest: apply_computed_total)

text \<open>
  C35. Applying the chunks of an update never panics, whatever the file and the chunks are: the
  indices handed to \<open>Vec::insert\<close> stay in range. A new file is empty or ends with a line feed.
\<close>

theorem new_contents_no_panic:
  "\<exists>r. new_contents_from_chunks contents path chunks = Some r \<and>
       (case r of Inl e \<Rightarrow> \<exists>m. e = ComputeReplacements m | Inr s \<Rightarrow> s = [] \<or> last s = NL)"
proof (cases "compute_replacements (file_lines contents) path chunks")
  case (Inl e)
  have "compute_loop original path i acc chunks = Inl e \<Longrightarrow> \<exists>m. e = ComputeReplacements m"
    for original i acc
    by (induction chunks arbitrary: i acc)
      (auto simp: context_index_def split: sum.splits option.splits if_splits)
  with Inl show ?thesis
    by (auto simp: new_contents_from_chunks_def compute_replacements_def split: sum.splits)
next
  case (Inr reps)
  with apply_computed_total[OF Inr] render_lines_end show ?thesis
    by (auto simp: new_contents_from_chunks_def)
qed

section \<open>Disjoint replacements\<close>

text \<open>The reference: the file cut at the replaced regions, from left to right.\<close>

fun splice :: "nat \<Rightarrow> str list \<Rightarrow> replacement list \<Rightarrow> str list" where
  "splice k ls [] = drop k ls"
| "splice k ls ((s, n, new) # rs) = take (s - k) (drop k ls) @ new @ splice (s + n) ls rs"

fun chained :: "nat \<Rightarrow> replacement list \<Rightarrow> bool" where
  "chained k [] \<longleftrightarrow> True"
| "chained k ((s, n, new) # rs) \<longleftrightarrow> k \<le> s \<and> chained (s + n) rs"

lemma apply_all_append:
  "apply_all (xs @ ys) ls = (case apply_all xs ls of None \<Rightarrow> None | Some ls' \<Rightarrow> apply_all ys ls')"
  by (induction xs arbitrary: ls) (auto split: option.splits)

lemma apply_all_splice:
  "chained k reps \<Longrightarrow> \<forall>r\<in>set reps. in_file ls r \<Longrightarrow>
   apply_all (rev reps) ls = Some (take k ls @ splice k ls reps)"
proof (induction k reps rule: chained.induct)
  case (2 k s n new rs)
  then have s: "k \<le> s" "s + n \<le> length ls"
    and IH: "apply_all (rev rs) ls = Some (take (s + n) ls @ splice (s + n) ls rs)"
    by (auto simp: in_file_def)
  have "take s ls = take k ls @ take (s - k) (drop k ls)"
    using s(1) by (metis le_add_diff_inverse take_add)
  with s IH show ?case by (simp add: apply_all_append apply_replacement_eq)
qed simp

lemma chained_mono: "chained k reps \<Longrightarrow> j \<le> k \<Longrightarrow> chained j reps"
  by (cases reps) auto

lemma insort_addition:
  "chained k reps \<Longrightarrow> \<forall>r\<in>set reps. fst r + fst (snd r) \<le> l \<Longrightarrow> k \<le> l \<Longrightarrow>
   chained k (insort_key fst (l, 0, new) reps)"
  by (induction k reps rule: chained.induct) auto

lemma chained_starts: "chained k reps \<Longrightarrow> r \<in> set reps \<Longrightarrow> k \<le> fst r"
  by (induction k reps rule: chained.induct) auto

lemma insort_first:
  "chained (s + n) reps \<Longrightarrow> insort_key fst (s, n, new) reps = (s, n, new) # reps"
  by (cases reps) auto

text \<open>Chunks whose replacements cannot overlap: none is anchored at the end of the file, and an
  addition without old lines is not placed before a final empty line.\<close>

definition anchored_chunks :: "str list \<Rightarrow> update_file_chunk list \<Rightarrow> bool" where
  "anchored_chunks original chunks \<longleftrightarrow>
     list_all (\<lambda>c. \<not> is_end_of_file c \<and> (old_lines c = [] \<longrightarrow> \<not> ends_with_empty original)) chunks"

lemma compute_loop_chained:
  assumes "compute_loop original path i [] chunks = Inr reps" and "i \<le> length original"
    and "anchored_chunks original chunks"
  shows "chained i (sort_key fst reps)"
  using assms
proof (induction chunks arbitrary: i reps)
  case (Cons c chunks)
  from Cons.prems obtain j where j: "context_index original path i c = Inr j"
    by (auto split: sum.splits)
  note jb = context_index_bounds[OF j Cons.prems(2)]
  show ?case
  proof (cases "old_lines c = []")
    case True
    with Cons.prems j obtain reps' where reps': "compute_loop original path j [] chunks = Inr reps'"
      "reps = (insertion_index original, 0, new_lines c) # reps'"
      by (auto simp: compute_loop_acc[of _ _ _ "[_]"] split: sum.splits)
    moreover have "insertion_index original = length original"
      using True Cons.prems(3) by (simp add: insertion_index_def anchored_chunks_def)
    moreover have "\<forall>r\<in>set reps'. in_file original r"
      using compute_loop_in_file[OF reps'(1)] jb by simp
    ultimately show ?thesis
      using Cons.IH[of j reps'] Cons.prems(2,3) jb
      by (auto simp: in_file_def anchored_chunks_def intro!: insort_addition elim: chained_mono)
  next
    case False
    with Cons.prems j obtain s pat new where f: "find_old_lines original j c = Some (s, pat, new)"
      by (auto split: option.splits)
    with Cons.prems j False obtain reps' where "compute_loop original path (s + length pat) [] chunks = Inr reps'"
      "reps = (s, length pat, new) # reps'"
      by (auto simp: compute_loop_acc[of _ _ _ "[_]"] split: sum.splits)
    moreover have "s + length pat \<le> length original" "j \<le> s"
      using find_old_lines_bounds[OF f] jb Cons.prems(3) by (auto simp: anchored_chunks_def)
    ultimately show ?thesis
      using Cons.IH[of "s + length pat" reps'] Cons.prems(3) jb
      by (auto simp: anchored_chunks_def insort_first)
  qed
qed simp

text \<open>
  C34. Refinement of the in-place editing: when no chunk is anchored at the end of the file and
  no pure addition goes before a final empty line, the replacements are disjoint and editing
  the vector in place from the back is cutting the file from left to right at the replaced
  regions, so that no line of any chunk is lost.
\<close>

theorem apply_replacements_splice:
  assumes "compute_replacements original path chunks = Inr reps"
    and "anchored_chunks original chunks"
  shows "chained 0 reps \<and> apply_replacements original reps = Some (splice 0 original reps)"
proof -
  from assms(1) obtain reps' where r: "compute_loop original path 0 [] chunks = Inr reps'" "reps = sort_key fst reps'"
    by (auto simp: compute_replacements_def split: sum.splits)
  have "chained 0 reps"
    using compute_loop_chained[OF r(1) _ assms(2)] r(2) by simp
  with compute_replacements_sorted[OF assms(1)] show ?thesis
    by (simp add: apply_replacements_def apply_all_splice)
qed

section \<open>An exact block\<close>

lemma file_lines_render:
  assumes "\<forall>l\<in>set ls. NL \<notin> set l" and "\<not> ends_with_empty ls"
  shows "file_lines (render_lines ls) = ls"
proof -
  have "split_on NL (join [NL] (ls @ [[]])) = ls @ [[]]"
    by (rule split_on_join) (use assms(1) in auto)
  with assms(2) show ?thesis
    by (simp add: file_lines_def render_lines_def ends_with_empty_def)
qed

lemma seek_sequence_first_exact:
  assumes "pat \<noteq> []" and "\<forall>i<length pre. take (length pat) (drop i (pre @ pat @ post)) \<noteq> pat"
  shows "seek_sequence (pre @ pat @ post) pat 0 False = Some (length pre)"
proof -
  let ?ls = "pre @ pat @ post"
  have "seek_pass (\<lambda>l. l) ?ls pat 0 = Some (length pre)"
    using assms(2) by (auto simp: seek_pass_Some match_at_block)
  then show ?thesis using assms(1) by (simp add: seek_sequence_def search_from_def Let_def)
qed

text \<open>
  What an update means: in a file whose lines are \<open>pre\<close>, \<open>old\<close>, \<open>post\<close>, with \<open>old\<close> at
  its first occurrence, a chunk that replaces \<open>old\<close> by \<open>new\<close> gives the file \<open>pre\<close>, \<open>new\<close>, \<open>post\<close>.
\<close>

theorem update_exact_block:
  assumes "old \<noteq> []"
    and "\<forall>l\<in>set (pre @ old @ post). NL \<notin> set l" and "\<not> ends_with_empty (pre @ old @ post)"
    and "\<forall>i<length pre. take (length old) (drop i (pre @ old @ post)) \<noteq> old"
  shows "new_contents_from_chunks (render_lines (pre @ old @ post)) path
           [\<lparr>change_context = None, old_lines = old, new_lines = new, is_end_of_file = False\<rparr>] =
         Some (Inr (render_lines (pre @ new @ post)))"
  using assms(1) seek_sequence_first_exact[OF assms(1,4)]
  by (simp add: new_contents_from_chunks_def file_lines_render[OF assms(2,3)] compute_replacements_def
      context_index_def find_old_lines_def apply_replacements_def apply_replacement_eq)

theorem update_exact_block_witness:
  "new_contents_from_chunks (render_lines [lit ''a'', lit ''b'', lit ''c'']) (lit ''f'')
     [\<lparr>change_context = None, old_lines = [lit ''b''], new_lines = [lit ''x'', lit ''y''], is_end_of_file = False\<rparr>] =
   Some (Inr (lit ''a'' @ [NL] @ lit ''x'' @ [NL] @ lit ''y'' @ [NL] @ lit ''c'' @ [NL]))"
  using update_exact_block[of "[lit ''b'']" "[lit ''a'']" "[lit ''c'']" "lit ''f''" "[lit ''x'', lit ''y'']"]
  by (simp add: lit_simps ends_with_empty_def last_opt_def render_lines_def)

theorem apply_replacements_splice_witness:
  "apply_replacements [lit ''a'', lit ''b''] [(0, 1, []), (2, 0, [lit ''c''])] = Some [lit ''b'', lit ''c'']"
proof -
  let ?o = "[lit ''a'', lit ''b'']"
  let ?c = "[\<lparr>change_context = None, old_lines = [lit ''a''], new_lines = [], is_end_of_file = False\<rparr>,
             \<lparr>change_context = None, old_lines = [], new_lines = [lit ''c''], is_end_of_file = False\<rparr>]"
  have "compute_replacements ?o [] ?c = Inr [(0, 1, []), (2, 0, [lit ''c''])]"
    by (simp add: compute_replacements_def context_index_def find_old_lines_def insertion_index_def
        ends_with_empty_def last_opt_def seek_eval lit_simps)
  moreover have "anchored_chunks ?o ?c"
    by (simp add: anchored_chunks_def ends_with_empty_def last_opt_def lit_simps)
  ultimately show ?thesis using apply_replacements_splice[of ?o "[]" ?c] by (simp add: numeral_2_eq_2)
qed

text \<open>
  Where the replacements do overlap a line is lost silently: a chunk anchored at the end of
  the file is matched regardless of what the chunks before it consumed, and a pure addition is
  placed before a final empty line even when an earlier chunk has just replaced that line. In
  both updates the added line \<open>y\<close> is missing from the new file although no error is reported.
\<close>

theorem overlapping_chunks_lose_lines:
  "new_contents_from_chunks (lit ''a'' @ [NL] @ lit ''b'' @ [NL]) (lit ''f'')
     [\<lparr>change_context = None, old_lines = [lit ''a'', lit ''b''], new_lines = [lit ''x''], is_end_of_file = False\<rparr>,
      \<lparr>change_context = None, old_lines = [lit ''b''], new_lines = [lit ''y''], is_end_of_file = True\<rparr>] =
     Some (Inr (lit ''x'' @ [NL])) \<and>
   new_contents_from_chunks (lit ''a'' @ [NL] @ [NL]) (lit ''f'')
     [\<lparr>change_context = None, old_lines = [lit ''a'', []], new_lines = [lit ''x''], is_end_of_file = False\<rparr>,
      \<lparr>change_context = None, old_lines = [], new_lines = [lit ''y''], is_end_of_file = False\<rparr>] =
     Some (Inr (lit ''x'' @ [NL]))"
  by (simp add: new_contents_from_chunks_def file_lines_def compute_replacements_def context_index_def
      find_old_lines_def insertion_index_def ends_with_empty_def last_opt_def seek_eval lit_simps
      apply_replacements_def apply_replacement_eq render_lines_def)

end
