(* ===== verification/PatchFs.thy ===== *)
theory PatchFs
  imports PatchApply
begin

text \<open>
  Applying a patch to a file system: the hunk loop \<open>apply_hunks_to_files\<close> with its three arms
  and helpers, the delta of committed changes, \<open>apply_hunks\<close>, \<open>print_summary\<close> and
  \<open>apply_patch\<close> of codex-rs/apply-patch/src/lib.rs. The file system (\<open>ExecutorFileSystem\<close>) and
  the path URIs are parameters: a record of functions over an arbitrary state \<open>'w\<close>, of which nothing is
  assumed. The theorems say that a delta that is still marked exact is the account of what was read and
  done, on success and on failure.
\<close>

section \<open>The file system interface\<close>

record file_metadata =
  md_is_directory :: bool
  md_is_file :: bool
  md_is_symlink :: bool

text \<open>The operations of \<open>ExecutorFileSystem\<close> that apply-patch calls, on the state \<open>'w\<close> of the
  file system, and the functions on path URIs. Both are parameters of the model.\<close>

record 'w file_system =
  fs_read_text :: "str \<Rightarrow> 'w \<Rightarrow> io_error + str"
  fs_metadata :: "str \<Rightarrow> 'w \<Rightarrow> io_error + file_metadata"
  fs_write :: "str \<Rightarrow> str \<Rightarrow> 'w \<Rightarrow> (io_error + unit) \<times> 'w"
  fs_create_dir_all :: "str \<Rightarrow> 'w \<Rightarrow> (io_error + unit) \<times> 'w"
  fs_remove :: "str \<Rightarrow> 'w \<Rightarrow> (io_error + unit) \<times> 'w"

record path_ops =
  uri_join :: "str \<Rightarrow> str \<Rightarrow> str + str" \<comment> \<open>base and relative path; \<open>Inl\<close> is the parse error's text\<close>
  uri_parent :: "str \<Rightarrow> str option"
  uri_native :: "str \<Rightarrow> str"

section \<open>Deltas and errors\<close>

datatype applied_file_change =
    ChangeAdd str "str option" \<comment> \<open>content, overwritten content\<close>
  | ChangeDelete str
  | ChangeUpdate "str option" str "str option" str
      \<comment> \<open>move path, old content, overwritten content at the destination, new content\<close>

record applied_change =
  change_path :: str
  file_change :: applied_file_change

record applied_delta =
  changes :: "applied_change list"
  exact :: bool

definition empty_delta :: applied_delta where
  "empty_delta = \<lparr>changes = [], exact = True\<rparr>"

definition append_delta :: "applied_delta \<Rightarrow> applied_delta \<Rightarrow> applied_delta" where
  "append_delta d other = \<lparr>changes = changes d @ changes other, exact = (exact d \<and> exact other)\<rparr>"

record affected_paths =
  added :: "str list"
  modified :: "str list"
  deleted :: "str list"

text \<open>The \<open>anyhow::Error\<close> values of \<open>apply_hunks_to_files\<close>; \<open>AnyPanic\<close> is the panic that
  \<open>new_contents_no_panic\<close> excludes.\<close>

datatype any_error =
    AnyIo "str option" io_error \<comment> \<open>the added context and the source\<close>
  | AnyApply apply_patch_error
  | AnyUri str
  | AnyMsg str
  | AnyPanic

fun display_parse_error :: "parse_error \<Rightarrow> str" where
  "display_parse_error (InvalidPatchError m) = lit ''invalid patch: '' @ m"
| "display_parse_error (InvalidHunkError m n) =
     lit ''invalid hunk at line '' @ show_nat n @ lit '', '' @ m"

fun display_apply_error :: "apply_patch_error \<Rightarrow> str" where
  "display_apply_error (ParseError e) = display_parse_error e"
| "display_apply_error (IoError ctx e) = ctx @ lit '': '' @ io_message e"
| "display_apply_error (ComputeReplacements m) = m"
| "display_apply_error (PathUri m) = m"
| "display_apply_error ImplicitInvocation =
     lit ''patch detected without explicit call to apply_patch. Rerun as [''
     @ [34] @ lit ''apply_patch'' @ [34] @ lit '', '' @ [34] @ lit ''<patch>'' @ [34] @ lit '']''"

section \<open>Helpers of the hunk loop\<close>

definition ensure_not_directory :: "'w file_system \<Rightarrow> str \<Rightarrow> 'w \<Rightarrow> io_error + unit" where
  "ensure_not_directory fs path w =
     (case fs_metadata fs path w of
        Inl e \<Rightarrow> Inl e
      | Inr md \<Rightarrow>
          if md_is_directory md
          then Inl \<lparr>io_kind = InvalidInput, io_message = lit ''path is a directory''\<rparr>
          else Inr ())"

definition remove_failure_was_side_effect_free ::
    "'w file_system \<Rightarrow> str \<Rightarrow> str option \<Rightarrow> 'w \<Rightarrow> bool" where
  "remove_failure_was_side_effect_free fs path expected w =
     (case expected of
        Some content \<Rightarrow> (case fs_read_text fs path w of Inr s \<Rightarrow> s = content | Inl _ \<Rightarrow> False)
      | None \<Rightarrow> False)"

definition note_existing_path :: "'w file_system \<Rightarrow> str \<Rightarrow> 'w \<Rightarrow> bool \<Rightarrow> bool" where
  "note_existing_path fs path w ex =
     (case fs_metadata fs path w of
        Inr md \<Rightarrow> if md_is_file md \<and> \<not> md_is_symlink md then ex else False
      | Inl e \<Rightarrow> if io_kind e = NotFound then ex else False)"

definition read_optional_file_text ::
    "'w file_system \<Rightarrow> str \<Rightarrow> 'w \<Rightarrow> bool \<Rightarrow> str option \<times> bool" where
  "read_optional_file_text fs path w ex =
     (let ex1 = note_existing_path fs path w ex
      in case fs_read_text fs path w of
           Inr s \<Rightarrow> (Some s, ex1)
         | Inl e \<Rightarrow> if io_kind e = NotFound then (None, ex1) else (None, False))"

definition msg_write :: "path_ops \<Rightarrow> str \<Rightarrow> str" where
  "msg_write ps path = lit ''Failed to write file '' @ uri_native ps path"

definition write_file_with_missing_parent_retry ::
    "path_ops \<Rightarrow> 'w file_system \<Rightarrow> str \<Rightarrow> str \<Rightarrow> 'w \<Rightarrow> (any_error + unit) \<times> 'w" where
  "write_file_with_missing_parent_retry ps fs path contents w =
     (case fs_write fs path contents w of
        (Inr _, w1) \<Rightarrow> (Inr (), w1)
      | (Inl e, w1) \<Rightarrow>
          if io_kind e = NotFound then
            (case (case uri_parent ps path of
                     Some parent \<Rightarrow> fs_create_dir_all fs parent w1
                   | None \<Rightarrow> (Inr (), w1)) of
               (Inl e', w2) \<Rightarrow>
                 (Inl (AnyIo (Some (lit ''Failed to create parent directories for '' @ uri_native ps path)) e'), w2)
             | (Inr _, w2) \<Rightarrow>
                 (case fs_write fs path contents w2 of
                    (Inl e'', w3) \<Rightarrow> (Inl (AnyIo (Some (msg_write ps path)) e''), w3)
                  | (Inr _, w3) \<Rightarrow> (Inr (), w3)))
          else (Inl (AnyIo (Some (msg_write ps path)) e), w1))"

text \<open>\<open>derive_new_contents_from_chunks\<close>: the original and the new contents.\<close>

definition derive_new_contents ::
    "path_ops \<Rightarrow> 'w file_system \<Rightarrow> str \<Rightarrow> update_file_chunk list \<Rightarrow> 'w \<Rightarrow> any_error + str \<times> str" where
  "derive_new_contents ps fs path chunks w =
     (case fs_read_text fs path w of
        Inl e \<Rightarrow> Inl (AnyApply (IoError (lit ''Failed to read file to update '' @ uri_native ps path) e))
      | Inr original \<Rightarrow>
          (case new_contents_from_chunks original (uri_native ps path) chunks of
             None \<Rightarrow> Inl AnyPanic
           | Some (Inl e) \<Rightarrow> Inl (AnyApply e)
           | Some (Inr new) \<Rightarrow> Inr (original, new)))"

section \<open>The hunk loop\<close>

record 'w apply_state =
  world :: 'w
  delta :: applied_delta
  affected :: affected_paths

definition set_exact :: "bool \<Rightarrow> 'w apply_state \<Rightarrow> 'w apply_state" where
  "set_exact b st = st\<lparr>delta := (delta st)\<lparr>exact := b\<rparr>\<rparr>"

definition push_change :: "str \<Rightarrow> applied_file_change \<Rightarrow> 'w apply_state \<Rightarrow> 'w apply_state" where
  "push_change path c st =
     st\<lparr>delta := (delta st)\<lparr>changes := changes (delta st) @ [\<lparr>change_path = path, file_change = c\<rparr>]\<rparr>\<rparr>"

definition push_modified :: "str \<Rightarrow> 'w apply_state \<Rightarrow> 'w apply_state" where
  "push_modified p st = st\<lparr>affected := (affected st)\<lparr>modified := modified (affected st) @ [p]\<rparr>\<rparr>"

definition apply_add ::
    "path_ops \<Rightarrow> 'w file_system \<Rightarrow> str \<Rightarrow> str \<Rightarrow> str \<Rightarrow> 'w apply_state \<Rightarrow> (any_error + unit) \<times> 'w apply_state" where
  "apply_add ps fs affected_path path_uri contents st =
     (case read_optional_file_text fs path_uri (world st) (exact (delta st)) of
        (overwritten, ex) \<Rightarrow>
          (case write_file_with_missing_parent_retry ps fs path_uri contents (world st) of
             (Inl e, w) \<Rightarrow> (Inl e, set_exact False (st\<lparr>world := w\<rparr>))
           | (Inr _, w) \<Rightarrow>
               (let st1 = push_change path_uri (ChangeAdd contents overwritten) (set_exact ex (st\<lparr>world := w\<rparr>))
                in (Inr (), st1\<lparr>affected := (affected st1)\<lparr>added := added (affected st1) @ [affected_path]\<rparr>\<rparr>))))"

definition apply_delete ::
    "path_ops \<Rightarrow> 'w file_system \<Rightarrow> str \<Rightarrow> str \<Rightarrow> 'w apply_state \<Rightarrow> (any_error + unit) \<times> 'w apply_state" where
  "apply_delete ps fs affected_path path_uri st =
     (let ctx = Some (lit ''Failed to delete file '' @ uri_native ps path_uri);
          ex1 = note_existing_path fs path_uri (world st) (exact (delta st));
          deleted_content = (case fs_read_text fs path_uri (world st) of Inr s \<Rightarrow> Some s | Inl _ \<Rightarrow> None);
          st1 = set_exact (if deleted_content = None then False else ex1) st
      in case ensure_not_directory fs path_uri (world st1) of
           Inl e \<Rightarrow> (Inl (AnyIo ctx e), st1)
         | Inr _ \<Rightarrow>
             (case fs_remove fs path_uri (world st1) of
                (Inl e, w) \<Rightarrow>
                  (Inl (AnyIo ctx e),
                   set_exact (exact (delta st1) \<and> remove_failure_was_side_effect_free fs path_uri deleted_content w)
                     (st1\<lparr>world := w\<rparr>))
              | (Inr _, w) \<Rightarrow>
                  (let st2 = st1\<lparr>world := w\<rparr>;
                       st3 = (case deleted_content of
                                Some content \<Rightarrow> push_change path_uri (ChangeDelete content) st2
                              | None \<Rightarrow> st2)
                   in (Inr (), st3\<lparr>affected := (affected st3)\<lparr>deleted := deleted (affected st3) @ [affected_path]\<rparr>\<rparr>))))"

text \<open>The update of a file that is moved: write the destination, remove the source, then replace
  the recorded addition by the update.\<close>

definition apply_move ::
    "path_ops \<Rightarrow> 'w file_system \<Rightarrow> str \<Rightarrow> str \<Rightarrow> str \<Rightarrow> str \<Rightarrow> str \<Rightarrow> 'w apply_state \<Rightarrow>
     (any_error + unit) \<times> 'w apply_state" where
  "apply_move ps fs affected_path path_uri dest_uri original new st =
     (let ctx = Some (lit ''Failed to remove original '' @ uri_native ps path_uri)
      in case read_optional_file_text fs dest_uri (world st) (exact (delta st)) of
        (overwritten, ex) \<Rightarrow>
          (case write_file_with_missing_parent_retry ps fs dest_uri new (world st) of
             (Inl e, w) \<Rightarrow> (Inl e, set_exact False (st\<lparr>world := w\<rparr>))
           | (Inr _, w) \<Rightarrow>
               (let idx = length (changes (delta st));
                    st1 = push_change dest_uri (ChangeAdd new overwritten) (set_exact ex (st\<lparr>world := w\<rparr>))
                in case ensure_not_directory fs path_uri (world st1) of
                     Inl e \<Rightarrow> (Inl (AnyIo ctx e), st1)
                   | Inr _ \<Rightarrow>
                       (case fs_remove fs path_uri (world st1) of
                          (Inl e, w2) \<Rightarrow>
                            (Inl (AnyIo ctx e),
                             set_exact (exact (delta st1) \<and>
                                        remove_failure_was_side_effect_free fs path_uri (Some original) w2)
                               (st1\<lparr>world := w2\<rparr>))
                        | (Inr _, w2) \<Rightarrow>
                            (let d = delta st1;
                                 c = \<lparr>change_path = path_uri,
                                      file_change = ChangeUpdate (Some dest_uri) original overwritten new\<rparr>
                             in (Inr (), push_modified affected_path
                                   (st1\<lparr>world := w2, delta := d\<lparr>changes := (changes d)[idx := c]\<rparr>\<rparr>)))))))"

definition apply_update ::
    "path_ops \<Rightarrow> 'w file_system \<Rightarrow> str \<Rightarrow> str \<Rightarrow> str \<Rightarrow> str option \<Rightarrow> update_file_chunk list \<Rightarrow>
     'w apply_state \<Rightarrow> (any_error + unit) \<times> 'w apply_state" where
  "apply_update ps fs cwd affected_path path_uri move_path chunks st =
     (let st1 = set_exact (note_existing_path fs path_uri (world st) (exact (delta st))) st
      in case derive_new_contents ps fs path_uri chunks (world st1) of
           Inl e \<Rightarrow> (Inl e, st1)
         | Inr (original, new) \<Rightarrow>
             (case move_path of
                Some dest \<Rightarrow>
                  (case uri_join ps cwd dest of
                     Inl e \<Rightarrow> (Inl (AnyUri e), st1)
                   | Inr dest_uri \<Rightarrow> apply_move ps fs affected_path path_uri dest_uri original new st1)
              | None \<Rightarrow>
                  (case fs_write fs path_uri new (world st1) of
                     (Inl e, w) \<Rightarrow>
                       (Inl (AnyIo (Some (msg_write ps path_uri)) e), set_exact False (st1\<lparr>world := w\<rparr>))
                   | (Inr _, w) \<Rightarrow>
                       (Inr (), push_modified affected_path
                          (push_change path_uri (ChangeUpdate None original None new) (st1\<lparr>world := w\<rparr>))))))"

definition apply_hunk ::
    "path_ops \<Rightarrow> 'w file_system \<Rightarrow> str \<Rightarrow> hunk \<Rightarrow> 'w apply_state \<Rightarrow> (any_error + unit) \<times> 'w apply_state" where
  "apply_hunk ps fs cwd h st =
     (case uri_join ps cwd (hunk_source_path h) of
        Inl e \<Rightarrow> (Inl (AnyUri e), st)
      | Inr path_uri \<Rightarrow>
          (case h of
             AddFile _ contents \<Rightarrow> apply_add ps fs (hunk_path h) path_uri contents st
           | DeleteFile _ \<Rightarrow> apply_delete ps fs (hunk_path h) path_uri st
           | UpdateFile _ move_path chunks \<Rightarrow>
               apply_update ps fs cwd (hunk_path h) path_uri move_path chunks st))"

fun apply_hunk_loop ::
    "path_ops \<Rightarrow> 'w file_system \<Rightarrow> str \<Rightarrow> hunk list \<Rightarrow> 'w apply_state \<Rightarrow> (any_error + unit) \<times> 'w apply_state" where
  "apply_hunk_loop ps fs cwd [] st = (Inr (), st)"
| "apply_hunk_loop ps fs cwd (h # hs) st =
     (case apply_hunk ps fs cwd h st of
        (Inl e, st') \<Rightarrow> (Inl e, st')
      | (Inr _, st') \<Rightarrow> apply_hunk_loop ps fs cwd hs st')"

definition initial_state :: "'w \<Rightarrow> 'w apply_state" where
  "initial_state w = \<lparr>world = w, delta = empty_delta,
     affected = \<lparr>added = [], modified = [], deleted = []\<rparr>\<rparr>"

definition apply_hunks_to_files ::
    "path_ops \<Rightarrow> 'w file_system \<Rightarrow> str \<Rightarrow> hunk list \<Rightarrow> 'w \<Rightarrow> (any_error + unit) \<times> 'w apply_state" where
  "apply_hunks_to_files ps fs cwd hs w =
     (if hs = [] then (Inl (AnyMsg (lit ''No files were modified.'')), initial_state w)
      else apply_hunk_loop ps fs cwd hs (initial_state w))"

section \<open>The entry points\<close>

text \<open>A writer is given by what each \<open>writeln!\<close> returns; the lines that were written are collected.\<close>

type_synonym line_writer = "str \<Rightarrow> io_error + unit"

fun write_lines :: "line_writer \<Rightarrow> str list \<Rightarrow> (io_error + unit) \<times> str list" where
  "write_lines out [] = (Inr (), [])"
| "write_lines out (l # ls) =
     (case out l of
        Inl e \<Rightarrow> (Inl e, [])
      | Inr _ \<Rightarrow> (case write_lines out ls of (r, written) \<Rightarrow> (r, l # written)))"

definition print_summary :: "line_writer \<Rightarrow> affected_paths \<Rightarrow> (io_error + unit) \<times> str list" where
  "print_summary out a =
     write_lines out
       ([lit ''Success. Updated the following files:''] @
        map (\<lambda>p. lit ''A '' @ p) (added a) @
        map (\<lambda>p. lit ''M '' @ p) (modified a) @
        map (\<lambda>p. lit ''D '' @ p) (deleted a))"

fun display_any_error :: "any_error \<Rightarrow> str" where
  "display_any_error (AnyIo (Some ctx) _) = ctx"
| "display_any_error (AnyIo None e) = io_message e"
| "display_any_error (AnyApply e) = display_apply_error e"
| "display_any_error (AnyUri m) = m"
| "display_any_error (AnyMsg m) = m"
| "display_any_error AnyPanic = []"

definition io_context :: "io_error \<Rightarrow> apply_patch_error" where
  "io_context e = IoError (lit ''I/O error'') e"

fun downcast_io :: "any_error \<Rightarrow> io_error option" where
  "downcast_io (AnyIo _ e) = Some e"
| "downcast_io _ = None"

record apply_failure =
  failure_error :: apply_patch_error
  failure_delta :: applied_delta

definition without_delta :: "apply_patch_error \<Rightarrow> apply_failure" where
  "without_delta e = \<lparr>failure_error = e, failure_delta = empty_delta\<rparr>"

definition failure_of_any_error :: "any_error \<Rightarrow> apply_patch_error" where
  "failure_of_any_error e =
     (case downcast_io e of
        Some io \<Rightarrow> io_context io
      | None \<Rightarrow> IoError (display_any_error e)
                 \<lparr>io_kind = OtherIo, io_message = display_any_error e\<rparr>)"

text \<open>The result, the file system afterwards and the lines written to stdout and stderr.\<close>

definition apply_hunks ::
    "path_ops \<Rightarrow> 'w file_system \<Rightarrow> line_writer \<Rightarrow> line_writer \<Rightarrow> str \<Rightarrow> hunk list \<Rightarrow> 'w \<Rightarrow>
     (apply_failure + applied_delta) \<times> 'w \<times> str list \<times> str list" where
  "apply_hunks ps fs out err cwd hs w =
     (case apply_hunks_to_files ps fs cwd hs w of
        (Inr _, st) \<Rightarrow>
          (case print_summary out (affected st) of
             (Inl e, written) \<Rightarrow>
               (Inl \<lparr>failure_error = io_context e, failure_delta = delta st\<rparr>, world st, written, [])
           | (Inr _, written) \<Rightarrow> (Inr (delta st), world st, written, []))
      | (Inl error, st) \<Rightarrow>
          (case write_lines err [display_any_error error] of
             (Inl e, written) \<Rightarrow>
               (Inl \<lparr>failure_error = io_context e, failure_delta = delta st\<rparr>, world st, [], written)
           | (Inr _, written) \<Rightarrow>
               (Inl \<lparr>failure_error = failure_of_any_error error, failure_delta = delta st\<rparr>,
                world st, [], written)))"

fun msg_invalid_patch :: "parse_error \<Rightarrow> str" where
  "msg_invalid_patch (InvalidPatchError m) = lit ''Invalid patch: '' @ m"
| "msg_invalid_patch (InvalidHunkError m n) =
     lit ''Invalid patch hunk on line '' @ show_nat n @ lit '': '' @ m"

definition apply_patch ::
    "path_ops \<Rightarrow> 'w file_system \<Rightarrow> line_writer \<Rightarrow> line_writer \<Rightarrow> str \<Rightarrow> str \<Rightarrow> 'w \<Rightarrow>
     (apply_failure + applied_delta) \<times> 'w \<times> str list \<times> str list" where
  "apply_patch ps fs out err cwd patch w =
     (case parse_patch patch of
        Inr args \<Rightarrow> apply_hunks ps fs out err cwd (args_hunks args) w
      | Inl e \<Rightarrow>
          (case write_lines err [msg_invalid_patch e] of
             (Inl io, written) \<Rightarrow> (Inl (without_delta (io_context io)), w, [], written)
           | (Inr _, written) \<Rightarrow> (Inl (without_delta (ParseError e)), w, [], written)))"

section \<open>What an exact delta says\<close>

text \<open>
  The account of a patch, for any file system: which calls were made and what was read, in the order of the hunks.
  \<open>held\<close>: before a path is changed it is a regular file or missing, with this text or none.
\<close>

definition held :: "'w file_system \<Rightarrow> str \<Rightarrow> str option \<Rightarrow> 'w \<Rightarrow> bool" where
  "held fs p t w \<longleftrightarrow>
     (case fs_metadata fs p w of
        Inr md \<Rightarrow> md_is_file md \<and> \<not> md_is_symlink md
      | Inl e \<Rightarrow> io_kind e = NotFound) \<and>
     (case fs_read_text fs p w of
        Inr s \<Rightarrow> t = Some s
      | Inl e \<Rightarrow> io_kind e = NotFound \<and> t = None)"

text \<open>A text is stored by one write, or by a second one after the parent directories were made.\<close>

inductive stores :: "path_ops \<Rightarrow> 'w file_system \<Rightarrow> str \<Rightarrow> str \<Rightarrow> 'w \<Rightarrow> 'w \<Rightarrow> bool" for ps fs p s where
  at_once: "fs_write fs p s w = (Inr (), w') \<Longrightarrow> stores ps fs p s w w'"
| without_parent: "fs_write fs p s w = (Inl e, w1) \<Longrightarrow> io_kind e = NotFound \<Longrightarrow> uri_parent ps p = None \<Longrightarrow>
    fs_write fs p s w1 = (Inr (), w') \<Longrightarrow> stores ps fs p s w w'"
| after_parent: "fs_write fs p s w = (Inl e, w1) \<Longrightarrow> io_kind e = NotFound \<Longrightarrow> uri_parent ps p = Some d \<Longrightarrow>
    fs_create_dir_all fs d w1 = (Inr (), w2) \<Longrightarrow> fs_write fs p s w2 = (Inr (), w') \<Longrightarrow> stores ps fs p s w w'"

definition no_directory :: "'w file_system \<Rightarrow> str \<Rightarrow> 'w \<Rightarrow> bool" where
  "no_directory fs p w \<longleftrightarrow> (case fs_metadata fs p w of Inr md \<Rightarrow> \<not> md_is_directory md | Inl _ \<Rightarrow> False)"

text \<open>A hunk that was carried out, the change recorded for it, and the file system before and after.\<close>

inductive hunk_done ::
  "path_ops \<Rightarrow> 'w file_system \<Rightarrow> str \<Rightarrow> hunk \<Rightarrow> applied_change \<Rightarrow> 'w \<Rightarrow> 'w \<Rightarrow> bool" for ps fs cwd where
  file_added: "uri_join ps cwd path = Inr p \<Longrightarrow> held fs p old w \<Longrightarrow> stores ps fs p s w w' \<Longrightarrow>
    hunk_done ps fs cwd (AddFile path s) \<lparr>change_path = p, file_change = ChangeAdd s old\<rparr> w w'"
| file_deleted: "uri_join ps cwd path = Inr p \<Longrightarrow> held fs p (Some old) w \<Longrightarrow> no_directory fs p w \<Longrightarrow>
    fs_remove fs p w = (Inr (), w') \<Longrightarrow>
    hunk_done ps fs cwd (DeleteFile path) \<lparr>change_path = p, file_change = ChangeDelete old\<rparr> w w'"
| file_updated: "uri_join ps cwd path = Inr p \<Longrightarrow> held fs p (Some old) w \<Longrightarrow>
    new_contents_from_chunks old (uri_native ps p) chunks = Some (Inr new) \<Longrightarrow> fs_write fs p new w = (Inr (), w') \<Longrightarrow>
    hunk_done ps fs cwd (UpdateFile path None chunks) \<lparr>change_path = p, file_change = ChangeUpdate None old None new\<rparr> w w'"
| file_moved: "uri_join ps cwd path = Inr p \<Longrightarrow> uri_join ps cwd dest = Inr d \<Longrightarrow>
    held fs p (Some old) w \<Longrightarrow> held fs d old_d w \<Longrightarrow>
    new_contents_from_chunks old (uri_native ps p) chunks = Some (Inr new) \<Longrightarrow> stores ps fs d new w w1 \<Longrightarrow>
    no_directory fs p w1 \<Longrightarrow> fs_remove fs p w1 = (Inr (), w') \<Longrightarrow>
    hunk_done ps fs cwd (UpdateFile path (Some dest) chunks)
      \<lparr>change_path = p, file_change = ChangeUpdate (Some d) old old_d new\<rparr> w w'"

inductive patch_done ::
  "path_ops \<Rightarrow> 'w file_system \<Rightarrow> str \<Rightarrow> hunk list \<Rightarrow> applied_change list \<Rightarrow> 'w \<Rightarrow> 'w \<Rightarrow> bool" for ps fs cwd where
  nothing: "patch_done ps fs cwd [] [] w w"
| more: "hunk_done ps fs cwd h c w w1 \<Longrightarrow> patch_done ps fs cwd hs cs w1 w' \<Longrightarrow> patch_done ps fs cwd (h # hs) (c # cs) w w'"

text \<open>
  A hunk that failed with the delta still exact: it changed nothing, or its removal failed and the text is
  still there, or it is a move that stored its destination and could not remove its source.
\<close>

inductive hunk_stopped ::
  "path_ops \<Rightarrow> 'w file_system \<Rightarrow> str \<Rightarrow> hunk \<Rightarrow> applied_change list \<Rightarrow> 'w \<Rightarrow> 'w \<Rightarrow> bool" for ps fs cwd where
  untouched: "hunk_stopped ps fs cwd h [] w w"
| delete_failed: "uri_join ps cwd path = Inr p \<Longrightarrow> held fs p (Some old) w \<Longrightarrow> fs_remove fs p w = (Inl e, w') \<Longrightarrow>
    fs_read_text fs p w' = Inr old \<Longrightarrow> hunk_stopped ps fs cwd (DeleteFile path) [] w w'"
| source_kept: "uri_join ps cwd path = Inr p \<Longrightarrow> uri_join ps cwd dest = Inr d \<Longrightarrow>
    held fs p (Some old) w \<Longrightarrow> held fs d old_d w \<Longrightarrow>
    new_contents_from_chunks old (uri_native ps p) chunks = Some (Inr new) \<Longrightarrow> stores ps fs d new w w1 \<Longrightarrow>
    w' = w1 \<or> (\<exists>e. fs_remove fs p w1 = (Inl e, w') \<and> fs_read_text fs p w' = Inr old) \<Longrightarrow>
    hunk_stopped ps fs cwd (UpdateFile path (Some dest) chunks) [\<lparr>change_path = d, file_change = ChangeAdd new old_d\<rparr>] w w'"

lemma state_projections [simp]:
  "world (set_exact b st) = world st" "changes (delta (set_exact b st)) = changes (delta st)"
  "exact (delta (set_exact b st)) = b" "affected (set_exact b st) = affected st"
  "world (push_change p c st) = world st" "exact (delta (push_change p c st)) = exact (delta st)"
  "changes (delta (push_change p c st)) = changes (delta st) @ [\<lparr>change_path = p, file_change = c\<rparr>]"
  "affected (push_change p c st) = affected st"
  "world (push_modified p st) = world st" "delta (push_modified p st) = delta st"
  by (simp_all add: set_exact_def push_change_def push_modified_def)

lemma note_existing_held:
  "note_existing_path fs p w ex \<longleftrightarrow> ex \<and> (case fs_metadata fs p w of
        Inr md \<Rightarrow> md_is_file md \<and> \<not> md_is_symlink md | Inl e \<Rightarrow> io_kind e = NotFound)"
  by (auto simp: note_existing_path_def split: sum.splits)

lemma read_optional_held:
  "read_optional_file_text fs p w ex = (t, True) \<longleftrightarrow> ex \<and> held fs p t w"
  by (auto simp: read_optional_file_text_def held_def note_existing_held Let_def split: sum.splits)

lemma read_optional_held':
  "snd (read_optional_file_text fs p w ex) \<longleftrightarrow> ex \<and> held fs p (fst (read_optional_file_text fs p w ex)) w"
  using read_optional_held[of fs p w ex "fst (read_optional_file_text fs p w ex)"]
  by (cases "read_optional_file_text fs p w ex") auto

lemma held_read: "held fs p t w \<Longrightarrow> held fs p t' w \<Longrightarrow> t' = t"
  by (auto simp: held_def split: sum.splits)

lemma held_text: "held fs p (Some s) w \<Longrightarrow> fs_read_text fs p w = Inr s"
  by (auto simp: held_def split: sum.splits)

lemma write_retry_stores:
  "write_file_with_missing_parent_retry ps fs p s w = (Inr (), w') \<longleftrightarrow> stores ps fs p s w w'"
  by (auto simp: write_file_with_missing_parent_retry_def stores.simps split: prod.splits sum.splits option.splits if_splits)

lemma ensure_not_directory_iff: "ensure_not_directory fs p w = Inr u \<longleftrightarrow> no_directory fs p w"
  by (auto simp: ensure_not_directory_def no_directory_def split: sum.splits)

lemma read_text_none: "fs_read_text fs p w = Inr s \<Longrightarrow> note_existing_path fs p w ex \<longleftrightarrow> ex \<and> held fs p (Some s) w"
  by (auto simp: note_existing_held held_def)

lemma update_nth_last [simp]: "(xs @ [x])[length xs := y] = xs @ [y]"
  by (induction xs) auto

lemma apply_add_done:
  assumes "uri_join ps cwd path = Inr p" "apply_add ps fs a p s st = (r, st')"
  shows "(case r of
       Inr _ \<Rightarrow> (exact (delta st') \<longrightarrow> exact (delta st) \<and>
          (\<exists>c. changes (delta st') = changes (delta st) @ [c] \<and> hunk_done ps fs cwd (AddFile path s) c (world st) (world st')))
     | Inl _ \<Rightarrow> \<not> exact (delta st'))"
proof -
  obtain t ex where t: "read_optional_file_text fs p (world st) (exact (delta st)) = (t, ex)" by (rule prod.exhaust)
  obtain q w where q: "write_file_with_missing_parent_retry ps fs p s (world st) = (q, w)" by (rule prod.exhaust)
  show ?thesis
  proof (cases q)
    case (Inr u)
    then have "stores ps fs p s (world st) w" using q write_retry_stores[of ps fs p s "world st" w] by simp
    then show ?thesis
      using assms(2) t q Inr read_optional_held[of fs p "world st" "exact (delta st)" t]
      by (auto simp: apply_add_def Let_def intro!: file_added[OF assms(1)])
  qed (use assms(2) t q in \<open>auto simp: apply_add_def Let_def\<close>)
qed

lemma apply_delete_done:
  assumes "uri_join ps cwd path = Inr p" "apply_delete ps fs a p st = (r, st')"
  shows "exact (delta st') \<longrightarrow> exact (delta st) \<and>
     (case r of
       Inr _ \<Rightarrow> (\<exists>c. changes (delta st') = changes (delta st) @ [c] \<and> hunk_done ps fs cwd (DeleteFile path) c (world st) (world st'))
     | Inl _ \<Rightarrow> changes (delta st') = changes (delta st) \<and> hunk_stopped ps fs cwd (DeleteFile path) [] (world st) (world st'))"
proof (cases "fs_read_text fs p (world st)")
  case (Inl e)
  then have "\<not> exact (delta st')"
    using assms(2) by (auto simp: apply_delete_def Let_def split: sum.splits prod.splits)
  then show ?thesis by simp
next
  case (Inr s)
  note h = read_text_none[OF Inr, of "exact (delta st)"]
  obtain q w where q: "fs_remove fs p (world st) = (q, w)" by (rule prod.exhaust)
  show ?thesis
  proof (cases "ensure_not_directory fs p (world st)")
    case (Inl e)
    then show ?thesis using assms(2) Inr h by (auto simp: apply_delete_def Let_def intro: hunk_stopped.untouched)
  next
    case nd: (Inr u)
    then have d: "no_directory fs p (world st)" using ensure_not_directory_iff by metis
    show ?thesis
    proof (cases q)
      case (Inl e)
      then show ?thesis using assms(2) nd q h \<open>fs_read_text fs p (world st) = Inr s\<close>
        by (auto simp: apply_delete_def Let_def remove_failure_was_side_effect_free_def
            intro: hunk_stopped.delete_failed[OF assms(1)] split: sum.splits)
    next
      case (Inr u')
      then show ?thesis using assms(2) nd q h d \<open>fs_read_text fs p (world st) = Inr s\<close>
        by (auto simp: apply_delete_def Let_def intro!: hunk_done.file_deleted[OF assms(1)])
    qed
  qed
qed

lemma apply_move_done:
  assumes "uri_join ps cwd path = Inr p" "uri_join ps cwd dest = Inr d"
    and "apply_move ps fs a p d old new st = (r, st')"
    and "new_contents_from_chunks old (uri_native ps p) chunks = Some (Inr new)"
    and "exact (delta st) \<Longrightarrow> held fs p (Some old) (world st)"
  shows "exact (delta st') \<longrightarrow> exact (delta st) \<and>
     (case r of
       Inr _ \<Rightarrow> (\<exists>c. changes (delta st') = changes (delta st) @ [c] \<and>
         hunk_done ps fs cwd (UpdateFile path (Some dest) chunks) c (world st) (world st'))
     | Inl _ \<Rightarrow> (\<exists>cs. changes (delta st') = changes (delta st) @ cs \<and>
         hunk_stopped ps fs cwd (UpdateFile path (Some dest) chunks) cs (world st) (world st')))"
proof -
  obtain t ex where t: "read_optional_file_text fs d (world st) (exact (delta st)) = (t, ex)" by (rule prod.exhaust)
  obtain q w where q: "write_file_with_missing_parent_retry ps fs d new (world st) = (q, w)" by (rule prod.exhaust)
  note h = read_optional_held[of fs d "world st" "exact (delta st)" t]
  show ?thesis
  proof (cases q)
    case (Inl e)
    then show ?thesis using assms(3) t q by (auto simp: apply_move_def Let_def)
  next
    case (Inr u)
    then have st: "stores ps fs d new (world st) w" using q write_retry_stores[of ps fs d new "world st" w] by simp
    obtain q2 w2 where q2: "fs_remove fs p w = (q2, w2)" by (rule prod.exhaust)
    show ?thesis
    proof (cases "ensure_not_directory fs p w")
      case (Inl e)
      then have "r = Inl (AnyIo (Some (lit ''Failed to remove original '' @ uri_native ps p)) e)" "world st' = w"
        "exact (delta st') = ex" "changes (delta st') = changes (delta st) @ [\<lparr>change_path = d, file_change = ChangeAdd new t\<rparr>]"
        using assms(3) t q Inr by (auto simp: apply_move_def Let_def)
      then show ?thesis using h t
        by (auto intro: hunk_stopped.source_kept[OF assms(1,2) assms(5) _ assms(4) st])
    next
      case nd: (Inr u)
      then have nd': "no_directory fs p w" using ensure_not_directory_iff by metis
      show ?thesis
      proof (cases q2)
        case (Inl e)
        then have "r = Inl (AnyIo (Some (lit ''Failed to remove original '' @ uri_native ps p)) e)" "world st' = w2"
          "exact (delta st') \<longleftrightarrow> ex \<and> remove_failure_was_side_effect_free fs p (Some old) w2"
          "changes (delta st') = changes (delta st) @ [\<lparr>change_path = d, file_change = ChangeAdd new t\<rparr>]"
          using assms(3) t q q2 nd \<open>q = Inr _\<close> by (auto simp: apply_move_def Let_def)
        then show ?thesis using h t q2 Inl
          by (auto simp: remove_failure_was_side_effect_free_def split: sum.splits
              intro!: hunk_stopped.source_kept[OF assms(1,2) assms(5) _ assms(4) st])
      next
        case (Inr u'')
        then have "r = Inr ()" "world st' = w2" "exact (delta st') = ex"
          "changes (delta st') = changes (delta st) @ [\<lparr>change_path = p, file_change = ChangeUpdate (Some d) old t new\<rparr>]"
          using assms(3) t q q2 nd \<open>q = Inr _\<close> by (auto simp: apply_move_def Let_def)
        then show ?thesis using h t q2 Inr nd'
          by (auto intro!: hunk_done.file_moved[OF assms(1,2) assms(5) _ assms(4) st])
      qed
    qed
  qed
qed

lemma apply_update_done:
  assumes "uri_join ps cwd path = Inr p" "apply_update ps fs cwd a p mv chunks st = (r, st')"
  shows "exact (delta st') \<longrightarrow> exact (delta st) \<and>
     (case r of
       Inr _ \<Rightarrow> (\<exists>c. changes (delta st') = changes (delta st) @ [c] \<and>
         hunk_done ps fs cwd (UpdateFile path mv chunks) c (world st) (world st'))
     | Inl _ \<Rightarrow> (\<exists>cs. changes (delta st') = changes (delta st) @ cs \<and>
         hunk_stopped ps fs cwd (UpdateFile path mv chunks) cs (world st) (world st')))"
proof -
  define st1 where "st1 = set_exact (note_existing_path fs p (world st) (exact (delta st))) st"
  have st1: "world st1 = world st" "changes (delta st1) = changes (delta st)" "exact (delta st1) \<longrightarrow> exact (delta st)"
    by (auto simp: st1_def note_existing_held)
  show ?thesis
  proof (cases "derive_new_contents ps fs p chunks (world st)")
    case (Inl e)
    then show ?thesis using assms(2) st1 by (auto simp: apply_update_def Let_def st1_def[symmetric] intro: hunk_stopped.untouched)
  next
    case (Inr on)
    obtain old new where on: "on = (old, new)" by (cases on)
    have d: "fs_read_text fs p (world st) = Inr old" "new_contents_from_chunks old (uri_native ps p) chunks = Some (Inr new)"
      using Inr on by (auto simp: derive_new_contents_def split: sum.splits option.splits)
    have h: "exact (delta st1) \<Longrightarrow> held fs p (Some old) (world st1)"
      using read_text_none[OF d(1), of "exact (delta st)"] by (auto simp: st1_def)
    show ?thesis
    proof (cases mv)
      case (Some dest)
      show ?thesis
      proof (cases "uri_join ps cwd dest")
        case (Inl e)
        then show ?thesis using assms(2) st1 \<open>derive_new_contents _ _ _ _ _ = Inr on\<close> on Some
          by (auto simp: apply_update_def Let_def st1_def[symmetric] intro: hunk_stopped.untouched)
      next
        case u: (Inr du)
        have "apply_move ps fs a p du old new st1 = (r, st')"
          using assms(2) st1 Inr on Some u by (simp add: apply_update_def Let_def st1_def)
        from apply_move_done[OF assms(1) u this d(2) h] st1 Some show ?thesis by (cases r) auto
      qed
    next
      case None
      obtain q w where q: "fs_write fs p new (world st) = (q, w)" by (rule prod.exhaust)
      show ?thesis
      proof (cases q)
        case (Inl e)
        then show ?thesis using assms(2) q Inr on None st1 by (auto simp: apply_update_def Let_def st1_def[symmetric])
      next
        case u: (Inr u)
        then have "r = Inr ()" "world st' = w" "exact (delta st') = exact (delta st1)"
          "changes (delta st') = changes (delta st) @ [\<lparr>change_path = p, file_change = ChangeUpdate None old None new\<rparr>]"
          using assms(2) q Inr on None st1 by (auto simp: apply_update_def Let_def st1_def[symmetric])
        then show ?thesis using h st1 u q None d(2)
          by (auto intro!: hunk_done.file_updated[OF assms(1)])
      qed
    qed
  qed
qed

lemma apply_hunk_done:
  assumes "apply_hunk ps fs cwd h st = (r, st')" "exact (delta st')"
  shows "exact (delta st) \<and>
     (case r of
       Inr _ \<Rightarrow> (\<exists>c. changes (delta st') = changes (delta st) @ [c] \<and> hunk_done ps fs cwd h c (world st) (world st'))
     | Inl _ \<Rightarrow> (\<exists>cs. changes (delta st') = changes (delta st) @ cs \<and> hunk_stopped ps fs cwd h cs (world st) (world st')))"
proof (cases "uri_join ps cwd (hunk_source_path h)")
  case (Inl e)
  then show ?thesis using assms by (auto simp: apply_hunk_def intro: hunk_stopped.untouched)
next
  case p: (Inr p)
  show ?thesis
  proof (cases h)
    case (AddFile path s)
    then have "apply_add ps fs (hunk_path h) p s st = (r, st')" using assms(1) p by (simp add: apply_hunk_def)
    from apply_add_done[OF _ this, of cwd path] p assms(2) AddFile show ?thesis by (cases r) auto
  next
    case (DeleteFile path)
    then have "apply_delete ps fs (hunk_path h) p st = (r, st')" using assms(1) p by (simp add: apply_hunk_def)
    from apply_delete_done[OF _ this, of cwd path] p assms(2) DeleteFile show ?thesis by (cases r) auto
  next
    case (UpdateFile path mv chunks)
    then have "apply_update ps fs cwd (hunk_path h) p mv chunks st = (r, st')" using assms(1) p by (simp add: apply_hunk_def)
    from apply_update_done[OF _ this, of path] p assms(2) UpdateFile show ?thesis by auto
  qed
qed

text \<open>The other direction: a hunk that can be carried out so is carried out so.\<close>

lemma hunk_done_apply:
  assumes "hunk_done ps fs cwd h c (world st) w'" "exact (delta st)"
  shows "\<exists>st'. apply_hunk ps fs cwd h st = (Inr (), st') \<and> exact (delta st') \<and>
    changes (delta st') = changes (delta st) @ [c] \<and> world st' = w'"
  using assms(1)
proof cases
  case (file_added path p old s)
  then show ?thesis
    using read_optional_held[of fs p "world st" True old] write_retry_stores[of ps fs p s "world st" w'] assms(2)
    by (simp add: apply_hunk_def apply_add_def Let_def)
next
  case (file_deleted path p old)
  then show ?thesis
    using read_text_none[OF held_text, of fs p old "world st" True] ensure_not_directory_iff[of fs p "world st" "()"] assms(2)
    by (simp add: apply_hunk_def apply_delete_def Let_def held_text)
next
  case (file_updated path p old chunks new)
  then show ?thesis
    using read_text_none[OF held_text, of fs p old "world st" True] assms(2)
    by (simp add: apply_hunk_def apply_update_def Let_def held_text derive_new_contents_def)
next
  case (file_moved path p dest d old old_d chunks new w1)
  then show ?thesis
    using read_text_none[OF held_text, of fs p old "world st" True] read_optional_held[of fs d "world st" True old_d]
      write_retry_stores[of ps fs d new "world st" w1] ensure_not_directory_iff[of fs p w1 "()"] assms(2)
    by (simp add: apply_hunk_def apply_update_def apply_move_def Let_def held_text derive_new_contents_def)
qed

lemma apply_hunk_loop_done:
  assumes "apply_hunk_loop ps fs cwd hs st = (Inr u, st')" "exact (delta st')"
  shows "exact (delta st) \<and> (\<exists>cs. changes (delta st') = changes (delta st) @ cs \<and> patch_done ps fs cwd hs cs (world st) (world st'))"
  using assms
proof (induction hs arbitrary: st)
  case Nil
  then show ?case by (auto intro: patch_done.nothing)
next
  case (Cons h hs)
  then obtain u1 st1 where h: "apply_hunk ps fs cwd h st = (Inr u1, st1)" "apply_hunk_loop ps fs cwd hs st1 = (Inr u, st')"
    by (auto split: prod.splits sum.splits)
  from Cons.IH[OF h(2) Cons.prems(2)] obtain cs where
    cs: "exact (delta st1)" "changes (delta st') = changes (delta st1) @ cs" "patch_done ps fs cwd hs cs (world st1) (world st')" by blast
  from apply_hunk_done[OF h(1) cs(1)] obtain c where
    "exact (delta st)" "changes (delta st1) = changes (delta st) @ [c]" "hunk_done ps fs cwd h c (world st) (world st1)" by auto
  with cs show ?case by (auto intro: patch_done.more)
qed

lemma patch_done_loop:
  "patch_done ps fs cwd hs cs w w' \<Longrightarrow> world st = w \<Longrightarrow> exact (delta st) \<Longrightarrow>
   \<exists>st'. apply_hunk_loop ps fs cwd hs st = (Inr (), st') \<and> exact (delta st') \<and>
     changes (delta st') = changes (delta st) @ cs \<and> world st' = w'"
proof (induction arbitrary: st rule: patch_done.induct)
  case (more h c w w1 hs cs w')
  from hunk_done_apply[of ps fs cwd h c st w1] more.hyps(1) more.prems obtain st1 where
    st1: "apply_hunk ps fs cwd h st = (Inr (), st1)" "exact (delta st1)" "changes (delta st1) = changes (delta st) @ [c]" "world st1 = w1"
    by auto
  from more.IH[OF st1(4,2)] st1 show ?case by auto
qed simp

lemma apply_hunk_loop_stopped:
  assumes "apply_hunk_loop ps fs cwd hs st = (Inl e, st')" "exact (delta st')"
  shows "exact (delta st) \<and> (\<exists>hs1 h hs2 cs cs' w'. hs = hs1 @ h # hs2 \<and> changes (delta st') = changes (delta st) @ cs @ cs' \<and>
    patch_done ps fs cwd hs1 cs (world st) w' \<and> hunk_stopped ps fs cwd h cs' w' (world st'))"
  using assms
proof (induction hs arbitrary: st)
  case (Cons h hs)
  obtain q st1 where q: "apply_hunk ps fs cwd h st = (q, st1)" by (rule prod.exhaust)
  show ?case
  proof (cases q)
    case (Inl e')
    then have "st1 = st'" using Cons.prems q by simp
    with apply_hunk_done[OF q] Cons.prems(2) Inl obtain cs' where
      "exact (delta st)" "changes (delta st') = changes (delta st) @ [] @ cs'" "hunk_stopped ps fs cwd h cs' (world st) (world st')" by auto
    then show ?thesis
      by (intro conjI exI[of _ "[]"] exI[of _ h] exI[of _ hs] exI[of _ cs'] exI[of _ "world st"]) (simp_all add: patch_done.nothing)
  next
    case (Inr u)
    then have "apply_hunk_loop ps fs cwd hs st1 = (Inl e, st')" using Cons.prems q by simp
    from Cons.IH[OF this Cons.prems(2)] obtain hs1 h' hs2 cs cs' w' where
      s: "exact (delta st1)" "hs = hs1 @ h' # hs2" "changes (delta st') = changes (delta st1) @ cs @ cs'"
        "patch_done ps fs cwd hs1 cs (world st1) w'" "hunk_stopped ps fs cwd h' cs' w' (world st')" by blast
    from apply_hunk_done[OF q s(1)] Inr obtain c where
      c: "exact (delta st)" "changes (delta st1) = changes (delta st) @ [c]" "hunk_done ps fs cwd h c (world st) (world st1)" by auto
    have "h # hs = (h # hs1) @ h' # hs2" "changes (delta st') = changes (delta st) @ (c # cs) @ cs'"
      using s(2,3) c(2) by simp_all
    then show ?thesis using c(1) patch_done.more[OF c(3) s(4)] s(5) by blast
  qed
qed simp

text \<open>
  C17. An exact delta is the account of what was done, on any file system whatever. A patch is carried
  out with an exact delta exactly when it can be carried out hunk by hunk as recorded: every path was a regular file or
  missing and held the recorded text just before it was changed, an update recorded what its chunks make of that text, a new text was stored by one write or by a
  second one after the parent directories were made, and each removal succeeded; and when a hunk fails and the delta is still exact, the
  hunks before it are recorded so, and the failing one changed nothing but, for a move, stored its recorded destination
  while its source still holds the text.
\<close>
theorem exact_delta_accounts:
  "((\<exists>a. apply_hunks_to_files ps fs cwd hs w = (Inr (), \<lparr>world = w', delta = \<lparr>changes = cs, exact = True\<rparr>, affected = a\<rparr>)) \<longleftrightarrow>
      hs \<noteq> [] \<and> patch_done ps fs cwd hs cs w w') \<and>
   (\<forall>e st. apply_hunks_to_files ps fs cwd hs w = (Inl e, st) \<and> exact (delta st) \<longrightarrow>
      hs = [] \<and> st = initial_state w \<or>
      (\<exists>hs1 h hs2 cs1 cs2 w1. hs = hs1 @ h # hs2 \<and> changes (delta st) = cs1 @ cs2 \<and>
         patch_done ps fs cwd hs1 cs1 w w1 \<and> hunk_stopped ps fs cwd h cs2 w1 (world st)))"
proof (intro conjI iffI allI impI)
  have i: "world (initial_state w) = w" "exact (delta (initial_state w))" "changes (delta (initial_state w)) = []"
    by (simp_all add: initial_state_def empty_delta_def)
  {
    assume "\<exists>a. apply_hunks_to_files ps fs cwd hs w = (Inr (), \<lparr>world = w', delta = \<lparr>changes = cs, exact = True\<rparr>, affected = a\<rparr>)"
    then obtain a where a: "apply_hunks_to_files ps fs cwd hs w = (Inr (), \<lparr>world = w', delta = \<lparr>changes = cs, exact = True\<rparr>, affected = a\<rparr>)" by blast
    then show "hs \<noteq> []" by (auto simp: apply_hunks_to_files_def)
    with a have "apply_hunk_loop ps fs cwd hs (initial_state w) = (Inr (), \<lparr>world = w', delta = \<lparr>changes = cs, exact = True\<rparr>, affected = a\<rparr>)"
      by (simp add: apply_hunks_to_files_def)
    from apply_hunk_loop_done[OF this] show "patch_done ps fs cwd hs cs w w'" by (auto simp: i)
  next
    assume p: "hs \<noteq> [] \<and> patch_done ps fs cwd hs cs w w'"
    from patch_done_loop[OF conjunct2[OF p] i(1,2)] obtain st' where
      st': "apply_hunk_loop ps fs cwd hs (initial_state w) = (Inr (), st')" "exact (delta st')" "changes (delta st') = cs" "world st' = w'"
      by (auto simp: i)
    then have "st' = \<lparr>world = w', delta = \<lparr>changes = cs, exact = True\<rparr>, affected = affected st'\<rparr>" by simp
    with st'(1) p show "\<exists>a. apply_hunks_to_files ps fs cwd hs w = (Inr (), \<lparr>world = w', delta = \<lparr>changes = cs, exact = True\<rparr>, affected = a\<rparr>)"
      unfolding apply_hunks_to_files_def by auto
  next
    fix e st assume f: "apply_hunks_to_files ps fs cwd hs w = (Inl e, st) \<and> exact (delta st)"
    show "hs = [] \<and> st = initial_state w \<or>
      (\<exists>hs1 h hs2 cs1 cs2 w1. hs = hs1 @ h # hs2 \<and> changes (delta st) = cs1 @ cs2 \<and>
         patch_done ps fs cwd hs1 cs1 w w1 \<and> hunk_stopped ps fs cwd h cs2 w1 (world st))"
    proof (cases "hs = []")
      case False
      then have "apply_hunk_loop ps fs cwd hs (initial_state w) = (Inl e, st)" using f by (simp add: apply_hunks_to_files_def)
      from apply_hunk_loop_stopped[OF this conjunct2[OF f]] show ?thesis unfolding i by simp
    qed (use f in \<open>simp add: apply_hunks_to_files_def\<close>)
  }
qed

section \<open>The summary of a successful patch\<close>

fun is_add_hunk :: "hunk \<Rightarrow> bool" where
  "is_add_hunk (AddFile _ _) = True" | "is_add_hunk _ = False"

fun is_delete_hunk :: "hunk \<Rightarrow> bool" where
  "is_delete_hunk (DeleteFile _) = True" | "is_delete_hunk _ = False"

fun is_update_hunk :: "hunk \<Rightarrow> bool" where
  "is_update_hunk (UpdateFile _ _ _) = True" | "is_update_hunk _ = False"

definition summary_of :: "hunk list \<Rightarrow> affected_paths" where
  "summary_of hs = \<lparr>added = map hunk_path (filter is_add_hunk hs),
     modified = map hunk_path (filter is_update_hunk hs),
     deleted = map hunk_path (filter is_delete_hunk hs)\<rparr>"

definition affected_append :: "affected_paths \<Rightarrow> affected_paths \<Rightarrow> affected_paths" where
  "affected_append a b = \<lparr>added = added a @ added b, modified = modified a @ modified b,
     deleted = deleted a @ deleted b\<rparr>"

lemma affected_push_modified [simp]:
  "affected (push_modified p st) = (affected st)\<lparr>modified := modified (affected st) @ [p]\<rparr>"
  by (simp add: push_modified_def)

lemma apply_hunk_affected:
  "apply_hunk ps fs cwd h st = (Inr u, st') \<Longrightarrow> affected st' = affected_append (affected st) (summary_of [h])"
  by (cases h; cases "affected st")
    (auto simp: apply_hunk_def apply_add_def apply_delete_def apply_update_def apply_move_def Let_def
      affected_append_def summary_of_def split: sum.splits prod.splits option.splits)

lemma summary_of_Cons: "summary_of (h # hs) = affected_append (summary_of [h]) (summary_of hs)"
  by (cases h) (simp_all add: summary_of_def affected_append_def)

lemma affected_append_assoc:
  "affected_append (affected_append a b) c = affected_append a (affected_append b c)"
  by (simp add: affected_append_def)

lemma apply_hunk_loop_affected:
  "apply_hunk_loop ps fs cwd hs st = (Inr u, st') \<Longrightarrow>
   affected st' = affected_append (affected st) (summary_of hs)"
proof (induction hs arbitrary: st)
  case Nil
  then show ?case by (cases "affected st'") (simp add: summary_of_def affected_append_def)
next
  case (Cons h hs)
  then obtain u' st1 where h: "apply_hunk ps fs cwd h st = (Inr u', st1)"
    "apply_hunk_loop ps fs cwd hs st1 = (Inr u, st')"
    by (auto split: prod.splits sum.splits)
  with Cons.IH[OF h(2)] apply_hunk_affected[OF h(1)] show ?case
    by (metis affected_append_assoc summary_of_Cons)
qed

text \<open>
  The summary names exactly the hunks: when applying succeeds, the added, modified and
  deleted lists are the paths of the add, update (under their new name) and delete hunks of the
  patch, in its order, and an update never ends in the panic.
\<close>

theorem apply_hunks_summary:
  assumes a: "apply_hunks_to_files ps fs cwd hs w = (Inr u, st)"
  shows "hs \<noteq> [] \<and> affected st = summary_of hs \<and>
     derive_new_contents ps fs path chunks w \<noteq> Inl AnyPanic"
proof (intro conjI)
  show "hs \<noteq> []" using a by (auto simp: apply_hunks_to_files_def)
  with a have "affected st = affected_append (affected (initial_state w)) (summary_of hs)"
    by (auto simp: apply_hunks_to_files_def dest: apply_hunk_loop_affected)
  then show "affected st = summary_of hs"
    by (simp add: affected_append_def initial_state_def summary_of_def)
  show "derive_new_contents ps fs path chunks w \<noteq> Inl AnyPanic"
  proof (cases "fs_read_text fs path w")
    case (Inr s)
    obtain r where "new_contents_from_chunks s (uri_native ps path) chunks = Some r"
      using new_contents_some by blast
    with Inr show ?thesis by (auto simp: derive_new_contents_def split: sum.splits)
  qed (simp add: derive_new_contents_def)
qed

section \<open>Moving a file onto itself\<close>

text \<open>
  A move whose destination resolves to the source path loses the file: the new text is
  written, then the same path is removed as the last thing that is done, and the hunk succeeds.
\<close>

theorem move_onto_itself_deletes:
  assumes "uri_join ps cwd path = Inr u" and "uri_join ps cwd d = Inr u"
    and "apply_hunk ps fs cwd (UpdateFile path (Some d) chunks) st = (Inr r, st')"
  shows "\<exists>new w. stores ps fs u new (world st) w \<and> fs_remove fs u w = (Inr (), world st')"
  using assms
  by (auto simp: apply_hunk_def apply_update_def apply_move_def Let_def write_retry_stores split: sum.splits prod.splits) blast

section \<open>An in-memory file system\<close>

text \<open>A file system without directories, for the instances below.\<close>

definition mem_fs :: "(str \<Rightarrow> str option) file_system" where
  "mem_fs = \<lparr>
     fs_read_text = (\<lambda>p w. case w p of Some s \<Rightarrow> Inr s | None \<Rightarrow> Inl \<lparr>io_kind = NotFound, io_message = []\<rparr>),
     fs_metadata = (\<lambda>p w. case w p of
        Some s \<Rightarrow> Inr \<lparr>md_is_directory = False, md_is_file = True, md_is_symlink = False\<rparr>
      | None \<Rightarrow> Inl \<lparr>io_kind = NotFound, io_message = []\<rparr>),
     fs_write = (\<lambda>p s w. (Inr (), w(p := Some s))),
     fs_create_dir_all = (\<lambda>p w. (Inr (), w)),
     fs_remove = (\<lambda>p w. case w p of
        Some s \<Rightarrow> (Inr (), w(p := None))
      | None \<Rightarrow> (Inl \<lparr>io_kind = NotFound, io_message = []\<rparr>, w))\<rparr>"

definition plain_paths :: path_ops where
  "plain_paths = \<lparr>uri_join = (\<lambda>b p. Inr p), uri_parent = (\<lambda>p. None), uri_native = (\<lambda>p. p)\<rparr>"

lemma mem_fs_simps [simp]:
  "fs_read_text mem_fs p w = (case w p of Some s \<Rightarrow> Inr s | None \<Rightarrow> Inl \<lparr>io_kind = NotFound, io_message = []\<rparr>)"
  "fs_metadata mem_fs p w = (case w p of
        Some s \<Rightarrow> Inr \<lparr>md_is_directory = False, md_is_file = True, md_is_symlink = False\<rparr>
      | None \<Rightarrow> Inl \<lparr>io_kind = NotFound, io_message = []\<rparr>)"
  "fs_write mem_fs p s w = (Inr (), w(p := Some s))"
  "fs_create_dir_all mem_fs p w = (Inr (), w)"
  "fs_remove mem_fs p w = (case w p of
        Some s \<Rightarrow> (Inr (), w(p := None))
      | None \<Rightarrow> (Inl \<lparr>io_kind = NotFound, io_message = []\<rparr>, w))"
  by (simp_all add: mem_fs_def)

theorem exact_delta_accounts_witness:
  "\<exists>c w1. hunk_done plain_paths mem_fs [] (AddFile (lit ''a'') (lit ''new'')) c (Map.empty(lit ''a'' \<mapsto> lit ''old'')) w1"
proof -
  let ?w = "Map.empty(lit ''a'' \<mapsto> lit ''old'')"
  let ?hs = "[AddFile (lit ''a'') (lit ''new''), UpdateFile (lit ''b'') None []]"
  obtain r st where a: "apply_hunks_to_files plain_paths mem_fs [] ?hs ?w = (r, st)" by (rule prod.exhaust)
  then have h: "exact (delta st)" "changes (delta st) \<noteq> []" "r \<noteq> Inr ()"
    by (auto simp: apply_hunks_to_files_def apply_hunk_def apply_add_def plain_paths_def initial_state_def
        empty_delta_def read_optional_file_text_def note_existing_path_def write_file_with_missing_parent_retry_def
        apply_update_def derive_new_contents_def Let_def lit_simps)
  then obtain e where e: "apply_hunks_to_files plain_paths mem_fs [] ?hs ?w = (Inl e, st)" using a by (cases r) auto
  note exact_delta_accounts[where ps = plain_paths and fs = mem_fs and cwd = "[]" and hs = ?hs and w = ?w, THEN conjunct2]
  then have "apply_hunks_to_files plain_paths mem_fs [] ?hs ?w = (Inl e, st) \<and> exact (delta st) \<longrightarrow>
      ?hs = [] \<and> st = initial_state ?w \<or>
      (\<exists>hs1 h hs2 cs1 cs2 w1. ?hs = hs1 @ h # hs2 \<and> changes (delta st) = cs1 @ cs2 \<and>
         patch_done plain_paths mem_fs [] hs1 cs1 ?w w1 \<and> hunk_stopped plain_paths mem_fs [] h cs2 w1 (world st))" by blast
  with e h(1) obtain hs1 h hs2 cs1 cs2 w1 where
    s: "?hs = hs1 @ h # hs2" "changes (delta st) = cs1 @ cs2" "patch_done plain_paths mem_fs [] hs1 cs1 ?w w1"
      "hunk_stopped plain_paths mem_fs [] h cs2 w1 (world st)" by (elim impE disjE exE conjE) simp_all
  show ?thesis
  proof (cases hs1)
    case Nil
    then have "cs1 = []" "h = AddFile (lit ''a'') (lit ''new'')" using s by (auto elim: patch_done.cases)
    then have "cs2 = []" using s(4) by (auto elim: hunk_stopped.cases)
    then show ?thesis using \<open>cs1 = []\<close> s(2) h(2) by simp
  next
    case (Cons h' hs')
    then have "patch_done plain_paths mem_fs [] (AddFile (lit ''a'') (lit ''new'') # hs') cs1 ?w w1" using s(1,3) by simp
    then show ?thesis by cases blast
  qed
qed

theorem move_onto_itself_deletes_witness:
  "\<exists>st'. apply_hunk plain_paths mem_fs []
      (UpdateFile (lit ''a'') (Some (lit ''a''))
        [\<lparr>change_context = None, old_lines = [], new_lines = [lit ''x''], is_end_of_file = False\<rparr>])
      (initial_state (Map.empty(lit ''a'' \<mapsto> lit ''old''))) = (Inr (), st') \<and>
    world st' (lit ''a'') = None"
proof -
  let ?h = "UpdateFile (lit ''a'') (Some (lit ''a''))
        [\<lparr>change_context = None, old_lines = [], new_lines = [lit ''x''], is_end_of_file = False\<rparr>]"
  let ?st = "initial_state (Map.empty(lit ''a'' \<mapsto> lit ''old''))"
  obtain r st' where a: "apply_hunk plain_paths mem_fs [] ?h ?st = (r, st')" by fastforce
  then have r: "r = Inr ()"
    by (auto simp: apply_hunk_def apply_update_def apply_move_def plain_paths_def mem_fs_def initial_state_def
        empty_delta_def read_optional_file_text_def note_existing_path_def write_file_with_missing_parent_retry_def
        set_exact_def push_change_def derive_new_contents_def new_contents_from_chunks_def compute_replacements_def
        context_index_def insertion_index_def file_lines_def ends_with_empty_def last_opt_def lit_simps
        ensure_not_directory_def apply_replacements_def apply_replacement_eq render_lines_def push_modified_def Let_def
        split: prod.splits)
  have "\<exists>new w. stores plain_paths mem_fs (lit ''a'') new (world ?st) w \<and> fs_remove mem_fs (lit ''a'') w = (Inr (), world st')"
    by (rule move_onto_itself_deletes[OF _ _ a[unfolded r]]) (simp_all add: plain_paths_def)
  then have "world st' (lit ''a'') = None" by (auto split: option.splits) (metis fun_upd_same)
  with a r show ?thesis by simp
qed

theorem apply_hunks_summary_witness:
  "\<exists>st. apply_hunks_to_files plain_paths mem_fs [] [AddFile (lit ''a'') (lit ''new'')] (Map.empty(lit ''a'' \<mapsto> lit ''old'')) =
       (Inr (), st) \<and>
     affected st = \<lparr>added = [lit ''a''], modified = [], deleted = []\<rparr>"
proof -
  let ?w = "Map.empty(lit ''a'' \<mapsto> lit ''old'')"
  let ?hs = "[AddFile (lit ''a'') (lit ''new'')]"
  obtain r st where a: "apply_hunks_to_files plain_paths mem_fs [] ?hs ?w = (r, st)" by fastforce
  then have r: "r = Inr ()"
    by (auto simp: apply_hunks_to_files_def apply_hunk_def apply_add_def plain_paths_def mem_fs_def initial_state_def
        empty_delta_def read_optional_file_text_def note_existing_path_def write_file_with_missing_parent_retry_def
        set_exact_def push_change_def)
  have "affected st = summary_of ?hs" using apply_hunks_summary[OF a[unfolded r]] by blast
  then have "affected st = \<lparr>added = [lit ''a''], modified = [], deleted = []\<rparr>"
    by (simp add: summary_of_def)
  with a r show ?thesis by blast
qed

end
