(* ===== verification/FsPath.thy ===== *)
theory FsPath
  imports AbsPath
begin

text \<open>
  Absolute paths as lists of components (\<open>AbsolutePathBuf\<close>, codex-rs/utils/absolute-path/src/lib.rs) and
  what the permission model reads of the file system: effective paths through symbolic links, git
  pointer files and the metadata directories that stay protected
  (codex-rs/protocol/src/permissions.rs). Unix paths; the process environment and the file system are
  the record \<open>fs_view\<close>.
\<close>

section \<open>AbsolutePathBuf as its components\<close>

text \<open>
  An \<open>AbsolutePathBuf\<close> is absolute and normalised, so it is the list of its components, and
  \<open>render_absolute\<close> is its text; \<open>Path::starts_with\<close> compares whole components. The lists are shown to
  consist of normal components.
\<close>

type_synonym abs_path = "str list"

definition from_absolute_path :: "path_env \<Rightarrow> str \<Rightarrow> abs_path option" where
  "from_absolute_path env p =
     (let expanded = expand_home env p
      in if path_is_absolute expanded then Some (normalized_components expanded)
         else map_option (\<lambda>cwd. normalized_components (path_join cwd expanded)) (current_dir env))"

definition resolve_path_against_base :: "path_env \<Rightarrow> str \<Rightarrow> abs_path \<Rightarrow> abs_path" where
  "resolve_path_against_base env p base = normalized_components (path_join (render_absolute base) (expand_home env p))"

definition abs_join :: "path_env \<Rightarrow> abs_path \<Rightarrow> str \<Rightarrow> abs_path" where
  "abs_join env base p = resolve_path_against_base env p base"

definition abs_parent :: "abs_path \<Rightarrow> abs_path option" where
  "abs_parent p = (if p = [] then None else Some (butlast p))"

definition ancestors :: "abs_path \<Rightarrow> abs_path list" where
  "ancestors p = rev (prefixes p)"

definition path_starts_with :: "abs_path \<Rightarrow> abs_path \<Rightarrow> bool" where
  "path_starts_with p base = prefix base p"

text \<open>\<open>Path::strip_prefix\<close>\<close>

definition strip_base :: "abs_path \<Rightarrow> abs_path \<Rightarrow> str list option" where
  "strip_base p base = (if prefix base p then Some (drop (length base) p) else None)"

text \<open>\<open>components().count()\<close>, the root included.\<close>

definition component_count :: "abs_path \<Rightarrow> nat" where
  "component_count p = Suc (length p)"

section \<open>What is read from the file system\<close>

text \<open>
  The process and file system state that the policy reads: home and current directory, \<open>TMPDIR\<close>, the
  kind and contents of files, \<open>symlink_metadata\<close> (\<open>None\<close> is an error, otherwise whether the path is a
  symbolic link) and \<open>canonicalize\<close>.
\<close>

record fs_view =
  fv_env :: path_env
  fv_tmpdir :: "str option"
  fv_is_dir :: "abs_path \<Rightarrow> bool"
  fv_is_file :: "abs_path \<Rightarrow> bool"
  fv_exists :: "abs_path \<Rightarrow> bool"
  fv_read :: "abs_path \<Rightarrow> str option"
  fv_symlink :: "abs_path \<Rightarrow> bool option"
  fv_canonicalize :: "str \<Rightarrow> abs_path option"

definition should_preserve_logical_path :: "fs_view \<Rightarrow> abs_path \<Rightarrow> bool" where
  "should_preserve_logical_path fv logical =
     list_ex (\<lambda>ancestor.
       case fv_symlink fv ancestor of
         None \<Rightarrow> False
       | Some is_symlink \<Rightarrow> is_symlink \<and> Option.bind (abs_parent ancestor) abs_parent \<noteq> None)
       (ancestors logical)"

definition canonicalize_preserving_symlinks :: "fs_view \<Rightarrow> str \<Rightarrow> abs_path option" where
  "canonicalize_preserving_symlinks fv path =
     (case from_absolute_path (fv_env fv) path of
        None \<Rightarrow> None
      | Some logical \<Rightarrow>
          (let preserve_logical_path = should_preserve_logical_path fv logical
           in case fv_canonicalize fv path of
                Some canonical \<Rightarrow> if preserve_logical_path \<and> canonical \<noteq> logical then Some logical else Some canonical
              | None \<Rightarrow> Some logical))"

definition canonicalize_existing_preserving_symlinks :: "fs_view \<Rightarrow> str \<Rightarrow> abs_path option" where
  "canonicalize_existing_preserving_symlinks fv path =
     (case from_absolute_path (fv_env fv) path of
        None \<Rightarrow> None
      | Some logical \<Rightarrow>
          (case fv_canonicalize fv path of
             None \<Rightarrow> None
           | Some canonical \<Rightarrow>
               if should_preserve_logical_path fv logical \<and> canonical \<noteq> logical then Some logical else Some canonical))"

fun find_map :: "('a \<Rightarrow> 'b option) \<Rightarrow> 'a list \<Rightarrow> 'b option" where
  "find_map f [] = None"
| "find_map f (x # xs) = (case f x of None \<Rightarrow> find_map f xs | Some y \<Rightarrow> Some y)"

definition normalize_through :: "fs_view \<Rightarrow> abs_path \<Rightarrow> abs_path \<Rightarrow> abs_path option" where
  "normalize_through fv raw_path ancestor =
     (if fv_symlink fv ancestor = None then None
      else (case canonicalize_preserving_symlinks fv (render_absolute ancestor) of
              None \<Rightarrow> None
            | Some normalized_ancestor \<Rightarrow>
                (case strip_base raw_path ancestor of
                   None \<Rightarrow> None
                 | Some rest \<Rightarrow>
                     from_absolute_path (fv_env fv) (render_absolute (normalized_ancestor @ rest)))))"

definition normalize_effective_absolute_path :: "fs_view \<Rightarrow> abs_path \<Rightarrow> abs_path" where
  "normalize_effective_absolute_path fv path =
     (case find_map (normalize_through fv path) (ancestors path) of Some p \<Rightarrow> p | None \<Rightarrow> path)"

fun dedup_loop :: "(abs_path \<Rightarrow> abs_path) \<Rightarrow> abs_path set \<Rightarrow> abs_path list \<Rightarrow> abs_path list" where
  "dedup_loop f seen [] = []"
| "dedup_loop f seen (p # ps) =
     (let dedup_path = f p
      in if dedup_path \<in> seen then dedup_loop f seen ps
         else dedup_path # dedup_loop f (insert dedup_path seen) ps)"

definition dedup_absolute_paths :: "fs_view \<Rightarrow> abs_path list \<Rightarrow> bool \<Rightarrow> abs_path list" where
  "dedup_absolute_paths fv paths normalize_effective_paths =
     dedup_loop (if normalize_effective_paths then normalize_effective_absolute_path fv else (\<lambda>p. p)) {} paths"

section \<open>Protected metadata\<close>

definition GIT_NAME :: str where "GIT_NAME = lit ''.git''"
definition AGENTS_NAME :: str where "AGENTS_NAME = lit ''.agents''"
definition CODEX_NAME :: str where "CODEX_NAME = lit ''.codex''"

definition PROTECTED_METADATA_PATH_NAMES :: "str list" where
  "PROTECTED_METADATA_PATH_NAMES = [GIT_NAME, AGENTS_NAME, CODEX_NAME]"

definition is_protected_metadata_name :: "str \<Rightarrow> bool" where
  "is_protected_metadata_name name = list_ex (\<lambda>metadata_name. name = metadata_name) PROTECTED_METADATA_PATH_NAMES"

definition metadata_path_name :: "str \<Rightarrow> str option" where
  "metadata_path_name name = find (\<lambda>metadata_name. name = metadata_name) PROTECTED_METADATA_PATH_NAMES"

definition is_git_pointer_file :: "fs_view \<Rightarrow> abs_path \<Rightarrow> bool" where
  "is_git_pointer_file fv path \<longleftrightarrow> fv_is_file fv path \<and> last_opt path = Some GIT_NAME"

definition resolve_gitdir_from_file :: "fs_view \<Rightarrow> abs_path \<Rightarrow> abs_path option" where
  "resolve_gitdir_from_file fv dot_git =
     (case fv_read fv dot_git of
        None \<Rightarrow> None
      | Some contents \<Rightarrow>
          (case split_once 58 (trim contents) of
             None \<Rightarrow> None
           | Some (key, gitdir_raw) \<Rightarrow>
               if trim key \<noteq> lit ''gitdir'' then None
               else (let gitdir_raw = trim gitdir_raw
                     in if gitdir_raw = [] then None
                        else (case abs_parent dot_git of
                                None \<Rightarrow> None
                              | Some base \<Rightarrow>
                                  (let gitdir_path = resolve_path_against_base (fv_env fv) gitdir_raw base
                                   in if \<not> fv_exists fv gitdir_path then None else Some gitdir_path)))))"

definition default_read_only_subpaths_for_writable_root :: "fs_view \<Rightarrow> abs_path \<Rightarrow> bool \<Rightarrow> abs_path list" where
  "default_read_only_subpaths_for_writable_root fv writable_root protect_missing_dot_codex =
     (let top_level_git = abs_join (fv_env fv) writable_root GIT_NAME;
          top_level_git_is_file = fv_is_file fv top_level_git;
          top_level_git_is_dir = fv_is_dir fv top_level_git;
          git = (if top_level_git_is_dir \<or> top_level_git_is_file
                 then (if top_level_git_is_file \<and> is_git_pointer_file fv top_level_git
                       then (case resolve_gitdir_from_file fv top_level_git of Some gitdir \<Rightarrow> [gitdir] | None \<Rightarrow> [])
                       else []) @ [top_level_git]
                 else []);
          top_level_agents = abs_join (fv_env fv) writable_root AGENTS_NAME;
          agents = (if fv_is_dir fv top_level_agents then [top_level_agents] else []);
          top_level_codex = abs_join (fv_env fv) writable_root CODEX_NAME;
          codex = (if protect_missing_dot_codex \<or> fv_is_dir fv top_level_codex then [top_level_codex] else [])
      in dedup_absolute_paths fv (git @ agents @ codex) False)"

section \<open>Facts about paths\<close>

abbreviation normal_path :: "abs_path \<Rightarrow> bool" where
  "normal_path p \<equiv> list_all normal_component p"

lemma absolute_path_buf_components:
  "absolute_path_buf env p = map_option render_absolute (from_absolute_path env p)"
  by (cases "current_dir env")
    (auto simp: absolute_path_buf_def absolutize_def from_absolute_path_def normalize_path_def Let_def)

lemma from_absolute_path_normal: "from_absolute_path env p = Some q \<Longrightarrow> normal_path q"
  by (auto simp: from_absolute_path_def Let_def normalized_components_normal split: if_splits)

lemma resolve_path_against_base_normal: "normal_path (resolve_path_against_base env p base)"
  by (simp add: resolve_path_against_base_def normalized_components_normal)

lemma render_absolute_absolute: "path_is_absolute (render_absolute p)"
  by (simp add: render_absolute_def path_is_absolute_def starts_with_def)

lemma expand_home_no_tilde: "hd p \<noteq> 126 \<Longrightarrow> expand_home env p = p"
  by (cases p) (auto simp: expand_home_def strip_prefix_def starts_with_def split: option.splits)

lemma expand_home_absolute: "path_is_absolute p \<Longrightarrow> expand_home env p = p"
  by (rule expand_home_no_tilde) (cases p; auto simp: path_is_absolute_def starts_with_def)

lemma normalized_components_render: "normal_path p \<Longrightarrow> normalized_components (render_absolute p) = p"
  by (simp add: normalized_components_def path_normal_parts_render foldl_push_normal)

lemma from_absolute_path_render [simp]: "normal_path p \<Longrightarrow> from_absolute_path env (render_absolute p) = Some p"
  by (simp add: from_absolute_path_def Let_def expand_home_absolute render_absolute_absolute normalized_components_render)

lemma from_absolute_path_absolute:
  "path_is_absolute p \<Longrightarrow> from_absolute_path env p = Some (normalized_components p)"
  by (simp add: from_absolute_path_def Let_def expand_home_absolute)

lemma path_normal_parts_join:
  "path_normal_parts (path_join (render_absolute p) n) = (if path_is_absolute n then path_normal_parts n
     else path_normal_parts (render_absolute p) @ path_normal_parts n)"
  if "n \<noteq> []" for n
proof (cases "path_is_absolute n")
  case False
  have s: "split_on 47 (a @ [47] @ b) = split_on 47 a @ split_on 47 b" for a b
  proof (induction a)
    case (Cons x a)
    then show ?case by (cases "split_on 47 a") auto
  qed simp
  show ?thesis
  proof (cases "ends_with (render_absolute p) [47]")
    case True
    then obtain r where r: "render_absolute p = r @ [47]" by (auto simp: ends_with_suffix suffix_def)
    then show ?thesis using False s[of r n] s[of r "[]"]
      by (auto simp: path_join_def ends_with_suffix path_normal_parts_def)
  next
    case e: False
    moreover have "render_absolute p \<noteq> []" by (simp add: render_absolute_def)
    ultimately show ?thesis using False s[of "render_absolute p" n] by (simp add: path_join_def path_normal_parts_def)
  qed
qed (simp add: path_join_def)

lemma abs_join_name:
  assumes "normal_path p" "normal_component n" "hd n \<noteq> 126"
  shows "abs_join env p n = p @ [n]"
proof -
  have n: "n \<noteq> []" "47 \<notin> set n" "n \<noteq> [46]" using assms(2) by (auto simp: normal_component_def)
  then have "\<not> path_is_absolute n" by (cases n) (auto simp: path_is_absolute_def starts_with_def)
  moreover have "path_normal_parts n = [n]" using n by (simp add: path_normal_parts_def split_on_id)
  ultimately show ?thesis
    using n assms by (simp add: abs_join_def resolve_path_against_base_def expand_home_no_tilde
        normalized_components_def path_normal_parts_join path_normal_parts_render foldl_push_normal normal_component_def)
qed

lemma metadata_names:
  "n \<in> set PROTECTED_METADATA_PATH_NAMES \<Longrightarrow> normal_component n \<and> hd n \<noteq> 126"
  by (auto simp: PROTECTED_METADATA_PATH_NAMES_def GIT_NAME_def AGENTS_NAME_def CODEX_NAME_def lit_simps
      normal_component_def of_char_def)

lemma metadata_path_name_Some:
  "metadata_path_name n = Some m \<longleftrightarrow> n = m \<and> m \<in> set PROTECTED_METADATA_PATH_NAMES"
  by (auto simp: metadata_path_name_def PROTECTED_METADATA_PATH_NAMES_def)

lemma set_dedup_loop: "set (dedup_loop f seen ps) = f ` set ps - seen"
  by (induction ps arbitrary: seen) (auto simp: Let_def)

lemma distinct_dedup_loop: "distinct (dedup_loop f seen ps)"
  by (induction ps arbitrary: seen) (auto simp: Let_def set_dedup_loop)

lemma dedup_loop_distinct: "distinct ps \<Longrightarrow> set ps \<inter> seen = {} \<Longrightarrow> dedup_loop (\<lambda>p. p) seen ps = ps"
  by (induction ps arbitrary: seen) auto

end
