(* ===== verification/FsPolicy.thy ===== *)
theory FsPolicy
  imports FsPath "HOL-Library.List_Lexorder"
begin

text \<open>
  The filesystem permissions of the agent (codex-rs/protocol/src/permissions.rs) and the legacy sandbox
  policies they bridge to (\<open>SandboxPolicy\<close> in protocol/src/protocol.rs): entries and their resolution,
  the access of a path, protected metadata, the conversions, the operations that change a policy, the
  projections for the sandboxes and the matcher for denied reads. \<open>governs\<close> names the entry that decides a
  path, and \<open>can_write_at\<close> reduces the code's check to it.
\<close>

section \<open>Policies\<close>

datatype access_mode = AccessRead | AccessWrite | AccessDeny

fun access_rank :: "access_mode \<Rightarrow> nat" where
  "access_rank AccessRead = 0"
| "access_rank AccessWrite = 1"
| "access_rank AccessDeny = 2"

text \<open>The derived order is the precedence of equally specific entries.\<close>

instantiation access_mode :: linorder
begin

definition less_eq_access_mode :: "access_mode \<Rightarrow> access_mode \<Rightarrow> bool" where
  "less_eq_access_mode a b \<longleftrightarrow> access_rank a \<le> access_rank b"

definition less_access_mode :: "access_mode \<Rightarrow> access_mode \<Rightarrow> bool" where
  "less_access_mode a b \<longleftrightarrow> access_rank a < access_rank b"

instance
proof
  fix x y z :: access_mode
  show "(x < y) = (x \<le> y \<and> \<not> y \<le> x)" by (auto simp: less_eq_access_mode_def less_access_mode_def)
  show "x \<le> x" by (simp add: less_eq_access_mode_def)
  show "x \<le> y \<Longrightarrow> y \<le> z \<Longrightarrow> x \<le> z" by (simp add: less_eq_access_mode_def)
  show "x \<le> y \<Longrightarrow> y \<le> x \<Longrightarrow> x = y" by (cases x; cases y) (simp_all add: less_eq_access_mode_def)
  show "x \<le> y \<or> y \<le> x" by (auto simp: less_eq_access_mode_def)
qed

end

fun can_read :: "access_mode \<Rightarrow> bool" where
  "can_read AccessDeny = False"
| "can_read _ = True"

fun can_write :: "access_mode \<Rightarrow> bool" where
  "can_write AccessWrite = True"
| "can_write _ = False"

datatype special_path =
    Root
  | Minimal
  | ProjectRoots "str option"
  | Tmpdir
  | SlashTmp
  | UnknownPath str "str option"

datatype file_system_path = ConcretePath abs_path | GlobPath str | SpecialPath special_path

datatype missing_path_behavior = SkipMissing

record sandbox_entry =
  entry_path :: file_system_path
  entry_access :: access_mode
  entry_missing :: "missing_path_behavior option"

definition new_entry :: "file_system_path \<Rightarrow> access_mode \<Rightarrow> sandbox_entry" where
  "new_entry p a = \<lparr>entry_path = p, entry_access = a, entry_missing = None\<rparr>"

definition skip_missing_path :: "file_system_path \<Rightarrow> access_mode \<Rightarrow> sandbox_entry" where
  "skip_missing_path p a = \<lparr>entry_path = p, entry_access = a, entry_missing = Some SkipMissing\<rparr>"

definition skips_missing_path :: "sandbox_entry \<Rightarrow> bool" where
  "skips_missing_path e \<longleftrightarrow> entry_missing e = Some SkipMissing"

datatype sandbox_kind = RestrictedKind | UnrestrictedKind | ExternalSandboxKind

record sandbox_policy =
  policy_kind :: sandbox_kind
  glob_scan_max_depth :: "nat option"
  policy_entries :: "sandbox_entry list"

record resolved_entry =
  resolved_path :: abs_path
  resolved_access :: access_mode

definition unrestricted :: sandbox_policy where
  "unrestricted = \<lparr>policy_kind = UnrestrictedKind, glob_scan_max_depth = None, policy_entries = []\<rparr>"

definition external_sandbox :: sandbox_policy where
  "external_sandbox = \<lparr>policy_kind = ExternalSandboxKind, glob_scan_max_depth = None, policy_entries = []\<rparr>"

definition restricted :: "sandbox_entry list \<Rightarrow> sandbox_policy" where
  "restricted es = \<lparr>policy_kind = RestrictedKind, glob_scan_max_depth = None, policy_entries = es\<rparr>"

definition read_only :: sandbox_policy where
  "read_only = restricted [new_entry (SpecialPath Root) AccessRead]"

definition remove_skip_missing_path_entries :: "sandbox_policy \<Rightarrow> sandbox_policy" where
  "remove_skip_missing_path_entries p =
     p\<lparr>policy_entries := filter (\<lambda>e. \<not> skips_missing_path e) (policy_entries p)\<rparr>"

section \<open>Resolution of entries\<close>

definition PROJECT_ROOTS_GLOB_PATTERN_PREFIX :: str where
  "PROJECT_ROOTS_GLOB_PATTERN_PREFIX = lit ''codex-project-roots://''"

definition project_roots_glob_pattern :: "str \<Rightarrow> str" where
  "project_roots_glob_pattern subpath = PROJECT_ROOTS_GLOB_PATTERN_PREFIX @ subpath"

definition parse_project_roots_glob_pattern :: "str \<Rightarrow> str option" where
  "parse_project_roots_glob_pattern pattern = strip_prefix pattern PROJECT_ROOTS_GLOB_PATTERN_PREFIX"

definition resolve_project_roots_glob_pattern :: "path_env \<Rightarrow> str \<Rightarrow> abs_path \<Rightarrow> str" where
  "resolve_project_roots_glob_pattern env subpath root = render_absolute (resolve_path_against_base env subpath root)"

definition SLASH_TMP :: abs_path where "SLASH_TMP = [lit ''tmp'']"

fun resolve_file_system_special_path :: "fs_view \<Rightarrow> special_path \<Rightarrow> abs_path option \<Rightarrow> abs_path option" where
  "resolve_file_system_special_path fv Root cwd = None"
| "resolve_file_system_special_path fv Minimal cwd = None"
| "resolve_file_system_special_path fv (UnknownPath p s) cwd = None"
| "resolve_file_system_special_path fv (ProjectRoots subpath) cwd =
     (case cwd of
        None \<Rightarrow> None
      | Some cwd \<Rightarrow>
          (case subpath of
             Some subpath \<Rightarrow> Some (resolve_path_against_base (fv_env fv) subpath cwd)
           | None \<Rightarrow> Some cwd))"
| "resolve_file_system_special_path fv Tmpdir cwd =
     (case fv_tmpdir fv of
        None \<Rightarrow> None
      | Some tmpdir \<Rightarrow> if tmpdir = [] then None else from_absolute_path (fv_env fv) tmpdir)"
| "resolve_file_system_special_path fv SlashTmp cwd = (if \<not> fv_is_dir fv SLASH_TMP then None else Some SLASH_TMP)"

fun resolve_file_system_path :: "fs_view \<Rightarrow> file_system_path \<Rightarrow> abs_path option \<Rightarrow> abs_path option" where
  "resolve_file_system_path fv (ConcretePath p) cwd = Some p"
| "resolve_file_system_path fv (GlobPath g) cwd = None"
| "resolve_file_system_path fv (SpecialPath s) cwd = resolve_file_system_special_path fv s cwd"

definition absolute_root_path_for_cwd :: "abs_path \<Rightarrow> abs_path" where
  "absolute_root_path_for_cwd cwd = last (ancestors cwd)"

definition resolve_entry_path :: "fs_view \<Rightarrow> file_system_path \<Rightarrow> abs_path option \<Rightarrow> abs_path option" where
  "resolve_entry_path fv p cwd =
     (if p = SpecialPath Root then map_option absolute_root_path_for_cwd cwd else resolve_file_system_path fv p cwd)"

definition resolve_candidate_path :: "path_env \<Rightarrow> str \<Rightarrow> str \<Rightarrow> abs_path option" where
  "resolve_candidate_path env path cwd =
     (if path_is_absolute path then from_absolute_path env path
      else map_option (\<lambda>c. abs_join env c path) (from_absolute_path env cwd))"

definition resolved_entries_with_cwd :: "fs_view \<Rightarrow> sandbox_policy \<Rightarrow> str \<Rightarrow> resolved_entry list" where
  "resolved_entries_with_cwd fv p cwd =
     (let cwd_absolute = from_absolute_path (fv_env fv) cwd
      in List.map_filter
           (\<lambda>e. map_option (\<lambda>path. \<lparr>resolved_path = path, resolved_access = entry_access e\<rparr>)
                  (resolve_entry_path fv (entry_path e) cwd_absolute))
           (policy_entries p))"

text \<open>The two comparisons of targets that need no current directory.\<close>

fun special_path_matches_absolute_path :: "special_path \<Rightarrow> abs_path \<Rightarrow> bool" where
  "special_path_matches_absolute_path Root p = (abs_parent p = None)"
| "special_path_matches_absolute_path SlashTmp p = (p = SLASH_TMP)"
| "special_path_matches_absolute_path _ p = False"

fun special_paths_share_target :: "special_path \<Rightarrow> special_path \<Rightarrow> bool" where
  "special_paths_share_target Root Root = True"
| "special_paths_share_target Minimal Minimal = True"
| "special_paths_share_target Tmpdir Tmpdir = True"
| "special_paths_share_target SlashTmp SlashTmp = True"
| "special_paths_share_target (ProjectRoots l) (ProjectRoots r) = (l = r)"
| "special_paths_share_target (UnknownPath l ls) (UnknownPath r rs) = (l = r \<and> ls = rs)"
| "special_paths_share_target _ _ = False"

fun file_system_paths_share_target :: "file_system_path \<Rightarrow> file_system_path \<Rightarrow> bool" where
  "file_system_paths_share_target (ConcretePath l) (ConcretePath r) = (l = r)"
| "file_system_paths_share_target (SpecialPath l) (SpecialPath r) = special_paths_share_target l r"
| "file_system_paths_share_target (ConcretePath p) (SpecialPath v) = special_path_matches_absolute_path v p"
| "file_system_paths_share_target (SpecialPath v) (ConcretePath p) = special_path_matches_absolute_path v p"
| "file_system_paths_share_target (GlobPath l) (GlobPath r) = (l = r)"
| "file_system_paths_share_target _ _ = False"

section \<open>Access\<close>

definition has_root_access :: "sandbox_policy \<Rightarrow> (access_mode \<Rightarrow> bool) \<Rightarrow> bool" where
  "has_root_access p f \<longleftrightarrow>
     policy_kind p = RestrictedKind \<and> list_ex (\<lambda>e. entry_path e = SpecialPath Root \<and> f (entry_access e)) (policy_entries p)"

text \<open>On Unix every denying entry counts.\<close>

definition has_denied_read_restrictions :: "sandbox_policy \<Rightarrow> bool" where
  "has_denied_read_restrictions p \<longleftrightarrow>
     policy_kind p = RestrictedKind \<and> list_ex (\<lambda>e. entry_access e = AccessDeny) (policy_entries p)"

definition has_same_target_write_override :: "sandbox_policy \<Rightarrow> sandbox_entry \<Rightarrow> bool" where
  "has_same_target_write_override p e =
     list_ex (\<lambda>candidate. can_write (entry_access candidate) \<and> entry_access candidate > entry_access e \<and>
       file_system_paths_share_target (entry_path candidate) (entry_path e)) (policy_entries p)"

definition narrows_write :: "sandbox_policy \<Rightarrow> sandbox_entry \<Rightarrow> bool" where
  "narrows_write p e =
     (if can_write (entry_access e) then False
      else (case entry_path e of
              ConcretePath _ \<Rightarrow> \<not> has_same_target_write_override p e
            | GlobPath _ \<Rightarrow> True
            | SpecialPath v \<Rightarrow>
                (case v of
                   Root \<Rightarrow> entry_access e = AccessDeny
                 | Minimal \<Rightarrow> False
                 | UnknownPath _ _ \<Rightarrow> False
                 | _ \<Rightarrow> \<not> has_same_target_write_override p e)))"

definition has_write_narrowing_entries :: "sandbox_policy \<Rightarrow> bool" where
  "has_write_narrowing_entries p \<longleftrightarrow> policy_kind p = RestrictedKind \<and> list_ex (narrows_write p) (policy_entries p)"

definition has_full_disk_read_access :: "sandbox_policy \<Rightarrow> bool" where
  "has_full_disk_read_access p =
     (if policy_kind p = RestrictedKind then has_root_access p can_read \<and> \<not> has_denied_read_restrictions p else True)"

definition has_full_disk_write_access :: "sandbox_policy \<Rightarrow> bool" where
  "has_full_disk_write_access p =
     (if policy_kind p = RestrictedKind then has_root_access p can_write \<and> \<not> has_write_narrowing_entries p else True)"

definition include_platform_defaults :: "sandbox_policy \<Rightarrow> bool" where
  "include_platform_defaults p \<longleftrightarrow>
     \<not> has_full_disk_read_access p \<and> policy_kind p = RestrictedKind \<and>
     list_ex (\<lambda>e. entry_path e = SpecialPath Minimal \<and> can_read (entry_access e)) (policy_entries p)"

text \<open>\<open>max_by_key\<close>: the last of the greatest.\<close>

definition entry_precedence_le :: "resolved_entry \<Rightarrow> resolved_entry \<Rightarrow> bool" where
  "entry_precedence_le a b \<longleftrightarrow>
     component_count (resolved_path a) < component_count (resolved_path b) \<or>
     component_count (resolved_path a) = component_count (resolved_path b) \<and> resolved_access a \<le> resolved_access b"

fun max_by_precedence :: "resolved_entry list \<Rightarrow> resolved_entry option" where
  "max_by_precedence [] = None"
| "max_by_precedence (e # es) =
     Some (foldl (\<lambda>best e. if entry_precedence_le best e then e else best) e es)"

definition resolve_access_with_cwd :: "fs_view \<Rightarrow> sandbox_policy \<Rightarrow> str \<Rightarrow> str \<Rightarrow> access_mode" where
  "resolve_access_with_cwd fv p path cwd =
     (if policy_kind p \<noteq> RestrictedKind then AccessWrite
      else (case resolve_candidate_path (fv_env fv) path cwd of
              None \<Rightarrow> AccessDeny
            | Some path \<Rightarrow>
                (case max_by_precedence
                        (filter (\<lambda>e. path_starts_with path (resolved_path e)) (resolved_entries_with_cwd fv p cwd)) of
                   Some e \<Rightarrow> resolved_access e
                 | None \<Rightarrow> AccessDeny)))"

definition can_read_path_with_cwd :: "fs_view \<Rightarrow> sandbox_policy \<Rightarrow> str \<Rightarrow> str \<Rightarrow> bool" where
  "can_read_path_with_cwd fv p path cwd = can_read (resolve_access_with_cwd fv p path cwd)"

definition metadata_child_of_writable_root ::
  "fs_view \<Rightarrow> sandbox_policy \<Rightarrow> abs_path \<Rightarrow> str \<Rightarrow> (abs_path \<times> str) option" where
  "metadata_child_of_writable_root fv p target cwd =
     find_map (\<lambda>e.
       case strip_base target (resolved_path e) of
         None \<Rightarrow> None
       | Some [] \<Rightarrow> None
       | Some (first_component # _) \<Rightarrow>
           map_option (\<lambda>name. (abs_join (fv_env fv) (resolved_path e) name, name)) (metadata_path_name first_component))
       (filter (\<lambda>e. can_write (resolved_access e)) (resolved_entries_with_cwd fv p cwd))"

definition has_explicit_write_entry_for_metadata_path ::
  "fs_view \<Rightarrow> sandbox_policy \<Rightarrow> abs_path \<Rightarrow> abs_path \<Rightarrow> str \<Rightarrow> bool" where
  "has_explicit_write_entry_for_metadata_path fv p protected_metadata_path target cwd =
     list_ex (\<lambda>e. can_write (resolved_access e) \<and> path_starts_with target (resolved_path e) \<and>
         path_starts_with (resolved_path e) protected_metadata_path)
       (resolved_entries_with_cwd fv p cwd)"

definition is_metadata_write_denied :: "fs_view \<Rightarrow> sandbox_policy \<Rightarrow> str \<Rightarrow> str \<Rightarrow> bool" where
  "is_metadata_write_denied fv p path cwd =
     (if policy_kind p \<noteq> RestrictedKind then False
      else (case resolve_candidate_path (fv_env fv) path cwd of
              None \<Rightarrow> True
            | Some target \<Rightarrow>
                (case metadata_child_of_writable_root fv p target cwd of
                   None \<Rightarrow> False
                 | Some (protected_metadata_path, _) \<Rightarrow>
                     \<not> has_explicit_write_entry_for_metadata_path fv p protected_metadata_path target cwd)))"

definition can_write_path_with_cwd :: "fs_view \<Rightarrow> sandbox_policy \<Rightarrow> str \<Rightarrow> str \<Rightarrow> bool" where
  "can_write_path_with_cwd fv p path cwd =
     (if \<not> can_write (resolve_access_with_cwd fv p path cwd) then False
      else if has_full_disk_write_access p then True
      else \<not> is_metadata_write_denied fv p path cwd)"

definition forbidden_agent_metadata_write :: "fs_view \<Rightarrow> str \<Rightarrow> str \<Rightarrow> sandbox_policy \<Rightarrow> str option" where
  "forbidden_agent_metadata_write fv path cwd p =
     (if policy_kind p \<noteq> RestrictedKind then None
      else (case resolve_candidate_path (fv_env fv) path cwd of
              None \<Rightarrow> None
            | Some target \<Rightarrow>
                (case metadata_child_of_writable_root fv p target cwd of
                   None \<Rightarrow> None
                 | Some (protected_metadata_path, metadata_name) \<Rightarrow>
                     if has_explicit_write_entry_for_metadata_path fv p protected_metadata_path target cwd then None
                     else if \<not> can_write_path_with_cwd fv p (render_absolute target) cwd then Some metadata_name
                     else None)))"

definition has_explicit_non_write_entry_for_path_with_cwd :: "fs_view \<Rightarrow> sandbox_policy \<Rightarrow> str \<Rightarrow> str \<Rightarrow> bool" where
  "has_explicit_non_write_entry_for_path_with_cwd fv p path cwd =
     (case resolve_candidate_path (fv_env fv) path cwd of
        None \<Rightarrow> False
      | Some path \<Rightarrow>
          (let cwd = from_absolute_path (fv_env fv) cwd
           in list_ex (\<lambda>e. \<not> skips_missing_path e \<and> \<not> can_write (entry_access e) \<and>
                resolve_entry_path fv (entry_path e) cwd = Some path) (policy_entries p)))"

section \<open>Well-formed policies\<close>

text \<open>Concrete entries hold normalised paths, as the type \<open>AbsolutePathBuf\<close> promises.\<close>

fun wf_path :: "file_system_path \<Rightarrow> bool" where
  "wf_path (ConcretePath p) = normal_path p"
| "wf_path _ = True"

definition wf_policy :: "sandbox_policy \<Rightarrow> bool" where
  "wf_policy p = list_all (\<lambda>e. wf_path (entry_path e)) (policy_entries p)"

lemma SLASH_TMP_normal: "normal_path SLASH_TMP"
  by (simp add: SLASH_TMP_def lit_simps normal_component_def of_char_def)

lemma special_path_normal:
  "resolve_file_system_special_path fv v cwd = Some q \<Longrightarrow> (\<And>c. cwd = Some c \<Longrightarrow> normal_path c) \<Longrightarrow> normal_path q"
  by (cases v) (auto simp: resolve_path_against_base_normal SLASH_TMP_normal from_absolute_path_normal
      split: option.splits if_splits)

lemma root_path_for_cwd [simp]: "absolute_root_path_for_cwd cwd = []"
  by (cases cwd) (simp_all add: absolute_root_path_for_cwd_def ancestors_def)

lemma resolve_entry_path_normal:
  assumes "resolve_entry_path fv v cwd = Some q" "wf_path v" "\<And>c. cwd = Some c \<Longrightarrow> normal_path c"
  shows "normal_path q"
  using assms special_path_normal[of fv _ cwd q]
  by (cases v) (auto simp: resolve_entry_path_def split: if_splits)

lemma set_resolved_entries:
  "r \<in> set (resolved_entries_with_cwd fv p cwd) \<longleftrightarrow>
     (\<exists>e\<in>set (policy_entries p). resolve_entry_path fv (entry_path e) (from_absolute_path (fv_env fv) cwd) = Some (resolved_path r) \<and>
        resolved_access r = entry_access e)"
  by (cases r) (auto simp: resolved_entries_with_cwd_def Let_def List.map_filter_def intro!: rev_image_eqI)

lemma resolved_entries_normal:
  assumes "wf_policy p" "r \<in> set (resolved_entries_with_cwd fv p cwd)"
  shows "normal_path (resolved_path r)"
  using assms resolve_entry_path_normal from_absolute_path_normal
  by (fastforce simp: set_resolved_entries wf_policy_def list_all_iff)

section \<open>The entry that governs a path\<close>

definition governs :: "resolved_entry list \<Rightarrow> abs_path \<Rightarrow> resolved_entry \<Rightarrow> bool" where
  "governs es t m \<longleftrightarrow> m \<in> set es \<and> prefix (resolved_path m) t \<and>
     (\<forall>e\<in>set es. prefix (resolved_path e) t \<longrightarrow> entry_precedence_le e m)"

lemma precedence_refl [simp]: "entry_precedence_le e e"
  by (simp add: entry_precedence_le_def)

lemma precedence_trans: "entry_precedence_le a b \<Longrightarrow> entry_precedence_le b c \<Longrightarrow> entry_precedence_le a c"
  by (auto simp: entry_precedence_le_def)

lemma precedence_total: "\<not> entry_precedence_le a b \<Longrightarrow> entry_precedence_le b a"
  by (auto simp: entry_precedence_le_def)

lemma precedence_antisym:
  "entry_precedence_le a b \<Longrightarrow> entry_precedence_le b a \<Longrightarrow> resolved_access a = resolved_access b"
  by (auto simp: entry_precedence_le_def)

lemma precedence_length: "entry_precedence_le a b \<Longrightarrow> length (resolved_path a) \<le> length (resolved_path b)"
  by (auto simp: entry_precedence_le_def component_count_def)

lemma foldl_max_precedence:
  assumes "m = foldl (\<lambda>best e. if entry_precedence_le best e then e else best) b es"
  shows "m \<in> insert b (set es) \<and> (\<forall>e\<in>insert b (set es). entry_precedence_le e m)"
  using assms
proof (induction es arbitrary: b)
  case (Cons e es)
  let ?b = "if entry_precedence_le b e then e else b"
  have "m \<in> insert ?b (set es)" "\<forall>x\<in>insert ?b (set es). entry_precedence_le x m"
    using Cons.IH[of ?b] Cons.prems by simp_all
  moreover have "entry_precedence_le b ?b" "entry_precedence_le e ?b"
    using precedence_total[of b e] by simp_all
  ultimately show ?case by (cases "entry_precedence_le b e") (auto intro: precedence_trans)
qed simp

lemma max_by_precedence_Some:
  "max_by_precedence es = Some m \<Longrightarrow> m \<in> set es \<and> (\<forall>e\<in>set es. entry_precedence_le e m)"
  using foldl_max_precedence[of m "hd es" "tl es"] by (cases es) auto

lemma max_by_precedence_None [simp]: "max_by_precedence es = None \<longleftrightarrow> es = []"
  by (cases es) simp_all

definition access_at :: "resolved_entry list \<Rightarrow> abs_path \<Rightarrow> access_mode" where
  "access_at es t =
     (case max_by_precedence (filter (\<lambda>e. path_starts_with t (resolved_path e)) es) of
        Some e \<Rightarrow> resolved_access e
      | None \<Rightarrow> AccessDeny)"

lemma governs_unique: "governs es t m \<Longrightarrow> governs es t m' \<Longrightarrow> resolved_access m = resolved_access m'"
  by (auto simp: governs_def intro: precedence_antisym)

lemma governs_exists: "e \<in> set es \<Longrightarrow> prefix (resolved_path e) t \<Longrightarrow> \<exists>m. governs es t m"
proof -
  assume e: "e \<in> set es" "prefix (resolved_path e) t"
  let ?es = "filter (\<lambda>e. path_starts_with t (resolved_path e)) es"
  have "?es \<noteq> []" using e by (auto simp: filter_empty_conv path_starts_with_def)
  then obtain m where "max_by_precedence ?es = Some m" by (meson max_by_precedence_None not_Some_eq)
  from max_by_precedence_Some[OF this] show ?thesis by (auto simp: governs_def path_starts_with_def)
qed

lemma access_at_governs: "governs es t m \<Longrightarrow> access_at es t = resolved_access m"
proof -
  assume g: "governs es t m"
  let ?es = "filter (\<lambda>e. path_starts_with t (resolved_path e)) es"
  have "?es \<noteq> []" using g by (auto simp: filter_empty_conv path_starts_with_def governs_def)
  then obtain m' where m: "max_by_precedence ?es = Some m'" by (meson max_by_precedence_None not_Some_eq)
  then have "governs es t m'" using max_by_precedence_Some[OF m] by (auto simp: governs_def path_starts_with_def)
  from governs_unique[OF g this] m show ?thesis by (simp add: access_at_def)
qed

lemma access_at_not_Deny: "access_at es t = a \<Longrightarrow> a \<noteq> AccessDeny \<Longrightarrow> \<exists>m. governs es t m \<and> resolved_access m = a"
proof -
  assume a: "access_at es t = a" "a \<noteq> AccessDeny"
  then obtain m where m: "max_by_precedence (filter (\<lambda>e. path_starts_with t (resolved_path e)) es) = Some m"
    by (auto simp: access_at_def split: option.splits)
  then have "governs es t m" using max_by_precedence_Some[OF m] by (auto simp: governs_def path_starts_with_def)
  with a access_at_governs[OF this] show ?thesis by (intro exI[of _ m]) simp
qed

lemma governs_between: "governs es t m \<Longrightarrow> prefix (resolved_path m) u \<Longrightarrow> prefix u t \<Longrightarrow> governs es u m"
  by (auto simp: governs_def dest: prefix_order.trans)

lemma governs_self: "governs es t m \<Longrightarrow> governs es (resolved_path m) m"
  by (rule governs_between) (auto simp: governs_def)

lemma governs_longest: "governs es t m \<Longrightarrow> e \<in> set es \<Longrightarrow> prefix (resolved_path e) t \<Longrightarrow> prefix (resolved_path e) (resolved_path m)"
  by (auto simp: governs_def dest!: precedence_length bspec intro: prefix_length_prefix)

lemma resolve_candidate_render [simp]:
  "normal_path t \<Longrightarrow> resolve_candidate_path env (render_absolute t) cwd = Some t"
  by (simp add: resolve_candidate_path_def render_absolute_absolute)

lemma resolve_candidate_normal: "resolve_candidate_path env path cwd = Some t \<Longrightarrow> normal_path t"
  by (auto simp: resolve_candidate_path_def from_absolute_path_normal abs_join_def resolve_path_against_base_normal
      split: if_splits)

lemma resolve_access_at:
  "policy_kind p = RestrictedKind \<Longrightarrow> resolve_candidate_path (fv_env fv) path cwd = Some t \<Longrightarrow>
   resolve_access_with_cwd fv p path cwd = access_at (resolved_entries_with_cwd fv p cwd) t"
  by (simp add: resolve_access_with_cwd_def access_at_def)

section \<open>Protected metadata below a writable entry\<close>

definition metadata_below :: "abs_path \<Rightarrow> abs_path \<Rightarrow> bool" where
  "metadata_below w t \<longleftrightarrow> (\<exists>n rest. t = w @ n # rest \<and> n \<in> set PROTECTED_METADATA_PATH_NAMES)"

text \<open>The first writable entry that has the target below one of its protected names.\<close>

definition first_hit :: "resolved_entry list \<Rightarrow> abs_path \<Rightarrow> resolved_entry option" where
  "first_hit es t = find (\<lambda>e. can_write (resolved_access e) \<and> metadata_below (resolved_path e) t) es"

definition explicit_write :: "resolved_entry list \<Rightarrow> abs_path \<Rightarrow> abs_path \<Rightarrow> bool" where
  "explicit_write es q t \<longleftrightarrow>
     (\<exists>x\<in>set es. can_write (resolved_access x) \<and> prefix (resolved_path x) t \<and> prefix q (resolved_path x))"

definition metadata_denied :: "resolved_entry list \<Rightarrow> abs_path \<Rightarrow> bool" where
  "metadata_denied es t \<longleftrightarrow>
     (\<exists>e n rest. first_hit es t = Some e \<and> t = resolved_path e @ n # rest \<and> \<not> explicit_write es (resolved_path e @ [n]) t)"

lemma find_map_find:
  assumes "\<And>x. f x \<noteq> None \<longleftrightarrow> P x"
  shows "find_map f xs = Option.bind (find P xs) f"
proof (induction xs)
  case (Cons x xs)
  then show ?case using assms[of x] by (cases "f x") auto
qed simp

lemma find_filter: "find P (filter Q xs) = find (\<lambda>x. Q x \<and> P x) xs"
  by (induction xs) auto

lemma metadata_child_first_hit:
  assumes "wf_policy p"
  shows "metadata_child_of_writable_root fv p t cwd =
    (case first_hit (resolved_entries_with_cwd fv p cwd) t of
       None \<Rightarrow> None
     | Some e \<Rightarrow> Some (resolved_path e @ [t ! length (resolved_path e)], t ! length (resolved_path e)))"
proof -
  let ?es = "resolved_entries_with_cwd fv p cwd"
  let ?f = "\<lambda>e. case strip_base t (resolved_path e) of
         None \<Rightarrow> None
       | Some [] \<Rightarrow> None
       | Some (first_component # _) \<Rightarrow>
           map_option (\<lambda>name. (abs_join (fv_env fv) (resolved_path e) name, name)) (metadata_path_name first_component)"
  have some: "?f e = Some (q, n) \<longleftrightarrow> (\<exists>rest. t = resolved_path e @ n # rest) \<and> n \<in> set PROTECTED_METADATA_PATH_NAMES \<and>
      q = abs_join (fv_env fv) (resolved_path e) n" for e q n
    by (auto simp: strip_base_def prefix_def metadata_path_name_Some split: option.splits list.splits)
  have m: "?f e \<noteq> None \<longleftrightarrow> metadata_below (resolved_path e) t" for e
    using some[of e] by (auto simp: metadata_below_def not_None_eq)
  have "metadata_child_of_writable_root fv p t cwd = Option.bind (first_hit ?es t) ?f"
    unfolding metadata_child_of_writable_root_def find_map_find[of ?f, OF m] find_filter first_hit_def by simp
  moreover have "?f e = Some (resolved_path e @ [t ! length (resolved_path e)], t ! length (resolved_path e))"
    if "first_hit ?es t = Some e" for e
  proof -
    have e: "e \<in> set ?es" "metadata_below (resolved_path e) t"
      using that by (auto simp: first_hit_def find_Some_iff)
    then obtain n rest where n: "t = resolved_path e @ n # rest" "n \<in> set PROTECTED_METADATA_PATH_NAMES"
      by (auto simp: metadata_below_def)
    then have "abs_join (fv_env fv) (resolved_path e) n = resolved_path e @ [n]"
      using metadata_names resolved_entries_normal[OF assms e(1)] by (auto intro: abs_join_name)
    with n some[of e "resolved_path e @ [n]" n] show ?thesis by auto
  qed
  ultimately show ?thesis by (cases "first_hit ?es t") simp_all
qed

lemma first_hit_Some:
  "first_hit es t = Some e \<Longrightarrow> e \<in> set es \<and> can_write (resolved_access e) \<and> metadata_below (resolved_path e) t"
  by (auto simp: first_hit_def find_Some_iff)

lemma metadata_denied_iff:
  assumes "policy_kind p = RestrictedKind" "wf_policy p" "resolve_candidate_path (fv_env fv) path cwd = Some t"
  shows "is_metadata_write_denied fv p path cwd \<longleftrightarrow> metadata_denied (resolved_entries_with_cwd fv p cwd) t"
proof -
  let ?es = "resolved_entries_with_cwd fv p cwd"
  have x: "has_explicit_write_entry_for_metadata_path fv p q u cwd \<longleftrightarrow> explicit_write ?es q u" for q u
    by (simp add: has_explicit_write_entry_for_metadata_path_def explicit_write_def path_starts_with_def list_ex_iff)
  show ?thesis
  proof (cases "first_hit ?es t")
    case None
    then show ?thesis using assms by (simp add: is_metadata_write_denied_def metadata_child_first_hit metadata_denied_def)
  next
    case (Some e)
    then obtain n rest where n: "t = resolved_path e @ n # rest" by (auto dest!: first_hit_Some simp: metadata_below_def)
    then show ?thesis using Some assms
      by (auto simp: is_metadata_write_denied_def metadata_child_first_hit metadata_denied_def x)
  qed
qed

lemma can_write_at:
  assumes "policy_kind p = RestrictedKind" "wf_policy p" "resolve_candidate_path (fv_env fv) path cwd = Some t"
  shows "can_write_path_with_cwd fv p path cwd \<longleftrightarrow>
    access_at (resolved_entries_with_cwd fv p cwd) t = AccessWrite \<and>
    (has_full_disk_write_access p \<or> \<not> metadata_denied (resolved_entries_with_cwd fv p cwd) t)"
proof -
  have "can_write a \<longleftrightarrow> a = AccessWrite" for a by (cases a) simp_all
  then show ?thesis using assms metadata_denied_iff[OF assms]
    by (simp add: can_write_path_with_cwd_def resolve_access_at)
qed

section \<open>Legacy policies\<close>

datatype network_access = NetworkRestricted | NetworkEnabled

fun network_enabled :: "network_access \<Rightarrow> bool" where
  "network_enabled NetworkEnabled = True"
| "network_enabled NetworkRestricted = False"

datatype legacy_policy =
    DangerFullAccess
  | ReadOnly bool
  | ExternalSandbox network_access
  | WorkspaceWrite "abs_path list" bool bool bool \<comment> \<open>writable roots, network, exclude \<open>TMPDIR\<close>, exclude \<open>/tmp\<close>\<close>

fun has_full_network_access :: "legacy_policy \<Rightarrow> bool" where
  "has_full_network_access DangerFullAccess = True"
| "has_full_network_access (ExternalSandbox n) = network_enabled n"
| "has_full_network_access (ReadOnly n) = n"
| "has_full_network_access (WorkspaceWrite _ n _ _) = n"

text \<open>\<open>NetworkSandboxPolicy\<close> has the same two values as \<open>NetworkAccess\<close>.\<close>

definition network_policy_from_legacy :: "legacy_policy \<Rightarrow> network_access" where
  "network_policy_from_legacy l = (if has_full_network_access l then NetworkEnabled else NetworkRestricted)"

definition append_default_read_only_entry_if_no_explicit_rule ::
  "file_system_path \<Rightarrow> sandbox_entry list \<Rightarrow> sandbox_entry list" where
  "append_default_read_only_entry_if_no_explicit_rule path es =
     (if list_ex (\<lambda>e. file_system_paths_share_target (entry_path e) path) es then es
      else es @ [skip_missing_path path AccessRead])"

definition append_default_read_only_project_root_subpath_if_no_explicit_rule ::
  "str \<Rightarrow> sandbox_entry list \<Rightarrow> sandbox_entry list" where
  "append_default_read_only_project_root_subpath_if_no_explicit_rule subpath =
     append_default_read_only_entry_if_no_explicit_rule (SpecialPath (ProjectRoots (Some subpath)))"

definition append_default_read_only_path_if_no_explicit_rule :: "abs_path \<Rightarrow> sandbox_entry list \<Rightarrow> sandbox_entry list" where
  "append_default_read_only_path_if_no_explicit_rule path =
     append_default_read_only_entry_if_no_explicit_rule (ConcretePath path)"

text \<open>The loop over the protected subpaths of one writable root.\<close>

definition protect_root :: "fs_view \<Rightarrow> bool \<Rightarrow> abs_path \<Rightarrow> sandbox_entry list \<Rightarrow> sandbox_entry list" where
  "protect_root fv protect_missing_dot_codex root es =
     fold append_default_read_only_path_if_no_explicit_rule
       (default_read_only_subpaths_for_writable_root fv root protect_missing_dot_codex) es"

definition base_workspace_entries :: "abs_path list \<Rightarrow> bool \<Rightarrow> bool \<Rightarrow> sandbox_entry list" where
  "base_workspace_entries writable_roots exclude_tmpdir_env_var exclude_slash_tmp =
     [new_entry (SpecialPath Root) AccessRead, new_entry (SpecialPath (ProjectRoots None)) AccessWrite]
     @ (if \<not> exclude_slash_tmp then [new_entry (SpecialPath SlashTmp) AccessWrite] else [])
     @ (if \<not> exclude_tmpdir_env_var then [new_entry (SpecialPath Tmpdir) AccessWrite] else [])
     @ map (\<lambda>p. new_entry (ConcretePath p) AccessWrite) writable_roots"

definition workspace_write :: "fs_view \<Rightarrow> abs_path list \<Rightarrow> bool \<Rightarrow> bool \<Rightarrow> sandbox_policy" where
  "workspace_write fv writable_roots exclude_tmpdir_env_var exclude_slash_tmp =
     (let es = base_workspace_entries writable_roots exclude_tmpdir_env_var exclude_slash_tmp;
          es = append_default_read_only_project_root_subpath_if_no_explicit_rule (lit ''.git'') es;
          es = append_default_read_only_project_root_subpath_if_no_explicit_rule (lit ''.agents'') es;
          es = append_default_read_only_project_root_subpath_if_no_explicit_rule (lit ''.codex'') es
      in restricted (fold (protect_root fv False) writable_roots es))"

fun policy_from_legacy :: "fs_view \<Rightarrow> legacy_policy \<Rightarrow> sandbox_policy" where
  "policy_from_legacy fv DangerFullAccess = unrestricted"
| "policy_from_legacy fv (ExternalSandbox _) = external_sandbox"
| "policy_from_legacy fv (ReadOnly _) = restricted [new_entry (SpecialPath Root) AccessRead]"
| "policy_from_legacy fv (WorkspaceWrite roots _ exclude_tmpdir exclude_slash) =
     workspace_write fv roots exclude_tmpdir exclude_slash"

definition protect_legacy_roots :: "fs_view \<Rightarrow> str \<Rightarrow> abs_path list \<Rightarrow> sandbox_entry list \<Rightarrow> sandbox_entry list" where
  "protect_legacy_roots fv cwd writable_roots es =
     (let es = (case from_absolute_path (fv_env fv) cwd of None \<Rightarrow> es | Some cwd_root \<Rightarrow> protect_root fv True cwd_root es)
      in fold (protect_root fv False) writable_roots es)"

definition from_legacy_sandbox_policy_for_cwd :: "fs_view \<Rightarrow> legacy_policy \<Rightarrow> str \<Rightarrow> sandbox_policy" where
  "from_legacy_sandbox_policy_for_cwd fv l cwd =
     (let p = policy_from_legacy fv l
      in case l of
           WorkspaceWrite writable_roots _ _ _ \<Rightarrow>
             p\<lparr>policy_entries := protect_legacy_roots fv cwd writable_roots (policy_entries p)\<rparr>
         | _ \<Rightarrow> p)"

definition legacy_runtime_file_system_policy_for_cwd :: "fs_view \<Rightarrow> legacy_policy \<Rightarrow> str \<Rightarrow> sandbox_policy" where
  "legacy_runtime_file_system_policy_for_cwd fv l cwd =
     (case l of
        WorkspaceWrite writable_roots _ exclude_tmpdir exclude_slash \<Rightarrow>
          restricted (protect_legacy_roots fv cwd writable_roots
            (base_workspace_entries writable_roots exclude_tmpdir exclude_slash))
      | _ \<Rightarrow> policy_from_legacy fv l)"

text \<open>The loop of \<open>to_legacy_sandbox_policy\<close> over the entries.\<close>

record legacy_scan =
  scan_workspace_root_writable :: bool
  scan_writable_roots :: "abs_path list"
  scan_tmpdir_writable :: bool
  scan_slash_tmp_writable :: bool
  scan_unbridgeable_root_write :: bool

definition scan_entry :: "fs_view \<Rightarrow> abs_path option \<Rightarrow> sandbox_entry \<Rightarrow> legacy_scan \<Rightarrow> legacy_scan" where
  "scan_entry fv cwd_absolute e s =
     (case entry_path e of
        GlobPath _ \<Rightarrow> s
      | ConcretePath path \<Rightarrow>
          if can_write (entry_access e) then
            (if cwd_absolute = Some path then s\<lparr>scan_workspace_root_writable := True\<rparr>
             else s\<lparr>scan_writable_roots := scan_writable_roots s @ [path]\<rparr>)
          else s
      | SpecialPath v \<Rightarrow>
          (case v of
             Root \<Rightarrow> (case entry_access e of
                        AccessWrite \<Rightarrow> s\<lparr>scan_unbridgeable_root_write := True\<rparr>
                      | AccessRead \<Rightarrow> s
                      | AccessDeny \<Rightarrow> s)
           | Minimal \<Rightarrow> s
           | ProjectRoots subpath \<Rightarrow>
               if subpath = None \<and> can_write (entry_access e) then s\<lparr>scan_workspace_root_writable := True\<rparr>
               else (case resolve_file_system_special_path fv v cwd_absolute of
                       Some path \<Rightarrow>
                         if can_write (entry_access e) then s\<lparr>scan_writable_roots := scan_writable_roots s @ [path]\<rparr> else s
                     | None \<Rightarrow> s)
           | Tmpdir \<Rightarrow> if can_write (entry_access e) then s\<lparr>scan_tmpdir_writable := True\<rparr> else s
           | SlashTmp \<Rightarrow> if can_write (entry_access e) then s\<lparr>scan_slash_tmp_writable := True\<rparr> else s
           | UnknownPath _ _ \<Rightarrow> s))"

datatype legacy_error = WritesOutsideWorkspaceRoot

definition to_legacy_sandbox_policy ::
  "fs_view \<Rightarrow> sandbox_policy \<Rightarrow> network_access \<Rightarrow> str \<Rightarrow> legacy_error + legacy_policy" where
  "to_legacy_sandbox_policy fv p network_policy cwd =
     (case policy_kind p of
        ExternalSandboxKind \<Rightarrow>
          Inr (ExternalSandbox (if network_enabled network_policy then NetworkEnabled else NetworkRestricted))
      | UnrestrictedKind \<Rightarrow>
          Inr (if network_enabled network_policy then DangerFullAccess else ExternalSandbox NetworkRestricted)
      | RestrictedKind \<Rightarrow>
          (let cwd_absolute = from_absolute_path (fv_env fv) cwd;
               s = fold (scan_entry fv cwd_absolute) (policy_entries p)
                     \<lparr>scan_workspace_root_writable = False, scan_writable_roots = [], scan_tmpdir_writable = False,
                      scan_slash_tmp_writable = False, scan_unbridgeable_root_write = False\<rparr>
           in if has_full_disk_write_access p then
                Inr (if network_enabled network_policy then DangerFullAccess else ExternalSandbox NetworkRestricted)
              else if scan_workspace_root_writable s then
                Inr (WorkspaceWrite (dedup_absolute_paths fv (scan_writable_roots s) False)
                       (network_enabled network_policy) (\<not> scan_tmpdir_writable s) (\<not> scan_slash_tmp_writable s))
              else if scan_unbridgeable_root_write s \<or> scan_writable_roots s \<noteq> [] \<or> scan_tmpdir_writable s \<or>
                scan_slash_tmp_writable s then Inl WritesOutsideWorkspaceRoot
              else Inr (ReadOnly (network_enabled network_policy))))"

section \<open>Changes to a policy\<close>

definition push_missing :: "sandbox_entry list \<Rightarrow> sandbox_entry list \<Rightarrow> sandbox_entry list" where
  "push_missing new es = fold (\<lambda>e es. if e \<in> set es then es else es @ [e]) new es"

definition deny_entries :: "sandbox_policy \<Rightarrow> sandbox_entry list" where
  "deny_entries p = filter (\<lambda>e. entry_access e = AccessDeny) (policy_entries p)"

definition from_legacy_sandbox_policy_preserving_deny_entries ::
  "fs_view \<Rightarrow> legacy_policy \<Rightarrow> str \<Rightarrow> sandbox_policy \<Rightarrow> sandbox_policy" where
  "from_legacy_sandbox_policy_preserving_deny_entries fv l cwd existing =
     (let rebuilt = from_legacy_sandbox_policy_for_cwd fv l cwd
      in if policy_kind rebuilt \<noteq> RestrictedKind then rebuilt
         else rebuilt\<lparr>glob_scan_max_depth := glob_scan_max_depth existing,
                      policy_entries := push_missing (deny_entries existing) (policy_entries rebuilt)\<rparr>)"

definition preserve_deny_read_restrictions_from :: "sandbox_policy \<Rightarrow> sandbox_policy \<Rightarrow> sandbox_policy" where
  "preserve_deny_read_restrictions_from existing p =
     (let has_deny_read_entries = list_ex (\<lambda>e. entry_access e = AccessDeny) (policy_entries existing);
          p = (if policy_kind p = UnrestrictedKind \<and> has_deny_read_entries
               then restricted [new_entry (SpecialPath Root) AccessWrite] else p)
      in if policy_kind p \<noteq> RestrictedKind then p
         else p\<lparr>glob_scan_max_depth :=
                   (if glob_scan_max_depth p = None then glob_scan_max_depth existing else glob_scan_max_depth p),
                policy_entries := push_missing (deny_entries existing) (policy_entries p)\<rparr>)"

definition materialize_entry_with_cwd :: "fs_view \<Rightarrow> abs_path option \<Rightarrow> sandbox_entry \<Rightarrow> sandbox_entry" where
  "materialize_entry_with_cwd fv cwd e =
     (case entry_path e of
        SpecialPath (ProjectRoots _) \<Rightarrow>
          (case resolve_file_system_path fv (entry_path e) cwd of
             Some path \<Rightarrow> e\<lparr>entry_path := ConcretePath path\<rparr>
           | None \<Rightarrow> e)
      | GlobPath pattern \<Rightarrow>
          (case cwd of
             None \<Rightarrow> e
           | Some cwd \<Rightarrow>
               (case parse_project_roots_glob_pattern pattern of
                  None \<Rightarrow> e
                | Some subpath \<Rightarrow>
                    e\<lparr>entry_path := GlobPath (resolve_project_roots_glob_pattern (fv_env fv) subpath cwd)\<rparr>))
      | _ \<Rightarrow> e)"

definition materialize_project_roots_with_cwd :: "fs_view \<Rightarrow> str \<Rightarrow> sandbox_policy \<Rightarrow> sandbox_policy" where
  "materialize_project_roots_with_cwd fv cwd p =
     (let cwd = from_absolute_path (fv_env fv) cwd
      in p\<lparr>policy_entries := map (materialize_entry_with_cwd fv cwd) (policy_entries p)\<rparr>)"

definition materialize_entry_with_roots :: "fs_view \<Rightarrow> abs_path list \<Rightarrow> sandbox_entry \<Rightarrow> sandbox_entry list" where
  "materialize_entry_with_roots fv workspace_roots e =
     (case entry_path e of
        SpecialPath (ProjectRoots subpath) \<Rightarrow>
          map (\<lambda>root. e\<lparr>entry_path := ConcretePath
                 (case subpath of Some s \<Rightarrow> resolve_path_against_base (fv_env fv) s root | None \<Rightarrow> root)\<rparr>) workspace_roots
      | GlobPath pattern \<Rightarrow>
          (case parse_project_roots_glob_pattern pattern of
             Some subpath \<Rightarrow>
               map (\<lambda>root. e\<lparr>entry_path := GlobPath (resolve_project_roots_glob_pattern (fv_env fv) subpath root)\<rparr>)
                 workspace_roots
           | None \<Rightarrow> [e])
      | _ \<Rightarrow> [e])"

definition materialize_project_roots_with_workspace_roots :: "fs_view \<Rightarrow> abs_path list \<Rightarrow> sandbox_policy \<Rightarrow> sandbox_policy" where
  "materialize_project_roots_with_workspace_roots fv workspace_roots p =
     p\<lparr>policy_entries := concat (map (materialize_entry_with_roots fv workspace_roots) (policy_entries p))\<rparr>"

definition with_materialized_project_roots_for_workspace_roots :: "fs_view \<Rightarrow> abs_path list \<Rightarrow> sandbox_policy \<Rightarrow> sandbox_policy" where
  "with_materialized_project_roots_for_workspace_roots fv workspace_roots p =
     p\<lparr>policy_entries :=
         push_missing (policy_entries (materialize_project_roots_with_workspace_roots fv workspace_roots p)) (policy_entries p)\<rparr>"

definition push_entry :: "sandbox_entry \<Rightarrow> sandbox_policy \<Rightarrow> sandbox_policy" where
  "push_entry e p = p\<lparr>policy_entries := policy_entries p @ [e]\<rparr>"

definition add_readable_root :: "fs_view \<Rightarrow> str \<Rightarrow> abs_path \<Rightarrow> sandbox_policy \<Rightarrow> sandbox_policy" where
  "add_readable_root fv cwd path p =
     (if can_read_path_with_cwd fv p (render_absolute path) cwd then p
      else push_entry (new_entry (ConcretePath path) AccessRead) p)"

definition with_additional_readable_roots :: "fs_view \<Rightarrow> str \<Rightarrow> abs_path list \<Rightarrow> sandbox_policy \<Rightarrow> sandbox_policy" where
  "with_additional_readable_roots fv cwd roots p =
     (if has_full_disk_read_access p then p else fold (add_readable_root fv cwd) roots p)"

definition add_writable_root :: "fs_view \<Rightarrow> str \<Rightarrow> abs_path \<Rightarrow> sandbox_policy \<Rightarrow> sandbox_policy" where
  "add_writable_root fv cwd path p =
     (if can_write_path_with_cwd fv p (render_absolute path) cwd then p
      else push_entry (new_entry (ConcretePath path) AccessWrite) p)"

definition with_additional_writable_roots :: "fs_view \<Rightarrow> str \<Rightarrow> abs_path list \<Rightarrow> sandbox_policy \<Rightarrow> sandbox_policy" where
  "with_additional_writable_roots fv cwd roots p = fold (add_writable_root fv cwd) roots p"

definition add_legacy_writable_root :: "fs_view \<Rightarrow> abs_path \<Rightarrow> sandbox_policy \<Rightarrow> sandbox_policy" where
  "add_legacy_writable_root fv path p =
     (let p = (if list_ex (\<lambda>e. can_write (entry_access e) \<and> entry_path e = ConcretePath path) (policy_entries p) then p
               else push_entry (new_entry (ConcretePath path) AccessWrite) p)
      in p\<lparr>policy_entries := protect_root fv False path (policy_entries p)\<rparr>)"

definition with_additional_legacy_workspace_writable_roots :: "fs_view \<Rightarrow> abs_path list \<Rightarrow> sandbox_policy \<Rightarrow> sandbox_policy" where
  "with_additional_legacy_workspace_writable_roots fv roots p =
     (if policy_kind p \<noteq> RestrictedKind then p else fold (add_legacy_writable_root fv) roots p)"

section \<open>Projections for the sandboxes\<close>

record writable_root =
  wr_root :: abs_path
  wr_read_only_subpaths :: "abs_path list"
  wr_protected_metadata_names :: "str list"

definition path_contains_protected_metadata_name :: "writable_root \<Rightarrow> abs_path \<Rightarrow> bool" where
  "path_contains_protected_metadata_name w path =
     (case strip_base path (wr_root w) of
        None \<Rightarrow> False
      | Some [] \<Rightarrow> False
      | Some (first_component # _) \<Rightarrow> list_ex (\<lambda>name. first_component = name) (wr_protected_metadata_names w))"

definition is_path_writable :: "writable_root \<Rightarrow> abs_path \<Rightarrow> bool" where
  "is_path_writable w path =
     (if \<not> path_starts_with path (wr_root w) then False
      else if list_ex (path_starts_with path) (wr_read_only_subpaths w) then False
      else if path_contains_protected_metadata_name w path then False
      else True)"

definition get_readable_roots_with_cwd :: "fs_view \<Rightarrow> sandbox_policy \<Rightarrow> str \<Rightarrow> abs_path list" where
  "get_readable_roots_with_cwd fv p cwd =
     (if has_full_disk_read_access p then []
      else dedup_absolute_paths fv
        (map resolved_path
          (filter (\<lambda>e. can_read_path_with_cwd fv p (render_absolute (resolved_path e)) cwd)
            (filter (\<lambda>e. can_read (resolved_access e)) (resolved_entries_with_cwd fv p cwd)))) True)"

definition protected_metadata_names_for_writable_root ::
  "fs_view \<Rightarrow> sandbox_policy \<Rightarrow> abs_path \<Rightarrow> abs_path list \<Rightarrow> str \<Rightarrow> str list" where
  "protected_metadata_names_for_writable_root fv p root raw_writable_roots cwd =
     filter (\<lambda>metadata_name.
         list_all (\<lambda>metadata_path. \<not> can_write_path_with_cwd fv p (render_absolute metadata_path) cwd)
           (map (\<lambda>r. abs_join (fv_env fv) r metadata_name) (root # raw_writable_roots)))
       PROTECTED_METADATA_PATH_NAMES"

text \<open>The path under which one writable root carves out a non-writable entry.\<close>

definition carveout_path :: "fs_view \<Rightarrow> abs_path \<Rightarrow> abs_path list \<Rightarrow> abs_path \<Rightarrow> abs_path option" where
  "carveout_path fv root raw_writable_roots path =
     (let effective_path = normalize_effective_absolute_path fv path;
          raw_carveout_path =
            (if abs_parent root \<noteq> None then
               (if path = root then None
                else if path_starts_with path root then Some path
                else find_map (\<lambda>raw_root.
                       case strip_base path raw_root of
                         None \<Rightarrow> None
                       | Some rest \<Rightarrow> if rest = [] then None else Some (abs_join (fv_env fv) root (join [47] rest)))
                       raw_writable_roots)
             else None)
      in case raw_carveout_path of
           Some q \<Rightarrow> Some q
         | None \<Rightarrow>
             if effective_path = root \<or> \<not> path_starts_with effective_path root then None else Some effective_path)"

definition has_explicit_resolved_path_entry :: "resolved_entry list \<Rightarrow> abs_path \<Rightarrow> bool" where
  "has_explicit_resolved_path_entry es path = list_ex (\<lambda>e. resolved_path e = path) es"

definition project_writable_root ::
  "fs_view \<Rightarrow> sandbox_policy \<Rightarrow> str \<Rightarrow> abs_path list \<Rightarrow> abs_path \<Rightarrow> writable_root" where
  "project_writable_root fv p cwd writable_entries root =
     (let resolved_entries = resolved_entries_with_cwd fv p cwd;
          raw_writable_roots = filter (\<lambda>path. normalize_effective_absolute_path fv path = root) writable_entries;
          protected_metadata_names = protected_metadata_names_for_writable_root fv p root raw_writable_roots cwd;
          protect_missing_dot_codex =
            (case from_absolute_path (fv_env fv) cwd of
               None \<Rightarrow> False | Some cwd \<Rightarrow> normalize_effective_absolute_path fv cwd = root);
          defaults = filter (\<lambda>path. \<not> has_explicit_resolved_path_entry resolved_entries path)
                       (default_read_only_subpaths_for_writable_root fv root protect_missing_dot_codex);
          carveouts = List.map_filter (\<lambda>e. carveout_path fv root raw_writable_roots (resolved_path e))
                        (filter (\<lambda>e. \<not> can_write_path_with_cwd fv p (render_absolute (resolved_path e)) cwd)
                          (filter (\<lambda>e. \<not> can_write (resolved_access e)) resolved_entries))
      in \<lparr>wr_root = root,
          wr_read_only_subpaths = dedup_absolute_paths fv (defaults @ carveouts) False,
          wr_protected_metadata_names = protected_metadata_names\<rparr>)"

definition writable_entry_paths :: "fs_view \<Rightarrow> sandbox_policy \<Rightarrow> str \<Rightarrow> abs_path list" where
  "writable_entry_paths fv p cwd =
     map resolved_path
       (filter (\<lambda>e. can_write_path_with_cwd fv p (render_absolute (resolved_path e)) cwd)
         (filter (\<lambda>e. can_write (resolved_access e)) (resolved_entries_with_cwd fv p cwd)))"

definition get_writable_roots_with_cwd :: "fs_view \<Rightarrow> sandbox_policy \<Rightarrow> str \<Rightarrow> writable_root list" where
  "get_writable_roots_with_cwd fv p cwd =
     (if has_full_disk_write_access p then []
      else (let writable_entries = writable_entry_paths fv p cwd
            in map (project_writable_root fv p cwd writable_entries)
                 (dedup_absolute_paths fv writable_entries True)))"

definition get_unreadable_roots_with_cwd :: "fs_view \<Rightarrow> sandbox_policy \<Rightarrow> str \<Rightarrow> abs_path list" where
  "get_unreadable_roots_with_cwd fv p cwd =
     (if policy_kind p \<noteq> RestrictedKind then []
      else (let root = map_option absolute_root_path_for_cwd (from_absolute_path (fv_env fv) cwd)
            in dedup_absolute_paths fv
                 (map resolved_path
                   (filter (\<lambda>e. root \<noteq> Some (resolved_path e))
                     (filter (\<lambda>e. \<not> can_read_path_with_cwd fv p (render_absolute (resolved_path e)) cwd)
                       (filter (\<lambda>e. resolved_access e = AccessDeny) (resolved_entries_with_cwd fv p cwd))))) True))"

text \<open>\<open>resolve_path_against_base\<close> on a base that may be relative.\<close>

definition resolve_text_against_base :: "path_env \<Rightarrow> str \<Rightarrow> str \<Rightarrow> str" where
  "resolve_text_against_base env path base =
     (let joined = path_join base (expand_home env path);
          cs = normalized_components joined
      in if path_is_absolute joined then render_absolute cs
         else if cs = [] then lit ''.'' else join [47] cs)"

definition get_unreadable_globs_with_cwd :: "fs_view \<Rightarrow> sandbox_policy \<Rightarrow> str \<Rightarrow> str list" where
  "get_unreadable_globs_with_cwd fv p cwd =
     (if policy_kind p \<noteq> RestrictedKind then []
      else remdups_adj (sort
        (List.map_filter (\<lambda>e. case entry_path e of
             GlobPath pattern \<Rightarrow> Some (resolve_text_against_base (fv_env fv) pattern cwd)
           | _ \<Rightarrow> None)
          (filter (\<lambda>e. entry_access e = AccessDeny) (policy_entries p)))))"

text \<open>Comparison of two policies for one current directory.\<close>

record semantic_signature =
  sig_has_full_disk_read_access :: bool
  sig_has_full_disk_write_access :: bool
  sig_include_platform_defaults :: bool
  sig_readable_roots :: "abs_path list"
  sig_writable_roots :: "writable_root list"
  sig_unreadable_roots :: "abs_path list"
  sig_unreadable_globs :: "str list"

definition sorted_absolute_paths :: "abs_path list \<Rightarrow> abs_path list" where
  "sorted_absolute_paths paths = sort paths"

definition sorted_writable_roots :: "writable_root list \<Rightarrow> writable_root list" where
  "sorted_writable_roots roots =
     sort_key wr_root
       (map (\<lambda>r. r\<lparr>wr_read_only_subpaths := sorted_absolute_paths (wr_read_only_subpaths r),
                   wr_protected_metadata_names := remdups_adj (sort (wr_protected_metadata_names r))\<rparr>) roots)"

definition semantic_signature_of :: "fs_view \<Rightarrow> sandbox_policy \<Rightarrow> str \<Rightarrow> semantic_signature" where
  "semantic_signature_of fv p cwd =
     \<lparr>sig_has_full_disk_read_access = has_full_disk_read_access p,
      sig_has_full_disk_write_access = has_full_disk_write_access p,
      sig_include_platform_defaults = include_platform_defaults p,
      sig_readable_roots = sorted_absolute_paths (get_readable_roots_with_cwd fv p cwd),
      sig_writable_roots = sorted_writable_roots (get_writable_roots_with_cwd fv p cwd),
      sig_unreadable_roots = sorted_absolute_paths (get_unreadable_roots_with_cwd fv p cwd),
      sig_unreadable_globs = get_unreadable_globs_with_cwd fv p cwd\<rparr>"

definition is_semantically_equivalent_to :: "fs_view \<Rightarrow> sandbox_policy \<Rightarrow> sandbox_policy \<Rightarrow> str \<Rightarrow> bool" where
  "is_semantically_equivalent_to fv p q cwd \<longleftrightarrow> semantic_signature_of fv p cwd = semantic_signature_of fv q cwd"

fun legacy_writable_roots_with_cwd :: "fs_view \<Rightarrow> legacy_policy \<Rightarrow> str \<Rightarrow> writable_root list" where
  "legacy_writable_roots_with_cwd fv (WorkspaceWrite writable_roots _ exclude_tmpdir exclude_slash) cwd =
     (let cwd_root = from_absolute_path (fv_env fv) cwd;
          roots = writable_roots
            @ (case cwd_root of Some c \<Rightarrow> [c] | None \<Rightarrow> [])
            @ (if \<not> exclude_slash \<and> fv_is_dir fv SLASH_TMP then [SLASH_TMP] else [])
            @ (if exclude_tmpdir then []
               else (case fv_tmpdir fv of
                       None \<Rightarrow> []
                     | Some tmpdir \<Rightarrow>
                         if tmpdir = [] then []
                         else (case from_absolute_path (fv_env fv) tmpdir of Some t \<Rightarrow> [t] | None \<Rightarrow> [])))
      in map (\<lambda>root. \<lparr>wr_root = root,
                wr_read_only_subpaths = default_read_only_subpaths_for_writable_root fv root (cwd_root = Some root),
                wr_protected_metadata_names = []\<rparr>) roots)"
| "legacy_writable_roots_with_cwd fv _ cwd = []"

definition protected_metadata_names_need_direct_runtime_enforcement ::
  "fs_view \<Rightarrow> sandbox_policy \<Rightarrow> legacy_policy \<Rightarrow> str \<Rightarrow> bool" where
  "protected_metadata_names_need_direct_runtime_enforcement fv p l cwd =
     (let legacy_roots = legacy_writable_roots_with_cwd fv l cwd
      in list_ex (\<lambda>w.
           case find (\<lambda>candidate. wr_root candidate = wr_root w) legacy_roots of
             None \<Rightarrow> wr_protected_metadata_names w \<noteq> []
           | Some legacy_root \<Rightarrow>
               list_ex (\<lambda>metadata_name.
                 let metadata_path = abs_join (fv_env fv) (wr_root w) metadata_name
                 in \<not> list_ex (\<lambda>subpath. subpath = metadata_path) (wr_read_only_subpaths legacy_root))
                 (wr_protected_metadata_names w))
           (get_writable_roots_with_cwd fv p cwd))"

definition needs_direct_runtime_enforcement :: "fs_view \<Rightarrow> sandbox_policy \<Rightarrow> network_access \<Rightarrow> str \<Rightarrow> bool" where
  "needs_direct_runtime_enforcement fv p network_policy cwd =
     (if policy_kind p \<noteq> RestrictedKind then False
      else (case to_legacy_sandbox_policy fv p network_policy cwd of
              Inl _ \<Rightarrow> True
            | Inr l \<Rightarrow>
                if protected_metadata_names_need_direct_runtime_enforcement fv p l cwd then True
                else semantic_signature_of fv p cwd
                       \<noteq> semantic_signature_of fv (legacy_runtime_file_system_policy_for_cwd fv l cwd) cwd))"

section \<open>Denied reads\<close>

text \<open>\<open>globset\<close> with \<open>literal_separator\<close> and \<open>allow_unclosed_class\<close>: building a matcher and matching a path.\<close>

record 'g deny_globs =
  build_deny_glob :: "str \<Rightarrow> 'g option"
  deny_glob_matches :: "'g \<Rightarrow> str \<Rightarrow> bool"

record 'g read_deny_matcher =
  denied_candidates :: "str list list"
  deny_read_matchers :: "'g list"
  invalid_pattern :: bool

datatype invalid_glob_behavior = FailClosed | ReturnError

text \<open>The components that \<open>Path\<close> compares: the root, a leading current directory, and names.\<close>

definition path_components :: "str \<Rightarrow> str list" where
  "path_components p =
     (if path_is_absolute p then [[47]] else if hd (split_on 47 p) = [46] then [[46]] else []) @ path_normal_parts p"

definition push_unique :: "str \<Rightarrow> str list \<Rightarrow> str list" where
  "push_unique candidate candidates =
     (if list_ex (\<lambda>existing. path_components existing = path_components candidate) candidates then candidates
      else candidates @ [candidate])"

definition normalized_and_canonical_candidates :: "fs_view \<Rightarrow> str \<Rightarrow> str list" where
  "normalized_and_canonical_candidates fv path =
     (let candidates =
            (case from_absolute_path (fv_env fv) path of
               Some normalized \<Rightarrow> push_unique (render_absolute normalized) []
             | None \<Rightarrow> push_unique path [])
      in case fv_canonicalize fv path of
           None \<Rightarrow> candidates
         | Some canonical \<Rightarrow>
             (case from_absolute_path (fv_env fv) (render_absolute canonical) of
                Some canonical_absolute \<Rightarrow> push_unique (render_absolute canonical_absolute) candidates
              | None \<Rightarrow> candidates))"

fun build_matchers :: "'g deny_globs \<Rightarrow> invalid_glob_behavior \<Rightarrow> str list \<Rightarrow> str + 'g list \<times> bool" where
  "build_matchers eng b [] = Inr ([], False)"
| "build_matchers eng b (pattern # ps) =
     (case build_deny_glob eng pattern of
        Some g \<Rightarrow> (case build_matchers eng b ps of Inl e \<Rightarrow> Inl e | Inr (gs, invalid) \<Rightarrow> Inr (g # gs, invalid))
      | None \<Rightarrow>
          (case b of
             ReturnError \<Rightarrow> Inl pattern
           | FailClosed \<Rightarrow> (case build_matchers eng b ps of Inl e \<Rightarrow> Inl e | Inr (gs, _) \<Rightarrow> Inr (gs, True))))"

definition build_matcher ::
  "fs_view \<Rightarrow> 'g deny_globs \<Rightarrow> sandbox_policy \<Rightarrow> str \<Rightarrow> invalid_glob_behavior \<Rightarrow> str + 'g read_deny_matcher option" where
  "build_matcher fv eng p cwd b =
     (if \<not> has_denied_read_restrictions p then Inr None
      else (let denied = map (\<lambda>path. normalized_and_canonical_candidates fv (render_absolute path))
                           (get_unreadable_roots_with_cwd fv p cwd)
            in case build_matchers eng b (get_unreadable_globs_with_cwd fv p cwd) of
                 Inl e \<Rightarrow> Inl e
               | Inr (gs, invalid) \<Rightarrow>
                   Inr (Some \<lparr>denied_candidates = denied, deny_read_matchers = gs, invalid_pattern = invalid\<rparr>)))"

text \<open>\<open>ReadDenyMatcher::new\<close> has an \<open>unreachable!\<close> for an error; \<open>None\<close> of the outer option is that panic.\<close>

definition read_deny_matcher_new ::
  "fs_view \<Rightarrow> 'g deny_globs \<Rightarrow> sandbox_policy \<Rightarrow> str \<Rightarrow> 'g read_deny_matcher option option" where
  "read_deny_matcher_new fv eng p cwd =
     (case build_matcher fv eng p cwd FailClosed of Inr m \<Rightarrow> Some m | Inl _ \<Rightarrow> None)"

definition is_read_denied :: "fs_view \<Rightarrow> 'g deny_globs \<Rightarrow> 'g read_deny_matcher \<Rightarrow> str \<Rightarrow> bool" where
  "is_read_denied fv eng m path =
     (if invalid_pattern m then True
      else (let path_candidates = normalized_and_canonical_candidates fv path
            in if list_ex (\<lambda>denied. list_ex (\<lambda>candidate. list_ex (\<lambda>d.
                   path_components candidate = path_components d \<or>
                   prefix (path_components d) (path_components candidate)) denied) path_candidates)
                   (denied_candidates m) then True
               else list_ex (\<lambda>g. list_ex (deny_glob_matches eng g) path_candidates) (deny_read_matchers m)))"

end
