(* ===== verification/FsAccess.thy ===== *)
theory FsAccess
  imports FsPolicy
begin

text \<open>
  What the permission policies guarantee: the flags for full disk access, granting roots, pinning a
  policy to a directory, the bridge to the legacy policies, and the confinement of a workspace policy.
\<close>

section \<open>Full disk access\<close>

lemma share_target_resolves:
  assumes "file_system_paths_share_target a b" "resolve_entry_path fv b (Some c) = Some q" "fv_is_dir fv SLASH_TMP"
  shows "resolve_entry_path fv a (Some c) = Some q"
proof (cases a)
  case (ConcretePath x)
  then show ?thesis using assms by (cases b rule: wf_path.cases) (auto simp: resolve_entry_path_def abs_parent_def
        elim: special_path_matches_absolute_path.elims split: if_splits)
next
  case (GlobPath g)
  then show ?thesis using assms by (cases b) (auto simp: resolve_entry_path_def)
next
  case (SpecialPath v)
  then show ?thesis
  proof (cases b)
    case (ConcretePath x)
    with assms SpecialPath show ?thesis by (cases v) (auto simp: resolve_entry_path_def abs_parent_def split: if_splits)
  next
    case (GlobPath g)
    with assms SpecialPath show ?thesis by simp
  next
    case b: (SpecialPath w)
    then have "v = w" using assms(1) SpecialPath by (cases v; cases w) simp_all
    with assms b SpecialPath show ?thesis by simp
  qed
qed

lemma not_narrowing:
  assumes "e \<in> set (policy_entries p)" "\<not> has_write_narrowing_entries p" "has_root_access p can_write"
    "resolve_entry_path fv (entry_path e) (Some c) = Some q" "entry_access e \<noteq> AccessWrite"
  shows "\<exists>x\<in>set (policy_entries p). entry_access x = AccessWrite \<and> entry_access e < AccessWrite \<and>
    file_system_paths_share_target (entry_path x) (entry_path e)"
proof -
  have w: "can_write a \<longleftrightarrow> a = AccessWrite" for a by (cases a) simp_all
  have n: "\<not> narrows_write p e" "policy_kind p = RestrictedKind"
    using assms(1,2,3) by (auto simp: has_write_narrowing_entries_def has_root_access_def list_ex_iff)
  have o: ?thesis if "has_same_target_write_override p e"
    using that by (auto simp: has_same_target_write_override_def list_ex_iff w)
  show ?thesis
  proof (cases "entry_path e = SpecialPath Root")
    case True
    then have "entry_access e = AccessRead" using n(1) assms(5) by (cases "entry_access e") (auto simp: narrows_write_def)
    moreover obtain x where "x \<in> set (policy_entries p)" "entry_path x = SpecialPath Root" "entry_access x = AccessWrite"
      using assms(3) by (auto simp: has_root_access_def list_ex_iff w)
    ultimately show ?thesis using True by (auto simp: less_access_mode_def intro!: bexI[of _ x])
  next
    case False
    have "has_same_target_write_override p e"
      using n(1) assms(4,5) False
      by (auto simp: narrows_write_def w resolve_entry_path_def split: file_system_path.splits special_path.splits)
    then show ?thesis by (rule o)
  qed
qed

lemma full_disk_write_access_at:
  assumes "has_full_disk_write_access p" "policy_kind p = RestrictedKind"
    "from_absolute_path (fv_env fv) cwd = Some c" "fv_is_dir fv SLASH_TMP"
  shows "access_at (resolved_entries_with_cwd fv p cwd) t = AccessWrite"
proof -
  let ?es = "resolved_entries_with_cwd fv p cwd"
  have r: "has_root_access p can_write" "\<not> has_write_narrowing_entries p"
    using assms(1,2) by (auto simp: has_full_disk_write_access_def)
  obtain x where x: "x \<in> set (policy_entries p)" "entry_path x = SpecialPath Root"
    using r(1) by (auto simp: has_root_access_def list_ex_iff)
  then have "\<lparr>resolved_path = [], resolved_access = entry_access x\<rparr> \<in> set ?es"
    using assms(3) by (auto simp: set_resolved_entries resolve_entry_path_def intro!: bexI[of _ x])
  then obtain m where m: "governs ?es t m" using governs_exists by fastforce
  have "resolved_access m = AccessWrite"
  proof (rule ccontr)
    assume a: "resolved_access m \<noteq> AccessWrite"
    from m obtain e where e: "e \<in> set (policy_entries p)" "entry_access e = resolved_access m"
      "resolve_entry_path fv (entry_path e) (Some c) = Some (resolved_path m)"
      using assms(3) by (auto simp: governs_def set_resolved_entries)
    from not_narrowing[OF e(1) r(2,1) e(3)] a e(2) obtain y where y: "y \<in> set (policy_entries p)"
      "entry_access y = AccessWrite" "entry_access e < AccessWrite"
      "file_system_paths_share_target (entry_path y) (entry_path e)" by auto
    let ?y = "\<lparr>resolved_path = resolved_path m, resolved_access = AccessWrite\<rparr>"
    have "?y \<in> set ?es"
      using share_target_resolves[OF y(4) e(3) assms(4)] y(1,2) assms(3) by (auto simp: set_resolved_entries)
    then have "entry_precedence_le ?y m" using m by (auto simp: governs_def)
    then show False using y(3) e(2) by (auto simp: entry_precedence_le_def component_count_def)
  qed
  with access_at_governs[OF m] show ?thesis by simp
qed

lemma full_disk_read_access_at:
  assumes "has_full_disk_read_access p" "policy_kind p = RestrictedKind" "from_absolute_path (fv_env fv) cwd = Some c"
  shows "can_read (access_at (resolved_entries_with_cwd fv p cwd) t)"
proof -
  let ?es = "resolved_entries_with_cwd fv p cwd"
  have r: "has_root_access p can_read" "\<forall>e\<in>set (policy_entries p). entry_access e \<noteq> AccessDeny"
    using assms(1,2) by (auto simp: has_full_disk_read_access_def has_denied_read_restrictions_def list_ex_iff)
  obtain x where x: "x \<in> set (policy_entries p)" "entry_path x = SpecialPath Root"
    using r(1) by (auto simp: has_root_access_def list_ex_iff)
  then have "\<lparr>resolved_path = [], resolved_access = entry_access x\<rparr> \<in> set ?es"
    using assms(3) by (auto simp: set_resolved_entries resolve_entry_path_def intro!: bexI[of _ x])
  then obtain m where m: "governs ?es t m" using governs_exists by fastforce
  then have "resolved_access m \<noteq> AccessDeny" using r(2) by (auto simp: governs_def set_resolved_entries)
  then show ?thesis using access_at_governs[OF m] by (cases "resolved_access m") simp_all
qed

text \<open>
  The flags for unrestricted access are sound: with full disk write access every path can be written
  and with full disk read access every path can be read, the entries that the flags ignore being
  overridden for their target. \<open>/tmp\<close> must exist, since a missing \<open>/tmp\<close> drops the symbolic entry for
  it and not the literal one.
\<close>
theorem full_disk_access_sound:
  assumes "wf_policy p" "from_absolute_path (fv_env fv) cwd = Some c"
    "resolve_candidate_path (fv_env fv) path cwd = Some t" "fv_is_dir fv SLASH_TMP"
  shows "(has_full_disk_write_access p \<longrightarrow> can_write_path_with_cwd fv p path cwd) \<and>
    (has_full_disk_read_access p \<longrightarrow> can_read_path_with_cwd fv p path cwd)"
proof (cases "policy_kind p = RestrictedKind")
  case True
  then show ?thesis
    using full_disk_write_access_at[OF _ True assms(2,4), of t] full_disk_read_access_at[OF _ True assms(2), of t]
      can_write_at[OF True assms(1,3)] resolve_access_at[OF True assms(3)]
    by (auto simp: can_read_path_with_cwd_def)
next
  case False
  then show ?thesis by (simp add: can_write_path_with_cwd_def can_read_path_with_cwd_def resolve_access_with_cwd_def
        has_full_disk_write_access_def)
qed

section \<open>Additional writable roots\<close>

lemma resolved_entries_push:
  "resolved_entries_with_cwd fv (push_entry (new_entry (ConcretePath r) a) p) cwd =
     resolved_entries_with_cwd fv p cwd @ [\<lparr>resolved_path = r, resolved_access = a\<rparr>]"
  by (simp add: resolved_entries_with_cwd_def push_entry_def new_entry_def Let_def List.map_filter_def resolve_entry_path_def)

lemma push_entry_kind [simp]: "policy_kind (push_entry e p) = policy_kind p"
  by (simp add: push_entry_def)

lemma push_entry_wf: "wf_policy p \<Longrightarrow> wf_path (entry_path e) \<Longrightarrow> wf_policy (push_entry e p)"
  by (simp add: wf_policy_def push_entry_def)

lemma push_write_full:
  assumes "has_full_disk_write_access p"
  shows "has_full_disk_write_access (push_entry (new_entry q AccessWrite) p)"
proof -
  let ?p = "push_entry (new_entry q AccessWrite) p"
  have "narrows_write ?p e \<Longrightarrow> e \<in> set (policy_entries ?p) \<Longrightarrow> narrows_write p e \<and> e \<in> set (policy_entries p)" for e
    by (auto simp: narrows_write_def push_entry_def new_entry_def has_same_target_write_override_def
        split: file_system_path.splits special_path.splits if_splits)
  then have "has_write_narrowing_entries ?p \<Longrightarrow> has_write_narrowing_entries p"
    by (auto simp: has_write_narrowing_entries_def list_ex_iff)
  then show ?thesis using assms
    by (auto simp: has_full_disk_write_access_def has_root_access_def push_entry_def split: if_splits)
qed

lemma push_write_governs:
  assumes "governs es t m" "resolved_access m = AccessWrite"
  shows "access_at (es @ [\<lparr>resolved_path = r, resolved_access = AccessWrite\<rparr>]) t = AccessWrite"
proof -
  let ?n = "\<lparr>resolved_path = r, resolved_access = AccessWrite\<rparr>"
  have "\<exists>m'. governs (es @ [?n]) t m' \<and> resolved_access m' = AccessWrite"
  proof (cases "prefix r t \<and> entry_precedence_le m ?n")
    case True
    then have "governs (es @ [?n]) t ?n" using assms(1) by (auto simp: governs_def intro: precedence_trans)
    then show ?thesis by (intro exI[of _ ?n]) simp
  next
    case False
    then have "governs (es @ [?n]) t m" using assms(1) precedence_total by (auto simp: governs_def)
    then show ?thesis using assms(2) by blast
  qed
  then show ?thesis using access_at_governs by metis
qed

lemma find_append: "find P (xs @ ys) = (case find P xs of Some x \<Rightarrow> Some x | None \<Rightarrow> find P ys)"
  by (induction xs) auto

lemma explicit_write_append: "explicit_write es q t \<Longrightarrow> explicit_write (es @ xs) q t"
  by (auto simp: explicit_write_def)

lemma push_write_metadata:
  assumes "\<not> metadata_denied es t" "governs es t m" "resolved_access m = AccessWrite"
    "\<not> (access_at es r = AccessWrite \<and> \<not> metadata_denied es r)"
  shows "\<not> metadata_denied (es @ [\<lparr>resolved_path = r, resolved_access = AccessWrite\<rparr>]) t"
proof
  let ?n = "\<lparr>resolved_path = r, resolved_access = AccessWrite\<rparr>"
  assume "metadata_denied (es @ [?n]) t"
  then obtain e n rest where e: "first_hit (es @ [?n]) t = Some e" "t = resolved_path e @ n # rest"
    "\<not> explicit_write (es @ [?n]) (resolved_path e @ [n]) t" by (auto simp: metadata_denied_def)
  show False
  proof (cases "first_hit es t")
    case (Some e')
    then have "e' = e" using e(1) by (simp add: first_hit_def find_append)
    moreover have "\<not> explicit_write es (resolved_path e @ [n]) t" using e(3) explicit_write_append by blast
    ultimately show False using Some e(2) assms(1) unfolding metadata_denied_def by blast
  next
    case None
    then have e': "e = ?n" using e(1) by (simp add: first_hit_def find_append split: if_splits)
    have m: "m \<in> set es" "prefix (resolved_path m) t" using assms(2) by (auto simp: governs_def)
    have nx: "\<not> prefix (r @ [n]) (resolved_path m)"
      using e(3) e' m assms(3) by (auto simp: explicit_write_def)
    have "prefix (r @ [n]) t" using e(2) e' by simp
    then have "prefix (resolved_path m) (r @ [n])" using prefix_same_cases[OF m(2)] nx by blast
    moreover have "resolved_path m \<noteq> r @ [n]" using nx by auto
    ultimately have "prefix (resolved_path m) r" by (auto simp: prefix_snoc)
    then have "governs es r m" using governs_between[OF assms(2)] e(2) e' by simp
    then have "access_at es r = AccessWrite" using access_at_governs assms(3) by simp
    then have "metadata_denied es r" using assms(4) by simp
    then obtain x where "first_hit es r = Some x" by (auto simp: metadata_denied_def)
    note x = first_hit_Some[OF this]
    then have "metadata_below (resolved_path x) t" using e(2) e' by (auto simp: metadata_below_def)
    with x None show False unfolding first_hit_def find_None_iff by blast
  qed
qed

lemma add_writable_root_monotone:
  assumes "policy_kind p = RestrictedKind" "wf_policy p" "normal_path r" "can_write_path_with_cwd fv p path cwd"
  shows "can_write_path_with_cwd fv (add_writable_root fv cwd r p) path cwd"
proof (cases "can_write_path_with_cwd fv p (render_absolute r) cwd")
  case False
  let ?e = "new_entry (ConcretePath r) AccessWrite"
  let ?es = "resolved_entries_with_cwd fv p cwd"
  have p': "add_writable_root fv cwd r p = push_entry ?e p" using False by (simp add: add_writable_root_def)
  have w: "wf_policy (push_entry ?e p)" using assms(2,3) by (intro push_entry_wf) (simp_all add: new_entry_def)
  obtain t where t: "resolve_candidate_path (fv_env fv) path cwd = Some t"
    using assms(1,4) by (cases "resolve_candidate_path (fv_env fv) path cwd")
      (auto simp: can_write_path_with_cwd_def resolve_access_with_cwd_def)
  have c: "access_at ?es t = AccessWrite" "has_full_disk_write_access p \<or> \<not> metadata_denied ?es t"
    using can_write_at[OF assms(1,2) t] assms(4) by auto
  from access_at_not_Deny[OF c(1)] obtain m where m: "governs ?es t m" "resolved_access m = AccessWrite" by auto
  have r: "\<not> (access_at ?es r = AccessWrite \<and> (has_full_disk_write_access p \<or> \<not> metadata_denied ?es r))"
    using False can_write_at[OF assms(1,2) resolve_candidate_render[OF assms(3)]] by blast
  show ?thesis
    using can_write_at[of "push_entry ?e p", OF _ w t] assms(1) push_write_governs[OF m, of r] c(2)
      push_write_full[of p "ConcretePath r"] push_write_metadata[OF _ m, of r] r
    unfolding p' resolved_entries_push by auto
qed (simp add: add_writable_root_def assms(4))

lemma add_writable_root_grants:
  assumes "policy_kind p = RestrictedKind" "wf_policy p" "normal_path r"
    "\<And>e. e \<in> set (resolved_entries_with_cwd fv p cwd) \<Longrightarrow> resolved_path e = r \<Longrightarrow> resolved_access e \<noteq> AccessDeny"
  shows "can_write_path_with_cwd fv (add_writable_root fv cwd r p) (render_absolute r) cwd"
proof (cases "can_write_path_with_cwd fv p (render_absolute r) cwd")
  case False
  let ?e = "new_entry (ConcretePath r) AccessWrite"
  let ?n = "\<lparr>resolved_path = r, resolved_access = AccessWrite\<rparr>"
  let ?es = "resolved_entries_with_cwd fv p cwd"
  have p': "add_writable_root fv cwd r p = push_entry ?e p" using False by (simp add: add_writable_root_def)
  have w: "wf_policy (push_entry ?e p)" using assms(2,3) by (intro push_entry_wf) (simp_all add: new_entry_def)
  have "entry_precedence_le e ?n" if "e \<in> set ?es" "prefix (resolved_path e) r" for e
  proof (cases "resolved_path e = r")
    case True
    with assms(4) that have "resolved_access e \<noteq> AccessDeny" by simp
    then show ?thesis using True by (cases "resolved_access e")
        (auto simp: entry_precedence_le_def less_eq_access_mode_def)
  next
    case False
    then have "length (resolved_path e) < length r" using that(2) by (auto simp: prefix_def)
    then show ?thesis by (simp add: entry_precedence_le_def component_count_def)
  qed
  then have "governs (?es @ [?n]) r ?n" by (auto simp: governs_def)
  then have a: "access_at (?es @ [?n]) r = AccessWrite" using access_at_governs by fastforce
  have "\<not> metadata_denied (?es @ [?n]) r" by (auto simp: metadata_denied_def explicit_write_def)
  then show ?thesis
    using can_write_at[of "push_entry ?e p", OF _ w resolve_candidate_render[OF assms(3)]] assms(1) a
    unfolding p' resolved_entries_push by simp
qed (simp add: add_writable_root_def)

lemma add_writable_root_keeps:
  assumes "policy_kind p = RestrictedKind" "wf_policy p" "normal_path r"
  shows "policy_kind (add_writable_root fv cwd r p) = RestrictedKind \<and> wf_policy (add_writable_root fv cwd r p) \<and>
    (e \<in> set (resolved_entries_with_cwd fv (add_writable_root fv cwd r p) cwd) \<longrightarrow>
       e \<in> set (resolved_entries_with_cwd fv p cwd) \<or> resolved_access e = AccessWrite)"
  using assms by (auto simp: add_writable_root_def resolved_entries_push new_entry_def[symmetric] intro!: push_entry_wf)
    (simp_all add: new_entry_def)

lemma additional_writable_roots_granted:
  assumes "policy_kind p = RestrictedKind" "wf_policy p" "list_all normal_path roots"
    "\<And>e. e \<in> set (resolved_entries_with_cwd fv p cwd) \<Longrightarrow> resolved_path e \<in> set roots \<Longrightarrow> resolved_access e \<noteq> AccessDeny"
  shows "(r \<in> set roots \<longrightarrow> can_write_path_with_cwd fv (with_additional_writable_roots fv cwd roots p) (render_absolute r) cwd) \<and>
    (can_write_path_with_cwd fv p path cwd \<longrightarrow>
     can_write_path_with_cwd fv (with_additional_writable_roots fv cwd roots p) path cwd)"
  using assms
proof (induction roots arbitrary: p path)
  case (Cons a roots)
  let ?p = "add_writable_root fv cwd a p"
  note keeps = add_writable_root_keeps[OF Cons.prems(1,2), of a fv cwd]
  have a: "normal_path a" "list_all normal_path roots" using Cons.prems(3) by simp_all
  have d: "resolved_access e \<noteq> AccessDeny"
    if "e \<in> set (resolved_entries_with_cwd fv ?p cwd)" "resolved_path e \<in> set roots" for e
    using keeps[OF a(1), of e] that Cons.prems(4)[of e] by auto
  have IH: "(r \<in> set roots \<longrightarrow> can_write_path_with_cwd fv (with_additional_writable_roots fv cwd (a # roots) p) (render_absolute r) cwd) \<and>
      (can_write_path_with_cwd fv ?p q cwd \<longrightarrow>
       can_write_path_with_cwd fv (with_additional_writable_roots fv cwd (a # roots) p) q cwd)" for q
    using Cons.IH[of ?p q] keeps[OF a(1)] a(2) d by (simp add: with_additional_writable_roots_def)
  have "can_write_path_with_cwd fv ?p (render_absolute a) cwd"
    using Cons.prems(4) by (intro add_writable_root_grants[OF Cons.prems(1,2) a(1)]) auto
  moreover have "can_write_path_with_cwd fv p path cwd \<Longrightarrow> can_write_path_with_cwd fv ?p path cwd"
    by (rule add_writable_root_monotone[OF Cons.prems(1,2) a(1)])
  ultimately show ?case using IH by auto
qed (simp add: with_additional_writable_roots_def)

text \<open>
  Granting writable roots does what it says and nothing less: each root that no entry denies by
  name can be written afterwards, its metadata rule included, and whatever could be written before
  still can.
\<close>
theorem additional_writable_roots_effect:
  assumes "policy_kind p = RestrictedKind" "wf_policy p" "list_all normal_path roots"
    "\<forall>e\<in>set (resolved_entries_with_cwd fv p cwd). resolved_path e \<in> set roots \<longrightarrow> resolved_access e \<noteq> AccessDeny"
  shows "(\<forall>r\<in>set roots. can_write_path_with_cwd fv (with_additional_writable_roots fv cwd roots p) (render_absolute r) cwd) \<and>
    (\<forall>path. can_write_path_with_cwd fv p path cwd \<longrightarrow>
      can_write_path_with_cwd fv (with_additional_writable_roots fv cwd roots p) path cwd)"
  using additional_writable_roots_granted[OF assms(1-3)] assms(4) by blast

section \<open>Materialised project roots\<close>

lemma materialize_entry_resolves:
  assumes "cwd' \<noteq> None"
  shows "resolve_entry_path fv (entry_path (materialize_entry_with_cwd fv (Some c) e)) cwd' =
      (if \<exists>s. entry_path e = SpecialPath (ProjectRoots s) then resolve_entry_path fv (entry_path e) (Some c)
       else resolve_entry_path fv (entry_path e) cwd') \<and>
    entry_access (materialize_entry_with_cwd fv (Some c) e) = entry_access e"
  by (auto simp: materialize_entry_with_cwd_def resolve_entry_path_def
      split: file_system_path.splits special_path.splits option.splits)

lemma resolve_entry_path_cwd:
  assumes "\<nexists>s. v = SpecialPath (ProjectRoots s)"
  shows "resolve_entry_path fv v (Some c') = resolve_entry_path fv v (Some c)"
proof (cases v)
  case (SpecialPath s)
  then show ?thesis using assms by (cases s) (auto simp: resolve_entry_path_def)
qed (simp_all add: resolve_entry_path_def)

lemma materialized_entries:
  assumes "from_absolute_path (fv_env fv) cwd = Some c" "from_absolute_path (fv_env fv) cwd' = Some c'"
  shows "resolved_entries_with_cwd fv (materialize_project_roots_with_cwd fv cwd p) cwd' = resolved_entries_with_cwd fv p cwd"
proof -
  have "resolve_entry_path fv (entry_path (materialize_entry_with_cwd fv (Some c) e)) (Some c') =
      resolve_entry_path fv (entry_path e) (Some c)" for e
    using materialize_entry_resolves[of "Some c'" fv c e] resolve_entry_path_cwd[of "entry_path e" fv c' c]
    by (auto split: if_splits)
  then show ?thesis
    using materialize_entry_resolves[of "Some c'" fv c] assms
    by (simp add: resolved_entries_with_cwd_def materialize_project_roots_with_cwd_def Let_def
        List.map_filter_def filter_map o_def)
qed


lemma share_target_sym: "file_system_paths_share_target a b = file_system_paths_share_target b a"
proof (cases a)
  case (SpecialPath v)
  then show ?thesis
  proof (cases b)
    case w: (SpecialPath w)
    then show ?thesis using SpecialPath by (cases v; cases w) auto
  qed (use SpecialPath in simp_all)
qed (cases b; auto)+

lemma materialized_share:
  assumes "file_system_paths_share_target (entry_path x) (entry_path e)"
  shows "file_system_paths_share_target (entry_path (materialize_entry_with_cwd fv c x))
    (entry_path (materialize_entry_with_cwd fv c e))"
proof (cases "entry_path x")
  case (SpecialPath v)
  then show ?thesis
  proof (cases "entry_path e")
    case w: (SpecialPath w)
    then have "v = w" using assms SpecialPath by (cases v; cases w) simp_all
    then show ?thesis using w SpecialPath
      by (cases w; cases c) (auto simp: materialize_entry_with_cwd_def split: option.splits)
  next
    case w: (ConcretePath w)
    then show ?thesis using assms SpecialPath
      by (cases v; cases c) (auto simp: materialize_entry_with_cwd_def split: option.splits)
  qed (use SpecialPath assms in simp_all)
next
  case (ConcretePath w)
  then show ?thesis
  proof (cases "entry_path e")
    case v: (SpecialPath v)
    then show ?thesis using assms ConcretePath
      by (cases v; cases c) (auto simp: materialize_entry_with_cwd_def split: option.splits)
  qed (use ConcretePath assms in \<open>simp_all add: materialize_entry_with_cwd_def\<close>)
next
  case (GlobPath g)
  then show ?thesis using assms
    by (cases "entry_path e") (auto simp: materialize_entry_with_cwd_def split: option.splits)
qed

lemma materialized_narrows:
  assumes "narrows_write (materialize_project_roots_with_cwd fv cwd p) (materialize_entry_with_cwd fv c e)"
    "c = from_absolute_path (fv_env fv) cwd"
  shows "narrows_write p e"
proof -
  have acc [simp]: "entry_access (materialize_entry_with_cwd fv c x) = entry_access x" for x
    by (auto simp: materialize_entry_with_cwd_def split: file_system_path.splits special_path.splits option.splits)
  have o: "has_same_target_write_override (materialize_project_roots_with_cwd fv cwd p) (materialize_entry_with_cwd fv c e)"
    if "has_same_target_write_override p e"
  proof -
    from that obtain x where x: "x \<in> set (policy_entries p)" "can_write (entry_access x)" "entry_access x > entry_access e"
      "file_system_paths_share_target (entry_path x) (entry_path e)"
      by (auto simp: has_same_target_write_override_def list_ex_iff)
    then show ?thesis using materialized_share[OF x(4), of fv c]
      by (auto simp: assms(2)[symmetric] has_same_target_write_override_def materialize_project_roots_with_cwd_def Let_def list_ex_iff
          intro!: bexI[of _ x])
  qed
  have m: "entry_path (materialize_entry_with_cwd fv c e) =
     (case entry_path e of
        SpecialPath (ProjectRoots s) \<Rightarrow>
          (case resolve_file_system_path fv (entry_path e) c of Some q \<Rightarrow> ConcretePath q | None \<Rightarrow> entry_path e)
      | GlobPath g \<Rightarrow> entry_path (materialize_entry_with_cwd fv c e)
      | _ \<Rightarrow> entry_path e)"
    by (auto simp: materialize_entry_with_cwd_def split: file_system_path.splits special_path.splits option.splits)
  have g: "entry_path e = GlobPath g \<Longrightarrow> \<exists>g'. entry_path (materialize_entry_with_cwd fv c e) = GlobPath g'" for g
    by (auto simp: materialize_entry_with_cwd_def split: option.splits)
  show ?thesis
  proof (cases "entry_path e")
    case (SpecialPath v)
    then show ?thesis using assms(1) o m
      by (cases v) (auto simp: narrows_write_def split: option.splits if_splits)
  next
    case (ConcretePath q)
    then show ?thesis using assms(1) o m by (auto simp: narrows_write_def split: if_splits)
  next
    case (GlobPath q)
    then show ?thesis using assms(1) by (auto simp: narrows_write_def split: if_splits)
  qed
qed

lemma materialized_full:
  assumes "has_full_disk_write_access p"
  shows "has_full_disk_write_access (materialize_project_roots_with_cwd fv cwd p)"
proof -
  let ?c = "from_absolute_path (fv_env fv) cwd"
  have "has_root_access p f \<Longrightarrow> has_root_access (materialize_project_roots_with_cwd fv cwd p) f" for f
  proof -
    assume "has_root_access p f"
    then obtain e where e: "e \<in> set (policy_entries p)" "entry_path e = SpecialPath Root" "f (entry_access e)"
      "policy_kind p = RestrictedKind" by (auto simp: has_root_access_def list_ex_iff)
    then have "materialize_entry_with_cwd fv ?c e = e" by (simp add: materialize_entry_with_cwd_def)
    with e show ?thesis
      by (auto simp: has_root_access_def materialize_project_roots_with_cwd_def Let_def list_ex_iff intro!: bexI[of _ e])
  qed
  moreover have "has_write_narrowing_entries (materialize_project_roots_with_cwd fv cwd p) \<Longrightarrow> has_write_narrowing_entries p"
    using materialized_narrows[of fv cwd p]
    by (auto simp: has_write_narrowing_entries_def materialize_project_roots_with_cwd_def Let_def list_ex_iff)
  moreover have "policy_kind (materialize_project_roots_with_cwd fv cwd p) = policy_kind p"
    by (simp add: materialize_project_roots_with_cwd_def Let_def)
  ultimately show ?thesis using assms by (auto simp: has_full_disk_write_access_def split: if_splits)
qed

lemma materialized_wf:
  assumes "wf_policy p"
  shows "wf_policy (materialize_project_roots_with_cwd fv cwd p)"
proof -
  let ?c = "from_absolute_path (fv_env fv) cwd"
  have "wf_path (entry_path (materialize_entry_with_cwd fv ?c e))" if "wf_path (entry_path e)" for e
    using that from_absolute_path_normal[of "fv_env fv" cwd]
    by (auto simp: resolve_path_against_base_normal materialize_entry_with_cwd_def split: file_system_path.splits special_path.splits option.splits)
  then show ?thesis using assms by (auto simp: wf_policy_def materialize_project_roots_with_cwd_def Let_def list_all_iff)
qed

text \<open>
  Materialising the project roots pins a policy to the directory it was made for: under any later
  current directory every absolute path has the access it had, and none that could be written becomes
  protected.
\<close>
theorem materialized_access_fixed:
  assumes "wf_policy p" "path_is_absolute path"
    "from_absolute_path (fv_env fv) cwd = Some c" "from_absolute_path (fv_env fv) cwd' = Some c'"
  shows "resolve_access_with_cwd fv (materialize_project_roots_with_cwd fv cwd p) path cwd' = resolve_access_with_cwd fv p path cwd \<and>
    (can_write_path_with_cwd fv p path cwd \<longrightarrow>
     can_write_path_with_cwd fv (materialize_project_roots_with_cwd fv cwd p) path cwd')"
proof -
  let ?p = "materialize_project_roots_with_cwd fv cwd p"
  have k: "policy_kind ?p = policy_kind p" by (simp add: materialize_project_roots_with_cwd_def Let_def)
  have t: "resolve_candidate_path (fv_env fv) path w = Some (normalized_components path)" for w
    using assms(2) by (simp add: resolve_candidate_path_def from_absolute_path_absolute)
  show ?thesis
  proof (cases "policy_kind p = RestrictedKind")
    case True
    then have k': "policy_kind ?p = RestrictedKind" using k by simp
    show ?thesis
      unfolding can_write_at[OF True assms(1) t] can_write_at[OF k' materialized_wf[OF assms(1)] t]
        resolve_access_at[OF True t] resolve_access_at[OF k' t] materialized_entries[OF assms(3,4)]
      using materialized_full by blast
  qed (use k in \<open>simp add: resolve_access_with_cwd_def can_write_path_with_cwd_def has_full_disk_write_access_def\<close>)
qed

section \<open>Workspace policies\<close>

text \<open>The default entries only ever append entries that grant reading.\<close>

definition read_tail :: "sandbox_entry list \<Rightarrow> sandbox_entry list \<Rightarrow> bool" where
  "read_tail es es' \<longleftrightarrow> (\<exists>xs. es' = es @ xs \<and> list_all (\<lambda>e. entry_access e = AccessRead) xs)"

lemma read_tail_refl [simp]: "read_tail es es"
  by (simp add: read_tail_def)

lemma read_tail_trans: "read_tail a b \<Longrightarrow> read_tail b c \<Longrightarrow> read_tail a c"
  by (auto simp: read_tail_def)

lemma read_tail_append_default: "read_tail es (append_default_read_only_entry_if_no_explicit_rule q es)"
  by (auto simp: append_default_read_only_entry_if_no_explicit_rule_def read_tail_def skip_missing_path_def)

lemma read_tail_fold: "(\<And>x es. x \<in> set xs \<Longrightarrow> read_tail es (f x es)) \<Longrightarrow> read_tail es (fold f xs es)"
  by (induction xs arbitrary: es) (auto intro: read_tail_trans)

lemma read_tail_protect_root: "read_tail es (protect_root fv b r es)"
  unfolding protect_root_def append_default_read_only_path_if_no_explicit_rule_def
  by (rule read_tail_fold) (rule read_tail_append_default)

lemma read_tail_workspace:
  "read_tail (base_workspace_entries roots ex_tmpdir ex_slash) (policy_entries (workspace_write fv roots ex_tmpdir ex_slash))"
  unfolding workspace_write_def Let_def restricted_def append_default_read_only_project_root_subpath_if_no_explicit_rule_def
  by (simp, intro read_tail_trans[OF _ read_tail_fold] read_tail_trans[OF _ read_tail_append_default]
      read_tail_append_default read_tail_protect_root)

lemma read_tail_legacy: "read_tail es (protect_legacy_roots fv cwd roots es)"
  unfolding protect_legacy_roots_def Let_def
  by (intro read_tail_trans[OF _ read_tail_fold] read_tail_protect_root)
    (auto split: option.splits intro: read_tail_protect_root)

lemma workspace_kind [simp]: "policy_kind (workspace_write fv roots ex_tmpdir ex_slash) = RestrictedKind"
  by (simp add: workspace_write_def restricted_def Let_def)

lemma base_entry_access:
  "e \<in> set (base_workspace_entries roots a b) \<Longrightarrow>
     entry_access e = AccessWrite \<and> entry_path e \<noteq> SpecialPath Root \<or> e = new_entry (SpecialPath Root) AccessRead"
  by (auto simp: base_workspace_entries_def new_entry_def split: if_splits)

lemma read_tail_not_full:
  assumes "read_tail (base_workspace_entries roots a b) (policy_entries p)" "policy_kind p = RestrictedKind"
  shows "\<not> has_full_disk_write_access p"
  using assms base_entry_access
  by (fastforce simp: has_full_disk_write_access_def has_root_access_def read_tail_def list_ex_iff list_all_iff new_entry_def)

lemma scan_read_entries:
  "list_all (\<lambda>e. entry_access e = AccessRead) xs \<Longrightarrow> fold (scan_entry fv c) xs s = s"
  by (induction xs) (auto simp: scan_entry_def split: file_system_path.splits special_path.splits option.splits)

lemma scan_roots:
  "scan_workspace_root_writable s \<Longrightarrow>
   fold (scan_entry fv c) (map (\<lambda>p. new_entry (ConcretePath p) AccessWrite) roots) s =
     s\<lparr>scan_writable_roots := scan_writable_roots s @ filter (\<lambda>r. c \<noteq> Some r) roots\<rparr>"
proof (induction roots arbitrary: s)
  case (Cons r roots)
  have "s\<lparr>scan_workspace_root_writable := True\<rparr> = s" using Cons.prems by (cases s) simp
  then show ?case using Cons by (simp add: scan_entry_def new_entry_def)
qed simp

text \<open>What the legacy form keeps of a policy: the current directory is not listed among the roots, and no root twice.\<close>

fun normal_legacy :: "fs_view \<Rightarrow> str \<Rightarrow> legacy_policy \<Rightarrow> legacy_policy" where
  "normal_legacy fv cwd (WorkspaceWrite roots n a b) =
     WorkspaceWrite (dedup_absolute_paths fv (filter (\<lambda>r. from_absolute_path (fv_env fv) cwd \<noteq> Some r) roots) False) n a b"
| "normal_legacy fv cwd l = l"

lemma to_legacy_read_tail:
  assumes "read_tail (base_workspace_entries roots a b) (policy_entries p)" "policy_kind p = RestrictedKind"
  shows "to_legacy_sandbox_policy fv p net cwd = Inr (normal_legacy fv cwd (WorkspaceWrite roots (network_enabled net) a b))"
proof -
  obtain xs where xs: "policy_entries p = base_workspace_entries roots a b @ xs" "list_all (\<lambda>e. entry_access e = AccessRead) xs"
    using assms(1) by (auto simp: read_tail_def)
  show ?thesis
    using read_tail_not_full[OF assms] assms(2)
    by (simp add: to_legacy_sandbox_policy_def Let_def xs(1) scan_read_entries[OF xs(2)] base_workspace_entries_def
        scan_roots[unfolded new_entry_def] scan_entry_def new_entry_def)
qed

text \<open>
  C20 The bridge between the two policy languages is exact: a legacy policy converted to a filesystem
  policy and its network policy, and converted back for any directory, is the same policy, up to
  listing the directory itself or a root twice; also when its protected subpaths were added for a
  directory first.
\<close>
theorem legacy_policy_roundtrip:
  "to_legacy_sandbox_policy fv (policy_from_legacy fv l) (network_policy_from_legacy l) cwd = Inr (normal_legacy fv cwd l) \<and>
   to_legacy_sandbox_policy fv (from_legacy_sandbox_policy_for_cwd fv l cwd') (network_policy_from_legacy l) cwd =
     Inr (normal_legacy fv cwd l)"
proof (cases l)
  case (WorkspaceWrite roots n a b)
  have n: "network_enabled (network_policy_from_legacy l) = n"
    by (simp add: WorkspaceWrite network_policy_from_legacy_def)
  let ?p = "policy_from_legacy fv l"
  have t: "read_tail (base_workspace_entries roots a b) (policy_entries ?p)" "policy_kind ?p = RestrictedKind"
    using read_tail_workspace by (simp_all add: WorkspaceWrite)
  let ?q = "?p\<lparr>policy_entries := protect_legacy_roots fv cwd' roots (policy_entries ?p)\<rparr>"
  have q: "read_tail (base_workspace_entries roots a b) (policy_entries ?q)" "policy_kind ?q = RestrictedKind"
    using read_tail_trans[OF t(1) read_tail_legacy] t(2) by simp_all
  show ?thesis
    using to_legacy_read_tail[OF t] to_legacy_read_tail[OF q] n
    by (simp add: from_legacy_sandbox_policy_for_cwd_def Let_def WorkspaceWrite)
next
  case (ExternalSandbox n)
  then show ?thesis by (cases n) (simp_all add: to_legacy_sandbox_policy_def external_sandbox_def
        network_policy_from_legacy_def from_legacy_sandbox_policy_for_cwd_def)
next
  case DangerFullAccess
  then show ?thesis by (simp add: to_legacy_sandbox_policy_def unrestricted_def network_policy_from_legacy_def
        from_legacy_sandbox_policy_for_cwd_def)
next
  case (ReadOnly n)
  then show ?thesis
    by (simp add: to_legacy_sandbox_policy_def restricted_def network_policy_from_legacy_def Let_def
        from_legacy_sandbox_policy_for_cwd_def scan_entry_def new_entry_def has_full_disk_write_access_def has_root_access_def)
qed

section \<open>Confinement to the workspace\<close>

text \<open>The places a workspace policy lets the agent write: the directory, the roots, \<open>/tmp\<close> and \<open>TMPDIR\<close>.\<close>

definition workspace_locations :: "fs_view \<Rightarrow> abs_path list \<Rightarrow> bool \<Rightarrow> bool \<Rightarrow> abs_path \<Rightarrow> abs_path set" where
  "workspace_locations fv roots ex_tmpdir ex_slash c =
     {c} \<union> set roots \<union> (if \<not> ex_slash \<and> fv_is_dir fv SLASH_TMP then {SLASH_TMP} else {})
     \<union> (if ex_tmpdir then {} else set_option (resolve_file_system_special_path fv Tmpdir None))"

lemma tmpdir_cwd: "resolve_file_system_special_path fv Tmpdir c = resolve_file_system_special_path fv Tmpdir None"
  by simp

lemma resolved_entry_iff:
  "(\<exists>e\<in>set (resolved_entries_with_cwd fv p cwd). resolved_access e = a \<and> resolved_path e = q) \<longleftrightarrow>
   (\<exists>e\<in>set (policy_entries p). entry_access e = a \<and>
      resolve_entry_path fv (entry_path e) (from_absolute_path (fv_env fv) cwd) = Some q)" (is "?l \<longleftrightarrow> ?r")
proof
  assume ?r
  then have "\<lparr>resolved_path = q, resolved_access = a\<rparr> \<in> set (resolved_entries_with_cwd fv p cwd)"
    by (auto simp: set_resolved_entries)
  then show ?l by force
next
  assume ?l
  then show ?r using set_resolved_entries by metis
qed

lemma workspace_write_entries:
  assumes "from_absolute_path (fv_env fv) cwd = Some c"
  shows "(\<exists>e\<in>set (resolved_entries_with_cwd fv (workspace_write fv roots a b) cwd).
      resolved_access e = AccessWrite \<and> resolved_path e = q) \<longleftrightarrow> q \<in> workspace_locations fv roots a b c"
proof -
  obtain xs where xs: "policy_entries (workspace_write fv roots a b) = base_workspace_entries roots a b @ xs"
    "list_all (\<lambda>e. entry_access e = AccessRead) xs"
    using read_tail_workspace[of roots a b fv] unfolding read_tail_def by blast
  have "(\<exists>e\<in>set (resolved_entries_with_cwd fv (workspace_write fv roots a b) cwd).
      resolved_access e = AccessWrite \<and> resolved_path e = q) \<longleftrightarrow>
    (\<exists>e\<in>set (base_workspace_entries roots a b). entry_access e = AccessWrite \<and> resolve_entry_path fv (entry_path e) (Some c) = Some q)"
    unfolding resolved_entry_iff xs(1) assms using xs(2) by (auto simp: list_all_iff)
  also have "\<dots> \<longleftrightarrow> q \<in> workspace_locations fv roots a b c"
    by (cases a; cases b; cases "fv_is_dir fv SLASH_TMP")
      (auto simp: base_workspace_entries_def new_entry_def workspace_locations_def resolve_entry_path_def tmpdir_cwd[of fv "Some c"]
        simp del: resolve_file_system_special_path.simps(5))
  finally show ?thesis .
qed

lemma default_subpath_normal:
  assumes "q \<in> set (default_read_only_subpaths_for_writable_root fv r b)"
  shows "normal_path q"
proof -
  have g: "resolve_gitdir_from_file fv x = Some q \<Longrightarrow> normal_path q" for x
    unfolding resolve_gitdir_from_file_def Let_def
    by (auto split: option.split_asm if_split_asm prod.split_asm) (metis resolve_path_against_base_normal)+
  have "(\<exists>x. resolve_gitdir_from_file fv x = Some q) \<or> (\<exists>n. q = abs_join (fv_env fv) r n)"
  proof -
    have i: "q \<in> set (if b then xs else []) \<longleftrightarrow> b \<and> q \<in> set xs" for b and xs :: "abs_path list" by simp
    have o: "q \<in> set (case x of Some g \<Rightarrow> [g] | None \<Rightarrow> []) \<longleftrightarrow> x = Some q" for x by (cases x) auto
    show ?thesis
      using assms
      unfolding default_read_only_subpaths_for_writable_root_def dedup_absolute_paths_def set_dedup_loop Let_def if_False
        image_ident Diff_empty set_append Un_iff i o by auto
  qed
  then show ?thesis using g by (auto simp: abs_join_def resolve_path_against_base_normal)
qed

lemma protect_root_paths:
  "e \<in> set (protect_root fv b r es) \<Longrightarrow> e \<in> set es \<or> wf_path (entry_path e)"
proof -
  have "e \<in> set (fold append_default_read_only_path_if_no_explicit_rule qs es) \<Longrightarrow> list_all normal_path qs \<Longrightarrow>
      e \<in> set es \<or> wf_path (entry_path e)" for qs
    by (induction qs arbitrary: es)
      (fastforce simp: append_default_read_only_path_if_no_explicit_rule_def
        append_default_read_only_entry_if_no_explicit_rule_def skip_missing_path_def split: if_splits)+
  then show "e \<in> set (protect_root fv b r es) \<Longrightarrow> e \<in> set es \<or> wf_path (entry_path e)"
    using default_subpath_normal unfolding protect_root_def list_all_iff by blast
qed

lemma fold_protect_root_paths:
  "e \<in> set (fold (protect_root fv b) rs es) \<Longrightarrow> e \<in> set es \<or> wf_path (entry_path e)"
  by (induction rs arbitrary: es) (auto dest: protect_root_paths)

lemma append_default_paths:
  "e \<in> set (append_default_read_only_entry_if_no_explicit_rule q es) \<Longrightarrow> e \<in> set es \<or> entry_path e = q"
  by (auto simp: append_default_read_only_entry_if_no_explicit_rule_def skip_missing_path_def split: if_splits)

lemma base_workspace_wf: "list_all normal_path roots \<Longrightarrow> e \<in> set (base_workspace_entries roots a b) \<Longrightarrow> wf_path (entry_path e)"
  by (auto simp: base_workspace_entries_def new_entry_def list_all_iff split: if_splits)

lemma workspace_write_wf: "list_all normal_path roots \<Longrightarrow> wf_policy (workspace_write fv roots a b)"
proof -
  assume r: "list_all normal_path roots"
  have "wf_path (entry_path e)" if "e \<in> set (policy_entries (workspace_write fv roots a b))" for e
    using that base_workspace_wf[OF r, of e a b]
    unfolding workspace_write_def Let_def restricted_def append_default_read_only_project_root_subpath_if_no_explicit_rule_def
    by (auto dest!: fold_protect_root_paths append_default_paths)
  then show ?thesis by (simp add: wf_policy_def list_all_iff)
qed

text \<open>
  C13 A workspace policy confines writes: everything can be read, and a path that can be written lies
  below the directory or another granted place, and not below \<open>.git\<close>, \<open>.agents\<close> or \<open>.codex\<close> of any
  of them, as long as no granted place itself lies inside such metadata.
\<close>
theorem workspace_write_confined:
  assumes "list_all normal_path roots" "from_absolute_path (fv_env fv) cwd = Some c"
    "resolve_candidate_path (fv_env fv) path cwd = Some t"
    "\<forall>l\<in>workspace_locations fv roots ex_tmpdir ex_slash c. \<forall>k\<in>workspace_locations fv roots ex_tmpdir ex_slash c. \<not> metadata_below k l"
  shows "can_read_path_with_cwd fv (workspace_write fv roots ex_tmpdir ex_slash) path cwd \<and>
    (can_write_path_with_cwd fv (workspace_write fv roots ex_tmpdir ex_slash) path cwd \<longrightarrow>
      (\<exists>l\<in>workspace_locations fv roots ex_tmpdir ex_slash c. prefix l t) \<and>
      (\<forall>l\<in>workspace_locations fv roots ex_tmpdir ex_slash c. \<not> metadata_below l t))"
proof -
  let ?p = "workspace_write fv roots ex_tmpdir ex_slash"
  let ?es = "resolved_entries_with_cwd fv ?p cwd"
  let ?L = "workspace_locations fv roots ex_tmpdir ex_slash c"
  have w: "can_write x \<longleftrightarrow> x = AccessWrite" for x by (cases x) simp_all
  note L = workspace_write_entries[OF assms(2), of roots ex_tmpdir ex_slash]
  note k = workspace_kind[of fv roots ex_tmpdir ex_slash]
  obtain xs where xs: "policy_entries ?p = base_workspace_entries roots ex_tmpdir ex_slash @ xs"
    "list_all (\<lambda>e. entry_access e = AccessRead) xs"
    using read_tail_workspace[of roots ex_tmpdir ex_slash fv] unfolding read_tail_def by blast
  have nd: "entry_access e \<noteq> AccessDeny" if "e \<in> set (policy_entries ?p)" for e
    using that xs base_entry_access by (fastforce simp: list_all_iff new_entry_def)
  have "new_entry (SpecialPath Root) AccessRead \<in> set (policy_entries ?p)"
    by (simp add: xs(1) base_workspace_entries_def)
  then have "has_full_disk_read_access ?p"
    using nd k by (auto simp: has_full_disk_read_access_def has_root_access_def has_denied_read_restrictions_def list_ex_iff
        new_entry_def intro!: bexI)
  then have "can_read_path_with_cwd fv ?p path cwd"
    using full_disk_read_access_at[OF _ k assms(2)] resolve_access_at[OF k assms(3)] by (simp add: can_read_path_with_cwd_def)
  moreover have "(\<exists>l\<in>?L. prefix l t) \<and> (\<forall>l\<in>?L. \<not> metadata_below l t)" if c: "can_write_path_with_cwd fv ?p path cwd"
  proof
    have a: "access_at ?es t = AccessWrite" "\<not> metadata_denied ?es t"
      using c can_write_at[OF k workspace_write_wf[OF assms(1)] assms(3)] read_tail_not_full[OF read_tail_workspace k] by auto
    from access_at_not_Deny[OF a(1)] obtain m where "governs ?es t m" "resolved_access m = AccessWrite" by auto
    then show "\<exists>l\<in>?L. prefix l t" using L[of "resolved_path m"] by (auto simp: governs_def)
    show "\<forall>l\<in>?L. \<not> metadata_below l t"
    proof (rule ballI, rule notI)
      fix l
      assume l: "l \<in> ?L" "metadata_below l t"
      then obtain x where x: "x \<in> set ?es" "resolved_access x = AccessWrite" "resolved_path x = l" using L[of l] by blast
      then have "first_hit ?es t \<noteq> None" using l(2) w unfolding first_hit_def find_None_iff by blast
      then obtain e where e: "first_hit ?es t = Some e" by blast
      note f = first_hit_Some[OF e]
      then obtain n rest where n: "t = resolved_path e @ n # rest" "n \<in> set PROTECTED_METADATA_PATH_NAMES"
        by (auto simp: metadata_below_def)
      then have "explicit_write ?es (resolved_path e @ [n]) t" using a(2) e by (auto simp: metadata_denied_def)
      then obtain y where y: "y \<in> set ?es" "can_write (resolved_access y)" "prefix (resolved_path e @ [n]) (resolved_path y)"
        by (auto simp: explicit_write_def)
      then have "metadata_below (resolved_path e) (resolved_path y)" using n(2) by (auto simp: metadata_below_def prefix_def)
      moreover have "resolved_path y \<in> ?L" "resolved_path e \<in> ?L" using L y f w by blast+
      ultimately show False using assms(4) by blast
    qed
  qed
  ultimately show ?thesis by blast
qed

end
