(* ===== verification/FsSandbox.thy ===== *)
theory FsSandbox
  imports FsAccess
begin

text \<open>
  What is handed to the sandboxes and to the tools: the projected writable roots stay within the policy,
  denied reads are enforced, every operation keeps paths normalised; examples, and corner cases in which
  the code differs from what it means to do.
\<close>

section \<open>The projection for sandboxes\<close>

text \<open>No symbolic link changes the effective form of a path.\<close>

definition no_aliases :: "fs_view \<Rightarrow> bool" where
  "no_aliases fv \<longleftrightarrow> (\<forall>q. normal_path q \<longrightarrow> normalize_effective_absolute_path fv q = q)"

lemma dedup_no_aliases:
  assumes "no_aliases fv" "\<forall>q\<in>set ps. normal_path q"
  shows "set (dedup_absolute_paths fv ps True) = set ps"
  using assms by (auto simp: dedup_absolute_paths_def set_dedup_loop no_aliases_def)

lemma carveout_no_aliases:
  assumes "no_aliases fv" "normal_path q" "\<forall>r\<in>set raw. r = root"
  shows "carveout_path fv root raw q = (if q \<noteq> root \<and> prefix root q then Some q else None)"
proof -
  have n: "normalize_effective_absolute_path fv q = q" using assms(1,2) by (simp add: no_aliases_def)
  have "find_map (\<lambda>raw_root. case strip_base q raw_root of None \<Rightarrow> None
      | Some rest \<Rightarrow> if rest = [] then None else Some (abs_join (fv_env fv) root (join [47] rest))) raw = None"
    if "\<not> prefix root q"
    using assms(3) that by (induction raw) (auto simp: strip_base_def)
  then show ?thesis by (auto simp: carveout_path_def Let_def n path_starts_with_def abs_parent_def split: option.splits)
qed

lemma writable_entry_paths_iff:
  assumes "policy_kind p = RestrictedKind" "wf_policy p" "\<not> has_full_disk_write_access p"
  shows "r \<in> set (writable_entry_paths fv p cwd) \<longleftrightarrow>
    (\<exists>e\<in>set (resolved_entries_with_cwd fv p cwd). resolved_path e = r \<and> resolved_access e = AccessWrite) \<and>
    access_at (resolved_entries_with_cwd fv p cwd) r = AccessWrite \<and> \<not> metadata_denied (resolved_entries_with_cwd fv p cwd) r"
proof -
  have w: "can_write a \<longleftrightarrow> a = AccessWrite" for a by (cases a) simp_all
  show ?thesis
    using can_write_at[OF assms(1,2) resolve_candidate_render[OF resolved_entries_normal[OF assms(2)]]] assms(3)
    by (auto simp: writable_entry_paths_def w)
qed

lemma writable_entry_paths_normal: "wf_policy p \<Longrightarrow> q \<in> set (writable_entry_paths fv p cwd) \<Longrightarrow> normal_path q"
  by (auto simp: writable_entry_paths_def resolved_entries_normal)

lemma project_writable_root_parts:
  assumes "no_aliases fv" "wf_policy p" "policy_kind p = RestrictedKind" "\<not> has_full_disk_write_access p"
    "root \<in> set (writable_entry_paths fv p cwd)" "w = project_writable_root fv p cwd (writable_entry_paths fv p cwd) root"
  shows "wr_root w = root"
    "e \<in> set (resolved_entries_with_cwd fv p cwd) \<Longrightarrow> \<not> can_write (resolved_access e) \<Longrightarrow>
     \<not> can_write_path_with_cwd fv p (render_absolute (resolved_path e)) cwd \<Longrightarrow> prefix root (resolved_path e) \<Longrightarrow>
     resolved_path e \<noteq> root \<Longrightarrow> resolved_path e \<in> set (wr_read_only_subpaths w)"
    "n \<in> set PROTECTED_METADATA_PATH_NAMES \<Longrightarrow> \<not> can_write_path_with_cwd fv p (render_absolute (root @ [n])) cwd \<Longrightarrow>
     n \<in> set (wr_protected_metadata_names w)"
proof -
  let ?raw = "filter (\<lambda>path. normalize_effective_absolute_path fv path = root) (writable_entry_paths fv p cwd)"
  note norm = writable_entry_paths_normal[OF assms(2), of _ fv cwd]
  then have raw: "\<forall>r\<in>set ?raw. r = root" using assms(1) by (auto simp: no_aliases_def)
  show "wr_root w = root" by (simp add: assms(6) project_writable_root_def Let_def)
  show "resolved_path e \<in> set (wr_read_only_subpaths w)"
    if "e \<in> set (resolved_entries_with_cwd fv p cwd)" "\<not> can_write (resolved_access e)"
      "\<not> can_write_path_with_cwd fv p (render_absolute (resolved_path e)) cwd" "prefix root (resolved_path e)"
      "resolved_path e \<noteq> root"
  proof -
    have "carveout_path fv root ?raw (resolved_path e) = Some (resolved_path e)"
      using carveout_no_aliases[OF assms(1) resolved_entries_normal[OF assms(2) that(1)] raw] that(4,5) by simp
    then show ?thesis
      using that(1-3) unfolding assms(6) project_writable_root_def Let_def
      by (force simp: dedup_absolute_paths_def set_dedup_loop List.map_filter_def)
  qed
  show "n \<in> set (wr_protected_metadata_names w)"
    if n: "n \<in> set PROTECTED_METADATA_PATH_NAMES" "\<not> can_write_path_with_cwd fv p (render_absolute (root @ [n])) cwd"
  proof -
    have "abs_join (fv_env fv) root n = root @ [n]"
      using metadata_names[OF n(1)] norm[OF assms(5)] by (auto intro: abs_join_name)
    then show ?thesis
      using n raw unfolding assms(6) project_writable_root_def Let_def protected_metadata_names_for_writable_root_def
      by (auto simp: list_all_iff)
  qed
qed

lemma find_stronger:
  assumes "find P xs = Some x" "Q x" "\<And>y. Q y \<Longrightarrow> P y"
  shows "find Q xs = Some x"
  using assms by (induction xs) (auto split: if_splits)

lemma metadata_denied_parent:
  assumes "first_hit es t = Some e" "t = resolved_path e @ n # rest" "n \<in> set PROTECTED_METADATA_PATH_NAMES"
    "\<not> explicit_write es (resolved_path e @ [n]) t"
  shows "metadata_denied es (resolved_path e @ [n])"
proof -
  have "first_hit es (resolved_path e @ [n]) = Some e"
    unfolding first_hit_def
  proof (rule find_stronger[OF assms(1)[unfolded first_hit_def]])
    show "can_write (resolved_access e) \<and> metadata_below (resolved_path e) (resolved_path e @ [n])"
      using first_hit_Some[OF assms(1)] assms(3) by (auto simp: metadata_below_def)
    show "can_write (resolved_access y) \<and> metadata_below (resolved_path y) (resolved_path e @ [n]) \<Longrightarrow>
        can_write (resolved_access y) \<and> metadata_below (resolved_path y) t" for y
      unfolding metadata_below_def assms(2) by (metis append.assoc append_Cons append_Nil)
  qed
  moreover have "\<not> explicit_write es (resolved_path e @ [n]) (resolved_path e @ [n])"
    using assms(2,4) by (auto simp: explicit_write_def prefix_def)
  ultimately show ?thesis by (auto simp: metadata_denied_def)
qed

lemma projection_sound:
  assumes "wf_policy p" "policy_kind p = RestrictedKind" "no_aliases fv" "normal_path t"
    "w \<in> set (get_writable_roots_with_cwd fv p cwd)" "is_path_writable w t"
    "\<And>w'. w' \<in> set (get_writable_roots_with_cwd fv p cwd) \<Longrightarrow> prefix (wr_root w') t \<Longrightarrow> length (wr_root w') \<le> length (wr_root w)"
  shows "can_write_path_with_cwd fv p (render_absolute t) cwd"
proof -
  let ?es = "resolved_entries_with_cwd fv p cwd"
  let ?W = "writable_entry_paths fv p cwd"
  have wr: "can_write a \<longleftrightarrow> a = AccessWrite" for a by (cases a) simp_all
  have nf: "\<not> has_full_disk_write_access p" using assms(5) by (auto simp: get_writable_roots_with_cwd_def)
  note iff = writable_entry_paths_iff[OF assms(2,1) nf, of _ fv cwd]
  have norm: "\<forall>q\<in>set ?W. normal_path q" using writable_entry_paths_normal[OF assms(1)] by blast
  have roots: "get_writable_roots_with_cwd fv p cwd = map (project_writable_root fv p cwd ?W) (dedup_absolute_paths fv ?W True)"
    using nf by (simp add: get_writable_roots_with_cwd_def Let_def)
  obtain r where r: "r \<in> set ?W" "w = project_writable_root fv p cwd ?W r"
    using assms(5) unfolding roots set_map dedup_no_aliases[OF assms(3) norm] by blast
  note part = project_writable_root_parts[OF assms(3,1,2) nf r]
  from r(1) iff obtain re where re: "re \<in> set ?es" "resolved_path re = r" "resolved_access re = AccessWrite" by blast
  have ar: "access_at ?es r = AccessWrite" using r(1) iff by blast
  have rt: "prefix r t" and ro: "\<And>q. q \<in> set (wr_read_only_subpaths w) \<Longrightarrow> \<not> prefix q t"
    and pn: "\<not> path_contains_protected_metadata_name w t"
    using assms(6) part(1) by (auto simp: is_path_writable_def path_starts_with_def list_ex_iff split: if_splits)
  note write_at = can_write_at[OF assms(2,1)]
  obtain m where m: "governs ?es t m" using governs_exists[OF re(1)] re(2) rt by blast
  have rm: "prefix r (resolved_path m)" using governs_longest[OF m re(1)] re(2) rt by simp
  have mes: "m \<in> set ?es" and mt: "prefix (resolved_path m) t" using m by (auto simp: governs_def)
  have mw: "resolved_access m = AccessWrite"
  proof (rule ccontr)
    assume a: "resolved_access m \<noteq> AccessWrite"
    have at: "access_at ?es (resolved_path m) = resolved_access m" using access_at_governs[OF governs_self[OF m]] .
    then have "resolved_path m \<noteq> r" using ar a by auto
    moreover have "\<not> can_write_path_with_cwd fv p (render_absolute (resolved_path m)) cwd"
      using write_at[OF resolve_candidate_render[OF resolved_entries_normal[OF assms(1) mes]]] at a by simp
    ultimately have "resolved_path m \<in> set (wr_read_only_subpaths w)" using part(2)[OF mes] a rm wr by blast
    with ro mt show False by blast
  qed
  have "\<not> metadata_denied ?es t"
  proof
    assume "metadata_denied ?es t"
    then obtain e n rest where e: "first_hit ?es t = Some e" "t = resolved_path e @ n # rest"
      "\<not> explicit_write ?es (resolved_path e @ [n]) t" by (auto simp: metadata_denied_def)
    note f = first_hit_Some[OF e(1)]
    have n: "n \<in> set PROTECTED_METADATA_PATH_NAMES" using f e(2) by (auto simp: metadata_below_def)
    have below: "prefix (resolved_path x) (resolved_path e)"
      if "x \<in> set ?es" "resolved_access x = AccessWrite" "prefix (resolved_path x) t" for x
    proof -
      have nx: "\<not> prefix (resolved_path e @ [n]) (resolved_path x)"
        using e(3) that wr unfolding explicit_write_def by blast
      have "prefix (resolved_path e @ [n]) t" using e(2) by simp
      then have "prefix (resolved_path x) (resolved_path e @ [n])" using prefix_same_cases[OF that(3)] nx by blast
      moreover have "resolved_path x \<noteq> resolved_path e @ [n]" using nx by auto
      ultimately show ?thesis by (auto simp: prefix_snoc)
    qed
    have "prefix (resolved_path e) t" using e(2) by simp
    then have "prefix (resolved_path e) (resolved_path m)" using governs_longest[OF m] f by blast
    with below[OF mes mw mt] have me: "resolved_path m = resolved_path e" by (rule prefix_order.antisym)
    have ae: "access_at ?es (resolved_path e) = AccessWrite"
      using access_at_governs[OF governs_self[OF m]] mw me by simp
    have "\<not> metadata_denied ?es (resolved_path e)"
    proof
      assume "metadata_denied ?es (resolved_path e)"
      then obtain x :: resolved_entry and k ks where "resolved_path e = resolved_path x @ k # ks"
        "\<not> explicit_write ?es (resolved_path x @ [k]) (resolved_path e)" unfolding metadata_denied_def by blast
      then show False using f by (auto simp: explicit_write_def)
    qed
    then have eW: "resolved_path e \<in> set ?W" using iff ae f wr by blast
    let ?w = "project_writable_root fv p cwd ?W (resolved_path e)"
    have "?w \<in> set (get_writable_roots_with_cwd fv p cwd)"
      unfolding roots set_map dedup_no_aliases[OF assms(3) norm] using eW by blast
    then have "length (resolved_path e) \<le> length r"
      using assms(7)[of ?w] project_writable_root_parts(1)[OF assms(3,1,2) nf eW refl] part(1) \<open>prefix (resolved_path e) t\<close> by simp
    moreover have "prefix r (resolved_path e)" using rm me by simp
    ultimately have er: "resolved_path e = r" by (auto simp: prefix_def)
    have "metadata_denied ?es (r @ [n])" using metadata_denied_parent[OF e(1,2) n e(3)] er by simp
    moreover have "normal_path (r @ [n])" using norm r(1) metadata_names[OF n] by simp
    ultimately have "\<not> can_write_path_with_cwd fv p (render_absolute (r @ [n])) cwd"
      using write_at[OF resolve_candidate_render] nf by blast
    then have "n \<in> set (wr_protected_metadata_names w)" by (rule part(3)[OF n])
    then have "path_contains_protected_metadata_name w t"
      using e(2) er part(1) by (simp add: path_contains_protected_metadata_name_def strip_base_def list_ex_iff)
    with pn show False by simp
  qed
  then show ?thesis using write_at[OF resolve_candidate_render[OF assms(4)]] access_at_governs[OF m] mw by simp
qed

text \<open>
  C5 What the sandboxes enforce is within the policy: without symbolic links, a path that the deepest
  projected writable root above it leaves writable, its read-only subpaths and protected names
  considered, is one that the policy lets the agent write.
\<close>
theorem writable_root_projection_sound:
  assumes "wf_policy p" "policy_kind p = RestrictedKind" "no_aliases fv" "normal_path t"
    "w \<in> set (get_writable_roots_with_cwd fv p cwd)" "is_path_writable w t"
    "\<forall>w'\<in>set (get_writable_roots_with_cwd fv p cwd). prefix (wr_root w') t \<longrightarrow> length (wr_root w') \<le> length (wr_root w)"
  shows "can_write_path_with_cwd fv p (render_absolute t) cwd"
  using assms by (intro projection_sound) auto

section \<open>Denied reads are enforced\<close>

lemma path_components_render: "normal_path p \<Longrightarrow> path_components (render_absolute p) = [47] # p"
  by (simp add: path_components_def render_absolute_absolute path_normal_parts_render)

lemma push_unique_keeps: "c \<in> set cs \<Longrightarrow> c \<in> set (push_unique d cs)"
  by (simp add: push_unique_def)

lemma candidates_normal: "normal_path p \<Longrightarrow> render_absolute p \<in> set (normalized_and_canonical_candidates fv (render_absolute p))"
  by (auto simp: normalized_and_canonical_candidates_def Let_def push_unique_keeps push_unique_def split: option.splits)

lemma candidates_absolute:
  assumes "path_is_absolute path"
  shows "render_absolute (normalized_components path) \<in> set (normalized_and_canonical_candidates fv path)"
  using assms
  by (auto simp: normalized_and_canonical_candidates_def Let_def push_unique_keeps push_unique_def from_absolute_path_absolute
      split: option.splits)

lemma build_matchers_FailClosed:
  "\<exists>gs invalid. build_matchers eng FailClosed ps = Inr (gs, invalid) \<and>
     (\<forall>q\<in>set ps. case build_deny_glob eng q of None \<Rightarrow> invalid | Some g \<Rightarrow> g \<in> set gs)"
proof (induction ps)
  case (Cons q ps)
  then obtain gs invalid where "build_matchers eng FailClosed ps = Inr (gs, invalid)"
    "\<forall>q\<in>set ps. case build_deny_glob eng q of None \<Rightarrow> invalid | Some g \<Rightarrow> g \<in> set gs" by blast
  then show ?case by (cases "build_deny_glob eng q") (auto split: option.splits)
qed auto

lemma denied_reads_refused:
  assumes "wf_policy p" "policy_kind p = RestrictedKind" "no_aliases fv" "path_is_absolute path"
    "t = normalized_components path"
    "(\<exists>e. governs (resolved_entries_with_cwd fv p cwd) t e \<and> resolved_access e = AccessDeny \<and> resolved_path e \<noteq> []) \<or>
     (\<exists>q\<in>set (get_unreadable_globs_with_cwd fv p cwd).
        case build_deny_glob eng q of None \<Rightarrow> True | Some g \<Rightarrow> deny_glob_matches eng g (render_absolute t))"
  shows "\<exists>m. read_deny_matcher_new fv eng p cwd = Some (Some m) \<and> is_read_denied fv eng m path"
proof -
  let ?es = "resolved_entries_with_cwd fv p cwd"
  let ?roots = "get_unreadable_roots_with_cwd fv p cwd"
  let ?globs = "get_unreadable_globs_with_cwd fv p cwd"
  obtain gs invalid where b: "build_matchers eng FailClosed ?globs = Inr (gs, invalid)"
    "\<forall>q\<in>set ?globs. case build_deny_glob eng q of None \<Rightarrow> invalid | Some g \<Rightarrow> g \<in> set gs"
    using build_matchers_FailClosed[of eng ?globs] by blast
  let ?m = "\<lparr>denied_candidates = map (\<lambda>path. normalized_and_canonical_candidates fv (render_absolute path)) ?roots,
             deny_read_matchers = gs, invalid_pattern = invalid\<rparr>"
  have "\<exists>e\<in>set (policy_entries p). entry_access e = AccessDeny"
    using assms(6)
  proof
    assume "\<exists>e. governs ?es t e \<and> resolved_access e = AccessDeny \<and> resolved_path e \<noteq> []"
    then show ?thesis by (metis governs_def set_resolved_entries)
  next
    assume "\<exists>q\<in>set ?globs. case build_deny_glob eng q of None \<Rightarrow> True | Some g \<Rightarrow> deny_glob_matches eng g (render_absolute t)"
    then show ?thesis using assms(2) by (auto simp: get_unreadable_globs_with_cwd_def List.map_filter_def)
  qed
  then have "has_denied_read_restrictions p" using assms(2) by (auto simp: has_denied_read_restrictions_def list_ex_iff)
  then have m: "read_deny_matcher_new fv eng p cwd = Some (Some ?m)"
    using b(1) by (simp add: read_deny_matcher_new_def build_matcher_def Let_def)
  have ct: "render_absolute t \<in> set (normalized_and_canonical_candidates fv path)"
    using candidates_absolute[OF assms(4)] assms(5) by simp
  have "is_read_denied fv eng ?m path"
    using assms(6)
  proof
    assume "\<exists>e. governs ?es t e \<and> resolved_access e = AccessDeny \<and> resolved_path e \<noteq> []"
    then obtain e where e: "governs ?es t e" "resolved_access e = AccessDeny" "resolved_path e \<noteq> []" by blast
    then have ees: "e \<in> set ?es" "prefix (resolved_path e) t" by (auto simp: governs_def)
    note ne = resolved_entries_normal[OF assms(1) ees(1)]
    have nr: "\<not> can_read_path_with_cwd fv p (render_absolute (resolved_path e)) cwd"
      using resolve_access_at[OF assms(2) resolve_candidate_render[OF ne]] access_at_governs[OF governs_self[OF e(1)]] e(2)
      by (simp add: can_read_path_with_cwd_def)
    have "normalize_effective_absolute_path fv (resolved_path e) = resolved_path e"
      using assms(3) ne by (simp add: no_aliases_def)
    then have "resolved_path e \<in> set ?roots"
      using ees(1) e(2,3) nr assms(2)
      by (auto simp: get_unreadable_roots_with_cwd_def dedup_absolute_paths_def set_dedup_loop Let_def
          intro!: rev_image_eqI[of "resolved_path e"] imageI)
    moreover have "normal_path t" using assms(5) normalized_components_normal by simp
    ultimately have d: "prefix (path_components (render_absolute (resolved_path e))) (path_components (render_absolute t))"
      "normalized_and_canonical_candidates fv (render_absolute (resolved_path e)) \<in> set (denied_candidates ?m)"
      using ees(2) by (simp_all add: path_components_render ne)
    have "list_ex (\<lambda>denied. list_ex (\<lambda>candidate. list_ex (\<lambda>d.
        path_components candidate = path_components d \<or>
        prefix (path_components d) (path_components candidate)) denied) (normalized_and_canonical_candidates fv path))
        (denied_candidates ?m)"
      unfolding list_ex_iff using d candidates_normal[OF ne, of fv] ct by blast
    then show ?thesis by (simp only: is_read_denied_def Let_def if_True simp_thms split: if_split)
  next
    assume "\<exists>q\<in>set ?globs. case build_deny_glob eng q of None \<Rightarrow> True | Some g \<Rightarrow> deny_glob_matches eng g (render_absolute t)"
    then have "invalid \<or> (\<exists>g\<in>set gs. deny_glob_matches eng g (render_absolute t))"
      using b(2) by (auto split: option.splits)
    then show ?thesis using ct by (auto simp: is_read_denied_def Let_def list_ex_iff)
  qed
  with m show ?thesis by blast
qed

lemma read_deny_matcher_total:
  "\<exists>m. read_deny_matcher_new fv eng p cwd = Some m \<and> (m = None \<longleftrightarrow> \<not> has_denied_read_restrictions p)"
proof -
  obtain gs invalid where "build_matchers eng FailClosed (get_unreadable_globs_with_cwd fv p cwd) = Inr (gs, invalid)"
    using build_matchers_FailClosed[of eng "get_unreadable_globs_with_cwd fv p cwd"] by blast
  then show ?thesis by (simp add: read_deny_matcher_new_def build_matcher_def Let_def)
qed

text \<open>
  C22 Denied reads are enforced. The matcher is built for every policy without a panic, and is there exactly
  when the policy has denied reads. Where no path goes through a symbolic link, the matcher of a restricted policy refuses every absolute path whose governing entry denies it,
  unless that entry is for the file system root, and every
  path that a deny pattern matches; a pattern that cannot be compiled makes it refuse everything.
\<close>
theorem denied_reads_enforced:
  "\<exists>m. read_deny_matcher_new fv eng p cwd = Some m \<and> (m = None \<longleftrightarrow> \<not> has_denied_read_restrictions p) \<and>
     (wf_policy p \<and> policy_kind p = RestrictedKind \<and> no_aliases fv \<and> path_is_absolute path \<and> t = normalized_components path \<and>
      ((\<exists>e. governs (resolved_entries_with_cwd fv p cwd) t e \<and> resolved_access e = AccessDeny \<and> resolved_path e \<noteq> []) \<or>
       (\<exists>q\<in>set (get_unreadable_globs_with_cwd fv p cwd).
          case build_deny_glob eng q of None \<Rightarrow> True | Some g \<Rightarrow> deny_glob_matches eng g (render_absolute t))) \<longrightarrow>
      (\<exists>d. m = Some d \<and> is_read_denied fv eng d path))"
proof -
  obtain m where m: "read_deny_matcher_new fv eng p cwd = Some m" "m = None \<longleftrightarrow> \<not> has_denied_read_restrictions p"
    using read_deny_matcher_total[of fv eng p cwd] by blast
  show ?thesis
    using denied_reads_refused[of p fv path t cwd eng] m by (intro exI[of _ m] conjI impI) (auto simp: m(1))
qed

section \<open>Well-formedness is kept\<close>

lemma push_missing_subset: "set (push_missing new es) \<subseteq> set es \<union> set new"
  unfolding push_missing_def by (induction new arbitrary: es) (auto split: if_splits, force+)

lemma wf_policy_subset:
  "(\<And>e. e \<in> set (policy_entries q) \<Longrightarrow> e \<in> set (policy_entries p) \<or> wf_path (entry_path e)) \<Longrightarrow> wf_policy p \<Longrightarrow> wf_policy q"
  by (auto simp: wf_policy_def list_all_iff)

lemma protect_root_wf: "wf_policy p \<Longrightarrow> wf_policy (p\<lparr>policy_entries := protect_root fv b r (policy_entries p)\<rparr>)"
  by (rule wf_policy_subset) (auto dest: protect_root_paths)

lemma protect_legacy_roots_paths:
  "e \<in> set (protect_legacy_roots fv cwd roots es) \<Longrightarrow> e \<in> set es \<or> wf_path (entry_path e)"
  by (auto simp: protect_legacy_roots_def Let_def split: option.splits dest!: fold_protect_root_paths protect_root_paths)

lemma add_legacy_writable_root_wf: "wf_policy p \<Longrightarrow> normal_path r \<Longrightarrow> wf_policy (add_legacy_writable_root fv r p)"
  by (auto simp: add_legacy_writable_root_def Let_def new_entry_def intro!: protect_root_wf push_entry_wf)

lemma fold_wf: "(\<And>x q. x \<in> set xs \<Longrightarrow> wf_policy q \<Longrightarrow> wf_policy (f x q)) \<Longrightarrow> wf_policy p \<Longrightarrow> wf_policy (fold f xs p)"
  by (induction xs arbitrary: p) auto

fun legacy_roots :: "legacy_policy \<Rightarrow> abs_path list" where
  "legacy_roots (WorkspaceWrite roots _ _ _) = roots"
| "legacy_roots _ = []"

lemma from_legacy_wf:
  assumes "list_all normal_path (legacy_roots l)"
  shows "wf_policy (from_legacy_sandbox_policy_for_cwd fv l cwd)"
proof (cases l)
  case (WorkspaceWrite roots n a b)
  then have "wf_policy (workspace_write fv roots a b)" using assms workspace_write_wf by simp
  then show ?thesis
    by (rule wf_policy_subset[rotated])
      (auto simp: WorkspaceWrite from_legacy_sandbox_policy_for_cwd_def Let_def dest: protect_legacy_roots_paths)
qed (simp_all add: from_legacy_sandbox_policy_for_cwd_def wf_policy_def unrestricted_def external_sandbox_def restricted_def
    new_entry_def)

lemma materialize_roots_wf:
  assumes "wf_policy p" "list_all normal_path roots"
  shows "wf_policy (materialize_project_roots_with_workspace_roots fv roots p)"
proof -
  have "wf_path (entry_path x)" if "x \<in> set (materialize_entry_with_roots fv roots e)" "wf_path (entry_path e)" for e x
    using that assms(2)
    by (auto simp: materialize_entry_with_roots_def list_all_iff[of normal_path] resolve_path_against_base_normal
        split: file_system_path.splits special_path.splits option.splits)
  then show ?thesis using assms(1)
    by (fastforce simp: wf_policy_def materialize_project_roots_with_workspace_roots_def list_all_iff)
qed

text \<open>
  Every operation that builds or changes a policy keeps the paths in it absolute and normalised, for
  any state of the file system and any current directory.
\<close>
theorem policies_stay_normalized:
  assumes "wf_policy p" "wf_policy existing" "list_all normal_path roots" "list_all normal_path (legacy_roots l)"
  shows "wf_policy (from_legacy_sandbox_policy_for_cwd fv l cwd) \<and>
    wf_policy (from_legacy_sandbox_policy_preserving_deny_entries fv l cwd existing) \<and>
    wf_policy (preserve_deny_read_restrictions_from existing p) \<and>
    wf_policy (materialize_project_roots_with_cwd fv cwd p) \<and>
    wf_policy (materialize_project_roots_with_workspace_roots fv roots p) \<and>
    wf_policy (with_materialized_project_roots_for_workspace_roots fv roots p) \<and>
    wf_policy (with_additional_readable_roots fv cwd roots p) \<and>
    wf_policy (with_additional_writable_roots fv cwd roots p) \<and>
    wf_policy (with_additional_legacy_workspace_writable_roots fv roots p) \<and>
    wf_policy (remove_skip_missing_path_entries p)"
proof (intro conjI)
  have n: "normal_path r" if "r \<in> set roots" for r using assms(3) that by (auto simp: list_all_iff)
  show l: "wf_policy (from_legacy_sandbox_policy_for_cwd fv l cwd)" by (rule from_legacy_wf[OF assms(4)])
  have d: "wf_path (entry_path e)" if "e \<in> set (deny_entries existing)" for e
    using assms(2) that by (auto simp: deny_entries_def wf_policy_def list_all_iff)
  show "wf_policy (from_legacy_sandbox_policy_preserving_deny_entries fv l cwd existing)"
  proof (rule wf_policy_subset[OF _ l])
    fix e
    assume "e \<in> set (policy_entries (from_legacy_sandbox_policy_preserving_deny_entries fv l cwd existing))"
    then show "e \<in> set (policy_entries (from_legacy_sandbox_policy_for_cwd fv l cwd)) \<or> wf_path (entry_path e)"
      using d[of e] push_missing_subset[of "deny_entries existing" "policy_entries (from_legacy_sandbox_policy_for_cwd fv l cwd)"]
      by (auto simp: from_legacy_sandbox_policy_preserving_deny_entries_def Let_def split: if_splits)
  qed
  show "wf_policy (preserve_deny_read_restrictions_from existing p)"
  proof -
    let ?p = "if policy_kind p = UnrestrictedKind \<and> list_ex (\<lambda>e. entry_access e = AccessDeny) (policy_entries existing)
      then restricted [new_entry (SpecialPath Root) AccessWrite] else p"
    have "wf_policy ?p" using assms(1) by (simp add: wf_policy_def restricted_def new_entry_def)
    moreover have "e \<in> set (policy_entries (preserve_deny_read_restrictions_from existing p)) \<Longrightarrow>
        e \<in> set (policy_entries ?p) \<or> wf_path (entry_path e)" for e
      using d push_missing_subset[of "deny_entries existing" "policy_entries ?p"]
      by (auto simp: preserve_deny_read_restrictions_from_def Let_def split: if_splits)
    ultimately show ?thesis by (rule wf_policy_subset[rotated])
  qed
  show "wf_policy (materialize_project_roots_with_cwd fv cwd p)" by (rule materialized_wf[OF assms(1)])
  show m: "wf_policy (materialize_project_roots_with_workspace_roots fv roots p)" by (rule materialize_roots_wf[OF assms(1,3)])
  show "wf_policy (with_materialized_project_roots_for_workspace_roots fv roots p)"
    by (rule wf_policy_subset[OF _ assms(1)])
      (use push_missing_subset m in \<open>fastforce simp: with_materialized_project_roots_for_workspace_roots_def wf_policy_def list_all_iff\<close>)
  show "wf_policy (with_additional_readable_roots fv cwd roots p)"
    using assms(1) n by (auto simp: with_additional_readable_roots_def add_readable_root_def new_entry_def
        intro!: fold_wf push_entry_wf)
  show "wf_policy (with_additional_writable_roots fv cwd roots p)"
    using assms(1) n by (auto simp: with_additional_writable_roots_def add_writable_root_def new_entry_def
        intro!: fold_wf push_entry_wf)
  show "wf_policy (with_additional_legacy_workspace_writable_roots fv roots p)"
    using assms(1) n by (auto simp: with_additional_legacy_workspace_writable_roots_def
        intro!: fold_wf add_legacy_writable_root_wf)
  show "wf_policy (remove_skip_missing_path_entries p)"
    using assms(1) by (auto simp: remove_skip_missing_path_entries_def wf_policy_def list_all_iff)
qed

section \<open>Examples\<close>

definition example_view :: fs_view where
  "example_view =
     \<lparr>fv_env = \<lparr>home_dir = None, current_dir = Some (lit ''/'')\<rparr>, fv_tmpdir = None, fv_is_dir = (\<lambda>p. p = SLASH_TMP),
      fv_is_file = (\<lambda>_. False), fv_exists = (\<lambda>_. False), fv_read = (\<lambda>_. None), fv_symlink = (\<lambda>_. None),
      fv_canonicalize = (\<lambda>_. None)\<rparr>"

lemma example_no_aliases: "no_aliases example_view"
proof -
  have "find_map (normalize_through example_view q) xs = None" for q xs
    by (induction xs) (simp_all add: normalize_through_def example_view_def)
  then show ?thesis by (simp add: no_aliases_def normalize_effective_absolute_path_def)
qed

definition REPO :: abs_path where "REPO = [lit ''repo'']"

lemma example_cwd:
  "from_absolute_path (fv_env example_view) (lit ''/repo'') = Some REPO"
  "from_absolute_path (fv_env example_view) (lit ''/other'') = Some [lit ''other'']"
  by code_simp+

theorem full_disk_access_sound_witness:
  "can_write_path_with_cwd example_view
     (restricted [new_entry (SpecialPath Root) AccessWrite, new_entry (ConcretePath REPO) AccessRead,
                  new_entry (ConcretePath REPO) AccessWrite]) (lit ''/repo/a'') (lit ''/repo'')"
proof -
  let ?p = "restricted [new_entry (SpecialPath Root) AccessWrite, new_entry (ConcretePath REPO) AccessRead,
                  new_entry (ConcretePath REPO) AccessWrite]"
  have "wf_policy ?p" "has_full_disk_write_access ?p" "fv_is_dir example_view SLASH_TMP"
    "resolve_candidate_path (fv_env example_view) (lit ''/repo/a'') (lit ''/repo'') = Some [lit ''repo'', lit ''a'']"
    by code_simp+
  with full_disk_access_sound[OF _ example_cwd(1), of ?p] show ?thesis by blast
qed

theorem additional_writable_roots_effect_witness:
  "can_write_path_with_cwd example_view (with_additional_writable_roots example_view (lit ''/repo'') [REPO] read_only)
     (render_absolute REPO) (lit ''/repo'')"
proof -
  have h: "policy_kind read_only = RestrictedKind" "wf_policy read_only" "list_all normal_path [REPO]"
    "\<forall>e\<in>set (resolved_entries_with_cwd example_view read_only (lit ''/repo'')).
       resolved_path e \<in> set [REPO] \<longrightarrow> resolved_access e \<noteq> AccessDeny" by code_simp+
  from additional_writable_roots_effect[OF h] show ?thesis by simp
qed

theorem materialized_access_fixed_witness:
  "can_write_path_with_cwd example_view
     (materialize_project_roots_with_cwd example_view (lit ''/repo'')
        (restricted [new_entry (SpecialPath Root) AccessRead, new_entry (SpecialPath (ProjectRoots None)) AccessWrite]))
     (lit ''/repo/a'') (lit ''/other'')"
proof -
  let ?p = "restricted [new_entry (SpecialPath Root) AccessRead, new_entry (SpecialPath (ProjectRoots None)) AccessWrite]"
  have "wf_policy ?p" "path_is_absolute (lit ''/repo/a'')"
    "can_write_path_with_cwd example_view ?p (lit ''/repo/a'') (lit ''/repo'')" by code_simp+
  with materialized_access_fixed[OF _ _ example_cwd, of ?p] show ?thesis by blast
qed

theorem workspace_write_confined_witness:
  "can_read_path_with_cwd example_view (workspace_write example_view [[lit ''data'']] True True) (lit ''/repo/.git/config'') (lit ''/repo'') \<and>
   \<not> can_write_path_with_cwd example_view (workspace_write example_view [[lit ''data'']] True True) (lit ''/repo/.git/config'') (lit ''/repo'')"
proof -
  let ?t = "[lit ''repo'', lit ''.git'', lit ''config'']"
  have h: "list_all normal_path [[lit ''data'']]"
    "resolve_candidate_path (fv_env example_view) (lit ''/repo/.git/config'') (lit ''/repo'') = Some ?t" by code_simp+
  have L: "workspace_locations example_view [[lit ''data'']] True True REPO = {REPO, [lit ''data'']}"
    by (auto simp: workspace_locations_def)
  have m: "\<forall>l\<in>workspace_locations example_view [[lit ''data'']] True True REPO.
      \<forall>k\<in>workspace_locations example_view [[lit ''data'']] True True REPO. \<not> metadata_below k l"
    unfolding L by (auto simp: metadata_below_def REPO_def)
  have "metadata_below REPO ?t"
    by (simp add: metadata_below_def REPO_def PROTECTED_METADATA_PATH_NAMES_def GIT_NAME_def)
  then show ?thesis using workspace_write_confined[OF h(1) example_cwd(1) h(2) m] L by blast
qed

theorem writable_root_projection_sound_witness:
  "can_write_path_with_cwd example_view (workspace_write example_view [] True True) (render_absolute [lit ''repo'', lit ''a'']) (lit ''/repo'')"
proof -
  let ?p = "workspace_write example_view [] True True"
  let ?w = "hd (get_writable_roots_with_cwd example_view ?p (lit ''/repo''))"
  have g: "length (get_writable_roots_with_cwd example_view ?p (lit ''/repo'')) = 1"
    "is_path_writable ?w [lit ''repo'', lit ''a'']" "wf_policy ?p" "normal_path [lit ''repo'', lit ''a'']" by code_simp+
  then have "get_writable_roots_with_cwd example_view ?p (lit ''/repo'') = [?w]"
    by (cases "get_writable_roots_with_cwd example_view ?p (lit ''/repo'')") simp_all
  then have "?w \<in> set (get_writable_roots_with_cwd example_view ?p (lit ''/repo''))"
    "\<forall>w'\<in>set (get_writable_roots_with_cwd example_view ?p (lit ''/repo'')). prefix (wr_root w') [lit ''repo'', lit ''a''] \<longrightarrow>
       length (wr_root w') \<le> length (wr_root ?w)" by (metis list.set_intros(1), metis empty_iff list.set(1) order_refl set_ConsD)
  from writable_root_projection_sound[OF g(3) workspace_kind example_no_aliases g(4) this(1) g(2) this(2)] show ?thesis .
qed

theorem denied_reads_enforced_witness:
  "\<exists>m. read_deny_matcher_new example_view \<lparr>build_deny_glob = Some, deny_glob_matches = (=)\<rparr>
        (restricted [new_entry (SpecialPath Root) AccessRead, new_entry (GlobPath (lit ''/keys/id'')) AccessDeny]) (lit ''/repo'') = Some (Some m) \<and>
     is_read_denied example_view \<lparr>build_deny_glob = Some, deny_glob_matches = (=)\<rparr> m (lit ''/keys/./id'')"
proof -
  let ?p = "restricted [new_entry (SpecialPath Root) AccessRead, new_entry (GlobPath (lit ''/keys/id'')) AccessDeny]"
  have h: "wf_policy ?p" "policy_kind ?p = RestrictedKind" "path_is_absolute (lit ''/keys/./id'')"
    "\<exists>q\<in>set (get_unreadable_globs_with_cwd example_view ?p (lit ''/repo'')).
       q = render_absolute (normalized_components (lit ''/keys/./id''))" by code_simp+
  then have g: "\<exists>q\<in>set (get_unreadable_globs_with_cwd example_view ?p (lit ''/repo'')).
      case Some q of None \<Rightarrow> True | Some g \<Rightarrow> g = render_absolute (normalized_components (lit ''/keys/./id''))" by simp
  show ?thesis
    using denied_reads_enforced[of example_view "\<lparr>build_deny_glob = Some, deny_glob_matches = (=)\<rparr>" ?p "lit ''/repo''"
        "lit ''/keys/./id''" "normalized_components (lit ''/keys/./id'')"] h(1,2,3) g example_no_aliases
    by auto
qed

theorem policies_stay_normalized_witness:
  "wf_policy (with_additional_legacy_workspace_writable_roots example_view [REPO] read_only)"
proof -
  have "wf_policy read_only" "list_all normal_path [REPO]" "list_all normal_path (legacy_roots DangerFullAccess)" by code_simp+
  from policies_stay_normalized[OF this(1,1,2,3)] show ?thesis by blast
qed

section \<open>Corner cases\<close>

text \<open>
  Without \<open>/tmp\<close> the symbolic entry for it is dropped, so it does not override the literal one, and the
  flag for full disk write access is set although \<open>/tmp\<close> cannot be written.
\<close>

lemma missing_slash_tmp:
  "has_full_disk_write_access (restricted [new_entry (SpecialPath Root) AccessWrite, new_entry (ConcretePath SLASH_TMP) AccessRead,
      new_entry (SpecialPath SlashTmp) AccessWrite]) \<and>
   \<not> can_write_path_with_cwd (example_view\<lparr>fv_is_dir := (\<lambda>_. False)\<rparr>)
      (restricted [new_entry (SpecialPath Root) AccessWrite, new_entry (ConcretePath SLASH_TMP) AccessRead,
        new_entry (SpecialPath SlashTmp) AccessWrite]) (lit ''/tmp/a'') (lit ''/repo'')"
  by code_simp

text \<open>
  Only the first writable entry that has the target below its metadata is consulted: with a writable
  place inside the metadata of another, the order of the two entries decides.
\<close>

lemma metadata_rule_depends_on_order:
  "can_write_path_with_cwd example_view
     (restricted [new_entry (ConcretePath REPO) AccessWrite,
        new_entry (ConcretePath [lit ''repo'', lit ''.git'', lit ''work'']) AccessWrite])
     (lit ''/repo/.git/work/.codex/a'') (lit ''/repo'') \<and>
   \<not> can_write_path_with_cwd example_view
     (restricted [new_entry (ConcretePath [lit ''repo'', lit ''.git'', lit ''work'']) AccessWrite,
        new_entry (ConcretePath REPO) AccessWrite])
     (lit ''/repo/.git/work/.codex/a'') (lit ''/repo'')"
  by code_simp

text \<open>The matcher for denied reads refuses a subtree that a more specific entry of the policy opens again.\<close>

lemma read_matcher_refuses_reopened_subtree:
  "can_read_path_with_cwd example_view
     (restricted [new_entry (ConcretePath REPO) AccessDeny, new_entry (ConcretePath [lit ''repo'', lit ''doc'']) AccessRead])
     (lit ''/repo/doc/a'') (lit ''/repo'') \<and>
   is_read_denied example_view \<lparr>build_deny_glob = Some, deny_glob_matches = (=)\<rparr>
     (the (the (read_deny_matcher_new example_view \<lparr>build_deny_glob = Some, deny_glob_matches = (=)\<rparr>
       (restricted [new_entry (ConcretePath REPO) AccessDeny, new_entry (ConcretePath [lit ''repo'', lit ''doc'']) AccessRead])
       (lit ''/repo''))))
     (lit ''/repo/doc/a'')"
  by code_simp

end
