(* ===== verification/PermProfile.thy ===== *)
theory PermProfile
  imports FsSandbox
begin

text \<open>
  Permission profiles and how a sandbox is chosen (\<open>PermissionProfile\<close>, \<open>AdditionalPermissionProfile\<close> and
  \<open>SandboxPermissions\<close> in protocol/src/models.rs, sandboxing/src/policy\_transforms.rs, and the selection in
  sandboxing/src/manager.rs): the bridge between profiles and policies, the merge and the intersection of
  permissions granted on request, the effective profile of one command. What an intersection opens is
  traced back to request and grant, an effective profile keeps every denial, and a profile with a denial always asks for a sandbox.
\<close>

section \<open>Permission profiles\<close>

datatype sandbox_permissions = UseDefault | RequireEscalated | WithAdditionalPermissions

fun requires_escalated_permissions :: "sandbox_permissions \<Rightarrow> bool" where
  "requires_escalated_permissions RequireEscalated = True"
| "requires_escalated_permissions _ = False"

fun requests_sandbox_override :: "sandbox_permissions \<Rightarrow> bool" where
  "requests_sandbox_override UseDefault = False"
| "requests_sandbox_override _ = True"

fun uses_additional_permissions :: "sandbox_permissions \<Rightarrow> bool" where
  "uses_additional_permissions WithAdditionalPermissions = True"
| "uses_additional_permissions _ = False"

text \<open>\<open>NonZeroUsize::new\<close>\<close>

definition non_zero :: "nat \<Rightarrow> nat option" where
  "non_zero n = (if n = 0 then None else Some n)"

record file_system_permissions =
  perm_entries :: "sandbox_entry list"
  perm_glob_scan_max_depth :: "nat option"

definition file_system_permissions_is_empty :: "file_system_permissions \<Rightarrow> bool" where
  "file_system_permissions_is_empty f \<longleftrightarrow> perm_entries f = []"

definition from_read_write_roots :: "abs_path list option \<Rightarrow> abs_path list option \<Rightarrow> file_system_permissions" where
  "from_read_write_roots read_roots write_roots =
     \<lparr>perm_entries =
        (case read_roots of None \<Rightarrow> [] | Some ps \<Rightarrow> map (\<lambda>p. new_entry (ConcretePath p) AccessRead) ps)
        @ (case write_roots of None \<Rightarrow> [] | Some ps \<Rightarrow> map (\<lambda>p. new_entry (ConcretePath p) AccessWrite) ps),
      perm_glob_scan_max_depth = None\<rparr>"

record legacy_read_write_roots =
  legacy_read :: "abs_path list option"
  legacy_write :: "abs_path list option"

fun split_legacy_roots :: "sandbox_entry list \<Rightarrow> (abs_path list \<times> abs_path list) option" where
  "split_legacy_roots [] = Some ([], [])"
| "split_legacy_roots (e # es) =
     (case entry_path e of
        ConcretePath p \<Rightarrow>
          (case entry_access e of
             AccessRead \<Rightarrow> map_option (\<lambda>(rs, ws). (p # rs, ws)) (split_legacy_roots es)
           | AccessWrite \<Rightarrow> map_option (\<lambda>(rs, ws). (rs, p # ws)) (split_legacy_roots es)
           | AccessDeny \<Rightarrow> None)
      | _ \<Rightarrow> None)"

definition as_legacy_permissions :: "file_system_permissions \<Rightarrow> legacy_read_write_roots option" where
  "as_legacy_permissions f =
     (if perm_glob_scan_max_depth f \<noteq> None then None
      else map_option (\<lambda>(rs, ws).
             \<lparr>legacy_read = (if rs = [] then None else Some rs), legacy_write = (if ws = [] then None else Some ws)\<rparr>)
             (split_legacy_roots (perm_entries f)))"

text \<open>\<open>NetworkPermissions\<close> has the one field \<open>enabled\<close>.\<close>

record network_permissions =
  net_enabled :: "bool option"

definition network_permissions_is_empty :: "network_permissions \<Rightarrow> bool" where
  "network_permissions_is_empty n \<longleftrightarrow> net_enabled n = None"

record additional_permissions =
  add_network :: "network_permissions option"
  add_file_system :: "file_system_permissions option"

definition additional_permissions_is_empty :: "additional_permissions \<Rightarrow> bool" where
  "additional_permissions_is_empty a \<longleftrightarrow> add_network a = None \<and> add_file_system a = None"

datatype sandbox_enforcement = EnforceManaged | EnforceDisabled | EnforceExternal

fun enforcement_from_legacy :: "legacy_policy \<Rightarrow> sandbox_enforcement" where
  "enforcement_from_legacy DangerFullAccess = EnforceDisabled"
| "enforcement_from_legacy (ExternalSandbox _) = EnforceExternal"
| "enforcement_from_legacy (ReadOnly _) = EnforceManaged"
| "enforcement_from_legacy (WorkspaceWrite _ _ _ _) = EnforceManaged"

datatype managed_file_system =
    ManagedRestricted "sandbox_entry list" "nat option"
  | ManagedUnrestricted

text \<open>The \<open>unreachable!\<close> for an external policy is \<open>None\<close>.\<close>

definition managed_from_sandbox_policy :: "sandbox_policy \<Rightarrow> managed_file_system option" where
  "managed_from_sandbox_policy p =
     (case policy_kind p of
        RestrictedKind \<Rightarrow> Some (ManagedRestricted (policy_entries p) (Option.bind (glob_scan_max_depth p) non_zero))
      | UnrestrictedKind \<Rightarrow> Some ManagedUnrestricted
      | ExternalSandboxKind \<Rightarrow> None)"

fun managed_to_sandbox_policy :: "managed_file_system \<Rightarrow> sandbox_policy" where
  "managed_to_sandbox_policy (ManagedRestricted es d) =
     \<lparr>policy_kind = RestrictedKind, glob_scan_max_depth = d, policy_entries = es\<rparr>"
| "managed_to_sandbox_policy ManagedUnrestricted = unrestricted"

datatype permission_profile =
    ManagedProfile managed_file_system network_access
  | DisabledProfile
  | ExternalProfile network_access

fun profile_enforcement :: "permission_profile \<Rightarrow> sandbox_enforcement" where
  "profile_enforcement (ManagedProfile _ _) = EnforceManaged"
| "profile_enforcement DisabledProfile = EnforceDisabled"
| "profile_enforcement (ExternalProfile _) = EnforceExternal"

fun file_system_sandbox_policy :: "permission_profile \<Rightarrow> sandbox_policy" where
  "file_system_sandbox_policy (ManagedProfile f _) = managed_to_sandbox_policy f"
| "file_system_sandbox_policy DisabledProfile = unrestricted"
| "file_system_sandbox_policy (ExternalProfile _) = external_sandbox"

fun network_sandbox_policy :: "permission_profile \<Rightarrow> network_access" where
  "network_sandbox_policy (ManagedProfile _ n) = n"
| "network_sandbox_policy (ExternalProfile n) = n"
| "network_sandbox_policy DisabledProfile = NetworkEnabled"

definition to_runtime_permissions :: "permission_profile \<Rightarrow> sandbox_policy \<times> network_access" where
  "to_runtime_permissions p = (file_system_sandbox_policy p, network_sandbox_policy p)"

definition from_runtime_permissions_with_enforcement ::
  "sandbox_enforcement \<Rightarrow> sandbox_policy \<Rightarrow> network_access \<Rightarrow> permission_profile option" where
  "from_runtime_permissions_with_enforcement enf p n =
     (if policy_kind p = ExternalSandboxKind then Some (ExternalProfile n)
      else if policy_kind p = UnrestrictedKind \<and> enf = EnforceDisabled then Some DisabledProfile
      else map_option (\<lambda>f. ManagedProfile f n) (managed_from_sandbox_policy p))"

definition from_runtime_permissions :: "sandbox_policy \<Rightarrow> network_access \<Rightarrow> permission_profile option" where
  "from_runtime_permissions p n =
     from_runtime_permissions_with_enforcement
       (case policy_kind p of
          RestrictedKind \<Rightarrow> EnforceManaged | UnrestrictedKind \<Rightarrow> EnforceManaged | ExternalSandboxKind \<Rightarrow> EnforceExternal) p n"

definition profile_from_legacy :: "fs_view \<Rightarrow> legacy_policy \<Rightarrow> permission_profile option" where
  "profile_from_legacy fv l =
     from_runtime_permissions_with_enforcement (enforcement_from_legacy l) (policy_from_legacy fv l)
       (network_policy_from_legacy l)"

definition profile_from_legacy_for_cwd :: "fs_view \<Rightarrow> legacy_policy \<Rightarrow> str \<Rightarrow> permission_profile option" where
  "profile_from_legacy_for_cwd fv l cwd =
     from_runtime_permissions_with_enforcement (enforcement_from_legacy l)
       (from_legacy_sandbox_policy_for_cwd fv l cwd) (network_policy_from_legacy l)"

fun profile_to_legacy :: "fs_view \<Rightarrow> permission_profile \<Rightarrow> str \<Rightarrow> legacy_error + legacy_policy" where
  "profile_to_legacy fv (ManagedProfile f n) cwd = to_legacy_sandbox_policy fv (managed_to_sandbox_policy f) n cwd"
| "profile_to_legacy fv DisabledProfile cwd = Inr DangerFullAccess"
| "profile_to_legacy fv (ExternalProfile n) cwd =
     Inr (ExternalSandbox (if network_enabled n then NetworkEnabled else NetworkRestricted))"

definition profile_read_only :: "permission_profile option" where
  "profile_read_only = map_option (\<lambda>f. ManagedProfile f NetworkRestricted) (managed_from_sandbox_policy read_only)"

definition profile_workspace_write_with ::
  "fs_view \<Rightarrow> abs_path list \<Rightarrow> network_access \<Rightarrow> bool \<Rightarrow> bool \<Rightarrow> permission_profile option" where
  "profile_workspace_write_with fv writable_roots n exclude_tmpdir exclude_slash =
     map_option (\<lambda>f. ManagedProfile f n)
       (managed_from_sandbox_policy (workspace_write fv writable_roots exclude_tmpdir exclude_slash))"

definition profile_workspace_write :: "fs_view \<Rightarrow> permission_profile option" where
  "profile_workspace_write fv = profile_workspace_write_with fv [] NetworkRestricted False False"

fun profile_materialize_project_roots :: "fs_view \<Rightarrow> permission_profile \<Rightarrow> abs_path list \<Rightarrow> permission_profile option" where
  "profile_materialize_project_roots fv (ManagedProfile f n) workspace_roots =
     map_option (\<lambda>f. ManagedProfile f n)
       (managed_from_sandbox_policy
         (materialize_project_roots_with_workspace_roots fv workspace_roots (managed_to_sandbox_policy f)))"
| "profile_materialize_project_roots fv DisabledProfile workspace_roots = Some DisabledProfile"
| "profile_materialize_project_roots fv (ExternalProfile n) workspace_roots = Some (ExternalProfile n)"

section \<open>Additional permissions\<close>

text \<open>\<open>normalize_additional_permissions\<close>, entry by entry; the list is the vector built so far.\<close>

definition normalize_permission_path :: "fs_view \<Rightarrow> file_system_path \<Rightarrow> file_system_path" where
  "normalize_permission_path fv p =
     (case p of
        ConcretePath q \<Rightarrow>
          ConcretePath (case Option.bind (canonicalize_preserving_symlinks fv (render_absolute q))
                               (\<lambda>c. from_absolute_path (fv_env fv) (render_absolute c)) of
                          Some c \<Rightarrow> c | None \<Rightarrow> q)
      | GlobPath g \<Rightarrow> GlobPath g
      | SpecialPath v \<Rightarrow> SpecialPath v)"

definition GLOB_ACCESS_MESSAGE :: str where
  "GLOB_ACCESS_MESSAGE = lit ''glob file system permissions only support deny-read entries''"

fun normalize_permission_entries ::
  "fs_view \<Rightarrow> sandbox_entry list \<Rightarrow> sandbox_entry list \<Rightarrow> str + sandbox_entry list" where
  "normalize_permission_entries fv acc [] = Inr acc"
| "normalize_permission_entries fv acc (e # es) =
     (if (case entry_path e of GlobPath _ \<Rightarrow> True | _ \<Rightarrow> False) \<and> entry_access e \<noteq> AccessDeny
      then Inl GLOB_ACCESS_MESSAGE
      else (let normalized_entry = e\<lparr>entry_path := normalize_permission_path fv (entry_path e)\<rparr>
            in normalize_permission_entries fv
                 (if normalized_entry \<in> set acc then acc else acc @ [normalized_entry]) es))"

definition normalize_additional_permissions ::
  "fs_view \<Rightarrow> additional_permissions \<Rightarrow> str + additional_permissions" where
  "normalize_additional_permissions fv a =
     (let network = Option.bind (add_network a) (\<lambda>n. if network_permissions_is_empty n then None else Some n)
      in case add_file_system a of
           None \<Rightarrow> Inr \<lparr>add_network = network, add_file_system = None\<rparr>
         | Some f \<Rightarrow>
             (case normalize_permission_entries fv [] (perm_entries f) of
                Inl e \<Rightarrow> Inl e
              | Inr entries \<Rightarrow>
                  (let f' = f\<lparr>perm_entries := entries\<rparr>
                   in Inr \<lparr>add_network = network,
                           add_file_system = (if file_system_permissions_is_empty f' then None else Some f')\<rparr>)))"

datatype glob_scan_depth = BoundedDepth nat | UnboundedDepth

definition denies_glob :: "sandbox_entry \<Rightarrow> bool" where
  "denies_glob e \<longleftrightarrow> entry_access e = AccessDeny \<and> (case entry_path e of GlobPath _ \<Rightarrow> True | _ \<Rightarrow> False)"

definition effective_glob_scan_depth :: "sandbox_entry list \<Rightarrow> nat option \<Rightarrow> glob_scan_depth option" where
  "effective_glob_scan_depth es depth =
     (if list_ex denies_glob es
      then Some (case depth of Some d \<Rightarrow> BoundedDepth d | None \<Rightarrow> UnboundedDepth) else None)"

definition merge_glob_scan_max_depth ::
  "sandbox_entry list \<Rightarrow> nat option \<Rightarrow> sandbox_entry list \<Rightarrow> nat option \<Rightarrow> nat option" where
  "merge_glob_scan_max_depth les ldepth res rdepth =
     (case (effective_glob_scan_depth les ldepth, effective_glob_scan_depth res rdepth) of
        (Some UnboundedDepth, _) \<Rightarrow> None
      | (_, Some UnboundedDepth) \<Rightarrow> None
      | (Some (BoundedDepth l), Some (BoundedDepth r)) \<Rightarrow> Some (max l r)
      | (Some (BoundedDepth d), None) \<Rightarrow> Some d
      | (None, Some (BoundedDepth d)) \<Rightarrow> Some d
      | (None, None) \<Rightarrow> None)"

definition merge_permission_entries :: "sandbox_entry list \<Rightarrow> sandbox_entry list \<Rightarrow> sandbox_entry list" where
  "merge_permission_entries base permissions = push_missing (base @ permissions) []"

definition keep_nonempty :: "additional_permissions \<Rightarrow> additional_permissions option" where
  "keep_nonempty a = (if additional_permissions_is_empty a then None else Some a)"

definition network_is_enabled :: "network_permissions option \<Rightarrow> bool" where
  "network_is_enabled n \<longleftrightarrow> n = Some \<lparr>net_enabled = Some True\<rparr>"

definition merge_permission_profiles ::
  "additional_permissions option \<Rightarrow> additional_permissions option \<Rightarrow> additional_permissions option" where
  "merge_permission_profiles base permissions =
     (case permissions of
        None \<Rightarrow> base
      | Some p \<Rightarrow>
          (case base of
             None \<Rightarrow> keep_nonempty p
           | Some b \<Rightarrow>
               (let network = (if network_is_enabled (add_network b) \<or> network_is_enabled (add_network p)
                               then Some \<lparr>net_enabled = Some True\<rparr> else None);
                    file_system = (case (add_file_system b, add_file_system p) of
                        (Some bf, Some pf) \<Rightarrow>
                          (let f = \<lparr>perm_entries = merge_permission_entries (perm_entries bf) (perm_entries pf),
                                    perm_glob_scan_max_depth = Option.bind
                                      (merge_glob_scan_max_depth (perm_entries bf) (perm_glob_scan_max_depth bf)
                                         (perm_entries pf) (perm_glob_scan_max_depth pf)) non_zero\<rparr>
                           in if file_system_permissions_is_empty f then None else Some f)
                      | (Some bf, None) \<Rightarrow> Some bf
                      | (None, Some pf) \<Rightarrow> Some pf
                      | (None, None) \<Rightarrow> None)
                in keep_nonempty \<lparr>add_network = network, add_file_system = file_system\<rparr>)))"

section \<open>What was granted of a request\<close>

fun resolve_permission_path :: "fs_view \<Rightarrow> file_system_path \<Rightarrow> str \<Rightarrow> abs_path option" where
  "resolve_permission_path fv (ConcretePath p) cwd = Some p"
| "resolve_permission_path fv (GlobPath g) cwd = None"
| "resolve_permission_path fv (SpecialPath v) cwd =
     (case v of
        Root \<Rightarrow> from_absolute_path (fv_env fv) (if path_is_absolute cwd then [47] else [])
      | ProjectRoots subpath \<Rightarrow>
          (case from_absolute_path (fv_env fv) cwd of
             None \<Rightarrow> None
           | Some cwd \<Rightarrow>
               Some (case subpath of Some subpath \<Rightarrow> resolve_path_against_base (fv_env fv) subpath cwd | None \<Rightarrow> cwd))
      | Tmpdir \<Rightarrow>
          (case fv_tmpdir fv of
             None \<Rightarrow> None
           | Some tmpdir \<Rightarrow> if tmpdir = [] then None else from_absolute_path (fv_env fv) tmpdir)
      | SlashTmp \<Rightarrow> if fv_is_dir fv SLASH_TMP then Some SLASH_TMP else None
      | Minimal \<Rightarrow> None
      | UnknownPath _ _ \<Rightarrow> None)"

fun access_covers :: "access_mode \<Rightarrow> access_mode \<Rightarrow> bool" where
  "access_covers requested AccessRead = can_read requested"
| "access_covers requested AccessWrite = can_write requested"
| "access_covers requested AccessDeny = False"

definition materialize_cwd_dependent_entry :: "fs_view \<Rightarrow> str \<Rightarrow> sandbox_entry \<Rightarrow> sandbox_entry" where
  "materialize_cwd_dependent_entry fv cwd e =
     (case entry_path e of
        SpecialPath (ProjectRoots _) \<Rightarrow>
          (case resolve_permission_path fv (entry_path e) cwd of
             Some path \<Rightarrow> e\<lparr>entry_path := ConcretePath path\<rparr>
           | None \<Rightarrow> e)
      | GlobPath pattern \<Rightarrow> e\<lparr>entry_path := GlobPath (resolve_text_against_base (fv_env fv) pattern cwd)\<rparr>
      | _ \<Rightarrow> e)"

definition paths_overlap :: "abs_path \<Rightarrow> abs_path \<Rightarrow> bool" where
  "paths_overlap l r \<longleftrightarrow> path_starts_with l r \<or> path_starts_with r l"

text \<open>\<open>Path::parent\<close> on a text in normal form.\<close>

definition path_text_parent :: "str \<Rightarrow> str option" where
  "path_text_parent p =
     (let cs = path_normal_parts p
      in if cs = [] then None
         else Some (if path_is_absolute p then render_absolute (butlast cs) else join [47] (butlast cs)))"

definition glob_meta :: "uchar \<Rightarrow> bool" where
  "glob_meta c \<longleftrightarrow> c \<in> set (lit ''*?[]'')"

definition glob_static_prefix_path :: "fs_view \<Rightarrow> str \<Rightarrow> str \<Rightarrow> abs_path option" where
  "glob_static_prefix_path fv pattern cwd =
     (let resolved_pattern = resolve_text_against_base (fv_env fv) pattern cwd;
          pre = takeWhile (\<lambda>c. \<not> glob_meta c) resolved_pattern
      in if list_ex glob_meta resolved_pattern then
           (if pre = [] then None
            else if ends_with pre [47] \<or> ends_with pre [92] then from_absolute_path (fv_env fv) pre
            else (case path_text_parent pre of None \<Rightarrow> None | Some q \<Rightarrow> from_absolute_path (fv_env fv) q))
         else from_absolute_path (fv_env fv) resolved_pattern)"

definition deny_entry_constrains_accepted_grant ::
  "fs_view \<Rightarrow> str \<Rightarrow> sandbox_entry \<Rightarrow> sandbox_entry list \<Rightarrow> bool" where
  "deny_entry_constrains_accepted_grant fv cwd deny_entry accepted =
     list_ex (\<lambda>e.
       case resolve_permission_path fv (entry_path e) cwd of
         None \<Rightarrow> False
       | Some grant_path \<Rightarrow>
           (case entry_path deny_entry of
              GlobPath pattern \<Rightarrow>
                (case glob_static_prefix_path fv pattern cwd of
                   None \<Rightarrow> False | Some pre \<Rightarrow> paths_overlap pre grant_path)
            | _ \<Rightarrow>
                (case resolve_permission_path fv (entry_path deny_entry) cwd of
                   None \<Rightarrow> False | Some deny_path \<Rightarrow> paths_overlap deny_path grant_path)))
       (filter (\<lambda>e. can_read (entry_access e)) accepted)"

text \<open>The loop returns the output entries and the retained ones.\<close>

fun retain_constraining_deny_entries ::
  "fs_view \<Rightarrow> str \<Rightarrow> sandbox_entry list \<Rightarrow> sandbox_entry list \<Rightarrow> sandbox_entry list \<Rightarrow> sandbox_entry list \<times> sandbox_entry list" where
  "retain_constraining_deny_entries fv cwd [] accepted output = (output, [])"
| "retain_constraining_deny_entries fv cwd (e # source) accepted output =
     (if entry_access e = AccessDeny \<and> deny_entry_constrains_accepted_grant fv cwd e accepted then
        (let e' = materialize_cwd_dependent_entry fv cwd e;
             (out, kept) = retain_constraining_deny_entries fv cwd source accepted
               (if e' \<in> set output then output else output @ [e'])
         in (out, e' # kept))
      else retain_constraining_deny_entries fv cwd source accepted output)"

definition granted_file_system_entry_within_request ::
  "fs_view \<Rightarrow> 'g deny_globs \<Rightarrow> file_system_permissions \<Rightarrow> sandbox_policy \<Rightarrow> 'g read_deny_matcher option \<Rightarrow>
   sandbox_entry \<Rightarrow> str \<Rightarrow> bool" where
  "granted_file_system_entry_within_request fv eng requested requested_policy matcher granted_entry cwd =
     (if \<not> can_read (entry_access granted_entry) then False
      else (case resolve_permission_path fv (entry_path granted_entry) cwd of
              Some path \<Rightarrow>
                (if (case matcher of Some m \<Rightarrow> is_read_denied fv eng m (render_absolute path) | None \<Rightarrow> False) then False
                 else access_covers (resolve_access_with_cwd fv requested_policy (render_absolute path) cwd)
                        (entry_access granted_entry))
            | None \<Rightarrow>
                list_ex (\<lambda>requested_entry.
                    access_covers (entry_access requested_entry) (entry_access granted_entry) \<and>
                    entry_path requested_entry = entry_path granted_entry) (perm_entries requested)))"

definition accepted_grants ::
  "fs_view \<Rightarrow> 'g deny_globs \<Rightarrow> str \<Rightarrow> file_system_permissions \<Rightarrow> 'g read_deny_matcher option \<Rightarrow>
   sandbox_entry list \<Rightarrow> sandbox_entry list" where
  "accepted_grants fv eng cwd requested matcher granted =
     push_missing
       (map (materialize_cwd_dependent_entry fv cwd)
         (filter (\<lambda>e. granted_file_system_entry_within_request fv eng requested (restricted (perm_entries requested))
                        matcher e cwd) granted)) []"

definition intersect_file_system ::
  "fs_view \<Rightarrow> 'g deny_globs \<Rightarrow> str \<Rightarrow> file_system_permissions \<Rightarrow> file_system_permissions \<Rightarrow> 'g read_deny_matcher option \<Rightarrow>
   file_system_permissions" where
  "intersect_file_system fv eng cwd requested granted matcher =
     (let accepted = accepted_grants fv eng cwd requested matcher (perm_entries granted);
          (entries, requested_denies) = retain_constraining_deny_entries fv cwd (perm_entries requested) accepted accepted;
          (entries, granted_denies) = retain_constraining_deny_entries fv cwd (perm_entries granted) accepted entries
      in \<lparr>perm_entries = entries,
          perm_glob_scan_max_depth = Option.bind
            (merge_glob_scan_max_depth requested_denies (perm_glob_scan_max_depth requested)
               granted_denies (perm_glob_scan_max_depth granted)) non_zero\<rparr>)"

text \<open>The outer option is the panic of \<open>ReadDenyMatcher::new\<close>.\<close>

definition intersect_permission_profiles ::
  "fs_view \<Rightarrow> 'g deny_globs \<Rightarrow> additional_permissions \<Rightarrow> additional_permissions \<Rightarrow> str \<Rightarrow> additional_permissions option" where
  "intersect_permission_profiles fv eng requested granted cwd =
     (let network = (if network_is_enabled (add_network requested) \<and> network_is_enabled (add_network granted)
                     then Some \<lparr>net_enabled = Some True\<rparr> else None)
      in case add_file_system requested of
           None \<Rightarrow> Some \<lparr>add_network = network, add_file_system = None\<rparr>
         | Some rf \<Rightarrow>
             (let gf = (case add_file_system granted of
                          Some gf \<Rightarrow> gf | None \<Rightarrow> \<lparr>perm_entries = [], perm_glob_scan_max_depth = None\<rparr>)
              in case read_deny_matcher_new fv eng (restricted (perm_entries rf)) cwd of
                   None \<Rightarrow> None
                 | Some matcher \<Rightarrow>
                     (let f = intersect_file_system fv eng cwd rf gf matcher
                      in Some \<lparr>add_network = network,
                               add_file_system = (if file_system_permissions_is_empty f then None else Some f)\<rparr>)))"

section \<open>Effective permissions\<close>

definition merge_file_system_policy_with_additional_permissions ::
  "sandbox_policy \<Rightarrow> file_system_permissions \<Rightarrow> sandbox_policy" where
  "merge_file_system_policy_with_additional_permissions p f =
     (if policy_kind p = RestrictedKind then
        p\<lparr>policy_entries := push_missing (perm_entries f) (policy_entries p),
          glob_scan_max_depth := merge_glob_scan_max_depth (policy_entries p) (glob_scan_max_depth p)
             (perm_entries f) (perm_glob_scan_max_depth f)\<rparr>
      else p)"

definition effective_file_system_sandbox_policy :: "sandbox_policy \<Rightarrow> additional_permissions option \<Rightarrow> sandbox_policy" where
  "effective_file_system_sandbox_policy p additional =
     (case additional of
        None \<Rightarrow> p
      | Some a \<Rightarrow>
          (case add_file_system a of
             None \<Rightarrow> p
           | Some f \<Rightarrow>
               if file_system_permissions_is_empty f then p
               else merge_file_system_policy_with_additional_permissions p f))"

definition merge_network_access :: "bool \<Rightarrow> additional_permissions \<Rightarrow> bool" where
  "merge_network_access base a \<longleftrightarrow>
     base \<or> (case Option.bind (add_network a) net_enabled of Some b \<Rightarrow> b | None \<Rightarrow> False)"

definition effective_network_sandbox_policy :: "network_access \<Rightarrow> additional_permissions option \<Rightarrow> network_access" where
  "effective_network_sandbox_policy n additional =
     (case additional of
        None \<Rightarrow> n
      | Some a \<Rightarrow> if merge_network_access (network_enabled n) a then NetworkEnabled else NetworkRestricted)"

definition effective_permission_profile ::
  "permission_profile \<Rightarrow> additional_permissions option \<Rightarrow> permission_profile option" where
  "effective_permission_profile profile additional =
     (let (p, n) = to_runtime_permissions profile
      in from_runtime_permissions_with_enforcement (profile_enforcement profile)
           (effective_file_system_sandbox_policy p additional) (effective_network_sandbox_policy n additional))"

section \<open>Choosing a sandbox\<close>

datatype target_os = Macos | Linux | Windows | UnknownOs

datatype sandbox_type = NoSandbox | MacosSeatbelt | LinuxSeccomp | WindowsRestrictedToken

datatype sandboxable_preference = AutoPreference | RequirePreference | ForbidPreference

datatype windows_sandbox_level = WindowsDisabled | WindowsRestrictedTokenLevel | WindowsElevated

fun get_platform_sandbox :: "target_os \<Rightarrow> bool \<Rightarrow> sandbox_type option" where
  "get_platform_sandbox Macos windows_sandbox_enabled = Some MacosSeatbelt"
| "get_platform_sandbox Linux windows_sandbox_enabled = Some LinuxSeccomp"
| "get_platform_sandbox Windows windows_sandbox_enabled =
     (if windows_sandbox_enabled then Some WindowsRestrictedToken else None)"
| "get_platform_sandbox UnknownOs windows_sandbox_enabled = None"

definition should_require_platform_sandbox :: "sandbox_policy \<Rightarrow> network_access \<Rightarrow> bool \<Rightarrow> bool" where
  "should_require_platform_sandbox p n has_managed_network_requirements =
     (if has_managed_network_requirements then True
      else if \<not> network_enabled n then policy_kind p \<noteq> ExternalSandboxKind
      else (case policy_kind p of
              RestrictedKind \<Rightarrow> \<not> has_full_disk_write_access p
            | UnrestrictedKind \<Rightarrow> False
            | ExternalSandboxKind \<Rightarrow> False))"

definition should_sandbox :: "permission_profile \<Rightarrow> sandboxable_preference \<Rightarrow> bool \<Rightarrow> bool" where
  "should_sandbox profile pref managed_network =
     (case pref of
        ForbidPreference \<Rightarrow> False
      | RequirePreference \<Rightarrow> True
      | AutoPreference \<Rightarrow>
          (let (p, n) = to_runtime_permissions profile in should_require_platform_sandbox p n managed_network))"

definition select_initial ::
  "target_os \<Rightarrow> permission_profile \<Rightarrow> sandboxable_preference \<Rightarrow> windows_sandbox_level \<Rightarrow> bool \<Rightarrow> sandbox_type" where
  "select_initial os profile pref level managed_network =
     (if should_sandbox profile pref managed_network then
        (case get_platform_sandbox os (level \<noteq> WindowsDisabled) of Some s \<Rightarrow> s | None \<Rightarrow> NoSandbox)
      else NoSandbox)"

definition with_managed_mitm_ca_readable_root ::
  "fs_view \<Rightarrow> permission_profile \<Rightarrow> abs_path option \<Rightarrow> str \<Rightarrow> permission_profile option" where
  "with_managed_mitm_ca_readable_root fv profile bundle cwd =
     (case bundle of
        None \<Rightarrow> Some profile
      | Some path \<Rightarrow>
          (let (p, n) = to_runtime_permissions profile
           in from_runtime_permissions_with_enforcement (profile_enforcement profile)
                (with_additional_readable_roots fv cwd [path] p) n))"


section \<open>An intersection stays within the request and the grant\<close>

lemma resolve_permission_path_entry:
  "path_is_absolute cwd \<Longrightarrow>
   resolve_permission_path fv p cwd = resolve_entry_path fv p (from_absolute_path (fv_env fv) cwd)"
proof -
  assume a: "path_is_absolute cwd"
  have "from_absolute_path (fv_env fv) [47] = Some []"
    using from_absolute_path_render[of "[]" "fv_env fv"] by (simp add: render_absolute_def)
  then show ?thesis using a
    by (cases p) (auto simp: from_absolute_path_absolute resolve_entry_path_def
        split: special_path.splits option.splits)
qed

lemma materialized_resolves:
  assumes "path_is_absolute cwd" "path_is_absolute cwd'"
  shows "resolve_permission_path fv (entry_path (materialize_cwd_dependent_entry fv cwd e)) cwd' =
         resolve_permission_path fv (entry_path e) cwd"
proof (cases "entry_path e")
  case (SpecialPath v)
  then show ?thesis using assms
    by (cases v) (auto simp: materialize_cwd_dependent_entry_def from_absolute_path_absolute split: option.splits)
qed (simp_all add: materialize_cwd_dependent_entry_def)

lemma materialized_access [simp]:
  "entry_access (materialize_cwd_dependent_entry fv cwd e) = entry_access e"
  by (auto simp: materialize_cwd_dependent_entry_def split: file_system_path.splits special_path.splits option.splits)

lemma set_push_missing: "set (push_missing new es) = set es \<union> set new"
  by (induction new arbitrary: es) (auto simp: push_missing_def)

definition constraining :: "fs_view \<Rightarrow> str \<Rightarrow> sandbox_entry list \<Rightarrow> sandbox_entry list \<Rightarrow> sandbox_entry set" where
  "constraining fv cwd source accepted =
     {e\<in>set source. entry_access e = AccessDeny \<and> deny_entry_constrains_accepted_grant fv cwd e accepted}"

lemma constraining_Nil [simp]: "constraining fv cwd [] accepted = {}"
  by (simp add: constraining_def)

lemma constraining_Cons:
  "constraining fv cwd (e # source) accepted =
     (if entry_access e = AccessDeny \<and> deny_entry_constrains_accepted_grant fv cwd e accepted
      then insert e (constraining fv cwd source accepted) else constraining fv cwd source accepted)"
  by (auto simp: constraining_def)

lemma retained_entries:
  "set (fst (retain_constraining_deny_entries fv cwd source accepted es)) =
     set es \<union> materialize_cwd_dependent_entry fv cwd ` constraining fv cwd source accepted"
  by (induction source arbitrary: es) (auto simp: constraining_Cons Let_def case_prod_beta)

lemma intersect_file_system_entries:
  "set (perm_entries (intersect_file_system fv eng cwd rf gf m)) =
     set (accepted_grants fv eng cwd rf m (perm_entries gf)) \<union>
     materialize_cwd_dependent_entry fv cwd `
       (constraining fv cwd (perm_entries rf) (accepted_grants fv eng cwd rf m (perm_entries gf)) \<union>
        constraining fv cwd (perm_entries gf) (accepted_grants fv eng cwd rf m (perm_entries gf)))"
proof -
  let ?acc = "accepted_grants fv eng cwd rf m (perm_entries gf)"
  obtain es1 k1 where 1: "retain_constraining_deny_entries fv cwd (perm_entries rf) ?acc ?acc = (es1, k1)"
    by (cases "retain_constraining_deny_entries fv cwd (perm_entries rf) ?acc ?acc")
  obtain es2 k2 where 2: "retain_constraining_deny_entries fv cwd (perm_entries gf) ?acc es1 = (es2, k2)"
    by (cases "retain_constraining_deny_entries fv cwd (perm_entries gf) ?acc es1")
  show ?thesis
    using retained_entries[of fv cwd "perm_entries rf" ?acc ?acc] retained_entries[of fv cwd "perm_entries gf" ?acc es1]
    by (auto simp: intersect_file_system_def Let_def 1 2)
qed

lemma accepted_grant:
  "e \<in> set (accepted_grants fv eng cwd rf m gs) \<Longrightarrow>
   \<exists>g\<in>set gs. e = materialize_cwd_dependent_entry fv cwd g \<and>
     granted_file_system_entry_within_request fv eng rf (restricted (perm_entries rf)) m g cwd"
  by (auto simp: accepted_grants_def set_push_missing)

lemma constraining_overlap:
  assumes "e \<in> set accepted" "can_read (entry_access e)" "resolve_permission_path fv (entry_path e) cwd = Some r"
    and "d \<in> set source" "entry_access d = AccessDeny" "resolve_permission_path fv (entry_path d) cwd = Some q"
    and "prefix q r \<or> prefix r q"
  shows "d \<in> constraining fv cwd source accepted"
proof -
  have o: "paths_overlap q r" using assms(7) by (auto simp: paths_overlap_def path_starts_with_def)
  have "deny_entry_constrains_accepted_grant fv cwd d accepted"
    unfolding deny_entry_constrains_accepted_grant_def list_ex_iff
    by (rule bexI[of _ e]) (use assms o in \<open>cases "entry_path d"; simp\<close>)+
  then show ?thesis using assms by (simp add: constraining_def)
qed

text \<open>The restricted policy that a set of additional permissions describes.\<close>

definition permissions_policy :: "additional_permissions \<Rightarrow> sandbox_policy" where
  "permissions_policy a = restricted (case add_file_system a of None \<Rightarrow> [] | Some f \<Rightarrow> perm_entries f)"

lemma restricted_kind [simp]: "policy_kind (restricted es) = RestrictedKind"
  by (simp add: restricted_def)

lemma permissions_policy_kind [simp]: "policy_kind (permissions_policy a) = RestrictedKind"
  by (simp add: permissions_policy_def)

lemma covers_readable: "access_covers a b \<Longrightarrow> can_read a"
  by (cases a; cases b) simp_all

lemma intersection_file_system:
  assumes "intersect_permission_profiles fv eng req gr cwd = Some i" "policy_entries (permissions_policy i) \<noteq> []"
  shows "\<exists>rf gf m. policy_entries (permissions_policy req) = perm_entries rf \<and>
     policy_entries (permissions_policy gr) = perm_entries gf \<and>
     policy_entries (permissions_policy i) = perm_entries (intersect_file_system fv eng cwd rf gf m)"
proof (cases "add_file_system req")
  case None
  then show ?thesis using assms by (auto simp: intersect_permission_profiles_def permissions_policy_def restricted_def)
next
  case (Some rf)
  define gf where
    "gf = (case add_file_system gr of Some gf \<Rightarrow> gf | None \<Rightarrow> \<lparr>perm_entries = [], perm_glob_scan_max_depth = None\<rparr>)"
  obtain m where m: "read_deny_matcher_new fv eng (restricted (perm_entries rf)) cwd = Some m"
    using assms(1) Some by (auto simp: intersect_permission_profiles_def Let_def split: option.splits)
  have "policy_entries (permissions_policy req) = perm_entries rf"
    by (simp add: permissions_policy_def restricted_def Some)
  moreover have "policy_entries (permissions_policy gr) = perm_entries gf"
    by (simp add: permissions_policy_def restricted_def gf_def split: option.splits)
  moreover have "policy_entries (permissions_policy i) = perm_entries (intersect_file_system fv eng cwd rf gf m)"
    using assms unfolding intersect_permission_profiles_def Let_def Some option.simps m gf_def[symmetric]
    by (auto simp: permissions_policy_def restricted_def file_system_permissions_is_empty_def split: if_splits)
  ultimately show ?thesis by blast
qed

lemma resolved_entry_at:
  "path_is_absolute cwd \<Longrightarrow> x \<in> set (resolved_entries_with_cwd fv p cwd) \<longleftrightarrow>
     (\<exists>e\<in>set (policy_entries p). resolve_permission_path fv (entry_path e) cwd = Some (resolved_path x) \<and>
        resolved_access x = entry_access e)"
  by (simp add: set_resolved_entries resolve_permission_path_entry)

text \<open>What a readable entry of the intersection comes from, and the denials kept beside it.\<close>

lemma intersection_granted:
  assumes "intersect_permission_profiles fv eng req gr cwd = Some i" "path_is_absolute cwd" "path_is_absolute cwd'"
    and "x \<in> set (resolved_entries_with_cwd fv (permissions_policy i) cwd')" "can_read (resolved_access x)"
    and "normal_path (resolved_path x)"
  shows "x \<in> set (resolved_entries_with_cwd fv (permissions_policy gr) cwd)"
    and "access_covers (access_at (resolved_entries_with_cwd fv (permissions_policy req) cwd) (resolved_path x)) (resolved_access x)"
    and "y \<in> set (resolved_entries_with_cwd fv (permissions_policy req) cwd) \<union>
              set (resolved_entries_with_cwd fv (permissions_policy gr) cwd) \<Longrightarrow>
         resolved_access y = AccessDeny \<Longrightarrow> prefix (resolved_path y) (resolved_path x) \<or> prefix (resolved_path x) (resolved_path y) \<Longrightarrow>
         y \<in> set (resolved_entries_with_cwd fv (permissions_policy i) cwd')"
proof -
  note at = resolved_entry_at[OF assms(2)] resolved_entry_at[OF assms(3)]
  obtain e where e: "e \<in> set (policy_entries (permissions_policy i))"
      "resolve_permission_path fv (entry_path e) cwd' = Some (resolved_path x)" "resolved_access x = entry_access e"
    using assms(4) by (auto simp: at)
  then have "policy_entries (permissions_policy i) \<noteq> []" by auto
  from intersection_file_system[OF assms(1) this] obtain rf gf m where f:
      "policy_entries (permissions_policy req) = perm_entries rf"
      "policy_entries (permissions_policy gr) = perm_entries gf"
      "policy_entries (permissions_policy i) = perm_entries (intersect_file_system fv eng cwd rf gf m)" by blast
  let ?acc = "accepted_grants fv eng cwd rf m (perm_entries gf)"
  have "e \<in> set ?acc"
    using e assms(5) unfolding f(3) intersect_file_system_entries by (auto simp: constraining_def)
  from accepted_grant[OF this] obtain g where g: "g \<in> set (perm_entries gf)" "e = materialize_cwd_dependent_entry fv cwd g"
      "granted_file_system_entry_within_request fv eng rf (restricted (perm_entries rf)) m g cwd" by blast
  have r: "resolve_permission_path fv (entry_path g) cwd = Some (resolved_path x)"
    using e(2) g(2) materialized_resolves[OF assms(2,3)] by simp
  show gr: "x \<in> set (resolved_entries_with_cwd fv (permissions_policy gr) cwd)"
    using g r e by (auto simp: at f)
  have "permissions_policy req = restricted (perm_entries rf)"
    using f(1) by (auto simp: permissions_policy_def restricted_def split: option.splits)
  then show "access_covers (access_at (resolved_entries_with_cwd fv (permissions_policy req) cwd) (resolved_path x)) (resolved_access x)"
    using g(3) r assms(6) resolve_access_at[of "permissions_policy req" fv "render_absolute (resolved_path x)" cwd "resolved_path x"]
    by (auto simp: granted_file_system_entry_within_request_def e(3) g(2) split: if_splits)
  show "y \<in> set (resolved_entries_with_cwd fv (permissions_policy i) cwd')"
    if y: "y \<in> set (resolved_entries_with_cwd fv (permissions_policy req) cwd) \<union>
            set (resolved_entries_with_cwd fv (permissions_policy gr) cwd)" "resolved_access y = AccessDeny"
      "prefix (resolved_path y) (resolved_path x) \<or> prefix (resolved_path x) (resolved_path y)" for y
  proof -
    from y(1) obtain d where d: "d \<in> set (perm_entries rf) \<or> d \<in> set (perm_entries gf)"
        "resolve_permission_path fv (entry_path d) cwd = Some (resolved_path y)" "resolved_access y = entry_access d"
      by (auto simp: at f)
    have "resolve_permission_path fv (entry_path e) cwd = Some (resolved_path x)"
      using r g(2) materialized_resolves[OF assms(2,2)] by simp
    then have "d \<in> constraining fv cwd (perm_entries rf) ?acc \<union> constraining fv cwd (perm_entries gf) ?acc"
      using constraining_overlap[OF \<open>e \<in> set ?acc\<close>] d y(2,3) assms(5) e(3) by auto
    then have "materialize_cwd_dependent_entry fv cwd d \<in> set (policy_entries (permissions_policy i))"
      unfolding f(3) intersect_file_system_entries by blast
    then show ?thesis
      using d materialized_resolves[OF assms(2,3), of fv d] by (auto simp: at intro!: bexI)
  qed
qed

lemma intersection_no_denial:
  assumes "intersect_permission_profiles fv eng req gr cwd = Some i" "path_is_absolute cwd" "path_is_absolute cwd'"
    and "governs (resolved_entries_with_cwd fv (permissions_policy i) cwd') t x" "can_read (resolved_access x)" "normal_path t"
    and S: "S = resolved_entries_with_cwd fv (permissions_policy req) cwd \<or>
            S = resolved_entries_with_cwd fv (permissions_policy gr) cwd"
  shows "can_read (access_at S t)"
proof (rule ccontr)
  assume "\<not> can_read (access_at S t)"
  then have deny: "access_at S t = AccessDeny" by (cases "access_at S t") simp_all
  have x: "x \<in> set (resolved_entries_with_cwd fv (permissions_policy i) cwd')" "prefix (resolved_path x) t"
    using assms(4) by (auto simp: governs_def)
  have n: "normal_path (resolved_path x)" using x(2) assms(6) by (auto simp: prefix_def)
  note g = intersection_granted[OF assms(1-3) x(1) assms(5) n]
  obtain y where y: "y \<in> set S" "prefix (resolved_path y) (resolved_path x)"
  proof (cases "S = resolved_entries_with_cwd fv (permissions_policy gr) cwd")
    case True
    then show ?thesis using g(1) that[of x] by simp
  next
    case False
    then have "can_read (access_at S (resolved_path x))" using S g(2) covers_readable by blast
    then obtain m where "governs S (resolved_path x) m"
      using access_at_not_Deny[of S "resolved_path x"] by (cases "access_at S (resolved_path x)") auto
    then show ?thesis using that[of m] by (auto simp: governs_def)
  qed
  then obtain d where d: "governs S t d"
    using governs_exists[of y S t] x(2) prefix_order.trans by blast
  then have dd: "d \<in> set S" "prefix (resolved_path d) t" "resolved_access d = AccessDeny"
    using deny access_at_governs[OF d] by (auto simp: governs_def)
  have "prefix (resolved_path d) (resolved_path x) \<or> prefix (resolved_path x) (resolved_path d)"
    using dd(2) x(2) prefix_same_cases by blast
  then have "d \<in> set (resolved_entries_with_cwd fv (permissions_policy i) cwd')"
    using g(3)[of d] S dd by blast
  then have le: "entry_precedence_le d x" using assms(4) dd(2) by (auto simp: governs_def)
  then have p: "prefix (resolved_path d) (resolved_path x)"
    using precedence_length[OF le] prefix_length_prefix[OF dd(2) x(2)] by simp
  show False
  proof (cases "x \<in> set S")
    case True
    then have "entry_precedence_le x d" using d x(2) by (auto simp: governs_def)
    then have "resolved_access x = AccessDeny" using precedence_antisym[OF le] dd(3) by simp
    then show False using assms(5) by simp
  next
    case False
    then have S: "S = resolved_entries_with_cwd fv (permissions_policy req) cwd" using S g(1) by blast
    have "access_at S (resolved_path x) = AccessDeny"
      using access_at_governs[OF governs_between[OF d p x(2)]] dd(3) by simp
    then show False using g(2) covers_readable unfolding S by (metis can_read.simps(1))
  qed
qed

lemma intersect_total: "\<exists>i. intersect_permission_profiles fv eng req gr cwd = Some i"
proof -
  have "read_deny_matcher_new fv eng p cwd \<noteq> None" for p
    using build_matchers_FailClosed[of eng "get_unreadable_globs_with_cwd fv p cwd"]
    by (auto simp: read_deny_matcher_new_def build_matcher_def Let_def)
  from this[of "restricted (perm_entries (the (add_file_system req)))"] show ?thesis
    by (cases "add_file_system req"; cases "read_deny_matcher_new fv eng (restricted (perm_entries (the (add_file_system req)))) cwd")
      (simp_all add: intersect_permission_profiles_def Let_def)
qed

text \<open>A read-only entry of a policy strictly below a root that holds a path.\<close>

definition read_exception :: "fs_view \<Rightarrow> sandbox_policy \<Rightarrow> str \<Rightarrow> abs_path \<Rightarrow> abs_path \<Rightarrow> bool" where
  "read_exception fv p cwd root t \<longleftrightarrow>
     (\<exists>e\<in>set (policy_entries p). entry_access e = AccessRead \<and>
        (case resolve_permission_path fv (entry_path e) cwd of
           Some q \<Rightarrow> strict_prefix root q \<and> prefix q t
         | None \<Rightarrow> False))"

lemma writable_or_exception:
  assumes "path_is_absolute cwd" "prefix root t" "normal_path t"
    and "can_write (access_at (resolved_entries_with_cwd fv p cwd) root)"
    and "can_read (access_at (resolved_entries_with_cwd fv p cwd) t)"
  shows "can_write (access_at (resolved_entries_with_cwd fv p cwd) t) \<or> read_exception fv p cwd root t"
proof (rule disjCI)
  let ?E = "resolved_entries_with_cwd fv p cwd"
  assume "\<not> read_exception fv p cwd root t"
  then have none: "\<not> (\<exists>x\<in>set ?E. resolved_access x = AccessRead \<and> strict_prefix root (resolved_path x) \<and> prefix (resolved_path x) t)"
    using assms(3) by (auto simp: read_exception_def resolved_entry_at[OF assms(1)] split: option.splits)
  show "can_write (access_at ?E t)"
  proof (rule ccontr)
    assume "\<not> can_write (access_at ?E t)"
    then have "access_at ?E t = AccessRead" using assms(5) by (cases "access_at ?E t") simp_all
    from access_at_not_Deny[OF this] obtain x where x: "governs ?E t x" "resolved_access x = AccessRead" by auto
    then have p: "x \<in> set ?E" "prefix (resolved_path x) t" by (auto simp: governs_def)
    have "\<not> prefix (resolved_path x) root"
      using access_at_governs[OF governs_between[OF x(1) _ assms(2)]] x(2) assms(4) by auto
    then have "strict_prefix root (resolved_path x)"
      using prefix_same_cases[OF p(2) assms(2)] by (auto simp: strict_prefix_def)
    then show False using none p x(2) by blast
  qed
qed

lemma granted_or_exception:
  assumes "path_is_absolute cwd" "normal_path t"
    and "x \<in> set (resolved_entries_with_cwd fv p cwd)" "resolved_access x = AccessWrite" "prefix (resolved_path x) t"
    and "can_read (access_at (resolved_entries_with_cwd fv p cwd) t)"
  shows "can_write (access_at (resolved_entries_with_cwd fv p cwd) t) \<or> read_exception fv p cwd (resolved_path x) t"
proof (cases "access_at (resolved_entries_with_cwd fv p cwd) t")
  case AccessRead
  from access_at_not_Deny[OF AccessRead] obtain y where
    y: "governs (resolved_entries_with_cwd fv p cwd) t y" "resolved_access y = AccessRead" by auto
  then have p: "y \<in> set (resolved_entries_with_cwd fv p cwd)" "prefix (resolved_path y) t" by (auto simp: governs_def)
  have "resolved_path y \<noteq> resolved_path x"
    using y assms(3-5) by (auto simp: governs_def entry_precedence_le_def less_eq_access_mode_def dest!: bspec[of _ _ x])
  then have "strict_prefix (resolved_path x) (resolved_path y)"
    using governs_longest[OF y(1) assms(3,5)] by (auto simp: strict_prefix_def)
  then show ?thesis
    using p y(2) assms(2) by (auto simp: read_exception_def resolved_entry_at[OF assms(1)] intro!: bexI split: option.splits)
qed (use assms(6) in simp_all)

text \<open>
  C6. What an intersection of asked for and granted permissions opens. It always exists; whatever it makes readable,
  under any later current directory, was readable both in the request and in the grant. A path becomes writable only below a root
  that the grant has an entry to write and the request may write; and it was writable itself in the request, and in the grant, except where a read-only entry of that one below
  the root holds it, for such exceptions are not carried over. The network is enabled only when both enable it.
\<close>
theorem intersection_within_request_and_grant:
  assumes "path_is_absolute cwd" "path_is_absolute cwd'" "normal_path t"
  shows "\<exists>i. intersect_permission_profiles fv eng req gr cwd = Some i \<and>
    (let i_access = resolve_access_with_cwd fv (permissions_policy i) (render_absolute t) cwd' in
     (can_read i_access \<longrightarrow>
        can_read_path_with_cwd fv (permissions_policy req) (render_absolute t) cwd \<and>
        can_read_path_with_cwd fv (permissions_policy gr) (render_absolute t) cwd) \<and>
     (can_write i_access \<longrightarrow>
        (\<exists>root. prefix root t \<and>
           can_write (resolve_access_with_cwd fv (permissions_policy req) (render_absolute root) cwd) \<and>
           (\<exists>e\<in>set (policy_entries (permissions_policy gr)).
              entry_access e = AccessWrite \<and> resolve_permission_path fv (entry_path e) cwd = Some root) \<and>
           (\<forall>p\<in>{permissions_policy req, permissions_policy gr}.
              can_write (resolve_access_with_cwd fv p (render_absolute t) cwd) \<or> read_exception fv p cwd root t))) \<and>
     (network_is_enabled (add_network i) \<longrightarrow>
        network_is_enabled (add_network req) \<and> network_is_enabled (add_network gr)))"
proof -
  obtain i where i: "intersect_permission_profiles fv eng req gr cwd = Some i" using intersect_total by blast
  have at: "resolve_access_with_cwd fv p (render_absolute u) c = access_at (resolved_entries_with_cwd fv p c) u"
    if "policy_kind p = RestrictedKind" "normal_path u" for p u c
    using that resolve_access_at[of p fv "render_absolute u" c u] by simp
  let ?I = "resolved_entries_with_cwd fv (permissions_policy i) cwd'"
  have gov: "\<exists>x. governs ?I t x \<and> resolved_access x = access_at ?I t" if "can_read (access_at ?I t)"
    using that access_at_not_Deny[of ?I t] by (cases "access_at ?I t") auto
  have read: "can_read (access_at (resolved_entries_with_cwd fv (permissions_policy req) cwd) t)"
      "can_read (access_at (resolved_entries_with_cwd fv (permissions_policy gr) cwd) t)"
    if "can_read (access_at ?I t)"
    using gov[OF that] intersection_no_denial[OF i assms(1,2) _ _ assms(3)] that by metis+
  have w: "\<exists>root. prefix root t \<and>
           can_write (resolve_access_with_cwd fv (permissions_policy req) (render_absolute root) cwd) \<and>
           (\<exists>e\<in>set (policy_entries (permissions_policy gr)).
              entry_access e = AccessWrite \<and> resolve_permission_path fv (entry_path e) cwd = Some root) \<and>
           (\<forall>p\<in>{permissions_policy req, permissions_policy gr}.
              can_write (resolve_access_with_cwd fv p (render_absolute t) cwd) \<or> read_exception fv p cwd root t)"
    if w: "can_write (access_at ?I t)"
  proof -
    have r: "can_read (access_at ?I t)" using w by (cases "access_at ?I t") simp_all
    from gov[OF this] obtain x where x: "governs ?I t x" "resolved_access x = AccessWrite"
      using w by (cases "access_at ?I t") auto
    then have xi: "x \<in> set ?I" "prefix (resolved_path x) t" by (auto simp: governs_def)
    have n: "normal_path (resolved_path x)" using xi(2) assms(3) by (auto simp: prefix_def)
    note g = intersection_granted[OF i assms(1,2) xi(1) _ n]
    have gr: "x \<in> set (resolved_entries_with_cwd fv (permissions_policy gr) cwd)" using g(1) x(2) by simp
    have req: "can_write (access_at (resolved_entries_with_cwd fv (permissions_policy req) cwd) (resolved_path x))"
      using g(2) x(2) by simp
    from writable_or_exception[OF assms(1) xi(2) assms(3) req read(1)[OF r]]
      granted_or_exception[OF assms(1,3) gr x(2) xi(2) read(2)[OF r]]
    have e: "\<forall>p\<in>{permissions_policy req, permissions_policy gr}.
        can_write (resolve_access_with_cwd fv p (render_absolute t) cwd) \<or> read_exception fv p cwd (resolved_path x) t"
      by (simp add: at[OF _ assms(3)])
    show ?thesis
      using gr req x(2) xi(2) e
      by (intro exI[of _ "resolved_path x"]) (auto simp: at[OF _ n] resolved_entry_at[OF assms(1)] intro!: bexI)
  qed
  have "network_is_enabled (add_network i) \<longrightarrow> network_is_enabled (add_network req) \<and> network_is_enabled (add_network gr)"
    using i by (auto simp: intersect_permission_profiles_def Let_def network_is_enabled_def split: option.splits if_splits)
  with i read w show ?thesis
    by (auto simp: at[OF _ assms(3)] can_read_path_with_cwd_def Let_def)
qed

section \<open>Effective permissions keep denials\<close>

lemma effective_entries:
  "policy_kind p = RestrictedKind \<Longrightarrow>
   set (policy_entries (effective_file_system_sandbox_policy p additional)) =
     set (policy_entries p) \<union> (case additional of None \<Rightarrow> {} | Some a \<Rightarrow> set (policy_entries (permissions_policy a)))"
  by (auto simp: effective_file_system_sandbox_policy_def merge_file_system_policy_with_additional_permissions_def
      permissions_policy_def restricted_def file_system_permissions_is_empty_def set_push_missing split: option.splits)

lemma effective_kind [simp]: "policy_kind (effective_file_system_sandbox_policy p additional) = policy_kind p"
  by (auto simp: effective_file_system_sandbox_policy_def merge_file_system_policy_with_additional_permissions_def
      split: option.splits)

lemma runtime_permissions_roundtrip:
  assumes "\<And>f n. profile = ManagedProfile f n \<Longrightarrow> (case f of ManagedRestricted _ d \<Rightarrow> d \<noteq> Some 0 | _ \<Rightarrow> True)"
  shows "(case to_runtime_permissions profile of
     (p, n) \<Rightarrow> from_runtime_permissions_with_enforcement (profile_enforcement profile) p n) = Some profile"
proof (cases profile)
  case (ManagedProfile f n)
  then show ?thesis using assms
    by (cases f) (auto simp: to_runtime_permissions_def from_runtime_permissions_with_enforcement_def
        managed_from_sandbox_policy_def unrestricted_def non_zero_def bind_eq_Some_conv split: option.splits
        intro: option.exhaust[of "case f of ManagedRestricted _ d \<Rightarrow> d | _ \<Rightarrow> None"])
qed (simp_all add: to_runtime_permissions_def from_runtime_permissions_with_enforcement_def unrestricted_def external_sandbox_def)

lemma from_runtime_total: "\<exists>q. from_runtime_permissions_with_enforcement enf p n = Some q"
  by (cases "policy_kind p")
    (auto simp: from_runtime_permissions_with_enforcement_def managed_from_sandbox_policy_def)

lemma from_runtime_policy:
  assumes "from_runtime_permissions_with_enforcement enf p n = Some q"
  shows "policy_kind (file_system_sandbox_policy q) = policy_kind p \<and>
     (policy_kind p = RestrictedKind \<longrightarrow> policy_entries (file_system_sandbox_policy q) = policy_entries p)"
  using assms by (cases "policy_kind p")
    (auto simp: from_runtime_permissions_with_enforcement_def managed_from_sandbox_policy_def unrestricted_def
        external_sandbox_def split: if_splits)

text \<open>
  C14. What the additional permissions of one command can open. A path that the base policy of a managed
  profile denies is readable in the effective profile only through an entry of the additional permissions
  that is strictly more specific than the governing denial; a path that the base does not cover at all only
  through any entry of theirs. The effective profile always exists, keeps the kind of the policy and
  keeps every denial.
\<close>
theorem effective_profile_keeps_denials:
  assumes "normal_path t" "path_is_absolute cwd"
    and "policy_kind (file_system_sandbox_policy profile) = RestrictedKind"
  shows "\<exists>q. effective_permission_profile profile (Some a) = Some q \<and>
    policy_kind (file_system_sandbox_policy q) = RestrictedKind \<and>
    set (deny_entries (file_system_sandbox_policy profile)) \<subseteq> set (deny_entries (file_system_sandbox_policy q)) \<and>
    (resolve_access_with_cwd fv (file_system_sandbox_policy profile) (render_absolute t) cwd = AccessDeny \<longrightarrow>
     can_read_path_with_cwd fv (file_system_sandbox_policy q) (render_absolute t) cwd \<longrightarrow>
       (\<exists>x\<in>set (resolved_entries_with_cwd fv (permissions_policy a) cwd).
          can_read (resolved_access x) \<and> prefix (resolved_path x) t \<and>
          (\<forall>d\<in>set (resolved_entries_with_cwd fv (file_system_sandbox_policy profile) cwd).
             prefix (resolved_path d) t \<and> resolved_access d = AccessDeny \<longrightarrow>
             strict_prefix (resolved_path d) (resolved_path x))))"
proof -
  let ?p = "file_system_sandbox_policy profile"
  obtain q where q: "effective_permission_profile profile (Some a) = Some q"
    using from_runtime_total[of "profile_enforcement profile" "effective_file_system_sandbox_policy ?p (Some a)"
        "effective_network_sandbox_policy (network_sandbox_policy profile) (Some a)"]
    by (auto simp: effective_permission_profile_def to_runtime_permissions_def)
  let ?e = "effective_file_system_sandbox_policy ?p (Some a)"
  have k: "policy_kind (file_system_sandbox_policy q) = RestrictedKind"
    and es: "set (policy_entries (file_system_sandbox_policy q)) = set (policy_entries ?p) \<union> set (policy_entries (permissions_policy a))"
    using q from_runtime_policy[of "profile_enforcement profile" ?e] assms(3) effective_entries[OF assms(3), of "Some a"]
    by (auto simp: effective_permission_profile_def to_runtime_permissions_def)
  let ?R = "\<lambda>p. resolved_entries_with_cwd fv p cwd"
  have R: "set (?R (file_system_sandbox_policy q)) = set (?R ?p) \<union> set (?R (permissions_policy a))"
    by (auto simp: set_resolved_entries es)
  have at: "resolve_access_with_cwd fv p (render_absolute t) cwd = access_at (?R p) t" if "policy_kind p = RestrictedKind" for p
    using that assms(1) resolve_access_at[of p fv "render_absolute t" cwd t] by simp
  have "\<exists>x\<in>set (?R (permissions_policy a)). can_read (resolved_access x) \<and> prefix (resolved_path x) t \<and>
          (\<forall>d\<in>set (?R ?p). prefix (resolved_path d) t \<and> resolved_access d = AccessDeny \<longrightarrow>
             strict_prefix (resolved_path d) (resolved_path x))"
    if deny: "access_at (?R ?p) t = AccessDeny" and r: "can_read (access_at (?R (file_system_sandbox_policy q)) t)"
  proof -
    obtain x where x: "governs (?R (file_system_sandbox_policy q)) t x" "can_read (resolved_access x)"
      using r access_at_not_Deny[of "?R (file_system_sandbox_policy q)" t]
      by (cases "access_at (?R (file_system_sandbox_policy q)) t") auto
    have xt: "prefix (resolved_path x) t" using x(1) by (simp add: governs_def)
    have "x \<notin> set (?R ?p)"
    proof
      assume "x \<in> set (?R ?p)"
      then have "governs (?R ?p) t x" using x(1) R by (auto simp: governs_def)
      then show False using access_at_governs deny x(2) by fastforce
    qed
    then have xa: "x \<in> set (?R (permissions_policy a))" using x(1) R by (auto simp: governs_def)
    have "strict_prefix (resolved_path d) (resolved_path x)"
      if d: "d \<in> set (?R ?p)" "prefix (resolved_path d) t" "resolved_access d = AccessDeny" for d
    proof -
      have le: "entry_precedence_le d x" using x(1) d(1,2) R by (auto simp: governs_def)
      then have "prefix (resolved_path d) (resolved_path x)"
        using prefix_length_prefix[OF d(2) xt] precedence_length[OF le] by simp
      moreover have "resolved_path d \<noteq> resolved_path x"
        using le x(2) d(3) by (cases "resolved_access x") (auto simp: entry_precedence_le_def less_eq_access_mode_def)
      ultimately show ?thesis by (simp add: strict_prefix_def)
    qed
    with xa xt x(2) show ?thesis by blast
  qed
  then show ?thesis using q k es assms(3)
    by (auto simp: at can_read_path_with_cwd_def deny_entries_def)
qed

section \<open>When no platform sandbox is requested\<close>

lemma deny_not_full_write:
  assumes "e \<in> set (policy_entries p)" "entry_access e = AccessDeny" "policy_kind p = RestrictedKind"
    and "\<not> (\<exists>v. entry_path e = SpecialPath v \<and> (v = Minimal \<or> (\<exists>u s. v = UnknownPath u s)))"
  shows "\<not> has_full_disk_write_access p"
proof -
  have "\<not> has_same_target_write_override p e"
  proof -
    have "\<not> AccessDeny < m" for m by (cases m) (simp_all add: less_access_mode_def)
    then show ?thesis using assms(2) by (auto simp: has_same_target_write_override_def list_ex_iff)
  qed
  then have "narrows_write p e"
    using assms(2,4) by (auto simp: narrows_write_def split: file_system_path.splits special_path.splits)
  then show ?thesis using assms by (auto simp: has_full_disk_write_access_def has_write_narrowing_entries_def list_ex_iff)
qed

text \<open>Whoever may run without a sandbox has nothing to confine: no denial that can be resolved, no network restriction.\<close>

lemma unsandboxed_has_no_denial:
  assumes "\<not> should_sandbox profile AutoPreference managed_network"
  shows "\<not> managed_network"
    and "policy_kind (file_system_sandbox_policy profile) = ExternalSandboxKind \<or>
         network_enabled (network_sandbox_policy profile) \<and> has_full_disk_write_access (file_system_sandbox_policy profile)"
  using assms by (auto simp: should_sandbox_def should_require_platform_sandbox_def to_runtime_permissions_def
      has_full_disk_write_access_def split: if_splits sandbox_kind.splits)

text \<open>A profile that denies a place and whose sandbox the tool leaves to the policy always asks for one.\<close>

lemma denial_requires_sandbox:
  assumes "e \<in> set (policy_entries (file_system_sandbox_policy profile))" "entry_access e = AccessDeny"
    and "policy_kind (file_system_sandbox_policy profile) = RestrictedKind"
    and "\<not> (\<exists>v. entry_path e = SpecialPath v \<and> (v = Minimal \<or> (\<exists>u s. v = UnknownPath u s)))"
    and "pref \<noteq> ForbidPreference"
  shows "should_sandbox profile pref managed_network"
proof (cases pref)
  case AutoPreference
  then show ?thesis
    using unsandboxed_has_no_denial(2)[of profile managed_network] deny_not_full_write[OF assms(1-2) assms(3-4)] assms(3)
    by auto
qed (use assms(5) in \<open>simp_all add: should_sandbox_def\<close>)

section \<open>Instances\<close>

definition example_globs :: "str deny_globs" where
  "example_globs = \<lparr>build_deny_glob = Some, deny_glob_matches = (=)\<rparr>"

definition example_permissions :: "sandbox_entry list \<Rightarrow> additional_permissions" where
  "example_permissions es =
     \<lparr>add_network = Some \<lparr>net_enabled = Some True\<rparr>,
      add_file_system = Some \<lparr>perm_entries = es, perm_glob_scan_max_depth = None\<rparr>\<rparr>"

theorem intersection_within_request_and_grant_witness:
  "can_read_path_with_cwd example_view
     (permissions_policy (example_permissions [new_entry (SpecialPath (ProjectRoots None)) AccessWrite]))
     (render_absolute [lit ''repo'', lit ''src'']) (lit ''/repo'')"
proof -
  let ?req = "example_permissions [new_entry (SpecialPath (ProjectRoots None)) AccessWrite]"
  let ?gr = "example_permissions [new_entry (ConcretePath [lit ''repo'', lit ''src'']) AccessRead]"
  have h: "path_is_absolute (lit ''/repo'')" "path_is_absolute (lit ''/other'')" "normal_path [lit ''repo'', lit ''src'']"
    by code_simp+
  have r: "can_read (resolve_access_with_cwd example_view
      (permissions_policy (the (intersect_permission_profiles example_view example_globs ?req ?gr (lit ''/repo''))))
      (render_absolute [lit ''repo'', lit ''src'']) (lit ''/other''))" by code_simp
  from intersection_within_request_and_grant[OF h, of example_view example_globs ?req ?gr] r
  show ?thesis by (auto simp: Let_def)
qed

theorem effective_profile_keeps_denials_witness:
  "\<exists>q. effective_permission_profile
       (ManagedProfile (ManagedRestricted [new_entry (ConcretePath REPO) AccessDeny] None) NetworkRestricted)
       (Some (example_permissions [new_entry (SpecialPath Root) AccessWrite])) = Some q \<and>
     \<not> can_read_path_with_cwd example_view (file_system_sandbox_policy q) (render_absolute [lit ''repo'', lit ''a'']) (lit ''/repo'')"
proof -
  let ?prof = "ManagedProfile (ManagedRestricted [new_entry (ConcretePath REPO) AccessDeny] None) NetworkRestricted"
  let ?a = "example_permissions [new_entry (SpecialPath Root) AccessWrite]"
  have h: "normal_path [lit ''repo'', lit ''a'']" "path_is_absolute (lit ''/repo'')"
    "policy_kind (file_system_sandbox_policy ?prof) = RestrictedKind" by code_simp+
  have d: "resolve_access_with_cwd example_view (file_system_sandbox_policy ?prof)
      (render_absolute [lit ''repo'', lit ''a'']) (lit ''/repo'') = AccessDeny"
    "resolved_entries_with_cwd example_view (file_system_sandbox_policy ?prof) (lit ''/repo'') =
      [\<lparr>resolved_path = REPO, resolved_access = AccessDeny\<rparr>]"
    "resolved_entries_with_cwd example_view (permissions_policy ?a) (lit ''/repo'') =
      [\<lparr>resolved_path = [], resolved_access = AccessWrite\<rparr>]"
    "prefix REPO [lit ''repo'', lit ''a'']"
    by code_simp+
  from effective_profile_keeps_denials[OF h, of ?a example_view] d show ?thesis by auto
qed

text \<open>
  A request for a directory to be written and a part of it only to be read loses the exception when
  the whole directory is granted: only denials are kept, so the part becomes writable.
\<close>

lemma intersection_drops_read_exception:
  "resolve_access_with_cwd example_view
     (permissions_policy (example_permissions [new_entry (ConcretePath REPO) AccessWrite,
        new_entry (ConcretePath [lit ''repo'', lit ''doc'']) AccessRead])) (lit ''/repo/doc/a'') (lit ''/repo'') = AccessRead \<and>
   resolve_access_with_cwd example_view
     (permissions_policy (the (intersect_permission_profiles example_view example_globs
        (example_permissions [new_entry (ConcretePath REPO) AccessWrite,
           new_entry (ConcretePath [lit ''repo'', lit ''doc'']) AccessRead])
        (example_permissions [new_entry (ConcretePath REPO) AccessWrite]) (lit ''/repo''))))
     (lit ''/repo/doc/a'') (lit ''/repo'') = AccessWrite"
  by code_simp

lemma legacy_split_roots:
  "split_legacy_roots (map (\<lambda>p. new_entry (ConcretePath p) AccessRead) rs @ map (\<lambda>p. new_entry (ConcretePath p) AccessWrite) ws)
     = Some (rs, ws)"
proof (induction rs)
  case Nil
  show ?case by (induction ws) (simp_all add: new_entry_def)
qed (simp add: new_entry_def)

text \<open>Read and write roots survive the conversion to entries and back; empty lists become absent ones.\<close>

lemma read_write_roots_roundtrip:
  "as_legacy_permissions (from_read_write_roots rs ws) =
     Some \<lparr>legacy_read = (if rs = Some [] then None else rs), legacy_write = (if ws = Some [] then None else ws)\<rparr>"
  by (cases rs; cases ws)
    (use legacy_split_roots[of _ "[]"] legacy_split_roots[of "[]"] in
      \<open>auto simp: as_legacy_permissions_def from_read_write_roots_def legacy_split_roots\<close>)

end
