(* ===== verification/ExecRule.thy ===== *)
theory ExecRule
  imports AbsPath
begin

text \<open>
  The rules of the execution policy: decisions with their order, pattern tokens and prefix
  patterns, rule matches, the trait \<open>Rule\<close> with its only implementation \<open>PrefixRule\<close>, and
  network rules with the normalisation of their hosts (codex-rs/execpolicy/src/decision.rs,
  error.rs and rule.rs). The locale \<open>rule_trait\<close> is the contract of \<open>Rule\<close> that the policy
  relies on; it is interpreted on prefix rules.
\<close>

section \<open>Decisions\<close>

datatype decision = Allow | Prompt | Forbidden

fun decision_rank :: "decision \<Rightarrow> nat" where
  "decision_rank Allow = 0" | "decision_rank Prompt = 1" | "decision_rank Forbidden = 2"

text \<open>The derived \<open>Ord\<close>: the order of the declaration.\<close>

instantiation decision :: linorder
begin

definition less_eq_decision :: "decision \<Rightarrow> decision \<Rightarrow> bool" where
  "less_eq_decision a b \<longleftrightarrow> decision_rank a \<le> decision_rank b"

definition less_decision :: "decision \<Rightarrow> decision \<Rightarrow> bool" where
  "less_decision a b \<longleftrightarrow> decision_rank a < decision_rank b"

instance
proof
  fix a b c :: decision
  show "a < b \<longleftrightarrow> a \<le> b \<and> \<not> b \<le> a"
    by (auto simp: less_decision_def less_eq_decision_def)
  show "a \<le> a" by (simp add: less_eq_decision_def)
  show "a \<le> b \<Longrightarrow> b \<le> c \<Longrightarrow> a \<le> c" by (simp add: less_eq_decision_def)
  show "a \<le> b \<Longrightarrow> b \<le> a \<Longrightarrow> a = b"
    by (cases a; cases b; simp add: less_eq_decision_def)
  show "a \<le> b \<or> b \<le> a" by (auto simp: less_eq_decision_def)
qed

end

lemma decision_le_simps [simp]: "Allow \<le> d" "d \<le> Forbidden" "Forbidden \<le> d \<longleftrightarrow> d = Forbidden"
  "d \<le> Allow \<longleftrightarrow> d = Allow"
  by (cases d; simp add: less_eq_decision_def)+

section \<open>Errors\<close>

record error_location =
  loc_path :: str
  loc_range :: "(nat \<times> nat) \<times> (nat \<times> nat)" \<comment> \<open>start and end as line and column\<close>

datatype policy_error =
    InvalidDecision str
  | InvalidPattern str
  | InvalidExample str
  | InvalidRule str
  | ExampleDidNotMatch "str list" "str list" "error_location option"
  | ExampleDidMatch str str "error_location option"

fun with_location :: "error_location \<Rightarrow> policy_error \<Rightarrow> policy_error" where
  "with_location l (ExampleDidNotMatch rules examples None) = ExampleDidNotMatch rules examples (Some l)"
| "with_location l (ExampleDidMatch rule example None) = ExampleDidMatch rule example (Some l)"
| "with_location l other = other"

definition parse_decision :: "str \<Rightarrow> policy_error + decision" where
  "parse_decision raw =
     (if raw = lit ''allow'' then Inr Allow
      else if raw = lit ''prompt'' then Inr Prompt
      else if raw = lit ''forbidden'' then Inr Forbidden
      else Inl (InvalidDecision raw))"

section \<open>Patterns and prefix rules\<close>

datatype pattern_token = Single str | Alts "str list"

fun token_matches :: "pattern_token \<Rightarrow> str \<Rightarrow> bool" where
  "token_matches (Single expected) token \<longleftrightarrow> expected = token"
| "token_matches (Alts alternatives) token \<longleftrightarrow> list_ex (\<lambda>alt. alt = token) alternatives"

fun token_alternatives :: "pattern_token \<Rightarrow> str list" where
  "token_alternatives (Single expected) = [expected]"
| "token_alternatives (Alts alternatives) = alternatives"

record prefix_pattern =
  pat_first :: str
  pat_rest :: "pattern_token list"

definition matches_prefix :: "prefix_pattern \<Rightarrow> str list \<Rightarrow> str list option" where
  "matches_prefix p cmd =
     (let pattern_length = length (pat_rest p) + 1
      in if length cmd < pattern_length \<or> cmd ! 0 \<noteq> pat_first p then None
         else if list_all (\<lambda>(t, c). token_matches t c) (zip (pat_rest p) (drop 1 (take pattern_length cmd)))
              then Some (take pattern_length cmd)
              else None)"

datatype rule_match =
    PrefixRuleMatch "str list" decision "str option" "str option"
      \<comment> \<open>matched prefix, decision, resolved program, justification\<close>
  | HeuristicsRuleMatch "str list" decision

fun match_decision :: "rule_match \<Rightarrow> decision" where
  "match_decision (PrefixRuleMatch _ d _ _) = d"
| "match_decision (HeuristicsRuleMatch _ d) = d"

fun with_resolved_program :: "str \<Rightarrow> rule_match \<Rightarrow> rule_match" where
  "with_resolved_program p (PrefixRuleMatch matched d _ j) = PrefixRuleMatch matched d (Some p) j"
| "with_resolved_program p other = other"

record prefix_rule =
  rule_pattern :: prefix_pattern
  rule_decision :: decision
  rule_justification :: "str option"

definition rule_program :: "prefix_rule \<Rightarrow> str" where
  "rule_program r = pat_first (rule_pattern r)"

definition rule_matches :: "prefix_rule \<Rightarrow> str list \<Rightarrow> rule_match option" where
  "rule_matches r cmd =
     map_option (\<lambda>matched. PrefixRuleMatch matched (rule_decision r) None (rule_justification r))
       (matches_prefix (rule_pattern r) cmd)"

text \<open>What a pattern means: token by token, a prefix of the command.\<close>

lemma matches_prefix_Some:
  "matches_prefix p cmd = Some m \<longleftrightarrow>
     (\<exists>x xs rest. cmd = x # xs @ rest \<and> m = x # xs \<and> x = pat_first p \<and>
        list_all2 token_matches (pat_rest p) xs)"
proof
  assume "matches_prefix p cmd = Some m"
  then have l: "Suc (length (pat_rest p)) \<le> length cmd" and h: "cmd ! 0 = pat_first p"
    and a: "list_all (\<lambda>(t, c). token_matches t c) (zip (pat_rest p) (drop 1 (take (Suc (length (pat_rest p))) cmd)))"
    and m: "m = take (Suc (length (pat_rest p))) cmd"
    by (auto simp: matches_prefix_def Let_def split: if_splits)
  obtain x ys where cmd: "cmd = x # ys" using l by (cases cmd) auto
  let ?xs = "take (length (pat_rest p)) ys"
  have "list_all2 token_matches (pat_rest p) ?xs"
    using a l cmd by (auto simp: list_all2_iff list_all_iff)
  then show "\<exists>x xs rest. cmd = x # xs @ rest \<and> m = x # xs \<and> x = pat_first p \<and>
        list_all2 token_matches (pat_rest p) xs"
    using cmd h m by (intro exI[of _ x] exI[of _ ?xs] exI[of _ "drop (length (pat_rest p)) ys"]) simp
next
  assume "\<exists>x xs rest. cmd = x # xs @ rest \<and> m = x # xs \<and> x = pat_first p \<and>
        list_all2 token_matches (pat_rest p) xs"
  then obtain x xs rest where "cmd = x # xs @ rest" "m = x # xs" "x = pat_first p"
    and l: "list_all2 token_matches (pat_rest p) xs" by blast
  with list_all2_lengthD[OF l] show "matches_prefix p cmd = Some m"
    by (auto simp: matches_prefix_def list_all2_iff list_all_iff)
qed

section \<open>Network rules\<close>

datatype network_protocol = Http | Https | Socks5Tcp | Socks5Udp

definition parse_protocol :: "str \<Rightarrow> policy_error + network_protocol" where
  "parse_protocol raw =
     (if raw = lit ''http'' then Inr Http
      else if raw \<in> {lit ''https'', lit ''https_connect'', lit ''http-connect''} then Inr Https
      else if raw = lit ''socks5_tcp'' then Inr Socks5Tcp
      else if raw = lit ''socks5_udp'' then Inr Socks5Udp
      else Inl (InvalidRule (lit ''network_rule protocol must be one of http, https, socks5_tcp, socks5_udp (got ''
             @ raw @ lit '')'')))"

fun protocol_policy_string :: "network_protocol \<Rightarrow> str" where
  "protocol_policy_string Http = lit ''http''"
| "protocol_policy_string Https = lit ''https''"
| "protocol_policy_string Socks5Tcp = lit ''socks5_tcp''"
| "protocol_policy_string Socks5Udp = lit ''socks5_udp''"

lemma parse_protocol_policy_string: "parse_protocol (protocol_policy_string p) = Inr p"
  by (cases p) (simp_all add: parse_protocol_def lit_simps)

record network_rule =
  net_host :: str
  net_protocol :: network_protocol
  net_decision :: decision
  net_justification :: "str option"

text \<open>The decimal port after a colon.\<close>

definition is_port :: "str \<Rightarrow> bool" where
  "is_port port \<longleftrightarrow> port \<noteq> [] \<and> list_all is_ascii_digit port"

text \<open>The host without brackets and port.\<close>

definition strip_host_port :: "str \<Rightarrow> str \<Rightarrow> policy_error + str" where
  "strip_host_port raw host =
     (case strip_prefix host [91] of
        Some stripped \<Rightarrow>
          (case split_once 93 stripped of
             None \<Rightarrow> Inl (InvalidRule (lit ''network_rule host has an invalid bracketed IPv6 literal''))
           | Some (inside, rest) \<Rightarrow>
               (let port_ok = (case strip_prefix rest [58] of Some port \<Rightarrow> is_port port | None \<Rightarrow> False)
                in if rest \<noteq> [] \<and> \<not> port_ok
                   then Inl (InvalidRule (lit ''network_rule host contains an unsupported suffix: '' @ raw))
                   else Inr inside))
      | None \<Rightarrow>
          if length (filter (\<lambda>c. c = 58) host) = 1 then
            (case rsplit_once 58 host of
               Some (candidate, port) \<Rightarrow>
                 if candidate \<noteq> [] \<and> is_port port then Inr candidate else Inr host
             | None \<Rightarrow> Inr host)
          else Inr host)"

definition normalize_network_rule_host :: "str \<Rightarrow> policy_error + str" where
  "normalize_network_rule_host raw =
     (let host = trim raw in
      if host = [] then Inl (InvalidRule (lit ''network_rule host cannot be empty''))
      else if contains_sub host (lit ''://'') \<or> 47 \<in> set host \<or> 63 \<in> set host \<or> 35 \<in> set host
      then Inl (InvalidRule (lit ''network_rule host must be a hostname or IP literal (without scheme or path)''))
      else
      (case strip_host_port raw host of
         Inl e \<Rightarrow> Inl e
       | Inr host' \<Rightarrow>
           (let normalized = to_ascii_lowercase (trim (trim_end_matches 46 host'))
            in if normalized = [] then Inl (InvalidRule (lit ''network_rule host cannot be empty''))
               else if 42 \<in> set normalized
               then Inl (InvalidRule (lit ''network_rule host must be a specific host; wildcards are not allowed''))
               else if list_ex is_whitespace normalized
               then Inl (InvalidRule (lit ''network_rule host cannot contain whitespace''))
               else Inr normalized)))"

section \<open>The trait \<open>Rule\<close>\<close>

text \<open>What the policy relies on: a rule only matches commands that start with its program, so
  that rules can be looked up by program, and it keeps matching when arguments are appended.\<close>

locale rule_trait =
  fixes program :: "'r \<Rightarrow> str" and matches :: "'r \<Rightarrow> str list \<Rightarrow> rule_match option"
  assumes match_program: "matches r cmd = Some m \<Longrightarrow> cmd \<noteq> [] \<and> hd cmd = program r"
    and match_extends: "matches r cmd = Some m \<Longrightarrow> matches r (cmd @ xs) = Some m"
begin

lemma no_match_other_program: "program r \<noteq> c \<Longrightarrow> matches r (c # cs) = None"
  using match_program[of r "c # cs"] by (cases "matches r (c # cs)") auto

lemma no_match_empty: "matches r [] = None"
  using match_program[of r "[]"] by (cases "matches r []") auto

lemma lookup_by_program:
  "List.map_filter (\<lambda>r. matches r (c # cs)) (filter (\<lambda>r. program r = c) rs) =
   List.map_filter (\<lambda>r. matches r (c # cs)) rs"
  by (induction rs) (auto simp: no_match_other_program split: option.splits)

lemma matched_extends:
  "m \<in> set (List.map_filter (\<lambda>r. matches r cmd) rs) \<Longrightarrow>
   m \<in> set (List.map_filter (\<lambda>r. matches r (cmd @ xs)) rs)"
  by (auto simp: map_filter_def match_extends intro!: rev_image_eqI)

end

lemma matches_prefix_extends: "matches_prefix p cmd = Some m \<Longrightarrow> matches_prefix p (cmd @ xs) = Some m"
  by (auto simp: matches_prefix_Some)

interpretation prefix_rules: rule_trait rule_program rule_matches
proof
  fix r cmd m xs
  assume m: "rule_matches r cmd = Some m"
  then show "cmd \<noteq> [] \<and> hd cmd = rule_program r"
    by (auto simp: rule_matches_def rule_program_def matches_prefix_Some)
  from m show "rule_matches r (cmd @ xs) = Some m"
    by (auto simp: rule_matches_def dest: matches_prefix_extends)
qed

section \<open>Normalised hosts\<close>

definition host_char_ok :: "uchar \<Rightarrow> bool" where
  "host_char_ok c \<longleftrightarrow> \<not> is_whitespace c \<and> c \<noteq> 42 \<and> \<not> (65 \<le> c \<and> c \<le> 90) \<and> c \<noteq> 47 \<and> c \<noteq> 63 \<and> c \<noteq> 35"

lemma set_trim: "set (trim s) \<subseteq> set s"
proof -
  have d: "set (dropWhile p xs) \<subseteq> set xs" for p and xs :: str
    by (auto dest: set_dropWhileD)
  show ?thesis
    using d[of is_whitespace s] d[of is_whitespace "rev (dropWhile is_whitespace s)"]
    by (auto simp: trim_def trim_start_def trim_end_def)
qed

lemma set_trim_end_matches: "set (trim_end_matches c s) \<subseteq> set s"
  by (auto simp: trim_end_matches_def dest: set_dropWhileD)

lemma strip_host_port_set: "strip_host_port raw host = Inr h \<Longrightarrow> set h \<subseteq> set host"
  by (auto simp: strip_host_port_def Let_def strip_prefix_Some split_once_Some rsplit_once_Some
      split: option.splits if_splits)

lemma to_lower_ok: "c \<noteq> 47 \<Longrightarrow> c \<noteq> 63 \<Longrightarrow> c \<noteq> 35 \<Longrightarrow> d = to_ascii_lowercase_char c \<Longrightarrow>
    d \<noteq> 47 \<and> d \<noteq> 63 \<and> d \<noteq> 35 \<and> \<not> (65 \<le> d \<and> d \<le> 90)"
  by (auto simp: to_ascii_lowercase_char_def)

text \<open>
  A normalised network host is non-empty, lower case and free of white space, wildcards,
  slashes, question marks and fragments; normalising it again gives it back when it has no
  colon, no leading bracket and no trailing dot.
\<close>

theorem normalize_host_sound:
  assumes "normalize_network_rule_host raw = Inr h"
  shows "h \<noteq> [] \<and> list_all host_char_ok h \<and>
         (58 \<notin> set h \<and> hd h \<noteq> 91 \<and> last h \<noteq> 46 \<longrightarrow> normalize_network_rule_host h = Inr h)"
proof -
  from assms obtain h' where h': "strip_host_port raw (trim raw) = Inr h'"
    and h: "h = to_ascii_lowercase (trim (trim_end_matches 46 h'))"
    and ne: "h \<noteq> []" "42 \<notin> set h" "\<not> list_ex is_whitespace h"
    and raw: "47 \<notin> set (trim raw)" "63 \<notin> set (trim raw)" "35 \<notin> set (trim raw)"
    by (auto simp: normalize_network_rule_host_def Let_def split: if_splits sum.splits)
  have "set (trim (trim_end_matches 46 h')) \<subseteq> set (trim raw)"
    using set_trim set_trim_end_matches strip_host_port_set[OF h'] by blast
  with raw have "47 \<notin> set h'' \<and> 63 \<notin> set h'' \<and> 35 \<notin> set h''" if "h'' = trim (trim_end_matches 46 h')" for h''
    using that by blast
  then have low: "\<forall>c\<in>set h. c \<noteq> 47 \<and> c \<noteq> 63 \<and> c \<noteq> 35 \<and> \<not> (65 \<le> c \<and> c \<le> 90)"
    unfolding h to_ascii_lowercase_def using to_lower_ok[OF _ _ _ refl] by auto metis+
  with ne have ok: "list_all host_char_ok h"
    by (auto simp: list_all_iff list_ex_iff host_char_ok_def)
  moreover have "normalize_network_rule_host h = Inr h" if c: "58 \<notin> set h" "hd h \<noteq> 91" "last h \<noteq> 46"
  proof -
    have t: "trim h = h"
      using ne by (intro trim_id) (auto simp: trimmed_def list_ex_iff)
    have d: "trim_end_matches 46 h = h"
      using ne(1) c(3) by (cases h rule: rev_cases) (simp_all add: trim_end_matches_def)
    have l: "to_ascii_lowercase h = h"
      using low by (auto simp: to_ascii_lowercase_def to_ascii_lowercase_char_def intro!: map_idI)
    have n: "\<not> contains_sub h (lit ''://'')"
    proof -
      have "\<not> prefix (lit ''://'') (drop j h)" for j
      proof
        assume "prefix (lit ''://'') (drop j h)"
        then have "58 \<in> set (drop j h)" by (auto simp: lit_simps dest: set_mono_prefix)
        with c(1) show False by (meson in_set_dropD)
      qed
      then show ?thesis by (simp add: contains_sub_def find_sub_None)
    qed
    have "filter (\<lambda>c. c = 58) h = []" using c(1) by (auto simp: filter_empty_conv)
    then have s: "strip_host_port h h = Inr h"
      using c(2) ne(1) by (cases h) (simp_all add: strip_host_port_def strip_prefix_def starts_with_def)
    have "42 \<notin> set h" "47 \<notin> set h" "63 \<notin> set h" "35 \<notin> set h"
      using ok by (auto simp: list_all_iff host_char_ok_def)
    then show ?thesis using ne by (simp add: normalize_network_rule_host_def t d l n s)
  qed
  ultimately show ?thesis using ne(1) by blast
qed

theorem normalize_host_sound_witness:
  "normalize_network_rule_host (lit ''Example.COM:443'') = Inr (lit ''example.com'') \<and>
   normalize_network_rule_host (lit ''example.com'') = Inr (lit ''example.com'')"
proof -
  have h: "normalize_network_rule_host (lit ''Example.COM:443'') = Inr (lit ''example.com'')"
    by (simp add: normalize_network_rule_host_def lit_simps trim_def trim_start_def trim_end_def is_whitespace_def
        contains_sub_def starts_with_def strip_host_port_def strip_prefix_def rsplit_once_def is_port_def
        is_ascii_digit_def trim_end_matches_def to_ascii_lowercase_def to_ascii_lowercase_char_def)
  with normalize_host_sound[OF h] show ?thesis by (simp add: lit_simps)
qed

end
