(* ===== verification/ExecPolicy.thy ===== *)
theory ExecPolicy
  imports ExecRule "HOL-Library.List_Lexorder"
begin

text \<open>
  The policy engine of codex-rs/execpolicy/src/policy.rs: the table of rules by program,
  building and merging policies, matching a command exactly and through the base name of its
  executable, and the evaluation that picks the strictest decision. \<open>table_ok\<close> is the invariant
  of the table; the lemmas show that looking rules up by program loses no match.
\<close>

section \<open>The policy\<close>

text \<open>The multimap of rules: the programs in some order, each with its rules in insertion
  order. The iteration order of the hash map is the order of the list.\<close>

type_synonym rule_table = "(str \<times> prefix_rule list) list"

fun table_insert :: "str \<Rightarrow> prefix_rule \<Rightarrow> rule_table \<Rightarrow> rule_table" where
  "table_insert k r [] = [(k, [r])]"
| "table_insert k r ((k', rs) # t) =
     (if k' = k then (k', rs @ [r]) # t else (k', rs) # table_insert k r t)"

record policy =
  rules_by_program :: rule_table
  network_rules :: "network_rule list"
  host_executables :: "str \<rightharpoonup> str list"

definition empty_policy :: policy where
  "empty_policy = \<lparr>rules_by_program = [], network_rules = [], host_executables = Map.empty\<rparr>"

fun render_pattern_token :: "pattern_token \<Rightarrow> str" where
  "render_pattern_token (Single v) = v"
| "render_pattern_token (Alts as) = [91] @ join [124] as @ [93]"

definition allowed_prefix :: "prefix_rule \<Rightarrow> str list option" where
  "allowed_prefix r =
     (if rule_decision r \<noteq> Allow then None
      else Some (pat_first (rule_pattern r) # map render_pattern_token (pat_rest (rule_pattern r))))"

definition get_allowed_prefixes :: "policy \<Rightarrow> str list list" where
  "get_allowed_prefixes p =
     remdups_adj (sort (List.map_filter allowed_prefix (concat (map snd (rules_by_program p)))))"

definition add_prefix_rule :: "policy \<Rightarrow> str list \<Rightarrow> decision \<Rightarrow> policy_error + policy" where
  "add_prefix_rule p pre d =
     (case pre of
        [] \<Rightarrow> Inl (InvalidPattern (lit ''prefix cannot be empty''))
      | first # rest \<Rightarrow>
          Inr (p\<lparr>rules_by_program := table_insert first
            \<lparr>rule_pattern = \<lparr>pat_first = first, pat_rest = map Single rest\<rparr>,
             rule_decision = d, rule_justification = None\<rparr> (rules_by_program p)\<rparr>))"

definition add_network_rule ::
    "policy \<Rightarrow> str \<Rightarrow> network_protocol \<Rightarrow> decision \<Rightarrow> str option \<Rightarrow> policy_error + policy" where
  "add_network_rule p host protocol d justification =
     (case normalize_network_rule_host host of
        Inl e \<Rightarrow> Inl e
      | Inr h \<Rightarrow>
          (case justification of
             Some raw \<Rightarrow>
               if trim raw = [] then Inl (InvalidRule (lit ''justification cannot be empty''))
               else Inr (p\<lparr>network_rules := network_rules p @
                 [\<lparr>net_host = h, net_protocol = protocol, net_decision = d, net_justification = justification\<rparr>]\<rparr>)
           | None \<Rightarrow> Inr (p\<lparr>network_rules := network_rules p @
                 [\<lparr>net_host = h, net_protocol = protocol, net_decision = d, net_justification = None\<rparr>]\<rparr>)))"

definition set_host_executable_paths :: "policy \<Rightarrow> str \<Rightarrow> str list \<Rightarrow> policy" where
  "set_host_executable_paths p name paths =
     p\<lparr>host_executables := (host_executables p)(name \<mapsto> paths)\<rparr>"

definition insert_all :: "rule_table \<Rightarrow> rule_table \<Rightarrow> rule_table" where
  "insert_all overlay t = fold (\<lambda>(k, rs). fold (table_insert k) rs) overlay t"

definition merge_overlay :: "policy \<Rightarrow> policy \<Rightarrow> policy" where
  "merge_overlay p overlay =
     \<lparr>rules_by_program = insert_all (rules_by_program overlay) (rules_by_program p),
      network_rules = network_rules p @ network_rules overlay,
      host_executables = host_executables p ++ host_executables overlay\<rparr>"

definition upsert_domain :: "str list \<Rightarrow> str \<Rightarrow> str list" where
  "upsert_domain entries host = filter (\<lambda>e. e \<noteq> host) entries @ [host]"

definition compile_step :: "network_rule \<Rightarrow> str list \<times> str list \<Rightarrow> str list \<times> str list" where
  "compile_step r ad = (case ad of (allowed, denied) \<Rightarrow>
     (case net_decision r of
        Allow \<Rightarrow> (upsert_domain allowed (net_host r), filter (\<lambda>e. e \<noteq> net_host r) denied)
      | Forbidden \<Rightarrow> (filter (\<lambda>e. e \<noteq> net_host r) allowed, upsert_domain denied (net_host r))
      | Prompt \<Rightarrow> (allowed, denied)))"

definition compiled_network_domains :: "policy \<Rightarrow> str list \<times> str list" where
  "compiled_network_domains p = fold compile_step (network_rules p) ([], [])"

section \<open>Matching a command\<close>

definition match_exact_rules :: "policy \<Rightarrow> str list \<Rightarrow> rule_match list option" where
  "match_exact_rules p cmd =
     (case cmd of
        [] \<Rightarrow> None
      | first # _ \<Rightarrow>
          Some (case map_of (rules_by_program p) first of
                  Some rules \<Rightarrow> List.map_filter (\<lambda>r. rule_matches r cmd) rules
                | None \<Rightarrow> []))"

text \<open>\<open>executable_lookup_key\<close> and \<open>executable_path_lookup_key\<close> off Windows.\<close>

definition executable_lookup_key :: "str \<Rightarrow> str" where
  "executable_lookup_key raw = raw"

definition executable_path_lookup_key :: "str \<Rightarrow> str option" where
  "executable_path_lookup_key path = map_option executable_lookup_key (path_file_name path)"

lemma executable_path_lookup_key_eq: "executable_path_lookup_key path = path_file_name path"
  by (cases "path_file_name path") (simp_all add: executable_path_lookup_key_def executable_lookup_key_def)

definition match_host_executable_rules :: "path_env \<Rightarrow> policy \<Rightarrow> str list \<Rightarrow> rule_match list" where
  "match_host_executable_rules env p cmd =
     (case cmd of
        [] \<Rightarrow> []
      | first # args \<Rightarrow>
     (case absolute_path_buf env first of
        None \<Rightarrow> []
      | Some prog \<Rightarrow>
     (case executable_path_lookup_key prog of
        None \<Rightarrow> []
      | Some basename \<Rightarrow>
     (case map_of (rules_by_program p) basename of
        None \<Rightarrow> []
      | Some rules \<Rightarrow>
          if (case host_executables p basename of
                Some paths \<Rightarrow> \<not> list_ex (\<lambda>path. path = prog) paths
              | None \<Rightarrow> False)
          then []
          else map (with_resolved_program prog)
                 (List.map_filter (\<lambda>r. rule_matches r (basename # args)) rules)))))"

definition nonempty_option :: "'a list option \<Rightarrow> 'a list option" where
  "nonempty_option x = (case x of Some [] \<Rightarrow> None | _ \<Rightarrow> x)"

definition matches_for_command_with_options ::
    "path_env \<Rightarrow> policy \<Rightarrow> str list \<Rightarrow> (str list \<Rightarrow> decision) option \<Rightarrow> bool \<Rightarrow> rule_match list" where
  "matches_for_command_with_options env p cmd heuristics resolve_host_executables =
     (let matched =
        (case nonempty_option (match_exact_rules p cmd) of
           Some ms \<Rightarrow> ms
         | None \<Rightarrow>
             (case (if resolve_host_executables
                    then nonempty_option (Some (match_host_executable_rules env p cmd)) else None) of
                Some ms \<Rightarrow> ms
              | None \<Rightarrow> []))
      in case heuristics of
           Some h \<Rightarrow> if matched = [] then [HeuristicsRuleMatch cmd (h cmd)] else matched
         | None \<Rightarrow> matched)"

definition matches_for_command ::
    "path_env \<Rightarrow> policy \<Rightarrow> str list \<Rightarrow> (str list \<Rightarrow> decision) option \<Rightarrow> rule_match list" where
  "matches_for_command env p cmd heuristics = matches_for_command_with_options env p cmd heuristics False"

section \<open>Evaluation\<close>

record evaluation =
  eval_decision :: decision
  eval_matched_rules :: "rule_match list"

fun is_heuristics :: "rule_match \<Rightarrow> bool" where
  "is_heuristics (HeuristicsRuleMatch _ _) = True" | "is_heuristics _ = False"

definition is_match :: "evaluation \<Rightarrow> bool" where
  "is_match ev \<longleftrightarrow> list_ex (\<lambda>m. \<not> is_heuristics m) (eval_matched_rules ev)"

text \<open>\<open>Evaluation::from_matches\<close>; \<open>None\<close> is its panic on an empty list.\<close>

definition evaluation_from_matches :: "rule_match list \<Rightarrow> evaluation option" where
  "evaluation_from_matches ms =
     (if ms = [] then None
      else Some \<lparr>eval_decision = Max (set (map match_decision ms)), eval_matched_rules = ms\<rparr>)"

definition check_with_options ::
    "path_env \<Rightarrow> policy \<Rightarrow> str list \<Rightarrow> (str list \<Rightarrow> decision) \<Rightarrow> bool \<Rightarrow> evaluation option" where
  "check_with_options env p cmd h resolve =
     evaluation_from_matches (matches_for_command_with_options env p cmd (Some h) resolve)"

definition check :: "path_env \<Rightarrow> policy \<Rightarrow> str list \<Rightarrow> (str list \<Rightarrow> decision) \<Rightarrow> evaluation option" where
  "check env p cmd h = check_with_options env p cmd h False"

definition check_multiple_with_options ::
    "path_env \<Rightarrow> policy \<Rightarrow> str list list \<Rightarrow> (str list \<Rightarrow> decision) \<Rightarrow> bool \<Rightarrow> evaluation option" where
  "check_multiple_with_options env p cmds h resolve =
     evaluation_from_matches
       (concat (map (\<lambda>cmd. matches_for_command_with_options env p cmd (Some h) resolve) cmds))"

definition check_multiple ::
    "path_env \<Rightarrow> policy \<Rightarrow> str list list \<Rightarrow> (str list \<Rightarrow> decision) \<Rightarrow> evaluation option" where
  "check_multiple env p cmds h = check_multiple_with_options env p cmds h False"

section \<open>Well-formed tables\<close>

text \<open>Each program has one entry and each rule is stored under its program.\<close>

definition table_ok :: "rule_table \<Rightarrow> bool" where
  "table_ok t \<longleftrightarrow> distinct (map fst t) \<and> (\<forall>(k, rs)\<in>set t. rs \<noteq> [] \<and> (\<forall>r\<in>set rs. rule_program r = k))"

definition table_rules :: "rule_table \<Rightarrow> str \<Rightarrow> prefix_rule list" where
  "table_rules t k = (case map_of t k of Some rs \<Rightarrow> rs | None \<Rightarrow> [])"

definition all_rules :: "policy \<Rightarrow> prefix_rule set" where
  "all_rules p = set (concat (map snd (rules_by_program p)))"

lemma table_rules_Cons: "table_rules ((k', rs) # t) k = (if k' = k then rs else table_rules t k)"
  by (simp add: table_rules_def)

lemma table_rules_Nil [simp]: "table_rules [] k = []"
  by (simp add: table_rules_def)

lemma table_rules_insert:
  "table_rules (table_insert k r t) k' = table_rules t k' @ (if k' = k then [r] else [])"
proof (induction t)
  case (Cons e t)
  then show ?case by (cases e) (auto simp: table_rules_Cons)
qed (simp add: table_rules_Cons)

lemma fst_table_insert: "fst ` set (table_insert k r t) = insert k (fst ` set t)"
  by (induction k r t rule: table_insert.induct) auto

lemma table_ok_Cons:
  "table_ok ((k, rs) # t) \<longleftrightarrow>
     k \<notin> fst ` set t \<and> rs \<noteq> [] \<and> (\<forall>r\<in>set rs. rule_program r = k) \<and> table_ok t"
  by (auto simp: table_ok_def)

lemma table_ok_insert [step_intros]:
  "table_ok t \<Longrightarrow> rule_program r = k \<Longrightarrow> table_ok (table_insert k r t)"
proof (induction t)
  case Nil
  then show ?case by (simp add: table_ok_def)
next
  case (Cons e t)
  obtain k' rs where e: "e = (k', rs)" by (cases e)
  with Cons.prems have "table_ok t" "k' \<notin> fst ` set t" "rs \<noteq> []" "\<forall>r\<in>set rs. rule_program r = k'"
    by (simp_all add: table_ok_Cons)
  with Cons.IH Cons.prems(2) e show ?case
    by (auto simp: table_ok_Cons fst_table_insert)
qed

lemma table_insert_set:
  "set (concat (map snd (table_insert k r t))) = insert r (set (concat (map snd t)))"
  by (induction k r t rule: table_insert.induct) auto

lemma table_rules_no_key: "k \<notin> fst ` set t \<Longrightarrow> table_rules t k = []"
  by (simp add: table_rules_def map_of_eq_None_iff[THEN iffD2])

lemma table_rules_all:
  "table_ok t \<Longrightarrow> set (table_rules t k) = {r \<in> set (concat (map snd t)). rule_program r = k}"
proof (induction t)
  case (Cons e t)
  obtain k' rs where e: "e = (k', rs)" by (cases e)
  with Cons.prems have ok: "table_ok t" "k' \<notin> fst ` set t" "\<forall>r\<in>set rs. rule_program r = k'"
    by (simp_all add: table_ok_Cons)
  from Cons.IH[OF ok(1)] table_rules_no_key[OF ok(2)] ok(3) e show ?case
    by (auto simp: table_rules_Cons)
qed (simp add: table_rules_def)

section \<open>Exact matching\<close>

lemma match_exact_table:
  "match_exact_rules p (c # cs) =
     Some (List.map_filter (\<lambda>r. rule_matches r (c # cs)) (table_rules (rules_by_program p) c))"
  by (simp add: match_exact_rules_def table_rules_def map_filter_simps(2) split: option.split)

text \<open>The rules of the policy that match a command.\<close>

definition matching_rules :: "policy \<Rightarrow> str list \<Rightarrow> rule_match list" where
  "matching_rules p cmd =
     (case match_exact_rules p cmd of None \<Rightarrow> [] | Some ms \<Rightarrow> ms)"

lemma matching_rules_table:
  "matching_rules p cmd =
     (case cmd of [] \<Rightarrow> []
      | c # cs \<Rightarrow> List.map_filter (\<lambda>r. rule_matches r cmd) (table_rules (rules_by_program p) c))"
  by (cases cmd) (simp_all add: matching_rules_def match_exact_table, simp add: match_exact_rules_def)

lemma set_map_filter: "set (List.map_filter f xs) = {y. \<exists>x\<in>set xs. f x = Some y}"
  by (force simp: map_filter_def)

text \<open>Looking rules up by program loses no match.\<close>

lemma matching_rules_all:
  assumes "table_ok (rules_by_program p)"
  shows "set (matching_rules p cmd) = {m. \<exists>r\<in>all_rules p. rule_matches r cmd = Some m}"
proof (cases cmd)
  case Nil
  then show ?thesis by (simp add: matching_rules_table prefix_rules.no_match_empty)
next
  case (Cons c cs)
  then show ?thesis
    using table_rules_all[OF assms, of c] prefix_rules.match_program
    by (fastforce simp: matching_rules_table set_map_filter all_rules_def)
qed

lemma matches_with_heuristics:
  "matches_for_command_with_options env p cmd (Some h) resolve =
     (if matching_rules p cmd \<noteq> [] then matching_rules p cmd
      else if resolve \<and> match_host_executable_rules env p cmd \<noteq> []
      then match_host_executable_rules env p cmd
      else [HeuristicsRuleMatch cmd (h cmd)])"
  by (auto simp: matches_for_command_with_options_def matching_rules_def nonempty_option_def Let_def
      split: option.splits list.splits)

lemma matches_nonempty [simp]: "matches_for_command_with_options env p cmd (Some h) resolve \<noteq> []"
  by (simp add: matches_with_heuristics)

section \<open>Matching through the base name\<close>

lemma match_host_table:
  "match_host_executable_rules env p (first # args) =
     (case absolute_path_buf env first of
        None \<Rightarrow> []
      | Some prog \<Rightarrow>
          (case executable_path_lookup_key prog of
             None \<Rightarrow> []
           | Some basename \<Rightarrow>
               if (case host_executables p basename of Some paths \<Rightarrow> \<not> list_ex (\<lambda>path. path = prog) paths | None \<Rightarrow> False)
               then []
               else map (with_resolved_program prog)
                      (List.map_filter (\<lambda>r. rule_matches r (basename # args)) (table_rules (rules_by_program p) basename))))"
  by (auto simp: match_host_executable_rules_def table_rules_def map_filter_simps split: option.splits)

text \<open>
  What the rules say of a command under the base name of its program: the program resolves to an absolute path, which is
  one of those registered for the name if any are, and the rule matches the command with the name in its place.
\<close>

definition base_name_matches :: "path_env \<Rightarrow> policy \<Rightarrow> str list \<Rightarrow> rule_match set" where
  "base_name_matches env p cmd =
     {with_resolved_program prog m | first args prog basename r m.
        cmd = first # args \<and> absolute_path_buf env first = Some prog \<and> path_file_name prog = Some basename \<and>
        (\<forall>paths. host_executables p basename = Some paths \<longrightarrow> prog \<in> set paths) \<and>
        r \<in> all_rules p \<and> rule_matches r (basename # args) = Some m}"

lemma match_host_all:
  assumes "table_ok (rules_by_program p)"
  shows "set (match_host_executable_rules env p cmd) = base_name_matches env p cmd"
proof (cases cmd)
  case (Cons first args)
  have r: "{m. \<exists>r\<in>set (table_rules (rules_by_program p) b). rule_matches r (b # args) = Some m} =
      {m. \<exists>r\<in>all_rules p. rule_matches r (b # args) = Some m}" for b
    using table_rules_all[OF assms, of b] prefix_rules.match_program by (fastforce simp: all_rules_def)
  have "set (map f (List.map_filter (\<lambda>r. rule_matches r (b # args)) (table_rules (rules_by_program p) b))) =
      {f m | r m. r \<in> all_rules p \<and> rule_matches r (b # args) = Some m}" for f :: "rule_match \<Rightarrow> rule_match" and b
    unfolding set_map set_map_filter r by blast
  then show ?thesis
    by (cases "absolute_path_buf env first"; cases "path_file_name (the (absolute_path_buf env first))";
        cases "host_executables p (the (path_file_name (the (absolute_path_buf env first))))")
      (auto simp: Cons match_host_table executable_path_lookup_key_eq base_name_matches_def list_ex_iff simp del: set_map)
qed (simp add: match_host_executable_rules_def base_name_matches_def)

section \<open>The decision\<close>

text \<open>
  C36. Checking a command never panics, and the strictest matching rule wins. The matches are
  those of all rules of the policy that match the command as it is written; without one, and with resolution of executables switched on, those
  that match it under the base name of its program; without those too, the single match of the heuristics with
  their decision. The decision is reached by some of the matches and is at least as strict as every one of them.
\<close>

theorem check_strictest_wins:
  assumes "table_ok (rules_by_program p)"
  shows "\<exists>ev. check_with_options env p cmd h resolve = Some ev \<and>
     (let matched = {m. \<exists>r\<in>all_rules p. rule_matches r cmd = Some m};
          by_name = (if resolve then base_name_matches env p cmd else {}) in
       (matched \<noteq> {} \<longrightarrow> set (eval_matched_rules ev) = matched) \<and>
       (matched = {} \<and> by_name \<noteq> {} \<longrightarrow> set (eval_matched_rules ev) = by_name) \<and>
       (matched = {} \<and> by_name = {} \<longrightarrow>
          eval_decision ev = h cmd \<and> eval_matched_rules ev = [HeuristicsRuleMatch cmd (h cmd)])) \<and>
     (\<exists>m\<in>set (eval_matched_rules ev). eval_decision ev = match_decision m) \<and>
     (\<forall>m\<in>set (eval_matched_rules ev). match_decision m \<le> eval_decision ev)"
proof -
  define ms where "ms = matches_for_command_with_options env p cmd (Some h) resolve"
  define d where "d = Max (set (map match_decision ms))"
  have ne: "ms \<noteq> []" by (simp add: ms_def)
  have ev: "check_with_options env p cmd h resolve = Some \<lparr>eval_decision = d, eval_matched_rules = ms\<rparr>"
    using ne by (simp add: check_with_options_def evaluation_from_matches_def ms_def d_def)
  have "d \<in> match_decision ` set ms" "\<forall>m\<in>set ms. match_decision m \<le> d"
    using ne Max_in[of "match_decision ` set ms"] by (simp_all add: d_def)
  then have strictest: "(\<exists>m\<in>set ms. d = match_decision m) \<and> (\<forall>m\<in>set ms. match_decision m \<le> d)"
    by blast
  have heur: "ms = [HeuristicsRuleMatch cmd (h cmd)] \<Longrightarrow> d = h cmd"
    by (simp add: d_def)
  have m: "ms = (if matching_rules p cmd \<noteq> [] then matching_rules p cmd
      else if resolve \<and> match_host_executable_rules env p cmd \<noteq> [] then match_host_executable_rules env p cmd
      else [HeuristicsRuleMatch cmd (h cmd)])"
    by (simp add: ms_def matches_with_heuristics)
  have "(matching_rules p cmd \<noteq> [] \<longrightarrow> set ms = set (matching_rules p cmd)) \<and>
      (matching_rules p cmd = [] \<and> resolve \<and> match_host_executable_rules env p cmd \<noteq> [] \<longrightarrow>
         set ms = set (match_host_executable_rules env p cmd)) \<and>
      (matching_rules p cmd = [] \<and> (resolve \<longrightarrow> match_host_executable_rules env p cmd = []) \<longrightarrow>
         d = h cmd \<and> ms = [HeuristicsRuleMatch cmd (h cmd)])"
    using m heur by (auto split: if_splits)
  then show ?thesis
    using strictest unfolding ev Let_def matching_rules_all[OF assms, of cmd, symmetric] match_host_all[OF assms, symmetric]
    by simp
qed

text \<open>
  Checking several commands panics exactly on an empty list of commands; otherwise it
  gathers the matches of the single commands and its decision is the strictest of theirs.
\<close>

theorem check_multiple_strictest:
  "map_option eval_decision (check_multiple_with_options env p cmds h resolve) =
     (if cmds = [] then None
      else Some (Max ((\<lambda>cmd. eval_decision (the (check_with_options env p cmd h resolve))) ` set cmds)))"
proof (cases "cmds = []")
  case False
  define f where "f = (\<lambda>cmd. matches_for_command_with_options env p cmd (Some h) resolve)"
  have f: "f cmd \<noteq> []" for cmd by (simp add: f_def)
  have one: "eval_decision (the (check_with_options env p cmd h resolve)) = Max (match_decision ` set (f cmd))" for cmd
    using f[of cmd] by (simp add: check_with_options_def evaluation_from_matches_def f_def)
  have "Max (\<Union>cmd\<in>set cmds. match_decision ` set (f cmd)) =
      Max ((\<lambda>cmd. Max (match_decision ` set (f cmd))) ` set cmds)"
  proof (rule Max_eqI)
    let ?g = "\<lambda>cmd. Max (match_decision ` set (f cmd))"
    fix d assume "d \<in> (\<Union>cmd\<in>set cmds. match_decision ` set (f cmd))"
    then obtain cmd where "cmd \<in> set cmds" "d \<in> match_decision ` set (f cmd)" by blast
    then have "d \<le> ?g cmd" "?g cmd \<le> Max (?g ` set cmds)" by simp_all
    then show "d \<le> Max (?g ` set cmds)" by (rule order_trans)
  next
    let ?g = "\<lambda>cmd. Max (match_decision ` set (f cmd))"
    have g: "?g cmd \<in> match_decision ` set (f cmd)" for cmd using f by (intro Max_in) simp_all
    have "Max (?g ` set cmds) \<in> ?g ` set cmds" using False by (intro Max_in) simp_all
    then show "Max (?g ` set cmds) \<in> (\<Union>cmd\<in>set cmds. match_decision ` set (f cmd))"
      using g by force
  qed simp
  moreover have "set (map match_decision (concat (map f cmds))) = (\<Union>cmd\<in>set cmds. match_decision ` set (f cmd))"
    by auto
  moreover have "concat (map f cmds) \<noteq> []" using False f by (cases cmds) auto
  ultimately show ?thesis
    using False by (simp add: check_multiple_with_options_def evaluation_from_matches_def one f_def)
qed (simp add: check_multiple_with_options_def evaluation_from_matches_def)

section \<open>Building and merging policies\<close>

lemma fold_table_insert_rules:
  "table_rules (fold (table_insert k) rs t) k' = table_rules t k' @ (if k' = k then rs else [])"
  by (induction rs arbitrary: t) (auto simp: table_rules_insert)

lemma insert_all_rules:
  "distinct (map fst overlay) \<Longrightarrow> table_rules (insert_all overlay t) k = table_rules t k @ table_rules overlay k"
proof (induction overlay arbitrary: t)
  case (Cons e overlay)
  obtain k' rs where e: "e = (k', rs)" by (cases e)
  with Cons.prems have "k' \<notin> fst ` set overlay" "distinct (map fst overlay)" by auto
  then show ?case
    using Cons.IH[of "fold (table_insert k') rs t"] table_rules_no_key[of k' overlay]
    by (auto simp: e insert_all_def fold_table_insert_rules table_rules_Cons)
qed (simp add: insert_all_def)

lemma fold_table_insert_ok:
  "table_ok t \<Longrightarrow> \<forall>r\<in>set rs. rule_program r = k \<Longrightarrow> table_ok (fold (table_insert k) rs t)"
  by (induction rs arbitrary: t) (auto intro: table_ok_insert)

lemma insert_all_ok:
  "table_ok t \<Longrightarrow> table_ok overlay \<Longrightarrow> table_ok (insert_all overlay t)"
proof (induction overlay arbitrary: t)
  case (Cons e overlay)
  obtain k rs where e: "e = (k, rs)" by (cases e)
  with Cons show ?case
    using fold_table_insert_ok[of t rs k] by (auto simp: insert_all_def table_ok_Cons)
qed (simp add: insert_all_def)

lemma table_ok_merge [step_intros]:
  "table_ok (rules_by_program p) \<Longrightarrow> table_ok (rules_by_program q) \<Longrightarrow>
   table_ok (rules_by_program (merge_overlay p q))"
  by (simp add: merge_overlay_def insert_all_ok)

lemma table_ok_add_prefix [step_intros]:
  "table_ok (rules_by_program p) \<Longrightarrow> add_prefix_rule p pre d = Inr p' \<Longrightarrow> table_ok (rules_by_program p')"
  by (auto simp: add_prefix_rule_def rule_program_def intro!: table_ok_insert split: list.splits)

lemma map_filter_append: "List.map_filter f (xs @ ys) = List.map_filter f xs @ List.map_filter f ys"
  by (simp add: map_filter_def)

lemma matching_rules_merge:
  "table_ok (rules_by_program q) \<Longrightarrow>
   matching_rules (merge_overlay p q) cmd = matching_rules p cmd @ matching_rules q cmd"
  by (auto simp: matching_rules_table merge_overlay_def insert_all_rules table_ok_def map_filter_append
      split: list.split)

lemma check_matching:
  "matching_rules p cmd \<noteq> [] \<Longrightarrow>
   check_with_options env p cmd h resolve =
     Some \<lparr>eval_decision = Max (match_decision ` set (matching_rules p cmd)),
           eval_matched_rules = matching_rules p cmd\<rparr>"
  by (simp add: check_with_options_def evaluation_from_matches_def matches_with_heuristics)

text \<open>
  An overlay only adds: the merged policy matches what the base matches followed by what
  the overlay matches, so a decision that a rule of the base gave is never relaxed.
\<close>

theorem merge_overlay_monotone:
  assumes "table_ok (rules_by_program p)" and "table_ok (rules_by_program q)"
  shows "matching_rules (merge_overlay p q) cmd = matching_rules p cmd @ matching_rules q cmd \<and>
    table_ok (rules_by_program (merge_overlay p q)) \<and>
    (matching_rules p cmd \<noteq> [] \<longrightarrow>
       eval_decision (the (check_with_options env p cmd h resolve))
       \<le> eval_decision (the (check_with_options env (merge_overlay p q) cmd h resolve)))"
  using assms table_ok_merge[OF assms]
  by (auto simp: matching_rules_merge check_matching intro!: Max_mono)

lemma list_all2_singles: "list_all2 token_matches (map Single xs) ys \<longleftrightarrow> ys = xs"
proof (induction xs arbitrary: ys)
  case (Cons x xs)
  then show ?case by (cases ys) auto
qed auto

lemma matches_prefix_singles:
  "matches_prefix \<lparr>pat_first = x, pat_rest = map Single xs\<rparr> cmd =
     (if prefix (x # xs) cmd then Some (x # xs) else None)"
proof (cases "prefix (x # xs) cmd")
  case True
  then have "matches_prefix \<lparr>pat_first = x, pat_rest = map Single xs\<rparr> cmd = Some (x # xs)"
    by (auto simp: matches_prefix_Some prefix_def list_all2_singles)
  with True show ?thesis by simp
next
  case False
  then show ?thesis
    by (cases "matches_prefix \<lparr>pat_first = x, pat_rest = map Single xs\<rparr> cmd")
      (auto simp: matches_prefix_Some list_all2_singles)
qed

text \<open>
  Approving a prefix affects exactly the commands that start with it: such a command gets
  one more match with the given decision, after the matches it had, and every other command
  matches what it matched before.
\<close>

theorem add_prefix_rule_effect:
  assumes "add_prefix_rule p pre d = Inr p'"
  shows "matching_rules p' cmd =
     matching_rules p cmd @ (if prefix pre cmd then [PrefixRuleMatch pre d None None] else [])"
proof -
  from assms obtain x xs where pre: "pre = x # xs" by (cases pre) (auto simp: add_prefix_rule_def)
  let ?r = "\<lparr>rule_pattern = \<lparr>pat_first = x, pat_rest = map Single xs\<rparr>,
             rule_decision = d, rule_justification = None\<rparr>"
  have p': "p' = p\<lparr>rules_by_program := table_insert x ?r (rules_by_program p)\<rparr>"
    using assms pre by (simp add: add_prefix_rule_def)
  show ?thesis
    by (cases cmd)
      (auto simp: matching_rules_table p' pre table_rules_insert map_filter_append rule_matches_def
        matches_prefix_singles map_filter_simps)
qed

section \<open>Network domains\<close>

text \<open>The verdict on a host: the last rule for it that is not a prompt.\<close>

definition last_verdict :: "network_rule list \<Rightarrow> str \<Rightarrow> decision option" where
  "last_verdict rs host =
     map_option net_decision (last_opt (filter (\<lambda>r. net_host r = host \<and> net_decision r \<noteq> Prompt) rs))"

lemma last_verdict_snoc:
  "last_verdict (rs @ [r]) host =
     (if net_host r = host \<and> net_decision r \<noteq> Prompt then Some (net_decision r) else last_verdict rs host)"
  by (simp add: last_verdict_def)

text \<open>
  The compiled domain lists are without duplicates and disjoint, and the last allow or deny
  rule of a host decides in which of them it is.
\<close>

theorem compiled_domains_last_rule:
  "case compiled_network_domains p of (allowed, denied) \<Rightarrow>
     distinct allowed \<and> distinct denied \<and> set allowed \<inter> set denied = {} \<and>
     (\<forall>host. (host \<in> set allowed \<longleftrightarrow> last_verdict (network_rules p) host = Some Allow) \<and>
             (host \<in> set denied \<longleftrightarrow> last_verdict (network_rules p) host = Some Forbidden))"
proof -
  have "case fold compile_step rs ([], []) of (allowed, denied) \<Rightarrow>
     distinct allowed \<and> distinct denied \<and>
     (\<forall>host. (host \<in> set allowed \<longleftrightarrow> last_verdict rs host = Some Allow) \<and>
             (host \<in> set denied \<longleftrightarrow> last_verdict rs host = Some Forbidden))" for rs
  proof (induction rs rule: rev_induct)
    case (snoc r rs)
    then show ?case
      by (cases "net_decision r")
        (auto simp: compile_step_def upsert_domain_def last_verdict_snoc split: prod.splits)
  qed (simp add: last_verdict_def)
  from this[of "network_rules p"] show ?thesis
    by (auto simp: compiled_network_domains_def split: prod.splits)
qed

section \<open>Allowed prefixes\<close>

lemma sorted_remdups_adj_distinct: "sorted xs \<Longrightarrow> distinct (remdups_adj xs)"
  by (induction xs rule: remdups_adj.induct) (auto simp: remdups_adj_set)

text \<open>
  The list of allowed prefixes is strictly sorted, so it does not depend on the iteration
  order of the hash map, and it holds exactly the rendered patterns of the allow rules.
\<close>

theorem allowed_prefixes_exact:
  "sorted (get_allowed_prefixes p) \<and> distinct (get_allowed_prefixes p) \<and>
   set (get_allowed_prefixes p) =
     {pat_first (rule_pattern r) # map render_pattern_token (pat_rest (rule_pattern r)) | r.
        r \<in> all_rules p \<and> rule_decision r = Allow}"
  by (auto simp: get_allowed_prefixes_def sorted_remdups_adj sorted_remdups_adj_distinct set_map_filter
      allowed_prefix_def all_rules_def split: if_splits)

section \<open>Appended arguments and resolved executables\<close>

lemma matching_rules_extends:
  "m \<in> set (matching_rules p cmd) \<Longrightarrow> m \<in> set (matching_rules p (cmd @ xs))"
  by (cases cmd) (auto simp: matching_rules_table dest: prefix_rules.matched_extends[of _ _ _ xs])

text \<open>
  Appending arguments never relaxes a decision that rules gave: every match of the shorter
  command is a match of the longer one.
\<close>

theorem check_appended_arguments:
  assumes "matching_rules p cmd \<noteq> []"
  shows "set (matching_rules p cmd) \<subseteq> set (matching_rules p (cmd @ xs)) \<and>
    eval_decision (the (check_with_options env p cmd h resolve))
    \<le> eval_decision (the (check_with_options env p (cmd @ xs) h resolve))"
proof -
  have sub: "set (matching_rules p cmd) \<subseteq> set (matching_rules p (cmd @ xs))"
    using matching_rules_extends by blast
  then have "matching_rules p (cmd @ xs) \<noteq> []" using assms by auto
  moreover have "Max (match_decision ` set (matching_rules p cmd))
      \<le> Max (match_decision ` set (matching_rules p (cmd @ xs)))"
    by (rule Max_mono) (use sub assms in auto)
  ultimately show ?thesis using sub assms by (simp add: check_matching)
qed

text \<open>
  Executable resolution is confined: a match found through the base name carries the
  normalised absolute path of the program, comes from a rule keyed by its base name, and when
  the base name has registered paths the program is one of them.
\<close>

theorem host_executable_confined:
  assumes "table_ok (rules_by_program p)" and "m \<in> set (match_host_executable_rules env p cmd)"
  shows "\<exists>prog basename pre d j r. absolute_path_buf env (hd cmd) = Some prog \<and>
     path_is_absolute prog \<and> normalize_path prog = prog \<and> path_file_name prog = Some basename \<and>
     m = PrefixRuleMatch pre d (Some prog) j \<and> r \<in> all_rules p \<and> rule_program r = basename \<and>
     rule_decision r = d \<and> prefix pre (basename # tl cmd) \<and>
     (\<forall>paths. host_executables p basename = Some paths \<longrightarrow> prog \<in> set paths)"
proof -
  from assms(2) obtain first args where cmd: "cmd = first # args"
    by (cases cmd) (auto simp: match_host_executable_rules_def)
  with assms(2) obtain prog where prog: "absolute_path_buf env first = Some prog"
    by (cases "absolute_path_buf env first") (auto simp: match_host_executable_rules_def)
  with assms(2) cmd obtain basename where base: "path_file_name prog = Some basename"
    by (cases "path_file_name prog") (auto simp: match_host_executable_rules_def executable_path_lookup_key_eq)
  with assms(2) cmd prog obtain rules where rules: "map_of (rules_by_program p) basename = Some rules"
    by (cases "map_of (rules_by_program p) basename")
      (auto simp: match_host_executable_rules_def executable_path_lookup_key_eq)
  from assms(2) have
    paths: "\<forall>paths. host_executables p basename = Some paths \<longrightarrow> prog \<in> set paths" and
    m: "m \<in> set (map (with_resolved_program prog) (List.map_filter (\<lambda>r. rule_matches r (basename # args)) rules))"
    by (auto simp: match_host_executable_rules_def executable_path_lookup_key_eq cmd prog base rules
        list_ex_iff split: option.splits if_splits)
  from m obtain r m' where r: "r \<in> set rules" "rule_matches r (basename # args) = Some m'"
    "m = with_resolved_program prog m'"
    by (auto simp: set_map_filter)
  have "r \<in> set (table_rules (rules_by_program p) basename)"
    using r(1) rules by (simp add: table_rules_def)
  then have "r \<in> all_rules p" "rule_program r = basename"
    using table_rules_all[OF assms(1)] by (auto simp: all_rules_def)
  moreover from r(2,3) obtain pre where
    "m = PrefixRuleMatch pre (rule_decision r) (Some prog) (rule_justification r)" "prefix pre (basename # args)"
    by (auto simp: rule_matches_def matches_prefix_Some)
  ultimately show ?thesis
    using cmd prog base paths absolute_path_buf_absolute[OF prog] by fastforce
qed

text \<open>
  The resolution also accepts relative program paths: \<open>./git\<close> is resolved against the current
  directory and allowed by the rule for \<open>git\<close>, although the resolution is documented for
  absolute paths only.
\<close>

theorem relative_program_resolved:
  "check_with_options \<lparr>home_dir = None, current_dir = Some (lit ''/w'')\<rparr>
     \<lparr>rules_by_program = [(lit ''git'',
        [\<lparr>rule_pattern = \<lparr>pat_first = lit ''git'', pat_rest = []\<rparr>, rule_decision = Allow,
          rule_justification = None\<rparr>])],
      network_rules = [], host_executables = Map.empty\<rparr>
     [lit ''./git''] (\<lambda>_. Forbidden) True =
   Some \<lparr>eval_decision = Allow,
         eval_matched_rules = [PrefixRuleMatch [lit ''git''] Allow (Some (lit ''/w/git'')) None]\<rparr>"
  by (simp add: check_with_options_def evaluation_from_matches_def matches_with_heuristics matching_rules_table
      table_rules_def match_host_executable_rules_def absolute_path_buf_def expand_home_def absolutize_def
      path_is_absolute_def starts_with_def lit_simps normalize_path_def normalized_components_def
      path_normal_parts_def path_join_def ends_with_def render_absolute_def executable_path_lookup_key_def
      executable_lookup_key_def path_file_name_def last_opt_def map_filter_simps rule_matches_def matches_prefix_def)

section \<open>Witnesses\<close>

definition demo_policy :: policy where
  "demo_policy = \<lparr>rules_by_program = [(lit ''git'',
        [\<lparr>rule_pattern = \<lparr>pat_first = lit ''git'', pat_rest = []\<rparr>, rule_decision = Allow,
          rule_justification = None\<rparr>,
         \<lparr>rule_pattern = \<lparr>pat_first = lit ''git'', pat_rest = [Alts [lit ''push'', lit ''pull'']]\<rparr>,
          rule_decision = Prompt, rule_justification = None\<rparr>])],
      network_rules = [], host_executables = [lit ''git'' \<mapsto> [lit ''/bin/git'']]\<rparr>"

lemma demo_policy_ok: "table_ok (rules_by_program demo_policy)"
  by (simp add: demo_policy_def table_ok_def rule_program_def)

lemma demo_matching:
  "matching_rules demo_policy [lit ''git''] = [PrefixRuleMatch [lit ''git''] Allow None None]"
  "matching_rules demo_policy [lit ''git'', lit ''push''] =
     [PrefixRuleMatch [lit ''git''] Allow None None,
      PrefixRuleMatch [lit ''git'', lit ''push''] Prompt None None]"
  by (simp_all add: matching_rules_table demo_policy_def table_rules_def map_filter_simps rule_matches_def
      matches_prefix_def lit_simps)

theorem check_strictest_wins_witness:
  "\<forall>env h. \<exists>ev. check_with_options env demo_policy [lit ''git'', lit ''push''] h True = Some ev \<and> Prompt \<le> eval_decision ev"
proof (intro allI)
  fix env h
  have "PrefixRuleMatch [lit ''git'', lit ''push''] Prompt None None
      \<in> {m. \<exists>r\<in>all_rules demo_policy. rule_matches r [lit ''git'', lit ''push''] = Some m}"
    unfolding matching_rules_all[OF demo_policy_ok, symmetric] by (simp add: demo_matching)
  with check_strictest_wins[OF demo_policy_ok, of env "[lit ''git'', lit ''push'']" h True]
  show "\<exists>ev. check_with_options env demo_policy [lit ''git'', lit ''push''] h True = Some ev \<and> Prompt \<le> eval_decision ev"
    unfolding Let_def by fastforce
qed

theorem merge_overlay_monotone_witness:
  "matching_rules (merge_overlay demo_policy demo_policy) [lit ''git''] =
     [PrefixRuleMatch [lit ''git''] Allow None None, PrefixRuleMatch [lit ''git''] Allow None None]"
  using merge_overlay_monotone[OF demo_policy_ok demo_policy_ok, of "[lit ''git'']"] by (simp add: demo_matching)

theorem add_prefix_rule_effect_witness:
  "matching_rules (projr (add_prefix_rule demo_policy [lit ''git''] Forbidden)) [lit ''git''] =
     [PrefixRuleMatch [lit ''git''] Allow None None, PrefixRuleMatch [lit ''git''] Forbidden None None]"
proof -
  obtain p' where p': "add_prefix_rule demo_policy [lit ''git''] Forbidden = Inr p'"
    by (simp add: add_prefix_rule_def)
  from add_prefix_rule_effect[OF p', of "[lit ''git'']"] p' show ?thesis by (simp add: demo_matching)
qed

theorem check_appended_arguments_witness:
  "\<forall>env h. Allow \<le> eval_decision (the (check_with_options env demo_policy ([lit ''git''] @ [lit ''push'']) h True)) \<and>
   PrefixRuleMatch [lit ''git''] Allow None None \<in> set (matching_rules demo_policy ([lit ''git''] @ [lit ''push'']))"
  using check_appended_arguments[of demo_policy "[lit ''git'']" "[lit ''push'']" _ _ True]
  by (simp add: demo_matching(1))

theorem host_executable_confined_witness:
  "\<exists>prog. absolute_path_buf \<lparr>home_dir = None, current_dir = None\<rparr> (lit ''/bin/git'') = Some prog \<and>
     prog \<in> set [lit ''/bin/git'']"
proof -
  let ?env = "\<lparr>home_dir = None, current_dir = None\<rparr>"
  have "PrefixRuleMatch [lit ''git''] Allow (Some (lit ''/bin/git'')) None
      \<in> set (match_host_executable_rules ?env demo_policy [lit ''/bin/git''])"
    by (simp add: demo_policy_def match_host_executable_rules_def absolute_path_buf_def expand_home_def absolutize_def
      path_is_absolute_def starts_with_def lit_simps normalize_path_def normalized_components_def
      path_normal_parts_def render_absolute_def executable_path_lookup_key_def
      executable_lookup_key_def path_file_name_def last_opt_def map_filter_simps rule_matches_def matches_prefix_def)
  from host_executable_confined[OF demo_policy_ok this] obtain prog basename r where
    a: "absolute_path_buf ?env (lit ''/bin/git'') = Some prog" "r \<in> all_rules demo_policy" "rule_program r = basename"
      "\<forall>paths. host_executables demo_policy basename = Some paths \<longrightarrow> prog \<in> set paths" by auto
  then have "basename = lit ''git''"
    by (auto simp: all_rules_def demo_policy_def rule_program_def)
  with a show ?thesis by (auto simp: demo_policy_def)
qed

end
