(* ===== verification/ExecAmend.thy ===== *)
theory ExecAmend
  imports ExecPolicy
begin

text \<open>
  Amending policy files on disk: the rule lines and the locked append of
  codex-rs/execpolicy/src/amend.rs, and the one-shot removal of banned allow rules of
  sandbox\_migration.rs. Files are their texts; JSON encoding and decoding, locking and the
  outcome of the I/O calls are parameters.
\<close>

section \<open>Rule lines\<close>

text \<open>\<open>json_string\<close> stands for \<open>serde_json::to_string\<close> on a string.\<close>

datatype amend_error =
    EmptyPrefix
  | InvalidNetworkRule policy_error
  | MissingParent str
  | PolicyFileIo str

definition allow_prefix_rule_line :: "(str \<Rightarrow> str) \<Rightarrow> str list \<Rightarrow> amend_error + str" where
  "allow_prefix_rule_line json_string pre =
     (if pre = [] then Inl EmptyPrefix
      else Inr (lit ''prefix_rule(pattern='' @ [91] @ join (lit '', '') (map json_string pre) @ [93] @
                lit '', decision='' @ [34] @ lit ''allow'' @ [34] @ lit '')''))"

fun decision_policy_string :: "decision \<Rightarrow> str" where
  "decision_policy_string Allow = lit ''allow''"
| "decision_policy_string Prompt = lit ''prompt''"
| "decision_policy_string Forbidden = lit ''deny''"

definition network_rule_line ::
    "(str \<Rightarrow> str) \<Rightarrow> str \<Rightarrow> network_protocol \<Rightarrow> decision \<Rightarrow> str option \<Rightarrow> amend_error + str" where
  "network_rule_line json_string host protocol d justification =
     (case normalize_network_rule_host host of
        Inl e \<Rightarrow> Inl (InvalidNetworkRule e)
      | Inr h \<Rightarrow>
          if (case justification of Some raw \<Rightarrow> trim raw = [] | None \<Rightarrow> False)
          then Inl (InvalidNetworkRule (InvalidRule (lit ''justification cannot be empty'')))
          else
            (let args = [lit ''host='' @ json_string h,
                         lit ''protocol='' @ json_string (protocol_policy_string protocol),
                         lit ''decision='' @ json_string (decision_policy_string d)] @
                        (case justification of Some j \<Rightarrow> [lit ''justification='' @ json_string j] | None \<Rightarrow> [])
             in Inr (lit ''network_rule('' @ join (lit '', '') args @ lit '')'')))"

section \<open>Appending a line\<close>

text \<open>The new contents of the locked file.\<close>

definition append_locked_line :: "str \<Rightarrow> str \<Rightarrow> str" where
  "append_locked_line contents line =
     (if list_ex (\<lambda>existing. existing = line) (str_lines contents) then contents
      else (if contents \<noteq> [] \<and> \<not> ends_with contents [NL] then contents @ [NL] else contents) @ line @ [NL])"

text \<open>\<open>append_rule_line\<close> on a file system that is the text of the policy file: the parent
  directory, creating it (already existing is no error) and the file operations.\<close>

definition append_rule_line ::
    "str option \<Rightarrow> (amend_error + unit) \<Rightarrow> (amend_error + str) \<Rightarrow> str \<Rightarrow> str \<Rightarrow> amend_error + str" where
  "append_rule_line parent create_dir read_file path line =
     (case parent of
        None \<Rightarrow> Inl (MissingParent path)
      | Some _ \<Rightarrow>
          (case create_dir of
             Inl e \<Rightarrow> Inl e
           | Inr _ \<Rightarrow> map_sum id (\<lambda>contents. append_locked_line contents line) read_file))"

lemma split_inclusive_nl_append:
  "s = [] \<or> last s = NL \<Longrightarrow> split_inclusive_nl (s @ t) = split_inclusive_nl s @ split_inclusive_nl t"
proof (induction s)
  case (Cons x s)
  show ?case
  proof (cases "s = []")
    case True
    with Cons.prems show ?thesis by simp
  next
    case False
    then have "split_inclusive_nl s \<noteq> []" by (cases s) (auto split: list.splits)
    with False Cons show ?thesis by (auto split: list.splits)
  qed
qed simp

lemma str_lines_append:
  "s = [] \<or> last s = NL \<Longrightarrow> str_lines (s @ t) = str_lines s @ str_lines t"
  by (simp add: str_lines_def split_inclusive_nl_append)

lemma str_lines_one: "is_line l \<Longrightarrow> str_lines (l @ [NL]) = [l]"
  using split_inclusive_line[of l "[]"] by (simp add: str_lines_def strip_cr_id is_line_def)

lemma split_inclusive_concat: "concat (split_inclusive_nl s) = s"
  by (induction s) (auto split: list.splits)

lemma split_inclusive_pieces:
  "p \<in> set (split_inclusive_nl s) \<Longrightarrow> p \<noteq> [] \<and> NL \<notin> set (butlast p)"
proof (induction s arbitrary: p)
  case (Cons x s)
  show ?case
  proof (cases "split_inclusive_nl s")
    case Nil
    with Cons.prems show ?thesis by (auto split: if_splits)
  next
    case (Cons q qs)
    with Cons.IH[of q] Cons.IH[of p] Cons.prems show ?thesis by (auto split: if_splits)
  qed
qed simp

lemma split_inclusive_unterminated:
  assumes "s \<noteq> []" and "last s \<noteq> NL"
  shows "\<exists>ps p. split_inclusive_nl s = ps @ [p] \<and> split_inclusive_nl (s @ [NL]) = ps @ [p @ [NL]]"
  using assms
proof (induction s)
  case (Cons x s)
  show ?case
  proof (cases "s = []")
    case False
    with Cons obtain ps p where "split_inclusive_nl s = ps @ [p]" "split_inclusive_nl (s @ [NL]) = ps @ [p @ [NL]]"
      by auto
    then show ?thesis
      by (cases "x = NL"; cases ps) auto
  qed (use Cons in auto)
qed simp

text \<open>
  Amending a policy file: the text that was there stays as a prefix, the rule's line is
  among the lines afterwards, appending it again changes nothing, and a file that had the line
  is not touched.
\<close>

theorem append_locked_line_spec:
  assumes "is_line line"
  shows "prefix contents (append_locked_line contents line) \<and>
    line \<in> set (str_lines (append_locked_line contents line)) \<and>
    append_locked_line (append_locked_line contents line) line = append_locked_line contents line \<and>
    (line \<in> set (str_lines contents) \<longrightarrow> append_locked_line contents line = contents)"
proof -
  let ?c = "if contents \<noteq> [] \<and> \<not> ends_with contents [NL] then contents @ [NL] else contents"
  have "?c = [] \<or> last ?c = NL"
    by (auto simp: ends_with_suffix suffix_def)
  then have "line \<in> set (str_lines (?c @ line @ [NL]))"
    using str_lines_append[of ?c "line @ [NL]"] str_lines_one[OF assms] by simp
  then have mem: "line \<in> set (str_lines (append_locked_line contents line))"
    by (auto simp: append_locked_line_def list_ex_iff)
  then have "append_locked_line (append_locked_line contents line) line = append_locked_line contents line"
    by (subst append_locked_line_def) (auto simp: list_ex_iff)
  with mem show ?thesis
    by (auto simp: append_locked_line_def list_ex_iff)
qed

theorem append_locked_line_spec_witness:
  "lit ''b'' \<in> set (str_lines (append_locked_line (lit ''a'') (lit ''b''))) \<and>
   append_locked_line (lit ''a'') (lit ''b'') = lit ''a'' @ [NL] @ lit ''b'' @ [NL]"
  using append_locked_line_spec[of "lit ''b''" "lit ''a''"]
  by (simp add: is_line_def lit_simps append_locked_line_def str_lines_def strip_line_end_def strip_suffix_def ends_with_def)

section \<open>Removing banned rules\<close>

text \<open>\<open>parse_json\<close> stands for \<open>serde_json::from_str\<close> at \<open>Vec<String>\<close>.\<close>

definition strip_terminator :: "str \<Rightarrow> str" where
  "strip_terminator line =
     (let l1 = (case strip_suffix line [NL] of Some r \<Rightarrow> r | None \<Rightarrow> line)
      in case strip_suffix l1 [CR] of Some r \<Rightarrow> r | None \<Rightarrow> l1)"

definition should_remove_rule :: "(str \<Rightarrow> str list option) \<Rightarrow> str list set \<Rightarrow> str \<Rightarrow> bool" where
  "should_remove_rule parse_json banned line =
     (case strip_prefix (strip_terminator line) (lit ''prefix_rule(pattern='') of
        None \<Rightarrow> False
      | Some rest \<Rightarrow>
          (case strip_suffix rest (lit '', decision='' @ [34] @ lit ''allow'' @ [34] @ lit '')'') of
             None \<Rightarrow> False
           | Some pattern \<Rightarrow>
               (case parse_json pattern of
                  None \<Rightarrow> False
                | Some pre \<Rightarrow> map to_ascii_lowercase pre \<in> banned)))"

definition strip_banned_allow_rules :: "(str \<Rightarrow> str list option) \<Rightarrow> str list list \<Rightarrow> str \<Rightarrow> str" where
  "strip_banned_allow_rules parse_json banned_prefixes contents =
     (let banned = set (map (map to_ascii_lowercase) banned_prefixes)
      in concat (filter (\<lambda>line. \<not> should_remove_rule parse_json banned line) (split_inclusive_nl contents)))"

text \<open>The new contents of the rules file, \<open>None\<close> when it is left alone.\<close>

definition clean_rules_file :: "(str \<Rightarrow> str list option) \<Rightarrow> str list list \<Rightarrow> str \<Rightarrow> str option" where
  "clean_rules_file parse_json banned contents =
     (let retained = strip_banned_allow_rules parse_json banned contents
      in if retained = contents then None else Some retained)"

text \<open>The one-shot migration: whether the marker exists, and the marker and contents after it.\<close>

definition prefix_rule_migration ::
    "(str \<Rightarrow> str list option) \<Rightarrow> str list list \<Rightarrow> bool \<Rightarrow> str \<Rightarrow> bool \<times> str" where
  "prefix_rule_migration parse_json banned marker contents =
     (if marker then (True, contents)
      else (True, case clean_rules_file parse_json banned contents of
                    Some retained \<Rightarrow> retained | None \<Rightarrow> contents))"

lemma split_inclusive_piece:
  assumes "p \<noteq> []" and "NL \<notin> set (butlast p)"
  shows "split_inclusive_nl p = [p]"
proof (cases "last p = NL")
  case True
  with assms have "p = butlast p @ [NL]" by (metis append_butlast_last_id)
  then show ?thesis using split_inclusive_line[of "butlast p" "[]"] assms(2) by simp
next
  case False
  with assms have "NL \<notin> set p" by (metis append_butlast_last_id in_set_conv_decomp set_append UnE empty_iff list.set(1,2) insert_iff)
  with assms(1) show ?thesis by (simp add: split_inclusive_last)
qed

text \<open>The pieces of a text: all but the last end with a line feed.\<close>

definition pieces :: "str list \<Rightarrow> bool" where
  "pieces ps \<longleftrightarrow> (\<forall>p\<in>set ps. p \<noteq> [] \<and> NL \<notin> set (butlast p)) \<and> (\<forall>p\<in>set (butlast ps). last p = NL)"

lemma pieces_split: "pieces (split_inclusive_nl s)"
proof -
  have "p \<in> set (butlast (split_inclusive_nl s)) \<Longrightarrow> last p = NL" for p
  proof (induction s arbitrary: p)
    case (Cons x s)
    then show ?case
      using split_inclusive_pieces[of "[]" s]
      by (cases "split_inclusive_nl s") (auto split: if_splits)
  qed simp
  then show ?thesis using split_inclusive_pieces by (auto simp: pieces_def)
qed

lemma split_pieces: "pieces ps \<Longrightarrow> split_inclusive_nl (concat ps) = ps"
proof (induction ps)
  case (Cons p ps)
  show ?case
  proof (cases "ps = []")
    case True
    with Cons.prems split_inclusive_piece show ?thesis by (simp add: pieces_def)
  next
    case False
    with Cons.prems have "p \<noteq> []" "NL \<notin> set (butlast p)" "last p = NL" "pieces ps"
      by (auto simp: pieces_def)
    with Cons.IH show ?thesis
      using split_inclusive_nl_append[of p "concat ps"] split_inclusive_piece[of p] by simp
  qed
qed simp

lemma pieces_filter: "pieces ps \<Longrightarrow> pieces (filter P ps)"
proof (induction ps rule: rev_induct)
  case (snoc p ps)
  then have a: "\<forall>q\<in>set ps. q \<noteq> [] \<and> NL \<notin> set (butlast q) \<and> last q = NL" "p \<noteq> [] \<and> NL \<notin> set (butlast p)"
    by (auto simp: pieces_def)
  then show ?case by (auto simp: pieces_def dest: in_set_butlastD)
qed simp

text \<open>
  The migration removes exactly the banned allow rules, line by line and in order: the lines
  of the result are the lines of the file that are not banned, so it is idempotent and a file
  without banned rules is left alone; with the marker present nothing is changed at all.
\<close>

theorem strip_banned_exact:
  "split_inclusive_nl (strip_banned_allow_rules pj banned contents) =
     filter (\<lambda>l. \<not> should_remove_rule pj (set (map (map to_ascii_lowercase) banned)) l)
       (split_inclusive_nl contents) \<and>
   strip_banned_allow_rules pj banned (strip_banned_allow_rules pj banned contents) =
     strip_banned_allow_rules pj banned contents \<and>
   prefix_rule_migration pj banned False contents = (True, strip_banned_allow_rules pj banned contents) \<and>
   prefix_rule_migration pj banned True contents = (True, contents)"
proof -
  let ?P = "\<lambda>l. \<not> should_remove_rule pj (set (map (map to_ascii_lowercase) banned)) l"
  have s: "strip_banned_allow_rules pj banned c = concat (filter ?P (split_inclusive_nl c))" for c
    by (simp add: strip_banned_allow_rules_def)
  have f: "split_inclusive_nl (concat (filter ?P (split_inclusive_nl contents))) = filter ?P (split_inclusive_nl contents)"
    by (intro split_pieces pieces_filter pieces_split)
  have idem: "strip_banned_allow_rules pj banned (strip_banned_allow_rules pj banned contents) =
     strip_banned_allow_rules pj banned contents"
    unfolding s f by simp
  have "prefix_rule_migration pj banned False contents = (True, strip_banned_allow_rules pj banned contents)"
    by (simp add: prefix_rule_migration_def clean_rules_file_def Let_def)
  with idem show ?thesis unfolding s f by (simp add: prefix_rule_migration_def)
qed

end
