(* ===== verification/ExecPolicyParser.thy ===== *)
theory ExecPolicyParser
  imports ExecPolicy
begin

text \<open>
  Loading policy files (codex-rs/execpolicy/src/parser.rs and the example validation of
  rule.rs): the builtins \<open>prefix_rule\<close>, \<open>network_rule\<close> and \<open>host_executable\<close> on the policy
  builder. Starlark itself is not modelled: a policy file is the sequence of builtin calls its
  evaluation makes, a value is what the builtins observe of it, and shell word splitting is a
  parameter. After a Starlark error the code keeps the builder; here the error is the result.
\<close>

section \<open>Values of the policy language\<close>

text \<open>What the builtins observe of a Starlark value: a string, a list, or something else with the
  name of its type.\<close>

datatype starlark_value = SvString str | SvList "starlark_value list" | SvOther str

fun value_type :: "starlark_value \<Rightarrow> str" where
  "value_type (SvString _) = lit ''string''"
| "value_type (SvList _) = lit ''list''"
| "value_type (SvOther t) = t"

text \<open>The library functions that the builtins call: splitting and joining shell words, and the
  debug rendering of a rule.\<close>

record parser_lib =
  shlex_split :: "str \<Rightarrow> str list option"
  shlex_join :: "str list \<Rightarrow> str option"
  debug_rule :: "prefix_rule \<Rightarrow> str"
  debug_match :: "rule_match \<Rightarrow> str"

fun unpack_string :: "(str \<Rightarrow> policy_error) \<Rightarrow> starlark_value \<Rightarrow> policy_error + str" where
  "unpack_string err (SvString s) = Inr s"
| "unpack_string err v = Inl (err (value_type v))"

section \<open>Patterns and examples\<close>

fun parse_pattern_token :: "starlark_value \<Rightarrow> policy_error + pattern_token" where
  "parse_pattern_token (SvString s) = Inr (Single s)"
| "parse_pattern_token (SvList vs) =
     (case collect_results (unpack_string (\<lambda>t. InvalidPattern
             (lit ''pattern alternative must be a string (got '' @ t @ lit '')''))) vs of
        Inl e \<Rightarrow> Inl e
      | Inr tokens \<Rightarrow>
          (case tokens of
             [] \<Rightarrow> Inl (InvalidPattern (lit ''pattern alternatives cannot be empty''))
           | [single] \<Rightarrow> Inr (Single single)
           | _ \<Rightarrow> Inr (Alts tokens)))"
| "parse_pattern_token (SvOther t) =
     Inl (InvalidPattern (lit ''pattern element must be a string or list of strings (got '' @ t @ lit '')''))"

definition parse_pattern :: "starlark_value list \<Rightarrow> policy_error + pattern_token list" where
  "parse_pattern vs =
     (case collect_results parse_pattern_token vs of
        Inl e \<Rightarrow> Inl e
      | Inr tokens \<Rightarrow>
          if tokens = [] then Inl (InvalidPattern (lit ''pattern cannot be empty'')) else Inr tokens)"

definition parse_string_example :: "parser_lib \<Rightarrow> str \<Rightarrow> policy_error + str list" where
  "parse_string_example lib raw =
     (case shlex_split lib raw of
        None \<Rightarrow> Inl (InvalidExample (lit ''example string has invalid shell syntax''))
      | Some tokens \<Rightarrow>
          if tokens = [] then Inl (InvalidExample (lit ''example cannot be an empty string''))
          else Inr tokens)"

definition parse_list_example :: "starlark_value list \<Rightarrow> policy_error + str list" where
  "parse_list_example vs =
     (case collect_results (unpack_string (\<lambda>t. InvalidExample
             (lit ''example tokens must be strings (got '' @ t @ lit '')''))) vs of
        Inl e \<Rightarrow> Inl e
      | Inr tokens \<Rightarrow>
          if tokens = [] then Inl (InvalidExample (lit ''example cannot be an empty list''))
          else Inr tokens)"

fun parse_example :: "parser_lib \<Rightarrow> starlark_value \<Rightarrow> policy_error + str list" where
  "parse_example lib (SvString raw) = parse_string_example lib raw"
| "parse_example lib (SvList vs) = parse_list_example vs"
| "parse_example lib (SvOther t) =
     Inl (InvalidExample (lit ''example must be a string or list of strings (got '' @ t @ lit '')''))"

definition parse_examples :: "parser_lib \<Rightarrow> starlark_value list \<Rightarrow> policy_error + str list list" where
  "parse_examples lib vs = collect_results (parse_example lib) vs"

definition parse_optional_examples ::
    "parser_lib \<Rightarrow> starlark_value list option \<Rightarrow> policy_error + str list list" where
  "parse_optional_examples lib vs = (case vs of Some vs' \<Rightarrow> parse_examples lib vs' | None \<Rightarrow> Inr [])"

definition parse_literal_absolute_path :: "path_env \<Rightarrow> str \<Rightarrow> policy_error + str" where
  "parse_literal_absolute_path env raw =
     (if \<not> path_is_absolute raw
      then Inl (InvalidRule (lit ''host_executable paths must be absolute (got '' @ raw @ lit '')''))
      else
      (case absolute_path_buf env raw of
         Some p \<Rightarrow> Inr p
       | None \<Rightarrow> Inl (InvalidRule (lit ''invalid absolute path''))))"

definition validate_host_executable_name :: "str \<Rightarrow> policy_error + unit" where
  "validate_host_executable_name name =
     (if name = [] then Inl (InvalidRule (lit ''host_executable name cannot be empty''))
      else if path_component_count name \<noteq> 1 \<or> path_file_name name \<noteq> Some name
      then Inl (InvalidRule (lit ''host_executable name must be a bare executable name (got '' @ name @ lit '')''))
      else Inr ())"

definition parse_network_rule_decision :: "str \<Rightarrow> policy_error + decision" where
  "parse_network_rule_decision raw =
     (if raw = lit ''deny'' then Inr Forbidden else parse_decision raw)"

section \<open>The builder\<close>

record pending_validation =
  pv_rules :: "prefix_rule list"
  pv_matches :: "str list list"
  pv_not_matches :: "str list list"
  pv_location :: "error_location option"

record policy_builder =
  b_rules :: rule_table
  b_network_rules :: "network_rule list"
  b_host_executables :: "str \<rightharpoonup> str list"
  b_pending :: "pending_validation list"

definition new_builder :: policy_builder where
  "new_builder = \<lparr>b_rules = [], b_network_rules = [], b_host_executables = Map.empty, b_pending = []\<rparr>"

definition add_rule :: "prefix_rule \<Rightarrow> policy_builder \<Rightarrow> policy_builder" where
  "add_rule r b = b\<lparr>b_rules := table_insert (rule_program r) r (b_rules b)\<rparr>"

definition build :: "policy_builder \<Rightarrow> policy" where
  "build b = \<lparr>rules_by_program = b_rules b, network_rules = b_network_rules b,
     host_executables = b_host_executables b\<rparr>"

definition render_example :: "parser_lib \<Rightarrow> str list \<Rightarrow> str" where
  "render_example lib example =
     (case shlex_join lib example of Some s \<Rightarrow> s | None \<Rightarrow> lit ''unable to render example'')"

definition validate_match_examples ::
    "parser_lib \<Rightarrow> path_env \<Rightarrow> policy \<Rightarrow> prefix_rule list \<Rightarrow> str list list \<Rightarrow> policy_error + unit" where
  "validate_match_examples lib env p rules examples =
     (let unmatched = map (render_example lib)
            (filter (\<lambda>ex. matches_for_command_with_options env p ex None True = []) examples)
      in if unmatched = [] then Inr ()
         else Inl (ExampleDidNotMatch (map (debug_rule lib) rules) unmatched None))"

fun validate_not_match_examples ::
    "parser_lib \<Rightarrow> path_env \<Rightarrow> policy \<Rightarrow> str list list \<Rightarrow> policy_error + unit" where
  "validate_not_match_examples lib env p [] = Inr ()"
| "validate_not_match_examples lib env p (ex # examples) =
     (case matches_for_command_with_options env p ex None True of
        m # _ \<Rightarrow> Inl (ExampleDidMatch (debug_match lib m) (render_example lib ex) None)
      | [] \<Rightarrow> validate_not_match_examples lib env p examples)"

definition attach_validation_location :: "error_location option \<Rightarrow> policy_error \<Rightarrow> policy_error" where
  "attach_validation_location l e = (case l of Some loc \<Rightarrow> with_location loc e | None \<Rightarrow> e)"

text \<open>The policy an example is checked against: the rules of its own call, with all registered
  executables.\<close>

definition validation_policy :: "policy_builder \<Rightarrow> pending_validation \<Rightarrow> policy" where
  "validation_policy b v =
     \<lparr>rules_by_program = fold (\<lambda>r. table_insert (rule_program r) r) (pv_rules v) [],
      network_rules = [], host_executables = b_host_executables b\<rparr>"

definition validate_pending ::
    "parser_lib \<Rightarrow> path_env \<Rightarrow> policy_builder \<Rightarrow> pending_validation \<Rightarrow> policy_error + unit" where
  "validate_pending lib env b v =
     (let p = validation_policy b v
      in case map_err (attach_validation_location (pv_location v))
                (validate_not_match_examples lib env p (pv_not_matches v)) of
           Inl e \<Rightarrow> Inl e
         | Inr _ \<Rightarrow> map_err (attach_validation_location (pv_location v))
                (validate_match_examples lib env p (pv_rules v) (pv_matches v)))"

definition validate_pending_examples_from ::
    "parser_lib \<Rightarrow> path_env \<Rightarrow> policy_builder \<Rightarrow> nat \<Rightarrow> policy_error + unit" where
  "validate_pending_examples_from lib env b start =
     (case collect_results (validate_pending lib env b) (drop start (b_pending b)) of
        Inl e \<Rightarrow> Inl e | Inr _ \<Rightarrow> Inr ())"

section \<open>The builtins\<close>

definition check_justification :: "str option \<Rightarrow> policy_error + str option" where
  "check_justification j =
     (case j of
        Some raw \<Rightarrow>
          if trim raw = [] then Inl (InvalidRule (lit ''justification cannot be empty'')) else Inr (Some raw)
      | None \<Rightarrow> Inr None)"

definition builtin_prefix_rule ::
    "parser_lib \<Rightarrow> starlark_value list \<Rightarrow> str option \<Rightarrow> starlark_value list option \<Rightarrow>
     starlark_value list option \<Rightarrow> str option \<Rightarrow> error_location option \<Rightarrow> policy_builder \<Rightarrow>
     policy_error + policy_builder" where
  "builtin_prefix_rule lib pattern decision match_ex not_match justification location b =
     (case (case decision of Some raw \<Rightarrow> parse_decision raw | None \<Rightarrow> Inr Allow) of
        Inl e \<Rightarrow> Inl e
      | Inr d \<Rightarrow>
     (case check_justification justification of
        Inl e \<Rightarrow> Inl e
      | Inr j \<Rightarrow>
     (case parse_pattern pattern of
        Inl e \<Rightarrow> Inl e
      | Inr tokens \<Rightarrow>
     (case parse_optional_examples lib match_ex of
        Inl e \<Rightarrow> Inl e
      | Inr ms \<Rightarrow>
     (case parse_optional_examples lib not_match of
        Inl e \<Rightarrow> Inl e
      | Inr nms \<Rightarrow>
     (case tokens of
        [] \<Rightarrow> Inl (InvalidPattern (lit ''pattern cannot be empty''))
      | first_token # remaining \<Rightarrow>
          (let rules = map (\<lambda>hd. \<lparr>rule_pattern = \<lparr>pat_first = hd, pat_rest = remaining\<rparr>,
                                 rule_decision = d, rule_justification = j\<rparr>)
                         (token_alternatives first_token);
               b1 = b\<lparr>b_pending := b_pending b @
                 [\<lparr>pv_rules = rules, pv_matches = ms, pv_not_matches = nms, pv_location = location\<rparr>]\<rparr>
           in Inr (fold add_rule rules b1))))))))"

definition builtin_network_rule ::
    "str \<Rightarrow> str \<Rightarrow> str \<Rightarrow> str option \<Rightarrow> policy_builder \<Rightarrow> policy_error + policy_builder" where
  "builtin_network_rule host protocol decision justification b =
     (case parse_protocol protocol of
        Inl e \<Rightarrow> Inl e
      | Inr pr \<Rightarrow>
     (case parse_network_rule_decision decision of
        Inl e \<Rightarrow> Inl e
      | Inr d \<Rightarrow>
     (case check_justification justification of
        Inl e \<Rightarrow> Inl e
      | Inr j \<Rightarrow>
     (case normalize_network_rule_host host of
        Inl e \<Rightarrow> Inl e
      | Inr h \<Rightarrow>
          Inr (b\<lparr>b_network_rules := b_network_rules b @
            [\<lparr>net_host = h, net_protocol = pr, net_decision = d, net_justification = j\<rparr>]\<rparr>)))))"

definition msg_basename :: "str \<Rightarrow> str \<Rightarrow> str" where
  "msg_basename raw name = lit ''host_executable path `'' @ raw @ lit ''` must have basename `'' @ name @ lit ''`''"

fun parse_executable_paths ::
    "path_env \<Rightarrow> str \<Rightarrow> str list \<Rightarrow> starlark_value list \<Rightarrow> policy_error + str list" where
  "parse_executable_paths env name parsed [] = Inr parsed"
| "parse_executable_paths env name parsed (v # vs) =
     (case unpack_string (\<lambda>t. InvalidRule
             (lit ''host_executable paths must be strings (got '' @ t @ lit '')'')) v of
        Inl e \<Rightarrow> Inl e
      | Inr raw \<Rightarrow>
     (case parse_literal_absolute_path env raw of
        Inl e \<Rightarrow> Inl e
      | Inr path \<Rightarrow>
     (case executable_path_lookup_key path of
        None \<Rightarrow> Inl (InvalidRule (msg_basename raw name))
      | Some path_name \<Rightarrow>
          if path_name \<noteq> executable_lookup_key name then Inl (InvalidRule (msg_basename raw name))
          else parse_executable_paths env name
                 (if list_ex (\<lambda>existing. existing = path) parsed then parsed else parsed @ [path]) vs)))"

definition builtin_host_executable ::
    "path_env \<Rightarrow> str \<Rightarrow> starlark_value list \<Rightarrow> policy_builder \<Rightarrow> policy_error + policy_builder" where
  "builtin_host_executable env name paths b =
     (case validate_host_executable_name name of
        Inl e \<Rightarrow> Inl e
      | Inr _ \<Rightarrow>
     (case parse_executable_paths env name [] paths of
        Inl e \<Rightarrow> Inl e
      | Inr parsed \<Rightarrow>
          Inr (b\<lparr>b_host_executables := (b_host_executables b)(executable_lookup_key name \<mapsto> parsed)\<rparr>)))"

text \<open>A policy file is the sequence of builtin calls its evaluation makes.\<close>

datatype builtin_call =
    CallPrefixRule "starlark_value list" "str option" "starlark_value list option"
      "starlark_value list option" "str option" "error_location option"
  | CallNetworkRule str str str "str option"
  | CallHostExecutable str "starlark_value list"

fun run_call :: "parser_lib \<Rightarrow> path_env \<Rightarrow> builtin_call \<Rightarrow> policy_builder \<Rightarrow> policy_error + policy_builder" where
  "run_call lib env (CallPrefixRule pat d m nm j l) b = builtin_prefix_rule lib pat d m nm j l b"
| "run_call lib env (CallNetworkRule h p d j) b = builtin_network_rule h p d j b"
| "run_call lib env (CallHostExecutable n ps) b = builtin_host_executable env n ps b"

fun run_calls :: "parser_lib \<Rightarrow> path_env \<Rightarrow> builtin_call list \<Rightarrow> policy_builder \<Rightarrow> policy_error + policy_builder" where
  "run_calls lib env [] b = Inr b"
| "run_calls lib env (c # cs) b =
     (case run_call lib env c b of Inl e \<Rightarrow> Inl e | Inr b' \<Rightarrow> run_calls lib env cs b')"

definition parse_policy :: "parser_lib \<Rightarrow> path_env \<Rightarrow> builtin_call list \<Rightarrow> policy_builder \<Rightarrow> policy_error + policy_builder" where
  "parse_policy lib env cs b =
     (case run_calls lib env cs b of
        Inl e \<Rightarrow> Inl e
      | Inr b' \<Rightarrow>
          (case validate_pending_examples_from lib env b' (length (b_pending b)) of
             Inl e \<Rightarrow> Inl e
           | Inr _ \<Rightarrow> Inr b'))"

section \<open>What the builder keeps\<close>

fun token_ok :: "pattern_token \<Rightarrow> bool" where
  "token_ok (Single _) = True" | "token_ok (Alts as) \<longleftrightarrow> 2 \<le> length as"

definition rule_ok :: "prefix_rule \<Rightarrow> bool" where
  "rule_ok r \<longleftrightarrow> list_all token_ok (pat_rest (rule_pattern r)) \<and>
     (case rule_justification r of Some j \<Rightarrow> trim j \<noteq> [] | None \<Rightarrow> True)"

definition executables_ok :: "(str \<rightharpoonup> str list) \<Rightarrow> bool" where
  "executables_ok m \<longleftrightarrow> (\<forall>name paths. m name = Some paths \<longrightarrow>
     distinct paths \<and> (\<forall>p\<in>set paths. path_is_absolute p \<and> normalize_path p = p \<and> path_file_name p = Some name))"

definition builder_inv :: "policy_builder \<Rightarrow> bool" where
  "builder_inv b \<longleftrightarrow> table_ok (b_rules b) \<and>
     (\<forall>r\<in>set (concat (map snd (b_rules b))). rule_ok r) \<and>
     (\<forall>r\<in>set (b_network_rules b). \<exists>raw. normalize_network_rule_host raw = Inr (net_host r)) \<and>
     executables_ok (b_host_executables b)"

lemma builder_inv_new [step_intros]: "builder_inv new_builder"
  by (simp add: builder_inv_def new_builder_def table_ok_def executables_ok_def)

lemma parse_pattern_ok:
  assumes "parse_pattern vs = Inr tokens"
  shows "tokens \<noteq> [] \<and> list_all token_ok tokens"
proof -
  have t: "parse_pattern_token v = Inr t \<Longrightarrow> token_ok t" for v t
    by (cases v) (auto split: sum.splits list.splits)
  from assms have "collect_results parse_pattern_token vs = Inr tokens" "tokens \<noteq> []"
    by (auto simp: parse_pattern_def split: sum.splits if_splits)
  then have "\<forall>i<length tokens. token_ok (tokens ! i)" "tokens \<noteq> []"
    using t unfolding collect_results_Inr_iff list_all2_conv_all_nth by metis+
  then show ?thesis by (simp add: list_all_length)
qed

lemma fold_add_rule_fields [simp]:
  "b_network_rules (fold add_rule rs b) = b_network_rules b"
  "b_host_executables (fold add_rule rs b) = b_host_executables b"
  "b_pending (fold add_rule rs b) = b_pending b"
  by (induction rs arbitrary: b) (simp_all add: add_rule_def)

lemma fold_add_rule_inv:
  "builder_inv b \<Longrightarrow> \<forall>r\<in>set rs. rule_ok r \<Longrightarrow> builder_inv (fold add_rule rs b)"
proof (induction rs arbitrary: b)
  case (Cons r rs)
  have "builder_inv (add_rule r b)"
    using Cons.prems table_insert_set[of "rule_program r" r "b_rules b"]
    by (auto simp: builder_inv_def add_rule_def table_ok_insert)
  with Cons show ?case by simp
qed simp

lemma check_justification_ok: "check_justification j = Inr j' \<Longrightarrow> (case j' of Some s \<Rightarrow> trim s \<noteq> [] | None \<Rightarrow> True)"
  by (auto simp: check_justification_def split: option.splits if_splits)

text \<open>A successful \<open>prefix_rule\<close>: what it adds.\<close>

lemma builtin_prefix_rule_Inr:
  assumes "builtin_prefix_rule lib pat d m nm j l b = Inr b'"
  obtains first_token remaining dec j' ms nms rules where
    "parse_pattern pat = Inr (first_token # remaining)"
    "rules = map (\<lambda>hd. \<lparr>rule_pattern = \<lparr>pat_first = hd, pat_rest = remaining\<rparr>,
                       rule_decision = dec, rule_justification = j'\<rparr>) (token_alternatives first_token)"
    "check_justification j = Inr j'"
    "b' = fold add_rule rules (b\<lparr>b_pending := b_pending b @
       [\<lparr>pv_rules = rules, pv_matches = ms, pv_not_matches = nms, pv_location = l\<rparr>]\<rparr>)"
proof -
  from assms obtain dec where d: "(case d of Some raw \<Rightarrow> parse_decision raw | None \<Rightarrow> Inr Allow) = Inr dec"
    unfolding builtin_prefix_rule_def by (auto split: sum.splits)
  with assms obtain j' where j: "check_justification j = Inr j'"
    unfolding builtin_prefix_rule_def by (auto split: sum.splits)
  with assms d obtain tokens where t: "parse_pattern pat = Inr tokens"
    unfolding builtin_prefix_rule_def by (auto split: sum.splits)
  with assms d j obtain ms where ms: "parse_optional_examples lib m = Inr ms"
    unfolding builtin_prefix_rule_def by (auto split: sum.splits)
  with assms d j t obtain nms where nms: "parse_optional_examples lib nm = Inr nms"
    unfolding builtin_prefix_rule_def by (auto split: sum.splits)
  from t obtain first_token remaining where tok: "tokens = first_token # remaining"
    using parse_pattern_ok by (cases tokens) auto
  show thesis
    using assms d j t ms nms tok by (intro that[OF _ refl]) (auto simp: builtin_prefix_rule_def Let_def)
qed

lemma builtin_prefix_rule_inv:
  assumes "builder_inv b" and "builtin_prefix_rule lib pat d m nm j l b = Inr b'"
  shows "builder_inv b'"
  using assms(2)
proof (rule builtin_prefix_rule_Inr)
  fix first_token remaining dec j' ms nms rules
  assume a: "parse_pattern pat = Inr (first_token # remaining)"
    "rules = map (\<lambda>hd. \<lparr>rule_pattern = \<lparr>pat_first = hd, pat_rest = remaining\<rparr>,
                       rule_decision = dec, rule_justification = j'\<rparr>) (token_alternatives first_token)"
    "check_justification j = Inr j'"
    "b' = fold add_rule rules (b\<lparr>b_pending := b_pending b @
       [\<lparr>pv_rules = rules, pv_matches = ms, pv_not_matches = nms, pv_location = l\<rparr>]\<rparr>)"
  have "\<forall>r\<in>set rules. rule_ok r"
    using parse_pattern_ok[OF a(1)] check_justification_ok[OF a(3)] by (auto simp: a(2) rule_ok_def)
  then show ?thesis
    unfolding a(4) by (intro fold_add_rule_inv) (use assms(1) in \<open>simp_all add: builder_inv_def\<close>)
qed

lemma parse_executable_paths_ok:
  assumes "parse_executable_paths env name parsed vs = Inr paths"
    and "distinct parsed" and "\<forall>p\<in>set parsed. path_is_absolute p \<and> normalize_path p = p \<and> path_file_name p = Some name"
  shows "distinct paths \<and> (\<forall>p\<in>set paths. path_is_absolute p \<and> normalize_path p = p \<and> path_file_name p = Some name)"
  using assms
proof (induction vs arbitrary: parsed)
  case (Cons v vs)
  then obtain raw where raw: "unpack_string (\<lambda>t. InvalidRule
             (lit ''host_executable paths must be strings (got '' @ t @ lit '')'')) v = Inr raw"
    by (auto split: sum.splits)
  with Cons.prems(1) obtain path where path: "parse_literal_absolute_path env raw = Inr path"
    by (auto split: sum.splits)
  with Cons.prems(1) raw have name: "path_file_name path = Some name"
    by (auto simp: executable_path_lookup_key_eq executable_lookup_key_def split: option.splits if_splits)
  have "path_is_absolute path" "normalize_path path = path"
    using path absolute_path_buf_absolute[of env raw path]
    by (auto simp: parse_literal_absolute_path_def split: if_splits option.splits)
  then have ok: "path_is_absolute path \<and> normalize_path path = path \<and> path_file_name path = Some name"
    using name by simp
  have "parse_executable_paths env name (if path \<in> set parsed then parsed else parsed @ [path]) vs = Inr paths"
    using Cons.prems(1) raw path name
    by (simp add: executable_path_lookup_key_eq executable_lookup_key_def list_ex_iff)
  then show ?case
    by (rule Cons.IH) (use Cons.prems(2,3) ok in \<open>simp_all split: if_split\<close>)
qed simp

lemma run_call_inv [step_intros]:
  assumes "builder_inv b" and "run_call lib env c b = Inr b'"
  shows "builder_inv b'"
proof (cases c)
  case (CallPrefixRule pat d m nm j l)
  with assms builtin_prefix_rule_inv show ?thesis by simp
next
  case (CallNetworkRule h p d j)
  with assms(2) obtain hn pr dec j' where "normalize_network_rule_host h = Inr hn"
    "b' = b\<lparr>b_network_rules := b_network_rules b @
       [\<lparr>net_host = hn, net_protocol = pr, net_decision = dec, net_justification = j'\<rparr>]\<rparr>"
    by (auto simp: builtin_network_rule_def split: sum.splits)
  with assms(1) show ?thesis by (auto simp: builder_inv_def)
next
  case (CallHostExecutable n ps)
  with assms parse_executable_paths_ok[of env n "[]" ps] show ?thesis
    by (auto simp: builtin_host_executable_def builder_inv_def executables_ok_def executable_lookup_key_def
        split: sum.splits if_splits)
qed

lemma run_calls_inv [step_intros]:
  "builder_inv b \<Longrightarrow> run_calls lib env cs b = Inr b' \<Longrightarrow> builder_inv b'"
  by (induction cs arbitrary: b) (auto dest: run_call_inv split: sum.splits)

text \<open>
  A policy that parses is well formed: every rule is filed under its program, alternatives
  have at least two entries and justifications are not blank, network hosts are normalised,
  and registered executables are distinct normalised absolute paths with the registered name.
\<close>

theorem parse_policy_well_formed:
  assumes "parse_policy lib env cs new_builder = Inr b"
  shows "table_ok (rules_by_program (build b)) \<and> (\<forall>r\<in>all_rules (build b). rule_ok r) \<and>
    (\<forall>r\<in>set (network_rules (build b)). \<exists>raw. normalize_network_rule_host raw = Inr (net_host r)) \<and>
    executables_ok (host_executables (build b))"
proof -
  from assms have "run_calls lib env cs new_builder = Inr b"
    by (auto simp: parse_policy_def split: sum.splits)
  then have "builder_inv b" using run_calls_inv builder_inv_new by blast
  then show ?thesis by (simp add: builder_inv_def build_def all_rules_def)
qed

section \<open>Examples are unit tests\<close>

lemma validate_not_match_ok:
  "validate_not_match_examples lib env p exs = Inr u \<Longrightarrow>
   \<forall>ex\<in>set exs. matches_for_command_with_options env p ex None True = []"
  by (induction exs) (auto split: list.splits)

lemma validate_match_ok:
  "validate_match_examples lib env p rs exs = Inr u \<Longrightarrow>
   \<forall>ex\<in>set exs. matches_for_command_with_options env p ex None True \<noteq> []"
  by (auto simp: validate_match_examples_def Let_def filter_empty_conv split: if_splits)

lemma run_calls_pending:
  "run_calls lib env cs b = Inr b' \<Longrightarrow> \<exists>vs. b_pending b' = b_pending b @ vs"
proof (induction cs arbitrary: b)
  case (Cons c cs)
  then obtain b1 where b1: "run_call lib env c b = Inr b1" "run_calls lib env cs b1 = Inr b'"
    by (auto split: sum.splits)
  have "\<exists>vs. b_pending b1 = b_pending b @ vs"
  proof (cases c)
    case (CallPrefixRule pat d m nm j l)
    with b1(1) have "builtin_prefix_rule lib pat d m nm j l b = Inr b1" by simp
    then show ?thesis by (rule builtin_prefix_rule_Inr) simp
  qed (use b1(1) in \<open>auto simp: builtin_network_rule_def builtin_host_executable_def split: sum.splits\<close>)
  with Cons.IH[OF b1(2)] show ?case by auto
qed simp

text \<open>
  A policy file only loads when its examples hold: every \<open>match\<close> example of a call of this
  file is matched by the rules of that call, and no \<open>not_match\<close> example is.
\<close>

theorem parse_policy_examples_hold:
  assumes "parse_policy lib env cs b = Inr b'"
  shows "\<exists>vs. b_pending b' = b_pending b @ vs \<and> (\<forall>v\<in>set vs.
    (\<forall>ex\<in>set (pv_matches v). matches_for_command_with_options env (validation_policy b' v) ex None True \<noteq> []) \<and>
    (\<forall>ex\<in>set (pv_not_matches v). matches_for_command_with_options env (validation_policy b' v) ex None True = []))"
proof -
  from assms have run: "run_calls lib env cs b = Inr b'"
    and val: "\<exists>us. collect_results (validate_pending lib env b') (drop (length (b_pending b)) (b_pending b')) = Inr us"
    by (auto simp: parse_policy_def validate_pending_examples_from_def split: sum.splits)
  from run_calls_pending[OF run] obtain vs where vs: "b_pending b' = b_pending b @ vs" by blast
  with val have "\<forall>v\<in>set vs. \<exists>u. validate_pending lib env b' v = Inr u"
    by (auto simp: collect_results_Inr_iff list_all2_conv_all_nth in_set_conv_nth)
  moreover have "(\<forall>ex\<in>set (pv_matches v). matches_for_command_with_options env (validation_policy b' v) ex None True \<noteq> []) \<and>
    (\<forall>ex\<in>set (pv_not_matches v). matches_for_command_with_options env (validation_policy b' v) ex None True = [])"
    if v: "validate_pending lib env b' v = Inr u" for v u
  proof -
    from v obtain u1 where
      "validate_not_match_examples lib env (validation_policy b' v) (pv_not_matches v) = Inr u1"
      "validate_match_examples lib env (validation_policy b' v) (pv_rules v) (pv_matches v) = Inr u"
      by (auto simp: validate_pending_def map_err_def Let_def split: sum.splits)
    from validate_not_match_ok[OF this(1)] validate_match_ok[OF this(2)] show ?thesis by blast
  qed
  ultimately show ?thesis using vs by blast
qed

section \<open>What a prefix rule matches\<close>

lemma fold_add_rule_rules:
  "set (concat (map snd (b_rules (fold add_rule rs b)))) = set rs \<union> set (concat (map snd (b_rules b)))"
proof (induction rs arbitrary: b)
  case (Cons r rs)
  then show ?case
    using table_insert_set[of "rule_program r" r "b_rules b"] by (auto simp: add_rule_def)
qed simp

lemma fold_add_rule_table: "table_ok (b_rules b) \<Longrightarrow> table_ok (b_rules (fold add_rule rs b))"
  by (induction rs arbitrary: b) (simp_all add: add_rule_def table_ok_insert)

lemma token_matches_alternatives: "token_matches t c \<longleftrightarrow> c \<in> set (token_alternatives t)"
  by (cases t) (auto simp: list_ex_iff)

lemma alternatives_match:
  "(\<exists>hd\<in>set (token_alternatives t). rule_matches \<lparr>rule_pattern = \<lparr>pat_first = hd, pat_rest = ts\<rparr>,
        rule_decision = d, rule_justification = j\<rparr> cmd = Some m) \<longleftrightarrow>
   list_all2 token_matches (t # ts) (take (Suc (length ts)) cmd) \<and>
   m = PrefixRuleMatch (take (Suc (length ts)) cmd) d None j"
proof (cases cmd)
  case (Cons c cs)
  show ?thesis
  proof
    assume "\<exists>hd\<in>set (token_alternatives t). rule_matches \<lparr>rule_pattern = \<lparr>pat_first = hd, pat_rest = ts\<rparr>,
        rule_decision = d, rule_justification = j\<rparr> cmd = Some m"
    then obtain xs rest where x: "cs = xs @ rest" "list_all2 token_matches ts xs"
      "c \<in> set (token_alternatives t)" "m = PrefixRuleMatch (c # xs) d None j"
      using Cons by (auto simp: rule_matches_def matches_prefix_Some)
    with list_all2_lengthD[OF x(2)] Cons
    show "list_all2 token_matches (t # ts) (take (Suc (length ts)) cmd) \<and>
        m = PrefixRuleMatch (take (Suc (length ts)) cmd) d None j"
      by (simp add: token_matches_alternatives)
  next
    assume a: "list_all2 token_matches (t # ts) (take (Suc (length ts)) cmd) \<and>
        m = PrefixRuleMatch (take (Suc (length ts)) cmd) d None j"
    then have "matches_prefix \<lparr>pat_first = c, pat_rest = ts\<rparr> cmd = Some (take (Suc (length ts)) cmd)"
      using Cons by (auto simp: matches_prefix_Some intro!: exI[of _ "drop (length ts) cs"])
    with a Cons show "\<exists>hd\<in>set (token_alternatives t). rule_matches \<lparr>rule_pattern = \<lparr>pat_first = hd, pat_rest = ts\<rparr>,
        rule_decision = d, rule_justification = j\<rparr> cmd = Some m"
      by (intro bexI[of _ c]) (auto simp: rule_matches_def token_matches_alternatives)
  qed
qed (simp add: rule_matches_def matches_prefix_def)

text \<open>
  The meaning of \<open>prefix_rule\<close>: after a successful call a command has exactly one new match
  when its first words are matched, one by one, by the pattern's elements (a list element
  standing for its alternatives), and otherwise the matches it had.
\<close>

theorem prefix_rule_semantics:
  assumes "builtin_prefix_rule lib pat d m nm j l b = Inr b'" and "table_ok (b_rules b)"
  shows "\<exists>tokens dec j'. parse_pattern pat = Inr tokens \<and>
    set (matching_rules (build b') cmd) = set (matching_rules (build b) cmd) \<union>
      (if list_all2 token_matches tokens (take (length tokens) cmd)
       then {PrefixRuleMatch (take (length tokens) cmd) dec None j'} else {})"
  using assms(1)
proof (rule builtin_prefix_rule_Inr)
  fix first_token remaining dec j' ms nms rules
  assume a: "parse_pattern pat = Inr (first_token # remaining)"
    "rules = map (\<lambda>hd. \<lparr>rule_pattern = \<lparr>pat_first = hd, pat_rest = remaining\<rparr>,
                       rule_decision = dec, rule_justification = j'\<rparr>) (token_alternatives first_token)"
    "b' = fold add_rule rules (b\<lparr>b_pending := b_pending b @
       [\<lparr>pv_rules = rules, pv_matches = ms, pv_not_matches = nms, pv_location = l\<rparr>]\<rparr>)"
  have ok: "table_ok (rules_by_program (build b))" "table_ok (rules_by_program (build b'))"
    using assms(2) fold_add_rule_table by (simp_all add: build_def a(3))
  have "all_rules (build b') = set rules \<union> all_rules (build b)"
    using fold_add_rule_rules[of rules "b\<lparr>b_pending := b_pending b @
       [\<lparr>pv_rules = rules, pv_matches = ms, pv_not_matches = nms, pv_location = l\<rparr>]\<rparr>"]
    by (simp add: all_rules_def build_def a(3))
  moreover have "(\<exists>r\<in>set rules. rule_matches r cmd = Some mt) \<longleftrightarrow>
      list_all2 token_matches (first_token # remaining) (take (Suc (length remaining)) cmd) \<and>
      mt = PrefixRuleMatch (take (Suc (length remaining)) cmd) dec None j'" for mt
    unfolding a(2) using alternatives_match[of first_token remaining dec j' cmd mt] by simp
  ultimately have "set (matching_rules (build b') cmd) = set (matching_rules (build b) cmd) \<union>
      (if list_all2 token_matches (first_token # remaining) (take (length (first_token # remaining)) cmd)
       then {PrefixRuleMatch (take (length (first_token # remaining)) cmd) dec None j'} else {})"
    unfolding matching_rules_all[OF ok(1)] matching_rules_all[OF ok(2)] by auto
  with a(1) show ?thesis by blast
qed

section \<open>Witnesses\<close>

definition demo_lib :: parser_lib where
  "demo_lib = \<lparr>shlex_split = (\<lambda>s. Some (split_on SPACE s)), shlex_join = (\<lambda>ws. Some (join [SPACE] ws)),
     debug_rule = (\<lambda>r. rule_program r), debug_match = (\<lambda>m. [])\<rparr>"

definition demo_env :: path_env where
  "demo_env = \<lparr>home_dir = None, current_dir = None\<rparr>"

definition demo_call :: builtin_call where
  "demo_call = CallPrefixRule [SvString (lit ''git''), SvList [SvString (lit ''push''), SvString (lit ''pull'')]]
     (Some (lit ''prompt'')) (Some [SvString (lit ''git push'')]) (Some [SvList [SvString (lit ''git'')]]) None None"

lemmas parser_eval = parse_policy_def demo_call_def demo_lib_def demo_env_def builtin_prefix_rule_def
  parse_decision_def check_justification_def parse_pattern_def parse_optional_examples_def parse_examples_def
  parse_string_example_def parse_list_example_def new_builder_def add_rule_def rule_program_def
  validate_pending_examples_from_def validate_pending_def validation_policy_def validate_match_examples_def
  matches_for_command_with_options_def match_exact_rules_def nonempty_option_def rule_matches_def
  matches_prefix_def map_filter_simps map_err_def match_host_executable_rules_def absolute_path_buf_def
  expand_home_def absolutize_def path_is_absolute_def starts_with_def lit_simps Let_def

lemma demo_parses: "\<exists>b. parse_policy demo_lib demo_env [demo_call] new_builder = Inr b \<and> length (b_pending b) = 1"
  by (simp add: parser_eval)

theorem parse_policy_well_formed_witness:
  "\<exists>b. parse_policy demo_lib demo_env [demo_call] new_builder = Inr b \<and> table_ok (rules_by_program (build b))"
  using demo_parses parse_policy_well_formed[of demo_lib demo_env "[demo_call]"] by blast

theorem parse_policy_examples_hold_witness:
  "\<exists>b v. parse_policy demo_lib demo_env [demo_call] new_builder = Inr b \<and> b_pending b = [v] \<and>
     (\<forall>ex\<in>set (pv_matches v). matches_for_command_with_options demo_env (validation_policy b v) ex None True \<noteq> [])"
proof -
  obtain b where b: "parse_policy demo_lib demo_env [demo_call] new_builder = Inr b" "length (b_pending b) = 1"
    using demo_parses by blast
  from b(2) obtain v where v: "b_pending b = [v]" by (cases "b_pending b") auto
  from parse_policy_examples_hold[OF b(1)] v b(1) show ?thesis by (auto simp: new_builder_def)
qed

theorem prefix_rule_semantics_witness:
  "\<exists>b' dec j'. builtin_prefix_rule demo_lib [SvString (lit ''ls'')] None None None None None new_builder = Inr b' \<and>
     set (matching_rules (build b') [lit ''ls'', lit ''x'']) = {PrefixRuleMatch [lit ''ls''] dec None j'}"
proof -
  have ok: "table_ok (b_rules new_builder)" by (simp add: new_builder_def table_ok_def)
  obtain b' where b': "builtin_prefix_rule demo_lib [SvString (lit ''ls'')] None None None None None new_builder = Inr b'"
    by (simp add: parser_eval)
  moreover have "parse_pattern [SvString (lit ''ls'')] = Inr [Single (lit ''ls'')]"
    by (simp add: parse_pattern_def)
  moreover have "matching_rules (build new_builder) [lit ''ls'', lit ''x''] = []"
    by (simp add: matching_rules_table build_def new_builder_def table_rules_def map_filter_simps)
  ultimately show ?thesis
    using prefix_rule_semantics[OF b' ok, of "[lit ''ls'', lit ''x'']"] by auto
qed

end
