(* ===== verification/ShellSyntax.thy ===== *)
theory ShellSyntax
  imports AbsPath
begin

text \<open>
  The shell syntax that command classification rests on (\<open>shell-command/src/bash.rs\<close>, with
  \<open>detect_shell_type\<close> of \<open>shell_detect.rs\<close>). The grammar is tree-sitter's, a third-party
  library: \<open>try_parse_shell\<close> is a parameter that maps a script to a \<open>node\<close>, and everything the
  code does with the tree is translated. Each loop over a \<open>Vec\<close> used as a stack is a recursion over
  a list whose head is the top of the stack; it ends because the sizes of the nodes on the stack add
  up to less at every step.
\<close>

section \<open>Detecting the shell\<close>

datatype shell_type = Zsh | Bash | PowerShell | Sh | Cmd

text \<open>\<open>Path::file_stem\<close> and equality of paths by components, for a path without a slash on the
  right-hand side.\<close>

definition stem_of_name :: "str \<Rightarrow> str" where
  "stem_of_name name =
     (case rsplit_once 46 name of
        Some (before, after) \<Rightarrow> if before = [] then name else before
      | None \<Rightarrow> name)"

definition path_file_stem :: "str \<Rightarrow> str option" where
  "path_file_stem p = map_option stem_of_name (path_file_name p)"

definition same_single_component :: "str \<Rightarrow> str \<Rightarrow> bool" where
  "same_single_component name p \<longleftrightarrow>
     \<not> path_is_absolute p \<and> hd (split_on 47 p) \<noteq> [46] \<and> path_normal_parts p = [name]"

definition named_shell :: "str \<Rightarrow> shell_type option" where
  "named_shell s =
     (if s = lit ''zsh'' then Some Zsh
      else if s = lit ''sh'' then Some Sh
      else if s = lit ''cmd'' then Some Cmd
      else if s = lit ''bash'' then Some Bash
      else if s = lit ''pwsh'' then Some PowerShell
      else if s = lit ''powershell'' then Some PowerShell
      else None)"

lemma length_stem_of_name: "length (stem_of_name n) \<le> length n"
proof (cases "rsplit_once 46 n")
  case (Some ab)
  obtain a b where ab: "ab = (a, b)" by (cases ab)
  with Some have "length n = length a + length b + 1" by (auto simp: rsplit_once_Some)
  with Some ab show ?thesis by (simp add: stem_of_name_def)
qed (simp add: stem_of_name_def)

lemma split_on_length: "l \<in> set (split_on c s) \<Longrightarrow> length l \<le> length s"
proof (induction s arbitrary: l)
  case (Cons x s)
  then show ?case by (cases "split_on c s") (auto split: if_splits intro: le_SucI)
qed simp

lemma split_on_length_less: "l \<in> set (split_on c s) \<Longrightarrow> c \<in> set s \<Longrightarrow> length l < length s"
proof (induction s arbitrary: l)
  case (Cons x s)
  have le: "\<And>p. p \<in> set (split_on c s) \<Longrightarrow> length p \<le> length s" by (rule split_on_length)
  show ?case
  proof (cases "x = c")
    case True
    with Cons.prems le show ?thesis by (auto simp: less_Suc_eq_le)
  next
    case False
    with Cons.prems have "c \<in> set s" by simp
    moreover obtain p ps where "split_on c s = p # ps" by (cases "split_on c s") auto
    ultimately show ?thesis
      using Cons.prems(1) False Cons.IH[of p] Cons.IH[of l] by (auto intro: less_SucI)
  qed
qed simp

lemma path_file_name_length: "path_file_name p = Some n \<Longrightarrow> length n \<le> length p \<and> (47 \<in> set p \<longrightarrow> length n < length p)"
proof -
  assume "path_file_name p = Some n"
  then have "n \<in> set (path_normal_parts p)"
    by (auto simp: path_file_name_def last_opt_def split: option.splits if_splits)
  then have "n \<in> set (split_on 47 p)" by (simp add: path_normal_parts_def)
  then show ?thesis using split_on_length split_on_length_less by blast
qed

function detect_shell_type :: "str \<Rightarrow> shell_type option" where
  "detect_shell_type p =
     (case named_shell p of
        Some t \<Rightarrow> Some t
      | None \<Rightarrow>
          (case path_file_stem p of
             None \<Rightarrow> None
           | Some stem \<Rightarrow> if same_single_component stem p then None else detect_shell_type stem))"
  by pat_completeness auto
termination
proof (relation "measure length")
  fix p stem
  assume s: "path_file_stem p = Some stem" and ne: "\<not> same_single_component stem p"
  then obtain n where n: "path_file_name p = Some n" "stem = stem_of_name n"
    by (auto simp: path_file_stem_def)
  have le: "length stem \<le> length n" using length_stem_of_name n(2) by simp
  show "(stem, p) \<in> measure length"
  proof (cases "47 \<in> set p")
    case True
    then show ?thesis using path_file_name_length[OF n(1)] le by simp
  next
    case False
    then have sp: "split_on 47 p = [p]" by (rule split_on_id)
    with n(1) have np: "n = p" "p \<noteq> []" "p \<noteq> [46]"
      by (auto simp: path_file_name_def path_normal_parts_def last_opt_def split: if_splits)
    have "\<not> path_is_absolute p" using False np(2) by (cases p) (auto simp: path_is_absolute_def starts_with_def)
    with sp np ne have "stem \<noteq> p"
      by (auto simp: same_single_component_def path_normal_parts_def)
    moreover have "stem = p \<or> length stem < length p"
    proof (cases "rsplit_once 46 p")
      case (Some ab)
      obtain a b where ab: "ab = (a, b)" by (cases ab)
      with Some have "length p = length a + length b + 1" by (auto simp: rsplit_once_Some)
      with Some ab n np show ?thesis by (auto simp: stem_of_name_def)
    qed (use n np in \<open>simp add: stem_of_name_def\<close>)
    ultimately show ?thesis by simp
  qed
qed simp

declare detect_shell_type.simps [simp del]

definition extract_bash_command :: "str list \<Rightarrow> (str \<times> str) option" where
  "extract_bash_command command =
     (case command of
        [shell, flag, script] \<Rightarrow>
          if flag \<notin> {lit ''-lc'', lit ''-c''} \<or>
             detect_shell_type shell \<notin> {Some Zsh, Some Bash, Some Sh}
          then None else Some (shell, script)
      | _ \<Rightarrow> None)"

section \<open>Syntax trees\<close>

text \<open>A node of the tree that tree-sitter returns: its kind, whether it is named, whether it or a
  descendant is an error, its text, its first byte and its children.\<close>

datatype node = Node
  (kind: str) (is_named: bool) (has_error: bool) (utf8_text: str) (start_byte: nat) (node_children: "node list")

definition named_children :: "node \<Rightarrow> node list" where
  "named_children n = filter is_named (node_children n)"

definition ALLOWED_KINDS :: "str list" where
  "ALLOWED_KINDS = map lit [''program'', ''list'', ''pipeline'', ''command'', ''command_name'', ''word'',
     ''string'', ''string_content'', ''raw_string'', ''number'', ''concatenation'']"

definition ALLOWED_PUNCT_TOKENS :: "str list" where
  "ALLOWED_PUNCT_TOKENS = [lit ''&&'', lit ''||'', lit '';'', lit ''|'', [34], [39]]"

text \<open>The test on one node of the walk: \<open>True\<close> when the walk goes on.\<close>

definition node_allowed :: "node \<Rightarrow> bool" where
  "node_allowed n \<longleftrightarrow>
     (if is_named n then kind n \<in> set ALLOWED_KINDS
      else \<not> (list_ex (\<lambda>c. c \<in> {38, 59, 124}) (kind n) \<and> kind n \<notin> set ALLOWED_PUNCT_TOKENS) \<and>
           (kind n \<in> set ALLOWED_PUNCT_TOKENS \<or> trim (kind n) = []))"

lemma size_child: "c \<in> set (node_children n) \<Longrightarrow> size c < size n"
  by (cases n) (auto simp: less_Suc_eq_le dest: size_list_estimation'[where f = size, OF _ order_refl])

lemma sum_size_children: "sum_list (map size (node_children n)) < size n"
  by (cases n) (auto simp: size_list_conv_sum_list less_Suc_eq_le sum_list_Suc)

text \<open>The loop over the stack, whose top is the head of the list.\<close>

function walk_words :: "node list \<Rightarrow> node list \<Rightarrow> node list option" where
  "walk_words [] acc = Some acc"
| "walk_words (n # stack) acc =
     (if \<not> node_allowed n then None
      else walk_words (rev (node_children n) @ stack)
             (if is_named n \<and> kind n = lit ''command'' then acc @ [n] else acc))"
  by pat_completeness auto
termination
  by (relation "measure (\<lambda>(stack, acc). sum_list (map size stack))")
    (auto simp: sum_size_children rev_map[symmetric] sum_list_rev)

definition parse_double_quoted_string :: "node \<Rightarrow> str option" where
  "parse_double_quoted_string n =
     (if kind n \<noteq> lit ''string'' then None
      else if list_ex (\<lambda>part. kind part \<noteq> lit ''string_content'') (named_children n) then None
      else (case strip_prefix (utf8_text n) [34] of
              None \<Rightarrow> None
            | Some t \<Rightarrow> strip_suffix t [34]))"

definition parse_raw_string :: "node \<Rightarrow> str option" where
  "parse_raw_string n =
     (if kind n \<noteq> lit ''raw_string'' then None
      else (case strip_prefix (utf8_text n) [39] of
              None \<Rightarrow> None
            | Some t \<Rightarrow> strip_suffix t [39]))"

text \<open>One part of a concatenation, and the whole of it.\<close>

definition parse_concat_part :: "node \<Rightarrow> str option" where
  "parse_concat_part part =
     (if kind part \<in> {lit ''word'', lit ''number''} then Some (utf8_text part)
      else if kind part = lit ''string'' then parse_double_quoted_string part
      else if kind part = lit ''raw_string'' then parse_raw_string part
      else None)"

fun map_option_list :: "('a \<Rightarrow> 'b option) \<Rightarrow> 'a list \<Rightarrow> 'b list option" where
  "map_option_list f [] = Some []"
| "map_option_list f (x # xs) =
     (case f x of
        None \<Rightarrow> None
      | Some y \<Rightarrow> (case map_option_list f xs of None \<Rightarrow> None | Some ys \<Rightarrow> Some (y # ys)))"

definition parse_concatenation :: "node \<Rightarrow> str option" where
  "parse_concatenation n =
     (case map_option_list parse_concat_part (named_children n) of
        None \<Rightarrow> None
      | Some parts \<Rightarrow> if concat parts = [] then None else Some (concat parts))"

text \<open>A child of a plain command as a word.\<close>

definition parse_plain_word :: "node \<Rightarrow> str option" where
  "parse_plain_word child =
     (if kind child = lit ''command_name'' then
        (case named_children child of
           [] \<Rightarrow> None
         | w # _ \<Rightarrow> if kind w \<noteq> lit ''word'' then None else Some (utf8_text w))
      else if kind child \<in> {lit ''word'', lit ''number''} then Some (utf8_text child)
      else if kind child = lit ''string'' then parse_double_quoted_string child
      else if kind child = lit ''raw_string'' then parse_raw_string child
      else if kind child = lit ''concatenation'' then parse_concatenation child
      else None)"

definition parse_plain_command_from_node :: "node \<Rightarrow> str list option" where
  "parse_plain_command_from_node cmd =
     (if kind cmd \<noteq> lit ''command'' then None else map_option_list parse_plain_word (named_children cmd))"

definition try_parse_word_only_commands_sequence :: "node \<Rightarrow> str list list option" where
  "try_parse_word_only_commands_sequence root =
     (if has_error root then None
      else (case walk_words [root] [] of
              None \<Rightarrow> None
            | Some nodes \<Rightarrow> map_option_list parse_plain_command_from_node (sort_key start_byte nodes)))"

definition parse_shell_script_into_commands :: "(str \<Rightarrow> node option) \<Rightarrow> str \<Rightarrow> str list list option" where
  "parse_shell_script_into_commands try_parse_shell script =
     (case try_parse_shell script of
        None \<Rightarrow> None
      | Some tree \<Rightarrow> try_parse_word_only_commands_sequence tree)"

definition parse_shell_lc_plain_commands :: "(str \<Rightarrow> node option) \<Rightarrow> str list \<Rightarrow> str list list option" where
  "parse_shell_lc_plain_commands try_parse_shell command =
     (case extract_bash_command command of
        None \<Rightarrow> None
      | Some (_, script) \<Rightarrow> parse_shell_script_into_commands try_parse_shell script)"

section \<open>Literal words of any script\<close>

definition is_literal_word_or_number :: "node \<Rightarrow> bool" where
  "is_literal_word_or_number n \<longleftrightarrow>
     kind n \<in> {lit ''word'', lit ''number''} \<and> named_children n = []"

lemma size_named_child: "c \<in> set (named_children n) \<Longrightarrow> size c < size n"
  by (auto simp: named_children_def size_child)

lemma map_option_list_cong [fundef_cong]:
  "xs = ys \<Longrightarrow> (\<And>x. x \<in> set ys \<Longrightarrow> f x = g x) \<Longrightarrow> map_option_list f xs = map_option_list g ys"
proof (induction xs arbitrary: ys)
  case (Cons x xs)
  then have "f x = g x" "map_option_list f xs = map_option_list g xs" by auto
  with Cons.prems(1) show ?case by (auto split: option.split)
qed auto

function parse_literal_shell_word :: "node \<Rightarrow> str option" where
  "parse_literal_shell_word n =
     (if kind n \<in> {lit ''word'', lit ''number''} \<and> is_literal_word_or_number n then Some (utf8_text n)
      else if kind n = lit ''string'' then parse_double_quoted_string n
      else if kind n = lit ''raw_string'' then parse_raw_string n
      else if kind n = lit ''concatenation'' then
        (case map_option_list parse_literal_shell_word (named_children n) of
           None \<Rightarrow> None
         | Some parts \<Rightarrow> if concat parts = [] then None else Some (concat parts))
      else None)"
  by pat_completeness auto
termination
  by (relation "measure size") (auto simp: size_named_child)

declare parse_literal_shell_word.simps [simp del]

text \<open>The children of a command in order: the name, then the literal words after it.\<close>

fun literal_words :: "bool \<Rightarrow> str list \<Rightarrow> node list \<Rightarrow> (bool \<times> str list) option" where
  "literal_words found ws [] = Some (found, ws)"
| "literal_words found ws (child # rest) =
     (if kind child = lit ''command_name'' then
        (case named_children child of
           [] \<Rightarrow> None
         | w # _ \<Rightarrow>
             (case parse_literal_shell_word w of
                None \<Rightarrow> None
              | Some name \<Rightarrow> literal_words True (ws @ [name]) rest))
      else if found then
        (case parse_literal_shell_word child of
           Some w \<Rightarrow> literal_words found (ws @ [w]) rest
         | None \<Rightarrow> literal_words found ws rest)
      else literal_words found ws rest)"

definition parse_literal_command_from_node :: "node \<Rightarrow> str list option" where
  "parse_literal_command_from_node cmd =
     (if kind cmd \<noteq> lit ''command'' then None
      else (case literal_words False [] (named_children cmd) of
              Some (True, ws) \<Rightarrow> Some ws
            | _ \<Rightarrow> None))"

lemma sum_size_named_children: "sum_list (map size (named_children n)) < size n"
proof -
  have "sum_list (map size (filter is_named cs)) \<le> sum_list (map size cs)" for cs :: "node list"
    by (induction cs) auto
  from this[of "node_children n"] sum_size_children[of n] show ?thesis
    by (simp add: named_children_def)
qed

function walk_literal :: "node list \<Rightarrow> str list list \<Rightarrow> str list list" where
  "walk_literal [] acc = acc"
| "walk_literal (n # stack) acc =
     walk_literal (rev (named_children n) @ stack)
       (if kind n = lit ''command'' then
          (case parse_literal_command_from_node n of Some ws \<Rightarrow> acc @ [ws] | None \<Rightarrow> acc)
        else acc)"
  by pat_completeness auto
termination
  by (relation "measure (\<lambda>(stack, acc). sum_list (map size stack))")
    (auto simp: sum_size_named_children rev_map[symmetric] sum_list_rev)

definition parse_shell_lc_literal_commands :: "(str \<Rightarrow> node option) \<Rightarrow> str list \<Rightarrow> str list list option" where
  "parse_shell_lc_literal_commands try_parse_shell command =
     (case extract_bash_command command of
        None \<Rightarrow> None
      | Some (_, script) \<Rightarrow>
          (case try_parse_shell script of
             None \<Rightarrow> None
           | Some root \<Rightarrow> if has_error root then None else Some (walk_literal [root] [])))"

section \<open>Heredoc scripts\<close>

function has_named_descendant_kind :: "str \<Rightarrow> node list \<Rightarrow> bool" where
  "has_named_descendant_kind k [] = False"
| "has_named_descendant_kind k (n # stack) =
     (if kind n = k then True else has_named_descendant_kind k (rev (named_children n) @ stack))"
  by pat_completeness auto
termination
  by (relation "measure (\<lambda>(k, stack). sum_list (map size stack))")
    (auto simp: sum_size_named_children rev_map[symmetric] sum_list_rev)

function find_single_command_node :: "node list \<Rightarrow> node option \<Rightarrow> node option" where
  "find_single_command_node [] single = single"
| "find_single_command_node (n # stack) single =
     (if kind n = lit ''command'' \<and> single \<noteq> None then None
      else find_single_command_node (rev (named_children n) @ stack)
             (if kind n = lit ''command'' then Some n else single))"
  by pat_completeness auto
termination
  by (relation "measure (\<lambda>(stack, single). sum_list (map size stack))")
    (auto simp: sum_size_named_children rev_map[symmetric] sum_list_rev)

definition is_allowed_heredoc_attachment_kind :: "str \<Rightarrow> bool" where
  "is_allowed_heredoc_attachment_kind k \<longleftrightarrow>
     k \<in> set (map lit [''heredoc_body'', ''simple_heredoc_body'', ''heredoc_redirect'',
       ''herestring_redirect'', ''redirected_statement''])"

text \<open>A child of a heredoc command: the words it adds, or the rejection.\<close>

definition heredoc_child_words :: "node \<Rightarrow> str list option" where
  "heredoc_child_words child =
     (if kind child = lit ''command_name'' then
        (case named_children child of
           [] \<Rightarrow> None
         | w # _ \<Rightarrow> if is_literal_word_or_number w then Some [utf8_text w] else None)
      else if kind child \<in> {lit ''word'', lit ''number''} then
        (if is_literal_word_or_number child then Some [utf8_text child] else None)
      else if kind child = lit ''comment'' \<or> is_allowed_heredoc_attachment_kind (kind child) then Some []
      else None)"

definition parse_heredoc_command_words :: "node \<Rightarrow> str list option" where
  "parse_heredoc_command_words cmd =
     (if kind cmd \<noteq> lit ''command'' then None
      else (case map_option_list heredoc_child_words (named_children cmd) of
              None \<Rightarrow> None
            | Some wss \<Rightarrow> if concat wss = [] then None else Some (concat wss)))"

definition parse_shell_lc_single_command_prefix :: "(str \<Rightarrow> node option) \<Rightarrow> str list \<Rightarrow> str list option" where
  "parse_shell_lc_single_command_prefix try_parse_shell command =
     (case extract_bash_command command of
        None \<Rightarrow> None
      | Some (_, script) \<Rightarrow>
          (case try_parse_shell script of
             None \<Rightarrow> None
           | Some root \<Rightarrow>
               if has_error root then None
               else if \<not> has_named_descendant_kind (lit ''heredoc_redirect'') [root] then None
               else if has_named_descendant_kind (lit ''file_redirect'') [root] then None
               else (case find_single_command_node [root] None of
                       None \<Rightarrow> None
                     | Some cmd \<Rightarrow> parse_heredoc_command_words cmd)))"

section \<open>The walk over the tree\<close>

primrec descendants :: "node \<Rightarrow> node list" where
  "descendants (Node k nm e t s cs) = Node k nm e t s cs # concat (map descendants cs)"

lemma descendants_children: "set (descendants n) = insert n (\<Union>c\<in>set (node_children n). set (descendants c))"
  by (cases n) auto

definition command_nodes :: "node list \<Rightarrow> node set" where
  "command_nodes ns = {n \<in> (\<Union>m\<in>set ns. set (descendants m)). is_named n \<and> kind n = lit ''command''}"

lemma walk_words_Some:
  "walk_words stack acc = Some r \<Longrightarrow>
   (\<forall>m\<in>set stack. \<forall>n\<in>set (descendants m). node_allowed n) \<and> set r = set acc \<union> command_nodes stack"
proof (induction stack acc arbitrary: r rule: walk_words.induct)
  case (2 n stack acc)
  then have ok: "node_allowed n" by (auto split: if_splits)
  with 2 have IH: "(\<forall>m\<in>set (rev (node_children n) @ stack). \<forall>d\<in>set (descendants m). node_allowed d) \<and>
      set r = set (if is_named n \<and> kind n = lit ''command'' then acc @ [n] else acc) \<union>
        command_nodes (rev (node_children n) @ stack)"
    by simp
  have "command_nodes (n # stack) =
      (if is_named n \<and> kind n = lit ''command'' then {n} else {}) \<union> command_nodes (rev (node_children n) @ stack)"
    unfolding command_nodes_def by (auto simp: descendants_children[of n])
  with IH ok show ?case by (auto simp: descendants_children[of n])
qed (simp add: command_nodes_def)

lemma map_option_list_Some:
  "map_option_list f xs = Some ys \<longleftrightarrow> list_all2 (\<lambda>x y. f x = Some y) xs ys"
proof (induction xs arbitrary: ys)
  case (Cons x xs)
  show ?case
    by (cases ys; cases "f x"; cases "map_option_list f xs") (auto simp flip: Cons.IH)
qed auto

lemma word_only_commands:
  assumes "try_parse_word_only_commands_sequence root = Some cmds"
  shows "\<not> has_error root" and "\<forall>n\<in>set (descendants root). node_allowed n"
    and "\<forall>n\<in>command_nodes [root]. \<exists>ws\<in>set cmds. parse_plain_command_from_node n = Some ws"
proof -
  from assms obtain nodes where nodes: "walk_words [root] [] = Some nodes"
    and cmds: "map_option_list parse_plain_command_from_node (sort_key start_byte nodes) = Some cmds"
    and err: "\<not> has_error root"
    by (auto simp: try_parse_word_only_commands_sequence_def split: if_splits option.splits)
  show "\<not> has_error root" by (rule err)
  show "\<forall>n\<in>set (descendants root). node_allowed n" using walk_words_Some[OF nodes] by simp
  have "set (sort_key start_byte nodes) = command_nodes [root]" using walk_words_Some[OF nodes] by simp
  then show "\<forall>n\<in>command_nodes [root]. \<exists>ws\<in>set cmds. parse_plain_command_from_node n = Some ws"
    using cmds unfolding map_option_list_Some list_all2_conv_all_nth by (metis in_set_conv_nth)
qed

end
