(* ===== verification/CommandSafety.thy ===== *)
theory CommandSafety
  imports ShellSyntax
begin

text \<open>
  The classification of commands (\<open>shell-command/src/command_safety/\<close>): \<open>is_dangerous_command.rs\<close>
  recognises commands that must not run without a question, through \<open>sudo\<close>, \<open>env\<close>, \<open>trap\<close> and
  shell scripts up to a nesting bound, and \<open>is_safe_command.rs\<close> the read-only commands that run
  without one. The build modelled is Linux: the Windows branches and PowerShell are left out.
\<close>

section \<open>Dangerous commands\<close>

datatype dangerous_match = ForcedRm | Other

definition MAX_DANGEROUS_COMMAND_WRAPPER_DEPTH :: nat where
  "MAX_DANGEROUS_COMMAND_WRAPPER_DEPTH = 8"

text \<open>On Unix the key of an executable is its file name; the first word of a command gives it.\<close>

definition executable_name_lookup_key :: "str \<Rightarrow> str option" where
  "executable_name_lookup_key raw = path_file_name raw"

definition command_key :: "str list \<Rightarrow> str option" where
  "command_key command = (case command of [] \<Rightarrow> None | cmd0 # _ \<Rightarrow> executable_name_lookup_key cmd0)"

definition is_force_flag :: "str \<Rightarrow> bool" where
  "is_force_flag arg \<longleftrightarrow>
     arg = lit ''--force'' \<or>
     (case strip_prefix arg [45] of
        None \<Rightarrow> False
      | Some flags \<Rightarrow> \<not> starts_with flags [45] \<and> 102 \<in> set flags)"

definition rm_args_include_force_option :: "str list \<Rightarrow> bool" where
  "rm_args_include_force_option args = list_ex is_force_flag (takeWhile (\<lambda>arg. arg \<noteq> lit ''--'') args)"

text \<open>The words that remain after the options and assignments of \<open>env\<close>, and the action of a
  \<open>trap\<close>; both take the words after the command's name.\<close>

definition is_env_assignment :: "str \<Rightarrow> bool" where
  "is_env_assignment arg \<longleftrightarrow>
     (case split_once 61 arg of
        None \<Rightarrow> False
      | Some (name, _) \<Rightarrow> name \<noteq> [] \<and> \<not> starts_with name [45])"

fun skip_env_arguments :: "str list \<Rightarrow> str list" where
  "skip_env_arguments [] = []"
| "skip_env_arguments (arg # rest) =
     (if arg = lit ''--'' then rest
      else if arg = lit ''-i'' \<or> arg = lit ''--ignore-environment'' \<or> is_env_assignment arg
      then skip_env_arguments rest
      else arg # rest)"

definition trap_action :: "str list \<Rightarrow> str option" where
  "trap_action operands =
     (case (if operands \<noteq> [] \<and> hd operands = lit ''--'' then tl operands else operands) of
        [] \<Rightarrow> None
      | action # _ \<Rightarrow> if starts_with action [45] then None else Some action)"

text \<open>\<open>Iterator::find_map\<close>, which stops at the first value.\<close>

fun find_map :: "('a \<Rightarrow> 'b option) \<Rightarrow> 'a list \<Rightarrow> 'b option" where
  "find_map f [] = None"
| "find_map f (x # xs) = (case f x of Some y \<Rightarrow> Some y | None \<Rightarrow> find_map f xs)"

lemma find_map_cong [fundef_cong]:
  "xs = ys \<Longrightarrow> (\<And>x. x \<in> set ys \<Longrightarrow> f x = g x) \<Longrightarrow> find_map f xs = find_map g ys"
  by (induction xs arbitrary: ys) (auto split: option.split)

lemma find_map_None: "find_map f xs = None \<longleftrightarrow> (\<forall>x\<in>set xs. f x = None)"
  by (induction xs) (auto split: option.split)

function dangerous_command_match_with_depth ::
    "(str \<Rightarrow> node option) \<Rightarrow> str list \<Rightarrow> nat \<Rightarrow> dangerous_match option"
and dangerous_command_match_for_exec ::
    "(str \<Rightarrow> node option) \<Rightarrow> str list \<Rightarrow> nat \<Rightarrow> dangerous_match option" where
  "dangerous_command_match_with_depth parse command depth =
     (if depth > MAX_DANGEROUS_COMMAND_WRAPPER_DEPTH then None
      else (case dangerous_command_match_for_exec parse command depth of
              Some m \<Rightarrow> Some m
            | None \<Rightarrow>
                (case parse_shell_lc_literal_commands parse command of
                   None \<Rightarrow> None
                 | Some commands \<Rightarrow>
                     find_map (\<lambda>c. dangerous_command_match_with_depth parse c (depth + 1)) commands)))"
| "dangerous_command_match_for_exec parse command depth =
     (case command_key command of
        None \<Rightarrow> None
      | Some key \<Rightarrow>
          if key = lit ''rm'' \<and> rm_args_include_force_option (tl command) then Some ForcedRm
          else if key = lit ''sudo''
          then dangerous_command_match_with_depth parse (tl command) (depth + 1)
          else if key = lit ''env''
          then dangerous_command_match_with_depth parse (skip_env_arguments (tl command)) (depth + 1)
          else if key = lit ''trap'' then
            (case trap_action (tl command) of
               None \<Rightarrow> None
             | Some action \<Rightarrow>
                 dangerous_command_match_with_depth parse [lit ''sh'', lit ''-c'', action] (depth + 1))
          else None)"
  by pat_completeness auto
termination
  by (relation "measure (\<lambda>x. case x of
        Inl (_, _, d) \<Rightarrow> if d > MAX_DANGEROUS_COMMAND_WRAPPER_DEPTH then 0 else 2 * (9 - d)
      | Inr (_, _, d) \<Rightarrow> if d > MAX_DANGEROUS_COMMAND_WRAPPER_DEPTH then 1 else 2 * (9 - d) - 1)")
    (auto simp: MAX_DANGEROUS_COMMAND_WRAPPER_DEPTH_def)

declare dangerous_command_match_with_depth.simps [simp del]
declare dangerous_command_match_for_exec.simps [simp del]

definition dangerous_command_match :: "(str \<Rightarrow> node option) \<Rightarrow> str list \<Rightarrow> dangerous_match option" where
  "dangerous_command_match parse command = dangerous_command_match_with_depth parse command 0"

section \<open>The git subcommand\<close>

definition is_git_global_option_with_value :: "str \<Rightarrow> bool" where
  "is_git_global_option_with_value arg \<longleftrightarrow>
     arg \<in> set (map lit [''-C'', ''-c'', ''--config-env'', ''--exec-path'', ''--git-dir'', ''--namespace'',
       ''--super-prefix'', ''--work-tree''])"

definition is_git_global_option_with_inline_value :: "str \<Rightarrow> bool" where
  "is_git_global_option_with_inline_value arg \<longleftrightarrow>
     list_ex (\<lambda>p. starts_with arg (lit p)) [''--config-env='', ''--exec-path='', ''--git-dir='',
       ''--namespace='', ''--super-prefix='', ''--work-tree=''] \<or>
     (starts_with arg (lit ''-C'') \<or> starts_with arg (lit ''-c'')) \<and> str_len arg > 2"

text \<open>The loop over the arguments, with the index of the next one and whether it is skipped.\<close>

fun git_subcommand_loop :: "str list \<Rightarrow> bool \<Rightarrow> nat \<Rightarrow> str list \<Rightarrow> (nat \<times> str) option" where
  "git_subcommand_loop subcommands skip_next idx [] = None"
| "git_subcommand_loop subcommands skip_next idx (arg # rest) =
     (if skip_next then git_subcommand_loop subcommands False (idx + 1) rest
      else if is_git_global_option_with_inline_value arg
      then git_subcommand_loop subcommands False (idx + 1) rest
      else if is_git_global_option_with_value arg
      then git_subcommand_loop subcommands True (idx + 1) rest
      else if arg = lit ''--'' \<or> starts_with arg [45]
      then git_subcommand_loop subcommands False (idx + 1) rest
      else if arg \<in> set subcommands then Some (idx, arg)
      else None)"

definition find_git_subcommand :: "str list \<Rightarrow> str list \<Rightarrow> (nat \<times> str) option" where
  "find_git_subcommand command subcommands =
     (if command_key command \<noteq> Some (lit ''git'') then None
      else git_subcommand_loop subcommands False 1 (tl command))"

section \<open>Safe commands\<close>

datatype git_option_pattern = Exact str | ShortWithInlineValue str | Prefix str

fun pattern_matches :: "git_option_pattern \<Rightarrow> str \<Rightarrow> bool" where
  "pattern_matches (Exact opt) arg = (arg = opt)"
| "pattern_matches (ShortWithInlineValue opt) arg = (starts_with arg opt \<and> str_len arg > str_len opt)"
| "pattern_matches (Prefix p) arg = starts_with arg p"

definition UNSAFE_GIT_GLOBAL_OPTIONS :: "git_option_pattern list" where
  "UNSAFE_GIT_GLOBAL_OPTIONS =
     [Exact (lit ''-C''), ShortWithInlineValue (lit ''-C''),
      Exact (lit ''-c''), ShortWithInlineValue (lit ''-c''),
      Exact (lit ''-p''),
      Exact (lit ''--config-env''), Prefix (lit ''--config-env=''),
      Exact (lit ''--exec-path''), Prefix (lit ''--exec-path=''),
      Exact (lit ''--git-dir''), Prefix (lit ''--git-dir=''),
      Exact (lit ''--namespace''), Prefix (lit ''--namespace=''),
      Exact (lit ''--paginate''),
      Exact (lit ''--super-prefix''), Prefix (lit ''--super-prefix=''),
      Exact (lit ''--work-tree''), Prefix (lit ''--work-tree='')]"

definition UNSAFE_GIT_SUBCOMMAND_OPTIONS :: "git_option_pattern list" where
  "UNSAFE_GIT_SUBCOMMAND_OPTIONS =
     [Exact (lit ''--output''), Prefix (lit ''--output=''), Exact (lit ''--ext-diff''),
      Exact (lit ''--textconv''), Exact (lit ''--exec''), Prefix (lit ''--exec='')]"

definition git_matches_option_pattern :: "str \<Rightarrow> git_option_pattern list \<Rightarrow> bool" where
  "git_matches_option_pattern arg patterns = list_ex (\<lambda>p. pattern_matches p arg) patterns"

definition git_has_unsafe_global_option :: "str list \<Rightarrow> bool" where
  "git_has_unsafe_global_option args = list_ex (\<lambda>arg. git_matches_option_pattern arg UNSAFE_GIT_GLOBAL_OPTIONS) args"

definition git_subcommand_args_are_read_only :: "str list \<Rightarrow> bool" where
  "git_subcommand_args_are_read_only args \<longleftrightarrow>
     \<not> list_ex (\<lambda>arg. git_matches_option_pattern arg UNSAFE_GIT_SUBCOMMAND_OPTIONS) args"

definition is_read_only_branch_flag :: "str \<Rightarrow> bool" where
  "is_read_only_branch_flag arg \<longleftrightarrow>
     arg \<in> set (map lit [''--list'', ''-l'', ''--show-current'', ''-a'', ''--all'', ''-r'', ''--remotes'', ''-v'',
       ''-vv'', ''--verbose'']) \<or> starts_with arg (lit ''--format='')"

fun branch_flags :: "bool \<Rightarrow> str list \<Rightarrow> bool" where
  "branch_flags saw [] = saw"
| "branch_flags saw (arg # rest) = (if is_read_only_branch_flag arg then branch_flags True rest else False)"

definition git_branch_is_read_only :: "str list \<Rightarrow> bool" where
  "git_branch_is_read_only args = (if args = [] then True else branch_flags False args)"

definition is_safe_git_command :: "str list \<Rightarrow> bool" where
  "is_safe_git_command command =
     (case find_git_subcommand command (map lit [''status'', ''log'', ''diff'', ''show'', ''branch'']) of
        None \<Rightarrow> False
      | Some (idx, sub) \<Rightarrow>
          if git_has_unsafe_global_option (drop 1 (take idx command)) then False
          else if sub \<in> set (map lit [''status'', ''log'', ''diff'', ''show''])
          then git_subcommand_args_are_read_only (drop (idx + 1) command)
          else if sub = lit ''branch''
          then git_subcommand_args_are_read_only (drop (idx + 1) command) \<and>
               git_branch_is_read_only (drop (idx + 1) command)
          else False)"

definition is_number :: "str \<Rightarrow> bool" where
  "is_number s \<longleftrightarrow> s \<noteq> [] \<and> list_all is_ascii_digit s"

definition is_valid_sed_n_arg :: "str option \<Rightarrow> bool" where
  "is_valid_sed_n_arg arg =
     (case arg of
        None \<Rightarrow> False
      | Some s \<Rightarrow>
          (case strip_suffix s [112] of
             None \<Rightarrow> False
           | Some core \<Rightarrow>
               (case split_on 44 core of
                  [num] \<Rightarrow> is_number num
                | [a, b] \<Rightarrow> is_number a \<and> is_number b
                | _ \<Rightarrow> False)))"

definition is_unsafe_base64_option :: "str \<Rightarrow> bool" where
  "is_unsafe_base64_option arg \<longleftrightarrow>
     arg \<in> {lit ''-o'', lit ''--output''} \<or> starts_with arg (lit ''--output='') \<or>
     starts_with arg (lit ''-o'') \<and> arg \<noteq> lit ''-o''"

definition UNSAFE_FIND_OPTIONS :: "str list" where
  "UNSAFE_FIND_OPTIONS = map lit [''-exec'', ''-execdir'', ''-ok'', ''-okdir'', ''-delete'', ''-fls'', ''-fprint'',
     ''-fprint0'', ''-fprintf'']"

definition is_unsafe_ripgrep_option :: "str \<Rightarrow> bool" where
  "is_unsafe_ripgrep_option arg \<longleftrightarrow>
     arg \<in> set (map lit [''--search-zip'', ''-z'']) \<or>
     list_ex (\<lambda>opt. arg = opt \<or> starts_with arg (opt @ [61])) (map lit [''--pre'', ''--hostname-bin''])"

definition ALWAYS_SAFE_COMMANDS :: "str list" where
  "ALWAYS_SAFE_COMMANDS = map lit [''cat'', ''cd'', ''cut'', ''echo'', ''expr'', ''false'', ''grep'', ''head'',
     ''id'', ''ls'', ''nl'', ''paste'', ''pwd'', ''rev'', ''seq'', ''stat'', ''tail'', ''tr'', ''true'', ''uname'',
     ''uniq'', ''wc'', ''which'', ''whoami'']"

text \<open>The whitelist, compiled for Linux.\<close>

definition is_safe_to_call_with_exec :: "str list \<Rightarrow> bool" where
  "is_safe_to_call_with_exec command =
     (case command_key command of
        None \<Rightarrow> False
      | Some cmd \<Rightarrow>
          if cmd \<in> set (map lit [''numfmt'', ''tac'']) then True
          else if cmd \<in> set ALWAYS_SAFE_COMMANDS then True
          else if cmd = lit ''base64'' then \<not> list_ex is_unsafe_base64_option (drop 1 command)
          else if cmd = lit ''find'' then \<not> list_ex (\<lambda>arg. arg \<in> set UNSAFE_FIND_OPTIONS) command
          else if cmd = lit ''rg'' then \<not> list_ex is_unsafe_ripgrep_option command
          else if cmd = lit ''git'' then is_safe_git_command command
          else if cmd = lit ''sed'' \<and> length command \<le> 4 \<and>
                  1 < length command \<and> command ! 1 = lit ''-n'' \<and>
                  is_valid_sed_n_arg (if 2 < length command then Some (command ! 2) else None)
          then True
          else False)"

definition zsh_as_bash :: "str \<Rightarrow> str" where
  "zsh_as_bash s = (if s = lit ''zsh'' then lit ''bash'' else s)"

definition is_known_safe_command :: "(str \<Rightarrow> node option) \<Rightarrow> str list \<Rightarrow> bool" where
  "is_known_safe_command parse raw =
     (let command = map zsh_as_bash raw in
      if is_safe_to_call_with_exec command then True
      else (case parse_shell_lc_plain_commands parse command of
              None \<Rightarrow> False
            | Some all_commands \<Rightarrow> all_commands \<noteq> [] \<and> list_all is_safe_to_call_with_exec all_commands))"

section \<open>The walks over a tree\<close>

text \<open>The nodes reached through named children.\<close>

function named_descendants :: "node \<Rightarrow> node list" where
  "named_descendants n = n # concat (map named_descendants (named_children n))"
  by pat_completeness auto
termination
  by (relation "measure size") (auto simp: size_named_child)

declare named_descendants.simps [simp del]

lemma set_named_descendants: "set (named_descendants n) = insert n (\<Union>c\<in>set (named_children n). set (named_descendants c))"
  by (subst named_descendants.simps) auto

lemma named_descendants_sub: "d \<in> set (named_descendants n) \<Longrightarrow> is_named n \<Longrightarrow> d \<in> set (descendants n) \<and> is_named d"
proof (induction n arbitrary: d rule: named_descendants.induct)
  case (1 n)
  then show ?case
    by (auto simp: set_named_descendants[of n] descendants_children[of n] named_children_def)
qed

lemma walk_literal_set:
  "set (walk_literal stack acc) =
     set acc \<union> {ws. \<exists>m\<in>set stack. \<exists>d\<in>set (named_descendants m). kind d = lit ''command'' \<and>
                       parse_literal_command_from_node d = Some ws}"
proof (induction stack acc rule: walk_literal.induct)
  case (2 n stack acc)
  show ?case
    unfolding walk_literal.simps(2) 2
    by (auto simp: set_named_descendants[of n] split: option.splits if_splits)
qed simp

lemma parse_shell_lc_literal_commands_Some:
  "parse_shell_lc_literal_commands parse command = Some cmds \<longleftrightarrow>
     (\<exists>shell script root. extract_bash_command command = Some (shell, script) \<and> parse script = Some root \<and>
        \<not> has_error root \<and> cmds = walk_literal [root] [])"
  by (auto simp: parse_shell_lc_literal_commands_def split: option.splits if_splits)

lemma parse_shell_lc_plain_commands_Some:
  "parse_shell_lc_plain_commands parse command = Some cmds \<longleftrightarrow>
     (\<exists>shell script root. extract_bash_command command = Some (shell, script) \<and> parse script = Some root \<and>
        try_parse_word_only_commands_sequence root = Some cmds)"
  by (auto simp: parse_shell_lc_plain_commands_def parse_shell_script_into_commands_def split: option.splits)

lemma list_all2_Some_set: "list_all2 (\<lambda>x y. f x = Some y) xs ys \<Longrightarrow> set ys = {y. \<exists>x\<in>set xs. f x = Some y}"
  by (induction rule: list_all2_induct) auto

lemma word_only_commands_set:
  assumes "try_parse_word_only_commands_sequence root = Some cmds"
  shows "set cmds = {ws. \<exists>n\<in>command_nodes [root]. parse_plain_command_from_node n = Some ws}"
proof -
  from assms obtain nodes where nodes: "walk_words [root] [] = Some nodes"
    and cmds: "map_option_list parse_plain_command_from_node (sort_key start_byte nodes) = Some cmds"
    by (auto simp: try_parse_word_only_commands_sequence_def split: if_splits option.splits)
  have s: "set (sort_key start_byte nodes) = command_nodes [root]" using walk_words_Some[OF nodes] by simp
  from list_all2_Some_set[OF cmds[unfolded map_option_list_Some]] s show ?thesis by simp
qed

section \<open>Executables that are no shell\<close>

lemma stem_of_plain_name: "46 \<notin> set n \<Longrightarrow> stem_of_name n = n"
proof (cases "rsplit_once 46 n")
  case (Some ab)
  assume "46 \<notin> set n"
  with Some show ?thesis by (cases ab) (auto simp: rsplit_once_Some)
qed (simp add: stem_of_name_def)

lemma named_shell_file_name: "named_shell p = Some t \<Longrightarrow> path_file_name p = Some p"
  by (rule path_file_name_bare)
    (auto simp: named_shell_def lit_simps split: if_splits)

lemma detect_shell_type_None:
  assumes n: "path_file_name p = Some n" "46 \<notin> set n" "named_shell n = None"
  shows "detect_shell_type p = None"
proof -
  have stem: "path_file_stem p = Some n" using n by (simp add: path_file_stem_def stem_of_plain_name)
  have nn: "47 \<notin> set n \<and> n \<noteq> [] \<and> n \<noteq> [46]" by (rule path_file_name_no_slash[OF n(1)])
  have "named_shell p = None" using named_shell_file_name n by (cases "named_shell p") auto
  moreover have "detect_shell_type n = None"
  proof -
    have pn: "path_file_name n = Some n" using nn n(2) by (auto intro!: path_file_name_bare)
    have "same_single_component n n"
      using nn by (cases n) (auto simp: same_single_component_def path_is_absolute_def starts_with_def
        path_normal_parts_def split_on_id)
    with pn n show ?thesis
      by (subst detect_shell_type.simps) (simp add: path_file_stem_def stem_of_plain_name)
  qed
  ultimately show ?thesis by (subst detect_shell_type.simps) (simp add: stem)
qed

lemma extract_bash_command_key:
  "command_key command = Some n \<Longrightarrow> 46 \<notin> set n \<Longrightarrow> named_shell n = None \<Longrightarrow> extract_bash_command command = None"
  by (auto simp: extract_bash_command_def command_key_def executable_name_lookup_key_def
    detect_shell_type_None split: list.splits)

section \<open>Commands under wrappers\<close>

definition wrapper_keys :: "str list" where
  "wrapper_keys = map lit [''rm'', ''sudo'', ''env'', ''trap'']"

lemma plain_command_not_dangerous:
  assumes "command_key command = Some n" "46 \<notin> set n" "named_shell n = None" "n \<notin> set wrapper_keys"
  shows "dangerous_command_match_with_depth parse command d = None"
proof -
  have "parse_shell_lc_literal_commands parse command = None"
    using extract_bash_command_key[OF assms(1-3)] by (simp add: parse_shell_lc_literal_commands_def)
  moreover have "dangerous_command_match_for_exec parse command d = None"
    using assms(1,4) by (subst dangerous_command_match_for_exec.simps) (auto simp: wrapper_keys_def)
  ultimately show ?thesis by (subst dangerous_command_match_with_depth.simps) simp
qed

definition safe_keys :: "str list" where
  "safe_keys = ALWAYS_SAFE_COMMANDS @ map lit [''numfmt'', ''tac'', ''base64'', ''find'', ''rg'', ''git'', ''sed'']"

lemma safe_exec_key:
  "is_safe_to_call_with_exec command \<Longrightarrow> \<exists>n. command_key command = Some n \<and> n \<in> set safe_keys"
  by (auto simp: is_safe_to_call_with_exec_def safe_keys_def split: option.splits if_splits)

lemma safe_keys_plain:
  "n \<in> set safe_keys \<Longrightarrow> 46 \<notin> set n \<and> named_shell n = None \<and> n \<notin> set wrapper_keys"
proof -
  have "list_all (\<lambda>n. \<not> List.member n 46 \<and> named_shell n = None \<and> n \<notin> set wrapper_keys) safe_keys"
    by (simp add: safe_keys_def ALWAYS_SAFE_COMMANDS_def wrapper_keys_def named_shell_def lit_simps)
  then show "n \<in> set safe_keys \<Longrightarrow> ?thesis" by (auto simp: list_all_iff)
qed

lemma sudo_key: "command_key (lit ''sudo'' # c) = Some (lit ''sudo'')"
  by (simp add: command_key_def executable_name_lookup_key_def path_file_name_bare lit_simps)

section \<open>Git commands\<close>

lemma git_value_option_unsafe:
  "is_git_global_option_with_value arg \<Longrightarrow> git_matches_option_pattern arg UNSAFE_GIT_GLOBAL_OPTIONS"
  by (auto simp: is_git_global_option_with_value_def git_matches_option_pattern_def UNSAFE_GIT_GLOBAL_OPTIONS_def)

lemma git_inline_option_unsafe:
  "is_git_global_option_with_inline_value arg \<Longrightarrow> git_matches_option_pattern arg UNSAFE_GIT_GLOBAL_OPTIONS"
proof -
  have "str_len (lit ''-C'') = 2" "str_len (lit ''-c'') = 2" by (simp_all add: lit_simps len_utf8_def)
  then show "is_git_global_option_with_inline_value arg \<Longrightarrow> ?thesis"
    by (auto simp: is_git_global_option_with_inline_value_def git_matches_option_pattern_def
      UNSAFE_GIT_GLOBAL_OPTIONS_def)
qed

lemma git_subcommand_loop_ge: "git_subcommand_loop subs skip idx args = Some (i, s) \<Longrightarrow> idx \<le> i"
  by (induction subs skip idx args rule: git_subcommand_loop.induct) (auto split: if_splits)

lemma git_subcommand_loop_Some:
  "git_subcommand_loop subs False idx args = Some (i, s) \<Longrightarrow>
   \<not> git_has_unsafe_global_option (take (i - idx) args) \<Longrightarrow>
   \<exists>globals rest. args = globals @ s # rest \<and> i = idx + length globals \<and>
     list_all (\<lambda>g. starts_with g [45]) globals \<and> s \<in> set subs"
proof (induction args arbitrary: idx)
  case (Cons arg args)
  let ?unsafe = "\<lambda>g. git_matches_option_pattern g UNSAFE_GIT_GLOBAL_OPTIONS"
  show ?case
  proof (cases "i = idx")
    case True
    then have "arg \<in> set subs \<and> s = arg"
      using Cons.prems(1) git_subcommand_loop_ge[of subs _ "idx + 1" args i s]
      by (fastforce split: if_splits)
    with True show ?thesis by (intro exI[of _ "[]"] exI[of _ args]) simp
  next
    case False
    then have lt: "idx + 1 \<le> i" using git_subcommand_loop_ge[OF Cons.prems(1)] by simp
    then have "i - idx = Suc (i - (idx + 1))" by simp
    then have tk: "take (i - idx) (arg # args) = arg # take (i - (idx + 1)) args" by simp
    with Cons.prems(2) have safe: "\<not> ?unsafe arg" "\<not> git_has_unsafe_global_option (take (i - (idx + 1)) args)"
      by (simp_all add: git_has_unsafe_global_option_def)
    then have no: "\<not> is_git_global_option_with_value arg" "\<not> is_git_global_option_with_inline_value arg"
      using git_value_option_unsafe git_inline_option_unsafe by blast+
    then have dash: "starts_with arg [45]" and rest: "git_subcommand_loop subs False (idx + 1) args = Some (i, s)"
      using Cons.prems(1) lt by (auto simp: lit_simps starts_with_def split: if_splits)
    from Cons.IH[OF rest safe(2)] obtain globals rest where
      "args = globals @ s # rest" "i = idx + 1 + length globals" "list_all (\<lambda>g. starts_with g [45]) globals" "s \<in> set subs"
      by blast
    with dash show ?thesis by (intro exI[of _ "arg # globals"] exI[of _ rest]) simp
  qed
qed simp

lemma git_subcommand_loop_intro:
  "list_all (\<lambda>g. starts_with g [45] \<and> \<not> git_matches_option_pattern g UNSAFE_GIT_GLOBAL_OPTIONS) globals \<Longrightarrow>
   s \<in> set subs \<Longrightarrow> \<not> starts_with s [45] \<Longrightarrow>
   \<not> is_git_global_option_with_value s \<Longrightarrow> \<not> is_git_global_option_with_inline_value s \<Longrightarrow>
   git_subcommand_loop subs False idx (globals @ s # rest) = Some (idx + length globals, s)"
proof (induction globals arbitrary: idx)
  case Nil
  then show ?case by (auto simp: lit_simps starts_with_def)
next
  case (Cons g globals)
  then have "\<not> is_git_global_option_with_value g" "\<not> is_git_global_option_with_inline_value g"
    using git_value_option_unsafe git_inline_option_unsafe by auto
  with Cons show ?case by simp
qed

lemma branch_flags_iff: "branch_flags saw args \<longleftrightarrow> list_all is_read_only_branch_flag args \<and> (saw \<or> args \<noteq> [])"
  by (induction args arbitrary: saw) auto

lemma git_branch_is_read_only_iff: "git_branch_is_read_only args \<longleftrightarrow> list_all is_read_only_branch_flag args"
  by (auto simp: git_branch_is_read_only_def branch_flags_iff)

definition git_subcommands :: "str list" where
  "git_subcommands = map lit [''status'', ''log'', ''diff'', ''show'', ''branch'']"

lemma git_subcommands_plain:
  "s \<in> set git_subcommands \<Longrightarrow> \<not> starts_with s [45] \<and> \<not> is_git_global_option_with_value s \<and>
     \<not> is_git_global_option_with_inline_value s"
  by (auto simp: git_subcommands_def is_git_global_option_with_value_def starts_with_def
    is_git_global_option_with_inline_value_def lit_simps)

text \<open>The command line of a git query: options that are not unsafe, a read-only subcommand, its
  arguments.\<close>

definition git_query_shape :: "str list \<Rightarrow> str list \<Rightarrow> str \<Rightarrow> str list \<Rightarrow> bool" where
  "git_query_shape command globals s args \<longleftrightarrow>
     command_key command = Some (lit ''git'') \<and> tl command = globals @ s # args \<and>
     list_all (\<lambda>g. starts_with g [45] \<and> \<not> git_matches_option_pattern g UNSAFE_GIT_GLOBAL_OPTIONS) globals \<and>
     s \<in> set git_subcommands \<and>
     list_all (\<lambda>a. \<not> git_matches_option_pattern a UNSAFE_GIT_SUBCOMMAND_OPTIONS) args \<and>
     (if s = lit ''branch'' then list_all is_read_only_branch_flag args else True)"

lemma is_safe_git_command_find:
  assumes "find_git_subcommand command git_subcommands = Some (idx, s)"
  shows "is_safe_git_command command \<longleftrightarrow>
     \<not> git_has_unsafe_global_option (drop 1 (take idx command)) \<and>
     (s \<in> set git_subcommands \<and> git_subcommand_args_are_read_only (drop (idx + 1) command) \<and>
      (s = lit ''branch'' \<longrightarrow> git_branch_is_read_only (drop (idx + 1) command)))"
  using assms unfolding git_subcommands_def is_safe_git_command_def
  by (auto simp: lit_simps)

text \<open>
  Git commands. A git command line is judged safe exactly when it is git, then options that all
  start with a dash and are none of the unsafe ones, then one of the five query subcommands, then
  arguments without an unsafe option, which for branch are all listing flags. In particular no
  value of a global option can pose as the subcommand.
\<close>
theorem is_safe_git_command_iff:
  "is_safe_git_command command \<longleftrightarrow> (\<exists>globals s args. git_query_shape command globals s args)"
proof
  assume safe: "is_safe_git_command command"
  then obtain idx s where f: "find_git_subcommand command git_subcommands = Some (idx, s)"
    by (auto simp: is_safe_git_command_def git_subcommands_def split: option.splits)
  from f have key: "command_key command = Some (lit ''git'')"
    and loop: "git_subcommand_loop git_subcommands False 1 (tl command) = Some (idx, s)"
    by (auto simp: find_git_subcommand_def split: if_splits)
  obtain g rest where c: "command = g # rest" using key by (cases command) (auto simp: command_key_def)
  have ge: "1 \<le> idx" by (rule git_subcommand_loop_ge[OF loop])
  then have tk: "drop 1 (take idx command) = take (idx - 1) (tl command)" using c by (cases idx) auto
  from safe[unfolded is_safe_git_command_find[OF f]]
  have parts: "\<not> git_has_unsafe_global_option (take (idx - 1) (tl command))"
    "git_subcommand_args_are_read_only (drop (idx + 1) command)"
    "s = lit ''branch'' \<Longrightarrow> git_branch_is_read_only (drop (idx + 1) command)"
    unfolding tk by blast+
  from git_subcommand_loop_Some[OF loop parts(1)] obtain globals args where
    shape: "tl command = globals @ s # args" "idx = 1 + length globals"
      "list_all (\<lambda>g. starts_with g [45]) globals" "s \<in> set git_subcommands" by blast
  then have "drop (idx + 1) command = args" "take (idx - 1) (tl command) = globals" using c by auto
  with parts shape key have "git_query_shape command globals s args"
    by (auto simp: git_query_shape_def list_all_iff git_has_unsafe_global_option_def list_ex_iff
      git_subcommand_args_are_read_only_def git_branch_is_read_only_iff)
  then show "\<exists>globals s args. git_query_shape command globals s args" by blast
next
  assume "\<exists>globals s args. git_query_shape command globals s args"
  then obtain globals s args where q: "git_query_shape command globals s args" by blast
  then obtain g where c: "command = g # globals @ s # args"
    by (cases command) (auto simp: git_query_shape_def command_key_def)
  have f: "find_git_subcommand command git_subcommands = Some (1 + length globals, s)"
    using q git_subcommand_loop_intro[of globals s git_subcommands 1 args] git_subcommands_plain[of s]
    by (simp add: git_query_shape_def find_git_subcommand_def)
  show "is_safe_git_command command"
    unfolding is_safe_git_command_find[OF f]
    using q by (auto simp: c git_query_shape_def git_has_unsafe_global_option_def list_ex_iff list_all_iff
      git_subcommand_args_are_read_only_def git_branch_is_read_only_iff)
qed

section \<open>The sed argument\<close>

text \<open>
  The sed argument. The argument accepted after sed -n is exactly a decimal number, or two
  decimal numbers separated by a comma, followed by the letter p.
\<close>
theorem sed_argument_iff:
  "is_valid_sed_n_arg (Some s) \<longleftrightarrow>
     (\<exists>a. is_number a \<and> s = a @ [112]) \<or> (\<exists>a b. is_number a \<and> is_number b \<and> s = a @ [44] @ b @ [112])"
proof -
  have num: "is_number a \<Longrightarrow> split_on 44 a = [a]" for a
    by (rule split_on_id) (auto simp: is_number_def list_all_iff is_ascii_digit_def)
  have two: "split_on 44 (a @ 44 # b) = [a, b]" if "is_number a" "is_number b" for a b
    using num[OF that(1)] num[OF that(2)] that(1)
    by (subst split_on_append) (auto simp: is_number_def list_all_iff is_ascii_digit_def)
  show ?thesis
  proof
    assume v: "is_valid_sed_n_arg (Some s)"
    then obtain core where core: "s = core @ [112]"
      by (auto simp: is_valid_sed_n_arg_def strip_suffix_Some split: option.splits)
    have j: "join [44] (split_on 44 core) = core" by (rule join_split_on)
    from v core have "(\<exists>a. split_on 44 core = [a] \<and> is_number a) \<or>
        (\<exists>a b. split_on 44 core = [a, b] \<and> is_number a \<and> is_number b)"
      by (auto simp: is_valid_sed_n_arg_def strip_suffix_Some split: option.splits list.splits)
    with j core show "(\<exists>a. is_number a \<and> s = a @ [112]) \<or>
        (\<exists>a b. is_number a \<and> is_number b \<and> s = a @ [44] @ b @ [112])" by fastforce
  next
    have st: "strip_suffix (c @ [112]) [112] = Some c" for c by (simp add: strip_suffix_Some)
    assume "(\<exists>a. is_number a \<and> s = a @ [112]) \<or> (\<exists>a b. is_number a \<and> is_number b \<and> s = a @ [44] @ b @ [112])"
    then consider a where "is_number a" "s = a @ [112]"
      | a b where "is_number a" "is_number b" "s = (a @ 44 # b) @ [112]" by auto
    then show "is_valid_sed_n_arg (Some s)"
    proof cases
      case 1
      then show ?thesis using st[of a] num by (simp add: is_valid_sed_n_arg_def)
    next
      case 2
      then show ?thesis using st[of "a @ 44 # b"] two[OF 2(1,2)] by (simp add: is_valid_sed_n_arg_def)
    qed
  qed
qed

section \<open>Wrappers\<close>

lemma rm_match:
  "dangerous_command_match_with_depth parse (lit ''rm'' # args) d =
     (if d \<le> MAX_DANGEROUS_COMMAND_WRAPPER_DEPTH \<and> rm_args_include_force_option args then Some ForcedRm else None)"
proof -
  have key: "command_key (lit ''rm'' # args) = Some (lit ''rm'')"
    by (simp add: command_key_def executable_name_lookup_key_def path_file_name_bare lit_simps)
  have "extract_bash_command (lit ''rm'' # args) = None"
    by (rule extract_bash_command_key[OF key]) (simp_all add: lit_simps named_shell_def)
  then have "parse_shell_lc_literal_commands parse (lit ''rm'' # args) = None"
    by (simp add: parse_shell_lc_literal_commands_def)
  moreover have "dangerous_command_match_for_exec parse (lit ''rm'' # args) d =
      (if rm_args_include_force_option args then Some ForcedRm else None)"
    by (subst dangerous_command_match_for_exec.simps) (simp add: key, simp add: lit_simps)
  ultimately show ?thesis by (subst dangerous_command_match_with_depth.simps) simp
qed

lemma sudo_match:
  "dangerous_command_match_with_depth parse (lit ''sudo'' # c) d =
     (if d \<le> MAX_DANGEROUS_COMMAND_WRAPPER_DEPTH then dangerous_command_match_with_depth parse c (d + 1) else None)"
proof -
  have "extract_bash_command (lit ''sudo'' # c) = None"
    by (rule extract_bash_command_key[OF sudo_key]) (simp_all add: lit_simps named_shell_def)
  then have "parse_shell_lc_literal_commands parse (lit ''sudo'' # c) = None"
    by (simp add: parse_shell_lc_literal_commands_def)
  moreover have "dangerous_command_match_for_exec parse (lit ''sudo'' # c) d =
      dangerous_command_match_with_depth parse c (d + 1)"
    by (subst dangerous_command_match_for_exec.simps) (simp add: sudo_key, simp add: lit_simps)
  ultimately show ?thesis by (subst dangerous_command_match_with_depth.simps) (simp split: option.split)
qed

lemma sudo_chain:
  "dangerous_command_match_with_depth parse (replicate n (lit ''sudo'') @ c) d =
     (if n = 0 \<or> d + n \<le> MAX_DANGEROUS_COMMAND_WRAPPER_DEPTH + 1
      then dangerous_command_match_with_depth parse c (d + n) else None)"
proof (induction n arbitrary: d)
  case (Suc n)
  show ?case by (simp add: sudo_match Suc)
qed simp

text \<open>
  The wrapper bound. A forced rm behind any number of sudo words is reported exactly when there
  are at most eight of them and the force option stands before a double dash; deeper nesting is
  never reported.
\<close>
theorem sudo_rm_detected_iff:
  "dangerous_command_match parse (replicate n (lit ''sudo'') @ lit ''rm'' # args) =
     (if n \<le> 8 \<and> rm_args_include_force_option args then Some ForcedRm else None)"
  by (simp add: dangerous_command_match_def sudo_chain rm_match MAX_DANGEROUS_COMMAND_WRAPPER_DEPTH_def)

section \<open>Scripts\<close>

lemma walk_words_total:
  "\<forall>m\<in>set stack. \<forall>d\<in>set (descendants m). node_allowed d \<Longrightarrow> walk_words stack acc \<noteq> None"
proof (induction stack acc rule: walk_words.induct)
  case (2 n stack acc)
  have ok: "node_allowed n" using 2(2) by (simp add: descendants_children[of n])
  have "\<forall>m\<in>set (rev (node_children n) @ stack). \<forall>d\<in>set (descendants m). node_allowed d"
    using 2(2) by (auto simp: descendants_children[of n])
  with 2(1) ok show ?case by simp
qed simp

lemma map_option_list_total: "\<forall>x\<in>set xs. f x \<noteq> None \<Longrightarrow> map_option_list f xs \<noteq> None"
  by (induction xs) (auto split: option.split)

lemma word_only_commands_total:
  assumes "\<not> has_error root" "\<forall>d\<in>set (descendants root). node_allowed d"
    and "\<forall>n\<in>command_nodes [root]. parse_plain_command_from_node n \<noteq> None"
  shows "try_parse_word_only_commands_sequence root \<noteq> None"
proof -
  obtain nodes where nodes: "walk_words [root] [] = Some nodes" using walk_words_total[of "[root]"] assms(2) by auto
  then have "set (sort_key start_byte nodes) = command_nodes [root]" using walk_words_Some[OF nodes] by simp
  with assms(1,3) nodes map_option_list_total[of "sort_key start_byte nodes" parse_plain_command_from_node]
  show ?thesis by (simp add: try_parse_word_only_commands_sequence_def)
qed

text \<open>The scripts that run without a question: an error-free tree of allowed nodes whose command
  nodes, at least one, all parse to safe commands.\<close>

definition safe_script :: "node \<Rightarrow> bool" where
  "safe_script root \<longleftrightarrow>
     \<not> has_error root \<and> (\<forall>d\<in>set (descendants root). node_allowed d) \<and> command_nodes [root] \<noteq> {} \<and>
     (\<forall>n\<in>command_nodes [root]. \<exists>ws. parse_plain_command_from_node n = Some ws \<and> is_safe_to_call_with_exec ws)"

lemma safe_script_iff:
  "(\<exists>cmds. try_parse_word_only_commands_sequence root = Some cmds \<and> cmds \<noteq> [] \<and>
      list_all is_safe_to_call_with_exec cmds) \<longleftrightarrow> safe_script root"
proof
  assume "\<exists>cmds. try_parse_word_only_commands_sequence root = Some cmds \<and> cmds \<noteq> [] \<and>
      list_all is_safe_to_call_with_exec cmds"
  then obtain cmds where c: "try_parse_word_only_commands_sequence root = Some cmds" "cmds \<noteq> []"
    "list_all is_safe_to_call_with_exec cmds" by blast
  have ne: "command_nodes [root] \<noteq> {}"
    using word_only_commands_set[OF c(1)] c(2) by (cases cmds) auto
  show "safe_script root"
    unfolding safe_script_def using word_only_commands[OF c(1)] ne c(3) by (fastforce simp: list_all_iff)
next
  assume s: "safe_script root"
  then obtain cmds where c: "try_parse_word_only_commands_sequence root = Some cmds"
    using word_only_commands_total[of root] unfolding safe_script_def by fastforce
  have all: "list_all is_safe_to_call_with_exec cmds"
    using s word_only_commands_set[OF c] unfolding safe_script_def list_all_iff by fastforce
  have "cmds \<noteq> []"
  proof -
    obtain n where n: "n \<in> command_nodes [root]" using s unfolding safe_script_def by blast
    then show ?thesis using word_only_commands(3)[OF c] by fastforce
  qed
  with c all show "\<exists>cmds. try_parse_word_only_commands_sequence root = Some cmds \<and> cmds \<noteq> [] \<and>
      list_all is_safe_to_call_with_exec cmds" by blast
qed

lemma is_known_safe_command_cases:
  "is_known_safe_command parse command \<longleftrightarrow>
     is_safe_to_call_with_exec (map zsh_as_bash command) \<or>
     (\<exists>shell script root. extract_bash_command (map zsh_as_bash command) = Some (shell, script) \<and>
        parse script = Some root \<and> safe_script root)"
proof -
  have "is_known_safe_command parse command \<longleftrightarrow>
     is_safe_to_call_with_exec (map zsh_as_bash command) \<or>
     (\<exists>cmds. parse_shell_lc_plain_commands parse (map zsh_as_bash command) = Some cmds \<and> cmds \<noteq> [] \<and>
        list_all is_safe_to_call_with_exec cmds)"
    by (simp add: is_known_safe_command_def Let_def split: option.split)
  then show ?thesis unfolding parse_shell_lc_plain_commands_Some safe_script_iff[symmetric] by blast
qed

text \<open>
  C38 Commands classified as known safe. The classification says so exactly when the command is itself on the
  whitelist (with zsh read as bash), or it is a shell invocation whose script has an error-free
  tree made of allowed nodes only, with at least one command node, all of which parse to whitelisted
  commands.
\<close>
theorem is_known_safe_command_iff:
  "is_known_safe_command parse command \<longleftrightarrow>
     is_safe_to_call_with_exec (map zsh_as_bash command) \<or>
     (\<exists>shell script root. extract_bash_command (map zsh_as_bash command) = Some (shell, script) \<and>
        parse script = Some root \<and> safe_script root)"
  by (rule is_known_safe_command_cases)

section \<open>Dangerous scripts\<close>

lemma extract_bash_command_Some_key:
  assumes "extract_bash_command command = Some (shell, script)" "command_key command = Some n"
  shows "n \<notin> set wrapper_keys"
proof
  assume "n \<in> set wrapper_keys"
  moreover have "list_all (\<lambda>n. 46 \<notin> set n \<and> named_shell n = None) wrapper_keys"
    by (simp add: wrapper_keys_def named_shell_def lit_simps)
  ultimately have "46 \<notin> set n \<and> named_shell n = None" by (auto simp: list_all_iff)
  with extract_bash_command_key[OF assms(2)] assms(1) show False by simp
qed

lemma script_for_exec:
  assumes "extract_bash_command command = Some (shell, script)"
  shows "dangerous_command_match_for_exec parse command d = None"
proof (cases "command_key command")
  case None
  then show ?thesis by (subst dangerous_command_match_for_exec.simps) simp
next
  case (Some n)
  with extract_bash_command_Some_key[OF assms Some] show ?thesis
    by (subst dangerous_command_match_for_exec.simps) (auto simp: wrapper_keys_def)
qed

lemma find_map_not_None: "find_map f xs \<noteq> None \<longleftrightarrow> (\<exists>x\<in>set xs. f x \<noteq> None)"
  by (simp add: find_map_None)

lemma script_match_iff:
  assumes "extract_bash_command command = Some (shell, script)" "parse script = Some root" "\<not> has_error root"
    and "d \<le> MAX_DANGEROUS_COMMAND_WRAPPER_DEPTH"
  shows "dangerous_command_match_with_depth parse command d \<noteq> None \<longleftrightarrow>
     (\<exists>n\<in>set (named_descendants root). kind n = lit ''command'' \<and>
        (\<exists>ws. parse_literal_command_from_node n = Some ws \<and>
              dangerous_command_match_with_depth parse ws (d + 1) \<noteq> None))"
proof -
  have "parse_shell_lc_literal_commands parse command = Some (walk_literal [root] [])"
    using assms(1-3) by (simp add: parse_shell_lc_literal_commands_def)
  then have "dangerous_command_match_with_depth parse command d =
      find_map (\<lambda>c. dangerous_command_match_with_depth parse c (d + 1)) (walk_literal [root] [])"
    by (subst dangerous_command_match_with_depth.simps) (use assms(4) script_for_exec[OF assms(1)] in simp)
  then show ?thesis by (simp only: find_map_not_None walk_literal_set) auto
qed

text \<open>
  Dangerous scripts. When a shell's script has an error-free tree, the command is reported as
  dangerous exactly when some command node, at any depth of control flow or substitution, has
  literal words that are reported as dangerous one wrapper deeper.
\<close>
theorem dangerous_script_iff:
  assumes "extract_bash_command command = Some (shell, script)" "parse script = Some root" "\<not> has_error root"
  shows "dangerous_command_match parse command \<noteq> None \<longleftrightarrow>
     (\<exists>n\<in>set (named_descendants root). kind n = lit ''command'' \<and>
        (\<exists>ws. parse_literal_command_from_node n = Some ws \<and>
              dangerous_command_match_with_depth parse ws 1 \<noteq> None))"
  using script_match_iff[of command shell script parse root 0, OF assms] by (simp add: dangerous_command_match_def)

section \<open>Safe commands are not dangerous\<close>

text \<open>The shape the grammar gives a command: its name first, then its arguments.\<close>

definition name_first :: "node \<Rightarrow> bool" where
  "name_first n \<longleftrightarrow>
     (case named_children n of
        [] \<Rightarrow> True
      | c # cs \<Rightarrow> kind c = lit ''command_name'' \<and> list_all (\<lambda>c. kind c \<noteq> lit ''command_name'') cs)"

lemma literal_words_found:
  "list_all (\<lambda>c. kind c \<noteq> lit ''command_name'') cs \<Longrightarrow> \<exists>vs. literal_words True ws cs = Some (True, ws @ vs)"
proof (induction cs arbitrary: ws)
  case (Cons c cs)
  show ?case
  proof (cases "parse_literal_shell_word c")
    case None
    with Cons show ?thesis by simp
  next
    case (Some v)
    with Cons.prems Cons.IH[of "ws @ [v]"] show ?thesis by auto
  qed
qed simp

lemma literal_key:
  assumes "name_first n" "parse_plain_command_from_node n = Some ws" "parse_literal_command_from_node n = Some vs"
  shows "command_key vs = command_key ws"
proof (cases "named_children n")
  case Nil
  with assms show ?thesis
    by (auto simp: parse_plain_command_from_node_def parse_literal_command_from_node_def split: if_splits)
next
  case (Cons c cs)
  with assms(1) have c: "kind c = lit ''command_name''" "list_all (\<lambda>c. kind c \<noteq> lit ''command_name'') cs"
    by (auto simp: name_first_def)
  from assms(2) Cons have "\<exists>w rest. parse_plain_word c = Some w \<and> ws = w # rest"
    by (auto simp: parse_plain_command_from_node_def split: if_splits option.splits)
  then obtain w rest where w: "parse_plain_word c = Some w" "ws = w # rest" by blast
  from w(1) c(1) obtain wn wns where wn: "named_children c = wn # wns" "kind wn = lit ''word''" "w = utf8_text wn"
    by (auto simp: parse_plain_word_def split: list.splits if_splits)
  have lit_wn: "parse_literal_shell_word wn = Some v \<Longrightarrow> v = w" for v
    using wn by (subst (asm) parse_literal_shell_word.simps) (auto simp: lit_simps split: if_splits)
  from assms(3) Cons c(1) wn obtain v where v: "parse_literal_shell_word wn = Some v"
    "literal_words True [v] cs = Some (True, vs)"
    by (auto simp: parse_literal_command_from_node_def split: if_splits option.splits bool.splits)
  from literal_words_found[OF c(2), of "[v]"] v(2) obtain us where "vs = v # us" by auto
  with lit_wn[OF v(1)] w(2) show ?thesis by (simp add: command_key_def)
qed

lemma safe_exec_not_dangerous:
  "is_safe_to_call_with_exec command \<Longrightarrow> dangerous_command_match_with_depth parse command d = None"
  using safe_exec_key safe_keys_plain plain_command_not_dangerous by blast

lemma same_key_not_dangerous:
  "is_safe_to_call_with_exec ws \<Longrightarrow> command_key vs = command_key ws \<Longrightarrow>
   dangerous_command_match_with_depth parse vs d = None"
  using safe_exec_key[of ws] safe_keys_plain plain_command_not_dangerous[of vs] by metis

lemma safe_script_not_dangerous:
  assumes ex: "extract_bash_command command = Some (shell, script)" "parse script = Some root"
    and safe: "safe_script root" and named: "is_named root" and shape: "(\<forall>n\<in>command_nodes [root]. name_first n)"
  shows "dangerous_command_match_with_depth parse command d = None"
proof (cases "d \<le> MAX_DANGEROUS_COMMAND_WRAPPER_DEPTH")
  case True
  have ok: "\<not> has_error root" using safe by (simp add: safe_script_def)
  have "dangerous_command_match_with_depth parse vs (d + 1) = None"
    if n: "n \<in> set (named_descendants root)" "kind n = lit ''command''" "parse_literal_command_from_node n = Some vs"
    for n vs
  proof -
    have d: "n \<in> set (descendants root)" "is_named n" using named_descendants_sub[OF n(1) named] by auto
    with n have cn: "n \<in> command_nodes [root]" by (simp add: command_nodes_def)
    then obtain ws where ws: "parse_plain_command_from_node n = Some ws" "is_safe_to_call_with_exec ws"
      using safe by (auto simp: safe_script_def)
    have "name_first n" using shape cn by blast
    with ws n(3) show ?thesis using same_key_not_dangerous literal_key by blast
  qed
  with script_match_iff[of command shell script parse root d, OF ex ok True] show ?thesis by metis
next
  case False
  then show ?thesis by (subst dangerous_command_match_with_depth.simps) simp
qed

lemma zsh_tail: "lit ''zsh'' \<notin> set xs \<Longrightarrow> map zsh_as_bash xs = xs"
  by (induction xs) (auto simp: zsh_as_bash_def)

lemma detect_zsh_bash: "detect_shell_type (lit ''zsh'') = Some Zsh" "detect_shell_type (lit ''bash'') = Some Bash"
  by (subst detect_shell_type.simps, simp add: named_shell_def lit_simps)+

lemma dangerous_zsh_as_bash:
  assumes "lit ''zsh'' \<notin> set (tl command)"
  shows "dangerous_command_match_with_depth parse (map zsh_as_bash command) d =
    dangerous_command_match_with_depth parse command d"
proof (cases "command \<noteq> [] \<and> hd command = lit ''zsh''")
  case True
  then obtain cs where c: "command = lit ''zsh'' # cs" by (cases command) auto
  with assms have m: "map zsh_as_bash command = lit ''bash'' # cs" by (simp add: zsh_tail, simp add: zsh_as_bash_def)
  have key: "command_key (lit ''zsh'' # cs) = Some (lit ''zsh'')" "command_key (lit ''bash'' # cs) = Some (lit ''bash'')"
    by (simp_all add: command_key_def executable_name_lookup_key_def path_file_name_bare lit_simps)
  have e: "dangerous_command_match_for_exec parse (lit ''zsh'' # cs) d = None"
    "dangerous_command_match_for_exec parse (lit ''bash'' # cs) d = None"
    by (subst dangerous_command_match_for_exec.simps, simp add: key, simp add: lit_simps)+
  have "parse_shell_lc_literal_commands parse (lit ''bash'' # cs) = parse_shell_lc_literal_commands parse (lit ''zsh'' # cs)"
    by (auto simp: parse_shell_lc_literal_commands_def extract_bash_command_def detect_zsh_bash split: list.splits)
  with e show ?thesis unfolding m unfolding c
    by (subst (1 2) dangerous_command_match_with_depth.simps) simp
next
  case False
  then have "lit ''zsh'' \<notin> set command" using assms by (cases command) auto
  then show ?thesis by (simp add: zsh_tail)
qed

text \<open>
  Safe and dangerous do not meet. For trees of the grammar's shape (a named root, a command's
  name before its arguments), a command that is known safe is never reported as dangerous, although
  the two classifications read the script with different word parsers.
\<close>
theorem known_safe_not_dangerous:
  assumes "is_known_safe_command parse command" "lit ''zsh'' \<notin> set (tl command)"
    and "\<And>script root. parse script = Some root \<Longrightarrow> is_named root \<and> (\<forall>n\<in>command_nodes [root]. name_first n)"
  shows "dangerous_command_match parse command = None"
proof -
  have "dangerous_command_match_with_depth parse (map zsh_as_bash command) 0 = None"
    using assms(1)[unfolded is_known_safe_command_cases] safe_exec_not_dangerous safe_script_not_dangerous assms(3)
    by metis
  then show ?thesis by (simp add: dangerous_command_match_def dangerous_zsh_as_bash[OF assms(2)])
qed

section \<open>Concrete trees\<close>

definition leaf :: "string \<Rightarrow> string \<Rightarrow> nat \<Rightarrow> node" where
  "leaf k t pos = Node (lit k) True False (lit t) pos []"

text \<open>The tree of a script that is one command: its name, then words.\<close>

definition command_tree :: "str \<Rightarrow> str list \<Rightarrow> node" where
  "command_tree name args =
     Node (lit ''program'') True False [] 0
       [Node (lit ''command'') True False [] 0
          (Node (lit ''command_name'') True False name 0 [Node (lit ''word'') True False name 0 []] #
           map (\<lambda>a. Node (lit ''word'') True False a 0 []) args)]"

definition one_script :: "str \<Rightarrow> node \<Rightarrow> str \<Rightarrow> node option" where
  "one_script script root s = (if s = script then Some root else None)"

lemmas command_eval =
  command_tree_def one_script_def descendants.simps command_nodes_def named_children_def

lemma map_option_list_words:
  "map_option_list parse_plain_word (map (\<lambda>a. Node (lit ''word'') True False a 0 []) args) = Some args"
  by (induction args) (simp_all add: parse_plain_word_def lit_simps)

lemma command_tree_nodes:
  "command_nodes [command_tree name args] =
     {hd (node_children (command_tree name args))}"
  by (auto simp: command_tree_def command_nodes_def lit_simps)

lemma command_tree_name_first: "\<forall>n\<in>command_nodes [command_tree name args]. name_first n"
  unfolding command_tree_nodes
  by (simp add: command_tree_def name_first_def named_children_def list_all_iff lit_simps)

lemma command_tree_safe:
  assumes "is_safe_to_call_with_exec (name # args)"
  shows "safe_script (command_tree name args)"
proof -
  let ?ws = "map (\<lambda>a. Node (lit ''word'') True False a 0 []) args"
  let ?w = "Node (lit ''word'') True False name 0 []"
  let ?c = "Node (lit ''command_name'') True False name 0 [?w]"
  let ?n = "Node (lit ''command'') True False [] 0 (?c # ?ws)"
  let ?root = "command_tree name args"
  have d: "set (descendants ?root) = insert ?root (insert ?n (insert ?c (insert ?w (set ?ws))))"
    by (auto simp: command_tree_def)
  have nodes: "command_nodes [?root] = {?n}"
    unfolding command_tree_nodes by (simp add: command_tree_def)
  have allowed: "\<forall>d\<in>set (descendants ?root). node_allowed d"
    unfolding d by (auto simp: command_tree_def node_allowed_def ALLOWED_KINDS_def)
  have "parse_plain_word ?c = Some name"
    by (simp add: parse_plain_word_def named_children_def lit_simps)
  moreover have "named_children ?n = ?c # ?ws" by (simp add: named_children_def)
  ultimately have "parse_plain_command_from_node ?n = Some (name # args)"
    by (simp add: parse_plain_command_from_node_def map_option_list_words)
  with assms allowed show ?thesis
    unfolding safe_script_def nodes by (simp add: command_tree_def)
qed

theorem dangerous_script_iff_witness:
  "dangerous_command_match (one_script (lit ''rm -f x'') (command_tree (lit ''rm'') [lit ''-f'', lit ''x'']))
     [lit ''bash'', lit ''-c'', lit ''rm -f x''] \<noteq> None"
proof -
  let ?root = "command_tree (lit ''rm'') [lit ''-f'', lit ''x'']"
  let ?parse = "one_script (lit ''rm -f x'') ?root"
  have ex: "extract_bash_command [lit ''bash'', lit ''-c'', lit ''rm -f x''] = Some (lit ''bash'', lit ''rm -f x'')"
    by (simp add: extract_bash_command_def detect_zsh_bash)
  have p: "?parse (lit ''rm -f x'') = Some ?root" "\<not> has_error ?root" by (simp_all add: command_eval)
  let ?n = "hd (node_children ?root)"
  have n: "?n \<in> set (named_descendants ?root)"
  proof -
    have "?n \<in> set (named_children ?root)" by (simp add: command_tree_def named_children_def)
    moreover have "?n \<in> set (named_descendants ?n)" by (simp add: set_named_descendants[of ?n])
    ultimately show ?thesis unfolding set_named_descendants[of ?root] by blast
  qed
  have k: "kind ?n = lit ''command''" by (simp add: command_eval)
  have w: "parse_literal_command_from_node ?n = Some (lit ''rm'' # [lit ''-f'', lit ''x''])"
    by (simp add: command_eval parse_literal_command_from_node_def parse_literal_shell_word.simps is_literal_word_or_number_def lit_simps)
  have d: "dangerous_command_match_with_depth ?parse (lit ''rm'' # [lit ''-f'', lit ''x'']) 1 \<noteq> None"
    unfolding rm_match
    by (simp add: MAX_DANGEROUS_COMMAND_WRAPPER_DEPTH_def rm_args_include_force_option_def is_force_flag_def lit_simps
      strip_prefix_def starts_with_def)
  from dangerous_script_iff[of _ _ _ ?parse, OF ex p] n k w d show ?thesis by blast
qed

theorem known_safe_not_dangerous_witness:
  "dangerous_command_match (one_script (lit ''ls x'') (command_tree (lit ''ls'') [lit ''x'']))
     [lit ''bash'', lit ''-c'', lit ''ls x''] = None"
proof (rule known_safe_not_dangerous)
  let ?root = "command_tree (lit ''ls'') [lit ''x'']"
  let ?parse = "one_script (lit ''ls x'') ?root"
  have ex: "extract_bash_command [lit ''bash'', lit ''-c'', lit ''ls x''] = Some (lit ''bash'', lit ''ls x'')"
    by (simp add: extract_bash_command_def detect_zsh_bash)
  have z: "map zsh_as_bash [lit ''bash'', lit ''-c'', lit ''ls x''] = [lit ''bash'', lit ''-c'', lit ''ls x'']"
    by (rule zsh_tail) (simp add: lit_simps)
  have "safe_script ?root"
    by (rule command_tree_safe)
      (simp add: is_safe_to_call_with_exec_def command_key_def executable_name_lookup_key_def
        path_file_name_bare ALWAYS_SAFE_COMMANDS_def lit_simps)
  moreover have "?parse (lit ''ls x'') = Some ?root" by (simp add: one_script_def)
  ultimately show "is_known_safe_command ?parse [lit ''bash'', lit ''-c'', lit ''ls x'']"
    unfolding is_known_safe_command_cases z ex by blast
  show "lit ''zsh'' \<notin> set (tl [lit ''bash'', lit ''-c'', lit ''ls x''])" by (simp add: lit_simps)
  show "is_named root \<and> (\<forall>n\<in>command_nodes [root]. name_first n)" if "?parse script = Some root" for script root
    using that command_tree_name_first[of "lit ''ls''" "[lit ''x'']"]
    by (auto simp: one_script_def split: if_splits) (simp add: command_tree_def)
qed

section \<open>Commands that write although they are approved\<close>

text \<open>
  Approved commands with side effects. For every parser, uniq with an output file, rg with the
  search-zip flag merged into a group of short options, and sed with a script file after the checked
  argument are known safe; and so is a find script whose delete option is written with a backslash
  inside the word, which the shell drops, when the tree gives the word as it is written.
\<close>
theorem approved_side_effects:
  "is_known_safe_command parse (map lit [''uniq'', ''input'', ''output'']) \<and>
   is_known_safe_command parse (map lit [''rg'', ''-iz'', ''pattern'']) \<and>
   is_known_safe_command parse (map lit [''sed'', ''-n'', ''1p'', ''--file=script'']) \<and>
   is_known_safe_command
     (one_script (lit ''find . -del'' @ [92] @ lit ''ete'')
        (command_tree (lit ''find'') [lit ''.'', lit ''-del'' @ [92] @ lit ''ete'']))
     [lit ''bash'', lit ''-c'', lit ''find . -del'' @ [92] @ lit ''ete'']"
proof (intro conjI)
  show "is_known_safe_command parse (map lit [''uniq'', ''input'', ''output''])"
    by (simp add: is_known_safe_command_cases zsh_as_bash_def is_safe_to_call_with_exec_def command_key_def
      executable_name_lookup_key_def path_file_name_bare ALWAYS_SAFE_COMMANDS_def lit_simps)
  show "is_known_safe_command parse (map lit [''rg'', ''-iz'', ''pattern''])"
    by (simp add: is_known_safe_command_cases zsh_as_bash_def is_safe_to_call_with_exec_def command_key_def
      executable_name_lookup_key_def path_file_name_bare ALWAYS_SAFE_COMMANDS_def is_unsafe_ripgrep_option_def
      starts_with_def lit_simps)
  show "is_known_safe_command parse (map lit [''sed'', ''-n'', ''1p'', ''--file=script''])"
    by (simp add: is_known_safe_command_cases zsh_as_bash_def is_safe_to_call_with_exec_def command_key_def
      executable_name_lookup_key_def path_file_name_bare ALWAYS_SAFE_COMMANDS_def is_valid_sed_n_arg_def
      strip_suffix_def ends_with_def is_number_def is_ascii_digit_def lit_simps)
next
  let ?w = "lit ''-del'' @ [92] @ lit ''ete''"
  let ?s = "lit ''find . -del'' @ [92] @ lit ''ete''"
  let ?root = "command_tree (lit ''find'') [lit ''.'', ?w]"
  have ex: "extract_bash_command [lit ''bash'', lit ''-c'', ?s] = Some (lit ''bash'', ?s)"
    by (simp add: extract_bash_command_def detect_zsh_bash)
  have z: "map zsh_as_bash [lit ''bash'', lit ''-c'', ?s] = [lit ''bash'', lit ''-c'', ?s]"
    by (rule zsh_tail) (simp add: lit_simps)
  have "safe_script ?root"
    by (rule command_tree_safe)
      (simp add: is_safe_to_call_with_exec_def command_key_def executable_name_lookup_key_def
        path_file_name_bare ALWAYS_SAFE_COMMANDS_def UNSAFE_FIND_OPTIONS_def lit_simps)
  moreover have "one_script ?s ?root ?s = Some ?root" by (simp add: one_script_def)
  ultimately show "is_known_safe_command (one_script ?s ?root) [lit ''bash'', lit ''-c'', ?s]"
    unfolding is_known_safe_command_cases z ex by blast
qed

end
