(* ===== verification/ExecApproval.thy ===== *)
theory ExecApproval
  imports PermProfile ExecAmend ExecPolicyParser CommandSafety
begin

text \<open>
  Whether a command of the model runs, is asked about or is refused (core/src/exec\_policy.rs, with
  \<open>AskForApproval\<close> of protocol/src/protocol.rs and \<open>ExecApprovalRequirement\<close> of core/src/tools/sandboxing.rs):
  the script is split into its commands, each is checked against the policy and, where no rule matches, classified. The
  theory also has the updates of the policy in force and the loading of the rules of the configuration layers. It
  rests on the policy engine, the amendments, the policy files, the command classification and the permission profiles.
  The theorems say what a requirement guarantees, that approving and amending makes progress, and that
  managed rules that match a command as written stand.
\<close>

section \<open>Approval settings\<close>

record granular_approval_config =
  granular_sandbox_approval :: bool
  granular_rules :: bool
  granular_skill_approval :: bool
  granular_request_permissions :: bool
  granular_mcp_elicitations :: bool

datatype ask_for_approval = UnlessTrusted | OnRequest | Granular granular_approval_config | NeverAsk

definition PROMPT_CONFLICT_REASON :: str where
  "PROMPT_CONFLICT_REASON = lit ''approval required by policy, but AskForApproval is set to Never''"

definition REJECT_SANDBOX_APPROVAL_REASON :: str where
  "REJECT_SANDBOX_APPROVAL_REASON =
     lit ''approval required by policy, but AskForApproval::Granular.sandbox_approval is false''"

definition REJECT_RULES_APPROVAL_REASON :: str where
  "REJECT_RULES_APPROVAL_REASON =
     lit ''approval required by policy rule, but AskForApproval::Granular.rules is false''"

definition RULES_DIR_NAME :: str where "RULES_DIR_NAME = lit ''rules''"
definition RULE_EXTENSION :: str where "RULE_EXTENSION = lit ''rules''"
definition DEFAULT_POLICY_FILE :: str where "DEFAULT_POLICY_FILE = lit ''default.rules''"

definition BANNED_PREFIX_SUGGESTIONS :: "str list list" where
  "BANNED_PREFIX_SUGGESTIONS = map (map lit)
     [[''/bin/bash''], [''/bin/bash'', ''-c''], [''/bin/bash'', ''-lc''],
      [''/bin/sh''], [''/bin/sh'', ''-c''], [''/bin/sh'', ''-lc''],
      [''/bin/zsh''], [''/bin/zsh'', ''-c''], [''/bin/zsh'', ''-lc''],
      [''Rscript''], [''bash''], [''bash'', ''-c''], [''bash'', ''-lc''],
      [''bun''], [''bun'', ''-e''], [''bun'', ''run''],
      [''cmd''], [''cmd'', ''/c''], [''cmd'', ''/k''],
      [''cmd.exe''], [''cmd.exe'', ''/c''], [''cmd.exe'', ''/k''],
      [''dash''], [''dash'', ''-c''], [''deno''], [''deno'', ''eval''], [''env''],
      [''fish''], [''fish'', ''-c''], [''git''], [''julia''], [''julia'', ''-e''],
      [''ksh''], [''ksh'', ''-c''], [''lua''], [''lua'', ''-e''],
      [''node''], [''node'', ''-e''], [''nodejs''], [''nodejs'', ''-e''], [''npm'', ''run''], [''osascript''],
      [''perl''], [''perl'', ''-e''], [''php''], [''php'', ''-r''], [''pnpm'', ''run''],
      [''powershell''], [''powershell'', ''-Command''], [''powershell'', ''-EncodedCommand''],
      [''powershell'', ''-File''], [''powershell'', ''-c''],
      [''powershell.exe''], [''powershell.exe'', ''-Command''], [''powershell.exe'', ''-EncodedCommand''],
      [''powershell.exe'', ''-File''], [''powershell.exe'', ''-c''],
      [''pwsh''], [''pwsh'', ''-Command''], [''pwsh'', ''-EncodedCommand''], [''pwsh'', ''-File''],
      [''pwsh'', ''-c''], [''pwsh'', ''-e''], [''pwsh'', ''-ec''], [''pwsh'', ''-f''],
      [''py''], [''py'', ''-3''], [''pypy''], [''pypy3''],
      [''python''], [''python'', ''-''], [''python'', ''-c''],
      [''python3''], [''python3'', ''-''], [''python3'', ''-c''],
      [''pythonw''], [''pyw''], [''rm''], [''ruby''], [''ruby'', ''-e''],
      [''sh''], [''sh'', ''-c''], [''sh'', ''-lc''], [''sudo''], [''yarn'', ''run''],
      [''zsh''], [''zsh'', ''-c''], [''zsh'', ''-lc'']]"

text \<open>What the code takes from elsewhere: the environment, tree-sitter's parser and the quoting of \<open>shlex\<close>.\<close>

record exec_params =
  xp_env :: path_env
  xp_parse :: "str \<Rightarrow> node option"
  xp_try_join :: "str list \<Rightarrow> str option"

text \<open>Off Windows the only origin of a command is the generic one, so it is left out.\<close>

record unmatched_command_context =
  ctx_approval_policy :: ask_for_approval
  ctx_permission_profile :: permission_profile
  ctx_windows_sandbox_level :: windows_sandbox_level
  ctx_sandbox_permissions :: sandbox_permissions
  ctx_used_complex_parsing :: bool

record exec_policy_commands =
  epc_commands :: "str list list"
  epc_used_complex_parsing :: bool

fun is_policy_match :: "rule_match \<Rightarrow> bool" where
  "is_policy_match (PrefixRuleMatch _ _ _ _) = True"
| "is_policy_match (HeuristicsRuleMatch _ _) = False"

definition prompt_is_rejected_by_policy :: "ask_for_approval \<Rightarrow> bool \<Rightarrow> str option" where
  "prompt_is_rejected_by_policy approval_policy prompt_is_rule =
     (case approval_policy of
        NeverAsk \<Rightarrow> Some PROMPT_CONFLICT_REASON
      | OnRequest \<Rightarrow> None
      | UnlessTrusted \<Rightarrow> None
      | Granular g \<Rightarrow>
          if prompt_is_rule then (if \<not> granular_rules g then Some REJECT_RULES_APPROVAL_REASON else None)
          else if \<not> granular_sandbox_approval g then Some REJECT_SANDBOX_APPROVAL_REASON
          else None)"

datatype exec_approval_requirement =
    Skip bool "str list option"
  | NeedsApproval "str option" "str list option"
  | ForbiddenRequirement str

fun proposed_execpolicy_amendment :: "exec_approval_requirement \<Rightarrow> str list option" where
  "proposed_execpolicy_amendment (NeedsApproval _ a) = a"
| "proposed_execpolicy_amendment (Skip _ a) = a"
| "proposed_execpolicy_amendment (ForbiddenRequirement _) = None"

section \<open>The decision where no rule matches\<close>

text \<open>\<open>cfg!(windows)\<close> in the build that is modelled.\<close>

definition CFG_WINDOWS :: bool where "CFG_WINDOWS = False"

definition profile_has_managed_filesystem_restrictions :: "permission_profile \<Rightarrow> bool" where
  "profile_has_managed_filesystem_restrictions profile \<longleftrightarrow>
     (case profile of ManagedProfile _ _ \<Rightarrow> True | _ \<Rightarrow> False) \<and>
     policy_kind (file_system_sandbox_policy profile) = RestrictedKind \<and>
     \<not> has_full_disk_write_access (file_system_sandbox_policy profile)"

definition render_decision_for_unmatched_command ::
  "(str \<Rightarrow> node option) \<Rightarrow> str list \<Rightarrow> unmatched_command_context \<Rightarrow> decision" where
  "render_decision_for_unmatched_command parse command ctx =
     (let dangerous = dangerous_command_match parse command;
          is_known_safe = is_known_safe_command parse command;
          no_backend = CFG_WINDOWS \<and> ctx_windows_sandbox_level ctx = WindowsDisabled \<and>
            profile_has_managed_filesystem_restrictions (ctx_permission_profile ctx);
          by_sandbox = (case policy_kind (file_system_sandbox_policy (ctx_permission_profile ctx)) of
              UnrestrictedKind \<Rightarrow> Allow
            | ExternalSandboxKind \<Rightarrow> Allow
            | RestrictedKind \<Rightarrow> if requests_sandbox_override (ctx_sandbox_permissions ctx) then Prompt else Allow)
      in if is_known_safe \<and> \<not> ctx_used_complex_parsing ctx \<and>
            (ctx_approval_policy ctx = UnlessTrusted \<or> no_backend) then Allow
         else if dangerous \<noteq> None \<or> no_backend then
           (case ctx_approval_policy ctx of NeverAsk \<Rightarrow> Forbidden | _ \<Rightarrow> Prompt)
         else (case ctx_approval_policy ctx of
                 NeverAsk \<Rightarrow> Allow
               | UnlessTrusted \<Rightarrow> Prompt
               | OnRequest \<Rightarrow> by_sandbox
               | Granular _ \<Rightarrow> by_sandbox))"

definition commands_for_exec_policy :: "(str \<Rightarrow> node option) \<Rightarrow> str list \<Rightarrow> exec_policy_commands" where
  "commands_for_exec_policy parse command =
     (case nonempty_option (parse_shell_lc_plain_commands parse command) of
        Some commands \<Rightarrow> \<lparr>epc_commands = commands, epc_used_complex_parsing = False\<rparr>
      | None \<Rightarrow>
          (case parse_shell_lc_single_command_prefix parse command of
             Some single_command \<Rightarrow> \<lparr>epc_commands = [single_command], epc_used_complex_parsing = True\<rparr>
           | None \<Rightarrow> \<lparr>epc_commands = [command], epc_used_complex_parsing = False\<rparr>))"

definition dangerous_command_match_for_heuristics ::
  "(str \<Rightarrow> node option) \<Rightarrow> evaluation \<Rightarrow> decision \<Rightarrow> dangerous_match option" where
  "dangerous_command_match_for_heuristics parse ev d =
     find_map (\<lambda>m. case m of
         HeuristicsRuleMatch command matched_decision \<Rightarrow>
           if matched_decision = d then dangerous_command_match parse command else None
       | _ \<Rightarrow> None) (eval_matched_rules ev)"

section \<open>Proposed amendments\<close>

definition prompting_rule :: "decision \<Rightarrow> rule_match \<Rightarrow> bool" where
  "prompting_rule d m \<longleftrightarrow> is_policy_match m \<and> match_decision m = d"

definition first_heuristics :: "decision \<Rightarrow> rule_match list \<Rightarrow> str list option" where
  "first_heuristics d ms =
     find_map (\<lambda>m. case m of
         HeuristicsRuleMatch command d' \<Rightarrow> if d' = d then Some command else None
       | _ \<Rightarrow> None) ms"

definition try_derive_execpolicy_amendment_for_prompt_rules :: "rule_match list \<Rightarrow> str list option" where
  "try_derive_execpolicy_amendment_for_prompt_rules ms =
     (if list_ex (prompting_rule Prompt) ms then None else first_heuristics Prompt ms)"

definition try_derive_execpolicy_amendment_for_allow_rules :: "rule_match list \<Rightarrow> str list option" where
  "try_derive_execpolicy_amendment_for_allow_rules ms =
     (if list_ex is_policy_match ms then None else first_heuristics Allow ms)"

text \<open>\<open>check_with_options\<close> of one command always returns; \<open>None\<close> would be its panic.\<close>

definition prefix_rule_would_approve_all_commands ::
  "path_env \<Rightarrow> policy \<Rightarrow> str list \<Rightarrow> str list list \<Rightarrow> (str list \<Rightarrow> decision) \<Rightarrow> bool \<Rightarrow> bool" where
  "prefix_rule_would_approve_all_commands env p prefix_rule commands fallback resolve =
     (case add_prefix_rule p prefix_rule Allow of
        Inl _ \<Rightarrow> False
      | Inr policy_with_prefix_rule \<Rightarrow>
          list_all (\<lambda>command. map_option eval_decision
              (check_with_options env policy_with_prefix_rule command fallback resolve) = Some Allow) commands)"

definition derive_requested_execpolicy_amendment_from_prefix_rule ::
  "path_env \<Rightarrow> str list option \<Rightarrow> rule_match list \<Rightarrow> policy \<Rightarrow> str list list \<Rightarrow> (str list \<Rightarrow> decision) \<Rightarrow> bool \<Rightarrow>
   str list option" where
  "derive_requested_execpolicy_amendment_from_prefix_rule env prefix_rule ms p commands fallback resolve =
     (case prefix_rule of
        None \<Rightarrow> None
      | Some prefix_rule \<Rightarrow>
          if prefix_rule = [] then None
          else if list_ex (\<lambda>banned. prefix_rule = banned) BANNED_PREFIX_SUGGESTIONS then None
          else if list_ex is_policy_match ms then None
          else if prefix_rule_would_approve_all_commands env p prefix_rule commands fallback resolve then Some prefix_rule
          else None)"

section \<open>Reasons\<close>

text \<open>\<open>max_by_key\<close>: the last of the greatest.\<close>

definition max_by_key :: "('a \<Rightarrow> nat) \<Rightarrow> 'a list \<Rightarrow> 'a option" where
  "max_by_key key xs =
     (case xs of [] \<Rightarrow> None | x # xs \<Rightarrow> Some (foldl (\<lambda>best y. if key best \<le> key y then y else best) x xs))"

definition backticked :: "str \<Rightarrow> str" where
  "backticked s = [96] @ s @ [96]"

definition render_shlex_command :: "(str list \<Rightarrow> str option) \<Rightarrow> str list \<Rightarrow> str" where
  "render_shlex_command try_join args = (case try_join args of Some s \<Rightarrow> s | None \<Rightarrow> join [SPACE] args)"

definition rules_deciding :: "decision \<Rightarrow> rule_match list \<Rightarrow> (str list \<times> str option) list" where
  "rules_deciding d ms =
     List.map_filter (\<lambda>m. case m of
         PrefixRuleMatch matched_prefix d' _ justification \<Rightarrow> if d' = d then Some (matched_prefix, justification) else None
       | _ \<Rightarrow> None) ms"

definition derive_prompt_reason :: "(str list \<Rightarrow> str option) \<Rightarrow> str list \<Rightarrow> evaluation \<Rightarrow> str option" where
  "derive_prompt_reason try_join command_args ev =
     (let command = render_shlex_command try_join command_args
      in case max_by_key (\<lambda>(matched_prefix, _). length matched_prefix) (rules_deciding Prompt (eval_matched_rules ev)) of
           Some (_, Some justification) \<Rightarrow> Some (backticked command @ lit '' requires approval: '' @ justification)
         | Some (_, None) \<Rightarrow> Some (backticked command @ lit '' requires approval by policy'')
         | None \<Rightarrow> None)"

fun dangerous_command_rejection_reason :: "dangerous_match \<Rightarrow> str" where
  "dangerous_command_rejection_reason ForcedRm =
     lit ''rm -f style commands are not permitted. Use a safer approach''"
| "dangerous_command_rejection_reason Other = lit ''blocked by policy''"

definition derive_forbidden_reason ::
  "(str list \<Rightarrow> str option) \<Rightarrow> str list \<Rightarrow> evaluation \<Rightarrow> dangerous_match option \<Rightarrow> str" where
  "derive_forbidden_reason try_join command_args ev dangerous =
     (let command = render_shlex_command try_join command_args
      in case max_by_key (\<lambda>(matched_prefix, _). length matched_prefix) (rules_deciding Forbidden (eval_matched_rules ev)) of
           Some (_, Some justification) \<Rightarrow> backticked command @ lit '' rejected: '' @ justification
         | Some (matched_prefix, None) \<Rightarrow>
             backticked command @ lit '' rejected: policy forbids commands starting with '' @
               backticked (render_shlex_command try_join matched_prefix)
         | None \<Rightarrow>
             (case dangerous of
                Some d \<Rightarrow> backticked command @ lit '' rejected: '' @ dangerous_command_rejection_reason d
              | None \<Rightarrow> backticked command @ lit '' rejected: blocked by policy''))"

definition derive_rejected_prompt_reason :: "str \<Rightarrow> dangerous_match option \<Rightarrow> str" where
  "derive_rejected_prompt_reason fallback_reason dangerous =
     (case dangerous of Some ForcedRm \<Rightarrow> dangerous_command_rejection_reason ForcedRm | _ \<Rightarrow> fallback_reason)"

section \<open>The requirement of a command\<close>

record exec_approval_request =
  req_command :: "str list"
  req_approval_policy :: ask_for_approval
  req_permission_profile :: permission_profile
  req_windows_sandbox_level :: windows_sandbox_level
  req_sandbox_permissions :: sandbox_permissions
  req_prefix_rule :: "str list option"

definition exec_policy_fallback :: "exec_params \<Rightarrow> exec_approval_request \<Rightarrow> str list \<Rightarrow> decision" where
  "exec_policy_fallback xp req cmd =
     render_decision_for_unmatched_command (xp_parse xp) cmd
       \<lparr>ctx_approval_policy = req_approval_policy req, ctx_permission_profile = req_permission_profile req,
        ctx_windows_sandbox_level = req_windows_sandbox_level req,
        ctx_sandbox_permissions = req_sandbox_permissions req,
        ctx_used_complex_parsing = epc_used_complex_parsing (commands_for_exec_policy (xp_parse xp) (req_command req))\<rparr>"

text \<open>Every parsed command is allowed by a rule of the policy itself.\<close>

definition every_command_allowed_by_rule :: "path_env \<Rightarrow> policy \<Rightarrow> str list list \<Rightarrow> bool" where
  "every_command_allowed_by_rule env p commands =
     list_all (\<lambda>command. list_ex (prompting_rule Allow) (matches_for_command_with_options env p command None True)) commands"

text \<open>The value \<open>None\<close> is the panic of an evaluation without matches.\<close>

definition create_exec_approval_requirement_for_command ::
  "exec_params \<Rightarrow> policy \<Rightarrow> exec_approval_request \<Rightarrow> exec_approval_requirement option" where
  "create_exec_approval_requirement_for_command xp p req =
     (let command = req_command req;
          ec = commands_for_exec_policy (xp_parse xp) command;
          commands = epc_commands ec;
          auto_amendment_allowed = \<not> epc_used_complex_parsing ec;
          fallback = exec_policy_fallback xp req
      in case check_multiple_with_options (xp_env xp) p commands fallback True of
           None \<Rightarrow> None
         | Some ev \<Rightarrow>
             (let ms = eval_matched_rules ev;
                  requested_amendment = (if auto_amendment_allowed
                    then derive_requested_execpolicy_amendment_from_prefix_rule (xp_env xp) (req_prefix_rule req) ms p
                           commands fallback True
                    else None)
              in Some (case eval_decision ev of
                   Forbidden \<Rightarrow>
                     ForbiddenRequirement (derive_forbidden_reason (xp_try_join xp) command ev
                       (dangerous_command_match_for_heuristics (xp_parse xp) ev Forbidden))
                 | Prompt \<Rightarrow>
                     (let prompt_is_rule = list_ex (prompting_rule Prompt) ms
                      in case prompt_is_rejected_by_policy (req_approval_policy req) prompt_is_rule of
                           Some reason \<Rightarrow>
                             if prompt_is_rule then ForbiddenRequirement reason
                             else ForbiddenRequirement (derive_rejected_prompt_reason reason
                               (dangerous_command_match_for_heuristics (xp_parse xp) ev Prompt))
                         | None \<Rightarrow>
                             NeedsApproval (derive_prompt_reason (xp_try_join xp) command ev)
                               (case requested_amendment of
                                  Some a \<Rightarrow> Some a
                                | None \<Rightarrow> if auto_amendment_allowed
                                          then try_derive_execpolicy_amendment_for_prompt_rules ms else None))
                 | Allow \<Rightarrow>
                     Skip (every_command_allowed_by_rule (xp_env xp) p commands)
                       (if auto_amendment_allowed then try_derive_execpolicy_amendment_for_allow_rules ms else None))))"


section \<open>The manager\<close>

text \<open>
  The manager holds the policy in force, replaced as a whole; the updates hold the only permit of the
  semaphore, so they run one after the other. The state is the text of the rules file and the policy.
  The outcomes of the I/O (\<open>append_rule_line\<close>) and a panic of the blocking task are parameters.
\<close>

record manager_state =
  mgr_file :: str
  mgr_policy :: policy

datatype update_error = AppendRule amend_error | JoinBlockingTask | AddRule policy_error

record update_io =
  io_json :: "str \<Rightarrow> str"
  io_join_fails :: bool
  io_append_fails :: "amend_error option"

definition blocking_append :: "update_io \<Rightarrow> (amend_error + str) \<Rightarrow> str \<Rightarrow> update_error + str" where
  "blocking_append io line contents =
     (if io_join_fails io then Inl JoinBlockingTask
      else (case line of
              Inl e \<Rightarrow> Inl (AppendRule e)
            | Inr l \<Rightarrow>
                (case io_append_fails io of
                   Some e \<Rightarrow> Inl (AppendRule e)
                 | None \<Rightarrow> Inr (append_locked_line contents l))))"

definition already_allowed :: "path_env \<Rightarrow> policy \<Rightarrow> str list \<Rightarrow> bool" where
  "already_allowed env p command =
     (case check_multiple_with_options env p [command] (\<lambda>_. Forbidden) True of
        None \<Rightarrow> False
      | Some ev \<Rightarrow> eval_decision ev = Allow \<and> list_ex (prompting_rule Allow) (eval_matched_rules ev))"

definition append_amendment_and_update ::
  "path_env \<Rightarrow> update_io \<Rightarrow> str list \<Rightarrow> manager_state \<Rightarrow> (update_error + unit) \<times> manager_state" where
  "append_amendment_and_update env io command s =
     (case blocking_append io (allow_prefix_rule_line (io_json io) command) (mgr_file s) of
        Inl e \<Rightarrow> (Inl e, s)
      | Inr contents \<Rightarrow>
          (let s = s\<lparr>mgr_file := contents\<rparr>
           in if already_allowed env (mgr_policy s) command then (Inr (), s)
              else (case add_prefix_rule (mgr_policy s) command Allow of
                      Inl e \<Rightarrow> (Inl (AddRule e), s)
                    | Inr p \<Rightarrow> (Inr (), s\<lparr>mgr_policy := p\<rparr>))))"

definition append_network_rule_and_update ::
  "update_io \<Rightarrow> str \<Rightarrow> network_protocol \<Rightarrow> decision \<Rightarrow> str option \<Rightarrow> manager_state \<Rightarrow>
   (update_error + unit) \<times> manager_state" where
  "append_network_rule_and_update io host protocol d justification s =
     (case blocking_append io (network_rule_line (io_json io) host protocol d justification) (mgr_file s) of
        Inl e \<Rightarrow> (Inl e, s)
      | Inr contents \<Rightarrow>
          (let s = s\<lparr>mgr_file := contents\<rparr>
           in case add_network_rule (mgr_policy s) host protocol d justification of
                Inl e \<Rightarrow> (Inl (AddRule e), s)
              | Inr p \<Rightarrow> (Inr (), s\<lparr>mgr_policy := p\<rparr>)))"

section \<open>Loading the rules of the configuration layers\<close>

datatype config_layer_source =
    Mdm str str
  | System abs_path
  | EnterpriseManaged str str
  | UserLayer abs_path "str option"
  | ProjectLayer abs_path
  | SessionFlags
  | LegacyManagedFromFile abs_path
  | LegacyManagedFromMdm

fun config_precedence :: "config_layer_source \<Rightarrow> int" where
  "config_precedence (Mdm _ _) = 0"
| "config_precedence (System _) = 10"
| "config_precedence (EnterpriseManaged _ _) = 15"
| "config_precedence (UserLayer _ profile) = (if profile \<noteq> None then 21 else 20)"
| "config_precedence (ProjectLayer _) = 25"
| "config_precedence SessionFlags = 30"
| "config_precedence (LegacyManagedFromFile _) = 40"
| "config_precedence LegacyManagedFromMdm = 50"

fun config_folder :: "config_layer_source \<Rightarrow> abs_path option" where
  "config_folder (Mdm _ _) = None"
| "config_folder (System file) = abs_parent file"
| "config_folder (EnterpriseManaged _ _) = None"
| "config_folder (UserLayer file _) = abs_parent file"
| "config_folder (ProjectLayer dot_codex_folder) = Some dot_codex_folder"
| "config_folder SessionFlags = None"
| "config_folder (LegacyManagedFromFile _) = None"
| "config_folder LegacyManagedFromMdm = None"

text \<open>A layer is its source and whether it is disabled; the layers come lowest precedence first.\<close>

record config_layer_stack =
  stack_layers :: "(config_layer_source \<times> bool) list"
  stack_ignore_user_and_project_rules :: bool
  stack_requirements_policy :: "policy option"

definition get_layers :: "config_layer_stack \<Rightarrow> bool \<Rightarrow> bool \<Rightarrow> config_layer_source list" where
  "get_layers stack highest_precedence_first include_disabled =
     (let layers = map fst (filter (\<lambda>(_, is_disabled). include_disabled \<or> \<not> is_disabled) (stack_layers stack))
      in if highest_precedence_first then rev layers else layers)"

datatype exec_policy_error = ReadDir abs_path str | ReadFile abs_path str | ParsePolicy str policy_error

text \<open>
  What is read: a directory is missing, fails to open or yields entries, each an error or a name with its
  file type (or an error); a file fails to be read or is its text; Starlark turns a text into builtin calls.
\<close>

datatype dir_listing = DirMissing | DirError str | DirEntries "(str + str \<times> (str + bool)) list"

record rules_fs =
  rf_read_dir :: "abs_path \<Rightarrow> dir_listing"
  rf_read_file :: "abs_path \<Rightarrow> str + str"
  rf_starlark :: "str \<Rightarrow> str \<Rightarrow> policy_error + builtin_call list"

text \<open>\<open>Path::extension\<close> on a file name.\<close>

definition path_extension :: "str \<Rightarrow> str option" where
  "path_extension name =
     (case rsplit_once 46 name of
        None \<Rightarrow> None
      | Some (before, after) \<Rightarrow> if before = [] then None else Some after)"

fun collect_entries :: "abs_path \<Rightarrow> (str + str \<times> (str + bool)) list \<Rightarrow> exec_policy_error + abs_path list" where
  "collect_entries dir [] = Inr []"
| "collect_entries dir (Inl e # es) = Inl (ReadDir dir e)"
| "collect_entries dir (Inr (name, Inl e) # es) = Inl (ReadDir dir e)"
| "collect_entries dir (Inr (name, Inr is_file) # es) =
     (case collect_entries dir es of
        Inl e \<Rightarrow> Inl e
      | Inr paths \<Rightarrow>
          Inr (if path_extension name = Some RULE_EXTENSION \<and> is_file then (dir @ [name]) # paths else paths))"

definition collect_policy_files :: "rules_fs \<Rightarrow> abs_path \<Rightarrow> exec_policy_error + abs_path list" where
  "collect_policy_files rf dir =
     (case rf_read_dir rf dir of
        DirMissing \<Rightarrow> Inr []
      | DirError e \<Rightarrow> Inl (ReadDir dir e)
      | DirEntries es \<Rightarrow> map_sum id sort (collect_entries dir es))"

fun is_user_or_project :: "config_layer_source \<Rightarrow> bool" where
  "is_user_or_project (UserLayer _ _) = True"
| "is_user_or_project (ProjectLayer _) = True"
| "is_user_or_project _ = False"

fun collect_layer_paths :: "path_env \<Rightarrow> rules_fs \<Rightarrow> bool \<Rightarrow> config_layer_source list \<Rightarrow> exec_policy_error + abs_path list" where
  "collect_layer_paths env rf ignore_rules [] = Inr []"
| "collect_layer_paths env rf ignore_rules (l # ls) =
     (if ignore_rules \<and> is_user_or_project l then collect_layer_paths env rf ignore_rules ls
      else (case config_folder l of
              None \<Rightarrow> collect_layer_paths env rf ignore_rules ls
            | Some folder \<Rightarrow>
                (case collect_policy_files rf (abs_join env folder RULES_DIR_NAME) of
                   Inl e \<Rightarrow> Inl e
                 | Inr paths \<Rightarrow> map_sum id (append paths) (collect_layer_paths env rf ignore_rules ls))))"

fun parse_files ::
  "rules_fs \<Rightarrow> parser_lib \<Rightarrow> path_env \<Rightarrow> abs_path list \<Rightarrow> policy_builder \<Rightarrow> exec_policy_error + policy_builder" where
  "parse_files rf lib env [] b = Inr b"
| "parse_files rf lib env (path # paths) b =
     (case rf_read_file rf path of
        Inl e \<Rightarrow> Inl (ReadFile path e)
      | Inr contents \<Rightarrow>
          (let identifier = render_absolute path
           in case rf_starlark rf identifier contents of
                Inl e \<Rightarrow> Inl (ParsePolicy identifier e)
              | Inr calls \<Rightarrow>
                  (case parse_policy lib env calls b of
                     Inl e \<Rightarrow> Inl (ParsePolicy identifier e)
                   | Inr b' \<Rightarrow> parse_files rf lib env paths b')))"

definition load_exec_policy ::
  "rules_fs \<Rightarrow> parser_lib \<Rightarrow> path_env \<Rightarrow> config_layer_stack \<Rightarrow> exec_policy_error + policy" where
  "load_exec_policy rf lib env stack =
     (case collect_layer_paths env rf (stack_ignore_user_and_project_rules stack) (get_layers stack False False) of
        Inl e \<Rightarrow> Inl e
      | Inr paths \<Rightarrow>
          (case parse_files rf lib env paths new_builder of
             Inl e \<Rightarrow> Inl e
           | Inr b \<Rightarrow>
               (case stack_requirements_policy stack of
                  None \<Rightarrow> Inr (build b)
                | Some requirements_policy \<Rightarrow> Inr (merge_overlay (build b) requirements_policy))))"

definition load_exec_policy_with_warning ::
  "rules_fs \<Rightarrow> parser_lib \<Rightarrow> path_env \<Rightarrow> config_layer_stack \<Rightarrow> exec_policy_error + policy \<times> exec_policy_error option" where
  "load_exec_policy_with_warning rf lib env stack =
     (case load_exec_policy rf lib env stack of
        Inr p \<Rightarrow> Inr (p, None)
      | Inl (ParsePolicy path source) \<Rightarrow>
          Inr ((case stack_requirements_policy stack of Some p \<Rightarrow> p | None \<Rightarrow> empty_policy), Some (ParsePolicy path source))
      | Inl e \<Rightarrow> Inl e)"

definition check_execpolicy_for_warnings ::
  "rules_fs \<Rightarrow> parser_lib \<Rightarrow> path_env \<Rightarrow> config_layer_stack \<Rightarrow> exec_policy_error + exec_policy_error option" where
  "check_execpolicy_for_warnings rf lib env stack = map_sum id snd (load_exec_policy_with_warning rf lib env stack)"

definition exec_policy_config_folders :: "config_layer_stack \<Rightarrow> abs_path list" where
  "exec_policy_config_folders stack = List.map_filter config_folder (get_layers stack False False)"

definition default_policy_path :: "path_env \<Rightarrow> abs_path \<Rightarrow> abs_path" where
  "default_policy_path env codex_home = abs_join env (abs_join env codex_home RULES_DIR_NAME) DEFAULT_POLICY_FILE"


section \<open>What a requirement guarantees\<close>

definition policy_matches :: "exec_params \<Rightarrow> policy \<Rightarrow> str list \<Rightarrow> rule_match list" where
  "policy_matches xp p c = matches_for_command_with_options (xp_env xp) p c None True"

definition segment_matches :: "exec_params \<Rightarrow> policy \<Rightarrow> exec_approval_request \<Rightarrow> str list \<Rightarrow> rule_match list" where
  "segment_matches xp p req c =
     (if policy_matches xp p c = [] then [HeuristicsRuleMatch c (exec_policy_fallback xp req c)] else policy_matches xp p c)"

definition segments :: "exec_params \<Rightarrow> exec_approval_request \<Rightarrow> str list list" where
  "segments xp req = epc_commands (commands_for_exec_policy (xp_parse xp) (req_command req))"

lemma matches_some_none:
  "matches_for_command_with_options env p c (Some h) True =
     (let ms = matches_for_command_with_options env p c None True in if ms = [] then [HeuristicsRuleMatch c (h c)] else ms)"
  by (simp add: matches_for_command_with_options_def Let_def)

lemma segment_matches_eq:
  "matches_for_command_with_options (xp_env xp) p c (Some (exec_policy_fallback xp req)) True = segment_matches xp p req c"
  by (simp add: matches_some_none segment_matches_def policy_matches_def Let_def)

lemma host_match_is_rule: "m \<in> set (match_host_executable_rules env p c) \<Longrightarrow> is_policy_match m"
  by (auto simp: match_host_executable_rules_def set_map_filter rule_matches_def
      split: list.splits option.splits if_splits)

lemma policy_matches_cases:
  "policy_matches xp p c =
     (if matching_rules p c \<noteq> [] then matching_rules p c else match_host_executable_rules (xp_env xp) p c)"
  by (auto simp: policy_matches_def matches_for_command_with_options_def matching_rules_def nonempty_option_def
      split: option.splits list.splits)

lemma matching_rule_is_rule: "m \<in> set (matching_rules p c) \<Longrightarrow> is_policy_match m"
  by (auto simp: matching_rules_table set_map_filter rule_matches_def split: list.splits)

lemma policy_match_is_rule: "m \<in> set (policy_matches xp p c) \<Longrightarrow> is_policy_match m"
  unfolding policy_matches_cases using matching_rule_is_rule host_match_is_rule by (metis)

lemma segments_nonempty [simp]: "segments xp req \<noteq> []"
  by (auto simp: segments_def commands_for_exec_policy_def nonempty_option_def split: option.splits list.splits)

lemma segment_matches_nonempty [simp]: "segment_matches xp p req c \<noteq> []"
  by (simp add: segment_matches_def)

definition all_matches :: "exec_params \<Rightarrow> policy \<Rightarrow> exec_approval_request \<Rightarrow> rule_match list" where
  "all_matches xp p req = concat (map (segment_matches xp p req) (segments xp req))"

lemma all_matches_nonempty [simp]: "all_matches xp p req \<noteq> []"
  using segments_nonempty[of xp req] by (cases "segments xp req") (simp_all add: all_matches_def)

definition overall :: "exec_params \<Rightarrow> policy \<Rightarrow> exec_approval_request \<Rightarrow> decision" where
  "overall xp p req = Max (match_decision ` set (all_matches xp p req))"

lemma evaluation_of_request:
  "check_multiple_with_options (xp_env xp) p (segments xp req) (exec_policy_fallback xp req) True =
     Some \<lparr>eval_decision = overall xp p req, eval_matched_rules = all_matches xp p req\<rparr>"
  by (simp add: check_multiple_with_options_def evaluation_from_matches_def segment_matches_eq
      all_matches_nonempty[unfolded all_matches_def] overall_def all_matches_def)

lemma decision_le_overall: "m \<in> set (all_matches xp p req) \<Longrightarrow> match_decision m \<le> overall xp p req"
  by (simp add: overall_def)

lemma overall_attained: "\<exists>m\<in>set (all_matches xp p req). match_decision m = overall xp p req"
proof -
  have "overall xp p req \<in> match_decision ` set (all_matches xp p req)"
    unfolding overall_def by (rule Max_in) simp_all
  then show ?thesis by (metis imageE)
qed

lemma bypass_iff:
  assumes "overall xp p req = Allow"
  shows "every_command_allowed_by_rule (xp_env xp) p (segments xp req) \<longleftrightarrow> (\<forall>c\<in>set (segments xp req). policy_matches xp p c \<noteq> [])"
proof -
  have "list_ex (prompting_rule Allow) (policy_matches xp p c) \<longleftrightarrow> policy_matches xp p c \<noteq> []" if c: "c \<in> set (segments xp req)" for c
  proof
    assume n: "policy_matches xp p c \<noteq> []"
    then obtain m ms where m: "policy_matches xp p c = m # ms" by (cases "policy_matches xp p c") auto
    then have "m \<in> set (all_matches xp p req)" using c by (auto simp: all_matches_def segment_matches_def intro!: bexI[of _ c])
    then have "match_decision m = Allow" using decision_le_overall assms by fastforce
    then show "list_ex (prompting_rule Allow) (policy_matches xp p c)"
      using m policy_match_is_rule[of m xp p c] by (simp add: prompting_rule_def)
  qed auto
  then show ?thesis by (simp add: every_command_allowed_by_rule_def list_all_iff policy_matches_def)
qed

text \<open>The requirement by the overall decision, with the parts of the evaluation it depends on.\<close>

lemma requirement_cases:
  "\<exists>r. create_exec_approval_requirement_for_command xp p req = Some r \<and>
    (overall xp p req = Forbidden \<longrightarrow> (\<exists>reason. r = ForbiddenRequirement reason)) \<and>
    (overall xp p req = Prompt \<longrightarrow>
       (case prompt_is_rejected_by_policy (req_approval_policy req) (list_ex (prompting_rule Prompt) (all_matches xp p req)) of
          Some _ \<Rightarrow> \<exists>reason. r = ForbiddenRequirement reason
        | None \<Rightarrow> \<exists>reason a. r = NeedsApproval reason a)) \<and>
    (overall xp p req = Allow \<longrightarrow>
       (\<exists>a. r = Skip (\<forall>c\<in>set (segments xp req). policy_matches xp p c \<noteq> []) a))"
  unfolding create_exec_approval_requirement_for_command_def Let_def
  unfolding segments_def[symmetric] evaluation_of_request
  by (cases "overall xp p req") (simp_all add: bypass_iff split: option.split)

text \<open>
  C10. What an approval requirement guarantees. A requirement is always computed. If a rule forbids one of the
  commands of the script, the whole is forbidden. If it runs without a question, then every rule that
  matches a command allows it, and every command no rule matches is allowed by the classification; the sandbox is bypassed
  exactly when a rule matches every command. The user is asked only when the settings let a
  prompt of this kind through.
\<close>
theorem approval_requirement_safe:
  "\<exists>r. create_exec_approval_requirement_for_command xp p req = Some r \<and>
    ((\<exists>c\<in>set (segments xp req). \<exists>m\<in>set (policy_matches xp p c). match_decision m = Forbidden) \<longrightarrow>
       (\<exists>reason. r = ForbiddenRequirement reason)) \<and>
    (\<forall>bypass a. r = Skip bypass a \<longrightarrow>
       (\<forall>c\<in>set (segments xp req). (\<forall>m\<in>set (policy_matches xp p c). match_decision m = Allow) \<and>
          (policy_matches xp p c = [] \<longrightarrow> exec_policy_fallback xp req c = Allow)) \<and>
       (bypass \<longleftrightarrow> (\<forall>c\<in>set (segments xp req). policy_matches xp p c \<noteq> []))) \<and>
    (\<forall>reason a. r = NeedsApproval reason a \<longrightarrow>
       req_approval_policy req \<noteq> NeverAsk \<and>
       prompt_is_rejected_by_policy (req_approval_policy req)
         (\<exists>c\<in>set (segments xp req). \<exists>m\<in>set (policy_matches xp p c). match_decision m = Prompt) = None)"
proof -
  obtain r where r: "create_exec_approval_requirement_for_command xp p req = Some r"
    and c: "overall xp p req = Forbidden \<Longrightarrow> \<exists>reason. r = ForbiddenRequirement reason"
      "overall xp p req = Prompt \<Longrightarrow>
       (case prompt_is_rejected_by_policy (req_approval_policy req) (list_ex (prompting_rule Prompt) (all_matches xp p req)) of
          Some _ \<Rightarrow> \<exists>reason. r = ForbiddenRequirement reason
        | None \<Rightarrow> \<exists>reason a. r = NeedsApproval reason a)"
      "overall xp p req = Allow \<Longrightarrow> \<exists>a. r = Skip (\<forall>c\<in>set (segments xp req). policy_matches xp p c \<noteq> []) a"
    using requirement_cases[of xp p req] by blast
  have rule_in: "m \<in> set (all_matches xp p req)" if "c \<in> set (segments xp req)" "m \<in> set (policy_matches xp p c)" for c m
    using that by (auto simp: all_matches_def segment_matches_def intro!: bexI[of _ c])
  have heur_in: "HeuristicsRuleMatch c (exec_policy_fallback xp req c) \<in> set (all_matches xp p req)"
    if "c \<in> set (segments xp req)" "policy_matches xp p c = []" for c
    using that by (auto simp: all_matches_def segment_matches_def intro!: bexI[of _ c])
  have p: "list_ex (prompting_rule Prompt) (all_matches xp p req) \<longleftrightarrow>
      (\<exists>c\<in>set (segments xp req). \<exists>m\<in>set (policy_matches xp p c). match_decision m = Prompt)"
  proof
    assume "list_ex (prompting_rule Prompt) (all_matches xp p req)"
    then obtain m c where "c \<in> set (segments xp req)" "m \<in> set (segment_matches xp p req c)" "prompting_rule Prompt m"
      by (auto simp: list_ex_iff all_matches_def)
    then show "\<exists>c\<in>set (segments xp req). \<exists>m\<in>set (policy_matches xp p c). match_decision m = Prompt"
      by (auto simp: segment_matches_def prompting_rule_def split: if_splits)
  next
    assume "\<exists>c\<in>set (segments xp req). \<exists>m\<in>set (policy_matches xp p c). match_decision m = Prompt"
    then show "list_ex (prompting_rule Prompt) (all_matches xp p req)"
      using rule_in policy_match_is_rule by (fastforce simp: list_ex_iff prompting_rule_def)
  qed
  have f: "\<exists>reason. r = ForbiddenRequirement reason"
    if "c \<in> set (segments xp req)" "m \<in> set (policy_matches xp p c)" "match_decision m = Forbidden" for c m
    using decision_le_overall[OF rule_in[OF that(1,2)]] that(3) c(1) by simp
  have s: "overall xp p req = Allow" if "r = Skip bypass a" for bypass a
    using that c by (cases "overall xp p req") (auto split: option.splits)
  have n: "overall xp p req = Prompt" if "r = NeedsApproval reason a" for reason a
    using that c by (cases "overall xp p req") auto
  have k: "req_approval_policy req \<noteq> NeverAsk \<and> prompt_is_rejected_by_policy (req_approval_policy req)
         (\<exists>c\<in>set (segments xp req). \<exists>m\<in>set (policy_matches xp p c). match_decision m = Prompt) = None"
    if "r = NeedsApproval reason a" for reason a
    using c(2)[OF n[OF that]] that unfolding p
    by (cases "req_approval_policy req") (auto simp: prompt_is_rejected_by_policy_def split: option.splits if_splits)
  have a: "match_decision m = Allow" if "overall xp p req = Allow" "m \<in> set (all_matches xp p req)" for m
    using decision_le_overall[OF that(2)] that(1) by simp
  show ?thesis
    using r f s k c(3) a rule_in heur_in by (intro exI[of _ r] conjI) (fastforce)+
qed


section \<open>Commands that look dangerous\<close>

text \<open>
  C18. A command that looks dangerous and that no rule speaks about never runs without a question: with prompts
  switched off it is forbidden, and otherwise it is asked about or forbidden. Only a known safe command under
  the setting that trusts such commands is exempt.
\<close>
theorem dangerous_command_never_skipped:
  assumes "c \<in> set (segments xp req)" "policy_matches xp p c = []"
    and "dangerous_command_match (xp_parse xp) c \<noteq> None"
    and "req_approval_policy req \<noteq> UnlessTrusted \<or> \<not> is_known_safe_command (xp_parse xp) c"
  shows "(\<exists>reason. create_exec_approval_requirement_for_command xp p req = Some (ForbiddenRequirement reason)) \<or>
    req_approval_policy req \<noteq> NeverAsk \<and>
    (\<exists>reason a. create_exec_approval_requirement_for_command xp p req = Some (NeedsApproval reason a))"
proof -
  let ?d = "case req_approval_policy req of NeverAsk \<Rightarrow> Forbidden | _ \<Rightarrow> Prompt"
  have "exec_policy_fallback xp req c = ?d"
    using assms(3,4) by (auto simp: exec_policy_fallback_def render_decision_for_unmatched_command_def Let_def CFG_WINDOWS_def)
  then have "HeuristicsRuleMatch c ?d \<in> set (all_matches xp p req)"
    using assms(1,2) by (auto simp: all_matches_def segment_matches_def intro!: bexI[of _ c])
  from decision_le_overall[OF this] have le: "?d \<le> overall xp p req" by simp
  show ?thesis
  proof (cases "overall xp p req")
    case Forbidden
    then show ?thesis using requirement_cases[of xp p req] by blast
  next
    case Prompt
    then have "req_approval_policy req \<noteq> NeverAsk" using le by (auto simp: less_eq_decision_def split: ask_for_approval.splits)
    then show ?thesis using Prompt requirement_cases[of xp p req] by (auto split: option.splits)
  next
    case Allow
    then show ?thesis using le by (cases "req_approval_policy req") simp_all
  qed
qed

section \<open>Amendments make progress\<close>

lemma match_host_mono:
  assumes "host_executables p' = host_executables p"
    and "\<And>k. set (table_rules (rules_by_program p) k) \<subseteq> set (table_rules (rules_by_program p') k)"
  shows "set (match_host_executable_rules env p c) \<subseteq> set (match_host_executable_rules env p' c)"
proof (cases c)
  case (Cons first args)
  have sub: "set (List.map_filter f (table_rules (rules_by_program p) k)) \<subseteq> set (List.map_filter f (table_rules (rules_by_program p') k))"
    for f :: "prefix_rule \<Rightarrow> rule_match option" and k
    using assms(2)[of k] by (auto simp: set_map_filter)
  have "set (map f (List.map_filter g (table_rules (rules_by_program p) k)))
      \<subseteq> set (map f (List.map_filter g (table_rules (rules_by_program p') k)))" for f :: "rule_match \<Rightarrow> rule_match" and g and k
    unfolding set_map by (rule image_mono[OF sub])
  then show ?thesis unfolding Cons match_host_table assms(1)
    by (cases "absolute_path_buf env first"; cases "executable_path_lookup_key (the (absolute_path_buf env first))")
      (simp_all del: set_map)
qed (simp add: match_host_executable_rules_def)

lemma policy_matches_add:
  assumes "add_prefix_rule p a Allow = Inr p'"
  shows "policy_matches xp p c \<noteq> [] \<Longrightarrow> policy_matches xp p' c \<noteq> []"
    and "prefix a c \<Longrightarrow> PrefixRuleMatch a Allow None None \<in> set (matching_rules p' c)"
    and "set (matching_rules p c) \<subseteq> set (matching_rules p' c)"
    and "set (match_host_executable_rules env p c) \<subseteq> set (match_host_executable_rules env p' c)"
proof -
  show "prefix a c \<Longrightarrow> PrefixRuleMatch a Allow None None \<in> set (matching_rules p' c)"
    and "set (matching_rules p c) \<subseteq> set (matching_rules p' c)"
    by (simp_all add: add_prefix_rule_effect[OF assms])
  have h: "host_executables p' = host_executables p"
    and t: "set (table_rules (rules_by_program p) k) \<subseteq> set (table_rules (rules_by_program p') k)" for k
    using assms by (auto simp: add_prefix_rule_def table_rules_insert split: list.splits)
  show host: "set (match_host_executable_rules env p c) \<subseteq> set (match_host_executable_rules env p' c)" for env
    by (rule match_host_mono[OF h t])
  from host[of "xp_env xp"] show "policy_matches xp p c \<noteq> [] \<Longrightarrow> policy_matches xp p' c \<noteq> []"
    by (auto simp: policy_matches_cases add_prefix_rule_effect[OF assms] split: if_splits)
qed


text \<open>The commands of a request that no rule matches and that the classification wants to ask about.\<close>

definition unmatched_prompts :: "exec_params \<Rightarrow> policy \<Rightarrow> exec_approval_request \<Rightarrow> str list list" where
  "unmatched_prompts xp p req =
     filter (\<lambda>c. policy_matches xp p c = [] \<and> exec_policy_fallback xp req c = Prompt) (segments xp req)"

lemma find_map_Some: "find_map f xs = Some y \<Longrightarrow> \<exists>x\<in>set xs. f x = Some y"
  by (induction xs) (auto split: option.splits)

lemma first_heuristics_prompt:
  assumes "first_heuristics Prompt (all_matches xp p req) = Some a"
  shows "a \<in> set (unmatched_prompts xp p req)"
proof -
  obtain m where m: "m \<in> set (all_matches xp p req)"
      "(case m of HeuristicsRuleMatch command d' \<Rightarrow> if d' = Prompt then Some command else None | _ \<Rightarrow> None) = Some a"
    using find_map_Some[OF assms[unfolded first_heuristics_def]] by blast
  from m(2) have "m = HeuristicsRuleMatch a Prompt" by (cases m) (auto split: if_splits)
  with m(1) have "HeuristicsRuleMatch a Prompt \<in> set (all_matches xp p req)" by simp
  then obtain c where c: "c \<in> set (segments xp req)" "HeuristicsRuleMatch a Prompt \<in> set (segment_matches xp p req c)"
    by (auto simp: all_matches_def)
  then have "policy_matches xp p c = []" "c = a" "exec_policy_fallback xp req a = Prompt"
    using policy_match_is_rule[of "HeuristicsRuleMatch a Prompt" xp p c]
    by (auto simp: segment_matches_def split: if_splits)
  then show ?thesis using c by (simp add: unmatched_prompts_def)
qed

lemma length_filter_stricter:
  assumes "\<And>x. x \<in> set xs \<Longrightarrow> Q x \<Longrightarrow> P x" "y \<in> set xs" "P y" "\<not> Q y"
  shows "length (filter Q xs) < length (filter P xs)"
proof -
  have "filter Q xs = filter Q (filter P xs)" using assms(1) by (auto intro: filter_cong)
  then show ?thesis using length_filter_less[of y "filter P xs" Q] assms(2-4) by simp
qed

lemma needs_approval_amendment:
  assumes "create_exec_approval_requirement_for_command xp p req = Some (NeedsApproval reason (Some a))"
  shows "overall xp p req = Prompt"
    and "prefix_rule_would_approve_all_commands (xp_env xp) p a (segments xp req) (exec_policy_fallback xp req) True \<and>
         \<not> list_ex is_policy_match (all_matches xp p req) \<or>
         first_heuristics Prompt (all_matches xp p req) = Some a"
proof -
  show o: "overall xp p req = Prompt"
    using requirement_cases[of xp p req] assms by (cases "overall xp p req") (auto split: option.splits)
  show "prefix_rule_would_approve_all_commands (xp_env xp) p a (segments xp req) (exec_policy_fallback xp req) True \<and>
         \<not> list_ex is_policy_match (all_matches xp p req) \<or>
         first_heuristics Prompt (all_matches xp p req) = Some a"
    using assms unfolding create_exec_approval_requirement_for_command_def Let_def
    unfolding segments_def[symmetric] evaluation_of_request
    by (auto simp: o derive_requested_execpolicy_amendment_from_prefix_rule_def
        try_derive_execpolicy_amendment_for_prompt_rules_def split: option.splits if_splits)
qed

text \<open>
  C27. Approving and amending makes progress. Whenever a question comes with a proposed
  rule that is not empty, adding it leaves strictly fewer commands of the request that would be asked about
  again for want of a rule, so the same request is asked about at most once per command before
  only rules decide; and the rules that matched a command before still match it.
\<close>
theorem amendment_reduces_prompts:
  assumes "create_exec_approval_requirement_for_command xp p req = Some (NeedsApproval reason (Some a))" "a \<noteq> []"
  shows "\<exists>p'. add_prefix_rule p a Allow = Inr p' \<and>
    length (unmatched_prompts xp p' req) < length (unmatched_prompts xp p req) \<and>
    (\<forall>c. set (matching_rules p c) \<subseteq> set (matching_rules p' c))"
proof -
  obtain p' where p': "add_prefix_rule p a Allow = Inr p'" using assms(2) by (cases a) (auto simp: add_prefix_rule_def)
  note add = policy_matches_add(1)[OF p', where xp = xp] policy_matches_add(2,3)[OF p']
  have keep: "policy_matches xp p c = []" if "policy_matches xp p' c = []" for c using add(1) that by blast
  have "\<exists>y\<in>set (segments xp req). policy_matches xp p y = [] \<and> exec_policy_fallback xp req y = Prompt \<and>
      \<not> (policy_matches xp p' y = [] \<and> exec_policy_fallback xp req y = Prompt)"
    using needs_approval_amendment(2)[OF assms(1)]
  proof
    assume "first_heuristics Prompt (all_matches xp p req) = Some a"
    from first_heuristics_prompt[OF this] have a: "a \<in> set (unmatched_prompts xp p req)" .
    have "policy_matches xp p' a \<noteq> []" using add(2)[of a] by (auto simp: policy_matches_cases)
    then show ?thesis using a by (intro bexI[of _ a]) (auto simp: unmatched_prompts_def)
  next
    assume r: "prefix_rule_would_approve_all_commands (xp_env xp) p a (segments xp req) (exec_policy_fallback xp req) True \<and>
         \<not> list_ex is_policy_match (all_matches xp p req)"
    obtain m where m: "m \<in> set (all_matches xp p req)" "match_decision m = Prompt"
      using overall_attained[of xp p req] needs_approval_amendment(1)[OF assms(1)] by auto
    then obtain c where c: "c \<in> set (segments xp req)" "m \<in> set (segment_matches xp p req c)" by (auto simp: all_matches_def)
    have "\<not> is_policy_match m" using r m(1) by (auto simp: list_ex_iff)
    then have n: "policy_matches xp p c = []" "exec_policy_fallback xp req c = Prompt"
      using c(2) m(2) policy_match_is_rule[of m xp p c] by (auto simp: segment_matches_def split: if_splits)
    have "map_option eval_decision (check_with_options (xp_env xp) p' c (exec_policy_fallback xp req) True) = Some Allow"
      using r c(1) by (auto simp: prefix_rule_would_approve_all_commands_def p' list_all_iff)
    then have "\<not> (policy_matches xp p' c = [] \<and> exec_policy_fallback xp req c = Prompt)"
      by (auto simp: check_with_options_def segment_matches_eq segment_matches_def evaluation_from_matches_def)
    with n c(1) show ?thesis by (intro bexI[of _ c]) auto
  qed
  then have "length (unmatched_prompts xp p' req) < length (unmatched_prompts xp p req)"
    unfolding unmatched_prompts_def using keep by (elim bexE) (rule length_filter_stricter; blast)
  then show ?thesis using p' add(3) by blast
qed


section \<open>What an amendment changes\<close>

lemma check_one:
  "check_multiple_with_options env p [c] h True =
     Some \<lparr>eval_decision = Max (match_decision ` set (matches_for_command_with_options env p c (Some h) True)),
           eval_matched_rules = matches_for_command_with_options env p c (Some h) True\<rparr>"
  by (simp add: check_multiple_with_options_def evaluation_from_matches_def)

lemma already_allowed_match:
  assumes "already_allowed env p c"
  shows "\<exists>m\<in>set (matches_for_command_with_options env p c None True). match_decision m = Allow"
  using assms by (auto simp: already_allowed_def check_one matches_some_none prompting_rule_def list_ex_iff Let_def split: if_splits)

lemma join_no_newline: "NL \<notin> set sep \<Longrightarrow> \<forall>x\<in>set xs. NL \<notin> set x \<Longrightarrow> NL \<notin> set (join sep xs)"
  by (induction sep xs rule: join.induct) auto

lemma allow_line_is_line:
  assumes "\<And>x. NL \<notin> set (json x)" "allow_prefix_rule_line json c = Inr line"
  shows "is_line line"
  using assms join_no_newline[of "lit '', ''" "map json c"]
  by (auto simp: allow_prefix_rule_line_def is_line_def lit_simps split: if_splits)

lemma Max_match_mono: "ms \<noteq> [] \<Longrightarrow> set ms \<subseteq> set ms' \<Longrightarrow> Max (match_decision ` set ms) \<le> Max (match_decision ` set ms')"
  by (auto intro!: Max_mono)

lemma decision_not_relaxed:
  assumes "set (matching_rules p c) \<subseteq> set (matching_rules p' c)"
    and "set (match_host_executable_rules env p c) \<subseteq> set (match_host_executable_rules env p' c)"
    and "matching_rules p c \<noteq> [] \<or> matching_rules p' c = [] \<and> match_host_executable_rules env p c \<noteq> []"
  shows "eval_decision (the (check_with_options env p c h True)) \<le> eval_decision (the (check_with_options env p' c h True))"
  using assms(3)
proof
  assume ne: "matching_rules p c \<noteq> []"
  then have "matching_rules p' c \<noteq> []" using assms(1) by auto
  from check_matching[OF ne] check_matching[OF this] show ?thesis using Max_match_mono[OF ne assms(1)]
    by (simp only: option.sel evaluation.select_convs)
next
  assume h: "matching_rules p' c = [] \<and> match_host_executable_rules env p c \<noteq> []"
  then have "matching_rules p c = []" "match_host_executable_rules env p' c \<noteq> []" using assms(1,2) by auto
  with h have "eval_decision (the (check_with_options env p c h True)) = Max (match_decision ` set (match_host_executable_rules env p c))"
    "eval_decision (the (check_with_options env p' c h True)) = Max (match_decision ` set (match_host_executable_rules env p' c))"
    by (simp_all add: check_with_options_def evaluation_from_matches_def matches_with_heuristics)
  then show ?thesis using Max_match_mono[OF conjunct2[OF h] assms(2)] by (simp only:)
qed

text \<open>
  C16. An approved amendment takes effect and drops no rule. After it has succeeded the rule is a line of the
  rules file, whose text is kept, and a rule in force allows the command; when it fails the
  policy in force is the one before. In both cases the table of rules stays well formed and every rule that
  matched a command, as it is written or under the base name of its program, still does. A decision that rules matching the command as written
  gave is never relaxed; one given by rules for the base name is not relaxed as long as no rule matches the
  command as written afterwards. An amendment that names the path itself does shadow the rules for the base name.
\<close>
theorem amendment_takes_effect:
  assumes "table_ok (rules_by_program (mgr_policy s))" "\<And>x. NL \<notin> set (io_json io x)"
    and "append_amendment_and_update env io command s = (r, s')"
  shows "table_ok (rules_by_program (mgr_policy s')) \<and> prefix (mgr_file s) (mgr_file s') \<and>
    (\<forall>c. set (matching_rules (mgr_policy s) c) \<subseteq> set (matching_rules (mgr_policy s') c) \<and>
       set (match_host_executable_rules env (mgr_policy s) c) \<subseteq> set (match_host_executable_rules env (mgr_policy s') c)) \<and>
    (\<forall>c h. matching_rules (mgr_policy s) c \<noteq> [] \<or>
         matching_rules (mgr_policy s') c = [] \<and> match_host_executable_rules env (mgr_policy s) c \<noteq> [] \<longrightarrow>
       eval_decision (the (check_with_options env (mgr_policy s) c h True))
       \<le> eval_decision (the (check_with_options env (mgr_policy s') c h True))) \<and>
    (case r of
       Inl _ \<Rightarrow> mgr_policy s' = mgr_policy s
     | Inr _ \<Rightarrow>
         (\<exists>line. allow_prefix_rule_line (io_json io) command = Inr line \<and> line \<in> set (str_lines (mgr_file s'))) \<and>
         (\<exists>m\<in>set (matches_for_command_with_options env (mgr_policy s') command None True). match_decision m = Allow))"
proof (cases "blocking_append io (allow_prefix_rule_line (io_json io) command) (mgr_file s)")
  case (Inl e)
  then have "s' = s" "r = Inl e" using assms(3) by (simp_all add: append_amendment_and_update_def)
  then show ?thesis using assms(1) by simp
next
  case (Inr contents)
  then obtain line where line: "allow_prefix_rule_line (io_json io) command = Inr line" "contents = append_locked_line (mgr_file s) line"
    by (auto simp: blocking_append_def split: if_splits sum.splits option.splits)
  note l = append_locked_line_spec[OF allow_line_is_line[OF assms(2) line(1)], of "mgr_file s"]
  have ne: "command \<noteq> []" using line(1) by (auto simp: allow_prefix_rule_line_def)
  have new: "mgr_file s' = contents"
    using assms(3) Inr by (auto simp: append_amendment_and_update_def Let_def split: if_splits sum.splits)
  have "mgr_policy s' = mgr_policy s \<and> r = Inr () \<and> already_allowed env (mgr_policy s) command \<or>
      add_prefix_rule (mgr_policy s) command Allow = Inr (mgr_policy s') \<and> r = Inr ()"
    using assms(3) Inr ne by (cases command)
      (auto simp: append_amendment_and_update_def Let_def add_prefix_rule_def split: if_splits)
  then show ?thesis
  proof
    assume a: "mgr_policy s' = mgr_policy s \<and> r = Inr () \<and> already_allowed env (mgr_policy s) command"
    then show ?thesis using assms(1) line l new already_allowed_match by auto
  next
    assume a: "add_prefix_rule (mgr_policy s) command Allow = Inr (mgr_policy s') \<and> r = Inr ()"
    note add = policy_matches_add(2,3,4)[OF conjunct1[OF a]]
    have "PrefixRuleMatch command Allow None None \<in> set (matches_for_command_with_options env (mgr_policy s') command None True)"
      using add(1)[of command] policy_matches_cases[of "\<lparr>xp_env = env, xp_parse = \<lambda>_. None, xp_try_join = \<lambda>_. None\<rparr>" "mgr_policy s'" command]
      by (auto simp: policy_matches_def)
    then have "\<exists>m\<in>set (matches_for_command_with_options env (mgr_policy s') command None True). match_decision m = Allow"
      by (intro bexI) simp_all
    then show ?thesis
      using assms(1) line l new a add(2,3) decision_not_relaxed[OF add(2,3)] table_ok_add_prefix[of "mgr_policy s" command Allow]
      by simp
  qed
qed


section \<open>Managed rules stand\<close>

inductive manager_step :: "path_env \<Rightarrow> manager_state \<Rightarrow> manager_state \<Rightarrow> bool" for env where
  amend: "append_amendment_and_update env io command s = (r, s') \<Longrightarrow> manager_step env s s'"
| network: "append_network_rule_and_update io host protocol d justification s = (r, s') \<Longrightarrow> manager_step env s s'"

text \<open>A policy that has all rules of another; the executables registered for a name are kept where the other has some.\<close>

definition keeps_rules :: "policy \<Rightarrow> policy \<Rightarrow> bool" where
  "keeps_rules q p \<longleftrightarrow>
     (\<forall>k. set (table_rules (rules_by_program q) k) \<subseteq> set (table_rules (rules_by_program p) k)) \<and>
     host_executables q \<subseteq>\<^sub>m host_executables p"

lemma keeps_rules_refl [simp]: "keeps_rules p p"
  by (simp add: keeps_rules_def)

lemma keeps_rules_add: "add_prefix_rule p a d = Inr p' \<Longrightarrow> keeps_rules p p'"
  by (auto simp: keeps_rules_def add_prefix_rule_def table_rules_insert split: list.splits)

lemma keeps_rules_network: "add_network_rule p host protocol d j = Inr p' \<Longrightarrow> keeps_rules p p'"
  by (auto simp: keeps_rules_def add_network_rule_def split: sum.splits option.splits if_splits)

lemma keeps_rules_trans: "keeps_rules a b \<Longrightarrow> keeps_rules b c \<Longrightarrow> keeps_rules a c"
  unfolding keeps_rules_def by (meson map_le_trans subset_trans)

lemma keeps_rules_matching: "keeps_rules q p \<Longrightarrow> set (matching_rules q c) \<subseteq> set (matching_rules p c)"
  by (cases c) (auto simp: matching_rules_table keeps_rules_def set_map_filter)

lemma keeps_rules_by_name:
  assumes "keeps_rules q p"
  shows "set (match_host_executable_rules env (q\<lparr>host_executables := host_executables p\<rparr>) c) \<subseteq> set (match_host_executable_rules env p c)"
  by (rule match_host_mono) (use assms in \<open>simp_all add: keeps_rules_def\<close>)

lemma manager_step_keeps: "manager_step env s s' \<Longrightarrow> keeps_rules (mgr_policy s) (mgr_policy s')"
proof (induction rule: manager_step.induct)
  case (amend io command s r s')
  then have "mgr_policy s' = mgr_policy s \<or> add_prefix_rule (mgr_policy s) command Allow = Inr (mgr_policy s')"
    by (auto simp: append_amendment_and_update_def Let_def split: if_splits sum.splits)
  then show ?case by (elim disjE) (simp, erule keeps_rules_add)
next
  case (network io host protocol d justification s r s')
  then have "mgr_policy s' = mgr_policy s \<or> add_network_rule (mgr_policy s) host protocol d justification = Inr (mgr_policy s')"
    by (auto simp: append_network_rule_and_update_def Let_def split: sum.splits)
  then show ?case by (elim disjE) (simp, erule keeps_rules_network)
qed

lemma manager_steps_keep: "(manager_step env)\<^sup>*\<^sup>* s s' \<Longrightarrow> keeps_rules (mgr_policy s) (mgr_policy s')"
  by (induction rule: rtranclp_induct) (simp, erule keeps_rules_trans, erule manager_step_keeps)

lemma loaded_policy_keeps_requirements:
  assumes "load_exec_policy_with_warning rf lib env stack = Inr (p, w)" "stack_requirements_policy stack = Some q"
    and "table_ok (rules_by_program q)"
  shows "keeps_rules q p"
proof -
  have "keeps_rules q (merge_overlay b q)" for b
    using assms(3) by (simp add: keeps_rules_def merge_overlay_def insert_all_rules table_ok_def map_le_map_add)
  then show ?thesis
    using assms(1,2) by (auto simp: load_exec_policy_with_warning_def load_exec_policy_def
        split: sum.splits exec_policy_error.splits)
qed

text \<open>
  C1. Managed rules stand. Whatever rule files the layers hold, broken ones included, and whatever amendments and network
  rules are accepted afterwards, a command that a rule of the managed requirements forbids is forbidden
  in every script it is a part of, and one that such a rule prompts for never runs unasked. This holds for the
  rules that match the command as it is written; for those that match it under the base name of its
  program, it holds as long as no rule in force matches the command as written (the rules of other files and amendments that name the path do shadow
  them) and the executables registered for the name admit the program; where the requirements register some, theirs are in force.
\<close>
theorem managed_rules_stand:
  assumes "load_exec_policy_with_warning rf lib env stack = Inr (p, w)" "stack_requirements_policy stack = Some q"
    and "table_ok (rules_by_program q)"
    and "(manager_step env')\<^sup>*\<^sup>* \<lparr>mgr_file = file, mgr_policy = p\<rparr> s"
    and "c \<in> set (segments xp req)"
    and "m \<in> set (matching_rules q c) \<or>
      matching_rules (mgr_policy s) c = [] \<and>
      m \<in> base_name_matches (xp_env xp) (q\<lparr>host_executables := host_executables (mgr_policy s)\<rparr>) c"
  shows "(\<exists>r. create_exec_approval_requirement_for_command xp (mgr_policy s) req = Some r \<and>
      (match_decision m = Forbidden \<longrightarrow> (\<exists>reason. r = ForbiddenRequirement reason)) \<and>
      (match_decision m = Prompt \<longrightarrow> (\<forall>bypass a. r \<noteq> Skip bypass a))) \<and>
    (\<forall>name paths. host_executables q name = Some paths \<longrightarrow> host_executables (mgr_policy s) name = Some paths)"
proof -
  have keep: "keeps_rules q (mgr_policy s)"
    using keeps_rules_trans[OF loaded_policy_keeps_requirements[OF assms(1-3)]] manager_steps_keep[OF assms(4)] by simp
  let ?q = "q\<lparr>host_executables := host_executables (mgr_policy s)\<rparr>"
  have ok: "table_ok (rules_by_program ?q)" using assms(3) by simp
  have "m \<in> set (matching_rules (mgr_policy s) c) \<or>
      matching_rules (mgr_policy s) c = [] \<and> m \<in> set (match_host_executable_rules (xp_env xp) (mgr_policy s) c)"
    using assms(6) keeps_rules_matching[OF keep, of c] keeps_rules_by_name[OF keep, of "xp_env xp" c]
    unfolding match_host_all[OF ok, symmetric] by blast
  then have "m \<in> set (policy_matches xp (mgr_policy s) c)"
    by (auto simp: policy_matches_cases)
  then have "m \<in> set (all_matches xp (mgr_policy s) req)"
    using assms(5) by (auto simp: all_matches_def segment_matches_def intro!: bexI[of _ c])
  then have le: "match_decision m \<le> overall xp (mgr_policy s) req" by (rule decision_le_overall)
  have "host_executables (mgr_policy s) name = Some paths" if "host_executables q name = Some paths" for name paths
    using keep that by (auto simp: keeps_rules_def map_le_def dom_def)
  moreover have "\<exists>r. create_exec_approval_requirement_for_command xp (mgr_policy s) req = Some r \<and>
      (match_decision m = Forbidden \<longrightarrow> (\<exists>reason. r = ForbiddenRequirement reason)) \<and>
      (match_decision m = Prompt \<longrightarrow> (\<forall>bypass a. r \<noteq> Skip bypass a))"
    using requirement_cases[of xp "mgr_policy s" req] le
    by (cases "overall xp (mgr_policy s) req") (auto simp: less_eq_decision_def split: option.splits)
  ultimately show ?thesis by blast
qed


section \<open>Instances\<close>

definition plain_params :: exec_params where
  "plain_params = \<lparr>xp_env = \<lparr>home_dir = None, current_dir = None\<rparr>, xp_parse = (\<lambda>_. None), xp_try_join = (\<lambda>_. None)\<rparr>"

definition plain_request :: "ask_for_approval \<Rightarrow> str list \<Rightarrow> exec_approval_request" where
  "plain_request a command =
     \<lparr>req_command = command, req_approval_policy = a, req_permission_profile = DisabledProfile,
      req_windows_sandbox_level = WindowsDisabled, req_sandbox_permissions = UseDefault, req_prefix_rule = None\<rparr>"

definition git_push :: "str list" where "git_push = [lit ''git'', lit ''push'']"

definition forbid_push :: policy where
  "forbid_push = \<lparr>rules_by_program = [(lit ''git'',
       [\<lparr>rule_pattern = \<lparr>pat_first = lit ''git'', pat_rest = [Single (lit ''push'')]\<rparr>, rule_decision = Forbidden,
         rule_justification = None\<rparr>])], network_rules = [], host_executables = Map.empty\<rparr>"

lemma plain_segments:
  "extract_bash_command c = None \<Longrightarrow> segments plain_params (plain_request a c) = [c]"
  by (simp add: segments_def commands_for_exec_policy_def plain_params_def plain_request_def nonempty_option_def
      parse_shell_lc_plain_commands_def parse_shell_lc_single_command_prefix_def)

lemma forbid_push_matches:
  "matching_rules forbid_push git_push = [PrefixRuleMatch git_push Forbidden None None]"
  by code_simp

lemma push_segments: "segments plain_params (plain_request a git_push) = [git_push]"
  by (rule plain_segments) code_simp

theorem approval_requirement_safe_witness:
  "\<exists>reason. create_exec_approval_requirement_for_command plain_params forbid_push (plain_request OnRequest git_push) =
     Some (ForbiddenRequirement reason)"
proof -
  have "\<exists>c\<in>set (segments plain_params (plain_request OnRequest git_push)).
      \<exists>m\<in>set (policy_matches plain_params forbid_push c). match_decision m = Forbidden"
    by (simp add: push_segments policy_matches_cases forbid_push_matches)
  then show ?thesis
    using approval_requirement_safe[of plain_params forbid_push "plain_request OnRequest git_push"] by blast
qed

definition rm_rf :: "str list" where "rm_rf = [lit ''rm'', lit ''-rf'', lit ''x'']"

theorem dangerous_command_never_skipped_witness:
  "\<exists>reason. create_exec_approval_requirement_for_command plain_params empty_policy (plain_request NeverAsk rm_rf) =
     Some (ForbiddenRequirement reason)"
proof -
  have s: "segments plain_params (plain_request NeverAsk rm_rf) = [rm_rf]" by (rule plain_segments) code_simp
  have m: "policy_matches plain_params empty_policy rm_rf = []" by code_simp
  have d: "dangerous_command_match (xp_parse plain_params) rm_rf \<noteq> None"
    using sudo_rm_detected_iff[of "\<lambda>_. None" 0 "[lit ''-rf'', lit ''x'']"]
    by (simp add: rm_rf_def plain_params_def) code_simp
  from dangerous_command_never_skipped[OF _ m d, of "plain_request NeverAsk rm_rf"] s show ?thesis
    by (simp add: plain_request_def)
qed

theorem amendment_reduces_prompts_witness:
  "\<exists>p'. add_prefix_rule empty_policy [lit ''make''] Allow = Inr p' \<and>
     length (unmatched_prompts plain_params p' (plain_request UnlessTrusted [lit ''make'']))
       < length (unmatched_prompts plain_params empty_policy (plain_request UnlessTrusted [lit ''make'']))"
proof -
  have "create_exec_approval_requirement_for_command plain_params empty_policy (plain_request UnlessTrusted [lit ''make'']) =
      Some (NeedsApproval None (Some [lit ''make'']))" by code_simp
  from amendment_reduces_prompts[OF this] show ?thesis by (simp add: lit_simps) blast
qed

definition plain_io :: update_io where
  "plain_io = \<lparr>io_json = (\<lambda>x. [34] @ filter (\<lambda>c. c \<noteq> NL) x @ [34]), io_join_fails = False, io_append_fails = None\<rparr>"

theorem amendment_takes_effect_witness:
  "\<exists>m\<in>set (matches_for_command_with_options (xp_env plain_params)
       (mgr_policy (snd (append_amendment_and_update (xp_env plain_params) plain_io [lit ''make'']
          \<lparr>mgr_file = [], mgr_policy = forbid_push\<rparr>))) [lit ''make''] None True). match_decision m = Allow"
proof -
  let ?s = "\<lparr>mgr_file = [], mgr_policy = forbid_push\<rparr>"
  let ?r = "append_amendment_and_update (xp_env plain_params) plain_io [lit ''make''] ?s"
  have ok: "table_ok (rules_by_program (mgr_policy ?s))" by (simp add: forbid_push_def table_ok_def rule_program_def)
  have j: "NL \<notin> set (io_json plain_io x)" for x by (simp add: plain_io_def)
  have "fst ?r = Inr ()" by code_simp
  then have e: "?r = (Inr (), snd ?r)" by (simp add: prod_eq_iff)
  from amendment_takes_effect[OF ok j e] show ?thesis unfolding sum.case by blast
qed

theorem managed_rules_stand_witness:
  "\<exists>reason. create_exec_approval_requirement_for_command plain_params
     (mgr_policy (snd (append_amendment_and_update (xp_env plain_params) plain_io git_push
        \<lparr>mgr_file = [], mgr_policy = forbid_push\<rparr>))) (plain_request OnRequest git_push) = Some (ForbiddenRequirement reason)"
proof -
  let ?stack = "\<lparr>stack_layers = [(UserLayer [lit ''home''] None, False)], stack_ignore_user_and_project_rules = False,
     stack_requirements_policy = Some forbid_push\<rparr>"
  let ?rf = "\<lparr>rf_read_dir = (\<lambda>_. DirMissing), rf_read_file = (\<lambda>_. Inl []), rf_starlark = (\<lambda>_ _. Inr [])\<rparr>"
  let ?s = "\<lparr>mgr_file = [], mgr_policy = forbid_push\<rparr>"
  have ok: "table_ok (rules_by_program forbid_push)" by (simp add: forbid_push_def table_ok_def rule_program_def)
  have l: "load_exec_policy_with_warning ?rf demo_lib demo_env ?stack = Inr (forbid_push, None)"
    by (simp add: load_exec_policy_with_warning_def load_exec_policy_def get_layers_def collect_policy_files_def
        build_def new_builder_def merge_overlay_def insert_all_def forbid_push_def abs_parent_def)
  have st: "(manager_step (xp_env plain_params))\<^sup>*\<^sup>* ?s
      (snd (append_amendment_and_update (xp_env plain_params) plain_io git_push ?s))"
    by (rule r_into_rtranclp, rule manager_step.amend, rule surjective_pairing)
  have c: "git_push \<in> set (segments plain_params (plain_request OnRequest git_push))" by (simp add: push_segments)
  have m: "PrefixRuleMatch git_push Forbidden None None \<in> set (matching_rules forbid_push git_push)" by (simp add: forbid_push_matches)
  from managed_rules_stand[OF l _ ok st c disjI1[OF m]] show ?thesis by auto
qed

text \<open>
  An approved prefix of an absolute program shadows the rules for its base name: before, the fallback to
  the base name forbids the command; afterwards the new rule matches exactly and the fallback is not consulted.
\<close>

lemma amendment_shadows_base_name_rules:
  "(case add_prefix_rule forbid_push [lit ''/bin/git''] Allow of
      Inr p' \<Rightarrow>
        map_option eval_decision (check_with_options (xp_env plain_params) forbid_push [lit ''/bin/git'', lit ''push''] (\<lambda>_. Prompt) True)
          = Some Forbidden \<and>
        map_option eval_decision (check_with_options (xp_env plain_params) p' [lit ''/bin/git'', lit ''push''] (\<lambda>_. Prompt) True)
          = Some Allow
    | Inl _ \<Rightarrow> False)"
  by code_simp

end
