(* ===== verification/PatchSafety.thy ===== *)
theory PatchSafety
  imports PatchFs ExecApproval "HOL-Library.AList"
begin

text \<open>
  From a proposed command to an applied patch: recognising an \<open>apply_patch\<close> invocation and verifying it against
  the file system (codex-rs/apply-patch/src/invocation.rs), deciding whether it needs an approval
  (codex-rs/core/src/safety.rs) and what is delegated and shown (codex-rs/core/src/apply_patch.rs). The parser,
  the application and the policies are those of \<open>PatchParser\<close>, \<open>PatchFs\<close> and \<open>FsPolicy\<close>. The theorem composes them:
  whatever an automatically approved patch writes or removes is writable under the policy.
\<close>

section \<open>Recognising an invocation\<close>

text \<open>
  The path URIs, the line diff and the matches of the tree-sitter query are parameters: the convention a
  URI is written in, its absolute path on this host, the unified diff of two texts with a number of context lines,
  and the captures of the query in the order of its matches.
\<close>

datatype path_convention = Posix | WindowsPaths

datatype heredoc_error =
    CommandDidNotStartWithApplyPatch
  | FailedToLoadBashGrammar
  | HeredocNotUtf8
  | FailedToParsePatchIntoAst
  | FailedToFindHeredocBody

datatype capture_name = HeredocCapture | CdPathCapture | CdRawStringCapture | OtherCapture

record patch_params =
  pp_paths :: path_ops
  pp_convention :: "str \<Rightarrow> path_convention option"
  pp_abs_path :: "str \<Rightarrow> abs_path option"
  pp_unified_diff :: "str \<Rightarrow> str \<Rightarrow> nat \<Rightarrow> str"
  pp_query :: "str \<Rightarrow> heredoc_error + (capture_name \<times> str option) list list"

definition path_segments :: "path_convention \<Rightarrow> str \<Rightarrow> str list" where
  "path_segments convention path =
     (case convention of
        Posix \<Rightarrow> split_on 47 path
      | WindowsPaths \<Rightarrow> concat (map (split_on 92) (split_on 47 path)))"

definition APPLY_PATCH_COMMANDS :: "str list" where
  "APPLY_PATCH_COMMANDS = [lit ''apply_patch'', lit ''applypatch'']"

datatype apply_patch_shell = UnixShell | PowerShell | CmdShell

definition classify_shell_name :: "str \<Rightarrow> path_convention \<Rightarrow> str option" where
  "classify_shell_name shell convention =
     (case last_opt (path_segments convention shell) of
        None \<Rightarrow> None
      | Some basename \<Rightarrow>
          (let stem = (case rsplit_once 46 basename of
                         Some (stem, _) \<Rightarrow> if stem \<noteq> [] then stem else basename
                       | None \<Rightarrow> basename)
           in Some (to_ascii_lowercase stem)))"

definition classify_shell :: "str \<Rightarrow> str \<Rightarrow> path_convention \<Rightarrow> apply_patch_shell option" where
  "classify_shell shell flag convention =
     (case classify_shell_name shell convention of
        None \<Rightarrow> None
      | Some name \<Rightarrow>
          if name \<in> {lit ''bash'', lit ''zsh'', lit ''sh''} \<and> flag \<in> {lit ''-lc'', lit ''-c''} then Some UnixShell
          else if name \<in> {lit ''pwsh'', lit ''powershell''} \<and> eq_ignore_ascii_case flag (lit ''-command'')
          then Some PowerShell
          else if name = lit ''cmd'' \<and> eq_ignore_ascii_case flag (lit ''/c'') then Some CmdShell
          else None)"

definition can_skip_flag :: "str \<Rightarrow> str \<Rightarrow> path_convention \<Rightarrow> bool" where
  "can_skip_flag shell flag convention =
     is_some_and (\<lambda>name. name \<in> {lit ''pwsh'', lit ''powershell''} \<and> eq_ignore_ascii_case flag (lit ''-noprofile''))
       (classify_shell_name shell convention)"

definition parse_shell_script :: "patch_params \<Rightarrow> str list \<Rightarrow> str \<Rightarrow> (apply_patch_shell \<times> str) option" where
  "parse_shell_script pp argv cwd =
     (case pp_convention pp cwd of
        None \<Rightarrow> None
      | Some convention \<Rightarrow>
          (case argv of
             [shell, flag, script] \<Rightarrow>
               map_option (\<lambda>shell_type. (shell_type, script)) (classify_shell shell flag convention)
           | [shell, skip_flag, flag, script] \<Rightarrow>
               if \<not> can_skip_flag shell skip_flag convention then None
               else map_option (\<lambda>shell_type. (shell_type, script)) (classify_shell shell flag convention)
           | _ \<Rightarrow> None))"

text \<open>The captures of one match; \<open>None\<close> in a capture is text that is not UTF-8.\<close>

definition unquote_raw :: "str \<Rightarrow> str" where
  "unquote_raw raw = (case Option.bind (strip_prefix raw [39]) (\<lambda>s. strip_suffix s [39]) of Some s \<Rightarrow> s | None \<Rightarrow> raw)"

fun read_captures ::
  "(capture_name \<times> str option) list \<Rightarrow> str option \<Rightarrow> str option \<Rightarrow> heredoc_error + (str option \<times> str option)" where
  "read_captures [] body cd = Inr (body, cd)"
| "read_captures ((OtherCapture, t) # cs) body cd = read_captures cs body cd"
| "read_captures ((name, None) # cs) body cd = Inl HeredocNotUtf8"
| "read_captures ((HeredocCapture, Some t) # cs) body cd = read_captures cs (Some (trim_end_matches NL t)) cd"
| "read_captures ((CdPathCapture, Some t) # cs) body cd = read_captures cs body (Some t)"
| "read_captures ((CdRawStringCapture, Some t) # cs) body cd = read_captures cs body (Some (unquote_raw t))"

fun first_heredoc :: "(capture_name \<times> str option) list list \<Rightarrow> heredoc_error + (str \<times> str option)" where
  "first_heredoc [] = Inl CommandDidNotStartWithApplyPatch"
| "first_heredoc (m # ms) =
     (case read_captures m None None of
        Inl e \<Rightarrow> Inl e
      | Inr (Some body, cd) \<Rightarrow> Inr (body, cd)
      | Inr (None, _) \<Rightarrow> first_heredoc ms)"

definition extract_apply_patch_from_bash :: "patch_params \<Rightarrow> str \<Rightarrow> heredoc_error + (str \<times> str option)" where
  "extract_apply_patch_from_bash pp src = (case pp_query pp src of Inl e \<Rightarrow> Inl e | Inr ms \<Rightarrow> first_heredoc ms)"

definition extract_apply_patch_from_shell ::
  "patch_params \<Rightarrow> apply_patch_shell \<Rightarrow> str \<Rightarrow> heredoc_error + (str \<times> str option)" where
  "extract_apply_patch_from_shell pp shell script = extract_apply_patch_from_bash pp script"

datatype maybe_apply_patch =
    PatchBody apply_patch_args
  | PatchShellError heredoc_error
  | PatchParseError parse_error
  | NotApplyPatch

definition maybe_parse_apply_patch :: "patch_params \<Rightarrow> str list \<Rightarrow> str \<Rightarrow> maybe_apply_patch" where
  "maybe_parse_apply_patch pp argv cwd =
     (let from_shell =
        (case parse_shell_script pp argv cwd of
           Some (shell, script) \<Rightarrow>
             (case extract_apply_patch_from_shell pp shell script of
                Inr (body, workdir) \<Rightarrow>
                  (case parse_patch body of
                     Inr source \<Rightarrow> PatchBody (source\<lparr>args_workdir := workdir\<rparr>)
                   | Inl e \<Rightarrow> PatchParseError e)
              | Inl CommandDidNotStartWithApplyPatch \<Rightarrow> NotApplyPatch
              | Inl e \<Rightarrow> PatchShellError e)
         | None \<Rightarrow> NotApplyPatch)
      in case argv of
           [cmd, body] \<Rightarrow>
             if cmd \<in> set APPLY_PATCH_COMMANDS
             then (case parse_patch body of Inr source \<Rightarrow> PatchBody source | Inl e \<Rightarrow> PatchParseError e)
             else from_shell
         | _ \<Rightarrow> from_shell)"

section \<open>Verifying the patch against the file system\<close>

datatype proposed_change =
    ProposedAdd str
  | ProposedDelete str
  | ProposedUpdate str "str option" str \<comment> \<open>unified diff, move path, new content\<close>

text \<open>The map of changes is an association list without duplicate keys; nothing rests on its order.\<close>

record apply_patch_action =
  action_changes :: "(str \<times> proposed_change) list"
  action_patch :: str
  action_cwd :: str

datatype verified_patch =
    VerifiedBody apply_patch_action
  | VerifiedShellError heredoc_error
  | CorrectnessError apply_patch_error
  | VerifiedNotApplyPatch

record file_update =
  fu_unified_diff :: str
  fu_original_content :: str
  fu_content :: str

text \<open>The value \<open>None\<close> is the panic of \<open>derive_new_contents_from_chunks\<close>.\<close>

definition unified_diff_from_chunks ::
  "patch_params \<Rightarrow> 'w file_system \<Rightarrow> str \<Rightarrow> update_file_chunk list \<Rightarrow> 'w \<Rightarrow> (apply_patch_error + file_update) option" where
  "unified_diff_from_chunks pp fs path chunks w =
     (case derive_new_contents (pp_paths pp) fs path chunks w of
        Inr (original, new) \<Rightarrow>
          Some (Inr \<lparr>fu_unified_diff = pp_unified_diff pp original new 1, fu_original_content = original, fu_content = new\<rparr>)
      | Inl (AnyApply e) \<Rightarrow> Some (Inl e)
      | Inl _ \<Rightarrow> None)"

definition verify_hunk ::
  "patch_params \<Rightarrow> 'w file_system \<Rightarrow> str \<Rightarrow> 'w \<Rightarrow> hunk \<Rightarrow> (str \<times> proposed_change) list \<Rightarrow>
   (apply_patch_error + (str \<times> proposed_change) list) option" where
  "verify_hunk pp fs effective_cwd w h cs =
     (case uri_join (pp_paths pp) effective_cwd (hunk_source_path h) of
        Inl e \<Rightarrow> Some (Inl (PathUri e))
      | Inr path \<Rightarrow>
          (case h of
             AddFile _ contents \<Rightarrow> Some (Inr (AList.update path (ProposedAdd contents) cs))
           | DeleteFile _ \<Rightarrow>
               (case fs_read_text fs path w of
                  Inl e \<Rightarrow> Some (Inl (IoError (lit ''Failed to read '' @ uri_native (pp_paths pp) path) e))
                | Inr content \<Rightarrow> Some (Inr (AList.update path (ProposedDelete content) cs)))
           | UpdateFile _ move_path chunks \<Rightarrow>
               (case unified_diff_from_chunks pp fs path chunks w of
                  None \<Rightarrow> None
                | Some (Inl e) \<Rightarrow> Some (Inl e)
                | Some (Inr u) \<Rightarrow>
                    (case move_path of
                       None \<Rightarrow> Some (Inr (AList.update path (ProposedUpdate (fu_unified_diff u) None (fu_content u)) cs))
                     | Some dest \<Rightarrow>
                         (case uri_join (pp_paths pp) effective_cwd dest of
                            Inl e \<Rightarrow> Some (Inl (PathUri e))
                          | Inr dest_uri \<Rightarrow>
                              Some (Inr (AList.update path
                                (ProposedUpdate (fu_unified_diff u) (Some dest_uri) (fu_content u)) cs)))))))"

fun verify_hunks ::
  "patch_params \<Rightarrow> 'w file_system \<Rightarrow> str \<Rightarrow> 'w \<Rightarrow> hunk list \<Rightarrow> (str \<times> proposed_change) list \<Rightarrow>
   (apply_patch_error + (str \<times> proposed_change) list) option" where
  "verify_hunks pp fs effective_cwd w [] cs = Some (Inr cs)"
| "verify_hunks pp fs effective_cwd w (h # hs) cs =
     (case verify_hunk pp fs effective_cwd w h cs of
        Some (Inr cs') \<Rightarrow> verify_hunks pp fs effective_cwd w hs cs'
      | r \<Rightarrow> r)"

definition try_verify_apply_patch_args ::
  "patch_params \<Rightarrow> 'w file_system \<Rightarrow> apply_patch_args \<Rightarrow> str \<Rightarrow> 'w \<Rightarrow> (apply_patch_error + apply_patch_action) option" where
  "try_verify_apply_patch_args pp fs args cwd w =
     (case (case args_workdir args of None \<Rightarrow> Inr cwd | Some dir \<Rightarrow> uri_join (pp_paths pp) cwd dir) of
        Inl e \<Rightarrow> Some (Inl (PathUri e))
      | Inr effective_cwd \<Rightarrow>
          map_option (map_sum id (\<lambda>cs. \<lparr>action_changes = cs, action_patch = args_patch args, action_cwd = effective_cwd\<rparr>))
            (verify_hunks pp fs effective_cwd w (args_hunks args) []))"

definition verify_apply_patch_args ::
  "patch_params \<Rightarrow> 'w file_system \<Rightarrow> apply_patch_args \<Rightarrow> str \<Rightarrow> 'w \<Rightarrow> verified_patch option" where
  "verify_apply_patch_args pp fs args cwd w =
     map_option (case_sum CorrectnessError VerifiedBody) (try_verify_apply_patch_args pp fs args cwd w)"

definition maybe_parse_apply_patch_verified ::
  "patch_params \<Rightarrow> 'w file_system \<Rightarrow> str list \<Rightarrow> str \<Rightarrow> 'w \<Rightarrow> verified_patch option" where
  "maybe_parse_apply_patch_verified pp fs argv cwd w =
     (if (case argv of [body] \<Rightarrow> is_ok (parse_patch body) | _ \<Rightarrow> False)
      then Some (CorrectnessError ImplicitInvocation)
      else if (case parse_shell_script pp argv cwd of Some (_, script) \<Rightarrow> is_ok (parse_patch script) | None \<Rightarrow> False)
      then Some (CorrectnessError ImplicitInvocation)
      else (case maybe_parse_apply_patch pp argv cwd of
              PatchBody args \<Rightarrow> verify_apply_patch_args pp fs args cwd w
            | PatchShellError e \<Rightarrow> Some (VerifiedShellError e)
            | PatchParseError e \<Rightarrow> Some (CorrectnessError (ParseError e))
            | NotApplyPatch \<Rightarrow> Some VerifiedNotApplyPatch))"

section \<open>Assessing a patch\<close>

definition PATCH_REJECTED_OUTSIDE_PROJECT_REASON :: str where
  "PATCH_REJECTED_OUTSIDE_PROJECT_REASON = lit ''writing outside of the project; rejected by user approval settings''"

definition PATCH_REJECTED_READ_ONLY_REASON :: str where
  "PATCH_REJECTED_READ_ONLY_REASON = lit ''writing is blocked by read-only sandbox; rejected by user approval settings''"

datatype safety_check = AutoApprove sandbox_type bool | AskUser | RejectPatch str

fun normalize_lexically :: "str list \<Rightarrow> str list \<Rightarrow> str list" where
  "normalize_lexically out [] = out"
| "normalize_lexically out (c # cs) =
     normalize_lexically (if c = lit ''..'' then butlast out else if c = lit ''.'' then out else out @ [c]) cs"

definition is_patch_path_writable :: "patch_params \<Rightarrow> fs_view \<Rightarrow> sandbox_policy \<Rightarrow> str \<Rightarrow> str \<Rightarrow> bool" where
  "is_patch_path_writable pp fv p native_cwd path =
     (case pp_abs_path pp path of
        None \<Rightarrow> False
      | Some native \<Rightarrow> can_write_path_with_cwd fv p (render_absolute (normalize_lexically [] native)) native_cwd)"

definition is_write_patch_constrained_to_writable_paths ::
  "patch_params \<Rightarrow> fs_view \<Rightarrow> apply_patch_action \<Rightarrow> sandbox_policy \<Rightarrow> str \<Rightarrow> bool" where
  "is_write_patch_constrained_to_writable_paths pp fv action p cwd =
     (if has_full_disk_write_access p then True
      else (case pp_abs_path pp cwd of
              None \<Rightarrow> False
            | Some native_cwd \<Rightarrow>
                (let writable = is_patch_path_writable pp fv p (render_absolute native_cwd)
                 in list_all (\<lambda>(path, change).
                      writable path \<and>
                      (case change of ProposedUpdate _ (Some dest) _ \<Rightarrow> writable dest | _ \<Rightarrow> True))
                    (action_changes action))))"

definition patch_rejection_reason :: "patch_params \<Rightarrow> fs_view \<Rightarrow> permission_profile \<Rightarrow> sandbox_policy \<Rightarrow> str \<Rightarrow> str" where
  "patch_rejection_reason pp fv profile p cwd =
     (let has_no_writable_roots = is_some_and (\<lambda>cwd. get_writable_roots_with_cwd fv p (render_absolute cwd) = [])
            (pp_abs_path pp cwd)
      in case profile of
           ManagedProfile _ _ \<Rightarrow>
             if \<not> has_full_disk_write_access p \<and> has_no_writable_roots then PATCH_REJECTED_READ_ONLY_REASON
             else PATCH_REJECTED_OUTSIDE_PROJECT_REASON
         | _ \<Rightarrow> PATCH_REJECTED_OUTSIDE_PROJECT_REASON)"

definition rejects_sandbox_approval :: "ask_for_approval \<Rightarrow> bool" where
  "rejects_sandbox_approval policy \<longleftrightarrow>
     (case policy of NeverAsk \<Rightarrow> True | Granular g \<Rightarrow> \<not> granular_sandbox_approval g | _ \<Rightarrow> False)"

definition assess_patch_safety ::
  "patch_params \<Rightarrow> fs_view \<Rightarrow> target_os \<Rightarrow> apply_patch_action \<Rightarrow> ask_for_approval \<Rightarrow> permission_profile \<Rightarrow> sandbox_policy \<Rightarrow>
   str \<Rightarrow> windows_sandbox_level \<Rightarrow> safety_check" where
  "assess_patch_safety pp fv os action policy profile p cwd level =
     (if action_changes action = [] then RejectPatch (lit ''empty patch'')
      else if policy = UnlessTrusted then AskUser
      else if is_write_patch_constrained_to_writable_paths pp fv action p cwd then
        (case profile of
           ManagedProfile _ _ \<Rightarrow>
             (case get_platform_sandbox os (level \<noteq> WindowsDisabled) of
                Some sandbox_type \<Rightarrow> AutoApprove sandbox_type False
              | None \<Rightarrow> if rejects_sandbox_approval policy
                        then RejectPatch (patch_rejection_reason pp fv profile p cwd) else AskUser)
         | _ \<Rightarrow> AutoApprove NoSandbox False)
      else if rejects_sandbox_approval policy then RejectPatch (patch_rejection_reason pp fv profile p cwd)
      else AskUser)"

text \<open>What the tool does with the assessment: delegate to the runtime with a requirement, or answer the model.\<close>

record runtime_invocation =
  inv_action :: apply_patch_action
  inv_auto_approved :: bool
  inv_requirement :: exec_approval_requirement

definition delegate_patch ::
  "patch_params \<Rightarrow> fs_view \<Rightarrow> target_os \<Rightarrow> apply_patch_action \<Rightarrow> ask_for_approval \<Rightarrow> permission_profile \<Rightarrow> sandbox_policy \<Rightarrow>
   windows_sandbox_level \<Rightarrow> str + runtime_invocation" where
  "delegate_patch pp fv os action policy profile p level =
     (case assess_patch_safety pp fv os action policy profile p (action_cwd action) level of
        AutoApprove _ user_explicitly_approved \<Rightarrow>
          Inr \<lparr>inv_action = action, inv_auto_approved = \<not> user_explicitly_approved, inv_requirement = Skip False None\<rparr>
      | AskUser \<Rightarrow> Inr \<lparr>inv_action = action, inv_auto_approved = False, inv_requirement = NeedsApproval None None\<rparr>
      | RejectPatch reason \<Rightarrow> Inl (lit ''patch rejected: '' @ reason))"

text \<open>What the user is shown.\<close>

datatype shown_change = ShownAdd str | ShownDelete str | ShownUpdate str "str option"

definition convert_apply_patch_to_protocol :: "patch_params \<Rightarrow> apply_patch_action \<Rightarrow> (str \<times> shown_change) list" where
  "convert_apply_patch_to_protocol pp action =
     foldl (\<lambda>result (path, change).
        AList.update (uri_native (pp_paths pp) path)
          (case change of
             ProposedAdd content \<Rightarrow> ShownAdd content
           | ProposedDelete content \<Rightarrow> ShownDelete content
           | ProposedUpdate unified_diff move_path _ \<Rightarrow> ShownUpdate unified_diff (map_option (uri_native (pp_paths pp)) move_path))
          result) [] (action_changes action)"

section \<open>The text of a verified patch parses to the same hunks\<close>

lemma str_lines_no_NL:
  assumes "l \<in> set (str_lines s)" shows "NL \<notin> set l"
proof -
  from assms obtain q where q: "q \<in> set (split_inclusive_nl s)" "l = strip_line_end q" by (auto simp: str_lines_def)
  from split_inclusive_pieces[OF q(1)] have ne: "q \<noteq> []" "NL \<notin> set (butlast q)" by auto
  have cr: "set (strip_cr r) \<subseteq> set r" for r by (auto simp: strip_cr_def strip_suffix_Some split: option.splits)
  show ?thesis
  proof (cases "strip_suffix q [NL]")
    case None
    then have "last q \<noteq> NL" using ne(1) by (auto simp: strip_suffix_None suffix_def) (metis append_butlast_last_id)
    moreover have "set q = insert (last q) (set (butlast q))"
      using ne(1) by (metis append_butlast_last_id list.simps(15) rotate1.simps(2) set_rotate1)
    ultimately show ?thesis using ne None by (simp add: q(2) strip_line_end_def)
  next
    case (Some r)
    then have "q = r @ [NL]" by (simp add: strip_suffix_Some)
    then have "NL \<notin> set r" using ne(2) by simp
    then show ?thesis using cr[of r] Some by (auto simp: q(2) strip_line_end_def)
  qed
qed

lemma set_join_lines: "l \<in> set ls \<Longrightarrow> set l \<subseteq> set (join sep ls)"
  by (induction sep ls rule: join.induct) auto

lemma process_lines_buffer: "process_lines p ls = (r, p') \<Longrightarrow> line_buffer p' = line_buffer p"
  by (induction ls arbitrary: p) (auto split: prod.splits sum.splits dest!: process_line_buffer)

text \<open>The parse of the lines between the two markers; the markers count only up to surrounding space.\<close>

definition parse_between :: "str list \<Rightarrow> parse_error + hunk list \<times> str option" where
  "parse_between m =
     (case process_lines (new_patch_parser\<lparr>mode := StartedPatch, line_number := 1\<rparr>) m of
        (Inl e, _) \<Rightarrow> Inl e
      | (Inr _, p) \<Rightarrow>
          (case ensure_update_hunk_is_not_empty (p\<lparr>line_number := line_number p + 1\<rparr>) END_PATCH_MARKER of
             Inl e \<Rightarrow> Inl e
           | Inr _ \<Rightarrow> Inr (hunks p, environment_id p)))"

lemma push_boundary_lines:
  assumes "trim a = BEGIN_PATCH_MARKER" "trim b = END_PATCH_MARKER" "\<forall>l\<in>set (a # m @ [b]). is_line l"
  shows "push_delta new_patch_parser (join [NL] (a # m @ [b])) =
     (case process_lines (new_patch_parser\<lparr>mode := StartedPatch, line_number := 1\<rparr>) m of
        (Inl e, p) \<Rightarrow> (Inl e, p)
      | (Inr _, p) \<Rightarrow> (Inr (hunks p), p\<lparr>line_buffer := b\<rparr>))"
proof -
  have text_eq: "join [NL] (a # m @ [b]) = unlines (a # m) @ b" using join_unlines[of "a # m" b] by simp
  have new: "line_buffer new_patch_parser = []" by (simp add: new_patch_parser_def)
  have b: "NL \<notin> set b" using assms(3) by (simp add: is_line_def)
  have first: "process_lines new_patch_parser (a # m) =
      process_lines (new_patch_parser\<lparr>mode := StartedPatch, line_number := 1\<rparr>) m"
    using assms(1) by (simp add: process_line_def new_patch_parser_def)
  show ?thesis
  proof (cases "process_lines (new_patch_parser\<lparr>mode := StartedPatch, line_number := 1\<rparr>) m")
    case (Pair r p)
    have "line_buffer p = []" using process_lines_buffer[OF Pair] by (simp add: new_patch_parser_def)
    then have "push_chars p b = (Inr (), p\<lparr>line_buffer := b\<rparr>)"
      using push_chars_buffer[OF b, of p "[]"] by simp
    then show ?thesis
      using push_chars_unlines[OF new, of "a # m" b] assms(3) Pair first
      by (auto simp: push_delta_def text_eq simp del: unlines_simps process_lines.simps split: sum.splits)
  qed
qed

lemma finish_boundary_line:
  assumes "trim b = END_PATCH_MARKER" "line_buffer p = []"
  shows "finish_parser (p\<lparr>line_buffer := b\<rparr>) =
     (case ensure_update_hunk_is_not_empty (p\<lparr>line_number := line_number p + 1\<rparr>) END_PATCH_MARKER of
        Inl e \<Rightarrow> (Inl e, p\<lparr>line_number := line_number p + 1\<rparr>)
      | Inr _ \<Rightarrow> (Inr (hunks p), p\<lparr>line_number := line_number p + 1, mode := EndedPatch\<rparr>))"
proof -
  have "b \<noteq> []" using assms(1) by (auto simp: trim_def trim_start_def marker_defs lit_simps)
  then show ?thesis
    using assms by (auto simp: finish_parser_def finish_buffer_def Let_def split: sum.splits)
qed

lemma parse_boundary_lines:
  assumes "trim a = BEGIN_PATCH_MARKER" "trim b = END_PATCH_MARKER" "\<forall>l\<in>set (a # m @ [b]). is_line l"
    and "s = join [NL] (a # m @ [b])"
  shows "(case push_delta new_patch_parser s of
       (Inl e, _) \<Rightarrow> Inl e
     | (Inr _, p1) \<Rightarrow>
         (case finish_parser p1 of
            (Inl e, _) \<Rightarrow> Inl e
          | (Inr hs, p2) \<Rightarrow>
              Inr \<lparr>args_patch = s, args_hunks = hs, args_workdir = None, args_environment_id = environment_id p2\<rparr>)) =
     map_sum id (\<lambda>(hs, eid). \<lparr>args_patch = s, args_hunks = hs, args_workdir = None, args_environment_id = eid\<rparr>)
       (parse_between m)"
proof (cases "process_lines (new_patch_parser\<lparr>mode := StartedPatch, line_number := 1\<rparr>) m")
  case (Pair r p)
  have buf: "line_buffer p = []" using process_lines_buffer[OF Pair] by (simp add: new_patch_parser_def)
  show ?thesis
    unfolding assms(4) push_boundary_lines[OF assms(1-3)] parse_between_def Pair
    using finish_boundary_line[OF assms(2) buf]
    by (cases r; cases "ensure_update_hunk_is_not_empty (p\<lparr>line_number := line_number p + 1\<rparr>) END_PATCH_MARKER")
      simp_all
qed

lemma strict_boundary_trims:
  assumes "check_patch_boundaries_strict ls = Inr ls'"
  shows "ls' = ls \<and> (\<exists>a m b. ls = a # m @ [b] \<and> trim a = BEGIN_PATCH_MARKER \<and> trim b = END_PATCH_MARKER)"
proof -
  from strict_boundaries_Inr[OF assms] obtain a m b where l: "ls' = ls" "ls = a # m @ [b]" by blast
  from assms have "trim a = BEGIN_PATCH_MARKER \<and> trim b = END_PATCH_MARKER"
    by (auto simp: l check_patch_boundaries_strict_def check_start_and_end_lines_strict_def last_opt_def
        split: if_splits sum.splits)
  with l show ?thesis by blast
qed

lemma lenient_boundary_lines:
  assumes "check_patch_boundaries_lenient ls = Inr ls'"
  shows "set ls' \<subseteq> set ls \<and> check_patch_boundaries_strict ls' = Inr ls'"
proof (cases "check_patch_boundaries_strict ls")
  case (Inr x)
  then show ?thesis using assms strict_boundary_trims[OF Inr] by (auto simp: check_patch_boundaries_lenient_def)
next
  case (Inl e)
  then obtain l1 l2 ls0 where l: "ls = l1 # l2 # ls0" "check_patch_boundaries_strict (butlast (l2 # ls0)) = Inr ls'"
    using assms by (auto simp: check_patch_boundaries_lenient_def split: list.splits if_splits)
  from strict_boundary_trims[OF l(2)] have "ls' = butlast (l2 # ls0)" by simp
  then show ?thesis using l by (auto dest: in_set_butlastD split: if_splits)
qed

lemma trim_text_lines:
  assumes "trim a \<noteq> []" "trim b \<noteq> []"
  shows "trim (a @ x @ b) = trim_start a @ x @ trim_end b"
proof -
  have a: "trim_start a \<noteq> []" using assms(1) by (auto simp: trim_def)
  have b: "\<exists>c\<in>set b. \<not> is_whitespace c"
    using assms(2) by (auto simp: trim_def trim_end_def trim_start_def dropWhile_eq_Nil_conv dest: set_dropWhileD)
  have "trim_start (a @ y) = trim_start a @ y" for y
    using a by (induction a) (auto simp: trim_start_def)
  moreover have "trim_end (y @ b) = y @ trim_end b" for y
    using b by (simp add: trim_end_def dropWhile_append) (metis set_rev)
  ultimately show ?thesis by (simp add: trim_def) (metis append.assoc)
qed

lemma trim_trims [simp]: "trim (trim_start s) = trim s" "trim (trim_end s) = trim s"
proof -
  have "trim_start (trim_start s) = trim_start s" by (simp add: trim_start_def dropWhile_idem)
  then show "trim (trim_start s) = trim s" by (simp add: trim_def)
  have e: "trim_end (trim_end x) = trim_end x" for x by (simp add: trim_end_def dropWhile_idem)
  show "trim (trim_end s) = trim s"
  proof (cases "\<exists>c\<in>set s. \<not> is_whitespace c")
    case True
    have "trim_end (trim_start s) = trim_start (trim_end s)"
      using True
    proof (induction s)
      case (Cons x s)
      show ?case
      proof (cases "is_whitespace x")
        case ws: True
        then have s: "\<exists>c\<in>set s. \<not> is_whitespace c" using Cons.prems by auto
        then have "trim_end (x # s) = x # trim_end s"
          by (auto simp: trim_end_def dropWhile_append)
        then show ?thesis using ws Cons.IH[OF s] by (simp add: trim_start_def)
      next
        case False
        then have "trim_start (x # s) = x # s" by (simp add: trim_start_def)
        moreover have "\<exists>t. trim_end (x # s) = x # t"
          using False by (auto simp: trim_end_def dropWhile_append) (metis rev_rev_ident)
        ultimately show ?thesis using False by (auto simp: trim_start_def)
      qed
    qed simp
    then show ?thesis unfolding trim_def by (metis e)
  next
    case False
    then have "trim_end s = []" "trim_start s = []"
      by (auto simp: trim_end_def trim_start_def dropWhile_eq_Nil_conv)
    then show ?thesis unfolding trim_def by (simp only:) (simp add: trim_start_def)
  qed
qed

lemma set_trims: "set (trim_start s) \<subseteq> set s" "set (trim_end s) \<subseteq> set s"
  by (auto simp: trim_start_def trim_end_def dest: set_dropWhileD)

text \<open>
  Without carriage returns, the text that a verified patch carries parses to the hunks that were verified.
\<close>

lemma parse_patch_again:
  assumes "parse_patch s = Inr args" "CR \<notin> set (args_patch args)"
  shows "\<exists>args'. parse_patch (args_patch args) = Inr args' \<and> args_hunks args' = args_hunks args \<and>
    args_environment_id args' = args_environment_id args"
proof -
  from assms(1) obtain ls where ls: "check_patch_boundaries_lenient (str_lines (trim s)) = Inr ls"
    by (auto simp: parse_patch_def parse_patch_text_def split: sum.splits)
  from lenient_boundary_lines[OF ls] have sub: "set ls \<subseteq> set (str_lines (trim s))"
    and strict: "check_patch_boundaries_strict ls = Inr ls" by auto
  from strict_boundary_trims[OF strict] obtain a m b where
    l: "ls = a # m @ [b]" "trim a = BEGIN_PATCH_MARKER" "trim b = END_PATCH_MARKER" by blast
  have first: "parse_patch s = (case push_delta new_patch_parser (join [NL] ls) of
       (Inl e, _) \<Rightarrow> Inl e
     | (Inr _, p1) \<Rightarrow>
         (case finish_parser p1 of
            (Inl e, _) \<Rightarrow> Inl e
          | (Inr hs, p2) \<Rightarrow>
              Inr \<lparr>args_patch = join [NL] ls, args_hunks = hs, args_workdir = None,
                   args_environment_id = environment_id p2\<rparr>))"
    using ls by (simp add: parse_patch_def parse_patch_text_def Let_def)
  then have patch: "args_patch args = join [NL] ls"
    using assms(1) by (auto split: prod.splits sum.splits)
  have clean: "NL \<notin> set x \<and> CR \<notin> set x" if "x \<in> set ls" for x
    using that sub str_lines_no_NL set_join_lines[OF that, of "[NL]"] assms(2) patch by auto
  let ?a = "trim_start a" and ?b = "trim_end b"
  have clean': "NL \<notin> set x \<and> CR \<notin> set x" if "x \<in> set (?a # m @ [?b])" for x
    using that clean[of a] clean[of b] clean[of x] set_trims[of a] set_trims(2)[of b] by (auto simp: l(1))
  have line: "is_line x" if "NL \<notin> set x \<and> CR \<notin> set x" for x unfolding is_line_def using that last_in_set by metis
  have lines: "\<forall>x\<in>set (a # m @ [b]). is_line x" "\<forall>x\<in>set (?a # m @ [?b]). is_line x"
    using clean clean' line l(1) by blast+
  have ne: "trim a \<noteq> []" "trim b \<noteq> []" using l(2,3) by (simp_all add: marker_defs lit_simps)
  have neb: "?b \<noteq> []" using ne(2) trim_trims(2)[of b] by (auto simp: trim_def trim_start_def)
  have j: "join [NL] (x # m @ [y]) = x @ (NL # unlines m) @ y" for x y
    using join_unlines[of "x # m" y] by simp
  have t: "trim (join [NL] ls) = join [NL] (?a # m @ [?b])"
    unfolding l(1) j by (rule trim_text_lines[OF ne(1,2)])
  have again: "str_lines (trim (join [NL] ls)) = ?a # m @ [?b]"
    unfolding t by (rule str_lines_join) (use lines neb in auto)
  have tr: "trim ?a = BEGIN_PATCH_MARKER" "trim ?b = END_PATCH_MARKER" using l by simp_all
  have second: "parse_patch (join [NL] ls) = (case push_delta new_patch_parser (join [NL] (?a # m @ [?b])) of
       (Inl e, _) \<Rightarrow> Inl e
     | (Inr _, p1) \<Rightarrow>
         (case finish_parser p1 of
            (Inl e, _) \<Rightarrow> Inl e
          | (Inr hs, p2) \<Rightarrow>
              Inr \<lparr>args_patch = join [NL] (?a # m @ [?b]), args_hunks = hs, args_workdir = None,
                   args_environment_id = environment_id p2\<rparr>))"
    using strict_boundaries[OF tr, of m]
    by (simp add: parse_patch_def parse_patch_text_def Let_def again check_patch_boundaries_lenient_def)
  show ?thesis
    using first second parse_boundary_lines[OF l(2,3) lines(1) refl] parse_boundary_lines[OF tr lines(2) refl] assms(1)
    unfolding patch l(1)
    by (cases "parse_between m") auto
qed

section \<open>The paths a patch changes\<close>

text \<open>A file system that also records every call that changes it, whether the call succeeds or fails.\<close>

datatype fs_event = Stored str | Removed str | MadeDirs str

definition logged :: "'w file_system \<Rightarrow> ('w \<times> fs_event list) file_system" where
  "logged fs =
     \<lparr>fs_read_text = (\<lambda>p w. fs_read_text fs p (fst w)),
      fs_metadata = (\<lambda>p w. fs_metadata fs p (fst w)),
      fs_write = (\<lambda>p s w. case fs_write fs p s (fst w) of (r, w') \<Rightarrow> (r, (w', snd w @ [Stored p]))),
      fs_create_dir_all = (\<lambda>p w. case fs_create_dir_all fs p (fst w) of (r, w') \<Rightarrow> (r, (w', snd w @ [MadeDirs p]))),
      fs_remove = (\<lambda>p w. case fs_remove fs p (fst w) of (r, w') \<Rightarrow> (r, (w', snd w @ [Removed p])))\<rparr>"

lemma logged_simps [simp]:
  "fs_read_text (logged fs) p w = fs_read_text fs p (fst w)"
  "fs_metadata (logged fs) p w = fs_metadata fs p (fst w)"
  "fs_write (logged fs) p s w = (case fs_write fs p s (fst w) of (r, w') \<Rightarrow> (r, (w', snd w @ [Stored p])))"
  "fs_create_dir_all (logged fs) p w = (case fs_create_dir_all fs p (fst w) of (r, w') \<Rightarrow> (r, (w', snd w @ [MadeDirs p])))"
  "fs_remove (logged fs) p w = (case fs_remove fs p (fst w) of (r, w') \<Rightarrow> (r, (w', snd w @ [Removed p])))"
  by (simp_all add: logged_def)

text \<open>A call is made for a file when it stores or removes the file or makes the directories above it.\<close>

definition event_for :: "path_ops \<Rightarrow> str \<Rightarrow> fs_event \<Rightarrow> bool" where
  "event_for ps q ev \<longleftrightarrow>
     (case ev of Stored p \<Rightarrow> p = q | Removed p \<Rightarrow> p = q | MadeDirs d \<Rightarrow> uri_parent ps q = Some d)"

definition events_for :: "path_ops \<Rightarrow> str set \<Rightarrow> fs_event set" where
  "events_for ps qs = {ev. \<exists>q\<in>qs. event_for ps q ev}"

lemma events_for_sets [simp]:
  "events_for ps {} = {}" "events_for ps (A \<union> B) = events_for ps A \<union> events_for ps B"
  "events_for ps (insert p (insert q A)) = events_for ps {p} \<union> events_for ps (insert q A)"
  by (auto simp: events_for_def)

lemma events_for_UN: "events_for ps (\<Union>x\<in>X. f x) = (\<Union>x\<in>X. events_for ps (f x))"
  by (auto simp: events_for_def)

lemma events_for_own [simp]:
  "Stored q \<in> events_for ps {q}" "Removed q \<in> events_for ps {q}" "uri_parent ps q = Some d \<Longrightarrow> MadeDirs d \<in> events_for ps {q}"
  by (simp_all add: events_for_def event_for_def)

lemma logged_reads [simp]:
  "ensure_not_directory (logged fs) p w = ensure_not_directory fs p (fst w)"
  "remove_failure_was_side_effect_free (logged fs) p x w = remove_failure_was_side_effect_free fs p x (fst w)"
  "note_existing_path (logged fs) p w ex = note_existing_path fs p (fst w) ex"
  "read_optional_file_text (logged fs) p w ex = read_optional_file_text fs p (fst w) ex"
  "derive_new_contents ps (logged fs) p chunks w = derive_new_contents ps fs p chunks (fst w)"
  by (simp_all add: ensure_not_directory_def remove_failure_was_side_effect_free_def note_existing_path_def
      read_optional_file_text_def derive_new_contents_def Let_def split: option.split)

definition forget_log :: "('w \<times> fs_event list) apply_state \<Rightarrow> 'w apply_state" where
  "forget_log st = \<lparr>world = fst (world st), delta = delta st, affected = affected st\<rparr>"

lemma forget_log_simps [simp]:
  "world (forget_log st) = fst (world st)" "delta (forget_log st) = delta st" "affected (forget_log st) = affected st"
  "forget_log (st\<lparr>world := w\<rparr>) = (forget_log st)\<lparr>world := fst w\<rparr>"
  "forget_log (st\<lparr>delta := d\<rparr>) = (forget_log st)\<lparr>delta := d\<rparr>"
  "forget_log (st\<lparr>affected := a\<rparr>) = (forget_log st)\<lparr>affected := a\<rparr>"
  "forget_log (set_exact b st) = set_exact b (forget_log st)"
  "forget_log (push_change p c st) = push_change p c (forget_log st)"
  "forget_log (push_modified p st) = push_modified p (forget_log st)"
  "forget_log (initial_state w) = initial_state (fst w)"
  by (simp_all add: forget_log_def set_exact_def push_change_def push_modified_def initial_state_def)

lemma forget_log_ifs [simp]: "forget_log (case x of None \<Rightarrow> a | Some y \<Rightarrow> b y) = (case x of None \<Rightarrow> forget_log a | Some y \<Rightarrow> forget_log (b y))"
  by (simp split: option.split)

lemma logged_write_retry:
  "map_prod id fst (write_file_with_missing_parent_retry ps (logged fs) p c w) =
     write_file_with_missing_parent_retry ps fs p c (fst w) \<and>
   (\<forall>r w'. write_file_with_missing_parent_retry ps (logged fs) p c w = (r, w') \<longrightarrow>
      set (snd w') \<subseteq> set (snd w) \<union> events_for ps {p})"
  by (auto simp: write_file_with_missing_parent_retry_def split: prod.splits sum.splits option.splits)

definition touched :: "('w \<times> fs_event list) apply_state \<Rightarrow> fs_event set" where
  "touched st = set (snd (world st))"

lemma touched_simps [simp]:
  "touched (st\<lparr>delta := d\<rparr>) = touched st" "touched (st\<lparr>affected := a\<rparr>) = touched st"
  "touched (st\<lparr>world := w\<rparr>) = set (snd w)"
  "touched (set_exact b st) = touched st" "touched (push_change p c st) = touched st"
  "touched (push_modified p st) = touched st"
  by (simp_all add: touched_def set_exact_def push_change_def push_modified_def)

text \<open>A step on the logged file system is the step on the file system itself, and logs only calls for the files given.\<close>

definition follows ::
  "path_ops \<Rightarrow> (any_error + unit) \<times> ('w \<times> fs_event list) apply_state \<Rightarrow> (any_error + unit) \<times> 'w apply_state \<Rightarrow>
   ('w \<times> fs_event list) apply_state \<Rightarrow> str set \<Rightarrow> bool" where
  "follows ps r r0 st qs \<longleftrightarrow> r0 = map_prod id forget_log r \<and> touched (snd r) \<subseteq> touched st \<union> events_for ps qs"

lemma write_retry_follows:
  assumes "write_file_with_missing_parent_retry ps (logged fs) p c w = (r, w')"
  shows "write_file_with_missing_parent_retry ps fs p c (fst w) = (r, fst w')" "set (snd w') \<subseteq> set (snd w) \<union> events_for ps {p}"
proof -
  note l = logged_write_retry[of ps fs p c w]
  from l assms show "write_file_with_missing_parent_retry ps fs p c (fst w) = (r, fst w')" by (simp add: map_prod_def)
  from l assms show "set (snd w') \<subseteq> set (snd w) \<union> events_for ps {p}" by blast
qed

lemma apply_add_follows:
  "follows ps (apply_add ps (logged fs) a p c st) (apply_add ps fs a p c (forget_log st)) st {p}"
proof -
  obtain r w where Pair: "write_file_with_missing_parent_retry ps (logged fs) p c (world st) = (r, w)" by (rule prod.exhaust)
  note l = write_retry_follows[OF Pair]
  show ?thesis
    using l Pair
    by (cases r; cases "read_optional_file_text fs p (fst (world st)) (exact (delta st))")
      (auto simp: follows_def apply_add_def Let_def touched_def[of st])
qed

lemma apply_delete_follows:
  "follows ps (apply_delete ps (logged fs) a p st) (apply_delete ps fs a p (forget_log st)) st {p}"
  by (cases "fs_remove fs p (fst (world st))"; cases "fst (fs_remove fs p (fst (world st)))";
      cases "ensure_not_directory fs p (fst (world st))"; cases "fs_read_text fs p (fst (world st))")
    (auto simp: follows_def apply_delete_def Let_def touched_def[of st] set_exact_def[of _ st] set_exact_def[of _ "forget_log st"])

lemma apply_move_follows:
  "follows ps (apply_move ps (logged fs) a p d orig new st) (apply_move ps fs a p d orig new (forget_log st)) st {p, d}"
proof -
  obtain r w where Pair: "write_file_with_missing_parent_retry ps (logged fs) d new (world st) = (r, w)" by (rule prod.exhaust)
  note l = write_retry_follows[OF Pair]
  show ?thesis
    using l Pair
    by (cases r; cases "read_optional_file_text fs d (fst (world st)) (exact (delta st))";
        cases "ensure_not_directory fs p (fst w)"; cases "fs_remove fs p (fst w)"; cases "fst (fs_remove fs p (fst w))")
      (auto simp: follows_def apply_move_def Let_def touched_def[of st] set_exact_def push_change_def push_modified_def)
qed

lemma follows_unchanged: "follows ps (r, st) (r, forget_log st) st qs"
  by (simp add: follows_def)

lemma set_exact_touched_follows: "follows ps r r0 (set_exact b st) qs \<Longrightarrow> follows ps r r0 st qs"
  by (simp add: follows_def)

definition join_target :: "path_ops \<Rightarrow> str \<Rightarrow> str \<Rightarrow> str set" where
  "join_target ps cwd p = (case uri_join ps cwd p of Inr uri \<Rightarrow> {uri} | Inl _ \<Rightarrow> {})"

definition hunk_targets :: "path_ops \<Rightarrow> str \<Rightarrow> hunk \<Rightarrow> str set" where
  "hunk_targets ps cwd h =
     join_target ps cwd (hunk_source_path h) \<union>
     (case h of UpdateFile _ (Some dest) _ \<Rightarrow> join_target ps cwd dest | _ \<Rightarrow> {})"

lemma apply_update_follows:
  "follows ps (apply_update ps (logged fs) cwd a p mv chunks st) (apply_update ps fs cwd a p mv chunks (forget_log st)) st
     ({p} \<union> (case mv of Some dest \<Rightarrow> join_target ps cwd dest | None \<Rightarrow> {}))"
proof -
  let ?st1 = "set_exact (note_existing_path fs p (fst (world st)) (exact (delta st))) st"
  have w: "world ?st1 = world st" by (simp add: set_exact_def)
  show ?thesis
  proof (cases "derive_new_contents ps fs p chunks (fst (world st))")
    case (Inl e)
    then show ?thesis by (auto simp: apply_update_def Let_def w follows_def)
  next
    case (Inr on)
    obtain orig new where on: "on = (orig, new)" by (cases on)
    show ?thesis
    proof (cases mv)
      case None
      then show ?thesis using Inr on
        by (cases "fs_write fs p new (fst (world st))"; cases "fst (fs_write fs p new (fst (world st)))")
          (auto simp: apply_update_def Let_def w follows_def touched_def[of st] set_exact_def push_change_def push_modified_def)
    next
      case (Some dest)
      show ?thesis
      proof (cases "uri_join ps cwd dest")
        case (Inl e)
        then show ?thesis using Inr on Some by (auto simp: apply_update_def Let_def w follows_def)
      next
        case dest: (Inr d)
        have "apply_update ps (logged fs) cwd a p mv chunks st = apply_move ps (logged fs) a p d orig new ?st1"
          "apply_update ps fs cwd a p mv chunks (forget_log st) = apply_move ps fs a p d orig new (forget_log ?st1)"
          using Inr on Some dest by (simp_all add: apply_update_def Let_def w)
        then show ?thesis
          using set_exact_touched_follows[OF apply_move_follows[of ps fs a p d orig new ?st1]] Some dest
          by (simp add: join_target_def Un_commute)
      qed
    qed
  qed
qed

lemma apply_hunk_follows:
  "follows ps (apply_hunk ps (logged fs) cwd h st) (apply_hunk ps fs cwd h (forget_log st)) st (hunk_targets ps cwd h)"
proof (cases "uri_join ps cwd (hunk_source_path h)")
  case (Inl e)
  then show ?thesis by (simp add: apply_hunk_def follows_def)
next
  case (Inr p)
  then show ?thesis
    using apply_add_follows[of ps fs] apply_delete_follows[of ps fs] apply_update_follows[of ps fs cwd]
    by (cases h) (auto simp: apply_hunk_def hunk_targets_def join_target_def split: option.split)
qed

lemma apply_hunk_loop_follows:
  "follows ps (apply_hunk_loop ps (logged fs) cwd hs st) (apply_hunk_loop ps fs cwd hs (forget_log st)) st
     (\<Union>h\<in>set hs. hunk_targets ps cwd h)"
proof (induction hs arbitrary: st)
  case (Cons h hs)
  obtain r st' where h: "apply_hunk ps (logged fs) cwd h st = (r, st')" by (rule prod.exhaust)
  from apply_hunk_follows[of ps fs cwd h st] h
  have s: "apply_hunk ps fs cwd h (forget_log st) = (r, forget_log st')" "touched st' \<subseteq> touched st \<union> events_for ps (hunk_targets ps cwd h)"
    by (auto simp: follows_def)
  show ?case
    using s(2) Cons.IH[of st'] by (cases r) (auto simp: h s(1) follows_def)
qed (simp add: follows_def)

lemma logged_patch_targets:
  assumes "apply_patch ps (logged fs) out err cwd patch (w, []) = (r, (w', calls), o', e')"
    and "parse_patch patch = Inr args"
  shows "set calls \<subseteq> events_for ps (\<Union>h\<in>set (args_hunks args). hunk_targets ps cwd h)"
    "apply_patch ps fs out err cwd patch w = (r, w', o', e')"
proof -
  let ?hs = "args_hunks args"
  obtain r1 st where st: "apply_hunks_to_files ps (logged fs) cwd ?hs (w, []) = (r1, st)" by (rule prod.exhaust)
  have sim: "apply_hunks_to_files ps fs cwd ?hs w = (r1, forget_log st)"
    and sub: "touched st \<subseteq> events_for ps (\<Union>h\<in>set ?hs. hunk_targets ps cwd h)"
    using st apply_hunk_loop_follows[of ps fs cwd ?hs "initial_state (w, [])"]
    by (auto simp: apply_hunks_to_files_def follows_def split: if_splits)
      (auto simp: touched_def initial_state_def)
  have world: "world st = (w', calls)"
    using assms st by (auto simp: apply_patch_def apply_hunks_def split: sum.splits prod.splits)
  from world sub show "set calls \<subseteq> events_for ps (\<Union>h\<in>set ?hs. hunk_targets ps cwd h)" by (simp add: touched_def)
  show "apply_patch ps fs out err cwd patch w = (r, w', o', e')"
    using assms st sim world by (auto simp: apply_patch_def apply_hunks_def split: sum.splits prod.splits)
qed

section \<open>What verification lists\<close>

fun change_destinations :: "proposed_change \<Rightarrow> str set" where
  "change_destinations (ProposedUpdate _ (Some dest) _) = {dest}"
| "change_destinations _ = {}"

definition hunk_key :: "patch_params \<Rightarrow> str \<Rightarrow> hunk \<Rightarrow> str + str" where
  "hunk_key pp cwd h = uri_join (pp_paths pp) cwd (hunk_source_path h)"

lemma verify_hunk_change:
  assumes "verify_hunk pp fs cwd w h cs = Some (Inr cs')"
  shows "\<exists>path change. hunk_key pp cwd h = Inr path \<and> cs' = AList.update path change cs \<and>
    hunk_targets (pp_paths pp) cwd h = insert path (change_destinations change)"
  using assms
  by (auto simp: verify_hunk_def hunk_key_def hunk_targets_def join_target_def
      split: sum.splits hunk.splits option.splits)

lemma verify_hunks_changes:
  assumes "verify_hunks pp fs cwd w hs cs = Some (Inr cs')" "distinct (map (hunk_key pp cwd) hs)"
  shows "(\<forall>q. Inr q \<notin> hunk_key pp cwd ` set hs \<longrightarrow> map_of cs' q = map_of cs q) \<and>
    (\<forall>h\<in>set hs. \<exists>path change. map_of cs' path = Some change \<and>
       hunk_targets (pp_paths pp) cwd h = insert path (change_destinations change))"
  using assms
proof (induction hs arbitrary: cs)
  case (Cons h hs)
  from Cons.prems(1) obtain c1 where c1: "verify_hunk pp fs cwd w h cs = Some (Inr c1)"
    "verify_hunks pp fs cwd w hs c1 = Some (Inr cs')" by (auto split: option.splits sum.splits)
  from verify_hunk_change[OF c1(1)] obtain path change where
    h: "hunk_key pp cwd h = Inr path" "c1 = AList.update path change cs"
      "hunk_targets (pp_paths pp) cwd h = insert path (change_destinations change)" by blast
  have ih: "\<forall>q. Inr q \<notin> hunk_key pp cwd ` set hs \<longrightarrow> map_of cs' q = map_of c1 q"
    "\<forall>h\<in>set hs. \<exists>path change. map_of cs' path = Some change \<and>
       hunk_targets (pp_paths pp) cwd h = insert path (change_destinations change)"
    using Cons.IH[OF c1(2)] Cons.prems(2) by auto
  have "Inr path \<notin> hunk_key pp cwd ` set hs" using Cons.prems(2) h(1) by auto
  then have "map_of cs' path = Some change" using ih(1) by (simp add: h(2) update_conv')
  then have "\<exists>path change. map_of cs' path = Some change \<and>
       hunk_targets (pp_paths pp) cwd h = insert path (change_destinations change)" using h(3) by blast
  moreover have "map_of cs' q = map_of cs q" if "Inr q \<notin> hunk_key pp cwd ` set (h # hs)" for q
    using that ih(1) h(1) by (auto simp: h(2) update_conv')
  ultimately show ?case using ih(2) by auto
qed simp

lemma map_sum_InrD: "map_sum f g z = Inr y \<Longrightarrow> \<exists>x. z = Inr x \<and> y = g x"
  by (cases z) auto

lemma verified_body:
  assumes "maybe_parse_apply_patch_verified pp fs argv cwd w = Some (VerifiedBody action)"
  shows "\<exists>s args. parse_patch s = Inr args \<and> action_patch action = args_patch args \<and>
    verify_hunks pp fs (action_cwd action) w (args_hunks args) [] = Some (Inr (action_changes action))"
proof -
  from assms obtain args where body: "maybe_parse_apply_patch pp argv cwd = PatchBody args"
    and v: "verify_apply_patch_args pp fs args cwd w = Some (VerifiedBody action)"
    by (auto simp: maybe_parse_apply_patch_verified_def split: if_splits maybe_apply_patch.splits)
  from body obtain s src where s: "parse_patch s = Inr src" "args_patch src = args_patch args" "args_hunks src = args_hunks args"
    by (fastforce simp: maybe_parse_apply_patch_def Let_def
        split: option.splits prod.splits sum.splits heredoc_error.splits list.splits if_splits)
  have "case_sum CorrectnessError VerifiedBody z = VerifiedBody action \<Longrightarrow> z = Inr action" for z
    by (cases z) auto
  with v have "try_verify_apply_patch_args pp fs args cwd w = Some (Inr action)"
    by (auto simp: verify_apply_patch_args_def)
  then have "action_patch action = args_patch args \<and>
      verify_hunks pp fs (action_cwd action) w (args_hunks args) [] = Some (Inr (action_changes action))"
    by (auto simp: try_verify_apply_patch_args_def dest!: map_sum_InrD split: sum.splits option.splits)
  then show ?thesis using s by metis
qed

lemma constrained_changes:
  assumes "is_write_patch_constrained_to_writable_paths pp fv action p cwd" "\<not> has_full_disk_write_access p"
    and "map_of (action_changes action) path = Some change"
  shows "\<exists>native_cwd. pp_abs_path pp cwd = Some native_cwd \<and>
    (\<forall>q\<in>insert path (change_destinations change). is_patch_path_writable pp fv p (render_absolute native_cwd) q)"
proof -
  from assms(1,2) obtain native_cwd where n: "pp_abs_path pp cwd = Some native_cwd"
    "\<forall>(path, change)\<in>set (action_changes action). is_patch_path_writable pp fv p (render_absolute native_cwd) path \<and>
       (case change of ProposedUpdate _ (Some dest) _ \<Rightarrow> is_patch_path_writable pp fv p (render_absolute native_cwd) dest
        | _ \<Rightarrow> True)"
    by (auto simp: is_write_patch_constrained_to_writable_paths_def list_all_iff Let_def split: option.splits)
  from bspec[OF n(2) map_of_SomeD[OF assms(3)]] n(1) show ?thesis
    by (cases change rule: change_destinations.cases) auto
qed

text \<open>
  C3. An automatically approved patch stays within the writable paths. Take a patch that was verified, whose hunks name
  distinct files and whose text holds no carriage return, and that is approved without a question. Applying its
  text later, whatever the file system holds by then, makes only calls for files that
  the policy lets be written, unless the policy opens the whole disk: it writes or removes such a file, or makes the
  directory right above one. And the settings did not ask for every patch to be
  shown, and a managed profile gets the sandbox of the platform.
\<close>
theorem auto_approved_patch_stays_writable:
  assumes "maybe_parse_apply_patch_verified pp fs argv cwd w = Some (VerifiedBody action)"
    and "parse_patch (action_patch action) = Inr args" "distinct (map (hunk_key pp (action_cwd action)) (args_hunks args))"
    and "CR \<notin> set (action_patch action)"
    and "assess_patch_safety pp fv os action policy profile p (action_cwd action) level = AutoApprove sandbox_type user_approved"
    and "apply_patch (pp_paths pp) (logged fs') out err (action_cwd action) (action_patch action) (w', []) =
           (r, (w'', calls), o', e')"
  shows "policy \<noteq> UnlessTrusted \<and>
    (\<forall>ev\<in>set calls. \<exists>q. event_for (pp_paths pp) q ev \<and>
       (has_full_disk_write_access p \<or>
        (\<exists>native_cwd. pp_abs_path pp (action_cwd action) = Some native_cwd \<and>
           is_patch_path_writable pp fv p (render_absolute native_cwd) q))) \<and>
    (case profile of ManagedProfile _ _ \<Rightarrow> get_platform_sandbox os (level \<noteq> WindowsDisabled) = Some sandbox_type
     | _ \<Rightarrow> sandbox_type = NoSandbox)"
proof -
  from verified_body[OF assms(1)] obtain s args0 where
    s: "parse_patch s = Inr args0" "action_patch action = args_patch args0"
      "verify_hunks pp fs (action_cwd action) w (args_hunks args0) [] = Some (Inr (action_changes action))" by blast
  have same: "args_hunks args = args_hunks args0"
    using parse_patch_again[OF s(1)] assms(2,4) s(2) by auto
  have calls: "set calls \<subseteq> events_for (pp_paths pp) (\<Union>h\<in>set (args_hunks args). hunk_targets (pp_paths pp) (action_cwd action) h)"
    by (rule logged_patch_targets(1)[OF assms(6,2)])
  have constrained: "is_write_patch_constrained_to_writable_paths pp fv action p (action_cwd action)"
    and rest: "policy \<noteq> UnlessTrusted"
      "case profile of ManagedProfile _ _ \<Rightarrow> get_platform_sandbox os (level \<noteq> WindowsDisabled) = Some sandbox_type
       | _ \<Rightarrow> sandbox_type = NoSandbox"
    using assms(5) by (auto simp: assess_patch_safety_def split: if_splits permission_profile.splits option.splits)
  have "\<exists>native_cwd. pp_abs_path pp (action_cwd action) = Some native_cwd \<and>
      is_patch_path_writable pp fv p (render_absolute native_cwd) q"
    if "h \<in> set (args_hunks args0)" "q \<in> hunk_targets (pp_paths pp) (action_cwd action) h" "\<not> has_full_disk_write_access p" for h q
  proof -
    from verify_hunks_changes[OF s(3)] assms(3) that(1) obtain path change where
      c: "map_of (action_changes action) path = Some change"
        "hunk_targets (pp_paths pp) (action_cwd action) h = insert path (change_destinations change)"
      unfolding same by blast
    show ?thesis using constrained_changes[OF constrained that(3) c(1)] that(2) c(2) by blast
  qed
  note writable = this
  have "\<exists>q. event_for (pp_paths pp) q ev \<and> (has_full_disk_write_access p \<or>
      (\<exists>native_cwd. pp_abs_path pp (action_cwd action) = Some native_cwd \<and>
         is_patch_path_writable pp fv p (render_absolute native_cwd) q))" if "ev \<in> set calls" for ev
  proof -
    from that calls same obtain h q where
      q: "h \<in> set (args_hunks args0)" "q \<in> hunk_targets (pp_paths pp) (action_cwd action) h" "event_for (pp_paths pp) q ev"
      by (auto simp: events_for_def)
    show ?thesis using q(3) writable[OF q(1,2)] by blast
  qed
  then show ?thesis using rest by blast
qed

section \<open>Instances\<close>

definition example_patch_params :: patch_params where
  "example_patch_params =
     \<lparr>pp_paths = \<lparr>uri_join = (\<lambda>b p. Inr (if starts_with p [47] then p else b @ [47] @ p)), uri_parent = (\<lambda>p. None),
                  uri_native = (\<lambda>p. p)\<rparr>,
      pp_convention = (\<lambda>_. Some Posix), pp_abs_path = (\<lambda>p. Some (normalized_components p)),
      pp_unified_diff = (\<lambda>_ _ _. []), pp_query = (\<lambda>_. Inr [])\<rparr>"

definition repo_policy :: sandbox_policy where
  "repo_policy = restricted [new_entry (ConcretePath REPO) AccessWrite]"

definition repo_profile :: permission_profile where
  "repo_profile = ManagedProfile (ManagedRestricted (policy_entries repo_policy) None) NetworkRestricted"

definition add_line :: update_file_chunk where
  "add_line = \<lparr>change_context = None, old_lines = [], new_lines = [lit ''x''], is_end_of_file = False\<rparr>"

definition moving_hunks :: "hunk list" where
  "moving_hunks = [UpdateFile (lit ''a'') (Some (lit ''/etc/x'')) [add_line], AddFile (lit ''a'') (lit ''y'' @ [NL])]"

lemma example_join [simp]:
  "uri_join (pp_paths example_patch_params) (lit ''/repo'') (lit ''a'') = Inr (lit ''/repo/a'')"
  "uri_join (pp_paths example_patch_params) (lit ''/repo'') (lit ''/etc/x'') = Inr (lit ''/etc/x'')"
  by code_simp+

lemma example_writable:
  "is_patch_path_writable example_patch_params example_view repo_policy (render_absolute REPO) (lit ''/repo/a'')"
  "\<not> is_patch_path_writable example_patch_params example_view repo_policy (render_absolute REPO) (lit ''/etc/x'')"
  "pp_abs_path example_patch_params (lit ''/repo'') = Some REPO"
  "\<not> has_full_disk_write_access repo_policy"
  by code_simp+

lemma example_not_shell: "parse_shell_script example_patch_params [a, b] cwd = None"
  by (simp add: parse_shell_script_def example_patch_params_def)

lemma example_body:
  assumes "env_renderable None" "list_all hunk_renderable hs"
    and "verify_hunks example_patch_params fs cwd w hs [] = Some (Inr cs)"
  shows "maybe_parse_apply_patch_verified example_patch_params fs [lit ''apply_patch'', render_patch None hs] cwd w =
    Some (VerifiedBody \<lparr>action_changes = cs, action_patch = render_patch None hs, action_cwd = cwd\<rparr>)"
  using parse_render_patch[OF assms(1,2)] assms(3)
  by (simp add: maybe_parse_apply_patch_verified_def example_not_shell maybe_parse_apply_patch_def
      APPLY_PATCH_COMMANDS_def verify_apply_patch_args_def try_verify_apply_patch_args_def Let_def)

definition old_world :: "str \<Rightarrow> str option" where "old_world = Map.empty(lit ''/repo/a'' \<mapsto> lit ''old'')"

lemma moving_renderable: "env_renderable None" "list_all hunk_renderable moving_hunks"
  by (simp_all add: env_renderable_def moving_hunks_def add_line_def header_text_def trimmed_def trimmed_end_def is_whitespace_def lit_simps
      chunk_renderable_def chunk_is_empty_def is_line_def)

lemma moving_verified:
  "verify_hunks example_patch_params mem_fs (lit ''/repo'') old_world moving_hunks [] =
     Some (Inr [(lit ''/repo/a'', ProposedAdd (lit ''y'' @ [NL]))])"
  by code_simp

lemma moving_runs:
  "map_prod is_ok (snd \<circ> world) (apply_hunks_to_files (pp_paths example_patch_params) (logged mem_fs) (lit ''/repo'') moving_hunks
     (old_world, [])) = (True, [Stored (lit ''/etc/x''), Removed (lit ''/repo/a''), Stored (lit ''/repo/a'')])"
  by code_simp


definition quiet :: line_writer where "quiet = (\<lambda>_. Inr ())"

lemma quiet_simp [simp]: "quiet l = Inr ()"
  by (simp add: quiet_def)

lemma write_lines_quiet [simp]: "write_lines quiet ls = (Inr (), ls)"
  by (induction ls) simp_all

lemma apply_patch_quiet:
  assumes "parse_patch patch = Inr args" "apply_hunks_to_files ps fs cwd (args_hunks args) w = (Inr (), st)"
  shows "\<exists>o'. apply_patch ps fs quiet quiet cwd patch w = (Inr (delta st), world st, o', [])"
  using assms by (simp add: apply_patch_def apply_hunks_def print_summary_def)

lemma map_prod_ok: "map_prod is_ok (snd \<circ> world) x = (True, l) \<Longrightarrow> \<exists>st. x = (Inr (), st) \<and> snd (world st) = l"
  by (cases x; cases "fst x") auto

lemma example_approved:
  "assess_patch_safety example_patch_params example_view Linux
     \<lparr>action_changes = [(lit ''/repo/a'', ProposedAdd t)], action_patch = patch, action_cwd = lit ''/repo''\<rparr> OnRequest repo_profile
     repo_policy (lit ''/repo'') WindowsDisabled = AutoApprove LinuxSeccomp False"
  using example_writable
  by (simp add: assess_patch_safety_def is_write_patch_constrained_to_writable_paths_def Let_def repo_profile_def)

text \<open>
  The changes are keyed by the path that a hunk names, so a later hunk on the same path replaces the earlier one, its
  move destination included. This patch is approved without a question under a policy that opens only the
  repository, the change shown for it is an added file, and applying it writes outside.
\<close>
lemma repeated_path_hides_destination:
  "\<exists>action r w'' calls o' e'.
     maybe_parse_apply_patch_verified example_patch_params mem_fs [lit ''apply_patch'', render_patch None moving_hunks] (lit ''/repo'')
       old_world = Some (VerifiedBody action) \<and>
     assess_patch_safety example_patch_params example_view Linux action OnRequest repo_profile repo_policy (action_cwd action)
       WindowsDisabled = AutoApprove LinuxSeccomp False \<and>
     convert_apply_patch_to_protocol example_patch_params action = [(lit ''/repo/a'', ShownAdd (lit ''y'' @ [NL]))] \<and>
     apply_patch (pp_paths example_patch_params) (logged mem_fs) quiet quiet (action_cwd action) (action_patch action)
       (old_world, []) = (r, (w'', calls), o', e') \<and>
     Stored (lit ''/etc/x'') \<in> set calls \<and>
     \<not> is_patch_path_writable example_patch_params example_view repo_policy (render_absolute REPO) (lit ''/etc/x'')"
proof -
  let ?a = "\<lparr>action_changes = [(lit ''/repo/a'', ProposedAdd (lit ''y'' @ [NL]))], action_patch = render_patch None moving_hunks,
      action_cwd = lit ''/repo''\<rparr>"
  note v = example_body[OF moving_renderable moving_verified]
  from map_prod_ok[OF moving_runs] obtain st where
    st: "apply_hunks_to_files (pp_paths example_patch_params) (logged mem_fs) (lit ''/repo'') moving_hunks (old_world, []) = (Inr (), st)"
      "snd (world st) = [Stored (lit ''/etc/x''), Removed (lit ''/repo/a''), Stored (lit ''/repo/a'')]" by blast
  from apply_patch_quiet[OF parse_render_patch[OF moving_renderable], of "pp_paths example_patch_params" "logged mem_fs"
      "lit ''/repo''" "(old_world, [])" st] st(1) obtain o' where
    "apply_patch (pp_paths example_patch_params) (logged mem_fs) quiet quiet (action_cwd ?a) (action_patch ?a) (old_world, []) =
      (Inr (delta st), (fst (world st), snd (world st)), o', [])" by auto
  moreover have "convert_apply_patch_to_protocol example_patch_params ?a = [(lit ''/repo/a'', ShownAdd (lit ''y'' @ [NL]))]"
    by (simp add: convert_apply_patch_to_protocol_def) (simp add: example_patch_params_def)
  ultimately show ?thesis
    using v example_approved example_writable(2) st(2) by (metis apply_patch_action.select_convs(3) list.set_intros(1))
qed

definition adding_hunks :: "hunk list" where
  "adding_hunks = [AddFile (lit ''a'') (lit ''y'' @ [NL])]"

lemma adding_renderable: "env_renderable None" "list_all hunk_renderable adding_hunks"
  by (simp_all add: env_renderable_def adding_hunks_def header_text_def trimmed_def trimmed_end_def is_whitespace_def lit_simps is_line_def)

lemma adding_runs:
  "map_prod is_ok (snd \<circ> world) (apply_hunks_to_files (pp_paths example_patch_params) (logged mem_fs) (lit ''/repo'') adding_hunks
     (Map.empty, [])) = (True, [Stored (lit ''/repo/a'')])"
  "verify_hunks example_patch_params mem_fs (lit ''/repo'') old_world adding_hunks [] =
     Some (Inr [(lit ''/repo/a'', ProposedAdd (lit ''y'' @ [NL]))])"
  by code_simp+

lemma adding_no_CR: "list_all (\<lambda>c. c \<noteq> CR) (render_patch None adding_hunks)"
  by code_simp

theorem auto_approved_patch_stays_writable_witness:
  "is_patch_path_writable example_patch_params example_view repo_policy (render_absolute REPO) (lit ''/repo/a'')"
proof -
  let ?a = "\<lparr>action_changes = [(lit ''/repo/a'', ProposedAdd (lit ''y'' @ [NL]))], action_patch = render_patch None adding_hunks,
      action_cwd = lit ''/repo''\<rparr>"
  note v = example_body[OF adding_renderable adding_runs(2)]
  note p = parse_render_patch[OF adding_renderable]
  from map_prod_ok[OF adding_runs(1)] obtain st where
    st: "apply_hunks_to_files (pp_paths example_patch_params) (logged mem_fs) (lit ''/repo'') adding_hunks (Map.empty, []) = (Inr (), st)"
      "snd (world st) = [Stored (lit ''/repo/a'')]" by blast
  from apply_patch_quiet[OF p, of "pp_paths example_patch_params" "logged mem_fs" "lit ''/repo''" "(Map.empty, [])" st] st
  obtain o' where run: "apply_patch (pp_paths example_patch_params) (logged mem_fs) quiet quiet (action_cwd ?a) (action_patch ?a)
      (Map.empty, []) = (Inr (delta st), (fst (world st), [Stored (lit ''/repo/a'')]), o', [])" by (metis apply_patch_action.select_convs(2,3) apply_patch_args.select_convs(2) prod.collapse)
  let ?args = "\<lparr>args_patch = render_patch None adding_hunks, args_hunks = adding_hunks, args_workdir = None, args_environment_id = None\<rparr>"
  have h: "parse_patch (action_patch ?a) = Inr ?args"
    "distinct (map (hunk_key example_patch_params (action_cwd ?a)) (args_hunks ?args))"
    "CR \<notin> set (action_patch ?a)"
    "assess_patch_safety example_patch_params example_view Linux ?a OnRequest repo_profile repo_policy (action_cwd ?a) WindowsDisabled
     = AutoApprove LinuxSeccomp False"
    using p example_approved adding_no_CR by (auto simp: list_all_iff) (simp add: adding_hunks_def)
  from auto_approved_patch_stays_writable[OF v h run] example_writable show ?thesis by (auto simp: event_for_def)
qed

end
