(* ===== verification/Orchestrator.thy ===== *)
theory Orchestrator
  imports NetRuntime PatchSafety
begin

text \<open>
  How a tool call is approved, sandboxed and retried: \<open>core/src/tools/orchestrator.rs\<close> with the reviews of
  \<open>approvals.rs\<close>, the shared choices and the cache of \<open>sandboxing.rs\<close>, the shell and the patch runtime, and the part of the shell
  handler that turns a call into a requirement. A run is a function of a tool, a session and a turn
  over an arbitrary state of the world; it records the reviews and attempts in order. The theorems speak about that record:
  what precedes an attempt, when the sandbox may be left, and what a shell command or a patch goes through on the whole way.
\<close>

section \<open>Decisions of a review\<close>

datatype network_rule_action = NetworkRuleAllow | NetworkRuleDeny

datatype review_decision =
    Approved
  | ApprovedExecpolicyAmendment "str list"
  | ApprovedForSession
  | NetworkPolicyAmendment str network_rule_action
  | DeniedReview str
  | ReviewTimedOut
  | Abort

datatype approval_protocol = ApproveHttp | ApproveHttps | ApproveSocks5Tcp | ApproveSocks5Udp

record network_approval_context =
  nac_host :: str
  nac_protocol :: approval_protocol

record decision_payload =
  dp_decision :: network_policy_decision
  dp_source :: decision_source
  dp_protocol :: "approval_protocol option"
  dp_host :: "str option"

definition is_ask_from_decider :: "decision_payload \<Rightarrow> bool" where
  "is_ask_from_decider payload \<longleftrightarrow> dp_decision payload = PolicyAsk \<and> dp_source payload = Decider"

definition network_approval_context_from_payload :: "decision_payload \<Rightarrow> network_approval_context option" where
  "network_approval_context_from_payload payload =
     (if \<not> is_ask_from_decider payload then None
      else (case dp_protocol payload of
              None \<Rightarrow> None
            | Some protocol \<Rightarrow>
                (case dp_host payload of
                   None \<Rightarrow> None
                 | Some h \<Rightarrow>
                     (let host = trim h in if host = [] then None else Some \<lparr>nac_host = host, nac_protocol = protocol\<rparr>))))"

text \<open>The errors of a tool; a sandbox denial carries the output and the proxy's decision.\<close>

datatype codex_error = SandboxDenied str "decision_payload option" | SandboxTimeout | SandboxSignal int | OtherCodex str

datatype tool_error = Rejected str | CodexErr codex_error

datatype resolution_source = FromHook | FromGuardian | FromUser

definition GUARDIAN_TIMEOUT_INSTRUCTIONS :: str where
  "GUARDIAN_TIMEOUT_INSTRUCTIONS =
     lit ''The automatic permission approval review did not finish before its deadline. '' @
     lit ''Do not assume the action is unsafe based on the timeout alone. '' @
     lit ''You may retry once, or ask the user for guidance or explicit approval.''"

fun into_tool_result :: "resolution_source \<Rightarrow> review_decision \<Rightarrow> tool_error + review_decision" where
  "into_tool_result src (NetworkPolicyAmendment host NetworkRuleDeny) =
     Inl (Rejected (case src of
       FromHook \<Rightarrow> lit ''rejected by configuration''
     | FromGuardian \<Rightarrow> lit ''automatic approval review denied the action''
     | FromUser \<Rightarrow> lit ''rejected by user''))"
| "into_tool_result src (DeniedReview rejection) = Inl (Rejected rejection)"
| "into_tool_result src ReviewTimedOut = Inl (Rejected GUARDIAN_TIMEOUT_INSTRUCTIONS)"
| "into_tool_result src Abort = Inl (Rejected (lit ''approval request aborted''))"
| "into_tool_result src d = Inr d"

section \<open>Requirements and sandbox choices shared by the tools\<close>

definition default_exec_approval_requirement :: "ask_for_approval \<Rightarrow> sandbox_policy \<Rightarrow> exec_approval_requirement" where
  "default_exec_approval_requirement policy p =
     (let needs_approval =
        (case policy of
           NeverAsk \<Rightarrow> False
         | OnRequest \<Rightarrow> policy_kind p = RestrictedKind
         | Granular _ \<Rightarrow> policy_kind p = RestrictedKind
         | UnlessTrusted \<Rightarrow> True)
      in if needs_approval \<and> (case policy of Granular g \<Rightarrow> \<not> granular_sandbox_approval g | _ \<Rightarrow> False)
         then ForbiddenRequirement (lit ''approval policy disallowed sandbox approval prompt'')
         else if needs_approval then NeedsApproval None None
         else Skip False None)"

datatype sandbox_override = NoOverride | BypassSandboxFirstAttempt

definition unsandboxed_execution_allowed :: "sandbox_policy \<Rightarrow> bool" where
  "unsandboxed_execution_allowed p \<longleftrightarrow> \<not> has_denied_read_restrictions p"

definition sandbox_override_for_first_attempt ::
  "sandbox_permissions \<Rightarrow> exec_approval_requirement \<Rightarrow> sandbox_policy \<Rightarrow> sandbox_override" where
  "sandbox_override_for_first_attempt sp requirement p =
     (if \<not> unsandboxed_execution_allowed p then NoOverride
      else if (case requirement of Skip True _ \<Rightarrow> True | _ \<Rightarrow> False) then BypassSandboxFirstAttempt
      else if requires_escalated_permissions sp then BypassSandboxFirstAttempt
      else NoOverride)"

definition sandbox_permissions_preserving_denied_reads :: "sandbox_permissions \<Rightarrow> sandbox_policy \<Rightarrow> sandbox_permissions" where
  "sandbox_permissions_preserving_denied_reads sp p =
     (if requires_escalated_permissions sp \<and> \<not> unsandboxed_execution_allowed p then UseDefault else sp)"

definition managed_network_for_sandbox_permissions :: "'n option \<Rightarrow> sandbox_permissions \<Rightarrow> 'n option" where
  "managed_network_for_sandbox_permissions network sp = (if requires_escalated_permissions sp then None else network)"

text \<open>The answers that \<open>Approvable\<close> gives unless a tool overrides them, and the overrides of the patch tool.\<close>

definition should_bypass_approval :: "ask_for_approval \<Rightarrow> bool \<Rightarrow> bool" where
  "should_bypass_approval policy already_approved = (if already_approved then True else policy = NeverAsk)"

fun wants_no_sandbox_approval :: "ask_for_approval \<Rightarrow> bool" where
  "wants_no_sandbox_approval UnlessTrusted = True"
| "wants_no_sandbox_approval NeverAsk = False"
| "wants_no_sandbox_approval OnRequest = False"
| "wants_no_sandbox_approval (Granular g) = granular_sandbox_approval g"

fun patch_wants_no_sandbox_approval :: "ask_for_approval \<Rightarrow> bool" where
  "patch_wants_no_sandbox_approval NeverAsk = False"
| "patch_wants_no_sandbox_approval (Granular g) = granular_sandbox_approval g"
| "patch_wants_no_sandbox_approval OnRequest = True"
| "patch_wants_no_sandbox_approval UnlessTrusted = True"

section \<open>The cache of approvals\<close>

text \<open>The store maps serialized keys to decisions; a key that does not serialize is neither found nor stored.\<close>

type_synonym approval_store = "str \<rightharpoonup> review_decision"

definition store_get :: "('k \<Rightarrow> str option) \<Rightarrow> approval_store \<Rightarrow> 'k \<Rightarrow> review_decision option" where
  "store_get json store key = Option.bind (json key) store"

definition store_put :: "('k \<Rightarrow> str option) \<Rightarrow> 'k \<Rightarrow> review_decision \<Rightarrow> approval_store \<Rightarrow> approval_store" where
  "store_put json key d store = (case json key of Some s \<Rightarrow> store(s \<mapsto> d) | None \<Rightarrow> store)"

definition with_cached_approval ::
  "('k \<Rightarrow> str option) \<Rightarrow> 'k list \<Rightarrow> ('w \<Rightarrow> review_decision \<times> 'w) \<Rightarrow> approval_store \<Rightarrow> 'w \<Rightarrow>
   review_decision \<times> approval_store \<times> 'w" where
  "with_cached_approval json keys fetch store w =
     (if keys = [] then (case fetch w of (d, w') \<Rightarrow> (d, store, w'))
      else if list_all (\<lambda>key. store_get json store key = Some ApprovedForSession) keys then (ApprovedForSession, store, w)
      else (case fetch w of
              (d, w') \<Rightarrow>
                (d, if d = ApprovedForSession then fold (\<lambda>key. store_put json key ApprovedForSession) keys store else store, w')))"

section \<open>The orchestrator\<close>

record sandbox_attempt =
  att_sandbox :: sandbox_type
  att_sandbox_requested :: bool
  att_permissions :: permission_profile
  att_enforce_managed_network :: bool
  att_linux_sandbox_exe :: "str option"
  att_windows_sandbox_level :: windows_sandbox_level

text \<open>
  A tool is what \<open>ToolRuntime\<close> asks of it for one request, a session what the orchestrator calls in it, over
  an arbitrary state \<open>'w\<close> of the world. Workspace roots are those with a path on this host.
\<close>

record ('w, 'out) tool_runtime =
  t_workspace_roots :: "abs_path list"
  t_sandbox_permissions :: sandbox_permissions
  t_requirement :: "exec_approval_requirement option"
  t_preference :: sandboxable_preference
  t_escalate_on_failure :: bool
  t_should_bypass_approval :: "ask_for_approval \<Rightarrow> bool \<Rightarrow> bool"
  t_wants_no_sandbox_approval :: "ask_for_approval \<Rightarrow> bool"
  t_has_hook_payload :: bool
  t_has_guardian_action :: bool
  t_start_approval :: "str option \<Rightarrow> network_approval_context option \<Rightarrow> 'w \<Rightarrow> review_decision \<times> 'w"
  t_run :: "sandbox_attempt \<Rightarrow> 'w \<Rightarrow> (tool_error + 'out) \<times> 'w"

datatype hook_decision = HookAllow | HookDeny str

datatype network_approval_mode = ImmediateApproval | DeferredApproval

record 'w session_services =
  s_hooks :: "str \<Rightarrow> 'w \<Rightarrow> hook_decision option \<times> 'w"
  s_guardian :: "str option \<Rightarrow> 'w \<Rightarrow> review_decision \<times> 'w"
  s_begin_network :: "bool \<Rightarrow> 'w \<Rightarrow> (tool_error + network_approval_mode option) \<times> 'w"
  s_finish_network :: "'w \<Rightarrow> (tool_error + unit) \<times> 'w"

record turn_context =
  turn_permission_profile :: permission_profile
  turn_has_network :: bool
  turn_strict_auto_review :: bool
  turn_routes_to_guardian :: bool
  turn_windows_sandbox_level :: windows_sandbox_level
  turn_linux_sandbox_exe :: "str option"
  turn_call_id :: str

text \<open>What happens, in order: a review that was resolved and recorded, and an attempt of the tool.\<close>

datatype orch_event = Reviewed resolution_source review_decision | Attempted sandbox_attempt

record 'w orch_state =
  orch_world :: 'w
  orch_events :: "orch_event list"

definition record_event :: "orch_event \<Rightarrow> 'w orch_state \<Rightarrow> 'w orch_state" where
  "record_event e st = st\<lparr>orch_events := orch_events st @ [e]\<rparr>"

datatype approval_reviewer = GuardianReviewer | UserReviewer

definition reviewer_for_turn :: "turn_context \<Rightarrow> approval_reviewer" where
  "reviewer_for_turn turn = (if turn_routes_to_guardian turn then GuardianReviewer else UserReviewer)"

definition record_and_resolve ::
  "resolution_source \<Rightarrow> review_decision \<Rightarrow> 'w orch_state \<Rightarrow> (tool_error + review_decision) \<times> 'w orch_state" where
  "record_and_resolve src d st = (into_tool_result src d, record_event (Reviewed src d) st)"

definition resolve_tool_approval ::
  "'w session_services \<Rightarrow> ('w, 'out) tool_runtime \<Rightarrow> str \<Rightarrow> str option \<Rightarrow> network_approval_context option \<Rightarrow>
   approval_reviewer \<Rightarrow> 'w orch_state \<Rightarrow> (tool_error + review_decision) \<times> 'w orch_state" where
  "resolve_tool_approval svc tool run_id reason context reviewer st =
     (let (hook, st) =
        (if t_has_hook_payload tool
         then (case s_hooks svc run_id (orch_world st) of (h, w) \<Rightarrow> (h, st\<lparr>orch_world := w\<rparr>))
         else (None, st))
      in case hook of
           Some HookAllow \<Rightarrow> record_and_resolve FromHook Approved st
         | Some (HookDeny message) \<Rightarrow> record_and_resolve FromHook (DeniedReview message) st
         | None \<Rightarrow>
             (case reviewer of
                GuardianReviewer \<Rightarrow>
                  if \<not> t_has_guardian_action tool
                  then record_and_resolve FromGuardian
                         (DeniedReview (lit ''automatic approval review could not prepare the action'')) st
                  else (case s_guardian svc reason (orch_world st) of
                          (d, w) \<Rightarrow> record_and_resolve FromGuardian d (st\<lparr>orch_world := w\<rparr>))
              | UserReviewer \<Rightarrow>
                  (case t_start_approval tool reason context (orch_world st) of
                     (d, w) \<Rightarrow> record_and_resolve FromUser d (st\<lparr>orch_world := w\<rparr>))))"

text \<open>One attempt; the result says whether a network approval stays open.\<close>

definition run_attempt ::
  "'w session_services \<Rightarrow> ('w, 'out) tool_runtime \<Rightarrow> sandbox_attempt \<Rightarrow> bool \<Rightarrow> 'w orch_state \<Rightarrow>
   (tool_error + 'out) \<times> bool \<times> 'w orch_state" where
  "run_attempt svc tool attempt managed_network_active st =
     (case s_begin_network svc managed_network_active (orch_world st) of
        (Inl err, w) \<Rightarrow> (Inl err, False, st\<lparr>orch_world := w\<rparr>)
      | (Inr network_approval, w) \<Rightarrow>
          (case t_run tool attempt w of
             (run_result, w) \<Rightarrow>
               (let st = record_event (Attempted attempt) (st\<lparr>orch_world := w\<rparr>)
                in case network_approval of
                     None \<Rightarrow> (run_result, False, st)
                   | Some ImmediateApproval \<Rightarrow>
                       (case s_finish_network svc w of
                          (Inl err, w) \<Rightarrow> (Inl err, False, st\<lparr>orch_world := w\<rparr>)
                        | (Inr _, w) \<Rightarrow> (run_result, False, st\<lparr>orch_world := w\<rparr>))
                   | Some DeferredApproval \<Rightarrow>
                       (case run_result of
                          Inl _ \<Rightarrow>
                            (case s_finish_network svc w of
                               (Inl err, w) \<Rightarrow> (Inl err, False, st\<lparr>orch_world := w\<rparr>)
                             | (Inr _, w) \<Rightarrow> (run_result, False, st\<lparr>orch_world := w\<rparr>))
                        | Inr _ \<Rightarrow> (run_result, True, st)))))"


text \<open>The first stage: the outcome is whether an approval was given already.\<close>

definition approval_stage ::
  "'w session_services \<Rightarrow> ('w, 'out) tool_runtime \<Rightarrow> turn_context \<Rightarrow> exec_approval_requirement \<Rightarrow> 'w orch_state \<Rightarrow>
   (tool_error + bool) \<times> 'w orch_state" where
  "approval_stage svc tool turn requirement st =
     (case requirement of
        Skip _ _ \<Rightarrow>
          if turn_strict_auto_review turn
          then (case resolve_tool_approval svc tool (turn_call_id turn) None None GuardianReviewer st of
                  (Inl e, st) \<Rightarrow> (Inl e, st)
                | (Inr _, st) \<Rightarrow> (Inr True, st))
          else (Inr False, st)
      | ForbiddenRequirement reason \<Rightarrow> (Inl (Rejected reason), st)
      | NeedsApproval reason _ \<Rightarrow>
          (case resolve_tool_approval svc tool (turn_call_id turn) reason None
                  (if turn_strict_auto_review turn then GuardianReviewer else reviewer_for_turn turn) st of
             (Inl e, st) \<Rightarrow> (Inl e, st)
           | (Inr _, st) \<Rightarrow> (Inr True, st)))"

definition make_attempt ::
  "target_os \<Rightarrow> ('w, 'out) tool_runtime \<Rightarrow> turn_context \<Rightarrow> permission_profile \<Rightarrow> bool \<Rightarrow> str option \<Rightarrow> sandbox_attempt" where
  "make_attempt os tool turn permissions sandbox_requested linux_exe =
     \<lparr>att_sandbox = (if sandbox_requested
        then select_initial os permissions (t_preference tool) (turn_windows_sandbox_level turn) (turn_has_network turn)
        else NoSandbox),
      att_sandbox_requested = sandbox_requested, att_permissions = permissions,
      att_enforce_managed_network = turn_has_network turn, att_linux_sandbox_exe = linux_exe,
      att_windows_sandbox_level = turn_windows_sandbox_level turn\<rparr>"

definition initial_attempt ::
  "target_os \<Rightarrow> ('w, 'out) tool_runtime \<Rightarrow> turn_context \<Rightarrow> permission_profile \<Rightarrow> exec_approval_requirement \<Rightarrow> sandbox_attempt" where
  "initial_attempt os tool turn permissions requirement =
     make_attempt os tool turn permissions
       (case sandbox_override_for_first_attempt (t_sandbox_permissions tool) requirement (file_system_sandbox_policy permissions) of
          BypassSandboxFirstAttempt \<Rightarrow> False
        | NoOverride \<Rightarrow> should_sandbox permissions (t_preference tool) (turn_has_network turn))
       (turn_linux_sandbox_exe turn)"

definition retry_attempt :: "target_os \<Rightarrow> ('w, 'out) tool_runtime \<Rightarrow> turn_context \<Rightarrow> permission_profile \<Rightarrow> sandbox_attempt" where
  "retry_attempt os tool turn permissions =
     (let unsandboxed_allowed = unsandboxed_execution_allowed (file_system_sandbox_policy permissions)
      in make_attempt os tool turn permissions
           (\<not> unsandboxed_allowed \<and> should_sandbox permissions (t_preference tool) (turn_has_network turn))
           (if unsandboxed_allowed then None else turn_linux_sandbox_exe turn))"

definition retry_network_context :: "turn_context \<Rightarrow> decision_payload option \<Rightarrow> network_approval_context option" where
  "retry_network_context turn payload =
     (if turn_has_network turn then Option.bind payload network_approval_context_from_payload else None)"

text \<open>The early returns between a denial by the sandbox and the second attempt, in the order of the code.\<close>

definition retry_refused ::
  "('w, 'out) tool_runtime \<Rightarrow> ask_for_approval \<Rightarrow> sandbox_policy \<Rightarrow> decision_payload option \<Rightarrow> network_approval_context option \<Rightarrow> bool" where
  "retry_refused tool policy p payload context =
     (if payload \<noteq> None \<and> context = None then True
      else if \<not> t_escalate_on_failure tool then True
      else if \<not> t_wants_no_sandbox_approval tool policy \<and>
              \<not> (policy = OnRequest \<and> context \<noteq> None \<and>
                 (case default_exec_approval_requirement policy p of NeedsApproval _ _ \<Rightarrow> True | _ \<Rightarrow> False)) then True
      else \<not> unsandboxed_execution_allowed p \<and> context = None)"

definition retry_reason :: "network_approval_context option \<Rightarrow> str" where
  "retry_reason context =
     (case context of
        Some c \<Rightarrow> lit ''Network access to '' @ [34] @ nac_host c @ [34] @ lit '' is blocked by policy.''
      | None \<Rightarrow> lit ''command failed; retry without sandbox?'')"

definition retry_stage ::
  "'w session_services \<Rightarrow> ('w, 'out) tool_runtime \<Rightarrow> turn_context \<Rightarrow> ask_for_approval \<Rightarrow> bool \<Rightarrow> network_approval_context option \<Rightarrow>
   'w orch_state \<Rightarrow> (tool_error + unit) \<times> 'w orch_state" where
  "retry_stage svc tool turn policy already_approved context st =
     (let bypass_retry_approval = \<not> turn_strict_auto_review turn \<and> t_should_bypass_approval tool policy already_approved \<and> context = None
      in if bypass_retry_approval then (Inr (), st)
         else (case resolve_tool_approval svc tool (turn_call_id turn @ lit '':retry'') (Some (retry_reason context)) context
                      (if turn_strict_auto_review turn then GuardianReviewer else reviewer_for_turn turn) st of
                 (Inl e, st) \<Rightarrow> (Inl e, st)
               | (Inr _, st) \<Rightarrow> (Inr (), st)))"

definition tool_requirement :: "('w, 'out) tool_runtime \<Rightarrow> ask_for_approval \<Rightarrow> sandbox_policy \<Rightarrow> exec_approval_requirement" where
  "tool_requirement tool policy p =
     (case t_requirement tool of Some r \<Rightarrow> r | None \<Rightarrow> default_exec_approval_requirement policy p)"

definition run_with_permissions ::
  "target_os \<Rightarrow> 'w session_services \<Rightarrow> ('w, 'out) tool_runtime \<Rightarrow> turn_context \<Rightarrow> ask_for_approval \<Rightarrow> permission_profile \<Rightarrow>
   'w orch_state \<Rightarrow> (tool_error + 'out \<times> bool) \<times> 'w orch_state" where
  "run_with_permissions os svc tool turn policy permissions st =
     (let p = file_system_sandbox_policy permissions;
          requirement = tool_requirement tool policy p
      in case approval_stage svc tool turn requirement st of
           (Inl e, st) \<Rightarrow> (Inl e, st)
         | (Inr already_approved, st) \<Rightarrow>
             (case run_attempt svc tool (initial_attempt os tool turn permissions requirement) (turn_has_network turn) st of
                (Inr out, deferred, st) \<Rightarrow> (Inr (out, deferred), st)
              | (Inl err, _, st) \<Rightarrow>
                  (case err of
                     CodexErr (SandboxDenied output payload) \<Rightarrow>
                       (let context = retry_network_context turn payload
                        in if retry_refused tool policy p payload context then (Inl err, st)
                           else (case retry_stage svc tool turn policy already_approved context st of
                                   (Inl e, st) \<Rightarrow> (Inl e, st)
                                 | (Inr _, st) \<Rightarrow>
                                     (case run_attempt svc tool (retry_attempt os tool turn permissions) (turn_has_network turn) st of
                                        (Inr out, deferred, st) \<Rightarrow> (Inr (out, deferred), st)
                                      | (Inl e, _, st) \<Rightarrow> (Inl e, st))))
                   | _ \<Rightarrow> (Inl err, st))))"

text \<open>The value \<open>None\<close> is the panic of materializing a profile.\<close>

definition run_tool ::
  "target_os \<Rightarrow> fs_view \<Rightarrow> 'w session_services \<Rightarrow> ('w, 'out) tool_runtime \<Rightarrow> turn_context \<Rightarrow> ask_for_approval \<Rightarrow> 'w orch_state \<Rightarrow>
   ((tool_error + 'out \<times> bool) \<times> 'w orch_state) option" where
  "run_tool os fv svc tool turn policy st =
     map_option (\<lambda>permissions. run_with_permissions os svc tool turn policy permissions st)
       (profile_materialize_project_roots fv (turn_permission_profile turn) (t_workspace_roots tool))"

section \<open>What a run records\<close>

fun accepted :: "review_decision \<Rightarrow> bool" where
  "accepted (NetworkPolicyAmendment _ NetworkRuleDeny) = False"
| "accepted (DeniedReview _) = False"
| "accepted ReviewTimedOut = False"
| "accepted Abort = False"
| "accepted _ = True"

lemma into_tool_result_Inr: "into_tool_result src d = Inr d' \<longleftrightarrow> accepted d \<and> d' = d"
  by (cases "(src, d)" rule: into_tool_result.cases) auto

lemma into_tool_result_Inl: "into_tool_result src d = Inl e \<Longrightarrow> \<not> accepted d \<and> (\<exists>reason. e = Rejected reason)"
  by (cases "(src, d)" rule: into_tool_result.cases) auto

lemma record_event_simps [simp]:
  "orch_events (record_event e st) = orch_events st @ [e]" "orch_world (record_event e st) = orch_world st"
  by (simp_all add: record_event_def)

lemma resolve_tool_approval_events:
  assumes "resolve_tool_approval svc tool run_id reason context reviewer st = (r, st')"
  shows "\<exists>src d. orch_events st' = orch_events st @ [Reviewed src d] \<and>
    (case r of Inl e \<Rightarrow> \<not> accepted d \<and> (\<exists>reason. e = Rejected reason) | Inr _ \<Rightarrow> accepted d)"
proof -
  have "\<exists>src d. orch_events st' = orch_events st @ [Reviewed src d] \<and> r = into_tool_result src d"
    using assms
    by (auto simp: resolve_tool_approval_def record_and_resolve_def Let_def
        split: if_splits prod.splits option.splits hook_decision.splits approval_reviewer.splits)
  then obtain src d where e: "orch_events st' = orch_events st @ [Reviewed src d]" "r = into_tool_result src d" by blast
  then show ?thesis
    using into_tool_result_Inr[of src d] into_tool_result_Inl[of src d] by (auto split: sum.split)
qed

lemma run_attempt_events:
  assumes "run_attempt svc tool a managed st = (r, deferred, st')"
  shows "orch_events st' = orch_events st @ [Attempted a] \<or> orch_events st' = orch_events st \<and> (\<exists>e. r = Inl e)"
  using assms
  by (auto simp: run_attempt_def Let_def
      split: sum.splits prod.splits option.splits network_approval_mode.splits)

text \<open>The reviews that a stage adds: none, or one; one that is not accepted ends the run.\<close>

definition reviewed :: "orch_event list \<Rightarrow> bool \<Rightarrow> bool" where
  "reviewed es ok \<longleftrightarrow> es = [] \<and> ok \<or> (\<exists>src d. es = [Reviewed src d] \<and> (accepted d \<longleftrightarrow> ok))"

lemma approval_stage_events:
  assumes "approval_stage svc tool turn requirement st = (r, st')"
  obtains es where "orch_events st' = orch_events st @ es"
    "case r of
       Inr already \<Rightarrow> reviewed es True \<and> (already \<longleftrightarrow> es \<noteq> []) \<and>
         (case requirement of Skip _ _ \<Rightarrow> already = turn_strict_auto_review turn | NeedsApproval _ _ \<Rightarrow> already | _ \<Rightarrow> False)
     | Inl e \<Rightarrow> (\<exists>reason. e = Rejected reason) \<and>
         (case requirement of ForbiddenRequirement _ \<Rightarrow> es = [] | _ \<Rightarrow> es \<noteq> [] \<and> reviewed es False)"
proof -
  have res: "\<exists>es. orch_events st' = orch_events st @ es \<and>
      (case r of Inr already \<Rightarrow> reviewed es True \<and> es \<noteq> [] \<and> already
       | Inl e \<Rightarrow> (\<exists>reason. e = Rejected reason) \<and> es \<noteq> [] \<and> reviewed es False)"
    if "(case resolve_tool_approval svc tool run_id reason nctx reviewer st of
          (Inl e, st) \<Rightarrow> (Inl e, st) | (Inr _, st) \<Rightarrow> (Inr True, st)) = (r, st')" for run_id reason nctx reviewer
  proof (cases "resolve_tool_approval svc tool run_id reason nctx reviewer st")
    case (Pair x st1)
    from resolve_tool_approval_events[OF Pair] obtain src d where
      "orch_events st1 = orch_events st @ [Reviewed src d]"
      "case x of Inl e \<Rightarrow> \<not> accepted d \<and> (\<exists>reason. e = Rejected reason) | Inr _ \<Rightarrow> accepted d" by blast
    then show ?thesis using that by (cases x) (auto simp: Pair reviewed_def)
  qed
  show thesis
  proof (cases requirement)
    case (Skip bypass a)
    show thesis
    proof (cases "turn_strict_auto_review turn")
      case True
      with assms Skip res[of "turn_call_id turn" None None GuardianReviewer] obtain es where
        "orch_events st' = orch_events st @ es"
        "case r of Inr already \<Rightarrow> reviewed es True \<and> es \<noteq> [] \<and> already
         | Inl e \<Rightarrow> (\<exists>reason. e = Rejected reason) \<and> es \<noteq> [] \<and> reviewed es False" by (auto simp: approval_stage_def)
      then show thesis using True Skip by (intro that[of es]) (auto split: sum.splits)
    next
      case False
      then show thesis using assms Skip by (intro that[of "[]"]) (auto simp: approval_stage_def reviewed_def)
    qed
  next
    case (NeedsApproval reason a)
    with assms res[of "turn_call_id turn" reason None
        "if turn_strict_auto_review turn then GuardianReviewer else reviewer_for_turn turn"] obtain es where
      "orch_events st' = orch_events st @ es"
      "case r of Inr already \<Rightarrow> reviewed es True \<and> es \<noteq> [] \<and> already
       | Inl e \<Rightarrow> (\<exists>reason. e = Rejected reason) \<and> es \<noteq> [] \<and> reviewed es False" by (auto simp: approval_stage_def)
    then show thesis using NeedsApproval by (intro that[of es]) (auto split: sum.splits)
  next
    case (ForbiddenRequirement reason)
    then show thesis using assms by (intro that[of "[]"]) (auto simp: approval_stage_def)
  qed
qed

lemma retry_stage_events:
  assumes "retry_stage svc tool turn policy already context st = (r, st')"
  obtains es where "orch_events st' = orch_events st @ es" "reviewed es (is_ok r)"
    "es = [] \<Longrightarrow> \<not> turn_strict_auto_review turn \<and> t_should_bypass_approval tool policy already \<and> context = None \<and> is_ok r"
proof (cases "\<not> turn_strict_auto_review turn \<and> t_should_bypass_approval tool policy already \<and> context = None")
  case True
  then show thesis using assms by (intro that[of "[]"]) (auto simp: retry_stage_def reviewed_def)
next
  case False
  let ?res = "resolve_tool_approval svc tool (turn_call_id turn @ lit '':retry'') (Some (retry_reason context)) context
      (if turn_strict_auto_review turn then GuardianReviewer else reviewer_for_turn turn) st"
  obtain x st1 where x: "?res = (x, st1)" by (rule prod.exhaust)
  from resolve_tool_approval_events[OF x] obtain src d where
    d: "orch_events st1 = orch_events st @ [Reviewed src d]"
      "case x of Inl e \<Rightarrow> \<not> accepted d \<and> (\<exists>reason. e = Rejected reason) | Inr _ \<Rightarrow> accepted d" by blast
  have "retry_stage svc tool turn policy already context st = (case x of Inl e \<Rightarrow> (Inl e, st1) | Inr _ \<Rightarrow> (Inr (), st1))"
    using False by (auto simp: retry_stage_def Let_def x)
  then show thesis
    using assms d by (intro that[of "[Reviewed src d]"]; cases x) (auto simp: reviewed_def)
qed

text \<open>
  The trace of a run: at most one review, at most one attempt, at most one more review and at most one more
  attempt, with what each part says about the settings.
\<close>

definition trace_parts ::
  "target_os \<Rightarrow> ('w, 'out) tool_runtime \<Rightarrow> turn_context \<Rightarrow> ask_for_approval \<Rightarrow> permission_profile \<Rightarrow>
   orch_event list \<Rightarrow> orch_event list \<Rightarrow> orch_event list \<Rightarrow> orch_event list \<Rightarrow> bool" where
  "trace_parts os tool turn policy permissions asks1 att1 asks2 att2 \<longleftrightarrow>
     (let p = file_system_sandbox_policy permissions; requirement = tool_requirement tool policy p
      in (\<exists>ok. reviewed asks1 ok \<and> (\<not> ok \<longrightarrow> att1 @ asks2 @ att2 = [])) \<and>
         (att1 = [] \<or> att1 = [Attempted (initial_attempt os tool turn permissions requirement)]) \<and>
         (\<exists>ok. reviewed asks2 ok \<and> (\<not> ok \<longrightarrow> att2 = [])) \<and>
         (att2 = [] \<or> att2 = [Attempted (retry_attempt os tool turn permissions)]) \<and>
         (case requirement of
            ForbiddenRequirement _ \<Rightarrow> asks1 @ att1 @ asks2 @ att2 = []
          | NeedsApproval _ _ \<Rightarrow> asks1 \<noteq> []
          | Skip _ _ \<Rightarrow> (asks1 \<noteq> []) = turn_strict_auto_review turn) \<and>
         (asks2 @ att2 \<noteq> [] \<longrightarrow> (\<exists>payload. \<not> retry_refused tool policy p payload (retry_network_context turn payload))) \<and>
         (att2 \<noteq> [] \<and> asks2 = [] \<longrightarrow>
            \<not> turn_strict_auto_review turn \<and> t_should_bypass_approval tool policy (asks1 \<noteq> [])))"

lemma reviewed_Nil [simp]: "reviewed [] ok = ok"
  by (auto simp: reviewed_def)

lemma run_attempt_trace:
  assumes "run_attempt svc tool a managed st = (r, deferred, st')"
  obtains att where "orch_events st' = orch_events st @ att" "att = [] \<or> att = [Attempted a]"
  using run_attempt_events[OF assms] that[of "[]"] that[of "[Attempted a]"] by auto

lemma run_trace:
  assumes "run_with_permissions os svc tool turn policy permissions st = (r, st')"
  obtains asks1 att1 asks2 att2 where "orch_events st' = orch_events st @ asks1 @ att1 @ asks2 @ att2"
    "trace_parts os tool turn policy permissions asks1 att1 asks2 att2"
proof -
  note result = that
  let ?p = "file_system_sandbox_policy permissions"
  let ?req = "tool_requirement tool policy ?p"
  let ?first = "initial_attempt os tool turn permissions ?req" and ?retry = "retry_attempt os tool turn permissions"
  obtain r1 st1 where s1: "approval_stage svc tool turn ?req st = (r1, st1)" by (rule prod.exhaust)
  from approval_stage_events[OF s1] obtain asks1 where a1: "orch_events st1 = orch_events st @ asks1" and
    c1: "case r1 of
       Inr already \<Rightarrow> reviewed asks1 True \<and> (already \<longleftrightarrow> asks1 \<noteq> []) \<and>
         (case ?req of Skip _ _ \<Rightarrow> already = turn_strict_auto_review turn | NeedsApproval _ _ \<Rightarrow> already | _ \<Rightarrow> False)
     | Inl e \<Rightarrow> (\<exists>reason. e = Rejected reason) \<and>
         (case ?req of ForbiddenRequirement _ \<Rightarrow> asks1 = [] | _ \<Rightarrow> asks1 \<noteq> [] \<and> reviewed asks1 False)" by blast
  show thesis
  proof (cases r1)
    case (Inl e)
    have skip_strict: "turn_strict_auto_review turn" if "?req = Skip b x" for b x
      using s1 Inl that by (auto simp: approval_stage_def split: if_splits)
    have "st' = st1" using assms by (simp add: run_with_permissions_def Let_def s1 Inl)
    moreover have "trace_parts os tool turn policy permissions asks1 [] [] []"
      using c1 Inl skip_strict
      by (cases ?req) (auto simp: trace_parts_def Let_def intro: exI[of _ True] exI[of _ False])
    ultimately show thesis using a1 by (intro that[of asks1 "[]" "[]" "[]"]) auto
  next
    case (Inr already)
    then have rv1: "reviewed asks1 True" and al: "already \<longleftrightarrow> asks1 \<noteq> []"
      and rq: "case ?req of ForbiddenRequirement _ \<Rightarrow> False | NeedsApproval _ _ \<Rightarrow> asks1 \<noteq> []
               | Skip _ _ \<Rightarrow> (asks1 \<noteq> []) = turn_strict_auto_review turn"
      using c1 by (auto split: exec_approval_requirement.splits)
    have parts: "trace_parts os tool turn policy permissions asks1 att1 asks2 att2"
      if "att1 = [] \<or> att1 = [Attempted ?first]" "reviewed asks2 ok" "\<not> ok \<longrightarrow> att2 = []"
        "att2 = [] \<or> att2 = [Attempted ?retry]"
        "asks2 @ att2 \<noteq> [] \<longrightarrow> (\<exists>payload. \<not> retry_refused tool policy ?p payload (retry_network_context turn payload))"
        "att2 \<noteq> [] \<and> asks2 = [] \<longrightarrow> \<not> turn_strict_auto_review turn \<and> t_should_bypass_approval tool policy already"
      for att1 asks2 att2 ok
    proof -
      have "\<exists>k. reviewed asks1 k \<and> (\<not> k \<longrightarrow> att1 @ asks2 @ att2 = [])" using rv1 by blast
      moreover have "\<exists>k. reviewed asks2 k \<and> (\<not> k \<longrightarrow> att2 = [])" using that(2,3) by blast
      moreover have "case ?req of ForbiddenRequirement _ \<Rightarrow> asks1 @ att1 @ asks2 @ att2 = [] | NeedsApproval _ _ \<Rightarrow> asks1 \<noteq> []
          | Skip _ _ \<Rightarrow> (asks1 \<noteq> []) = turn_strict_auto_review turn" using rq by (cases ?req) auto
      ultimately show ?thesis
        unfolding trace_parts_def Let_def using that(1,4,5,6) al by blast
    qed
    obtain r2 d2 st2 where s2: "run_attempt svc tool ?first (turn_has_network turn) st1 = (r2, d2, st2)" by (metis prod.exhaust)
    from run_attempt_trace[OF s2] obtain att1 where a2: "orch_events st2 = orch_events st1 @ att1"
      "att1 = [] \<or> att1 = [Attempted ?first]" by blast
    have stop: thesis if "st' = st2"
      using that a1 a2 parts[of att1 "[]" True "[]"] by (intro result[of asks1 att1 "[]" "[]"]) auto
    show thesis
    proof (cases "\<exists>out payload. r2 = Inl (CodexErr (SandboxDenied out payload)) \<and>
        \<not> retry_refused tool policy ?p payload (retry_network_context turn payload)")
      case False
      then have "st' = st2"
        using assms by (auto simp: run_with_permissions_def Let_def s1 s2 Inr split: sum.splits tool_error.splits codex_error.splits if_splits)
      then show thesis by (rule stop)
    next
      case True
      then obtain out payload where d: "r2 = Inl (CodexErr (SandboxDenied out payload))"
        "\<not> retry_refused tool policy ?p payload (retry_network_context turn payload)" by blast
      obtain r3 st3 where s3: "retry_stage svc tool turn policy already (retry_network_context turn payload) st2 = (r3, st3)"
        by (rule prod.exhaust)
      from retry_stage_events[OF s3] obtain asks2 where a3: "orch_events st3 = orch_events st2 @ asks2" "reviewed asks2 (is_ok r3)"
        "asks2 = [] \<Longrightarrow> \<not> turn_strict_auto_review turn \<and> t_should_bypass_approval tool policy already \<and>
           retry_network_context turn payload = None \<and> is_ok r3" by blast
      show thesis
      proof (cases r3)
        case (Inl e)
        then have "st' = st3" using assms d by (auto simp: run_with_permissions_def Let_def s1 s2 s3 \<open>r1 = Inr already\<close>)
        then show thesis
          using a1 a2 a3 d(2) Inl parts[of att1 asks2 False "[]"] by (intro that[of asks1 att1 asks2 "[]"]) auto
      next
        case ok: (Inr u)
        obtain r4 d4 st4 where s4: "run_attempt svc tool ?retry (turn_has_network turn) st3 = (r4, d4, st4)" by (metis prod.exhaust)
        from run_attempt_trace[OF s4] obtain att2 where a4: "orch_events st4 = orch_events st3 @ att2"
          "att2 = [] \<or> att2 = [Attempted ?retry]" by blast
        have "st' = st4"
          using assms d by (auto simp: run_with_permissions_def Let_def s1 s2 s3 s4 \<open>r1 = Inr already\<close> ok split: sum.splits)
        then show thesis
          using a1 a2 a3 a4 d(2) ok parts[of att1 asks2 True att2] by (intro that[of asks1 att1 asks2 att2]) auto
      qed
    qed
  qed
qed

section \<open>What every tool obeys\<close>

lemma trace_split:
  assumes "es = asks1 @ att1 @ asks2 @ att2" "es = pre @ Attempted a # post"
    and "asks1 = [] \<or> (\<exists>src d. asks1 = [Reviewed src d])" "asks2 = [] \<or> (\<exists>src d. asks2 = [Reviewed src d])"
    and "att1 = [] \<or> att1 = [Attempted a1]" "att2 = [] \<or> att2 = [Attempted a2]"
  shows "a = a1 \<and> pre = asks1 \<and> att1 \<noteq> [] \<or> a = a2 \<and> pre = asks1 @ att1 @ asks2 \<and> att2 \<noteq> []"
  using assms by (elim disjE exE) (auto simp: append_eq_Cons_conv Cons_eq_append_conv)

lemma review_split:
  assumes "es = asks1 @ att1 @ asks2 @ att2" "es = pre @ Reviewed src d # post"
    and "asks1 = [] \<or> (\<exists>src d. asks1 = [Reviewed src d])" "asks2 = [] \<or> (\<exists>src d. asks2 = [Reviewed src d])"
    and "att1 = [] \<or> att1 = [Attempted a1]" "att2 = [] \<or> att2 = [Attempted a2]"
  shows "asks1 = [Reviewed src d] \<and> post = att1 @ asks2 @ att2 \<or> asks2 = [Reviewed src d] \<and> post = att2"
  using assms by (elim disjE exE) (auto simp: append_eq_Cons_conv Cons_eq_append_conv)

lemma reviewed_shape: "reviewed es ok \<Longrightarrow> es = [] \<or> (\<exists>src d. es = [Reviewed src d])"
  by (auto simp: reviewed_def)

lemma trace_parts_shape:
  assumes "trace_parts os tool turn policy permissions asks1 att1 asks2 att2"
  shows "asks1 = [] \<or> (\<exists>src d. asks1 = [Reviewed src d])" "asks2 = [] \<or> (\<exists>src d. asks2 = [Reviewed src d])"
    "att1 = [] \<or> att1 = [Attempted (initial_attempt os tool turn permissions
        (tool_requirement tool policy (file_system_sandbox_policy permissions)))]"
    "att2 = [] \<or> att2 = [Attempted (retry_attempt os tool turn permissions)]"
  using assms by (auto simp: trace_parts_def Let_def dest!: reviewed_shape)

text \<open>Where an attempt stands in a trace, and that every review before it was accepted.\<close>

lemma attempt_in_trace:
  assumes "trace_parts os tool turn policy permissions asks1 att1 asks2 att2"
    and "asks1 @ att1 @ asks2 @ att2 = pre @ Attempted a # post"
  shows "(a = initial_attempt os tool turn permissions (tool_requirement tool policy (file_system_sandbox_policy permissions)) \<and>
      pre = asks1 \<or> a = retry_attempt os tool turn permissions \<and> pre = asks1 @ att1 @ asks2 \<and> att2 \<noteq> []) \<and>
    (\<forall>src d. Reviewed src d \<in> set pre \<longrightarrow> accepted d)"
proof -
  note t = trace_split[OF refl assms(2) trace_parts_shape[OF assms(1)]]
  from assms(1) obtain ok1 ok2 where ok: "reviewed asks1 ok1" "\<not> ok1 \<longrightarrow> att1 @ asks2 @ att2 = []"
    "reviewed asks2 ok2" "\<not> ok2 \<longrightarrow> att2 = []" by (auto simp: trace_parts_def Let_def)
  have att1: "Reviewed src d \<notin> set att1" for src d using trace_parts_shape(3)[OF assms(1)] by auto
  from t show ?thesis
  proof
    assume h: "a = initial_attempt os tool turn permissions (tool_requirement tool policy (file_system_sandbox_policy permissions)) \<and>
      pre = asks1 \<and> att1 \<noteq> []"
    then have "ok1" using ok(2) by auto
    then show ?thesis using h ok(1) by (auto simp: reviewed_def)
  next
    assume h: "a = retry_attempt os tool turn permissions \<and> pre = asks1 @ att1 @ asks2 \<and> att2 \<noteq> []"
    then have "ok1" "ok2" using ok(2,4) by auto
    then show ?thesis using h ok(1,3) att1 by (auto simp: reviewed_def)
  qed
qed

lemma materialized_profile:
  assumes "run_tool os fv svc tool turn policy st = Some (r, st')"
  obtains permissions where
    "profile_materialize_project_roots fv (turn_permission_profile turn) (t_workspace_roots tool) = Some permissions"
    "run_with_permissions os svc tool turn policy permissions st = (r, st')"
  using assms by (auto simp: run_tool_def)

lemma run_tool_trace:
  assumes "run_tool os fv svc tool turn policy \<lparr>orch_world = w, orch_events = []\<rparr> = Some (r, st)"
  obtains permissions asks1 att1 asks2 att2 where
    "profile_materialize_project_roots fv (turn_permission_profile turn) (t_workspace_roots tool) = Some permissions"
    "orch_events st = asks1 @ att1 @ asks2 @ att2" "trace_parts os tool turn policy permissions asks1 att1 asks2 att2"
proof -
  from materialized_profile[OF assms] obtain permissions where p:
    "profile_materialize_project_roots fv (turn_permission_profile turn) (t_workspace_roots tool) = Some permissions"
    "run_with_permissions os svc tool turn policy permissions \<lparr>orch_world = w, orch_events = []\<rparr> = (r, st)" by blast
  show thesis by (rule run_trace[OF p(2)]) (rule that[OF p(1)], simp_all)
qed

text \<open>
  C7. Nothing runs before it was approved. In a run of any tool there are at most two attempts and two reviews;
  every attempt comes after accepted reviews only, and after at least one if the requirement asks for it or
  the turn is strictly reviewed; a review that is not accepted is the last event; a forbidden
  requirement leaves no event at all and is the answer.
\<close>
theorem attempts_follow_accepted_reviews:
  assumes "run_tool os fv svc tool turn policy \<lparr>orch_world = w, orch_events = []\<rparr> = Some (r, st)"
    and "t_requirement tool = Some requirement"
  shows "length (filter (\<lambda>e. case e of Attempted _ \<Rightarrow> True | _ \<Rightarrow> False) (orch_events st)) \<le> 2 \<and>
    length (filter (\<lambda>e. case e of Reviewed _ _ \<Rightarrow> True | _ \<Rightarrow> False) (orch_events st)) \<le> 2 \<and>
    (\<forall>pre a post. orch_events st = pre @ Attempted a # post \<longrightarrow>
       (\<forall>src d. Reviewed src d \<in> set pre \<longrightarrow> accepted d) \<and>
       (turn_strict_auto_review turn \<or> (\<exists>reason x. requirement = NeedsApproval reason x) \<longrightarrow> (\<exists>src d. Reviewed src d \<in> set pre))) \<and>
    (\<forall>pre src d post. orch_events st = pre @ Reviewed src d # post \<and> \<not> accepted d \<longrightarrow> post = []) \<and>
    (\<forall>reason. requirement = ForbiddenRequirement reason \<longrightarrow> orch_events st = [] \<and> r = Inl (Rejected reason))"
proof -
  from run_tool_trace[OF assms(1)] obtain permissions asks1 att1 asks2 att2 where
    p: "profile_materialize_project_roots fv (turn_permission_profile turn) (t_workspace_roots tool) = Some permissions"
    and es: "orch_events st = asks1 @ att1 @ asks2 @ att2"
    and t: "trace_parts os tool turn policy permissions asks1 att1 asks2 att2" by blast
  have req: "tool_requirement tool policy (file_system_sandbox_policy permissions) = requirement"
    using assms(2) by (simp add: tool_requirement_def)
  note shape = trace_parts_shape[OF t, unfolded req]
  have first: "asks1 \<noteq> []" if "turn_strict_auto_review turn \<or> (\<exists>reason x. requirement = NeedsApproval reason x)"
    "asks1 @ att1 @ asks2 @ att2 \<noteq> []"
    using t that by (auto simp: trace_parts_def Let_def req split: exec_approval_requirement.splits)
  have attempts: "(\<forall>src d. Reviewed src d \<in> set pre \<longrightarrow> accepted d) \<and>
      (turn_strict_auto_review turn \<or> (\<exists>reason x. requirement = NeedsApproval reason x) \<longrightarrow> (\<exists>src d. Reviewed src d \<in> set pre))"
    if "orch_events st = pre @ Attempted a # post" for pre a post
  proof -
    from attempt_in_trace[OF t that[unfolded es]] have at: "pre = asks1 \<or> pre = asks1 @ att1 @ asks2"
      "\<forall>src d. Reviewed src d \<in> set pre \<longrightarrow> accepted d" by blast+
    have ne: "asks1 @ att1 @ asks2 @ att2 \<noteq> []" using that es by auto
    have "\<exists>src d. Reviewed src d \<in> set asks1"
      if "turn_strict_auto_review turn \<or> (\<exists>reason x. requirement = NeedsApproval reason x)"
      using first[OF that ne] shape(1) by (metis list.set_intros(1))
    moreover have "set asks1 \<subseteq> set pre" using at(1) by auto
    ultimately show ?thesis using at(2) by blast
  qed
  have rejected: "post = []" if "orch_events st = pre @ Reviewed src d # post" "\<not> accepted d" for pre src d post
  proof -
    from t obtain ok1 ok2 where ok: "reviewed asks1 ok1" "\<not> ok1 \<longrightarrow> att1 @ asks2 @ att2 = []"
      "reviewed asks2 ok2" "\<not> ok2 \<longrightarrow> att2 = []" by (auto simp: trace_parts_def Let_def)
    from review_split[OF es that(1) shape] show ?thesis
      using ok that(2) by (auto simp: reviewed_def)
  qed
  have "r = Inl (Rejected reason)" if "requirement = ForbiddenRequirement reason" for reason
    using materialized_profile[OF assms(1)] p that assms(2)
    by (auto simp: run_with_permissions_def Let_def approval_stage_def tool_requirement_def)
  then show ?thesis
    using shape attempts rejected t unfolding es by (auto simp: trace_parts_def Let_def req)
qed

lemma attempt_fields [simp]:
  "att_sandbox_requested (make_attempt os tool turn permissions b exe) = b"
  "att_permissions (make_attempt os tool turn permissions b exe) = permissions"
  by (simp_all add: make_attempt_def)

lemma attempt_of_run:
  assumes "run_tool os fv svc tool turn policy \<lparr>orch_world = w, orch_events = []\<rparr> = Some (r, st)"
    and "Attempted a \<in> set (orch_events st)"
  obtains permissions where
    "profile_materialize_project_roots fv (turn_permission_profile turn) (t_workspace_roots tool) = Some permissions"
    "a = initial_attempt os tool turn permissions (tool_requirement tool policy (file_system_sandbox_policy permissions)) \<or>
     a = retry_attempt os tool turn permissions"
proof -
  from run_tool_trace[OF assms(1)] obtain permissions asks1 att1 asks2 att2 where
    p: "profile_materialize_project_roots fv (turn_permission_profile turn) (t_workspace_roots tool) = Some permissions"
    and es: "orch_events st = asks1 @ att1 @ asks2 @ att2"
    and t: "trace_parts os tool turn policy permissions asks1 att1 asks2 att2" by blast
  from assms(2) obtain pre post where "orch_events st = pre @ Attempted a # post" by (auto simp: in_set_conv_decomp)
  from attempt_in_trace[OF t this[unfolded es]] show thesis using that[OF p] by blast
qed

text \<open>
  C4. Denied reads are never given up. If the profile of the turn denies a place and the tool does not forbid sandboxes,
  every attempt of every run, the retry included, asks for the sandbox of the platform and carries the denial, whatever
  the rules, the reviewers or the tool's own request for escalation say.
\<close>
theorem denied_reads_stay_sandboxed:
  assumes "run_tool os fv svc tool turn policy \<lparr>orch_world = w, orch_events = []\<rparr> = Some (r, st)"
    and "turn_permission_profile turn = ManagedProfile (ManagedRestricted entries depth) network"
    and "e \<in> set entries" "entry_access e = AccessDeny" "entry_path e = ConcretePath path"
    and "t_preference tool \<noteq> ForbidPreference" "Attempted a \<in> set (orch_events st)"
  shows "att_sandbox_requested a \<and> e \<in> set (policy_entries (file_system_sandbox_policy (att_permissions a))) \<and>
    (\<forall>s. get_platform_sandbox os (turn_windows_sandbox_level turn \<noteq> WindowsDisabled) = Some s \<longrightarrow> att_sandbox a = s)"
proof -
  from attempt_of_run[OF assms(1,7)] obtain permissions where
    m: "profile_materialize_project_roots fv (turn_permission_profile turn) (t_workspace_roots tool) = Some permissions"
    and a: "a = initial_attempt os tool turn permissions (tool_requirement tool policy (file_system_sandbox_policy permissions)) \<or>
      a = retry_attempt os tool turn permissions" by blast
  have "e \<in> set (materialize_entry_with_roots fv (t_workspace_roots tool) e)"
    using assms(5) by (simp add: materialize_entry_with_roots_def)
  then have e: "e \<in> set (policy_entries (file_system_sandbox_policy permissions))"
    and kind: "policy_kind (file_system_sandbox_policy permissions) = RestrictedKind"
    using m assms(2,3) by (auto simp: managed_from_sandbox_policy_def materialize_project_roots_with_workspace_roots_def)
  have sandbox: "should_sandbox permissions (t_preference tool) (turn_has_network turn)"
    by (rule denial_requires_sandbox[OF e assms(4) kind _ assms(6)]) (simp add: assms(5))
  have "\<not> unsandboxed_execution_allowed (file_system_sandbox_policy permissions)"
    using e kind assms(4) by (auto simp: unsandboxed_execution_allowed_def has_denied_read_restrictions_def list_ex_iff)
  then have "\<exists>exe. a = make_attempt os tool turn permissions True exe"
    using a sandbox by (auto simp: initial_attempt_def retry_attempt_def sandbox_override_for_first_attempt_def Let_def)
  then show ?thesis using e sandbox by (auto simp: make_attempt_def select_initial_def)
qed

section \<open>The contract of the tools\<close>

text \<open>What the orchestrator relies on in a tool: an approval that was given is not asked for again, and with
  questions switched off the tool never wants to leave the sandbox.\<close>

locale standard_tool =
  fixes tool :: "('w, 'out) tool_runtime"
  assumes bypass: "t_should_bypass_approval tool policy already \<longleftrightarrow> already \<or> policy = NeverAsk"
    and never_outside: "\<not> t_wants_no_sandbox_approval tool NeverAsk"
begin

lemma never_refuses_retry: "retry_refused tool NeverAsk p payload nctx"
  using never_outside by (auto simp: retry_refused_def)

lemma outside_sandbox:
  assumes "trace_parts os tool turn policy permissions asks1 att1 asks2 att2"
    and "asks1 @ att1 @ asks2 @ att2 = pre @ Attempted a # post"
    and "\<not> att_sandbox_requested a" "should_sandbox permissions (t_preference tool) (turn_has_network turn)"
  shows "unsandboxed_execution_allowed (file_system_sandbox_policy permissions) \<and>
    ((\<exists>x. tool_requirement tool policy (file_system_sandbox_policy permissions) = Skip True x) \<or>
     requires_escalated_permissions (t_sandbox_permissions tool) \<or> (\<exists>src d. Reviewed src d \<in> set pre \<and> accepted d))"
proof -
  let ?req = "tool_requirement tool policy (file_system_sandbox_policy permissions)"
  from attempt_in_trace[OF assms(1,2)] have at:
    "a = initial_attempt os tool turn permissions ?req \<and> pre = asks1 \<or>
     a = retry_attempt os tool turn permissions \<and> pre = asks1 @ att1 @ asks2 \<and> att2 \<noteq> []"
    and acc: "\<forall>src d. Reviewed src d \<in> set pre \<longrightarrow> accepted d" by auto
  from at show ?thesis
  proof
    assume "a = initial_attempt os tool turn permissions ?req \<and> pre = asks1"
    then show ?thesis using assms(3,4)
      by (auto simp: initial_attempt_def sandbox_override_for_first_attempt_def
          split: sandbox_override.splits if_splits exec_approval_requirement.splits bool.splits)
  next
    assume h: "a = retry_attempt os tool turn permissions \<and> pre = asks1 @ att1 @ asks2 \<and> att2 \<noteq> []"
    then have allowed: "unsandboxed_execution_allowed (file_system_sandbox_policy permissions)"
      using assms(3,4) by (auto simp: retry_attempt_def Let_def)
    have "asks1 \<noteq> [] \<or> asks2 \<noteq> []"
    proof (rule ccontr)
      assume "\<not> (asks1 \<noteq> [] \<or> asks2 \<noteq> [])"
      then have "t_should_bypass_approval tool policy False"
        "\<exists>payload. \<not> retry_refused tool policy (file_system_sandbox_policy permissions) payload (retry_network_context turn payload)"
        using assms(1) h by (auto simp: trace_parts_def Let_def)
      then show False using bypass never_refuses_retry by auto
    qed
    then have "\<exists>src d. Reviewed src d \<in> set pre"
      using h trace_parts_shape(1,2)[OF assms(1)] by (auto simp: Un_iff) (metis list.set_intros(1))+
    then show ?thesis using acc allowed by blast
  qed
qed

lemma never_asks:
  assumes "trace_parts os tool turn NeverAsk permissions asks1 att1 asks2 att2" "\<not> turn_strict_auto_review turn"
    and "\<And>reason x. tool_requirement tool NeverAsk (file_system_sandbox_policy permissions) \<noteq> NeedsApproval reason x"
  shows "asks1 = [] \<and> asks2 = [] \<and> att2 = []"
  using assms never_refuses_retry
  by (auto simp: trace_parts_def Let_def split: exec_approval_requirement.splits)

end

section \<open>The shell and the patch tool\<close>

text \<open>
  What a runtime answers for one request. The questions themselves (\<open>start_approval_async\<close>, with its cache) and the
  execution are parameters; the settings are the code's.
\<close>

definition shell_runtime ::
  "abs_path list \<Rightarrow> sandbox_permissions \<Rightarrow> exec_approval_requirement \<Rightarrow> bool \<Rightarrow>
   (str option \<Rightarrow> network_approval_context option \<Rightarrow> 'w \<Rightarrow> review_decision \<times> 'w) \<Rightarrow>
   (sandbox_attempt \<Rightarrow> 'w \<Rightarrow> (tool_error + 'out) \<times> 'w) \<Rightarrow> ('w, 'out) tool_runtime" where
  "shell_runtime roots sp requirement has_action ask execute =
     \<lparr>t_workspace_roots = roots, t_sandbox_permissions = sp, t_requirement = Some requirement,
      t_preference = AutoPreference, t_escalate_on_failure = True, t_should_bypass_approval = should_bypass_approval,
      t_wants_no_sandbox_approval = wants_no_sandbox_approval, t_has_hook_payload = True, t_has_guardian_action = has_action,
      t_start_approval = ask, t_run = execute\<rparr>"

text \<open>
  The patch tool asks with its own cache: a preapproved request is not asked about, a retry always is,
  and otherwise the paths of the patch are the keys.
\<close>

definition patch_start_approval ::
  "bool \<Rightarrow> (str \<Rightarrow> str option) \<Rightarrow> str list \<Rightarrow> (str option \<Rightarrow> 'w \<Rightarrow> review_decision \<times> 'w) \<Rightarrow>
   str option \<Rightarrow> network_approval_context option \<Rightarrow> approval_store \<times> 'w \<Rightarrow> review_decision \<times> approval_store \<times> 'w" where
  "patch_start_approval preapproved json paths request reason nctx sw =
     (case sw of (store, w) \<Rightarrow>
        if preapproved \<and> reason = None then (Approved, store, w)
        else (case reason of
                Some r \<Rightarrow> (case request (Some r) w of (d, w) \<Rightarrow> (d, store, w))
              | None \<Rightarrow> with_cached_approval json paths (request None) store w))"

definition patch_runtime ::
  "abs_path list \<Rightarrow> runtime_invocation \<Rightarrow> bool \<Rightarrow>
   (str option \<Rightarrow> network_approval_context option \<Rightarrow> 'w \<Rightarrow> review_decision \<times> 'w) \<Rightarrow>
   (sandbox_attempt \<Rightarrow> 'w \<Rightarrow> (tool_error + 'out) \<times> 'w) \<Rightarrow> ('w, 'out) tool_runtime" where
  "patch_runtime roots invocation has_action ask execute =
     \<lparr>t_workspace_roots = roots, t_sandbox_permissions = UseDefault, t_requirement = Some (inv_requirement invocation),
      t_preference = AutoPreference, t_escalate_on_failure = True, t_should_bypass_approval = should_bypass_approval,
      t_wants_no_sandbox_approval = patch_wants_no_sandbox_approval, t_has_hook_payload = True,
      t_has_guardian_action = has_action, t_start_approval = ask, t_run = execute\<rparr>"

interpretation shell: standard_tool "shell_runtime roots sp requirement has_action ask execute"
  for roots sp requirement has_action ask execute
  by unfold_locales (auto simp: shell_runtime_def should_bypass_approval_def)

interpretation patch: standard_tool "patch_runtime roots invocation has_action ask execute"
  for roots invocation has_action ask execute
  by unfold_locales (auto simp: patch_runtime_def should_bypass_approval_def)

section \<open>Permissions granted before\<close>

definition resolve_sandbox_permissions :: "sandbox_permissions option \<Rightarrow> str option \<Rightarrow> str + sandbox_permissions" where
  "resolve_sandbox_permissions sp justification =
     (if justification \<noteq> None \<and> sp = None
      then Inl (lit ''`justification` requires an explicit `sandbox_permissions`; use `sandbox_permissions: '' @ [34] @
                lit ''require_escalated'' @ [34] @ lit ''` for unsandboxed execution, or omit `justification`.'')
      else Inr (case sp of Some s \<Rightarrow> s | None \<Rightarrow> UseDefault))"

definition MSG_ADDITIONAL_DISABLED :: str where
  "MSG_ADDITIONAL_DISABLED = lit ''additional permissions are disabled; enable `features.exec_permission_approvals` before using `with_additional_permissions`''"

definition MSG_ADDITIONAL_MISSING :: str where
  "MSG_ADDITIONAL_MISSING = lit ''missing `additional_permissions`; provide at least one of `network` or `file_system` when using `with_additional_permissions`''"

definition MSG_ADDITIONAL_EMPTY :: str where
  "MSG_ADDITIONAL_EMPTY = lit ''`additional_permissions` must include at least one requested permission in `network` or `file_system`''"

definition MSG_ADDITIONAL_UNUSED :: str where
  "MSG_ADDITIONAL_UNUSED = lit ''`additional_permissions` requires `sandbox_permissions` set to `with_additional_permissions`''"

text \<open>The derived \<open>Debug\<close> text of the approval policy is a parameter of the messages.\<close>

definition msg_not_on_request :: "str \<Rightarrow> str" where
  "msg_not_on_request shown = lit ''approval policy is '' @ shown @
     lit ''; reject command '' @ [8212] @ lit '' you cannot request additional permissions unless the approval policy is OnRequest''"

definition msg_no_escalation :: "str \<Rightarrow> str" where
  "msg_no_escalation shown = lit ''approval policy is '' @ shown @ lit ''; reject command '' @ [8212] @
     lit '' you should not ask for escalated permissions if the approval policy is '' @ shown"

definition normalize_and_validate_additional_permissions ::
  "(ask_for_approval \<Rightarrow> str) \<Rightarrow> fs_view \<Rightarrow> bool \<Rightarrow> ask_for_approval \<Rightarrow> sandbox_permissions \<Rightarrow> additional_permissions option \<Rightarrow> bool \<Rightarrow>
   str + additional_permissions option" where
  "normalize_and_validate_additional_permissions show_policy fv allowed policy sp additional preapproved =
     (let uses = uses_additional_permissions sp
      in if \<not> preapproved \<and> \<not> allowed \<and> (uses \<or> additional \<noteq> None) then Inl MSG_ADDITIONAL_DISABLED
         else if uses then
           (if \<not> preapproved \<and> policy \<noteq> OnRequest then Inl (msg_not_on_request (show_policy policy))
            else (case additional of
                    None \<Rightarrow> Inl MSG_ADDITIONAL_MISSING
                  | Some a \<Rightarrow>
                      (case normalize_additional_permissions fv a of
                         Inl e \<Rightarrow> Inl e
                       | Inr normalized \<Rightarrow>
                           if additional_permissions_is_empty normalized then Inl MSG_ADDITIONAL_EMPTY
                           else Inr (Some normalized))))
         else if additional \<noteq> None then Inl MSG_ADDITIONAL_UNUSED
         else Inr None)"

record effective_permissions =
  eff_sandbox_permissions :: sandbox_permissions
  eff_additional :: "additional_permissions option"
  eff_preapproved :: bool

definition implicit_granted_permissions ::
  "sandbox_permissions \<Rightarrow> additional_permissions option \<Rightarrow> effective_permissions \<Rightarrow> additional_permissions option" where
  "implicit_granted_permissions sp additional eff =
     (if \<not> uses_additional_permissions sp \<and> sp \<noteq> RequireEscalated \<and> additional = None then eff_additional eff else None)"

text \<open>The value \<open>None\<close> is the panic of an intersection, which does not happen.\<close>

definition permissions_are_preapproved ::
  "fs_view \<Rightarrow> 'g deny_globs \<Rightarrow> additional_permissions \<Rightarrow> additional_permissions \<Rightarrow> str \<Rightarrow> bool option" where
  "permissions_are_preapproved fv eng effective granted cwd =
     Option.bind (intersect_permission_profiles fv eng effective effective cwd) (\<lambda>materialized.
       map_option (\<lambda>i. i = materialized) (intersect_permission_profiles fv eng effective granted cwd))"

definition apply_granted_turn_permissions ::
  "fs_view \<Rightarrow> 'g deny_globs \<Rightarrow> additional_permissions option \<Rightarrow> additional_permissions option \<Rightarrow> str \<Rightarrow> sandbox_permissions \<Rightarrow>
   additional_permissions option \<Rightarrow> effective_permissions option" where
  "apply_granted_turn_permissions fv eng session_granted turn_granted cwd sp additional =
     (if sp = RequireEscalated
      then Some \<lparr>eff_sandbox_permissions = sp, eff_additional = additional, eff_preapproved = False\<rparr>
      else (let granted = merge_permission_profiles session_granted turn_granted;
                effective = merge_permission_profiles additional granted
            in map_option (\<lambda>preapproved.
                 \<lparr>eff_sandbox_permissions =
                    (if effective \<noteq> None \<and> \<not> uses_additional_permissions sp then WithAdditionalPermissions else sp),
                  eff_additional = effective, eff_preapproved = preapproved\<rparr>)
                 (case (effective, granted) of
                    (Some e, Some g) \<Rightarrow> permissions_are_preapproved fv eng e g cwd
                  | _ \<Rightarrow> Some False)))"

section \<open>A shell command on its way to the orchestrator\<close>

record shell_call =
  call_command :: "str list"
  call_cwd :: str
  call_sandbox_permissions :: sandbox_permissions
  call_additional :: "additional_permissions option"
  call_prefix_rule :: "str list option"

record shell_settings =
  set_policy :: ask_for_approval
  set_profile :: permission_profile
  set_windows_level :: windows_sandbox_level
  set_exec_permission_approvals :: bool
  set_request_permissions_tool :: bool
  set_session_granted :: "additional_permissions option"
  set_turn_granted :: "additional_permissions option"

record prepared_command =
  prep_requirement :: exec_approval_requirement
  prep_sandbox_permissions :: sandbox_permissions
  prep_additional :: "additional_permissions option"

text \<open>
  The part of the shell handler that decides: granted permissions, validation, the guard against escalation outside
  \<open>OnRequest\<close> and the requirement. A command that invokes \<open>apply_patch\<close> leaves between the guard and the requirement
  and is not considered here. \<open>None\<close> is a panic.
\<close>

definition prepare_shell_command ::
  "(ask_for_approval \<Rightarrow> str) \<Rightarrow> fs_view \<Rightarrow> 'g deny_globs \<Rightarrow> exec_params \<Rightarrow> policy \<Rightarrow> shell_settings \<Rightarrow> shell_call \<Rightarrow>
   (str + prepared_command) option" where
  "prepare_shell_command show_policy fv eng xp p cfg call =
     Option.bind (apply_granted_turn_permissions fv eng (set_session_granted cfg) (set_turn_granted cfg) (call_cwd call)
          (call_sandbox_permissions call) (call_additional call)) (\<lambda>eff.
       let policy = set_policy cfg;
           allowed = set_exec_permission_approvals cfg \<or> set_request_permissions_tool cfg \<and> eff_preapproved eff
       in case (case implicit_granted_permissions (call_sandbox_permissions call) (call_additional call) eff of
                  Some permissions \<Rightarrow> Inr (Some permissions)
                | None \<Rightarrow> normalize_and_validate_additional_permissions show_policy fv allowed policy
                            (eff_sandbox_permissions eff) (eff_additional eff) (eff_preapproved eff)) of
            Inl e \<Rightarrow> Some (Inl e)
          | Inr normalized \<Rightarrow>
              if requests_sandbox_override (eff_sandbox_permissions eff) \<and> \<not> eff_preapproved eff \<and> policy \<noteq> OnRequest
              then Some (Inl (msg_no_escalation (show_policy policy)))
              else map_option (\<lambda>requirement. Inr
                     \<lparr>prep_requirement = requirement, prep_sandbox_permissions = eff_sandbox_permissions eff,
                      prep_additional = normalized\<rparr>)
                   (create_exec_approval_requirement_for_command xp p
                      \<lparr>req_command = call_command call, req_approval_policy = policy, req_permission_profile = set_profile cfg,
                       req_windows_sandbox_level = set_windows_level cfg,
                       req_sandbox_permissions = (if eff_preapproved eff then UseDefault else eff_sandbox_permissions eff),
                       req_prefix_rule = call_prefix_rule call\<rparr>))"

section \<open>Reviews that are remembered\<close>

text \<open>A run of requests with the answers a reviewer would give; each is recorded with whether it was put to the reviewer.\<close>

fun run_requests ::
  "('k \<Rightarrow> str option) \<Rightarrow> ('k list \<times> review_decision) list \<Rightarrow> approval_store \<Rightarrow> ('k list \<times> bool \<times> review_decision) list" where
  "run_requests json [] store = []"
| "run_requests json ((keys, answer) # rs) store =
     (case with_cached_approval json keys (\<lambda>_. (answer, True)) store False of
        (d, store, asked) \<Rightarrow> (keys, asked, d) # run_requests json rs store)"

definition remembered :: "('k \<Rightarrow> str option) \<Rightarrow> ('k list \<times> bool \<times> review_decision) list \<Rightarrow> approval_store \<Rightarrow> bool" where
  "remembered json past store \<longleftrightarrow>
     (\<forall>s d. store s = Some d \<longrightarrow> (\<exists>keys k. (keys, True, ApprovedForSession) \<in> set past \<and> k \<in> set keys \<and> json k = Some s))"

lemma store_puts:
  "fold (\<lambda>key. store_put json key d) keys store s =
     (if \<exists>k\<in>set keys. json k = Some s then Some d else store s)"
  by (induction keys arbitrary: store) (auto simp: store_put_def split: option.splits)

lemma with_cached_approval_cases:
  assumes "with_cached_approval json keys (\<lambda>_. (answer, True)) store False = (d, store', asked)"
  shows "asked \<and> d = answer \<and>
      (store' = store \<or> d = ApprovedForSession \<and> store' = fold (\<lambda>key. store_put json key ApprovedForSession) keys store) \<or>
    \<not> asked \<and> d = ApprovedForSession \<and> store' = store \<and> keys \<noteq> [] \<and>
      (\<forall>k\<in>set keys. \<exists>s. json k = Some s \<and> store s = Some ApprovedForSession)"
  using assms
  by (auto simp: with_cached_approval_def list_all_iff store_get_def bind_eq_Some_conv split: if_splits)

lemma remembered_step:
  assumes "remembered json past store"
    and "with_cached_approval json keys (\<lambda>_. (answer, True)) store False = (d, store', asked)"
  shows "remembered json (past @ [(keys, asked, d)]) store'"
proof -
  have old: "\<exists>ks k. (ks, True, ApprovedForSession) \<in> set (past @ [x]) \<and> k \<in> set ks \<and> json k = Some s"
    if "store s = Some d'" for x s d'
  proof -
    from assms(1) that obtain ks k where "(ks, True, ApprovedForSession) \<in> set past" "k \<in> set ks" "json k = Some s"
      unfolding remembered_def by blast
    then show ?thesis by (intro exI[of _ ks] exI[of _ k]) simp
  qed
  have keep: "remembered json (past @ [x]) store" for x
    unfolding remembered_def using old by blast
  have new: "remembered json (past @ [(keys, True, ApprovedForSession)])
      (fold (\<lambda>key. store_put json key ApprovedForSession) keys store)"
    unfolding remembered_def
  proof (intro allI impI)
    fix s d' assume d: "fold (\<lambda>key. store_put json key ApprovedForSession) keys store s = Some d'"
    show "\<exists>ks k. (ks, True, ApprovedForSession) \<in> set (past @ [(keys, True, ApprovedForSession)]) \<and> k \<in> set ks \<and> json k = Some s"
    proof (cases "\<exists>k\<in>set keys. json k = Some s")
      case True
      then obtain k where "k \<in> set keys" "json k = Some s" by blast
      then show ?thesis by (intro exI[of _ keys] exI[of _ k]) simp
    next
      case False
      then have "store s = Some d'" using d by (simp add: store_puts)
      then show ?thesis by (rule old)
    qed
  qed
  from with_cached_approval_cases[OF assms(2)] show ?thesis
  proof (elim disjE conjE)
    assume "asked" "d = ApprovedForSession" "store' = fold (\<lambda>key. store_put json key ApprovedForSession) keys store"
    then show ?thesis using new by simp
  qed (simp_all add: keep)
qed

lemma run_requests_remembered:
  assumes "remembered json past store" "run_requests json rs store = pre @ (keys, False, d) # post"
  shows "d = ApprovedForSession \<and> keys \<noteq> [] \<and>
    (\<forall>k\<in>set keys. \<exists>keys' k' s. (keys', True, ApprovedForSession) \<in> set (past @ pre) \<and> k' \<in> set keys' \<and>
       json k' = Some s \<and> json k = Some s)"
  using assms
proof (induction rs arbitrary: past store pre)
  case (Cons r rs)
  obtain ks answer where r: "r = (ks, answer)" by (cases r)
  obtain d1 w1 where "with_cached_approval json ks (\<lambda>_. (answer, True)) store False = (d1, w1)" by (rule prod.exhaust)
  then obtain store1 asked where w: "with_cached_approval json ks (\<lambda>_. (answer, True)) store False = (d1, store1, asked)"
    by (cases w1) simp
  note step = remembered_step[OF Cons.prems(1) w]
  have e: "(ks, asked, d1) # run_requests json rs store1 = pre @ (keys, False, d) # post"
    using Cons.prems(2) by (simp add: r w)
  show ?case
  proof (cases pre)
    case Nil
    then have k: "keys = ks" "\<not> asked" "d = d1" using e by auto
    from with_cached_approval_cases[OF w] k(2) have d1: "d1 = ApprovedForSession" "ks \<noteq> []"
      and s: "\<forall>k\<in>set ks. \<exists>s. json k = Some s \<and> store s = Some ApprovedForSession" by blast+
    have past: "\<exists>keys' k' s. (keys', True, ApprovedForSession) \<in> set past \<and> k' \<in> set keys' \<and> json k' = Some s \<and> json k = Some s"
      if "k \<in> set ks" for k
    proof -
      from s that have "\<exists>s. json k = Some s \<and> store s = Some ApprovedForSession" by (rule bspec)
      then obtain s where js: "json k = Some s" "store s = Some ApprovedForSession" by (elim exE conjE)
      from Cons.prems(1) js(2) obtain keys' k' where
        "(keys', True, ApprovedForSession) \<in> set past" "k' \<in> set keys'" "json k' = Some s"
        unfolding remembered_def by metis
      then show ?thesis using js(1) by (intro exI conjI)
    qed
    then show ?thesis using k(1,3) d1 by (simp only: Nil append_Nil2 simp_thms) (rule ballI)
  next
    case (Cons x pre')
    then have "x = (ks, asked, d1)" "run_requests json rs store1 = pre' @ (keys, False, d) # post" using e by auto
    from Cons.IH[OF step this(2)] show ?thesis using Cons \<open>x = _\<close> by simp
  qed
qed simp

text \<open>
  C15. An approval is reused only for what was approved. Starting from an empty cache, a request that is answered without
  a question is answered with the approval for the session, is for at least one key, and each of
  its keys has the text of a key of an earlier request that was put to the reviewer and approved for the session.
\<close>
theorem approvals_reused_only_for_their_keys:
  assumes "run_requests json rs Map.empty = pre @ (keys, False, d) # post"
  shows "d = ApprovedForSession \<and> keys \<noteq> [] \<and>
    (\<forall>k\<in>set keys. \<exists>keys' k' s. (keys', True, ApprovedForSession) \<in> set pre \<and> k' \<in> set keys' \<and>
       json k' = Some s \<and> json k = Some s)"
  using run_requests_remembered[of json "[]" Map.empty, OF _ assms] by (simp add: remembered_def)

theorem approvals_reused_only_for_their_keys_witness:
  "\<exists>keys'. (keys', True, ApprovedForSession) \<in>
     set (butlast (run_requests Some [([lit ''a'', lit ''b''], ApprovedForSession), ([lit ''b''], Abort)] Map.empty)) \<and>
     lit ''b'' \<in> set keys'"
proof -
  let ?r = "run_requests Some [([lit ''a'', lit ''b''], ApprovedForSession), ([lit ''b''], Abort)] Map.empty"
  have "?r = [([lit ''a'', lit ''b''], True, ApprovedForSession)] @ ([lit ''b''], False, ApprovedForSession) # []"
    by code_simp
  from approvals_reused_only_for_their_keys[OF this] this show ?thesis by auto
qed

section \<open>A command from the rules to the sandbox\<close>

lemma materialized_keeps_restricted:
  assumes "profile_materialize_project_roots fv profile roots = Some permissions"
  shows "policy_kind (file_system_sandbox_policy permissions) = policy_kind (file_system_sandbox_policy profile)"
  using assms
  by (cases "(fv, profile, roots)" rule: profile_materialize_project_roots.cases)
    (auto simp: managed_from_sandbox_policy_def materialize_project_roots_with_workspace_roots_def unrestricted_def
      split: sandbox_kind.splits)



lemma shell_runtime_fields [simp]:
  "t_preference (shell_runtime roots sp requirement has_action ask execute) = AutoPreference"
  "t_sandbox_permissions (shell_runtime roots sp requirement has_action ask execute) = sp"
  "t_workspace_roots (shell_runtime roots sp requirement has_action ask execute) = roots"
  "tool_requirement (shell_runtime roots sp requirement has_action ask execute) policy p = requirement"
  by (simp_all add: shell_runtime_def tool_requirement_def)

lemma patch_runtime_fields [simp]:
  "t_preference (patch_runtime roots invocation has_action ask execute) = AutoPreference"
  "t_sandbox_permissions (patch_runtime roots invocation has_action ask execute) = UseDefault"
  "tool_requirement (patch_runtime roots invocation has_action ask execute) policy p = inv_requirement invocation"
  by (simp_all add: patch_runtime_def tool_requirement_def)

text \<open>What the shell handler guarantees of the request for which it computes the requirement.\<close>

definition shell_request :: "shell_settings \<Rightarrow> shell_call \<Rightarrow> sandbox_permissions \<Rightarrow> exec_approval_request" where
  "shell_request cfg cmd sp =
     \<lparr>req_command = call_command cmd, req_approval_policy = set_policy cfg, req_permission_profile = set_profile cfg,
      req_windows_sandbox_level = set_windows_level cfg, req_sandbox_permissions = sp, req_prefix_rule = call_prefix_rule cmd\<rparr>"

lemma granted_escalation:
  assumes "apply_granted_turn_permissions fv eng sg tg cwd sp additional = Some eff"
    and "eff_sandbox_permissions eff = RequireEscalated"
  shows "\<not> eff_preapproved eff"
  using assms by (auto simp: apply_granted_turn_permissions_def Let_def split: if_splits)

lemma prepared_requirement:
  assumes "prepare_shell_command show_policy fv eng xp p cfg cmd = Some (Inr prep)"
  obtains sp where
    "create_exec_approval_requirement_for_command xp p (shell_request cfg cmd sp) = Some (prep_requirement prep)"
    "prep_sandbox_permissions prep = RequireEscalated \<Longrightarrow> sp = RequireEscalated \<and> set_policy cfg = OnRequest"
proof -
  from assms obtain eff where eff:
    "apply_granted_turn_permissions fv eng (set_session_granted cfg) (set_turn_granted cfg) (call_cwd cmd)
       (call_sandbox_permissions cmd) (call_additional cmd) = Some eff"
    by (auto simp: prepare_shell_command_def bind_eq_Some_conv)
  let ?sp = "if eff_preapproved eff then UseDefault else eff_sandbox_permissions eff"
  have "create_exec_approval_requirement_for_command xp p (shell_request cfg cmd ?sp) = Some (prep_requirement prep) \<and>
      prep_sandbox_permissions prep = eff_sandbox_permissions eff \<and>
      \<not> (requests_sandbox_override (eff_sandbox_permissions eff) \<and> \<not> eff_preapproved eff \<and> set_policy cfg \<noteq> OnRequest)"
    using assms by (auto simp: prepare_shell_command_def eff Let_def shell_request_def split: sum.splits if_splits)
  then show thesis using that[of ?sp] granted_escalation[OF eff] by (cases "eff_sandbox_permissions eff") auto
qed



text \<open>
  C11. With questions switched off nobody is asked. A shell command under the setting for that runs at most once, in a
  sandbox if its profile requires one and no rule lifts it, and no reviewer is called; a denial by the sandbox is the answer.
\<close>
theorem never_policy_never_asks:
  assumes "prepare_shell_command show_policy fv' eng xp p cfg cmd = Some (Inr prep)" "set_policy cfg = NeverAsk"
    and "\<not> turn_strict_auto_review turn"
    and "run_tool os fv svc
        (shell_runtime roots (prep_sandbox_permissions prep) (prep_requirement prep) has_action ask execute) turn NeverAsk
        \<lparr>orch_world = w, orch_events = []\<rparr> = Some (r, st)"
  shows "orch_events st = [] \<or>
    (\<exists>a. orch_events st = [Attempted a] \<and>
       (should_sandbox (att_permissions a) AutoPreference (turn_has_network turn) \<and>
          (\<exists>c\<in>set (epc_commands (commands_for_exec_policy (xp_parse xp) (call_command cmd))). policy_matches xp p c = []) \<longrightarrow>
        att_sandbox_requested a))"
proof -
  let ?tool = "shell_runtime roots (prep_sandbox_permissions prep) (prep_requirement prep) has_action ask execute"
  from prepared_requirement[OF assms(1)] obtain sp where
    req: "create_exec_approval_requirement_for_command xp p (shell_request cfg cmd sp) = Some (prep_requirement prep)"
    and esc: "prep_sandbox_permissions prep \<noteq> RequireEscalated" using assms(2) by auto
  have needs: "prep_requirement prep \<noteq> NeedsApproval reason x" for reason x
    using requirement_cases[of xp p "shell_request cfg cmd sp"] req assms(2)
    by (cases "overall xp p (shell_request cfg cmd sp)")
      (auto simp: shell_request_def prompt_is_rejected_by_policy_def)
  have bypass: "policy_matches xp p c \<noteq> []"
    if "prep_requirement prep = Skip True x" "c \<in> set (segments xp (shell_request cfg cmd sp))" for c x
  proof -
    have all: "overall xp p (shell_request cfg cmd sp) = Allow"
      using requirement_cases[of xp p "shell_request cfg cmd sp"] req that(1)
      by (cases "overall xp p (shell_request cfg cmd sp)") (auto split: option.splits)
    then show ?thesis using requirement_cases[of xp p "shell_request cfg cmd sp"] req that by auto
  qed
  from run_tool_trace[OF assms(4)] obtain permissions asks1 att1 asks2 att2 where
    "profile_materialize_project_roots fv (turn_permission_profile turn) (t_workspace_roots ?tool) = Some permissions"
    and es: "orch_events st = asks1 @ att1 @ asks2 @ att2"
    and t: "trace_parts os ?tool turn NeverAsk permissions asks1 att1 asks2 att2" by blast
  have none: "asks1 = [] \<and> asks2 = [] \<and> att2 = []"
    by (rule shell.never_asks[OF t assms(3)]) (simp add: needs)
  show ?thesis
  proof (cases "att1 = []")
    case False
    let ?a = "initial_attempt os ?tool turn permissions (prep_requirement prep)"
    have a: "orch_events st = [Attempted ?a]" using es none False trace_parts_shape(3)[OF t] by simp
    have "att_sandbox_requested ?a" if "should_sandbox (att_permissions ?a) AutoPreference (turn_has_network turn)"
      "c \<in> set (segments xp (shell_request cfg cmd sp))" "policy_matches xp p c = []" for c
      using that esc bypass
      by (auto simp: initial_attempt_def sandbox_override_for_first_attempt_def
          elim: requires_escalated_permissions.elims split: exec_approval_requirement.splits bool.splits)
    then show ?thesis using a by (auto simp: segments_def shell_request_def)
  qed (use es none in simp)
qed

section \<open>A patch from its assessment to the sandbox\<close>

text \<open>
  C9. A patch leaves the sandbox only by an approval. When the patch tool delegates a patch, an attempt without the sandbox that the
  profile requires comes after an accepted review, also for a patch that was approved automatically.
\<close>
theorem unsandboxed_patch_was_reviewed:
  assumes "delegate_patch pp fv' os action policy profile q level = Inr invocation"
    and "run_tool os fv svc (patch_runtime roots invocation has_action ask execute) turn policy
        \<lparr>orch_world = w, orch_events = []\<rparr> = Some (r, st)"
    and "orch_events st = pre @ Attempted a # post" "\<not> att_sandbox_requested a"
    and "should_sandbox (att_permissions a) AutoPreference (turn_has_network turn)"
  shows "\<exists>src d. Reviewed src d \<in> set pre \<and> accepted d"
proof -
  have inv: "inv_requirement invocation = Skip False None \<or> inv_requirement invocation = NeedsApproval None None"
    using assms(1) by (auto simp: delegate_patch_def split: safety_check.splits)
  let ?tool = "patch_runtime roots invocation has_action ask execute"
  from run_tool_trace[OF assms(2)] obtain permissions asks1 att1 asks2 att2 where
    "profile_materialize_project_roots fv (turn_permission_profile turn) (t_workspace_roots ?tool) = Some permissions"
    and es: "orch_events st = asks1 @ att1 @ asks2 @ att2"
    and t: "trace_parts os ?tool turn policy permissions asks1 att1 asks2 att2" by blast
  have split: "asks1 @ att1 @ asks2 @ att2 = pre @ Attempted a # post" using es assms(3) by simp
  have perm: "att_permissions a = permissions"
    using attempt_in_trace[OF t split] by (auto simp: initial_attempt_def retry_attempt_def Let_def)
  from patch.outside_sandbox[OF t split assms(4)] assms(5) inv show ?thesis by (auto simp: perm)
qed

section \<open>Instances\<close>

definition lone_services :: "nat session_services" where
  "lone_services = \<lparr>s_hooks = (\<lambda>_ w. (None, w)), s_guardian = (\<lambda>_ w. (Abort, w)), s_begin_network = (\<lambda>_ w. (Inr None, w)),
     s_finish_network = (\<lambda>w. (Inr (), w))\<rparr>"

definition lone_turn :: "permission_profile \<Rightarrow> turn_context" where
  "lone_turn profile = \<lparr>turn_permission_profile = profile, turn_has_network = False, turn_strict_auto_review = False,
     turn_routes_to_guardian = False, turn_windows_sandbox_level = WindowsDisabled, turn_linux_sandbox_exe = None,
     turn_call_id = lit ''call''\<rparr>"

text \<open>A reviewer who approves everything, and a command that the sandbox stops.\<close>

definition approving :: "str option \<Rightarrow> network_approval_context option \<Rightarrow> nat \<Rightarrow> review_decision \<times> nat" where
  "approving reason nctx w = (Approved, w)"

definition stopped_by_sandbox :: "sandbox_attempt \<Rightarrow> nat \<Rightarrow> (tool_error + nat) \<times> nat" where
  "stopped_by_sandbox a w =
     (if att_sandbox_requested a then (Inl (CodexErr (SandboxDenied [] None)), w + 1) else (Inr w, w + 1))"

definition deny_profile :: permission_profile where
  "deny_profile = ManagedProfile (ManagedRestricted [new_entry (ConcretePath REPO) AccessDeny] None) NetworkRestricted"

definition lone_settings :: "ask_for_approval \<Rightarrow> permission_profile \<Rightarrow> shell_settings" where
  "lone_settings policy profile = \<lparr>set_policy = policy, set_profile = profile, set_windows_level = WindowsDisabled,
     set_exec_permission_approvals = False, set_request_permissions_tool = False, set_session_granted = None, set_turn_granted = None\<rparr>"

definition make_call :: "sandbox_permissions \<Rightarrow> shell_call" where
  "make_call sp = \<lparr>call_command = [lit ''make''], call_cwd = lit ''/repo'', call_sandbox_permissions = sp,
     call_additional = None, call_prefix_rule = None\<rparr>"

lemma example_materialized [simp]:
  "profile_materialize_project_roots example_view repo_profile [] = Some repo_profile"
  "profile_materialize_project_roots example_view deny_profile [] = Some deny_profile"
  by code_simp+

lemma example_profiles [simp]:
  "should_sandbox repo_profile AutoPreference False" "\<not> has_denied_read_restrictions (file_system_sandbox_policy repo_profile)"
  "policy_kind (file_system_sandbox_policy repo_profile) = RestrictedKind"
  "should_sandbox deny_profile AutoPreference False" "has_denied_read_restrictions (file_system_sandbox_policy deny_profile)"
  by code_simp+


lemma make_unmatched [simp]: "policy_matches plain_params empty_policy [lit ''make''] = []"
  by code_simp

lemma make_prepared:
  "prepare_shell_command (\<lambda>_. []) example_view example_globs plain_params empty_policy (lone_settings OnRequest repo_profile)
     (make_call RequireEscalated) =
   Some (Inr \<lparr>prep_requirement = NeedsApproval None (Some [lit ''make'']), prep_sandbox_permissions = RequireEscalated, prep_additional = None\<rparr>)"
  "prepare_shell_command (\<lambda>_. []) example_view example_globs plain_params empty_policy (lone_settings NeverAsk repo_profile)
     (make_call UseDefault) =
   Some (Inr \<lparr>prep_requirement = Skip False (Some [lit ''make'']), prep_sandbox_permissions = UseDefault, prep_additional = None\<rparr>)"
  by code_simp+

lemma make_run:
  "\<exists>a. run_tool Linux example_view lone_services
      (shell_runtime [] RequireEscalated (NeedsApproval None (Some [lit ''make''])) False approving stopped_by_sandbox)
      (lone_turn repo_profile) OnRequest \<lparr>orch_world = 0, orch_events = []\<rparr> =
    Some (Inr (0, False), \<lparr>orch_world = 1, orch_events = [Reviewed FromUser Approved, Attempted a]\<rparr>) \<and>
    \<not> att_sandbox_requested a \<and> att_permissions a = repo_profile"
  by (simp add: run_tool_def run_with_permissions_def Let_def approval_stage_def resolve_tool_approval_def shell_runtime_def
      tool_requirement_def lone_services_def lone_turn_def approving_def record_and_resolve_def record_event_def run_attempt_def
      reviewer_for_turn_def stopped_by_sandbox_def initial_attempt_def make_attempt_def sandbox_override_for_first_attempt_def
      unsandboxed_execution_allowed_def)

lemma sandboxed_run:
  "\<exists>a. run_tool Linux example_view lone_services
      (shell_runtime [] UseDefault (Skip False (Some [lit ''make''])) False approving stopped_by_sandbox)
      (lone_turn repo_profile) NeverAsk \<lparr>orch_world = 0, orch_events = []\<rparr> =
    Some (Inl (CodexErr (SandboxDenied [] None)), \<lparr>orch_world = 1, orch_events = [Attempted a]\<rparr>)"
  by (simp add: run_tool_def run_with_permissions_def Let_def approval_stage_def shell_runtime_def
      tool_requirement_def lone_services_def lone_turn_def record_event_def run_attempt_def
      stopped_by_sandbox_def initial_attempt_def make_attempt_def sandbox_override_for_first_attempt_def
      unsandboxed_execution_allowed_def retry_refused_def)

lemma denied_run:
  "\<exists>a. run_tool Linux example_view lone_services
      (shell_runtime [] RequireEscalated (NeedsApproval None None) False approving stopped_by_sandbox)
      (lone_turn deny_profile) OnRequest \<lparr>orch_world = 0, orch_events = []\<rparr> =
    Some (Inl (CodexErr (SandboxDenied [] None)), \<lparr>orch_world = 1, orch_events = [Reviewed FromUser Approved, Attempted a]\<rparr>)"
  by (simp add: run_tool_def run_with_permissions_def Let_def approval_stage_def resolve_tool_approval_def shell_runtime_def
      tool_requirement_def lone_services_def lone_turn_def approving_def record_and_resolve_def record_event_def run_attempt_def
      reviewer_for_turn_def stopped_by_sandbox_def initial_attempt_def make_attempt_def sandbox_override_for_first_attempt_def
      unsandboxed_execution_allowed_def retry_refused_def retry_network_context_def wants_no_sandbox_approval.simps)

theorem attempts_follow_accepted_reviews_witness:
  "\<exists>a. orch_events (snd (the (run_tool Linux example_view lone_services
      (shell_runtime [] RequireEscalated (NeedsApproval None (Some [lit ''make''])) False approving stopped_by_sandbox)
      (lone_turn repo_profile) OnRequest \<lparr>orch_world = 0, orch_events = []\<rparr>))) = [Reviewed FromUser Approved, Attempted a] \<and>
    (\<exists>src d. Reviewed src d \<in> set [Reviewed FromUser Approved])"
proof -
  let ?tool = "shell_runtime [] RequireEscalated (NeedsApproval None (Some [lit ''make''])) False approving stopped_by_sandbox"
  from make_run obtain a where a: "run_tool Linux example_view lone_services ?tool (lone_turn repo_profile) OnRequest
      \<lparr>orch_world = 0, orch_events = []\<rparr> =
    Some (Inr (0, False), \<lparr>orch_world = 1, orch_events = [Reviewed FromUser Approved, Attempted a]\<rparr>)" by blast
  have "t_requirement ?tool = Some (NeedsApproval None (Some [lit ''make'']))" by (simp add: shell_runtime_def)
  note t = attempts_follow_accepted_reviews[OF a this]
  have "orch_events \<lparr>orch_world = 1 :: nat, orch_events = [Reviewed FromUser Approved, Attempted a]\<rparr> =
      [Reviewed FromUser Approved] @ Attempted a # []" by simp
  with t have "\<exists>src d. Reviewed src d \<in> set [Reviewed FromUser Approved]" by blast
  then show ?thesis using a by auto
qed

theorem denied_reads_stay_sandboxed_witness:
  "\<exists>a. Attempted a \<in> set (orch_events (snd (the (run_tool Linux example_view lone_services
      (shell_runtime [] RequireEscalated (NeedsApproval None None) False approving stopped_by_sandbox)
      (lone_turn deny_profile) OnRequest \<lparr>orch_world = 0, orch_events = []\<rparr>)))) \<and> att_sandbox a = LinuxSeccomp"
proof -
  let ?tool = "shell_runtime [] RequireEscalated (NeedsApproval None None) False approving stopped_by_sandbox"
  from denied_run obtain a where a: "run_tool Linux example_view lone_services ?tool (lone_turn deny_profile) OnRequest
      \<lparr>orch_world = 0, orch_events = []\<rparr> =
    Some (Inl (CodexErr (SandboxDenied [] None)), \<lparr>orch_world = 1, orch_events = [Reviewed FromUser Approved, Attempted a]\<rparr>)" by blast
  have s: "get_platform_sandbox Linux (turn_windows_sandbox_level (lone_turn deny_profile) \<noteq> WindowsDisabled) = Some LinuxSeccomp"
    by code_simp
  from denied_reads_stay_sandboxed[OF a, of "[new_entry (ConcretePath REPO) AccessDeny]" None NetworkRestricted
      "new_entry (ConcretePath REPO) AccessDeny" REPO a] s
  have "att_sandbox a = LinuxSeccomp" by (simp add: lone_turn_def deny_profile_def new_entry_def)
  then show ?thesis using a by auto
qed


theorem never_policy_never_asks_witness:
  "\<exists>a. orch_events (snd (the (run_tool Linux example_view lone_services
      (shell_runtime [] UseDefault (Skip False (Some [lit ''make''])) False approving stopped_by_sandbox)
      (lone_turn repo_profile) NeverAsk \<lparr>orch_world = 0, orch_events = []\<rparr>))) = [Attempted a]"
proof -
  let ?prep = "\<lparr>prep_requirement = Skip False (Some [lit ''make'']), prep_sandbox_permissions = UseDefault, prep_additional = None\<rparr>"
  from sandboxed_run obtain a where a: "run_tool Linux example_view lone_services
      (shell_runtime [] (prep_sandbox_permissions ?prep) (prep_requirement ?prep) False approving stopped_by_sandbox) (lone_turn repo_profile)
      NeverAsk \<lparr>orch_world = 0, orch_events = []\<rparr> =
    Some (Inl (CodexErr (SandboxDenied [] None)), \<lparr>orch_world = 1, orch_events = [Attempted a]\<rparr>)" by auto
  from never_policy_never_asks[OF make_prepared(2) _ _ a] have
    "orch_events \<lparr>orch_world = 1 :: nat, orch_events = [Attempted a]\<rparr> = [] \<or>
     (\<exists>a'. orch_events \<lparr>orch_world = 1 :: nat, orch_events = [Attempted a]\<rparr> = [Attempted a'])"
    by (auto simp: lone_settings_def lone_turn_def)
  then show ?thesis using a by simp
qed

definition asked_invocation :: runtime_invocation where
  "asked_invocation = \<lparr>inv_action = \<lparr>action_changes = [(lit ''/etc/x'', ProposedAdd [])], action_patch = [], action_cwd = lit ''/repo''\<rparr>,
     inv_auto_approved = False, inv_requirement = NeedsApproval None None\<rparr>"

lemma asked_delegation:
  "delegate_patch example_patch_params example_view Linux (inv_action asked_invocation) OnRequest repo_profile repo_policy WindowsDisabled =
     Inr asked_invocation"
  by (simp add: delegate_patch_def asked_invocation_def assess_patch_safety_def is_write_patch_constrained_to_writable_paths_def
      example_writable repo_profile_def rejects_sandbox_approval_def)

lemma patch_retried:
  "\<exists>a b. run_tool Linux example_view lone_services (patch_runtime [] asked_invocation False approving stopped_by_sandbox)
      (lone_turn repo_profile) OnRequest \<lparr>orch_world = 0, orch_events = []\<rparr> =
    Some (Inr (1, False), \<lparr>orch_world = 2, orch_events = [Reviewed FromUser Approved, Attempted a] @ Attempted b # []\<rparr>) \<and>
    \<not> att_sandbox_requested b \<and> att_permissions b = repo_profile"
  by (simp add: run_tool_def run_with_permissions_def Let_def approval_stage_def resolve_tool_approval_def patch_runtime_def
      tool_requirement_def lone_services_def lone_turn_def approving_def record_and_resolve_def record_event_def run_attempt_def
      reviewer_for_turn_def stopped_by_sandbox_def initial_attempt_def retry_attempt_def make_attempt_def
      sandbox_override_for_first_attempt_def unsandboxed_execution_allowed_def retry_refused_def retry_network_context_def
      retry_stage_def should_bypass_approval_def asked_invocation_def)

theorem unsandboxed_patch_was_reviewed_witness:
  "\<exists>src d. Reviewed src d \<in> set (orch_events (snd (the (run_tool Linux example_view lone_services
      (patch_runtime [] asked_invocation False approving stopped_by_sandbox)
      (lone_turn repo_profile) OnRequest \<lparr>orch_world = 0, orch_events = []\<rparr>)))) \<and> accepted d"
proof -
  from patch_retried obtain a b where
    r: "run_tool Linux example_view lone_services (patch_runtime [] asked_invocation False approving stopped_by_sandbox)
      (lone_turn repo_profile) OnRequest \<lparr>orch_world = 0, orch_events = []\<rparr> =
      Some (Inr (1, False), \<lparr>orch_world = 2, orch_events = [Reviewed FromUser Approved, Attempted a] @ Attempted b # []\<rparr>)"
    and b: "\<not> att_sandbox_requested b" "att_permissions b = repo_profile" by blast
  have "\<exists>src d. Reviewed src d \<in> set [Reviewed FromUser Approved, Attempted a] \<and> accepted d"
    by (rule unsandboxed_patch_was_reviewed[OF asked_delegation r _ b(1)]) (simp_all add: b(2) lone_turn_def)
  then show ?thesis using r by auto
qed

text \<open>
  Under an unrestricted file system with a restricted network a sandbox is required for the network alone. A request for
  escalation is then neither asked about nor held back: the first attempt runs without the sandbox.
\<close>

definition offline_profile :: permission_profile where
  "offline_profile = ManagedProfile ManagedUnrestricted NetworkRestricted"

lemma unrestricted_escalation_unasked:
  "prepare_shell_command (\<lambda>_. []) example_view example_globs plain_params empty_policy (lone_settings OnRequest offline_profile)
     (make_call RequireEscalated) =
   Some (Inr \<lparr>prep_requirement = Skip False (Some [lit ''make'']), prep_sandbox_permissions = RequireEscalated, prep_additional = None\<rparr>)"
  "should_sandbox offline_profile AutoPreference False"
  "\<exists>a. run_tool Linux example_view lone_services
      (shell_runtime [] RequireEscalated (Skip False (Some [lit ''make''])) False approving stopped_by_sandbox)
      (lone_turn offline_profile) OnRequest \<lparr>orch_world = 0, orch_events = []\<rparr> =
    Some (Inr (0, False), \<lparr>orch_world = 1, orch_events = [Attempted a]\<rparr>) \<and> \<not> att_sandbox_requested a"
proof -
  show "prepare_shell_command (\<lambda>_. []) example_view example_globs plain_params empty_policy (lone_settings OnRequest offline_profile)
     (make_call RequireEscalated) =
   Some (Inr \<lparr>prep_requirement = Skip False (Some [lit ''make'']), prep_sandbox_permissions = RequireEscalated, prep_additional = None\<rparr>)"
    by code_simp
  show "should_sandbox offline_profile AutoPreference False" by code_simp
  have "profile_materialize_project_roots example_view offline_profile [] = Some offline_profile"
    "\<not> has_denied_read_restrictions (file_system_sandbox_policy offline_profile)" by code_simp+
  then show "\<exists>a. run_tool Linux example_view lone_services
      (shell_runtime [] RequireEscalated (Skip False (Some [lit ''make''])) False approving stopped_by_sandbox)
      (lone_turn offline_profile) OnRequest \<lparr>orch_world = 0, orch_events = []\<rparr> =
    Some (Inr (0, False), \<lparr>orch_world = 1, orch_events = [Attempted a]\<rparr>) \<and> \<not> att_sandbox_requested a"
    by (simp add: run_tool_def run_with_permissions_def Let_def approval_stage_def shell_runtime_def
      tool_requirement_def lone_services_def lone_turn_def record_event_def run_attempt_def
      stopped_by_sandbox_def initial_attempt_def make_attempt_def sandbox_override_for_first_attempt_def
      unsandboxed_execution_allowed_def)
qed

section \<open>Keys of the cache\<close>

definition CANONICAL_BASH_SCRIPT_PREFIX :: str where "CANONICAL_BASH_SCRIPT_PREFIX = lit ''__codex_shell_script__''"
definition CANONICAL_POWERSHELL_SCRIPT_PREFIX :: str where "CANONICAL_POWERSHELL_SCRIPT_PREFIX = lit ''__codex_powershell_script__''"

definition POWERSHELL_FLAGS :: "str list" where
  "POWERSHELL_FLAGS = map lit [''-nologo'', ''-noprofile'', ''-command'', ''-c'']"

fun powershell_script :: "str list \<Rightarrow> str option" where
  "powershell_script (flag # script # rest) =
     (if to_ascii_lowercase flag \<notin> set POWERSHELL_FLAGS then None
      else if eq_ignore_ascii_case flag (lit ''-Command'') \<or> eq_ignore_ascii_case flag (lit ''-c'') then Some script
      else powershell_script (script # rest))"
| "powershell_script _ = None"

definition extract_powershell_command :: "str list \<Rightarrow> (str \<times> str) option" where
  "extract_powershell_command command =
     (case command of
        shell # flags \<Rightarrow>
          if length command < 3 then None
          else if detect_shell_type shell \<noteq> Some shell_type.PowerShell then None
          else map_option (Pair shell) (powershell_script flags)
      | [] \<Rightarrow> None)"

definition canonicalize_command_for_approval :: "(str \<Rightarrow> node option) \<Rightarrow> str list \<Rightarrow> str list" where
  "canonicalize_command_for_approval parse command =
     (case parse_shell_lc_plain_commands parse command of
        Some [single_command] \<Rightarrow> single_command
      | _ \<Rightarrow>
          (case extract_bash_command command of
             Some (_, script) \<Rightarrow>
               [CANONICAL_BASH_SCRIPT_PREFIX, (if 1 < length command then command ! 1 else []), script]
           | None \<Rightarrow>
               (case extract_powershell_command command of
                  Some (_, script) \<Rightarrow> [CANONICAL_POWERSHELL_SCRIPT_PREFIX, script]
                | None \<Rightarrow> command)))"

record shell_approval_key =
  key_environment_id :: str
  key_command :: "str list"
  key_cwd :: str
  key_sandbox_permissions :: sandbox_permissions
  key_additional :: "additional_permissions option"

definition shell_approval_keys ::
  "(str \<Rightarrow> node option) \<Rightarrow> str \<Rightarrow> str list \<Rightarrow> str \<Rightarrow> sandbox_permissions \<Rightarrow> additional_permissions option \<Rightarrow> shell_approval_key list" where
  "shell_approval_keys parse env_id command cwd sp additional =
     [\<lparr>key_environment_id = env_id, key_command = canonicalize_command_for_approval parse command, key_cwd = cwd,
       key_sandbox_permissions = sp, key_additional = additional\<rparr>]"

text \<open>How the shell tool asks: through the cache, with the reason of the retry or else the justification.\<close>

definition shell_start_approval ::
  "(shell_approval_key \<Rightarrow> str option) \<Rightarrow> shell_approval_key list \<Rightarrow> str option \<Rightarrow>
   (str option \<Rightarrow> network_approval_context option \<Rightarrow> 'w \<Rightarrow> review_decision \<times> 'w) \<Rightarrow>
   str option \<Rightarrow> network_approval_context option \<Rightarrow> approval_store \<times> 'w \<Rightarrow> review_decision \<times> approval_store \<times> 'w" where
  "shell_start_approval json keys justification request reason nctx sw =
     (case sw of (store, w) \<Rightarrow>
        with_cached_approval json keys (request (case reason of Some r \<Rightarrow> Some r | None \<Rightarrow> justification) nctx) store w)"

lemma canonical_script_cases:
  assumes "extract_bash_command command = Some (shell, script)"
  shows "canonicalize_command_for_approval parse command =
     (case parse_shell_script_into_commands parse script of
        Some [single_command] \<Rightarrow> single_command
      | _ \<Rightarrow> [CANONICAL_BASH_SCRIPT_PREFIX, command ! 1, script])"
  using assms
  by (auto simp: canonicalize_command_for_approval_def parse_shell_lc_plain_commands_def extract_bash_command_def
      split: list.splits option.splits if_splits)

section \<open>Network decisions as messages and rules\<close>

definition parse_network_policy_decision :: "str \<Rightarrow> network_policy_decision option" where
  "parse_network_policy_decision value =
     (if value = lit ''deny'' then Some PolicyDeny else if value = lit ''ask'' then Some PolicyAsk else None)"

definition denied_network_policy_message :: "blocked_request \<Rightarrow> str option" where
  "denied_network_policy_message b =
     (if Option.bind (blocked_decision b) parse_network_policy_decision \<noteq> Some PolicyDeny then None
      else (let host = trim (blocked_host b); reason = blocked_reason b;
                detail = (if reason = lit ''denied'' then lit ''domain is explicitly denied by policy and cannot be approved from this prompt''
                  else if reason = lit ''not_allowed'' then lit ''domain is not on the allowlist for the current sandbox mode''
                  else if reason = lit ''not_allowed_local'' then lit ''local/private network addresses are blocked by the sandbox policy''
                  else if reason = lit ''method_not_allowed'' then lit ''request method is blocked by the current network mode''
                  else if reason = lit ''proxy_disabled'' then lit ''network proxy is disabled''
                  else lit ''request is blocked by network policy'')
            in if host = [] then Some (lit ''Network access was blocked by policy.'')
               else Some (lit ''Network access to '' @ [34] @ host @ [34] @ lit '' was blocked: '' @ detail @ lit ''.'')))"

record network_rule_amendment =
  nra_protocol :: network_protocol
  nra_decision :: decision
  nra_justification :: str

definition execpolicy_network_rule_amendment :: "network_rule_action \<Rightarrow> network_approval_context \<Rightarrow> str \<Rightarrow> network_rule_amendment" where
  "execpolicy_network_rule_amendment action nctx host =
     (let protocol = (case nac_protocol nctx of
            ApproveHttp \<Rightarrow> Http | ApproveHttps \<Rightarrow> Https | ApproveSocks5Tcp \<Rightarrow> Socks5Tcp | ApproveSocks5Udp \<Rightarrow> Socks5Udp);
          (d, action_verb) = (case action of
            NetworkRuleAllow \<Rightarrow> (Allow, lit ''Allow'') | NetworkRuleDeny \<Rightarrow> (Forbidden, lit ''Deny''));
          protocol_label = (case nac_protocol nctx of
            ApproveHttp \<Rightarrow> lit ''http'' | ApproveHttps \<Rightarrow> lit ''https_connect'' | ApproveSocks5Tcp \<Rightarrow> lit ''socks5_tcp''
          | ApproveSocks5Udp \<Rightarrow> lit ''socks5_udp'')
      in \<lparr>nra_protocol = protocol, nra_decision = d,
          nra_justification = action_verb @ lit '' '' @ protocol_label @ lit '' access to '' @ host\<rparr>)"

section \<open>A shell by its name only\<close>

text \<open>
  The shell of a script is recognised by its base name. With one rule that allows a program, a script for that program is
  let out of the sandbox whatever file the script is given to, and its key in the cache is that of the program.
\<close>

definition evil_shell :: "str list" where
  "evil_shell = [lit ''/tmp/bash'', lit ''-lc'', lit ''make'']"

definition allow_make :: policy where
  "allow_make = \<lparr>rules_by_program = [(lit ''make'',
       [\<lparr>rule_pattern = \<lparr>pat_first = lit ''make'', pat_rest = []\<rparr>, rule_decision = Allow, rule_justification = None\<rparr>])],
     network_rules = [], host_executables = Map.empty\<rparr>"

definition make_params :: exec_params where
  "make_params = \<lparr>xp_env = \<lparr>home_dir = None, current_dir = None\<rparr>, xp_parse = one_script (lit ''make'') (command_tree (lit ''make'') []),
     xp_try_join = (\<lambda>_. None)\<rparr>"


lemma evil_shell_extracts: "extract_bash_command evil_shell = Some (lit ''/tmp/bash'', lit ''make'')"
  by code_simp

lemma make_parses: "parse_shell_script_into_commands (xp_parse make_params) (lit ''make'') = Some [[lit ''make'']]"
  by code_simp

lemma shell_recognised_by_name:
  "create_exec_approval_requirement_for_command make_params allow_make (plain_request NeverAsk evil_shell) = Some (Skip True None)"
  "canonicalize_command_for_approval (xp_parse make_params) evil_shell = [lit ''make'']"
proof -
  have plain: "parse_shell_lc_plain_commands (xp_parse make_params) evil_shell = Some [[lit ''make'']]"
    by (simp add: parse_shell_lc_plain_commands_def evil_shell_extracts make_parses)
  show "canonicalize_command_for_approval (xp_parse make_params) evil_shell = [lit ''make'']"
    by (simp add: canonical_script_cases[OF evil_shell_extracts] make_parses)
  have seg: "segments make_params (plain_request NeverAsk evil_shell) = [[lit ''make'']]"
    by (simp add: segments_def commands_for_exec_policy_def plain_request_def plain nonempty_option_def)
  have m: "policy_matches make_params allow_make [lit ''make''] = [PrefixRuleMatch [lit ''make''] Allow None None]"
    by code_simp
  have "overall make_params allow_make (plain_request NeverAsk evil_shell) = Allow"
    by (simp add: overall_def all_matches_def seg segment_matches_def m)
  from requirement_cases[of make_params allow_make "plain_request NeverAsk evil_shell"] this
  obtain a where r: "create_exec_approval_requirement_for_command make_params allow_make (plain_request NeverAsk evil_shell) = Some (Skip True a)"
    by (auto simp: seg m)
  have "a = None"
    using r unfolding create_exec_approval_requirement_for_command_def Let_def
    unfolding segments_def[symmetric] evaluation_of_request
    by (simp add: overall_def all_matches_def seg segment_matches_def m try_derive_execpolicy_amendment_for_allow_rules_def
        split: if_splits)
  with r show "create_exec_approval_requirement_for_command make_params allow_make (plain_request NeverAsk evil_shell) = Some (Skip True None)"
    by simp
qed

end
