(* ===== verification/StreamText.thy ===== *)
theory StreamText
  imports RustStr
begin

text \<open>
  Streaming text parsers (\<open>utils/stream-parser/src\<close>): the trait \<open>StreamTextParser\<close> as a locale
  whose law is that the cut between two pushes cannot be seen, and the parser of hidden inline tags
  with its citation instance. Positions count code points; the code's byte offsets cut the strings
  at the same places. \<open>push_str\<close> loops, so its model is an option whose value \<open>None\<close> would be a
  call that does not return.
\<close>

section \<open>The parser interface\<close>

text \<open>\<open>StreamTextChunk\<close>, the output of one call: text to show and payloads taken out of it.\<close>

record 'e stream_chunk =
  visible_text :: str
  extracted :: "'e list"

definition empty_chunk :: "'e stream_chunk" where
  "empty_chunk = \<lparr>visible_text = [], extracted = []\<rparr>"

definition chunk_is_empty_text :: "'e stream_chunk \<Rightarrow> bool" where
  "chunk_is_empty_text c \<longleftrightarrow> visible_text c = [] \<and> extracted c = []"

text \<open>Two outputs one after the other, as a caller that collects them sees them.\<close>

definition append_chunk :: "'e stream_chunk \<Rightarrow> 'e stream_chunk \<Rightarrow> 'e stream_chunk" where
  "append_chunk a b = \<lparr>visible_text = visible_text a @ visible_text b, extracted = extracted a @ extracted b\<rparr>"

lemma append_chunk_simps [simp]:
  "append_chunk empty_chunk c = c" "append_chunk c empty_chunk = c"
  "append_chunk (append_chunk a b) c = append_chunk a (append_chunk b c)"
  by (simp_all add: append_chunk_def empty_chunk_def)

lemma append_chunk_cancel: "append_chunk a b = a \<Longrightarrow> b = empty_chunk"
  by (cases a; cases b) (simp add: append_chunk_def empty_chunk_def)

text \<open>A parser fed chunk by chunk, with its outputs combined.\<close>

fun feed_chunks :: "('s \<Rightarrow> str \<Rightarrow> ('o \<times> 's) option) \<Rightarrow> ('o \<Rightarrow> 'o \<Rightarrow> 'o) \<Rightarrow> 'o \<Rightarrow> 's \<Rightarrow> str list \<Rightarrow> ('o \<times> 's) option" where
  "feed_chunks push combine nothing s [] = Some (nothing, s)"
| "feed_chunks push combine nothing s (c # cs) =
     (case push s c of
        None \<Rightarrow> None
      | Some (out, s') \<Rightarrow>
          (case feed_chunks push combine nothing s' cs of
             None \<Rightarrow> None
           | Some (outs, s'') \<Rightarrow> Some (combine out outs, s'')))"

text \<open>
  The contract of a \<open>StreamTextParser\<close>. A call of \<open>push_str\<close> may in general not return, so its
  result is an option; \<open>inv\<close> says which states the parser is left in, \<open>combine\<close> how the outputs
  of two calls are read as one. The law is that the cut between two pushes cannot be seen.
\<close>

locale stream_text_parser =
  fixes inv :: "'s \<Rightarrow> bool"
    and push :: "'s \<Rightarrow> str \<Rightarrow> ('o \<times> 's) option"
    and combine :: "'o \<Rightarrow> 'o \<Rightarrow> 'o"
    and nothing :: 'o
  assumes push_returns: "inv s \<Longrightarrow> \<exists>out s'. push s c = Some (out, s') \<and> inv s'"
    and push_nothing: "inv s \<Longrightarrow> push s [] = Some (nothing, s)"
    and push_append: "inv s \<Longrightarrow> push s c = Some (out, s') \<Longrightarrow> push s' d = Some (out', s'') \<Longrightarrow>
      push s (c @ d) = Some (combine out out', s'')"
    and combine_nothing: "combine out nothing = out"
    and combine_assoc: "combine (combine x y) z = combine x (combine y z)"
begin

lemma push_inv: "inv s \<Longrightarrow> push s c = Some (out, s') \<Longrightarrow> inv s'"
  using push_returns[of s c] by auto

text \<open>Pushing nothing first changes nothing, so the empty output is neutral for real outputs.\<close>

lemma nothing_combine: "inv s \<Longrightarrow> push s c = Some (out, s') \<Longrightarrow> combine nothing out = out"
  using push_append[OF _ push_nothing, of s c out s'] by simp

lemma feed_concat: "inv s \<Longrightarrow> feed_chunks push combine nothing s cs = push s (concat cs)"
proof (induction cs arbitrary: s)
  case Nil
  then show ?case by (simp add: push_nothing)
next
  case (Cons c cs)
  obtain out s' where c: "push s c = Some (out, s')" "inv s'" using push_returns[OF Cons.prems] by blast
  obtain out' s'' where d: "push s' (concat cs) = Some (out', s'')" using push_returns[OF c(2)] by blast
  from Cons.IH[OF c(2)] c d push_append[OF Cons.prems c(1) d] show ?case by simp
qed

end

section \<open>Hidden inline tags\<close>

record 't tag_spec =
  spec_tag :: 't
  spec_open :: str
  spec_close :: str

record 't active_tag =
  active_id :: 't
  active_close :: str
  active_content :: str

record 't extracted_tag =
  ext_tag :: 't
  ext_content :: str

record 't inline_parser =
  ip_specs :: "'t tag_spec list"
  ip_pending :: str
  ip_active :: "'t active_tag option"

text \<open>The constructor's assertions: it panics (\<open>None\<close>) without specs or with an empty delimiter.\<close>

definition specs_ok :: "'t tag_spec list \<Rightarrow> bool" where
  "specs_ok specs \<longleftrightarrow> specs \<noteq> [] \<and> list_all (\<lambda>s. spec_open s \<noteq> [] \<and> spec_close s \<noteq> []) specs"

definition new_inline_parser :: "'t tag_spec list \<Rightarrow> 't inline_parser option" where
  "new_inline_parser specs =
     (if specs_ok specs then Some \<lparr>ip_specs = specs, ip_pending = [], ip_active = None\<rparr> else None)"

text \<open>The candidates are compared by position, then by the longer delimiter, then by index.\<close>

definition better_open :: "nat \<times> nat \<times> nat \<Rightarrow> nat \<times> nat \<times> nat \<Rightarrow> bool" where
  "better_open a b = (case (a, b) of ((pos_a, len_a, idx_a), (pos_b, len_b, idx_b)) \<Rightarrow>
     pos_a < pos_b \<or> pos_a = pos_b \<and> (len_b < len_a \<or> len_a = len_b \<and> idx_a < idx_b))"

fun min_open :: "(nat \<times> nat \<times> nat) list \<Rightarrow> (nat \<times> nat \<times> nat) option" where
  "min_open [] = None"
| "min_open (x # xs) =
     (case min_open xs of None \<Rightarrow> Some x | Some y \<Rightarrow> Some (if better_open y x then y else x))"

definition find_next_open :: "'t tag_spec list \<Rightarrow> str \<Rightarrow> (nat \<times> nat) option" where
  "find_next_open specs pending =
     map_option (\<lambda>(pos, _, idx). (pos, idx))
       (min_open (List.map_filter
          (\<lambda>(idx, spec). map_option (\<lambda>pos. (pos, str_len (spec_open spec), idx)) (find_sub (spec_open spec) pending))
          (enumerate 0 specs)))"

text \<open>\<open>longest_suffix_prefix_len\<close>, counted in code points.\<close>

definition longest_suffix_prefix_len :: "str \<Rightarrow> str \<Rightarrow> nat" where
  "longest_suffix_prefix_len s needle =
     (case find (\<lambda>k. ends_with s (take k needle)) (rev [1 ..< Suc (min (length s) (length needle - 1))]) of
        Some k \<Rightarrow> k
      | None \<Rightarrow> 0)"

definition max_open_prefix_suffix_len :: "'t tag_spec list \<Rightarrow> str \<Rightarrow> nat" where
  "max_open_prefix_suffix_len specs pending =
     fold max (map (\<lambda>spec. longest_suffix_prefix_len pending (spec_open spec)) specs) 0"

text \<open>The loop of \<open>push_str\<close>: the text not yet decided, the tag that is open and the output so far.
  With an empty delimiter it would not end.\<close>

partial_function (option) inline_loop ::
    "'t tag_spec list \<Rightarrow> str \<Rightarrow> 't active_tag option \<Rightarrow> 't extracted_tag stream_chunk \<Rightarrow>
     ('t extracted_tag stream_chunk \<times> str \<times> 't active_tag option) option" where
  "inline_loop specs pending active out =
     (case active of
        Some a \<Rightarrow>
          (case find_sub (active_close a) pending of
             Some close_idx \<Rightarrow>
               inline_loop specs (drop (close_idx + length (active_close a)) pending) None
                 (out\<lparr>extracted := extracted out @
                    [\<lparr>ext_tag = active_id a, ext_content = active_content a @ take close_idx pending\<rparr>]\<rparr>)
           | None \<Rightarrow>
               (let keep = longest_suffix_prefix_len pending (active_close a);
                    n = length pending - keep
                in Some (out, drop n pending, Some (a\<lparr>active_content := active_content a @ take n pending\<rparr>))))
      | None \<Rightarrow>
          (case find_next_open specs pending of
             Some (open_idx, spec_idx) \<Rightarrow>
               (let spec = specs ! spec_idx
                in inline_loop specs (drop (open_idx + length (spec_open spec)) pending)
                     (Some \<lparr>active_id = spec_tag spec, active_close = spec_close spec, active_content = []\<rparr>)
                     (out\<lparr>visible_text := visible_text out @ take open_idx pending\<rparr>))
           | None \<Rightarrow>
               (let n = length pending - max_open_prefix_suffix_len specs pending
                in Some (out\<lparr>visible_text := visible_text out @ take n pending\<rparr>, drop n pending, None))))"

definition inline_push_str ::
    "'t inline_parser \<Rightarrow> str \<Rightarrow> ('t extracted_tag stream_chunk \<times> 't inline_parser) option" where
  "inline_push_str p chunk =
     (case inline_loop (ip_specs p) (ip_pending p @ chunk) (ip_active p) empty_chunk of
        None \<Rightarrow> None
      | Some (out, pending, active) \<Rightarrow> Some (out, p\<lparr>ip_pending := pending, ip_active := active\<rparr>))"

definition inline_finish :: "'t inline_parser \<Rightarrow> 't extracted_tag stream_chunk \<times> 't inline_parser" where
  "inline_finish p =
     (case ip_active p of
        Some a \<Rightarrow>
          (\<lparr>visible_text = [],
            extracted = [\<lparr>ext_tag = active_id a, ext_content = active_content a @ ip_pending p\<rparr>]\<rparr>,
           p\<lparr>ip_pending := [], ip_active := None\<rparr>)
      | None \<Rightarrow> (\<lparr>visible_text = ip_pending p, extracted = []\<rparr>, p\<lparr>ip_pending := []\<rparr>))"

section \<open>Citations\<close>

definition CITATION_OPEN :: str where "CITATION_OPEN = lit ''<oai-mem-citation>''"
definition CITATION_CLOSE :: str where "CITATION_CLOSE = lit ''</oai-mem-citation>''"

datatype citation_tag = Citation

type_synonym citation_parser = "citation_tag inline_parser"

definition citation_specs :: "citation_tag tag_spec list" where
  "citation_specs = [\<lparr>spec_tag = Citation, spec_open = CITATION_OPEN, spec_close = CITATION_CLOSE\<rparr>]"

definition new_citation_parser :: citation_parser where
  "new_citation_parser = the (new_inline_parser citation_specs)"

definition citation_chunk :: "citation_tag extracted_tag stream_chunk \<Rightarrow> str stream_chunk" where
  "citation_chunk inner =
     \<lparr>visible_text = visible_text inner, extracted = map ext_content (extracted inner)\<rparr>"

definition citation_push_str :: "citation_parser \<Rightarrow> str \<Rightarrow> (str stream_chunk \<times> citation_parser) option" where
  "citation_push_str p chunk = map_option (\<lambda>(inner, p'). (citation_chunk inner, p')) (inline_push_str p chunk)"

definition citation_finish :: "citation_parser \<Rightarrow> str stream_chunk \<times> citation_parser" where
  "citation_finish p = (case inline_finish p of (inner, p') \<Rightarrow> (citation_chunk inner, p'))"

definition strip_citations :: "str \<Rightarrow> (str \<times> str list) option" where
  "strip_citations s =
     (case citation_push_str new_citation_parser s of
        None \<Rightarrow> None
      | Some (out, p) \<Rightarrow>
          (let tail = fst (citation_finish p)
           in Some (visible_text out @ visible_text tail, extracted out @ extracted tail)))"

section \<open>The longest suffix that may start a delimiter\<close>

lemma rev_upt_Suc: "rev [1 ..< Suc (Suc m)] = Suc m # rev [1 ..< Suc m]"
  by simp

lemma find_rev_upt_None: "find P (rev [1 ..< Suc m]) = None \<longleftrightarrow> (\<forall>j. 1 \<le> j \<and> j \<le> m \<longrightarrow> \<not> P j)"
  by (auto simp: find_None_iff)

lemma find_rev_upt_Some:
  "find P (rev [1 ..< Suc m]) = Some k \<Longrightarrow> 1 \<le> k \<and> k \<le> m \<and> P k \<and> (\<forall>j. k < j \<and> j \<le> m \<longrightarrow> \<not> P j)"
proof (induction m)
  case (Suc m)
  show ?case
  proof (cases "P (Suc m)")
    case True
    with Suc.prems have "k = Suc m" unfolding rev_upt_Suc by simp
    with True show ?thesis by auto
  next
    case False
    with Suc.prems have "find P (rev [1 ..< Suc m]) = Some k" unfolding rev_upt_Suc by simp
    from Suc.IH[OF this] False show ?thesis by (metis le_Suc_eq)
  qed
qed simp

text \<open>No suffix of \<open>s\<close> longer than \<open>k\<close> is a proper prefix of the needle.\<close>

definition no_longer :: "str \<Rightarrow> str \<Rightarrow> nat \<Rightarrow> bool" where
  "no_longer s needle k \<longleftrightarrow> (\<forall>m. k < m \<and> m \<le> length s \<and> m < length needle \<longrightarrow> \<not> suffix (take m needle) s)"

lemma no_longerD: "no_longer s needle k \<Longrightarrow> k < m \<Longrightarrow> m \<le> length s \<Longrightarrow> m < length needle \<Longrightarrow> suffix (take m needle) s \<Longrightarrow> False"
  by (auto simp: no_longer_def)

lemma no_longer_mono: "no_longer s needle k \<Longrightarrow> k \<le> l \<Longrightarrow> no_longer s needle l"
  by (auto simp: no_longer_def)

lemma longest_suffix_prefix_len_spec:
  "longest_suffix_prefix_len s needle = k \<longleftrightarrow>
     (k \<le> length s \<and> (k = 0 \<or> k < length needle) \<and> suffix (take k needle) s \<and> no_longer s needle k)"
proof -
  let ?m = "min (length s) (length needle - 1)"
  let ?P = "\<lambda>k. ends_with s (take k needle)"
  let ?S = "\<lambda>k. k \<le> length s \<and> (k = 0 \<or> k < length needle) \<and> suffix (take k needle) s \<and> no_longer s needle k"
  have S: "?S (longest_suffix_prefix_len s needle)"
  proof (cases "find ?P (rev [1 ..< Suc ?m])")
    case None
    then have l: "longest_suffix_prefix_len s needle = 0" by (simp add: longest_suffix_prefix_len_def)
    from None have no: "\<And>j. 1 \<le> j \<Longrightarrow> j \<le> ?m \<Longrightarrow> \<not> ?P j" unfolding find_rev_upt_None by blast
    have "no_longer s needle 0" unfolding no_longer_def
    proof (intro allI impI)
      fix m assume "0 < m \<and> m \<le> length s \<and> m < length needle"
      with no[of m] show "\<not> suffix (take m needle) s" unfolding ends_with_suffix by (cases needle) auto
    qed
    with l show ?thesis by simp
  next
    case (Some j)
    then have l: "longest_suffix_prefix_len s needle = j" by (simp add: longest_suffix_prefix_len_def)
    from find_rev_upt_Some[OF Some] have j: "1 \<le> j" "j \<le> ?m" "?P j" and no: "\<And>i. j < i \<Longrightarrow> i \<le> ?m \<Longrightarrow> \<not> ?P i"
      by blast+
    have "no_longer s needle j" unfolding no_longer_def
    proof (intro allI impI)
      fix m assume "j < m \<and> m \<le> length s \<and> m < length needle"
      with no[of m] show "\<not> suffix (take m needle) s" unfolding ends_with_suffix by (cases needle) auto
    qed
    with j show ?thesis unfolding l by (auto simp: ends_with_suffix)
  qed
  have uniq: "?S k \<Longrightarrow> ?S l \<Longrightarrow> k = l" for k l
    by (cases k l rule: linorder_cases) (auto dest: no_longerD)
  show ?thesis using S uniq by metis
qed

lemma no_longer_append:
  assumes "no_longer (u @ v) needle (length v)" shows "no_longer (u @ v @ c) needle (length v + length c)"
  unfolding no_longer_def
proof (intro allI impI notI)
  fix m assume m: "length v + length c < m \<and> m \<le> length (u @ v @ c) \<and> m < length needle"
    and s: "suffix (take m needle) (u @ v @ c)"
  from s obtain w where w: "(u @ v) @ c = w @ take m needle" by (auto simp: suffix_def)
  let ?A = "take (m - length c) needle" and ?B = "drop (m - length c) (take m needle)"
  have "take (m - length c) (take m needle) = ?A" by (simp add: min_def)
  then have "take m needle = ?A @ ?B" using append_take_drop_id[of "m - length c" "take m needle"] by simp
  with w have "(u @ v) @ c = (w @ ?A) @ ?B" by simp
  moreover have "length c = length ?B" using m by simp
  ultimately have "u @ v = w @ ?A" using append_eq_append_conv[of "u @ v" "w @ ?A" c ?B] by blast
  then have "suffix (take (m - length c) needle) (u @ v)" by (auto simp: suffix_def)
  moreover from \<open>u @ v = _\<close> have "length w + min (length needle) (m - length c) = length u + length v"
    by (metis length_append length_take)
  ultimately show False using m by (intro no_longerD[OF assms, of "m - length c"]) auto
qed

lemma longest_shift:
  assumes "no_longer (u @ v) needle (length v)"
  shows "longest_suffix_prefix_len (u @ v @ c) needle = longest_suffix_prefix_len (v @ c) needle"
proof -
  let ?k = "longest_suffix_prefix_len (v @ c) needle"
  have k: "?k \<le> length (v @ c) \<and> (?k = 0 \<or> ?k < length needle) \<and> suffix (take ?k needle) (v @ c) \<and> no_longer (v @ c) needle ?k"
    by (simp only: longest_suffix_prefix_len_spec[symmetric])
  have "no_longer (u @ v @ c) needle ?k"
  proof (unfold no_longer_def, intro allI impI notI)
    fix m assume m: "?k < m \<and> m \<le> length (u @ v @ c) \<and> m < length needle" and s: "suffix (take m needle) (u @ v @ c)"
    show False
    proof (cases "m \<le> length (v @ c)")
      case True
      with s have "suffix (take m needle) (v @ c)" using m
        by (intro suffix_length_suffix[OF s, of "v @ c"]) (auto simp: suffix_def)
      with k m True show False using no_longerD[of "v @ c" needle ?k m] by blast
    next
      case False
      with m show False by (intro no_longerD[OF no_longer_append[OF assms, of c] _ _ _ s]) auto
    qed
  qed
  moreover have "suffix (take ?k needle) (u @ v @ c)" using k by (blast intro: suffix_appendI)
  moreover have "?k \<le> length (u @ v @ c)" using k by simp
  ultimately have "?k \<le> length (u @ v @ c) \<and> (?k = 0 \<or> ?k < length needle) \<and> suffix (take ?k needle) (u @ v @ c) \<and>
      no_longer (u @ v @ c) needle ?k" using k by blast
  then show ?thesis by (simp only: longest_suffix_prefix_len_spec[of "u @ v @ c"])
qed

lemma find_sub_shift:
  assumes none: "find_sub needle (u @ v) = None" and "no_longer (u @ v) needle (length v)"
  shows "find_sub needle (u @ v @ c) = map_option ((+) (length u)) (find_sub needle (v @ c))"
proof -
  have no: "\<not> prefix needle (drop j (u @ v @ c))" if j: "j < length u" for j
  proof
    assume p: "prefix needle (drop j (u @ v @ c))"
    have d: "drop j (u @ v @ c) = drop j (u @ v) @ c" using j by simp
    show False
    proof (cases "length needle \<le> length (drop j (u @ v))")
      case True
      with p have "prefix needle (drop j (u @ v))" unfolding d by (auto simp: prefix_append)
      moreover have "\<not> prefix needle (drop j (u @ v))" using none j unfolding find_sub_None by (simp del: drop_append)
      ultimately show False by blast
    next
      case False
      let ?m = "length (drop j (u @ v))"
      from p obtain z where z: "drop j (u @ v) @ c = needle @ z" unfolding d by (auto simp: prefix_def)
      have "take ?m (drop j (u @ v) @ c) = drop j (u @ v)" by simp
      moreover have "take ?m (needle @ z) = take ?m needle" using False by simp
      ultimately have "take ?m needle = drop j (u @ v)" using z by metis
      then have "suffix (take ?m needle) (u @ v)" by (simp only: suffix_drop)
      then show False by (rule no_longerD[OF assms(2), rotated 3]) (use j False in auto)
    qed
  qed
  show ?thesis
  proof (cases "find_sub needle (v @ c)")
    case None
    have "\<not> prefix needle (drop j (u @ v @ c))" if "j \<le> length (u @ v @ c)" for j
    proof (cases "j < length u")
      case False
      then have "drop j (u @ v @ c) = drop (j - length u) (v @ c)" by simp
      moreover have "j - length u \<le> length (v @ c)" using that False by simp
      ultimately show ?thesis using None[unfolded find_sub_None] by metis
    qed (rule no)
    then have "find_sub needle (u @ v @ c) = None" unfolding find_sub_None by blast
    with None show ?thesis by simp
  next
    case (Some i)
    then have i: "i \<le> length (v @ c)" "prefix needle (drop i (v @ c))" "\<forall>j<i. \<not> prefix needle (drop j (v @ c))"
      by (simp_all add: find_sub_Some)
    have "\<not> prefix needle (drop j (u @ v @ c))" if "j < length u + i" for j
    proof (cases "j < length u")
      case False
      then have "drop j (u @ v @ c) = drop (j - length u) (v @ c)" by simp
      moreover have "j - length u < i" using that False by simp
      ultimately show ?thesis using i(3) by metis
    qed (rule no)
    moreover have "drop (length u + i) (u @ v @ c) = drop i (v @ c)" by simp
    then have "prefix needle (drop (length u + i) (u @ v @ c))" using i(2) by (simp only:)
    moreover have "length u + i \<le> length (u @ v @ c)" using i(1) by simp
    ultimately have "find_sub needle (u @ v @ c) = Some (length u + i)" unfolding find_sub_Some by blast
    with Some show ?thesis by simp
  qed
qed

lemma find_sub_append: "find_sub needle s = Some i \<Longrightarrow> find_sub needle (s @ c) = Some i"
  unfolding find_sub_Some
proof (elim conjE, intro conjI)
  assume i: "i \<le> length s" "prefix needle (drop i s)" and no: "\<forall>j<i. \<not> prefix needle (drop j s)"
  show "i \<le> length (s @ c)" "prefix needle (drop i (s @ c))" using i by (auto simp: prefix_append)
  have len: "i + length needle \<le> length s" using i by (auto dest: prefix_length_le)
  show "\<forall>j<i. \<not> prefix needle (drop j (s @ c))"
  proof (intro allI impI notI)
    fix j assume j: "j < i" "prefix needle (drop j (s @ c))"
    then have "prefix needle (drop j s)" using len i(1) by (auto simp: prefix_append)
    with no j show False by blast
  qed
qed

lemma find_sub_len: "find_sub needle s = Some i \<Longrightarrow> i + length needle \<le> length s"
  by (auto simp: find_sub_Some dest: prefix_length_le)

section \<open>The next opening delimiter\<close>

text \<open>No opening delimiter occurs inside another one. The citation parser has a single one.\<close>

definition infix_free :: "'t tag_spec list \<Rightarrow> bool" where
  "infix_free specs \<longleftrightarrow>
     (\<forall>i<length specs. \<forall>j<length specs. i \<noteq> j \<longrightarrow> \<not> sublist (spec_open (specs ! i)) (spec_open (specs ! j)))"

lemma min_open_None: "min_open xs = None \<longleftrightarrow> xs = []"
  by (cases xs) (auto split: option.split)

lemma min_open_Some: "min_open xs = Some m \<Longrightarrow> m \<in> set xs \<and> (\<forall>x\<in>set xs. fst m \<le> fst x)"
proof (induction xs arbitrary: m)
  case (Cons x xs)
  show ?case
  proof (cases "min_open xs")
    case None
    with Cons.prems show ?thesis by (simp add: min_open_None)
  next
    case (Some y)
    from Cons.IH[OF Some] have y: "y \<in> set xs" "\<forall>z\<in>set xs. fst y \<le> fst z" by blast+
    from Cons.prems Some have m: "m = (if better_open y x then y else x)" by simp
    have "fst m \<le> fst x" "fst m \<le> fst y" unfolding m by (auto simp: better_open_def split: prod.splits)
    with y m show ?thesis by (auto intro: order_trans)
  qed
qed simp

definition open_candidates :: "'t tag_spec list \<Rightarrow> str \<Rightarrow> (nat \<times> nat \<times> nat) list" where
  "open_candidates specs p =
     List.map_filter
       (\<lambda>(idx, spec). map_option (\<lambda>pos. (pos, str_len (spec_open spec), idx)) (find_sub (spec_open spec) p))
       (enumerate 0 specs)"

lemma open_candidates:
  "x \<in> set (open_candidates specs p) \<longleftrightarrow>
     (\<exists>j<length specs. \<exists>q. find_sub (spec_open (specs ! j)) p = Some q \<and>
        x = (q, str_len (spec_open (specs ! j)), j))"
  by (auto simp: open_candidates_def map_filter_def in_set_enumerate_eq image_iff)

lemma find_next_open_candidates:
  "find_next_open specs p = map_option (\<lambda>(pos, _, idx). (pos, idx)) (min_open (open_candidates specs p))"
  by (simp add: find_next_open_def open_candidates_def)

lemma find_next_open_None:
  "find_next_open specs p = None \<longleftrightarrow> (\<forall>s\<in>set specs. find_sub (spec_open s) p = None)"
proof -
  have "find_next_open specs p = None \<longleftrightarrow> (\<forall>x. x \<notin> set (open_candidates specs p))"
    by (simp add: find_next_open_candidates min_open_None)
  also have "\<dots> \<longleftrightarrow> (\<forall>j<length specs. find_sub (spec_open (specs ! j)) p = None)"
    unfolding open_candidates by (metis not_None_eq)
  also have "\<dots> \<longleftrightarrow> (\<forall>s\<in>set specs. find_sub (spec_open s) p = None)" by (metis in_set_conv_nth)
  finally show ?thesis .
qed

lemma find_next_open_Some:
  assumes "find_next_open specs p = Some (i, k)"
  shows "k < length specs \<and> find_sub (spec_open (specs ! k)) p = Some i \<and>
    (\<forall>j<length specs. \<forall>q. find_sub (spec_open (specs ! j)) p = Some q \<longrightarrow> i \<le> q)"
proof -
  from assms obtain l where m: "min_open (open_candidates specs p) = Some (i, l, k)"
    by (auto simp: find_next_open_candidates)
  from min_open_Some[OF m] have 1: "(i, l, k) \<in> set (open_candidates specs p)"
    and 2: "\<And>x. x \<in> set (open_candidates specs p) \<Longrightarrow> i \<le> fst x"
    by auto
  from 1 have "k < length specs \<and> find_sub (spec_open (specs ! k)) p = Some i" unfolding open_candidates by auto
  moreover have "i \<le> q" if "j < length specs" "find_sub (spec_open (specs ! j)) p = Some q" for j q
    using 2[of "(q, str_len (spec_open (specs ! j)), j)"] that unfolding open_candidates by auto
  ultimately show ?thesis by blast
qed

lemma find_next_open_intro:
  assumes free: "infix_free specs" and k: "k < length specs" "find_sub (spec_open (specs ! k)) p = Some i"
    and least: "\<And>j q. j < length specs \<Longrightarrow> find_sub (spec_open (specs ! j)) p = Some q \<Longrightarrow> i \<le> q"
  shows "find_next_open specs p = Some (i, k)"
proof -
  have "find_next_open specs p \<noteq> None" unfolding find_next_open_None using k by (metis nth_mem option.distinct(1))
  then obtain i' k' where n: "find_next_open specs p = Some (i', k')" by auto
  from find_next_open_Some[OF n] k least have k': "k' < length specs" "find_sub (spec_open (specs ! k')) p = Some i'"
    and "i' = i" by (auto intro: antisym)
  have "prefix (spec_open (specs ! k)) (drop i p)" "prefix (spec_open (specs ! k')) (drop i p)"
    using k(2) k'(2) \<open>i' = i\<close> by (simp_all add: find_sub_Some)
  then have "prefix (spec_open (specs ! k)) (spec_open (specs ! k')) \<or> prefix (spec_open (specs ! k')) (spec_open (specs ! k))"
    by (rule prefix_same_cases)
  then have "k' = k"
    using free k(1) k'(1) unfolding infix_free_def by (metis prefix_imp_sublist)
  with n \<open>i' = i\<close> show ?thesis by simp
qed

lemma find_next_open_append:
  assumes free: "infix_free specs" and n: "find_next_open specs p = Some (i, k)"
  shows "find_next_open specs (p @ c) = Some (i, k)"
proof (rule find_next_open_intro[OF free])
  from find_next_open_Some[OF n] have k: "k < length specs" "find_sub (spec_open (specs ! k)) p = Some i"
    and least: "\<And>j q. j < length specs \<Longrightarrow> find_sub (spec_open (specs ! j)) p = Some q \<Longrightarrow> i \<le> q" by blast+
  show "k < length specs" "find_sub (spec_open (specs ! k)) (p @ c) = Some i" using k find_sub_append by blast+
  fix j q assume j: "j < length specs" "find_sub (spec_open (specs ! j)) (p @ c) = Some q"
  show "i \<le> q"
  proof (rule ccontr)
    assume "\<not> i \<le> q"
    then have lt: "q < i" by simp
    have len: "i + length (spec_open (specs ! k)) \<le> length p" by (rule find_sub_len[OF k(2)])
    have none: "find_sub (spec_open (specs ! j)) p = None"
    proof (rule ccontr)
      assume "find_sub (spec_open (specs ! j)) p \<noteq> None"
      then obtain r where r: "find_sub (spec_open (specs ! j)) p = Some r" by auto
      with find_sub_append[OF r, of c] j(2) have "r = q" by simp
      with least[OF j(1) r] lt show False by simp
    qed
    have pre: "prefix (spec_open (specs ! j)) (drop q (p @ c))" using j(2) by (simp add: find_sub_Some)
    have over: "length p < q + length (spec_open (specs ! j))"
    proof (rule ccontr)
      assume "\<not> length p < q + length (spec_open (specs ! j))"
      with pre lt len have "prefix (spec_open (specs ! j)) (drop q p)"
        by (auto simp: prefix_append dest: prefix_length_le)
      with none lt len show False by (simp add: find_sub_None)
    qed
    have "prefix (spec_open (specs ! k)) (drop i p)" using k(2) by (simp add: find_sub_Some)
    then obtain z where z: "drop i p = spec_open (specs ! k) @ z" by (auto simp: prefix_def)
    have "drop q (p @ c) = take (i - q) (drop q p) @ spec_open (specs ! k) @ z @ c"
    proof -
      have "drop q p = take (i - q) (drop q p) @ drop i p"
        using lt by (metis append_take_drop_id drop_drop le_add_diff_inverse2 less_imp_le_nat)
      then show ?thesis using z lt len by (simp add: drop_append)
    qed
    moreover obtain w where w: "drop q (p @ c) = spec_open (specs ! j) @ w" using pre by (auto simp: prefix_def)
    ultimately have eq: "spec_open (specs ! j) @ w = (take (i - q) (drop q p) @ spec_open (specs ! k)) @ z @ c" by simp
    have "length (take (i - q) (drop q p) @ spec_open (specs ! k)) \<le> length (spec_open (specs ! j))"
      using over len lt by simp
    with eq have "prefix (take (i - q) (drop q p) @ spec_open (specs ! k)) (spec_open (specs ! j))"
      by (metis prefix_append prefix_length_le prefix_same_cases prefixI prefix_length_prefix)
    then have "sublist (spec_open (specs ! k)) (spec_open (specs ! j))"
      by (metis append_assoc prefix_def sublist_appendI)
    moreover have "k \<noteq> j" using j(2) k(2) none by auto
    ultimately show False using free k(1) j(1) unfolding infix_free_def by blast
  qed
qed

lemma fold_max_start: "(m :: nat) \<le> fold max ks m"
proof (induction ks arbitrary: m)
  case (Cons k ks)
  from Cons.IH[of "max k m"] show ?case by simp
qed simp

lemma fold_max_ge: "k \<in> set ks \<Longrightarrow> (k :: nat) \<le> fold max ks m"
proof (induction ks arbitrary: m)
  case (Cons k' ks)
  show ?case
  proof (cases "k = k'")
    case True
    with fold_max_start[of "max k' m" ks] show ?thesis by simp
  qed (use Cons in auto)
qed simp

lemma max_open_le: "max_open_prefix_suffix_len specs p \<le> length p"
proof -
  have "\<forall>k\<in>set ks. k \<le> n \<Longrightarrow> m \<le> n \<Longrightarrow> fold max ks m \<le> n" for ks and m n :: nat
    by (induction ks arbitrary: m) auto
  moreover have "longest_suffix_prefix_len p needle \<le> length p" for needle
    using longest_suffix_prefix_len_spec by blast
  ultimately show ?thesis by (auto simp: max_open_prefix_suffix_len_def)
qed

lemma max_open_no_longer: "s \<in> set specs \<Longrightarrow> no_longer p (spec_open s) (max_open_prefix_suffix_len specs p)"
proof -
  assume s: "s \<in> set specs"
  have "no_longer p (spec_open s) (longest_suffix_prefix_len p (spec_open s))"
    using longest_suffix_prefix_len_spec by blast
  moreover have "longest_suffix_prefix_len p (spec_open s) \<le> max_open_prefix_suffix_len specs p"
    unfolding max_open_prefix_suffix_len_def by (rule fold_max_ge) (use s in simp)
  ultimately show ?thesis by (rule no_longer_mono)
qed

lemma find_next_open_shift:
  assumes free: "infix_free specs"
    and none: "\<And>s. s \<in> set specs \<Longrightarrow> find_sub (spec_open s) (u @ v) = None"
    and lng: "\<And>s. s \<in> set specs \<Longrightarrow> no_longer (u @ v) (spec_open s) (length v)"
  shows "find_next_open specs (u @ v @ c) = map_option (\<lambda>(i, k). (length u + i, k)) (find_next_open specs (v @ c))"
proof -
  have sh: "find_sub (spec_open s) (u @ v @ c) = map_option ((+) (length u)) (find_sub (spec_open s) (v @ c))"
    if "s \<in> set specs" for s
    using find_sub_shift[OF none[OF that] lng[OF that]] .
  show ?thesis
  proof (cases "find_next_open specs (v @ c)")
    case None
    then have "find_next_open specs (u @ v @ c) = None" unfolding find_next_open_None using sh by simp
    with None show ?thesis by simp
  next
    case (Some ik)
    obtain i k where ik: "ik = (i, k)" by (cases ik)
    from find_next_open_Some[OF Some[unfolded ik]]
    have k: "k < length specs" "find_sub (spec_open (specs ! k)) (v @ c) = Some i"
      and least: "\<And>j q. j < length specs \<Longrightarrow> find_sub (spec_open (specs ! j)) (v @ c) = Some q \<Longrightarrow> i \<le> q" by blast+
    have "find_next_open specs (u @ v @ c) = Some (length u + i, k)"
    proof (rule find_next_open_intro[OF free k(1)])
      show "find_sub (spec_open (specs ! k)) (u @ v @ c) = Some (length u + i)"
        using k sh[of "specs ! k"] by simp
      fix j q assume "j < length specs" "find_sub (spec_open (specs ! j)) (u @ v @ c) = Some q"
      then show "length u + i \<le> q" using sh[of "specs ! j"] least[of j] by auto
    qed
    with Some ik show ?thesis by simp
  qed
qed

section \<open>The loop\<close>

definition active_ok :: "'t active_tag option \<Rightarrow> bool" where
  "active_ok active \<longleftrightarrow> (case active of None \<Rightarrow> True | Some a \<Rightarrow> active_close a \<noteq> [])"

lemma active_ok_simps [simp]: "active_ok None" "active_ok (Some a) \<longleftrightarrow> active_close a \<noteq> []"
  by (simp_all add: active_ok_def)

lemma specs_ok_nth: "specs_ok specs \<Longrightarrow> k < length specs \<Longrightarrow> spec_open (specs ! k) \<noteq> [] \<and> spec_close (specs ! k) \<noteq> []"
  by (simp add: specs_ok_def list_all_length)

text \<open>One round of the loop in each of its four cases.\<close>

lemma loop_close:
  "find_sub (active_close a) p = Some i \<Longrightarrow>
   inline_loop specs p (Some a) out =
     inline_loop specs (drop (i + length (active_close a)) p) None
       (out\<lparr>extracted := extracted out @ [\<lparr>ext_tag = active_id a, ext_content = active_content a @ take i p\<rparr>]\<rparr>)"
  by (subst inline_loop.simps) simp

lemma loop_no_close:
  "find_sub (active_close a) p = None \<Longrightarrow>
   inline_loop specs p (Some a) out =
     (let n = length p - longest_suffix_prefix_len p (active_close a)
      in Some (out, drop n p, Some (a\<lparr>active_content := active_content a @ take n p\<rparr>)))"
  by (subst inline_loop.simps) simp

lemma loop_open:
  "find_next_open specs p = Some (i, k) \<Longrightarrow>
   inline_loop specs p None out =
     inline_loop specs (drop (i + length (spec_open (specs ! k))) p)
       (Some \<lparr>active_id = spec_tag (specs ! k), active_close = spec_close (specs ! k), active_content = []\<rparr>)
       (out\<lparr>visible_text := visible_text out @ take i p\<rparr>)"
  by (subst inline_loop.simps) (simp add: Let_def)

lemma loop_no_open:
  "find_next_open specs p = None \<Longrightarrow>
   inline_loop specs p None out =
     (let n = length p - max_open_prefix_suffix_len specs p
      in Some (out\<lparr>visible_text := visible_text out @ take n p\<rparr>, drop n p, None))"
  by (subst inline_loop.simps) simp

text \<open>An induction over the rounds: each of the two recursive cases shortens the pending text.\<close>

lemma inline_loop_induct [consumes 2, case_names close no_close opn no_open]:
  assumes ok: "specs_ok specs" "active_ok active"
    and close: "\<And>p a i out. active_close a \<noteq> [] \<Longrightarrow> find_sub (active_close a) p = Some i \<Longrightarrow>
      (\<And>out. P (drop (i + length (active_close a)) p) None out) \<Longrightarrow> P p (Some a) out"
    and no_close: "\<And>p a out. active_close a \<noteq> [] \<Longrightarrow> find_sub (active_close a) p = None \<Longrightarrow> P p (Some a) out"
    and opn: "\<And>p i k out. find_next_open specs p = Some (i, k) \<Longrightarrow>
      (\<And>out. P (drop (i + length (spec_open (specs ! k))) p)
        (Some \<lparr>active_id = spec_tag (specs ! k), active_close = spec_close (specs ! k), active_content = []\<rparr>) out) \<Longrightarrow>
      P p None out"
    and no_open: "\<And>p out. find_next_open specs p = None \<Longrightarrow> P p None out"
  shows "P p active out"
  using ok(2)
proof (induction "length p" arbitrary: p active out rule: less_induct)
  case less
  show ?case
  proof (cases active)
    case (Some a)
    then have ne: "active_close a \<noteq> []" using less.prems by simp
    show ?thesis
    proof (cases "find_sub (active_close a) p")
      case (Some i)
      have "length (drop (i + length (active_close a)) p) < length p"
        using find_sub_len[OF Some] ne by (cases p) auto
      then show ?thesis unfolding \<open>active = Some a\<close> by (intro close[OF ne Some] less.hyps) simp_all
    qed (use no_close ne \<open>active = Some a\<close> in blast)
  next
    case None
    show ?thesis
    proof (cases "find_next_open specs p")
      case (Some ik)
      obtain i k where ik: "ik = (i, k)" by (cases ik)
      from find_next_open_Some[OF Some[unfolded ik]] have k: "k < length specs"
        "i + length (spec_open (specs ! k)) \<le> length p" using find_sub_len by blast+
      have ne: "spec_open (specs ! k) \<noteq> []" "spec_close (specs ! k) \<noteq> []" using specs_ok_nth[OF ok(1) k(1)] by blast+
      have "length (drop (i + length (spec_open (specs ! k))) p) < length p" using k(2) ne(1) by (cases p) auto
      then show ?thesis unfolding \<open>active = None\<close> by (intro opn[OF Some[unfolded ik]] less.hyps) (simp_all add: ne)
    qed (use no_open \<open>active = None\<close> in blast)
  qed
qed

lemma inline_loop_returns:
  assumes "specs_ok specs" "active_ok active"
  shows "\<exists>out' p' active'. inline_loop specs p active out = Some (out', p', active') \<and> active_ok active'"
  using assms
proof (induction p active out rule: inline_loop_induct)
  case (close p a i out) then show ?case by (simp add: loop_close)
next
  case (no_close p a out) then show ?case by (simp add: loop_no_close Let_def)
next
  case (opn p i k out) then show ?case by (simp add: loop_open)
next
  case (no_open p out) then show ?case by (simp add: loop_no_open Let_def)
qed

lemma append_chunk_update [simp]:
  "append_chunk x (out\<lparr>extracted := extracted out @ es\<rparr>) =
     (append_chunk x out)\<lparr>extracted := extracted (append_chunk x out) @ es\<rparr>"
  "append_chunk x (out\<lparr>visible_text := visible_text out @ t\<rparr>) =
     (append_chunk x out)\<lparr>visible_text := visible_text (append_chunk x out) @ t\<rparr>"
  by (simp_all add: append_chunk_def)

text \<open>The output so far is only added to.\<close>

lemma inline_loop_acc:
  assumes "specs_ok specs" "active_ok active" and "inline_loop specs p active out = Some (out', p', active')"
  shows "inline_loop specs p active (append_chunk x out) = Some (append_chunk x out', p', active')"
  using assms
proof (induction p active out rule: inline_loop_induct)
  case (close p a i out)
  from close.IH[OF close.prems[unfolded loop_close[OF close.hyps(2)]]] show ?case
    unfolding loop_close[OF close.hyps(2)] by simp
next
  case (no_close p a out) then show ?case by (simp add: loop_no_close Let_def)
next
  case (opn p i k out)
  from opn.IH[OF opn.prems[unfolded loop_open[OF opn.hyps]]] show ?case
    unfolding loop_open[OF opn.hyps] by simp
next
  case (no_open p out)
  then show ?case unfolding loop_no_open[OF no_open.hyps] Let_def by (auto simp flip: append_chunk_update)
qed

text \<open>Cutting a text whose beginning is already decided.\<close>

lemma cut_shift:
  assumes "k \<le> length w"
  shows "take (length (u @ w) - k) (u @ w) = u @ take (length w - k) w"
    "drop (length (u @ w) - k) (u @ w) = drop (length w - k) w"
proof -
  have "length (u @ w) - k = length u + (length w - k)" using assms by simp
  then show "take (length (u @ w) - k) (u @ w) = u @ take (length w - k) w"
    "drop (length (u @ w) - k) (u @ w) = drop (length w - k) w" by simp_all
qed

text \<open>Looking at more text later gives what looking at all of it at once gives.\<close>

lemma loop_no_close_shift:
  assumes none: "find_sub (active_close a) (u @ v) = None" and nl: "no_longer (u @ v) (active_close a) (length v)"
  shows "inline_loop specs (u @ v @ c) (Some a) out =
      inline_loop specs (v @ c) (Some (a\<lparr>active_content := active_content a @ u\<rparr>)) out"
proof (cases "find_sub (active_close a) (v @ c)")
  case None
  then have n: "find_sub (active_close a) (u @ v @ c) = None" unfolding find_sub_shift[OF none nl] by simp
  have "longest_suffix_prefix_len (v @ c) (active_close a) \<le> length (v @ c)"
    using longest_suffix_prefix_len_spec by blast
  note cut = cut_shift[OF this, of u]
  have m: "find_sub (active_close (a\<lparr>active_content := active_content a @ u\<rparr>)) (v @ c) = None" using None by simp
  show ?thesis unfolding loop_no_close[OF n] loop_no_close[OF m] using cut
    by (simp only: longest_shift[OF nl] Let_def append_assoc) simp
next
  case (Some i)
  then have "find_sub (active_close a) (u @ v @ c) = Some (length u + i)" unfolding find_sub_shift[OF none nl] by simp
  note n = this
  have m: "find_sub (active_close (a\<lparr>active_content := active_content a @ u\<rparr>)) (v @ c) = Some i" using Some by simp
  show ?thesis unfolding loop_close[OF n] loop_close[OF m] by (simp add: add.assoc)
qed

lemma loop_no_open_shift:
  assumes free: "infix_free specs"
    and none: "\<And>s. s \<in> set specs \<Longrightarrow> find_sub (spec_open s) (u @ v) = None"
    and nl: "\<And>s. s \<in> set specs \<Longrightarrow> no_longer (u @ v) (spec_open s) (length v)"
  shows "inline_loop specs (u @ v @ c) None out =
      inline_loop specs (v @ c) None (out\<lparr>visible_text := visible_text out @ u\<rparr>)"
proof -
  have fo: "find_next_open specs (u @ v @ c) = map_option (\<lambda>(i, k). (length u + i, k)) (find_next_open specs (v @ c))"
    by (rule find_next_open_shift[OF free]) (use none nl in blast)+
  have mx: "max_open_prefix_suffix_len specs (u @ v @ c) = max_open_prefix_suffix_len specs (v @ c)"
    unfolding max_open_prefix_suffix_len_def
    by (rule arg_cong[of _ _ "\<lambda>ks. fold max ks 0"], rule map_cong[OF refl], rule longest_shift[OF nl])
  show ?thesis
  proof (cases "find_next_open specs (v @ c)")
    case None
    then have n: "find_next_open specs (u @ v @ c) = None" unfolding fo by simp
    from cut_shift[OF max_open_le[of specs "v @ c"], of u] show ?thesis
      unfolding loop_no_open[OF n] loop_no_open[OF None] mx Let_def by simp
  next
    case (Some ik)
    obtain i k where ik: "ik = (i, k)" by (cases ik)
    with Some have n: "find_next_open specs (u @ v @ c) = Some (length u + i, k)"
      unfolding fo by simp
    show ?thesis unfolding loop_open[OF n] loop_open[OF Some[unfolded ik]] by (simp add: add.assoc)
  qed
qed

lemma inline_loop_append:
  assumes ok: "specs_ok specs" "active_ok active" and free: "infix_free specs"
    and run: "inline_loop specs p active out = Some (out', p', active')"
  shows "inline_loop specs (p @ c) active out = inline_loop specs (p' @ c) active' out'"
  using ok run
proof (induction p active out rule: inline_loop_induct)
  case (close p a i out)
  have "i + length (active_close a) \<le> length p" by (rule find_sub_len[OF close.hyps(2)])
  with close show ?case by (simp add: loop_close find_sub_append)
next
  case (no_close p a out)
  let ?k = "longest_suffix_prefix_len p (active_close a)"
  define u v where uv: "u = take (length p - ?k) p" "v = drop (length p - ?k) p"
  have k: "?k \<le> length p" "no_longer p (active_close a) ?k"
    using longest_suffix_prefix_len_spec[of p "active_close a" ?k] by simp_all
  have p: "p = u @ v" "length v = ?k" using k(1) by (simp_all add: uv)
  have eqs: "out' = out" "p' = v" "active' = Some (a\<lparr>active_content := active_content a @ u\<rparr>)"
    using no_close.prems unfolding loop_no_close[OF no_close.hyps(2)] Let_def uv by simp_all
  from loop_no_close_shift[of a u v specs c out] no_close.hyps(2) k(2) show ?case
    unfolding eqs p(1)[symmetric] p(2) by (simp only: p(1)[symmetric] append_assoc[symmetric])
next
  case (opn p i k out)
  have "i + length (spec_open (specs ! k)) \<le> length p"
    using find_next_open_Some[OF opn.hyps] find_sub_len by blast
  with opn find_next_open_append[OF free opn.hyps, of c] show ?case by (simp add: loop_open)
next
  case (no_open p out)
  let ?k = "max_open_prefix_suffix_len specs p"
  define u v where uv: "u = take (length p - ?k) p" "v = drop (length p - ?k) p"
  have p: "p = u @ v" "length v = ?k" using max_open_le[of specs p] by (simp_all add: uv)
  have eqs: "out' = out\<lparr>visible_text := visible_text out @ u\<rparr>" "p' = v" "active' = None"
    using no_open.prems unfolding loop_no_open[OF no_open.hyps] Let_def uv by simp_all
  have "inline_loop specs (u @ v @ c) None out =
      inline_loop specs (v @ c) None (out\<lparr>visible_text := visible_text out @ u\<rparr>)"
  proof (rule loop_no_open_shift[OF free])
    fix s assume s: "s \<in> set specs"
    show "find_sub (spec_open s) (u @ v) = None"
      using no_open.hyps s unfolding find_next_open_None p(1)[symmetric] by blast
    show "no_longer (u @ v) (spec_open s) (length v)"
      using max_open_no_longer[OF s, of p] unfolding p(2) p(1)[symmetric] .
  qed
  then show ?case unfolding eqs by (simp add: p(1))
qed

section \<open>The inline parser keeps the contract\<close>

text \<open>The states a parser can be in between pushes: non-empty delimiters, none inside another, and
  nothing in the pending text that the loop would still act on.\<close>

definition inline_inv :: "'t inline_parser \<Rightarrow> bool" where
  "inline_inv p \<longleftrightarrow> specs_ok (ip_specs p) \<and> infix_free (ip_specs p) \<and> active_ok (ip_active p) \<and>
     inline_loop (ip_specs p) (ip_pending p) (ip_active p) empty_chunk = Some (empty_chunk, ip_pending p, ip_active p)"

lemma inline_loop_settled:
  assumes ok: "specs_ok specs" "active_ok active" "infix_free specs"
    and run: "inline_loop specs p active out = Some (out', p', active')"
  shows "active_ok active' \<and> inline_loop specs p' active' empty_chunk = Some (empty_chunk, p', active')"
proof -
  from inline_loop_returns[OF ok(1,2), of p out] run have ok': "active_ok active'" by auto
  from inline_loop_append[OF ok run, of "[]"] run
  have again: "inline_loop specs p' active' out' = Some (out', p', active')" by simp
  from inline_loop_returns[OF ok(1) ok', of p' empty_chunk] obtain o2 q b
    where e: "inline_loop specs p' active' empty_chunk = Some (o2, q, b)" by blast
  from inline_loop_acc[OF ok(1) ok' e, of out'] again
  have "append_chunk out' o2 = out'" "q = p'" "b = active'" by simp_all
  with e ok' show ?thesis by (simp add: append_chunk_cancel)
qed

lemma inline_push_cases:
  assumes "inline_inv p"
  obtains out pending active where
    "inline_loop (ip_specs p) (ip_pending p @ c) (ip_active p) empty_chunk = Some (out, pending, active)"
    "inline_push_str p c = Some (out, p\<lparr>ip_pending := pending, ip_active := active\<rparr>)"
    "inline_inv (p\<lparr>ip_pending := pending, ip_active := active\<rparr>)"
proof -
  from assms have ok: "specs_ok (ip_specs p)" "active_ok (ip_active p)" "infix_free (ip_specs p)"
    by (simp_all add: inline_inv_def)
  from inline_loop_returns[OF ok(1,2), of "ip_pending p @ c" empty_chunk] obtain out pending active
    where run: "inline_loop (ip_specs p) (ip_pending p @ c) (ip_active p) empty_chunk = Some (out, pending, active)"
    by blast
  from inline_loop_settled[OF ok run] ok have "inline_inv (p\<lparr>ip_pending := pending, ip_active := active\<rparr>)"
    by (simp add: inline_inv_def)
  with that run show thesis by (simp add: inline_push_str_def)
qed

lemma inline_push_append:
  assumes inv: "inline_inv p" and c: "inline_push_str p c = Some (out, p')" and d: "inline_push_str p' d = Some (out', p'')"
  shows "inline_push_str p (c @ d) = Some (append_chunk out out', p'')"
proof -
  from inv have ok: "specs_ok (ip_specs p)" "active_ok (ip_active p)" "infix_free (ip_specs p)"
    by (simp_all add: inline_inv_def)
  from inline_push_cases[OF inv, of c] c obtain pending active where
    run: "inline_loop (ip_specs p) (ip_pending p @ c) (ip_active p) empty_chunk = Some (out, pending, active)"
    and p': "p' = p\<lparr>ip_pending := pending, ip_active := active\<rparr>" and inv': "inline_inv p'"
    by (metis option.inject prod.inject)
  from inline_push_cases[OF inv', of d] d obtain pending' active' where
    run': "inline_loop (ip_specs p) (pending @ d) active empty_chunk = Some (out', pending', active')"
    and p'': "p'' = p\<lparr>ip_pending := pending', ip_active := active'\<rparr>"
    unfolding p' by (auto simp: inline_push_str_def split: option.splits prod.splits)
  have "active_ok active" using inv' by (simp add: p' inline_inv_def)
  from inline_loop_acc[OF ok(1) this run', of out] inline_loop_append[OF ok run, of d]
  show ?thesis by (simp add: inline_push_str_def p'')
qed

interpretation inline: stream_text_parser inline_inv inline_push_str append_chunk empty_chunk
proof
  fix p :: "'t inline_parser" and c
  assume inv: "inline_inv p"
  from inline_push_cases[OF inv, of c] show "\<exists>out p'. inline_push_str p c = Some (out, p') \<and> inline_inv p'" by metis
  show "inline_push_str p [] = Some (empty_chunk, p)" using inv by (simp add: inline_push_str_def inline_inv_def)
qed (simp_all add: inline_push_append)

lemma inline_inv_new: "new_inline_parser specs = Some p \<Longrightarrow> infix_free specs \<Longrightarrow> inline_inv p"
proof -
  assume new: "new_inline_parser specs = Some p" and free: "infix_free specs"
  then have ok: "specs_ok specs" and p: "p = \<lparr>ip_specs = specs, ip_pending = [], ip_active = None\<rparr>"
    by (auto simp: new_inline_parser_def split: if_splits)
  have "find_next_open specs [] = None"
    unfolding find_next_open_None using ok by (auto simp: specs_ok_def list_all_iff)
  from loop_no_open[OF this, of empty_chunk] have "inline_loop specs [] None empty_chunk = Some (empty_chunk, [], None)"
    by (simp add: empty_chunk_def)
  with ok free show ?thesis by (simp add: inline_inv_def p)
qed

section \<open>Citations\<close>

lemma citation_new: "new_inline_parser citation_specs = Some new_citation_parser"
  by (simp add: new_citation_parser_def new_inline_parser_def specs_ok_def citation_specs_def CITATION_OPEN_def
    CITATION_CLOSE_def)

lemma citation_inv_new: "inline_inv new_citation_parser"
  using citation_new by (rule inline_inv_new) (simp add: infix_free_def citation_specs_def)

lemma citation_chunk_append: "citation_chunk (append_chunk a b) = append_chunk (citation_chunk a) (citation_chunk b)"
  by (simp add: citation_chunk_def append_chunk_def)

interpretation citations: stream_text_parser inline_inv citation_push_str append_chunk empty_chunk
proof
  fix p :: citation_parser and c d out p' out' p''
  assume inv: "inline_inv p"
  from inline.push_returns[OF inv, of c] show "\<exists>out p'. citation_push_str p c = Some (out, p') \<and> inline_inv p'"
    by (auto simp: citation_push_str_def)
  show "citation_push_str p [] = Some (empty_chunk, p)"
    using inline.push_nothing[OF inv] by (simp add: citation_push_str_def citation_chunk_def empty_chunk_def)
  show "citation_push_str p (c @ d) = Some (append_chunk out out', p'')"
    if "citation_push_str p c = Some (out, p')" "citation_push_str p' d = Some (out', p'')"
    using that inline.push_append[OF inv] by (auto simp: citation_push_str_def citation_chunk_append)
qed simp_all

text \<open>
  Citations do not depend on the chunks. However a text is cut into chunks, feeding them to the
  citation parser returns, and the visible text and the citations it gives, with those of the final
  flush, are the ones of stripping the whole text at once.
\<close>
theorem citation_chunks_invisible:
  "\<exists>out p. feed_chunks citation_push_str append_chunk empty_chunk new_citation_parser cs = Some (out, p) \<and>
     strip_citations (concat cs) =
       Some (visible_text out @ visible_text (fst (citation_finish p)),
             extracted out @ extracted (fst (citation_finish p)))"
proof -
  obtain out p where "citation_push_str new_citation_parser (concat cs) = Some (out, p)"
    using citations.push_returns[OF citation_inv_new] by blast
  then show ?thesis
    unfolding citations.feed_concat[OF citation_inv_new] by (simp add: strip_citations_def Let_def)
qed

lemma find_sub_head:
  assumes "x \<notin> set ns" "\<not> contains_sub v (x # ns)"
  shows "find_sub (x # ns) (v @ (x # ns) @ r) = Some (length v)"
proof -
  have "\<not> prefix (x # ns) (drop j (v @ (x # ns) @ r))" if j: "j < length v" for j
  proof
    assume p: "prefix (x # ns) (drop j (v @ (x # ns) @ r))"
    have d: "drop j (v @ (x # ns) @ r) = drop j v @ (x # ns) @ r" using j by simp
    show False
    proof (cases "Suc (length ns) \<le> length (drop j v)")
      case True
      have "prefix (x # ns) (drop j v)"
        by (rule prefix_length_prefix[OF p[unfolded d]]) (use True in auto)
      moreover have "\<not> prefix (x # ns) (drop j v)"
        using assms(2) j unfolding contains_sub_def not_not find_sub_None by (meson less_imp_le)
      ultimately show False by blast
    next
      case False
      let ?k = "length (drop j v)"
      have k: "0 < ?k" "?k < length (x # ns)" using j False by simp_all
      have "(drop j v @ (x # ns) @ r) ! ?k = x" by (simp add: nth_append)
      moreover have "(drop j v @ (x # ns) @ r) ! ?k = (x # ns) ! ?k"
        using p[unfolded d] k(2) by (metis nth_append prefix_def)
      moreover have "(x # ns) ! ?k \<in> set ns" using k by (cases ?k) auto
      ultimately show False using assms(1) by simp
    qed
  qed
  then show ?thesis unfolding find_sub_Some by simp
qed

text \<open>A text with citations: plain pieces and citation bodies in turn, then a plain rest and perhaps
  a citation that is never closed.\<close>

fun cited_text :: "(str \<times> str) list \<Rightarrow> str \<Rightarrow> str option \<Rightarrow> str" where
  "cited_text [] rest unclosed = rest @ (case unclosed of None \<Rightarrow> [] | Some c \<Rightarrow> CITATION_OPEN @ c)"
| "cited_text ((v, c) # ps) rest unclosed =
     v @ CITATION_OPEN @ c @ CITATION_CLOSE @ cited_text ps rest unclosed"

lemma citation_delims:
  "CITATION_OPEN = 60 # tl CITATION_OPEN" "60 \<notin> set (tl CITATION_OPEN)"
  "CITATION_CLOSE = 60 # tl CITATION_CLOSE" "60 \<notin> set (tl CITATION_CLOSE)"
  by (simp_all add: CITATION_OPEN_def CITATION_CLOSE_def lit_simps)

lemma find_open: "\<not> contains_sub v CITATION_OPEN \<Longrightarrow> find_sub CITATION_OPEN (v @ CITATION_OPEN @ r) = Some (length v)"
  using find_sub_head citation_delims by metis

lemma find_close: "\<not> contains_sub c CITATION_CLOSE \<Longrightarrow> find_sub CITATION_CLOSE (c @ CITATION_CLOSE @ r) = Some (length c)"
  using find_sub_head citation_delims by metis

lemma find_next_citation: "find_next_open citation_specs p = map_option (\<lambda>i. (i, 0)) (find_sub CITATION_OPEN p)"
  by (cases "find_sub CITATION_OPEN p")
    (simp_all add: find_next_open_def citation_specs_def map_filter_simps)

lemma loop_citation:
  assumes "\<not> contains_sub v CITATION_OPEN" "\<not> contains_sub c CITATION_CLOSE"
  shows "inline_loop citation_specs (v @ CITATION_OPEN @ c @ CITATION_CLOSE @ r) None out =
    inline_loop citation_specs r None
      \<lparr>visible_text = visible_text out @ v, extracted = extracted out @ [\<lparr>ext_tag = Citation, ext_content = c\<rparr>]\<rparr>"
proof -
  have "find_next_open citation_specs (v @ CITATION_OPEN @ c @ CITATION_CLOSE @ r) = Some (length v, 0)"
    by (simp add: find_next_citation find_open[OF assms(1)])
  note o = loop_open[OF this, of out]
  show ?thesis unfolding o
    by (subst loop_close[where i = "length c"]; cases out) (simp_all add: citation_specs_def find_close[OF assms(2)])
qed

lemma strip_citations_loop:
  assumes "inline_loop citation_specs s None empty_chunk = Some (out, p, active)"
  shows "strip_citations s = Some (visible_text out @ (case active of None \<Rightarrow> p | Some _ \<Rightarrow> []),
    map ext_content (extracted out) @ (case active of None \<Rightarrow> [] | Some a \<Rightarrow> [active_content a @ p]))"
proof -
  have nc: "new_citation_parser = \<lparr>ip_specs = citation_specs, ip_pending = [], ip_active = None\<rparr>"
    using citation_new unfolding new_inline_parser_def by (metis option.distinct(1) option.inject)
  have sel: "ip_specs new_citation_parser = citation_specs" "ip_pending new_citation_parser = []"
    "ip_active new_citation_parser = None" unfolding nc by simp_all
  show ?thesis
    using assms by (simp add: sel strip_citations_def citation_push_str_def inline_push_str_def Let_def citation_chunk_def
      citation_finish_def inline_finish_def split: option.split)
qed

text \<open>
  Citations round trip. A text made of plain pieces and tagged citations, possibly ending in a
  citation that is not closed, is stripped to the plain pieces and exactly those citations, the
  unclosed one included; the plain pieces may contain anything but the opening tag, the citations
  anything but the closing one.
\<close>
theorem strip_cited_text:
  assumes "\<forall>(v, c) \<in> set ps. \<not> contains_sub v CITATION_OPEN \<and> \<not> contains_sub c CITATION_CLOSE"
    and "\<not> contains_sub rest CITATION_OPEN"
    and "case unclosed of None \<Rightarrow> True | Some c \<Rightarrow> \<not> contains_sub c CITATION_CLOSE"
  shows "strip_citations (cited_text ps rest unclosed) =
    Some (concat (map fst ps) @ rest, map snd ps @ (case unclosed of None \<Rightarrow> [] | Some c \<Rightarrow> [c]))"
proof -
  let ?tag = "\<lambda>c. \<lparr>ext_tag = Citation, ext_content = c\<rparr>"
  define vs where "vs = concat (map fst ps) @ rest"
  have pieces: "inline_loop citation_specs (cited_text ps rest unclosed) None out =
      inline_loop citation_specs (cited_text [] rest unclosed) None
        \<lparr>visible_text = visible_text out @ concat (map fst ps), extracted = extracted out @ map (\<lambda>x. ?tag (snd x)) ps\<rparr>" for out
    using assms(1)
  proof (induction ps arbitrary: out)
    case (Cons p ps)
    obtain v c where "p = (v, c)" by (cases p)
    with Cons show ?case by (simp add: loop_citation)
  next
    case Nil
    then show ?case by (cases out) simp
  qed
  let ?out = "\<lparr>visible_text = concat (map fst ps), extracted = map (\<lambda>x. ?tag (snd x)) ps\<rparr>"
  have start: "inline_loop citation_specs (cited_text ps rest unclosed) None empty_chunk =
      inline_loop citation_specs (cited_text [] rest unclosed) None ?out"
    unfolding pieces by (simp add: empty_chunk_def)
  show ?thesis
  proof (cases unclosed)
    case None
    then have "find_next_open citation_specs (cited_text [] rest unclosed) = None"
      using assms(2) by (simp add: find_next_citation contains_sub_def)
    from strip_citations_loop[OF trans[OF start loop_no_open[OF this, unfolded Let_def]]] None
    show ?thesis by (simp add: comp_def)
  next
    case (Some c)
    then have "find_next_open citation_specs (cited_text [] rest unclosed) = Some (length rest, 0)"
      using find_open[OF assms(2), of c] by (simp add: find_next_citation)
    note o = trans[OF start loop_open[OF this]]
    have "find_sub CITATION_CLOSE c = None" using assms(3) Some by (simp add: contains_sub_def)
    with o Some have "inline_loop citation_specs (cited_text ps rest unclosed) None empty_chunk =
        (let n = length c - longest_suffix_prefix_len c CITATION_CLOSE
         in Some (\<lparr>visible_text = concat (map fst ps) @ rest, extracted = map (\<lambda>x. ?tag (snd x)) ps\<rparr>, drop n c,
              Some \<lparr>active_id = Citation, active_close = CITATION_CLOSE, active_content = take n c\<rparr>))"
      by (simp add: citation_specs_def loop_no_close)
    from strip_citations_loop[OF this[unfolded Let_def]] Some show ?thesis by (simp add: comp_def)
  qed
qed

theorem strip_cited_text_witness:
  "strip_citations (cited_text [(lit ''a < b '', lit ''doc 1'')] (lit '' end'') (Some (lit ''doc 2''))) =
     Some (lit ''a < b  end'', [lit ''doc 1'', lit ''doc 2''])"
  using strip_cited_text[of "[(lit ''a < b '', lit ''doc 1'')]" "lit '' end''" "Some (lit ''doc 2'')"]
  by (simp add: contains_sub_def CITATION_OPEN_def CITATION_CLOSE_def lit_simps starts_with_def)

end
