(* ===== verification/PlanStream.thy ===== *)
theory PlanStream
  imports StreamText
begin

text \<open>
  Tag blocks on lines of their own and the parsers built on them
  (\<open>utils/stream-parser/src/tagged_line_parser.rs\<close>, \<open>proposed_plan.rs\<close>, \<open>assistant_text.rs\<close>). The
  tagged line parser works character by character and holds a line back only while it can still be
  a tag; the reference it is compared with takes whole lines. Outputs of two calls are combined by
  joining adjacent text segments, as the parser does inside one call.
\<close>

section \<open>Tags on lines of their own\<close>

record 't line_tag_spec =
  line_open :: str
  line_close :: str
  line_tag :: 't

datatype 't segment = Normal str | TagStart 't | TagDelta 't str | TagEnd 't

record 't tagged_line_parser =
  tl_specs :: "'t line_tag_spec list"
  active_tag_of :: "'t option"
  detect_tag :: bool
  line_buffer_of :: str

definition new_tagged_line_parser :: "'t line_tag_spec list \<Rightarrow> 't tagged_line_parser" where
  "new_tagged_line_parser specs =
     \<lparr>tl_specs = specs, active_tag_of = None, detect_tag = True, line_buffer_of = []\<rparr>"

text \<open>A text segment is joined to the last one when both are of the same kind.\<close>

definition push_segment :: "'t segment list \<Rightarrow> 't segment \<Rightarrow> 't segment list" where
  "push_segment segments segment =
     (case segment of
        Normal delta \<Rightarrow>
          if delta = [] then segments
          else (case last_opt segments of
                  Some (Normal existing) \<Rightarrow> butlast segments @ [Normal (existing @ delta)]
                | _ \<Rightarrow> segments @ [Normal delta])
      | TagDelta tag delta \<Rightarrow>
          if delta = [] then segments
          else (case last_opt segments of
                  Some (TagDelta existing_tag existing) \<Rightarrow>
                    if existing_tag = tag then butlast segments @ [TagDelta tag (existing @ delta)]
                    else segments @ [TagDelta tag delta]
                | _ \<Rightarrow> segments @ [TagDelta tag delta])
      | TagStart tag \<Rightarrow> segments @ [TagStart tag]
      | TagEnd tag \<Rightarrow> segments @ [TagEnd tag])"

definition text_segment :: "'t option \<Rightarrow> str \<Rightarrow> 't segment" where
  "text_segment active t = (case active of Some tag \<Rightarrow> TagDelta tag t | None \<Rightarrow> Normal t)"

definition push_text :: "'t tagged_line_parser \<Rightarrow> str \<Rightarrow> 't segment list \<Rightarrow> 't segment list" where
  "push_text p t segments = push_segment segments (text_segment (active_tag_of p) t)"

definition is_tag_prefix :: "'t tagged_line_parser \<Rightarrow> str \<Rightarrow> bool" where
  "is_tag_prefix p slug \<longleftrightarrow>
     list_ex (\<lambda>spec. starts_with (line_open spec) (trim_end slug) \<or> starts_with (line_close spec) (trim_end slug))
       (tl_specs p)"

definition match_open :: "'t tagged_line_parser \<Rightarrow> str \<Rightarrow> 't option" where
  "match_open p slug = map_option line_tag (find (\<lambda>spec. line_open spec = slug) (tl_specs p))"

definition match_close :: "'t tagged_line_parser \<Rightarrow> str \<Rightarrow> 't option" where
  "match_close p slug = map_option line_tag (find (\<lambda>spec. line_close spec = slug) (tl_specs p))"

text \<open>What a complete line does: it opens a tag, closes the open one, or is text.\<close>

definition line_slug :: "str \<Rightarrow> str" where
  "line_slug line = trim_end (trim_start (case strip_suffix line [NL] of Some l \<Rightarrow> l | None \<Rightarrow> line))"

definition take_line :: "'t tagged_line_parser \<Rightarrow> str \<Rightarrow> 't segment list \<Rightarrow> 't tagged_line_parser \<times> 't segment list" where
  "take_line p line segments =
     (let slug = line_slug line in
      case (if active_tag_of p = None then match_open p slug else None) of
        Some tag \<Rightarrow> (p\<lparr>active_tag_of := Some tag\<rparr>, push_segment segments (TagStart tag))
      | None \<Rightarrow>
          (case match_close p slug of
             Some tag \<Rightarrow>
               if active_tag_of p = Some tag
               then (p\<lparr>active_tag_of := None\<rparr>, push_segment segments (TagEnd tag))
               else (p, push_text p line segments)
           | None \<Rightarrow> (p, push_text p line segments)))"

definition finish_line :: "'t tagged_line_parser \<Rightarrow> 't segment list \<Rightarrow> 't tagged_line_parser \<times> 't segment list" where
  "finish_line p segments =
     (case take_line (p\<lparr>line_buffer_of := []\<rparr>) (line_buffer_of p) segments of
        (p', segments') \<Rightarrow> (p'\<lparr>detect_tag := True\<rparr>, segments'))"

fun parse_loop ::
    "'t tagged_line_parser \<Rightarrow> str \<Rightarrow> 't segment list \<Rightarrow> str \<Rightarrow> 't tagged_line_parser \<times> 't segment list" where
  "parse_loop p run segments [] = (p, if run = [] then segments else push_text p run segments)"
| "parse_loop p run segments (ch # delta) =
     (if detect_tag p then
        (let segments = (if run = [] then segments else push_text p run segments);
             p = p\<lparr>line_buffer_of := line_buffer_of p @ [ch]\<rparr>
         in if ch = NL then
              (case finish_line p segments of (p', segments') \<Rightarrow> parse_loop p' [] segments' delta)
            else
              (let slug = trim_start (line_buffer_of p)
               in if slug = [] \<or> is_tag_prefix p slug then parse_loop p [] segments delta
                  else parse_loop (p\<lparr>line_buffer_of := [], detect_tag := False\<rparr>) []
                         (push_text p (line_buffer_of p) segments) delta))
      else if ch = NL then parse_loop (p\<lparr>detect_tag := True\<rparr>) [] (push_text p (run @ [ch]) segments) delta
      else parse_loop p (run @ [ch]) segments delta)"

definition parse_delta :: "'t tagged_line_parser \<Rightarrow> str \<Rightarrow> 't segment list \<times> 't tagged_line_parser" where
  "parse_delta p delta = (case parse_loop p [] [] delta of (p', segments) \<Rightarrow> (segments, p'))"

definition finish_tagged :: "'t tagged_line_parser \<Rightarrow> 't segment list \<times> 't tagged_line_parser" where
  "finish_tagged p =
     (let (p1, segments) =
            (if line_buffer_of p = [] then (p, [])
             else take_line (p\<lparr>line_buffer_of := []\<rparr>) (line_buffer_of p) []);
          (p2, segments) =
            (case active_tag_of p1 of
               Some tag \<Rightarrow> (p1\<lparr>active_tag_of := None\<rparr>, push_segment segments (TagEnd tag))
             | None \<Rightarrow> (p1, segments))
      in (segments, p2\<lparr>detect_tag := True\<rparr>))"

section \<open>Proposed plans\<close>

definition OPEN_TAG :: str where "OPEN_TAG = lit ''<proposed_plan>''"
definition CLOSE_TAG :: str where "CLOSE_TAG = lit ''</proposed_plan>''"

datatype plan_tag = ProposedPlan

datatype plan_segment = PlanNormal str | ProposedPlanStart | ProposedPlanDelta str | ProposedPlanEnd

type_synonym plan_parser = "plan_tag tagged_line_parser"

definition new_plan_parser :: plan_parser where
  "new_plan_parser =
     new_tagged_line_parser [\<lparr>line_open = OPEN_TAG, line_close = CLOSE_TAG, line_tag = ProposedPlan\<rparr>]"

fun plan_segment_of :: "plan_tag segment \<Rightarrow> plan_segment" where
  "plan_segment_of (Normal t) = PlanNormal t"
| "plan_segment_of (TagStart ProposedPlan) = ProposedPlanStart"
| "plan_segment_of (TagDelta ProposedPlan t) = ProposedPlanDelta t"
| "plan_segment_of (TagEnd ProposedPlan) = ProposedPlanEnd"

fun normal_text :: "plan_segment \<Rightarrow> str" where
  "normal_text (PlanNormal t) = t"
| "normal_text _ = []"

definition map_segments :: "plan_tag segment list \<Rightarrow> plan_segment stream_chunk" where
  "map_segments segments =
     (let mapped = map plan_segment_of segments
      in \<lparr>visible_text = concat (map normal_text mapped), extracted = mapped\<rparr>)"

definition plan_push_str :: "plan_parser \<Rightarrow> str \<Rightarrow> plan_segment stream_chunk \<times> plan_parser" where
  "plan_push_str p chunk = (case parse_delta p chunk of (segments, p') \<Rightarrow> (map_segments segments, p'))"

definition plan_finish :: "plan_parser \<Rightarrow> plan_segment stream_chunk \<times> plan_parser" where
  "plan_finish p = (case finish_tagged p of (segments, p') \<Rightarrow> (map_segments segments, p'))"

definition strip_proposed_plan_blocks :: "str \<Rightarrow> str" where
  "strip_proposed_plan_blocks s =
     (case plan_push_str new_plan_parser s of
        (out, p) \<Rightarrow> visible_text out @ visible_text (fst (plan_finish p)))"

text \<open>The plan text after one segment, and whether a block was seen.\<close>

fun plan_text_step :: "plan_segment \<Rightarrow> bool \<times> str \<Rightarrow> bool \<times> str" where
  "plan_text_step ProposedPlanStart (saw, t) = (True, [])"
| "plan_text_step (ProposedPlanDelta delta) (saw, t) = (saw, t @ delta)"
| "plan_text_step _ st = st"

definition extract_proposed_plan_text :: "str \<Rightarrow> str option" where
  "extract_proposed_plan_text s =
     (case plan_push_str new_plan_parser s of
        (out, p) \<Rightarrow>
          (case fold plan_text_step (extracted out @ extracted (fst (plan_finish p))) (False, []) of
             (saw, t) \<Rightarrow> if saw then Some t else None))"

section \<open>Assistant text\<close>

record assistant_chunk =
  as_visible :: str
  as_citations :: "str list"
  as_plan_segments :: "plan_segment list"

record assistant_parser =
  plan_mode :: bool
  as_citation_parser :: citation_parser
  as_plan_parser :: plan_parser

definition new_assistant_parser :: "bool \<Rightarrow> assistant_parser" where
  "new_assistant_parser mode =
     \<lparr>plan_mode = mode, as_citation_parser = new_citation_parser, as_plan_parser = new_plan_parser\<rparr>"

definition parse_visible_text :: "assistant_parser \<Rightarrow> str \<Rightarrow> assistant_chunk \<times> assistant_parser" where
  "parse_visible_text p t =
     (if \<not> plan_mode p then (\<lparr>as_visible = t, as_citations = [], as_plan_segments = []\<rparr>, p)
      else (case plan_push_str (as_plan_parser p) t of
              (out, q) \<Rightarrow> (\<lparr>as_visible = visible_text out, as_citations = [], as_plan_segments = extracted out\<rparr>,
                          p\<lparr>as_plan_parser := q\<rparr>)))"

definition assistant_push_str :: "assistant_parser \<Rightarrow> str \<Rightarrow> (assistant_chunk \<times> assistant_parser) option" where
  "assistant_push_str p chunk =
     (case citation_push_str (as_citation_parser p) chunk of
        None \<Rightarrow> None
      | Some (c, q) \<Rightarrow>
          (case parse_visible_text (p\<lparr>as_citation_parser := q\<rparr>) (visible_text c) of
             (out, p') \<Rightarrow> Some (out\<lparr>as_citations := extracted c\<rparr>, p')))"

definition assistant_finish :: "assistant_parser \<Rightarrow> assistant_chunk \<times> assistant_parser" where
  "assistant_finish p =
     (case citation_finish (as_citation_parser p) of
        (c, q) \<Rightarrow>
          (case parse_visible_text (p\<lparr>as_citation_parser := q\<rparr>) (visible_text c) of
             (out, p1) \<Rightarrow>
               (let (out, p2) =
                      (if plan_mode p1 then
                         (case plan_finish (as_plan_parser p1) of
                            (tail, r) \<Rightarrow>
                              (if visible_text tail = [] \<and> extracted tail = [] then out
                               else out\<lparr>as_visible := as_visible out @ visible_text tail,
                                        as_plan_segments := as_plan_segments out @ extracted tail\<rparr>,
                               p1\<lparr>as_plan_parser := r\<rparr>))
                       else (out, p1))
                in (out\<lparr>as_citations := extracted c\<rparr>, p2))))"

section \<open>Joining segments\<close>

definition join_segments :: "'t segment list \<Rightarrow> 't segment list \<Rightarrow> 't segment list" where
  "join_segments xs ys = foldl push_segment xs ys"

lemma push_segment_text:
  "push_segment (push_segment xs (text_segment act s)) (text_segment act t) = push_segment xs (text_segment act (s @ t))"
  by (cases act; cases "last_opt xs") (auto simp: push_segment_def text_segment_def last_opt_def split: segment.splits)

lemma push_segment_Nil_text [simp]: "push_segment xs (text_segment act []) = xs"
  by (cases act) (simp_all add: push_segment_def text_segment_def)

lemma push_text_append: "push_text p t (push_text p s xs) = push_text p (s @ t) xs"
  by (simp add: push_text_def push_segment_text)

lemma push_text_Nil [simp]: "push_text p [] xs = xs"
  by (simp add: push_text_def)

text \<open>The text carried in the run may as well be pushed at once.\<close>

lemma parse_loop_run:
  "parse_loop p run segs delta = parse_loop p [] (push_text p run segs) delta"
proof (induction delta arbitrary: run segs)
  case (Cons ch delta)
  show ?case
  proof (cases "detect_tag p")
    case True
    then show ?thesis by simp
  next
    case False
    then show ?thesis
      using Cons.IH[of "run @ [ch]" segs] Cons.IH[of "[ch]" "push_text p run segs"]
      by (simp add: push_text_append)
  qed
qed simp

lemma join_segments_Nil [simp]: "join_segments xs [] = xs"
  by (simp add: join_segments_def)

lemma join_segments_snoc: "join_segments xs (ys @ [y]) = push_segment (join_segments xs ys) y"
  by (simp add: join_segments_def)

lemma push_segment_cases:
  "push_segment ys y = ys \<or> push_segment ys y = ys @ [y] \<or>
   (\<exists>act e d. y = text_segment act d \<and> ys = butlast ys @ [text_segment act e] \<and>
      push_segment ys y = butlast ys @ [text_segment act (e @ d)])"
proof (cases y)
  case (Normal d)
  show ?thesis
  proof (cases "\<exists>e. last_opt ys = Some (Normal e) \<and> d \<noteq> []")
    case True
    then obtain e where "last_opt ys = Some (Normal e)" "d \<noteq> []" by blast
    with Normal have "y = text_segment None d \<and> ys = butlast ys @ [text_segment None e] \<and>
        push_segment ys y = butlast ys @ [text_segment None (e @ d)]"
      by (auto simp: push_segment_def text_segment_def last_opt_Some_iff)
    then show ?thesis by blast
  next
    case False
    with Normal show ?thesis by (auto simp: push_segment_def split: option.split segment.split)
  qed
next
  case (TagDelta tag d)
  show ?thesis
  proof (cases "\<exists>e. last_opt ys = Some (TagDelta tag e) \<and> d \<noteq> []")
    case True
    then obtain e where "last_opt ys = Some (TagDelta tag e)" "d \<noteq> []" by blast
    with TagDelta have "y = text_segment (Some tag) d \<and> ys = butlast ys @ [text_segment (Some tag) e] \<and>
        push_segment ys y = butlast ys @ [text_segment (Some tag) (e @ d)]"
      by (auto simp: push_segment_def text_segment_def last_opt_Some_iff)
    then show ?thesis by blast
  next
    case False
    with TagDelta show ?thesis by (auto simp: push_segment_def split: option.split segment.split)
  qed
qed (simp_all add: push_segment_def)

lemma push_segment_skip: "push_segment ys y = ys \<Longrightarrow> \<exists>act. y = text_segment act []"
  by (cases y; cases "last_opt ys")
    (auto simp: push_segment_def text_segment_def last_opt_Some_iff split: if_splits segment.splits option.splits
      intro: exI[of _ None] exI[of _ "Some _"])

lemma join_push_segment: "join_segments xs (push_segment ys y) = push_segment (join_segments xs ys) y"
proof -
  consider "push_segment ys y = ys" | "push_segment ys y = ys @ [y]"
    | act e d where "y = text_segment act d" "ys = butlast ys @ [text_segment act e]"
        "push_segment ys y = butlast ys @ [text_segment act (e @ d)]"
    using push_segment_cases by blast
  then show ?thesis
  proof cases
    case 1
    with push_segment_skip[OF 1] show ?thesis by auto
  next
    case 2
    then show ?thesis by (simp add: join_segments_snoc)
  next
    case 3
    have "join_segments xs ys = push_segment (join_segments xs (butlast ys)) (text_segment act e)"
      by (subst 3(2)) (rule join_segments_snoc)
    then have "push_segment (join_segments xs ys) y =
        push_segment (join_segments xs (butlast ys)) (text_segment act (e @ d))"
      unfolding 3(1) by (simp add: push_segment_text)
    then show ?thesis unfolding 3(3) join_segments_snoc ..
  qed
qed

lemma join_segments_assoc: "join_segments (join_segments xs ys) zs = join_segments xs (join_segments ys zs)"
  by (induction zs rule: rev_induct) (simp_all add: join_segments_snoc join_push_segment)

lemma join_push_text: "join_segments xs (push_text p t ys) = push_text p t (join_segments xs ys)"
  by (simp add: push_text_def join_push_segment)

lemma take_line_join:
  "take_line p l (join_segments xs ys) = (case take_line p l ys of (p', zs) \<Rightarrow> (p', join_segments xs zs))"
  by (simp add: take_line_def Let_def join_push_segment join_push_text split: option.split)

lemma parse_loop_join:
  "parse_loop p [] (join_segments xs ys) delta =
     (case parse_loop p [] ys delta of (p', zs) \<Rightarrow> (p', join_segments xs zs))"
proof (induction delta arbitrary: p ys)
  case (Cons ch delta)
  show ?case
  proof (cases "detect_tag p")
    case True
    then show ?thesis
      by (simp add: Let_def Cons.IH finish_line_def take_line_join flip: join_push_text split: prod.split)
  next
    case False
    then show ?thesis
      by (simp add: parse_loop_run[of _ "[ch]"] Cons.IH flip: join_push_text)
  qed
qed simp

lemma parse_loop_append:
  "parse_loop p [] segs (a @ b) = (case parse_loop p [] segs a of (p', segs') \<Rightarrow> parse_loop p' [] segs' b)"
proof (induction a arbitrary: p segs)
  case (Cons ch a)
  show ?case
  proof (cases "detect_tag p")
    case True
    then show ?thesis by (simp add: Let_def Cons.IH split: prod.split)
  next
    case False
    then show ?thesis by (simp add: parse_loop_run[of _ "[ch]"] Cons.IH)
  qed
qed simp

lemma parse_delta_append:
  assumes "parse_delta p a = (s1, p1)" "parse_delta p1 b = (s2, p2)"
  shows "parse_delta p (a @ b) = (join_segments s1 s2, p2)"
proof -
  have 1: "parse_loop p [] [] a = (p1, s1)" and 2: "parse_loop p1 [] [] b = (p2, s2)"
    using assms by (auto simp: parse_delta_def split: prod.splits)
  have "parse_loop p1 [] (join_segments s1 []) b = (p2, join_segments s1 s2)"
    unfolding parse_loop_join 2 by simp
  with 1 show ?thesis by (simp add: parse_delta_def parse_loop_append)
qed

section \<open>The contract of the plan and assistant parsers\<close>

fun segment_of_plan :: "plan_segment \<Rightarrow> plan_tag segment" where
  "segment_of_plan (PlanNormal t) = Normal t"
| "segment_of_plan ProposedPlanStart = TagStart ProposedPlan"
| "segment_of_plan (ProposedPlanDelta t) = TagDelta ProposedPlan t"
| "segment_of_plan ProposedPlanEnd = TagEnd ProposedPlan"

lemma plan_segment_bij [simp]:
  "segment_of_plan (plan_segment_of s) = s" "plan_segment_of (segment_of_plan t) = t"
proof -
  show "segment_of_plan (plan_segment_of s) = s"
    by (cases s rule: plan_segment_of.cases) simp_all
  show "plan_segment_of (segment_of_plan t) = t" by (cases t) simp_all
qed

definition join_plan :: "plan_segment list \<Rightarrow> plan_segment list \<Rightarrow> plan_segment list" where
  "join_plan xs ys = map plan_segment_of (join_segments (map segment_of_plan xs) (map segment_of_plan ys))"

lemma map_plan_segment_bij [simp]:
  "map segment_of_plan (map plan_segment_of xs) = xs" "map plan_segment_of (map segment_of_plan ys) = ys"
  by (simp_all add: comp_def)

lemma join_plan_laws: "join_plan xs [] = xs" "join_plan (join_plan xs ys) zs = join_plan xs (join_plan ys zs)"
  unfolding join_plan_def by (simp_all only: map_plan_segment_bij join_segments_Nil join_segments_assoc list.map)

definition plan_combine :: "plan_segment stream_chunk \<Rightarrow> plan_segment stream_chunk \<Rightarrow> plan_segment stream_chunk" where
  "plan_combine a b =
     \<lparr>visible_text = visible_text a @ visible_text b, extracted = join_plan (extracted a) (extracted b)\<rparr>"

abbreviation normal_texts :: "plan_tag segment list \<Rightarrow> str" where
  "normal_texts segs \<equiv> concat (map (\<lambda>s. normal_text (plan_segment_of s)) segs)"

lemma normal_text_push: "normal_texts (push_segment xs y) = normal_texts xs @ normal_text (plan_segment_of y)"
proof (cases y rule: plan_segment_of.cases)
  case (1 t)
  then show ?thesis
    by (auto simp: push_segment_def last_opt_Some_iff split: option.split segment.split)
next
  case (3 t)
  then show ?thesis
    by (auto simp: push_segment_def last_opt_Some_iff split: option.split segment.split)
qed (simp_all add: push_segment_def)

lemma normal_text_join: "normal_texts (join_segments xs ys) = normal_texts xs @ normal_texts ys"
  by (induction ys rule: rev_induct) (simp_all add: join_segments_snoc normal_text_push)

lemma map_segments_join: "map_segments (join_segments xs ys) = plan_combine (map_segments xs) (map_segments ys)"
  by (simp add: map_segments_def Let_def plan_combine_def join_plan_def normal_text_join comp_def)

interpretation plan: stream_text_parser "\<lambda>_. True" "\<lambda>p c. Some (plan_push_str p c)" plan_combine empty_chunk
proof
  fix p :: plan_parser and c d out out' p' p''
  show "\<exists>out p'. Some (plan_push_str p c) = Some (out, p') \<and> True" by (cases "plan_push_str p c") simp
  show "Some (plan_push_str p []) = Some (empty_chunk, p)"
    by (simp add: plan_push_str_def parse_delta_def map_segments_def empty_chunk_def)
  show "Some (plan_push_str p (c @ d)) = Some (plan_combine out out', p'')"
    if "Some (plan_push_str p c) = Some (out, p')" "Some (plan_push_str p' d) = Some (out', p'')"
    using that parse_delta_append[of p c _ p' d] by (auto simp: plan_push_str_def map_segments_join split: prod.splits)
qed (simp_all add: plan_combine_def empty_chunk_def join_plan_laws)

definition assistant_combine :: "assistant_chunk \<Rightarrow> assistant_chunk \<Rightarrow> assistant_chunk" where
  "assistant_combine a b =
     \<lparr>as_visible = as_visible a @ as_visible b, as_citations = as_citations a @ as_citations b,
      as_plan_segments = join_plan (as_plan_segments a) (as_plan_segments b)\<rparr>"

definition empty_assistant_chunk :: assistant_chunk where
  "empty_assistant_chunk = \<lparr>as_visible = [], as_citations = [], as_plan_segments = []\<rparr>"

interpretation assistant: stream_text_parser "\<lambda>p. inline_inv (as_citation_parser p)" assistant_push_str
  assistant_combine empty_assistant_chunk
proof
  fix p :: assistant_parser and c d out out' p' p''
  assume inv: "inline_inv (as_citation_parser p)"
  show "\<exists>out p'. assistant_push_str p c = Some (out, p') \<and> inline_inv (as_citation_parser p')"
    using citations.push_returns[OF inv, of c]
    by (auto simp: assistant_push_str_def parse_visible_text_def split: prod.split)
  show "assistant_push_str p [] = Some (empty_assistant_chunk, p)"
    using citations.push_nothing[OF inv] plan.push_nothing[of "as_plan_parser p"]
    by (auto simp: assistant_push_str_def parse_visible_text_def empty_chunk_def empty_assistant_chunk_def)
  assume c: "assistant_push_str p c = Some (out, p')" and d: "assistant_push_str p' d = Some (out', p'')"
  from c obtain co cp where cc: "citation_push_str (as_citation_parser p) c = Some (co, cp)"
    by (auto simp: assistant_push_str_def split: option.splits)
  have cp: "as_citation_parser p' = cp" "plan_mode p' = plan_mode p"
    using c cc by (auto simp: assistant_push_str_def parse_visible_text_def split: if_splits prod.splits)
  from d obtain do dp where dd: "citation_push_str cp d = Some (do, dp)"
    by (auto simp: assistant_push_str_def cp split: option.splits)
  note cd = citations.push_append[OF inv cc dd]
  show "assistant_push_str p (c @ d) = Some (assistant_combine out out', p'')"
  proof (cases "plan_mode p")
    case True
    obtain po pq where pc: "plan_push_str (as_plan_parser p) (visible_text co) = (po, pq)" by fastforce
    obtain po' pq' where pd: "plan_push_str pq (visible_text do) = (po', pq')" by fastforce
    have "plan_push_str (as_plan_parser p) (visible_text co @ visible_text do) = (plan_combine po po', pq')"
      using plan.push_append[of "as_plan_parser p" "visible_text co" po pq "visible_text do" po' pq'] pc pd by simp
    moreover have "as_plan_parser p' = pq" using True c cc pc by (auto simp: assistant_push_str_def parse_visible_text_def)
    ultimately show ?thesis using True c d cc cp dd cd pc pd
      by (auto simp: assistant_push_str_def parse_visible_text_def append_chunk_def plan_combine_def assistant_combine_def)
  next
    case False
    then have "p' = p\<lparr>as_citation_parser := cp\<rparr>" using c cc by (auto simp: assistant_push_str_def parse_visible_text_def)
    with False c d cc dd cd show ?thesis
      by (auto simp: assistant_push_str_def parse_visible_text_def append_chunk_def assistant_combine_def join_plan_laws)
  qed
qed (simp_all add: assistant_combine_def empty_assistant_chunk_def join_plan_laws)

text \<open>
  C39 Assistant text does not depend on the chunks. In either mode, feeding a text to the assistant
  parser in any chunks returns and gives, once adjacent pieces of one block are joined, the visible
  text, the citations, the plan segments and the state of pushing the whole text at once.
\<close>
theorem assistant_chunks_invisible:
  "\<exists>out p. feed_chunks assistant_push_str assistant_combine empty_assistant_chunk (new_assistant_parser mode) cs = Some (out, p) \<and>
     assistant_push_str (new_assistant_parser mode) (concat cs) = Some (out, p)"
proof -
  have inv: "inline_inv (as_citation_parser (new_assistant_parser mode))"
    by (simp add: new_assistant_parser_def citation_inv_new)
  from assistant.push_returns[OF inv, of "concat cs"] show ?thesis
    unfolding assistant.feed_concat[OF inv] by blast
qed

section \<open>The line by line reference\<close>

text \<open>The reference: the text is cut into lines, each line is taken whole, and an open tag is closed
  at the end.\<close>

fun take_lines :: "'t tagged_line_parser \<Rightarrow> 't segment list \<Rightarrow> str list \<Rightarrow> 't tagged_line_parser \<times> 't segment list" where
  "take_lines p segs [] = (p, segs)"
| "take_lines p segs (l # ls) = (case take_line p l segs of (p', segs') \<Rightarrow> take_lines p' segs' ls)"

definition close_open_tag :: "'t tagged_line_parser \<times> 't segment list \<Rightarrow> 't segment list" where
  "close_open_tag ps =
     (case ps of (p, segs) \<Rightarrow>
       (case active_tag_of p of Some tag \<Rightarrow> push_segment segs (TagEnd tag) | None \<Rightarrow> segs))"

definition parse_by_lines :: "'t line_tag_spec list \<Rightarrow> str \<Rightarrow> 't segment list" where
  "parse_by_lines specs s = close_open_tag (take_lines (new_tagged_line_parser specs) [] (split_inclusive_nl s))"

text \<open>A line that cannot be a tag, and lines whose beginning shows it.\<close>

definition no_tag :: "'t tagged_line_parser \<Rightarrow> str \<Rightarrow> bool" where
  "no_tag p slug \<longleftrightarrow> match_open p slug = None \<and> match_close p slug = None"

lemma take_line_no_tag: "no_tag p (line_slug l) \<Longrightarrow> take_line p l segs = (p, push_text p l segs)"
  by (simp add: no_tag_def take_line_def Let_def)

lemma prefix_trim_end_append: "prefix (trim_end t) (trim_end (t @ z))"
  by (cases "trim_end z = []") (simp_all add: trim_end_append trim_end_append_ws prefix_trim_end)

lemma trim_start_append: "trim_start t \<noteq> [] \<Longrightarrow> trim_start (t @ z) = trim_start t @ z"
  by (auto simp: trim_start_def dropWhile_append)

lemma line_slug_nl: "line_slug (l @ [NL]) = trim_end (trim_start l)"
  by (simp add: line_slug_def strip_suffix_Some[THEN iffD2])

lemma line_slug_plain: "NL \<notin> set l \<Longrightarrow> line_slug l = trim_end (trim_start l)"
proof -
  assume "NL \<notin> set l"
  then have "strip_suffix l [NL] = None" unfolding strip_suffix_None by (auto simp: suffix_def)
  then show ?thesis by (simp add: line_slug_def)
qed

lemma decided_no_tag:
  assumes "trim_start b \<noteq> []" "\<not> is_tag_prefix p (trim_start b)"
  shows "no_tag p (trim_end (trim_start (b @ z)))"
proof -
  have pre: "prefix (trim_end (trim_start b)) (trim_end (trim_start (b @ z)))"
    unfolding trim_start_append[OF assms(1)] by (rule prefix_trim_end_append)
  then have "spec \<in> set (tl_specs p) \<Longrightarrow> line_open spec \<noteq> trim_end (trim_start (b @ z)) \<and>
      line_close spec \<noteq> trim_end (trim_start (b @ z))" for spec
    using assms(2) by (auto simp: is_tag_prefix_def list_ex_iff starts_with_prefix)
  then show ?thesis by (auto simp: no_tag_def match_open_def match_close_def find_None_iff)
qed

lemma parse_loop_pass:
  "\<not> detect_tag p \<Longrightarrow> NL \<notin> set l \<Longrightarrow> parse_loop p [] segs l = (p, push_text p l segs)"
proof (induction l arbitrary: segs)
  case (Cons c l)
  then show ?case by (simp add: parse_loop_run[of p "[c]"] push_text_append)
qed simp

text \<open>A line without its end: it is still held back, or it is no tag and has been passed on.\<close>

lemma parse_loop_line:
  assumes "detect_tag p" "NL \<notin> set l"
  shows "parse_loop p [] segs l = (p\<lparr>line_buffer_of := line_buffer_of p @ l\<rparr>, segs) \<or>
    (parse_loop p [] segs l =
       (p\<lparr>line_buffer_of := [], detect_tag := False\<rparr>, push_text p (line_buffer_of p @ l) segs) \<and>
     no_tag p (trim_end (trim_start (line_buffer_of p @ l))))"
  using assms
proof (induction l arbitrary: p)
  case (Cons c l)
  let ?p = "p\<lparr>line_buffer_of := line_buffer_of p @ [c]\<rparr>"
  let ?slug = "trim_start (line_buffer_of p @ [c])"
  show ?case
  proof (cases "?slug = [] \<or> is_tag_prefix p ?slug")
    case True
    then have "?slug = [] \<or> is_tag_prefix ?p ?slug" by (simp add: is_tag_prefix_def)
    then have "parse_loop p [] segs (c # l) = parse_loop ?p [] segs l" using Cons.prems by (simp add: Let_def)
    with Cons.IH[of ?p] Cons.prems show ?thesis
      by (simp add: push_text_def no_tag_def match_open_def match_close_def)
  next
    case False
    then have "\<not> (?slug = [] \<or> is_tag_prefix ?p ?slug)" by (simp add: is_tag_prefix_def)
    then have "parse_loop p [] segs (c # l) =
        parse_loop (?p\<lparr>line_buffer_of := [], detect_tag := False\<rparr>) [] (push_text ?p (line_buffer_of p @ [c]) segs) l"
      using Cons.prems by (simp add: Let_def)
    also have "\<dots> = (p\<lparr>line_buffer_of := [], detect_tag := False\<rparr>, push_text p (line_buffer_of p @ c # l) segs)"
      using Cons.prems by (subst parse_loop_pass) (simp_all add: push_text_def push_segment_text)
    finally show ?thesis using decided_no_tag[of "line_buffer_of p @ [c]" p l] False by simp
  qed
qed simp

definition fresh :: "'t tagged_line_parser \<Rightarrow> bool" where
  "fresh p \<longleftrightarrow> detect_tag p \<and> line_buffer_of p = []"

lemma take_line_state:
  "take_line p l segs = (p', segs') \<Longrightarrow>
   p' = p\<lparr>active_tag_of := active_tag_of p'\<rparr>"
  by (auto simp: take_line_def Let_def split: option.splits if_splits)

lemma take_line_fresh: "take_line p l segs = (p', segs') \<Longrightarrow> fresh p \<Longrightarrow> fresh p'"
  by (drule take_line_state) (metis fresh_def tagged_line_parser.select_convs(3,4) tagged_line_parser.surjective
    tagged_line_parser.update_convs(2))

lemma parse_loop_whole_line:
  assumes "fresh p" "NL \<notin> set l"
  shows "parse_loop p [] segs (l @ NL # rest) =
    (case take_line p (l @ [NL]) segs of (p', segs') \<Rightarrow> parse_loop p' [] segs' rest)"
proof -
  have f: "detect_tag p" "line_buffer_of p = []" using assms(1) by (simp_all add: fresh_def)
  have id: "p\<lparr>line_buffer_of := []\<rparr> = p" "p\<lparr>detect_tag := True\<rparr> = p" using f by simp_all
  obtain p' segs' where t: "take_line p (l @ [NL]) segs = (p', segs')" by fastforce
  have "fresh p'" using take_line_fresh[OF t assms(1)] .
  then have id': "p'\<lparr>detect_tag := True\<rparr> = p'" by (simp add: fresh_def)
  from parse_loop_line[OF f(1) assms(2), of segs] show ?thesis
  proof
    assume "parse_loop p [] segs l = (p\<lparr>line_buffer_of := line_buffer_of p @ l\<rparr>, segs)"
    moreover have "take_line (p\<lparr>line_buffer_of := []\<rparr>) (l @ [NL]) segs = (p', segs')" by (simp only: id t)
    ultimately show ?thesis using f t id'
      by (simp add: parse_loop_append Let_def finish_line_def)
  next
    assume a: "parse_loop p [] segs l =
       (p\<lparr>line_buffer_of := [], detect_tag := False\<rparr>, push_text p (line_buffer_of p @ l) segs) \<and>
     no_tag p (trim_end (trim_start (line_buffer_of p @ l)))"
    then have "take_line p (l @ [NL]) segs = (p, push_text p (l @ [NL]) segs)"
      using f by (intro take_line_no_tag) (simp add: line_slug_nl)
    moreover have "parse_loop p [] segs (l @ NL # rest) =
        parse_loop (p\<lparr>line_buffer_of := [], detect_tag := True\<rparr>) [] (push_text p (l @ [NL]) segs) rest"
      using a f by (simp add: parse_loop_append push_text_def push_segment_text)
    ultimately show ?thesis by (simp only: id prod.case)
  qed
qed

lemma parse_loop_last_line:
  assumes "fresh p" "NL \<notin> set l" "l \<noteq> []"
  shows "\<exists>p1 s1 fs p2. parse_loop p [] segs l = (p1, s1) \<and> finish_tagged p1 = (fs, p2) \<and>
    join_segments s1 fs = close_open_tag (take_line p l segs)"
proof -
  have f: "detect_tag p" "line_buffer_of p = []" using assms(1) by (simp_all add: fresh_def)
  from parse_loop_line[OF f(1) assms(2), of segs] show ?thesis
  proof
    assume a: "parse_loop p [] segs l = (p\<lparr>line_buffer_of := line_buffer_of p @ l\<rparr>, segs)"
    obtain p' fs where t: "take_line p l [] = (p', fs)" by fastforce
    have id: "p\<lparr>line_buffer_of := []\<rparr> = p" using f by simp
    have j: "take_line p l segs = (p', join_segments segs fs)"
      using take_line_join[of p l segs "[]"] t by simp
    have t': "take_line (p\<lparr>line_buffer_of := []\<rparr>) l [] = (p', fs)" by (simp only: id t)
    show ?thesis unfolding a j using f assms(3) t'
      by (auto simp: finish_tagged_def close_open_tag_def join_push_segment split: option.split)
  next
    assume a: "parse_loop p [] segs l =
       (p\<lparr>line_buffer_of := [], detect_tag := False\<rparr>, push_text p (line_buffer_of p @ l) segs) \<and>
     no_tag p (trim_end (trim_start (line_buffer_of p @ l)))"
    then have "take_line p l segs = (p, push_text p l segs)"
      using f assms(2) by (intro take_line_no_tag) (simp add: line_slug_plain)
    with a f show ?thesis
      by (auto simp: finish_tagged_def close_open_tag_def join_push_segment split: option.split)
  qed
qed

lemma parse_loop_lines:
  "fresh p \<Longrightarrow> \<exists>p1 s1 fs p2. parse_loop p [] segs s = (p1, s1) \<and> finish_tagged p1 = (fs, p2) \<and>
     join_segments s1 fs = close_open_tag (take_lines p segs (split_inclusive_nl s))"
proof (induction "length s" arbitrary: s p segs rule: less_induct)
  case less
  show ?case
  proof (cases "NL \<in> set s")
    case True
    then obtain l rest where s: "s = l @ NL # rest" "NL \<notin> set l" by (meson split_list_first)
    obtain p' segs' where t: "take_line p (l @ [NL]) segs = (p', segs')" by fastforce
    have "length rest < length s" using s by simp
    from less.hyps[OF this take_line_fresh[OF t less.prems], of segs'] t show ?thesis
      by (simp add: s(1) parse_loop_whole_line[OF less.prems s(2)] split_inclusive_line[OF s(2)])
  next
    case False
    show ?thesis
    proof (cases "s = []")
      case True
      then show ?thesis using less.prems
        by (auto simp: fresh_def finish_tagged_def close_open_tag_def join_push_segment split: option.split)
    next
      case ne: False
      obtain p' segs' where t: "take_line p s segs = (p', segs')" by fastforce
      have sp: "split_inclusive_nl s = [s]" using split_inclusive_last[OF False] ne by simp
      from parse_loop_last_line[OF less.prems False ne, of segs] t show ?thesis unfolding sp by simp
    qed
  qed
qed

text \<open>
  C25. Tag blocks are found line by line. Although the parser decides character by character how
  much to hold back, what a text gives, with the flush at its end, is what taking its lines one at a
  time gives: a line that reads as an opening tag when none is open starts a block, the matching
  closing line ends it, every other line is text, and a block left open is closed.
\<close>
theorem tagged_parse_by_lines:
  "(case parse_delta (new_tagged_line_parser specs) s of
      (segs, p) \<Rightarrow> join_segments segs (fst (finish_tagged p))) = parse_by_lines specs s"
proof -
  have "fresh (new_tagged_line_parser specs)" by (simp add: fresh_def new_tagged_line_parser_def)
  from parse_loop_lines[OF this, of "[]" s] show ?thesis
    by (auto simp: parse_delta_def parse_by_lines_def)
qed

end
