(* ===== verification/Utf8Stream.thy ===== *)
theory Utf8Stream
  imports PlanStream
begin

text \<open>
  The byte front end (\<open>utils/stream-parser/src/utf8_stream.rs\<close>): \<open>Utf8StreamParser\<close> around any text
  parser. The standard library's \<open>from_utf8\<close> is written out with its error lengths, since the code
  branches on them; bytes are numbers. The lemmas on feeding bytes hold for every parser that keeps
  the contract of \<open>stream_text_parser\<close> and are instantiated for the citation and plan parsers.
\<close>

section \<open>UTF-8\<close>

text \<open>\<open>std::str::from_utf8\<close>: one code point at the front of the bytes, as the standard library
  checks it. \<open>Malformed n\<close> is an error of length \<open>n\<close>, \<open>Truncated\<close> the end of the bytes inside a code
  point.\<close>

datatype utf8_step = Decoded uchar nat | Malformed nat | Truncated

definition is_cont :: "nat \<Rightarrow> bool" where
  "is_cont b \<longleftrightarrow> 0x80 \<le> b \<and> b \<le> 0xBF"

definition second_of_three :: "nat \<Rightarrow> nat \<Rightarrow> bool" where
  "second_of_three b0 b1 \<longleftrightarrow>
     (if b0 = 0xE0 then 0xA0 \<le> b1 \<and> b1 \<le> 0xBF
      else if b0 = 0xED then 0x80 \<le> b1 \<and> b1 \<le> 0x9F
      else is_cont b1)"

definition second_of_four :: "nat \<Rightarrow> nat \<Rightarrow> bool" where
  "second_of_four b0 b1 \<longleftrightarrow>
     (if b0 = 0xF0 then 0x90 \<le> b1 \<and> b1 \<le> 0xBF
      else if b0 = 0xF4 then 0x80 \<le> b1 \<and> b1 \<le> 0x8F
      else is_cont b1)"

fun utf8_next :: "nat list \<Rightarrow> utf8_step" where
  "utf8_next [] = Truncated"
| "utf8_next (b0 # rest) =
     (if b0 < 0x80 then Decoded b0 1
      else if 0xC2 \<le> b0 \<and> b0 \<le> 0xDF then
        (case rest of
           [] \<Rightarrow> Truncated
         | b1 # _ \<Rightarrow> if is_cont b1 then Decoded ((b0 - 0xC0) * 64 + (b1 - 0x80)) 2 else Malformed 1)
      else if 0xE0 \<le> b0 \<and> b0 \<le> 0xEF then
        (case rest of
           [] \<Rightarrow> Truncated
         | b1 # rest1 \<Rightarrow>
             if \<not> second_of_three b0 b1 then Malformed 1
             else (case rest1 of
                     [] \<Rightarrow> Truncated
                   | b2 # _ \<Rightarrow>
                       if is_cont b2
                       then Decoded ((b0 - 0xE0) * 4096 + (b1 - 0x80) * 64 + (b2 - 0x80)) 3
                       else Malformed 2))
      else if 0xF0 \<le> b0 \<and> b0 \<le> 0xF4 then
        (case rest of
           [] \<Rightarrow> Truncated
         | b1 # rest1 \<Rightarrow>
             if \<not> second_of_four b0 b1 then Malformed 1
             else (case rest1 of
                     [] \<Rightarrow> Truncated
                   | b2 # rest2 \<Rightarrow>
                       if \<not> is_cont b2 then Malformed 2
                       else (case rest2 of
                               [] \<Rightarrow> Truncated
                             | b3 # _ \<Rightarrow>
                                 if is_cont b3
                                 then Decoded ((b0 - 0xF0) * 262144 + (b1 - 0x80) * 4096 + (b2 - 0x80) * 64 + (b3 - 0x80)) 4
                                 else Malformed 3)))
      else Malformed 1)"

lemma utf8_next_width: "utf8_next bs = Decoded c n \<Longrightarrow> 0 < n \<and> n \<le> length bs"
  by (cases bs) (auto split: if_splits list.splits)

text \<open>All of the bytes: the text decoded, the bytes that are left, and the length of the error when
  they are malformed.\<close>

function utf8_decode :: "nat list \<Rightarrow> str \<times> nat list \<times> nat option" where
  "utf8_decode bs =
     (if bs = [] then ([], [], None)
      else (case utf8_next bs of
              Decoded c n \<Rightarrow> (case utf8_decode (drop n bs) of (t, rest, e) \<Rightarrow> (c # t, rest, e))
            | Malformed n \<Rightarrow> ([], bs, Some n)
            | Truncated \<Rightarrow> ([], bs, None)))"
  by pat_completeness auto
termination
  by (relation "measure length") (auto dest: utf8_next_width)

declare utf8_decode.simps [simp del]

definition from_utf8 :: "nat list \<Rightarrow> (nat \<times> nat option) + str" where
  "from_utf8 bs =
     (case utf8_decode bs of
        (t, rest, e) \<Rightarrow> if rest = [] then Inr t else Inl (length bs - length rest, e))"

section \<open>The byte parser\<close>

datatype utf8_error = InvalidUtf8 nat nat \<comment> \<open>valid_up_to and error_len\<close> | IncompleteUtf8AtEof

record 's utf8_parser =
  u_inner :: 's
  u_pending :: "nat list"

type_synonym ('s, 'e) push_fun = "'s \<Rightarrow> str \<Rightarrow> ('e stream_chunk \<times> 's) option"

definition new_utf8_parser :: "'s \<Rightarrow> 's utf8_parser" where
  "new_utf8_parser inner = \<lparr>u_inner = inner, u_pending = []\<rparr>"

definition push_bytes ::
    "('s, 'e) push_fun \<Rightarrow> 's utf8_parser \<Rightarrow> nat list \<Rightarrow> ((utf8_error + 'e stream_chunk) \<times> 's utf8_parser) option" where
  "push_bytes push p chunk =
     (let old_len = length (u_pending p);
          buf = u_pending p @ chunk
      in case from_utf8 buf of
           Inr text \<Rightarrow>
             map_option (\<lambda>(out, inner). (Inr out, \<lparr>u_inner = inner, u_pending = []\<rparr>)) (push (u_inner p) text)
         | Inl (valid_up_to, Some error_len) \<Rightarrow>
             Some (Inl (InvalidUtf8 valid_up_to error_len), p\<lparr>u_pending := take old_len buf\<rparr>)
         | Inl (valid_up_to, None) \<Rightarrow>
             if valid_up_to = 0 then Some (Inr empty_chunk, p\<lparr>u_pending := buf\<rparr>)
             else (case from_utf8 (take valid_up_to buf) of
                     Inl (v, e) \<Rightarrow>
                       Some (Inl (InvalidUtf8 v (case e of Some n \<Rightarrow> n | None \<Rightarrow> 0)), p\<lparr>u_pending := take old_len buf\<rparr>)
                   | Inr text \<Rightarrow>
                       map_option (\<lambda>(out, inner). (Inr out, \<lparr>u_inner = inner, u_pending = drop valid_up_to buf\<rparr>))
                         (push (u_inner p) text)))"

definition pending_error :: "'s utf8_parser \<Rightarrow> utf8_error option" where
  "pending_error p =
     (case from_utf8 (u_pending p) of
        Inr _ \<Rightarrow> None
      | Inl (valid_up_to, Some error_len) \<Rightarrow> Some (InvalidUtf8 valid_up_to error_len)
      | Inl (valid_up_to, None) \<Rightarrow> Some IncompleteUtf8AtEof)"

definition finish_bytes ::
    "('s, 'e) push_fun \<Rightarrow> ('s \<Rightarrow> 'e stream_chunk \<times> 's) \<Rightarrow> 's utf8_parser \<Rightarrow>
     ((utf8_error + 'e stream_chunk) \<times> 's utf8_parser) option" where
  "finish_bytes push finish p =
     (case (if u_pending p = [] then None else pending_error p) of
        Some e \<Rightarrow> Some (Inl e, p)
      | None \<Rightarrow>
          (case (if u_pending p = [] then Some (empty_chunk, p)
                 else (case from_utf8 (u_pending p) of
                         Inr text \<Rightarrow>
                           map_option (\<lambda>(out, inner). (out, \<lparr>u_inner = inner, u_pending = []\<rparr>)) (push (u_inner p) text)
                       | Inl _ \<Rightarrow> Some (empty_chunk, p))) of
             None \<Rightarrow> None
           | Some (out, p1) \<Rightarrow>
               (case finish (u_inner p1) of
                  (tail, inner) \<Rightarrow> Some (Inr (append_chunk out tail), p1\<lparr>u_inner := inner\<rparr>))))"

definition into_inner :: "'s utf8_parser \<Rightarrow> utf8_error + 's" where
  "into_inner p =
     (if u_pending p = [] then Inr (u_inner p)
      else (case pending_error p of None \<Rightarrow> Inr (u_inner p) | Some e \<Rightarrow> Inl e))"

text \<open>A caller that feeds byte chunks and stops at the first error.\<close>

fun feed_bytes ::
    "('s, 'e) push_fun \<Rightarrow> ('e stream_chunk \<Rightarrow> 'e stream_chunk \<Rightarrow> 'e stream_chunk) \<Rightarrow> 's utf8_parser \<Rightarrow> nat list list \<Rightarrow>
     ((utf8_error + 'e stream_chunk) \<times> 's utf8_parser) option" where
  "feed_bytes push combine p [] = Some (Inr empty_chunk, p)"
| "feed_bytes push combine p (c # cs) =
     (case push_bytes push p c of
        None \<Rightarrow> None
      | Some (Inl e, p') \<Rightarrow> Some (Inl e, p')
      | Some (Inr out, p') \<Rightarrow>
          (case feed_bytes push combine p' cs of
             None \<Rightarrow> None
           | Some (Inl e, p'') \<Rightarrow> Some (Inl e, p'')
           | Some (Inr outs, p'') \<Rightarrow> Some (Inr (combine out outs), p'')))"

section \<open>Decoding in parts\<close>

lemma utf8_next_append:
  "utf8_next bs = Decoded c n \<Longrightarrow> utf8_next (bs @ xs) = Decoded c n"
  "utf8_next bs = Malformed n \<Longrightarrow> utf8_next (bs @ xs) = Malformed n"
  by (cases bs; auto split: if_splits list.splits)+

lemma utf8_next_take: "utf8_next bs = Decoded c n \<Longrightarrow> utf8_next (take n bs) = Decoded c n"
  by (cases bs) (auto split: if_splits list.splits)

lemma utf8_decode_Nil [simp]: "utf8_decode [] = ([], [], None)"
  by (simp add: utf8_decode.simps)

lemma utf8_decode_Decoded:
  "utf8_next bs = Decoded c n \<Longrightarrow> utf8_decode bs = (case utf8_decode (drop n bs) of (t, rest, e) \<Rightarrow> (c # t, rest, e))"
  by (subst utf8_decode.simps) auto

lemma utf8_decode_Malformed: "utf8_next bs = Malformed n \<Longrightarrow> utf8_decode bs = ([], bs, Some n)"
  by (subst utf8_decode.simps) auto

lemma utf8_decode_Truncated: "utf8_next bs = Truncated \<Longrightarrow> utf8_decode bs = ([], bs, None)"
  by (subst utf8_decode.simps) auto

lemma utf8_decode_split:
  "utf8_decode bs = (t, rest, e) \<Longrightarrow>
   \<exists>pre. bs = pre @ rest \<and> utf8_decode pre = (t, [], None) \<and> utf8_decode rest = ([], rest, e) \<and> (pre = [] \<longleftrightarrow> t = [])"
proof (induction bs arbitrary: t rest e rule: utf8_decode.induct)
  case (1 bs)
  show ?case
  proof (cases "utf8_next bs")
    case (Decoded c n)
    note w = utf8_next_width[OF Decoded]
    then have ne: "bs \<noteq> []" by auto
    obtain t' where t': "utf8_decode (drop n bs) = (t', rest, e)" "t = c # t'"
      using "1.prems" utf8_decode_Decoded[OF Decoded] by (auto split: prod.splits)
    from "1.IH"[OF ne Decoded t'(1)] obtain pre where pre: "drop n bs = pre @ rest" "utf8_decode pre = (t', [], None)"
      "utf8_decode rest = ([], rest, e)" by blast
    have bs: "bs = (take n bs @ pre) @ rest" using pre(1) by (metis append_assoc append_take_drop_id)
    have len: "length (take n bs) = n" using w by simp
    have "utf8_next (take n bs @ pre) = Decoded c n"
      by (rule utf8_next_append(1)[OF utf8_next_take[OF Decoded]])
    from utf8_decode_Decoded[OF this] len pre(2) t'(2) have "utf8_decode (take n bs @ pre) = (t, [], None)" by simp
    with bs pre(3) t'(2) w len show ?thesis by (metis append_is_Nil_conv list.distinct(1) list.size(3) less_numeral_extra(3))
  next
    case (Malformed n)
    with "1.prems" utf8_decode_Malformed[OF Malformed] show ?thesis by auto
  next
    case Truncated
    with "1.prems" utf8_decode_Truncated[OF Truncated] show ?thesis by auto
  qed
qed

lemma utf8_decode_append:
  "utf8_decode a = (t, [], None) \<Longrightarrow> utf8_decode (a @ b) = (case utf8_decode b of (t', rest, e) \<Rightarrow> (t @ t', rest, e))"
proof (induction a arbitrary: t rule: utf8_decode.induct)
  case (1 a)
  show ?case
  proof (cases "utf8_next a")
    case (Decoded c n)
    note w = utf8_next_width[OF Decoded]
    then have ne: "a \<noteq> []" by auto
    obtain t' where t': "utf8_decode (drop n a) = (t', [], None)" "t = c # t'"
      using "1.prems" utf8_decode_Decoded[OF Decoded] by (auto split: prod.splits)
    from "1.IH"[OF ne Decoded t'(1)] t'(2) w show ?thesis
      unfolding utf8_decode_Decoded[OF utf8_next_append(1)[OF Decoded]] by (simp split: prod.split)
  next
    case (Malformed n)
    with "1.prems" utf8_decode_Malformed[OF Malformed] show ?thesis by auto
  next
    case Truncated
    with "1.prems" utf8_decode_Truncated[OF Truncated] show ?thesis by auto
  qed
qed

lemma utf8_decode_append_rest:
  assumes "utf8_decode a = (t, rest, e)"
  shows "utf8_decode (a @ b) = (case utf8_decode (rest @ b) of (t', rest', e') \<Rightarrow> (t @ t', rest', e'))"
proof -
  from utf8_decode_split[OF assms] obtain pre where "a = pre @ rest" "utf8_decode pre = (t, [], None)" by blast
  then show ?thesis using utf8_decode_append[of pre t "rest @ b"] by simp
qed

lemma utf8_malformed_append:
  assumes "utf8_decode a = (t, rest, Some n)"
  shows "utf8_decode (a @ b) = (t, rest @ b, Some n)"
proof -
  from utf8_decode_split[OF assms] have r: "utf8_decode rest = ([], rest, Some n)" by blast
  have "utf8_next rest = Malformed n"
  proof (cases "utf8_next rest")
    case (Decoded c k) with r show ?thesis by (auto simp: utf8_decode_Decoded split: prod.splits)
  next
    case (Malformed k) with r show ?thesis by (simp add: utf8_decode_Malformed)
  next
    case Truncated with r show ?thesis by (simp add: utf8_decode_Truncated)
  qed
  from utf8_decode_Malformed[OF utf8_next_append(2)[OF this]] show ?thesis
    unfolding utf8_decode_append_rest[OF assms] by simp
qed

section \<open>Byte chunks do not matter\<close>

text \<open>Any parser that keeps the contract may be wrapped.\<close>

locale utf8_inner = stream_text_parser inv push combine "empty_chunk :: 'e stream_chunk"
  for inv :: "'s \<Rightarrow> bool" and push :: "('s, 'e) push_fun" and combine
begin

lemma push_bytes_step:
  assumes "inv (u_inner p)" and d: "utf8_decode (u_pending p @ c) = (t, rest, None)"
    and push: "push (u_inner p) t = Some (out, s')"
  shows "push_bytes push p c = Some (Inr out, \<lparr>u_inner = s', u_pending = rest\<rparr>)"
proof (cases "rest = []")
  case True
  with d push show ?thesis by (simp add: push_bytes_def from_utf8_def)
next
  case False
  from utf8_decode_split[OF d] obtain pre where pre: "u_pending p @ c = pre @ rest" "utf8_decode pre = (t, [], None)"
    "pre = [] \<longleftrightarrow> t = []" by blast
  have v: "from_utf8 (u_pending p @ c) = Inl (length pre, None)"
    using d False pre(1) by (simp add: from_utf8_def)
  show ?thesis
  proof (cases "pre = []")
    case True
    with pre(3) push push_nothing[OF assms(1)] have "out = empty_chunk" "s' = u_inner p" by simp_all
    with True v pre(1) show ?thesis by (simp add: push_bytes_def)
  next
    case False
    with v pre(1,2) push show ?thesis by (simp add: push_bytes_def from_utf8_def)
  qed
qed

lemma feed_bytes_decode:
  assumes "inv (u_inner p)" "utf8_decode (u_pending p) = ([], u_pending p, None)"
    and "utf8_decode (u_pending p @ concat cs) = (t, rest, None)"
  shows "\<exists>out s'. push (u_inner p) t = Some (out, s') \<and>
    feed_bytes push combine p cs = Some (Inr out, \<lparr>u_inner = s', u_pending = rest\<rparr>)"
  using assms
proof (induction cs arbitrary: p t)
  case Nil
  then have "t = []" "rest = u_pending p" by simp_all
  with push_nothing[OF Nil(1)] show ?case by (cases p) simp
next
  case (Cons c cs)
  obtain t1 r1 e1 where d1: "utf8_decode (u_pending p @ c) = (t1, r1, e1)" by (metis prod_cases3)
  have e1: "e1 = None"
  proof (cases e1)
    case (Some n)
    with utf8_malformed_append[of "u_pending p @ c" t1 r1 n "concat cs"] d1 Cons.prems(3) show ?thesis by simp
  qed
  from utf8_decode_split[OF d1] e1 have r1: "utf8_decode r1 = ([], r1, None)" by blast
  obtain t2 where t2: "utf8_decode (r1 @ concat cs) = (t2, rest, None)" "t = t1 @ t2"
    using utf8_decode_append_rest[OF d1, of "concat cs"] Cons.prems(3) by (auto split: prod.splits)
  obtain out s' where p1: "push (u_inner p) t1 = Some (out, s')" "inv s'" using push_returns[OF Cons.prems(1)] by blast
  let ?p' = "\<lparr>u_inner = s', u_pending = r1\<rparr>"
  have step: "push_bytes push p c = Some (Inr out, ?p')"
    using push_bytes_step[OF Cons.prems(1) _ p1(1)] d1 e1 by simp
  from Cons.IH[of ?p' t2] p1(2) r1 t2(1) obtain out2 s'' where
    p2: "push s' t2 = Some (out2, s'')" "feed_bytes push combine ?p' cs = Some (Inr out2, \<lparr>u_inner = s'', u_pending = rest\<rparr>)"
    by auto
  from push_append[OF Cons.prems(1) p1(1) p2(1)] step p2(2) t2(2) show ?case by simp
qed

end

interpretation utf8_citations: utf8_inner inline_inv citation_push_str append_chunk ..

interpretation utf8_plan: utf8_inner "\<lambda>_. True" "\<lambda>p c. Some (plan_push_str p c)" plan_combine ..

section \<open>Encoded text\<close>

text \<open>\<open>char::encode_utf8\<close>, and the code points that are characters.\<close>

definition is_scalar :: "uchar \<Rightarrow> bool" where
  "is_scalar c \<longleftrightarrow> c < 0x110000 \<and> \<not> (0xD800 \<le> c \<and> c \<le> 0xDFFF)"

definition utf8_encode :: "uchar \<Rightarrow> nat list" where
  "utf8_encode c =
     (if c < 0x80 then [c]
      else if c < 0x800 then [0xC0 + c div 64, 0x80 + c mod 64]
      else if c < 0x10000 then [0xE0 + c div 4096, 0x80 + c div 64 mod 64, 0x80 + c mod 64]
      else [0xF0 + c div 262144, 0x80 + c div 4096 mod 64, 0x80 + c div 64 mod 64, 0x80 + c mod 64])"

lemma cont_mod [simp]: "is_cont (0x80 + n mod 64)"
  unfolding is_cont_def using mod_less_divisor[of 64 n] by linarith

lemma digits3: "(c :: nat) div 4096 * 4096 + c div 64 mod 64 * 64 + c mod 64 = c"
proof -
  have "c div 4096 = c div 64 div 64" using div_mult2_eq[of c 64 64] by simp
  then show ?thesis using div_mult_mod_eq[of "c div 64" 64] div_mult_mod_eq[of c 64] by linarith
qed

lemma digits4: "(c :: nat) div 262144 * 262144 + c div 4096 mod 64 * 4096 + c div 64 mod 64 * 64 + c mod 64 = c"
proof -
  have "c div 262144 = c div 4096 div 64" using div_mult2_eq[of c 4096 64] by simp
  then show ?thesis using div_mult_mod_eq[of "c div 4096" 64] digits3[of c] by linarith
qed

lemma second_digit3:
  assumes "0x800 \<le> (c :: nat)" "c < 0x10000"
  shows "c div 4096 = 0 \<Longrightarrow> 0x20 \<le> c div 64 mod 64" and "c div 4096 \<le> 15"
    and "\<not> (0xD800 \<le> c \<and> c \<le> 0xDFFF) \<Longrightarrow> c div 4096 = 13 \<Longrightarrow> c div 64 mod 64 \<le> 0x1F"
proof -
  let ?q = "c div 64"
  have q: "c div 4096 = ?q div 64" using div_mult2_eq[of c 64 64] by simp
  have b: "32 \<le> ?q" "?q < 1024" using assms by (simp_all add: less_mult_imp_div_less)
  show "c div 4096 = 0 \<Longrightarrow> 0x20 \<le> c div 64 mod 64" using b unfolding q by simp
  show "c div 4096 \<le> 15" using b unfolding q by simp
  assume n: "\<not> (0xD800 \<le> c \<and> c \<le> 0xDFFF)" "c div 4096 = 13"
  have "?q < 0x360 \<or> 0x380 \<le> ?q" using n(1) by (cases "c < 0xD800") (simp_all add: less_mult_imp_div_less less_eq_div_iff_mult_less_eq)
  then show "c div 64 mod 64 \<le> 0x1F" using n(2) div_mult_mod_eq[of ?q 64] mod_less_divisor[of 64 ?q] unfolding q by auto
qed
lemma second_digit4:
  assumes "0x10000 \<le> (c :: nat)" "c < 0x110000"
  shows "c div 262144 = 0 \<Longrightarrow> 0x10 \<le> c div 4096 mod 64" and "c div 262144 \<le> 4"
    and "c div 262144 = 4 \<Longrightarrow> c div 4096 mod 64 \<le> 0xF"
proof -
  let ?q = "c div 4096"
  have q: "c div 262144 = ?q div 64" using div_mult2_eq[of c 4096 64] by simp
  have b: "16 \<le> ?q" "?q < 272" using assms by (simp_all add: less_mult_imp_div_less less_eq_div_iff_mult_less_eq)
  show "c div 262144 = 0 \<Longrightarrow> 0x10 \<le> c div 4096 mod 64" using b unfolding q by simp
  show "c div 262144 \<le> 4" using b unfolding q by simp
  assume "c div 262144 = 4"
  then show "c div 4096 mod 64 \<le> 0xF" using b div_mult_mod_eq[of ?q 64] unfolding q by simp
qed

lemma utf8_next_encode: "is_scalar c \<Longrightarrow> utf8_next (utf8_encode c) = Decoded c (length (utf8_encode c))"
proof -
  assume s: "is_scalar c"
  consider "c < 0x80" | "0x80 \<le> c" "c < 0x800" | "0x800 \<le> c" "c < 0x10000" | "0x10000 \<le> c" by linarith
  then show ?thesis
  proof cases
    case 1 then show ?thesis by (simp add: utf8_encode_def)
  next
    case 2
    then have "2 \<le> c div 64" "c div 64 < 32" by (simp_all add: less_mult_imp_div_less less_eq_div_iff_mult_less_eq)
    with 2 show ?thesis by (simp add: utf8_encode_def)
  next
    case 3
    have "c div 4096 \<le> 15" by (rule second_digit3(2)[OF 3])
    moreover have "second_of_three (0xE0 + c div 4096) (0x80 + c div 64 mod 64)"
    proof -
      have "c div 64 mod 64 < 64" by simp
      with second_digit3(1,3)[OF 3] s show ?thesis
        by (auto simp: second_of_three_def is_cont_def is_scalar_def)
    qed
    ultimately show ?thesis using 3 digits3[of c] by (simp add: utf8_encode_def)
  next
    case 4
    have lt: "c < 0x110000" using s by (simp add: is_scalar_def)
    have "c div 262144 \<le> 4" by (rule second_digit4(2)[OF 4 lt])
    moreover have "second_of_four (0xF0 + c div 262144) (0x80 + c div 4096 mod 64)"
    proof -
      have "c div 4096 mod 64 < 64" by simp
      with second_digit4(1,3)[OF 4 lt] show ?thesis
        by (auto simp: second_of_four_def is_cont_def)
    qed
    ultimately show ?thesis using 4 digits4[of c] by (simp add: utf8_encode_def)
  qed
qed

lemma utf8_encode_nonempty [simp]: "utf8_encode c \<noteq> []"
  by (simp add: utf8_encode_def)

lemma utf8_decode_encode: "list_all is_scalar t \<Longrightarrow> utf8_decode (concat (map utf8_encode t)) = (t, [], None)"
proof (induction t)
  case (Cons c t)
  from utf8_decode_Decoded[OF utf8_next_append(1)[OF utf8_next_encode[of c]]] Cons show ?case by simp
qed simp

text \<open>
  Bytes may be cut anywhere. When the bytes of a text are fed to the byte parser around the
  citation parser, in chunks that may split code points, no error arises, nothing stays pending, and
  the output and state are those of pushing the text itself.
\<close>
theorem utf8_chunks_invisible:
  assumes "list_all is_scalar t" and "concat cs = concat (map utf8_encode t)"
  shows "\<exists>out p. citation_push_str new_citation_parser t = Some (out, p) \<and>
    feed_bytes citation_push_str append_chunk (new_utf8_parser new_citation_parser) cs =
      Some (Inr out, \<lparr>u_inner = p, u_pending = []\<rparr>)"
  using utf8_citations.feed_bytes_decode[of "new_utf8_parser new_citation_parser" cs t "[]"]
    citation_inv_new utf8_decode_encode[OF assms(1)] assms(2)
  by (simp add: new_utf8_parser_def)

theorem utf8_chunks_invisible_witness:
  "\<exists>out p. citation_push_str new_citation_parser [233, 0x20AC] = Some (out, p) \<and>
    feed_bytes citation_push_str append_chunk (new_utf8_parser new_citation_parser) [[0xC3], [0xA9, 0xE2], [0x82], [0xAC]] =
      Some (Inr out, \<lparr>u_inner = p, u_pending = []\<rparr>)"
  by (rule utf8_chunks_invisible) (simp_all add: is_scalar_def utf8_encode_def)

text \<open>
  C40 Malformed bytes are rolled back. Pushing bytes fails exactly when the pending bytes with the new
  chunk contain a malformed sequence; the error tells how many bytes before it are valid and its
  length, and the parser, with its pending bytes and the parser inside, is left as it was.
\<close>
theorem push_bytes_error_iff:
  "push_bytes push p chunk = Some (Inl e, p') \<longleftrightarrow>
     p' = p \<and>
     (\<exists>t rest n. utf8_decode (u_pending p @ chunk) = (t, rest, Some n) \<and>
        e = InvalidUtf8 (length (u_pending p @ chunk) - length rest) n)"
proof -
  obtain t rest err where d: "utf8_decode (u_pending p @ chunk) = (t, rest, err)" by (metis prod_cases3)
  from utf8_decode_split[OF d] obtain pre where pre: "u_pending p @ chunk = pre @ rest" "utf8_decode pre = (t, [], None)"
    "utf8_decode rest = ([], rest, err)" by blast
  show ?thesis
  proof (cases err)
    case None
    have "push_bytes push p chunk \<noteq> Some (Inl e, p')"
      using d pre(1,2) None by (auto simp: push_bytes_def Let_def from_utf8_def split: if_splits)
    with None d show ?thesis by simp
  next
    case (Some n)
    have "rest \<noteq> []" using pre(3) Some by auto
    with d Some show ?thesis by (auto simp: push_bytes_def from_utf8_def)
  qed
qed

end
