(* ===== verification/ResponseItem.thy ===== *)
theory ResponseItem
  imports RustStr
begin

text \<open>
  The items of a conversation (\<open>protocol/src/models.rs\<close>, \<open>response_item_id.rs\<close>): messages,
  reasoning, tool calls and their outputs as the Responses API has them, with the
  accessors of their ids and metadata. A \<open>serde_json::Value\<close> carried by an item is a value
  of the type parameter \<open>'j\<close>; UUIDs are printed strings.
\<close>

section \<open>Contents\<close>

datatype image_detail = DetailAuto | DetailLow | DetailHigh | DetailOriginal

datatype content_item =
    InputText str
  | InputImage str "image_detail option"
  | InputAudio str
  | OutputText str

datatype output_content_item =
    OutInputText str
  | OutInputImage str "image_detail option"
  | OutInputAudio str
  | OutEncryptedContent str

datatype agent_message_content = AgentInputText str | AgentEncryptedContent str

datatype output_body = BodyText str | BodyContentItems "output_content_item list"

record output_payload =
  payload_body :: output_body
  payload_success :: "bool option"

definition payload_from_text :: "str \<Rightarrow> output_payload" where
  "payload_from_text content = \<lparr>payload_body = BodyText content, payload_success = None\<rparr>"

definition payload_from_content_items :: "output_content_item list \<Rightarrow> output_payload" where
  "payload_from_content_items items = \<lparr>payload_body = BodyContentItems items, payload_success = None\<rparr>"

definition payload_text_content :: "output_payload \<Rightarrow> str option" where
  "payload_text_content p = (case payload_body p of BodyText t \<Rightarrow> Some t | BodyContentItems _ \<Rightarrow> None)"

definition payload_content_items :: "output_payload \<Rightarrow> output_content_item list option" where
  "payload_content_items p = (case payload_body p of BodyText _ \<Rightarrow> None | BodyContentItems items \<Rightarrow> Some items)"

text \<open>\<open>content_items_mut\<close> followed by an assignment through the reference.\<close>

definition map_payload_items ::
    "(output_content_item list \<Rightarrow> output_content_item list) \<Rightarrow> output_payload \<Rightarrow> output_payload" where
  "map_payload_items f p =
     (case payload_body p of
        BodyText _ \<Rightarrow> p
      | BodyContentItems items \<Rightarrow> p\<lparr>payload_body := BodyContentItems (f items)\<rparr>)"

definition output_items_to_text :: "output_content_item list \<Rightarrow> str option" where
  "output_items_to_text items =
     (let text_segments =
            List.map_filter
              (\<lambda>item. case item of
                        OutInputText text \<Rightarrow> if trim text \<noteq> [] then Some text else None
                      | _ \<Rightarrow> None) items
      in if text_segments = [] then None else Some (join [NL] text_segments))"

definition body_to_text :: "output_body \<Rightarrow> str option" where
  "body_to_text b = (case b of BodyText content \<Rightarrow> Some content | BodyContentItems items \<Rightarrow> output_items_to_text items)"

fun plaintext_parts :: "agent_message_content list \<Rightarrow> str list option" where
  "plaintext_parts [] = Some []"
| "plaintext_parts (AgentInputText text # parts) = map_option ((#) text) (plaintext_parts parts)"
| "plaintext_parts (AgentEncryptedContent _ # parts) = None"

definition plaintext_agent_message_content :: "agent_message_content list \<Rightarrow> str option" where
  "plaintext_agent_message_content content =
     (case plaintext_parts content of
        None \<Rightarrow> None
      | Some text_parts \<Rightarrow>
          (let text = join [NL] text_parts in if trim text = [] then None else Some text))"

section \<open>Items\<close>

datatype message_phase = Commentary | FinalAnswer

datatype 'j executed_arguments = RawArguments 'j | TruncatedArguments nat nat "nat option" "nat option"

record 'j executed_tool_call =
  executed_name :: str
  executed_arguments :: "'j executed_arguments"

record 'j item_metadata =
  turn_id_field :: "str option"
  executed_tool_calls :: "'j executed_tool_call list option"

datatype reasoning_summary = SummaryText str
datatype reasoning_content = ReasoningText str | PlainReasoning str
datatype local_shell_status = ShellCompleted | ShellInProgress | ShellIncomplete

record local_shell_exec =
  shell_command :: "str list"
  shell_timeout_ms :: "nat option"
  shell_working_directory :: "str option"
  shell_env :: "(str \<rightharpoonup> str) option"
  shell_user :: "str option"

datatype local_shell_action = ShellExec local_shell_exec

datatype web_search_action =
    SearchAction "str option" "str list option"
  | OpenPageAction "str option"
  | FindInPageAction "str option" "str option"
  | OtherSearchAction

text \<open>The fields are in the order of the source; the first is the item id where there is one,
  the last the metadata where there is one.\<close>

datatype 'j response_item =
    AdditionalTools "str option" str "'j list"
  | Message "str option" str "content_item list" "message_phase option" "'j item_metadata option"
  | AgentMessage "str option" str str "agent_message_content list" "'j item_metadata option"
  | Reasoning "str option" "reasoning_summary list" "reasoning_content list option" "str option" "'j item_metadata option"
  | LocalShellCall "str option" "str option" local_shell_status local_shell_action "'j item_metadata option"
  | FunctionCall "str option" str "str option" str "str list option" str "'j item_metadata option"
  | ToolSearchCall "str option" "str option" "str option" str 'j "'j item_metadata option"
  | FunctionCallOutput "str option" str output_payload "'j item_metadata option"
  | CustomToolCall "str option" "str option" str str "str option" str "'j item_metadata option"
  | CustomToolCallOutput "str option" str "str option" output_payload "'j item_metadata option"
  | ToolSearchOutput "str option" "str option" str str "'j list" "'j item_metadata option"
  | WebSearchCall "str option" "str option" "web_search_action option" "'j item_metadata option"
  | ImageGenerationCall "str option" str "str option" str "'j item_metadata option"
  | Compaction "str option" str "'j item_metadata option"
  | CompactionTrigger
  | ContextCompaction "str option" "str option" "'j item_metadata option"
  | OtherItem

fun item_id :: "'j response_item \<Rightarrow> str option" where
  "item_id (AdditionalTools i _ _) = i"
| "item_id (Message i _ _ _ _) = i"
| "item_id (AgentMessage i _ _ _ _) = i"
| "item_id (LocalShellCall i _ _ _ _) = i"
| "item_id (FunctionCall i _ _ _ _ _ _) = i"
| "item_id (ToolSearchCall i _ _ _ _ _) = i"
| "item_id (FunctionCallOutput i _ _ _) = i"
| "item_id (CustomToolCall i _ _ _ _ _ _) = i"
| "item_id (CustomToolCallOutput i _ _ _ _) = i"
| "item_id (ToolSearchOutput i _ _ _ _ _) = i"
| "item_id (WebSearchCall i _ _ _) = i"
| "item_id (Reasoning i _ _ _ _) = i"
| "item_id (ImageGenerationCall i _ _ _ _) = i"
| "item_id (Compaction i _ _) = i"
| "item_id (ContextCompaction i _ _) = i"
| "item_id CompactionTrigger = None"
| "item_id OtherItem = None"

fun set_item_id :: "str option \<Rightarrow> 'j response_item \<Rightarrow> 'j response_item" where
  "set_item_id n (AdditionalTools _ a b) = AdditionalTools n a b"
| "set_item_id n (Message _ a b c m) = Message n a b c m"
| "set_item_id n (AgentMessage _ a b c m) = AgentMessage n a b c m"
| "set_item_id n (LocalShellCall _ a b c m) = LocalShellCall n a b c m"
| "set_item_id n (FunctionCall _ a b c d e m) = FunctionCall n a b c d e m"
| "set_item_id n (ToolSearchCall _ a b c d m) = ToolSearchCall n a b c d m"
| "set_item_id n (FunctionCallOutput _ a b m) = FunctionCallOutput n a b m"
| "set_item_id n (CustomToolCall _ a b c d e m) = CustomToolCall n a b c d e m"
| "set_item_id n (CustomToolCallOutput _ a b c m) = CustomToolCallOutput n a b c m"
| "set_item_id n (ToolSearchOutput _ a b c d m) = ToolSearchOutput n a b c d m"
| "set_item_id n (WebSearchCall _ a b m) = WebSearchCall n a b m"
| "set_item_id n (Reasoning _ a b c m) = Reasoning n a b c m"
| "set_item_id n (ImageGenerationCall _ a b c m) = ImageGenerationCall n a b c m"
| "set_item_id n (Compaction _ a m) = Compaction n a m"
| "set_item_id n (ContextCompaction _ a m) = ContextCompaction n a m"
| "set_item_id n CompactionTrigger = CompactionTrigger"
| "set_item_id n OtherItem = OtherItem"

fun id_prefix :: "'j response_item \<Rightarrow> str option" where
  "id_prefix (AdditionalTools _ _ _) = Some (lit ''at'')"
| "id_prefix (Message _ _ _ _ _) = Some (lit ''msg'')"
| "id_prefix (AgentMessage _ _ _ _ _) = Some (lit ''amsg'')"
| "id_prefix (Reasoning _ _ _ _ _) = Some (lit ''rs'')"
| "id_prefix (LocalShellCall _ _ _ _ _) = Some (lit ''lsh'')"
| "id_prefix (FunctionCall _ _ _ _ _ _ _) = Some (lit ''fc'')"
| "id_prefix (ToolSearchCall _ _ _ _ _ _) = Some (lit ''tsc'')"
| "id_prefix (FunctionCallOutput _ _ _ _) = Some (lit ''fco'')"
| "id_prefix (CustomToolCall _ _ _ _ _ _ _) = Some (lit ''ctc'')"
| "id_prefix (CustomToolCallOutput _ _ _ _ _) = Some (lit ''ctco'')"
| "id_prefix (ToolSearchOutput _ _ _ _ _ _) = Some (lit ''tso'')"
| "id_prefix (WebSearchCall _ _ _ _) = Some (lit ''ws'')"
| "id_prefix (ImageGenerationCall _ _ _ _ _) = Some (lit ''ig'')"
| "id_prefix (Compaction _ _ _) = Some (lit ''cmp'')"
| "id_prefix (ContextCompaction _ _ _) = Some (lit ''cmp'')"
| "id_prefix CompactionTrigger = None"
| "id_prefix OtherItem = None"

text \<open>\<open>None\<close> for the variants without a metadata field.\<close>

fun metadata_field :: "'j response_item \<Rightarrow> 'j item_metadata option option" where
  "metadata_field (Message _ _ _ _ m) = Some m"
| "metadata_field (AgentMessage _ _ _ _ m) = Some m"
| "metadata_field (Reasoning _ _ _ _ m) = Some m"
| "metadata_field (LocalShellCall _ _ _ _ m) = Some m"
| "metadata_field (FunctionCall _ _ _ _ _ _ m) = Some m"
| "metadata_field (ToolSearchCall _ _ _ _ _ m) = Some m"
| "metadata_field (FunctionCallOutput _ _ _ m) = Some m"
| "metadata_field (CustomToolCall _ _ _ _ _ _ m) = Some m"
| "metadata_field (CustomToolCallOutput _ _ _ _ m) = Some m"
| "metadata_field (ToolSearchOutput _ _ _ _ _ m) = Some m"
| "metadata_field (WebSearchCall _ _ _ m) = Some m"
| "metadata_field (ImageGenerationCall _ _ _ _ m) = Some m"
| "metadata_field (Compaction _ _ m) = Some m"
| "metadata_field (ContextCompaction _ _ m) = Some m"
| "metadata_field CompactionTrigger = None"
| "metadata_field (AdditionalTools _ _ _) = None"
| "metadata_field OtherItem = None"

fun map_metadata :: "('j item_metadata option \<Rightarrow> 'j item_metadata option) \<Rightarrow> 'j response_item \<Rightarrow> 'j response_item" where
  "map_metadata f (Message i a b c m) = Message i a b c (f m)"
| "map_metadata f (AgentMessage i a b c m) = AgentMessage i a b c (f m)"
| "map_metadata f (Reasoning i a b c m) = Reasoning i a b c (f m)"
| "map_metadata f (LocalShellCall i a b c m) = LocalShellCall i a b c (f m)"
| "map_metadata f (FunctionCall i a b c d e m) = FunctionCall i a b c d e (f m)"
| "map_metadata f (ToolSearchCall i a b c d m) = ToolSearchCall i a b c d (f m)"
| "map_metadata f (FunctionCallOutput i a b m) = FunctionCallOutput i a b (f m)"
| "map_metadata f (CustomToolCall i a b c d e m) = CustomToolCall i a b c d e (f m)"
| "map_metadata f (CustomToolCallOutput i a b c m) = CustomToolCallOutput i a b c (f m)"
| "map_metadata f (ToolSearchOutput i a b c d m) = ToolSearchOutput i a b c d (f m)"
| "map_metadata f (WebSearchCall i a b m) = WebSearchCall i a b (f m)"
| "map_metadata f (ImageGenerationCall i a b c m) = ImageGenerationCall i a b c (f m)"
| "map_metadata f (Compaction i a m) = Compaction i a (f m)"
| "map_metadata f (ContextCompaction i a m) = ContextCompaction i a (f m)"
| "map_metadata f CompactionTrigger = CompactionTrigger"
| "map_metadata f (AdditionalTools i a b) = AdditionalTools i a b"
| "map_metadata f OtherItem = OtherItem"

definition item_metadata_of :: "'j response_item \<Rightarrow> 'j item_metadata option" where
  "item_metadata_of item = (case metadata_field item of Some m \<Rightarrow> m | None \<Rightarrow> None)"

definition default_metadata :: "'j item_metadata" where
  "default_metadata = \<lparr>turn_id_field = None, executed_tool_calls = None\<rparr>"

definition metadata_set_turn_id :: "str \<Rightarrow> 'j item_metadata option \<Rightarrow> 'j item_metadata option" where
  "metadata_set_turn_id turn_id metadata =
     (if turn_id = [] \<or>
         (case metadata of
            Some m \<Rightarrow> (case turn_id_field m of Some t \<Rightarrow> t \<noteq> [] | None \<Rightarrow> False)
          | None \<Rightarrow> False)
      then metadata
      else Some ((case metadata of Some m \<Rightarrow> m | None \<Rightarrow> default_metadata)\<lparr>turn_id_field := Some turn_id\<rparr>))"

definition item_turn_id :: "'j response_item \<Rightarrow> str option" where
  "item_turn_id item =
     (case item_metadata_of item of
        None \<Rightarrow> None
      | Some m \<Rightarrow> (case turn_id_field m of Some t \<Rightarrow> if t = [] then None else Some t | None \<Rightarrow> None))"

definition set_turn_id_if_missing :: "str \<Rightarrow> 'j response_item \<Rightarrow> 'j response_item" where
  "set_turn_id_if_missing turn_id item = map_metadata (metadata_set_turn_id turn_id) item"

definition clear_metadata :: "'j response_item \<Rightarrow> 'j response_item" where
  "clear_metadata item = map_metadata (\<lambda>_. None) item"

definition is_user_message :: "'j response_item \<Rightarrow> bool" where
  "is_user_message item = (case item of Message _ role _ _ _ \<Rightarrow> role = lit ''user'' | _ \<Rightarrow> False)"

text \<open>Item ids: \<open>prefix_suffix\<close>.\<close>

definition id_with_suffix :: "str \<Rightarrow> str \<Rightarrow> str" where
  "id_with_suffix pre suf = pre @ lit ''_'' @ suf"

definition id_is_prefixed :: "str \<Rightarrow> bool" where
  "id_is_prefixed s = (case split_once 95 s of Some (pre, suf) \<Rightarrow> pre \<noteq> [] \<and> suf \<noteq> [] | None \<Rightarrow> False)"

section \<open>Lemmas\<close>

lemma item_id_set: "item_id (set_item_id n item) = n \<or> id_prefix item = None \<and> set_item_id n item = item"
  by (cases item) simp_all

lemma item_turn_id_set:
  "item_turn_id (set_turn_id_if_missing t item) =
     (if item_turn_id item \<noteq> None \<or> t = [] \<or> metadata_field item = None then item_turn_id item else Some t)"
proof -
  have F: "metadata_field (map_metadata f item) = map_option f (metadata_field item)" for f
    by (cases item) simp_all
  show ?thesis
    by (auto simp: item_turn_id_def set_turn_id_if_missing_def item_metadata_of_def F
        metadata_set_turn_id_def split: option.splits if_splits)
qed

lemma id_is_prefixed_with_suffix:
  "p \<noteq> [] \<Longrightarrow> s \<noteq> [] \<Longrightarrow> 95 \<notin> set p \<Longrightarrow> id_is_prefixed (id_with_suffix p s)"
proof -
  assume A: "p \<noteq> []" "s \<noteq> []" "95 \<notin> set p"
  have "split_once 95 (p @ 95 # s) = Some (p, s)" using A(3) by (simp add: split_once_Some)
  then show "id_is_prefixed (id_with_suffix p s)"
    using A by (simp add: id_is_prefixed_def id_with_suffix_def lit_def)
qed

end
