(* ===== verification/ContextNormalize.thy ===== *)
theory ContextNormalize
  imports ResponseItem
begin

text \<open>
  The normalisation of a conversation before it is sent to the model
  (\<open>core/src/context_manager/normalize.rs\<close>): every call gets an output, outputs without a
  call go, and images and audio the model cannot read are replaced.

  \<open>debug\<close> is \<open>cfg!(debug_assertions)\<close>: \<open>error_or_panic\<close> panics in debug builds, which is
  the value \<open>None\<close>, and logs in release builds. \<open>uuid_v5\<close> stands for
  \<open>Uuid::new_v5\<close> in the fixed namespace of the synthetic outputs, printed.
\<close>

section \<open>Definitions\<close>

definition error_or_panic :: "bool \<Rightarrow> unit option" where
  "error_or_panic debug = (if debug then None else Some ())"

definition IMAGE_PLACEHOLDER :: str where
  "IMAGE_PLACEHOLDER = lit ''image content omitted because you do not support image input''"

definition AUDIO_PLACEHOLDER :: str where
  "AUDIO_PLACEHOLDER = lit ''audio content omitted because you do not support audio input''"

text \<open>The call ids of the outputs in a history, one set per kind.\<close>

fun function_output_id :: "'j response_item \<Rightarrow> str option" where
  "function_output_id (FunctionCallOutput _ c _ _) = Some c"
| "function_output_id _ = None"

fun tool_search_output_id :: "'j response_item \<Rightarrow> str option" where
  "tool_search_output_id (ToolSearchOutput _ c _ _ _ _) = c"
| "tool_search_output_id _ = None"

fun custom_output_id :: "'j response_item \<Rightarrow> str option" where
  "custom_output_id (CustomToolCallOutput _ c _ _ _) = Some c"
| "custom_output_id _ = None"

definition ids_of :: "('j response_item \<Rightarrow> str option) \<Rightarrow> 'j response_item list \<Rightarrow> str set" where
  "ids_of f items = set (List.map_filter f items)"

definition synthetic_output_id :: "(str \<Rightarrow> str) \<Rightarrow> str \<Rightarrow> str option \<Rightarrow> str option" where
  "synthetic_output_id uuid_v5 pre i =
     (case i of
        None \<Rightarrow> None
      | Some source_id \<Rightarrow>
          if source_id = [] then None
          else Some (id_with_suffix pre (uuid_v5 (pre @ lit '':'' @ source_id))))"

definition aborted_payload :: output_payload where
  "aborted_payload = payload_from_text (lit ''aborted'')"

text \<open>The match of the second loop: the output to insert after an item, \<open>None\<close> on a panic.\<close>

fun missing_output ::
    "bool \<Rightarrow> (str \<Rightarrow> str) \<Rightarrow> str set \<Rightarrow> str set \<Rightarrow> str set \<Rightarrow> 'j response_item \<Rightarrow> 'j response_item option option" where
  "missing_output debug uuid_v5 fs ts cs (FunctionCall i _ _ _ _ c _) =
     Some (if c \<notin> fs
           then Some (FunctionCallOutput (synthetic_output_id uuid_v5 (lit ''fco'') i) c aborted_payload None)
           else None)"
| "missing_output debug uuid_v5 fs ts cs (ToolSearchCall i (Some c) _ _ _ _) =
     Some (if c \<notin> ts
           then Some (ToolSearchOutput (synthetic_output_id uuid_v5 (lit ''tso'') i) (Some c)
                        (lit ''completed'') (lit ''client'') [] None)
           else None)"
| "missing_output debug uuid_v5 fs ts cs (CustomToolCall i _ c _ _ _ _) =
     (if c \<notin> cs
      then map_option (\<lambda>_. Some (CustomToolCallOutput (synthetic_output_id uuid_v5 (lit ''ctco'') i) c None
                                   aborted_payload None)) (error_or_panic debug)
      else Some None)"
| "missing_output debug uuid_v5 fs ts cs (LocalShellCall i (Some c) _ _ _) =
     (if c \<notin> fs
      then map_option (\<lambda>_. Some (FunctionCallOutput (synthetic_output_id uuid_v5 (lit ''fco'') i) c
                                   aborted_payload None)) (error_or_panic debug)
      else Some None)"
| "missing_output debug uuid_v5 fs ts cs _ = Some None"

fun collect_missing ::
    "('j response_item \<Rightarrow> 'j response_item option option) \<Rightarrow> nat \<Rightarrow> 'j response_item list \<Rightarrow>
     (nat \<times> 'j response_item) list option" where
  "collect_missing f idx [] = Some []"
| "collect_missing f idx (item # items) =
     (case f item of
        None \<Rightarrow> None
      | Some m \<Rightarrow>
          map_option (\<lambda>rest. (case m of Some out \<Rightarrow> (idx, out) # rest | None \<Rightarrow> rest))
            (collect_missing f (Suc idx) items))"

text \<open>\<open>Vec::insert\<close> panics past the end, which is again \<open>None\<close>.\<close>

fun insert_outputs :: "(nat \<times> 'j response_item) list \<Rightarrow> 'j response_item list \<Rightarrow> 'j response_item list option" where
  "insert_outputs [] items = Some items"
| "insert_outputs ((idx, out) # rest) items =
     (case vec_insert (idx + 1) out items of None \<Rightarrow> None | Some items' \<Rightarrow> insert_outputs rest items')"

definition ensure_call_outputs_present ::
    "bool \<Rightarrow> (str \<Rightarrow> str) \<Rightarrow> 'j response_item list \<Rightarrow> 'j response_item list option" where
  "ensure_call_outputs_present debug uuid_v5 items =
     (let fs = ids_of function_output_id items;
          ts = ids_of tool_search_output_id items;
          cs = ids_of custom_output_id items
      in case collect_missing (missing_output debug uuid_v5 fs ts cs) 0 items of
           None \<Rightarrow> None
         | Some missing \<Rightarrow> insert_outputs (rev missing) items)"

text \<open>The call ids of the calls in a history.\<close>

fun function_call_id :: "'j response_item \<Rightarrow> str option" where
  "function_call_id (FunctionCall _ _ _ _ _ c _) = Some c"
| "function_call_id _ = None"

fun tool_search_call_id :: "'j response_item \<Rightarrow> str option" where
  "tool_search_call_id (ToolSearchCall _ c _ _ _ _) = c"
| "tool_search_call_id _ = None"

fun local_shell_call_id :: "'j response_item \<Rightarrow> str option" where
  "local_shell_call_id (LocalShellCall _ c _ _ _) = c"
| "local_shell_call_id _ = None"

fun custom_call_id :: "'j response_item \<Rightarrow> str option" where
  "custom_call_id (CustomToolCall _ _ c _ _ _ _) = Some c"
| "custom_call_id _ = None"

text \<open>The closure given to \<open>retain\<close>: whether an output stays, \<open>None\<close> on a panic.\<close>

definition has_match_or_panic :: "bool \<Rightarrow> bool \<Rightarrow> bool option" where
  "has_match_or_panic debug has_match =
     (if has_match then Some True else map_option (\<lambda>_. False) (error_or_panic debug))"

fun keep_output ::
    "bool \<Rightarrow> str set \<Rightarrow> str set \<Rightarrow> str set \<Rightarrow> str set \<Rightarrow> 'j response_item \<Rightarrow> bool option" where
  "keep_output debug fs ls ts cs (FunctionCallOutput _ c _ _) = has_match_or_panic debug (c \<in> fs \<or> c \<in> ls)"
| "keep_output debug fs ls ts cs (CustomToolCallOutput _ c _ _ _) = has_match_or_panic debug (c \<in> cs)"
| "keep_output debug fs ls ts cs (ToolSearchOutput _ c _ execution _ _) =
     (if execution = lit ''server'' then Some True
      else case c of Some c \<Rightarrow> has_match_or_panic debug (c \<in> ts) | None \<Rightarrow> Some True)"
| "keep_output debug fs ls ts cs _ = Some True"

fun retain :: "('a \<Rightarrow> bool option) \<Rightarrow> 'a list \<Rightarrow> 'a list option" where
  "retain f [] = Some []"
| "retain f (x # xs) =
     (case f x of
        None \<Rightarrow> None
      | Some keep \<Rightarrow> map_option (\<lambda>rest. if keep then x # rest else rest) (retain f xs))"

definition remove_orphan_outputs :: "bool \<Rightarrow> 'j response_item list \<Rightarrow> 'j response_item list option" where
  "remove_orphan_outputs debug items =
     retain (keep_output debug (ids_of function_call_id items) (ids_of local_shell_call_id items)
               (ids_of tool_search_call_id items) (ids_of custom_call_id items)) items"

definition remove_first_matching :: "('a \<Rightarrow> bool) \<Rightarrow> 'a list \<Rightarrow> 'a list" where
  "remove_first_matching p items = (case position p items of Some pos \<Rightarrow> vec_remove pos items | None \<Rightarrow> items)"

fun remove_corresponding_for :: "'j response_item \<Rightarrow> 'j response_item list \<Rightarrow> 'j response_item list" where
  "remove_corresponding_for (FunctionCall _ _ _ _ _ c _) items =
     remove_first_matching (\<lambda>i. function_output_id i = Some c) items"
| "remove_corresponding_for (FunctionCallOutput _ c _ _) items =
     (case position (\<lambda>i. function_call_id i = Some c) items of
        Some pos \<Rightarrow> vec_remove pos items
      | None \<Rightarrow>
          (case position (\<lambda>i. local_shell_call_id i = Some c) items of
             Some pos \<Rightarrow> vec_remove pos items
           | None \<Rightarrow> items))"
| "remove_corresponding_for (ToolSearchCall _ (Some c) _ _ _ _) items =
     remove_first_matching (\<lambda>i. tool_search_output_id i = Some c) items"
| "remove_corresponding_for (ToolSearchOutput _ (Some c) _ _ _ _) items =
     remove_first_matching (\<lambda>i. tool_search_call_id i = Some c) items"
| "remove_corresponding_for (CustomToolCall _ _ c _ _ _ _) items =
     remove_first_matching (\<lambda>i. custom_output_id i = Some c) items"
| "remove_corresponding_for (CustomToolCallOutput _ c _ _ _) items =
     remove_first_matching (\<lambda>i. custom_call_id i = Some c) items"
| "remove_corresponding_for (LocalShellCall _ (Some c) _ _ _) items =
     remove_first_matching (\<lambda>i. function_output_id i = Some c) items"
| "remove_corresponding_for _ items = items"

datatype input_modality = ModalityText | ModalityImage | ModalityAudio

fun strip_image_content :: "content_item \<Rightarrow> content_item" where
  "strip_image_content (InputImage _ _) = InputText IMAGE_PLACEHOLDER"
| "strip_image_content c = c"

fun strip_image_output :: "output_content_item \<Rightarrow> output_content_item" where
  "strip_image_output (OutInputImage _ _) = OutInputText IMAGE_PLACEHOLDER"
| "strip_image_output c = c"

fun strip_images :: "'j response_item \<Rightarrow> 'j response_item" where
  "strip_images (Message i role content phase m) = Message i role (map strip_image_content content) phase m"
| "strip_images (FunctionCallOutput i c output m) =
     FunctionCallOutput i c (map_payload_items (map strip_image_output) output) m"
| "strip_images (CustomToolCallOutput i c n output m) =
     CustomToolCallOutput i c n (map_payload_items (map strip_image_output) output) m"
| "strip_images (ImageGenerationCall i s p result m) = ImageGenerationCall i s p [] m"
| "strip_images item = item"

definition strip_images_when_unsupported :: "input_modality list \<Rightarrow> 'j response_item list \<Rightarrow> 'j response_item list" where
  "strip_images_when_unsupported modalities items =
     (if ModalityImage \<in> set modalities then items else map strip_images items)"

fun strip_audio_content :: "content_item \<Rightarrow> content_item" where
  "strip_audio_content (InputAudio _) = InputText AUDIO_PLACEHOLDER"
| "strip_audio_content c = c"

fun strip_audio_output :: "output_content_item \<Rightarrow> output_content_item" where
  "strip_audio_output (OutInputAudio _) = OutInputText AUDIO_PLACEHOLDER"
| "strip_audio_output c = c"

fun strip_audio :: "'j response_item \<Rightarrow> 'j response_item" where
  "strip_audio (Message i role content phase m) = Message i role (map strip_audio_content content) phase m"
| "strip_audio (FunctionCallOutput i c output m) =
     FunctionCallOutput i c (map_payload_items (map strip_audio_output) output) m"
| "strip_audio (CustomToolCallOutput i c n output m) =
     CustomToolCallOutput i c n (map_payload_items (map strip_audio_output) output) m"
| "strip_audio item = item"

definition strip_audio_when_unsupported :: "input_modality list \<Rightarrow> 'j response_item list \<Rightarrow> 'j response_item list" where
  "strip_audio_when_unsupported modalities items =
     (if ModalityAudio \<in> set modalities then items else map strip_audio items)"

text \<open>\<open>ContextManager::normalize_history\<close> on the items.\<close>

definition normalize_items ::
    "bool \<Rightarrow> (str \<Rightarrow> str) \<Rightarrow> input_modality list \<Rightarrow> 'j response_item list \<Rightarrow> 'j response_item list option" where
  "normalize_items debug uuid_v5 modalities items =
     (case ensure_call_outputs_present debug uuid_v5 items of
        None \<Rightarrow> None
      | Some items1 \<Rightarrow>
          (case remove_orphan_outputs debug items1 of
             None \<Rightarrow> None
           | Some items2 \<Rightarrow>
               Some (strip_audio_when_unsupported modalities
                       (strip_images_when_unsupported modalities items2))))"

section \<open>Specification\<close>

text \<open>A call without an output, and an output without a call.\<close>

definition unanswered :: "'j response_item list \<Rightarrow> 'j response_item \<Rightarrow> bool" where
  "unanswered items item \<longleftrightarrow>
     (\<exists>c. (function_call_id item = Some c \<or> local_shell_call_id item = Some c) \<and> c \<notin> ids_of function_output_id items) \<or>
     (\<exists>c. tool_search_call_id item = Some c \<and> c \<notin> ids_of tool_search_output_id items) \<or>
     (\<exists>c. custom_call_id item = Some c \<and> c \<notin> ids_of custom_output_id items)"

fun server_output :: "'j response_item \<Rightarrow> bool" where
  "server_output (ToolSearchOutput _ _ _ execution _ _) \<longleftrightarrow> execution = lit ''server''"
| "server_output _ \<longleftrightarrow> False"

definition orphan :: "'j response_item list \<Rightarrow> 'j response_item \<Rightarrow> bool" where
  "orphan items item \<longleftrightarrow>
     (\<exists>c. function_output_id item = Some c \<and> c \<notin> ids_of function_call_id items \<and> c \<notin> ids_of local_shell_call_id items) \<or>
     (\<exists>c. tool_search_output_id item = Some c \<and> \<not> server_output item \<and> c \<notin> ids_of tool_search_call_id items) \<or>
     (\<exists>c. custom_output_id item = Some c \<and> c \<notin> ids_of custom_call_id items)"

definition paired :: "'j response_item list \<Rightarrow> bool" where
  "paired items \<longleftrightarrow> (\<forall>item\<in>set items. \<not> unanswered items item \<and> \<not> orphan items item)"

text \<open>The calls whose missing output a debug build panics on.\<close>

definition unanswered_local :: "'j response_item list \<Rightarrow> 'j response_item \<Rightarrow> bool" where
  "unanswered_local items item \<longleftrightarrow>
     unanswered items item \<and> (local_shell_call_id item \<noteq> None \<or> custom_call_id item \<noteq> None)"

text \<open>The outputs inserted after an item.\<close>

definition synthetic :: "(str \<Rightarrow> str) \<Rightarrow> 'j response_item list \<Rightarrow> 'j response_item \<Rightarrow> 'j response_item list" where
  "synthetic uuid_v5 items item =
     (case missing_output False uuid_v5 (ids_of function_output_id items) (ids_of tool_search_output_id items)
             (ids_of custom_output_id items) item of
        Some (Some out) \<Rightarrow> [out]
      | _ \<Rightarrow> [])"

definition strip_media :: "input_modality list \<Rightarrow> 'j response_item \<Rightarrow> 'j response_item" where
  "strip_media modalities item =
     (let item = (if ModalityImage \<in> set modalities then item else strip_images item)
      in if ModalityAudio \<in> set modalities then item else strip_audio item)"

section \<open>Lemmas\<close>

named_theorems call_ids "the call id accessors"

lemmas [call_ids] = function_call_id.simps local_shell_call_id.simps tool_search_call_id.simps
  custom_call_id.simps function_output_id.simps tool_search_output_id.simps custom_output_id.simps

lemma ids_of_iff: "c \<in> ids_of f items \<longleftrightarrow> (\<exists>i\<in>set items. f i = Some c)"
  by (force simp: ids_of_def List.map_filter_def image_iff)

lemma ids_of_simps [simp]:
  "ids_of f [] = {}" "ids_of f (xs @ ys) = ids_of f xs \<union> ids_of f ys"
  "ids_of f (x # xs) = (case f x of Some c \<Rightarrow> {c} | None \<Rightarrow> {}) \<union> ids_of f xs"
  by (auto simp: ids_of_iff split: option.splits)

lemma insert_outputs_append:
  "insert_outputs (xs @ ys) items = (case insert_outputs xs items of None \<Rightarrow> None | Some items' \<Rightarrow> insert_outputs ys items')"
  by (induction xs arbitrary: items) (auto split: option.splits)

text \<open>Inserting from the back puts each output right after its item.\<close>

lemma insert_outputs_collected:
  "collect_missing f (length pre) items = Some missing \<Longrightarrow>
   insert_outputs (rev missing) (pre @ items) =
     Some (pre @ concat (map (\<lambda>i. i # (case f i of Some (Some out) \<Rightarrow> [out] | _ \<Rightarrow> [])) items))"
proof (induction items arbitrary: pre missing)
  case (Cons x xs)
  obtain m rest where M: "f x = Some m" "collect_missing f (Suc (length pre)) xs = Some rest"
      "missing = (case m of Some out \<Rightarrow> (length pre, out) # rest | None \<Rightarrow> rest)"
    using Cons.prems by (auto split: option.splits)
  have IH: "insert_outputs (rev rest) (pre @ x # xs) =
      Some (pre @ x # concat (map (\<lambda>i. i # (case f i of Some (Some out) \<Rightarrow> [out] | _ \<Rightarrow> [])) xs))"
    using Cons.IH [of "pre @ [x]" rest] M(2) by simp
  show ?case
    by (cases m) (simp_all add: M IH insert_outputs_append vec_insert_def)
qed simp

lemma collect_missing_None: "collect_missing f k items = None \<longleftrightarrow> (\<exists>i\<in>set items. f i = None)"
  by (induction items arbitrary: k) (auto split: option.splits)

lemma ensure_call_outputs_present_eq:
  "ensure_call_outputs_present debug uuid_v5 items =
     (if debug \<and> (\<exists>i\<in>set items. unanswered_local items i) then None
      else Some (concat (map (\<lambda>i. i # synthetic uuid_v5 items i) items)))"
proof -
  let ?f = "\<lambda>d. missing_output d uuid_v5 (ids_of function_output_id items) (ids_of tool_search_output_id items)
             (ids_of custom_output_id items)"
  have N: "?f debug i = None \<longleftrightarrow> debug \<and> unanswered_local items i" for i :: "'a response_item"
    by (cases "(debug, uuid_v5, ids_of function_output_id items, ids_of tool_search_output_id items,
          ids_of custom_output_id items, i)" rule: missing_output.cases)
       (auto simp: error_or_panic_def unanswered_local_def unanswered_def)
  have E: "?f debug i = ?f False i" if "?f debug i \<noteq> None" for i :: "'a response_item"
    using that by (cases "(debug, uuid_v5, ids_of function_output_id items, ids_of tool_search_output_id items,
          ids_of custom_output_id items, i)" rule: missing_output.cases)
       (auto simp: error_or_panic_def split: if_splits)
  show ?thesis
  proof (cases "collect_missing (?f debug) 0 items")
    case None
    then have "debug \<and> (\<exists>i\<in>set items. unanswered_local items i)"
      by (auto simp: collect_missing_None N)
    with None show ?thesis by (simp add: ensure_call_outputs_present_def)
  next
    case (Some missing)
    then have all: "\<forall>i\<in>set items. ?f debug i \<noteq> None"
      using collect_missing_None [of "?f debug" 0 items] by auto
    have "insert_outputs (rev missing) items =
        Some (concat (map (\<lambda>i. i # (case ?f debug i of Some (Some out) \<Rightarrow> [out] | _ \<Rightarrow> [])) items))"
      using insert_outputs_collected [of "?f debug" "[]" items missing] Some by simp
    also have "map (\<lambda>i. i # (case ?f debug i of Some (Some out) \<Rightarrow> [out] | _ \<Rightarrow> [])) items =
        map (\<lambda>i. i # synthetic uuid_v5 items i) items"
      using all E by (intro map_cong) (auto simp: synthetic_def)
    finally show ?thesis using Some all N by (auto simp: ensure_call_outputs_present_def)
  qed
qed

text \<open>The ids an inserted output carries are those of the unanswered call before it.\<close>

lemma synthetic_ids:
  assumes "out \<in> set (synthetic uuid_v5 items item)"
  shows "function_call_id out = None \<and> local_shell_call_id out = None \<and> tool_search_call_id out = None \<and>
         custom_call_id out = None \<and> \<not> server_output out \<and>
         (function_output_id out \<noteq> None \<longrightarrow>
            function_output_id out = function_call_id item \<or> function_output_id out = local_shell_call_id item) \<and>
         (tool_search_output_id out \<noteq> None \<longrightarrow> tool_search_output_id out = tool_search_call_id item) \<and>
         (custom_output_id out \<noteq> None \<longrightarrow> custom_output_id out = custom_call_id item)"
  using assms
  by (cases "(False, uuid_v5, ids_of function_output_id items, ids_of tool_search_output_id items,
        ids_of custom_output_id items, item)" rule: missing_output.cases)
     (auto simp: synthetic_def error_or_panic_def lit_simps split: if_splits)

lemma synthetic_answers:
  assumes "unanswered items item"
  obtains out where "synthetic uuid_v5 items item = [out]"
    "function_call_id item = Some c \<or> local_shell_call_id item = Some c \<Longrightarrow> function_output_id out = Some c"
    "tool_search_call_id item = Some c \<Longrightarrow> tool_search_output_id out = Some c"
    "custom_call_id item = Some c \<Longrightarrow> custom_output_id out = Some c"
  using assms that
  by (cases "(False, uuid_v5, ids_of function_output_id items, ids_of tool_search_output_id items,
        ids_of custom_output_id items, item)" rule: missing_output.cases)
     (auto simp: synthetic_def error_or_panic_def unanswered_def split: if_splits)

lemma synthetic_answered: "\<not> unanswered items item \<Longrightarrow> synthetic uuid_v5 items item = []"
  by (cases "(False, uuid_v5, ids_of function_output_id items, ids_of tool_search_output_id items,
        ids_of custom_output_id items, item)" rule: missing_output.cases)
     (auto simp: synthetic_def error_or_panic_def unanswered_def split: if_splits)

text \<open>The history after the first pass.\<close>

abbreviation answered_items :: "(str \<Rightarrow> str) \<Rightarrow> 'j response_item list \<Rightarrow> 'j response_item list" where
  "answered_items uuid_v5 items \<equiv> concat (map (\<lambda>i. i # synthetic uuid_v5 items i) items)"

lemma answered_calls:
  "ids_of function_call_id (answered_items uuid_v5 items) = ids_of function_call_id items"
  "ids_of local_shell_call_id (answered_items uuid_v5 items) = ids_of local_shell_call_id items"
  "ids_of tool_search_call_id (answered_items uuid_v5 items) = ids_of tool_search_call_id items"
  "ids_of custom_call_id (answered_items uuid_v5 items) = ids_of custom_call_id items"
  using synthetic_ids [of _ uuid_v5 items] by (fastforce simp: ids_of_iff)+

lemma orphan_answered: "orphan (answered_items uuid_v5 items) item \<longleftrightarrow> orphan items item"
  by (simp add: orphan_def answered_calls)

lemma synthetic_not_orphan:
  assumes "item \<in> set items" "out \<in> set (synthetic uuid_v5 items item)"
  shows "\<not> orphan items out"
  using synthetic_ids [OF assms(2)] assms(1) unfolding orphan_def ids_of_iff by (metis option.distinct(1))

lemma answered_outputs:
  assumes "item \<in> set items"
  shows "\<not> unanswered (answered_items uuid_v5 items) item"
proof (cases "unanswered items item")
  case False
  then show ?thesis using assms unfolding unanswered_def ids_of_iff by simp (metis)
next
  case True
  show ?thesis
  proof
    assume U: "unanswered (answered_items uuid_v5 items) item"
    have sub: "set (synthetic uuid_v5 items item) \<subseteq> set (answered_items uuid_v5 items)"
      using assms by auto
    from U show False
      unfolding unanswered_def
      using sub synthetic_answers [OF True, of uuid_v5]
      by (auto simp only: ids_of_iff) (metis list.set_intros(1) subsetD)+
  qed
qed

lemma retain_eq:
  "retain f xs = (if \<exists>x\<in>set xs. f x = None then None else Some (filter (\<lambda>x. f x = Some True) xs))"
  by (induction xs) (auto split: option.splits)

lemma keep_output_eq:
  "keep_output debug (ids_of function_call_id items) (ids_of local_shell_call_id items)
     (ids_of tool_search_call_id items) (ids_of custom_call_id items) item =
   (if orphan items item then (if debug then None else Some False) else Some True)"
  by (cases item) (auto simp: orphan_def has_match_or_panic_def error_or_panic_def split: option.splits)

lemma remove_orphan_outputs_eq:
  "remove_orphan_outputs debug items =
     (if debug \<and> (\<exists>i\<in>set items. orphan items i) then None else Some (filter (\<lambda>i. \<not> orphan items i) items))"
  by (auto simp: remove_orphan_outputs_def retain_eq keep_output_eq intro!: filter_cong)

lemma strip_media_when_unsupported:
  "strip_audio_when_unsupported m (strip_images_when_unsupported m items) = map (strip_media m) items"
  by (simp add: strip_audio_when_unsupported_def strip_images_when_unsupported_def strip_media_def map_idI)

lemma orphan_is_output:
  "orphan items item \<Longrightarrow> function_call_id item = None \<and> local_shell_call_id item = None \<and>
     tool_search_call_id item = None \<and> custom_call_id item = None"
  by (cases item) (auto simp: orphan_def)

lemma orphan_no_synthetic: "orphan items item \<Longrightarrow> synthetic uuid_v5 items item = []"
  using orphan_is_output by (intro synthetic_answered) (fastforce simp: unanswered_def)

text \<open>The normalised history before the media are replaced.\<close>

abbreviation paired_items :: "(str \<Rightarrow> str) \<Rightarrow> 'j response_item list \<Rightarrow> 'j response_item list" where
  "paired_items uuid_v5 items \<equiv>
     concat (map (\<lambda>i. if orphan items i then [] else i # synthetic uuid_v5 items i) items)"

lemma filter_answered_items:
  "filter (\<lambda>i. \<not> orphan items i) (answered_items uuid_v5 items) = paired_items uuid_v5 items"
proof -
  have "filter (\<lambda>i. \<not> orphan items i) (i # synthetic uuid_v5 items i) =
      (if orphan items i then [] else i # synthetic uuid_v5 items i)" if "i \<in> set items" for i
    using synthetic_not_orphan [OF that] orphan_no_synthetic [of items i uuid_v5]
    by (auto simp: filter_id_conv)
  then show ?thesis by (simp add: filter_concat comp_def cong: map_cong)
qed

lemma normalize_items_eq:
  "normalize_items debug uuid_v5 modalities items =
     (if debug \<and> (\<exists>i\<in>set items. unanswered_local items i \<or> orphan items i) then None
      else Some (map (strip_media modalities) (paired_items uuid_v5 items)))"
proof -
  have "(\<exists>i\<in>set (answered_items uuid_v5 items). orphan items i) \<longleftrightarrow> (\<exists>i\<in>set items. orphan items i)"
    using synthetic_not_orphan by fastforce
  then show ?thesis
    by (auto simp: normalize_items_def ensure_call_outputs_present_eq remove_orphan_outputs_eq
        orphan_answered filter_answered_items strip_media_when_unsupported)
qed

text \<open>The media replacement leaves the kind and the call ids of an item.\<close>

lemma strip_media_ids [simp]:
  "function_call_id (strip_media m i) = function_call_id i"
  "local_shell_call_id (strip_media m i) = local_shell_call_id i"
  "tool_search_call_id (strip_media m i) = tool_search_call_id i"
  "custom_call_id (strip_media m i) = custom_call_id i"
  "function_output_id (strip_media m i) = function_output_id i"
  "tool_search_output_id (strip_media m i) = tool_search_output_id i"
  "custom_output_id (strip_media m i) = custom_output_id i"
  "server_output (strip_media m i) = server_output i"
  by (cases i; simp add: strip_media_def Let_def)+

lemma ids_of_map_strip: "(\<And>i. f (g i) = f i) \<Longrightarrow> ids_of f (map g items) = ids_of f items"
  by (auto simp: ids_of_iff)

lemma paired_strip_media [simp]: "paired (map (strip_media m) items) \<longleftrightarrow> paired items"
  by (simp add: paired_def unanswered_def orphan_def ids_of_map_strip)

lemma paired_normalized: "paired (paired_items uuid_v5 items)"
proof -
  define as ps where "as = answered_items uuid_v5 items" and "ps = paired_items uuid_v5 items"
  have P: "set ps = {i \<in> set as. \<not> orphan items i}"
    unfolding ps_def as_def filter_answered_items [symmetric] by auto
  have calls: "ids_of f ps = ids_of f as"
    if "\<And>i. orphan items i \<Longrightarrow> f i = None" for f :: "'a response_item \<Rightarrow> str option"
    unfolding ids_of_iff set_eq_iff P using that by fastforce
  note as_calls = answered_calls [of uuid_v5 items, folded as_def]
  have ids: "ids_of function_call_id ps = ids_of function_call_id items"
      "ids_of local_shell_call_id ps = ids_of local_shell_call_id items"
      "ids_of tool_search_call_id ps = ids_of tool_search_call_id items"
      "ids_of custom_call_id ps = ids_of custom_call_id items"
    by (rule trans [OF calls as_calls(1)] trans [OF calls as_calls(2)]
        trans [OF calls as_calls(3)] trans [OF calls as_calls(4)],
        rule orphan_is_output [THEN conjunct1] orphan_is_output [THEN conjunct2, THEN conjunct1]
          orphan_is_output [THEN conjunct2, THEN conjunct2, THEN conjunct1]
          orphan_is_output [THEN conjunct2, THEN conjunct2, THEN conjunct2], assumption)+
  have O: "orphan ps i \<longleftrightarrow> orphan items i" for i
    unfolding orphan_def [of ps] orphan_def [of items] ids ..
  have U: "\<not> unanswered as i" if "i \<in> set as" for i
  proof -
    from that obtain j where j: "j \<in> set items" "i = j \<or> i \<in> set (synthetic uuid_v5 items j)" unfolding as_def by auto
    then show ?thesis
      using answered_outputs [OF j(1), of uuid_v5, folded as_def] synthetic_ids [of i uuid_v5 items j] by (auto simp: unanswered_def)
  qed
  have "\<not> unanswered ps i" if "i \<in> set as" for i
  proof -
    have not_orphan: "\<not> orphan items out"
      if "out \<in> set as"
        "function_output_id out = Some c \<and> (function_call_id i = Some c \<or> local_shell_call_id i = Some c) \<or>
         tool_search_output_id out = Some c \<and> tool_search_call_id i = Some c \<or>
         custom_output_id out = Some c \<and> custom_call_id i = Some c" for out c
    proof -
      have "c \<in> ids_of function_call_id as \<union> ids_of local_shell_call_id as" if "function_call_id i = Some c \<or> local_shell_call_id i = Some c"
        using that \<open>i \<in> set as\<close> unfolding ids_of_iff Un_iff by blast
      moreover have "c \<in> ids_of tool_search_call_id as" if "tool_search_call_id i = Some c"
        using that \<open>i \<in> set as\<close> unfolding ids_of_iff by blast
      moreover have "c \<in> ids_of custom_call_id as" if "custom_call_id i = Some c"
        using that \<open>i \<in> set as\<close> unfolding ids_of_iff by blast
      ultimately show ?thesis
        using that(2) unfolding orphan_def as_calls [symmetric]
        by (cases out) auto
    qed
    show ?thesis
      using U [OF that] not_orphan unfolding unanswered_def ids_of_iff P by blast
  qed
  then have "paired ps" unfolding paired_def O P by blast
  then show ?thesis by (simp only: ps_def)
qed

lemma paired_items_fixed:
  assumes "paired items"
  shows "paired_items uuid_v5 items = items"
proof -
  have "(if orphan items i then [] else i # synthetic uuid_v5 items i) = [i]" if "i \<in> set items" for i
    using assms that synthetic_answered [of items i] by (simp add: paired_def)
  then show ?thesis by (simp cong: map_cong)
qed

lemma strip_image_idem [simp]:
  "strip_image_content (strip_image_content c) = strip_image_content c"
  "strip_image_output (strip_image_output d) = strip_image_output d"
  "strip_audio_content (strip_audio_content c) = strip_audio_content c"
  "strip_audio_output (strip_audio_output d) = strip_audio_output d"
  "strip_image_content (strip_audio_content (strip_image_content c)) = strip_audio_content (strip_image_content c)"
  "strip_image_output (strip_audio_output (strip_image_output d)) = strip_audio_output (strip_image_output d)"
  by (cases c; cases d; simp)+

lemma map_payload_items_comp [simp]:
  "map_payload_items f (map_payload_items g p) = map_payload_items (f \<circ> g) p"
  by (cases "payload_body p") (simp_all add: map_payload_items_def)

lemma strip_media_idem [simp]: "strip_media m (strip_media m i) = strip_media m i"
  by (cases i) (simp_all add: strip_media_def Let_def comp_def)

text \<open>What the model cannot read.\<close>

fun has_image :: "'j response_item \<Rightarrow> bool" where
  "has_image (Message _ _ content _ _) \<longleftrightarrow> list_ex (\<lambda>c. case c of InputImage _ _ \<Rightarrow> True | _ \<Rightarrow> False) content"
| "has_image (FunctionCallOutput _ _ output _) \<longleftrightarrow>
     (case payload_content_items output of
        Some items \<Rightarrow> list_ex (\<lambda>c. case c of OutInputImage _ _ \<Rightarrow> True | _ \<Rightarrow> False) items
      | None \<Rightarrow> False)"
| "has_image (CustomToolCallOutput _ _ _ output _) \<longleftrightarrow>
     (case payload_content_items output of
        Some items \<Rightarrow> list_ex (\<lambda>c. case c of OutInputImage _ _ \<Rightarrow> True | _ \<Rightarrow> False) items
      | None \<Rightarrow> False)"
| "has_image (ImageGenerationCall _ _ _ result _) \<longleftrightarrow> result \<noteq> []"
| "has_image _ \<longleftrightarrow> False"

fun has_audio :: "'j response_item \<Rightarrow> bool" where
  "has_audio (Message _ _ content _ _) \<longleftrightarrow> list_ex (\<lambda>c. case c of InputAudio _ \<Rightarrow> True | _ \<Rightarrow> False) content"
| "has_audio (FunctionCallOutput _ _ output _) \<longleftrightarrow>
     (case payload_content_items output of
        Some items \<Rightarrow> list_ex (\<lambda>c. case c of OutInputAudio _ \<Rightarrow> True | _ \<Rightarrow> False) items
      | None \<Rightarrow> False)"
| "has_audio (CustomToolCallOutput _ _ _ output _) \<longleftrightarrow>
     (case payload_content_items output of
        Some items \<Rightarrow> list_ex (\<lambda>c. case c of OutInputAudio _ \<Rightarrow> True | _ \<Rightarrow> False) items
      | None \<Rightarrow> False)"
| "has_audio _ \<longleftrightarrow> False"

lemma strip_content_simps [simp]:
  "(case strip_image_content c of InputImage a b \<Rightarrow> True | _ \<Rightarrow> False) = False"
  "(case strip_image_output d of OutInputImage a b \<Rightarrow> True | _ \<Rightarrow> False) = False"
  "(case strip_audio_content c of InputImage a b \<Rightarrow> True | _ \<Rightarrow> False) = (case c of InputImage a b \<Rightarrow> True | _ \<Rightarrow> False)"
  "(case strip_audio_output d of OutInputImage a b \<Rightarrow> True | _ \<Rightarrow> False) = (case d of OutInputImage a b \<Rightarrow> True | _ \<Rightarrow> False)"
  "(case strip_audio_content c of InputAudio a \<Rightarrow> True | _ \<Rightarrow> False) = False"
  "(case strip_audio_output d of OutInputAudio a \<Rightarrow> True | _ \<Rightarrow> False) = False"
  by (cases c; cases d; simp)+

lemma payload_content_items_map [simp]:
  "payload_content_items (map_payload_items f p) = map_option f (payload_content_items p)"
  by (cases "payload_body p") (simp_all add: payload_content_items_def map_payload_items_def)

lemma list_ex_map_comp: "list_ex p (map f xs) = list_ex (\<lambda>x. p (f x)) xs"
  by (induction xs) auto

lemma no_images: "\<not> has_image (strip_images i)"
  by (cases i) (auto simp: list_ex_map_comp list_ex_iff split: option.splits)

lemma no_images_strip_audio: "has_image (strip_audio i) = has_image i"
  by (cases i) (auto simp: list_ex_map_comp split: option.splits)

lemma no_audio: "\<not> has_audio (strip_audio i)"
  by (cases i) (auto simp: list_ex_map_comp list_ex_iff split: option.splits)

lemma strip_media_clean:
  "ModalityImage \<notin> set m \<Longrightarrow> \<not> has_image (strip_media m i)"
  "ModalityAudio \<notin> set m \<Longrightarrow> \<not> has_audio (strip_media m i)"
  by (simp_all add: strip_media_def Let_def no_images no_images_strip_audio no_audio)

section \<open>Properties\<close>

text \<open>
  What normalisation does, item by item: an orphan output goes, every other item stays in its
  place with its media replaced, and a call without an output is followed by a synthetic one. A
  debug build panics exactly when some output is an orphan or some custom or shell call is
  unanswered; a release build always returns.
\<close>

theorem normalize_items_spec:
  "normalize_items debug uuid_v5 modalities items =
     (if debug \<and> (\<exists>i\<in>set items. unanswered_local items i \<or> orphan items i) then None
      else Some (map (strip_media modalities)
             (concat (map (\<lambda>i. if orphan items i then [] else i # synthetic uuid_v5 items i) items))))"
  by (rule normalize_items_eq)

text \<open>
  C21 After normalisation every call has an output and every output a call, nothing the model cannot
  read is left, and normalising once more, in any build, changes nothing.
\<close>

theorem normalized_history:
  assumes "normalize_items debug uuid_v5 modalities items = Some result"
  shows "paired result \<and>
         (ModalityImage \<notin> set modalities \<longrightarrow> (\<forall>i\<in>set result. \<not> has_image i)) \<and>
         (ModalityAudio \<notin> set modalities \<longrightarrow> (\<forall>i\<in>set result. \<not> has_audio i)) \<and>
         normalize_items debug' uuid_v5' modalities result = Some result"
proof -
  have R: "result = map (strip_media modalities) (paired_items uuid_v5 items)"
    using assms by (simp add: normalize_items_eq split: if_splits)
  have P: "paired result" unfolding R paired_strip_media by (rule paired_normalized)
  then have ok: "\<not> (\<exists>i\<in>set result. unanswered_local result i \<or> orphan result i)"
    by (auto simp: paired_def unanswered_local_def)
  have "map (strip_media modalities) result = result" by (simp only: R map_map comp_def strip_media_idem)
  then have "normalize_items debug' uuid_v5' modalities result = Some result"
    unfolding normalize_items_eq paired_items_fixed [OF P] using ok by simp
  with P show ?thesis unfolding R using strip_media_clean by auto
qed

theorem normalized_history_witness:
  "let call = FunctionCall (Some (lit ''fc_1'')) (lit ''shell'') None (lit ''ls'') None (lit ''c1'') None;
       stray = FunctionCallOutput None (lit ''c2'') (payload_from_text (lit ''done'')) None;
       answer = FunctionCallOutput (Some (lit ''fco_u'')) (lit ''c1'') aborted_payload None;
       uuid_v5 = (\<lambda>_. lit ''u'')
   in normalize_items False uuid_v5 [ModalityText] [call, stray] = Some [call, answer :: nat response_item] \<and>
      paired [call, answer] \<and>
      (\<forall>debug uuid_v5. normalize_items debug uuid_v5 [ModalityText] [call, answer] = Some [call, answer])"
proof -
  let ?call = "FunctionCall (Some (lit ''fc_1'')) (lit ''shell'') None (lit ''ls'') None (lit ''c1'') None"
  let ?stray = "FunctionCallOutput None (lit ''c2'') (payload_from_text (lit ''done'')) None"
  let ?answer = "FunctionCallOutput (Some (lit ''fco_u'')) (lit ''c1'') aborted_payload None"
  have "normalize_items False (\<lambda>_. lit ''u'') [ModalityText] [?call, ?stray] = Some [?call, ?answer :: nat response_item]"
    by (simp add: normalize_items_def ensure_call_outputs_present_def Let_def vec_insert_def
        remove_orphan_outputs_def has_match_or_panic_def error_or_panic_def synthetic_output_id_def
        id_with_suffix_def lit_simps strip_audio_when_unsupported_def strip_images_when_unsupported_def
        aborted_payload_def payload_from_text_def map_payload_items_def)
  with normalized_history [OF this] show ?thesis by (auto simp: Let_def)
qed

end
