(* ===== verification/Truncation.thy ===== *)
theory Truncation
  imports ResponseItem
begin

text \<open>
  Truncation of tool output (\<open>utils/string/src/truncate.rs\<close>, \<open>utils/output-truncation/src/lib.rs\<close>
  and \<open>TruncationPolicy\<close> of \<open>protocol/src/protocol.rs\<close>). Lengths are UTF-8 bytes; string slices
  are taken at byte offsets and panic, value \<open>None\<close>, off a code point boundary. A text is cut to the longest prefix
  and suffix its budget allows; the items of an output are decided one by one by what is left of the budget.
\<close>

section \<open>Byte and token estimates\<close>

definition APPROX_BYTES_PER_TOKEN :: nat where "APPROX_BYTES_PER_TOKEN = 4"

definition approx_token_count :: "str \<Rightarrow> nat" where
  "approx_token_count text = sat_add (str_len text) (APPROX_BYTES_PER_TOKEN - 1) div APPROX_BYTES_PER_TOKEN"

definition approx_bytes_for_tokens :: "nat \<Rightarrow> nat" where
  "approx_bytes_for_tokens tokens = sat_mul tokens APPROX_BYTES_PER_TOKEN"

definition approx_tokens_from_byte_count :: "nat \<Rightarrow> nat" where
  "approx_tokens_from_byte_count bytes = sat_add bytes (APPROX_BYTES_PER_TOKEN - 1) div APPROX_BYTES_PER_TOKEN"

definition approx_tokens_from_byte_count_i64 :: "int \<Rightarrow> int" where
  "approx_tokens_from_byte_count_i64 bytes =
     (if bytes \<le> 0 then 0 else i64_of_usize (approx_tokens_from_byte_count (nat bytes)))"

section \<open>Cutting out the middle of a text\<close>

text \<open>A string slice at a byte offset; off a code point boundary Rust panics, which is \<open>None\<close>.\<close>

fun split_at_byte :: "nat \<Rightarrow> str \<Rightarrow> (str \<times> str) option" where
  "split_at_byte 0 s = Some ([], s)"
| "split_at_byte n [] = None"
| "split_at_byte n (c # s) =
     (if len_utf8 c \<le> n
      then map_option (\<lambda>(a, b). (c # a, b)) (split_at_byte (n - len_utf8 c) s)
      else None)"

record split_state =
  prefix_end :: nat
  suffix_start :: nat
  removed_chars :: nat
  suffix_started :: bool

text \<open>The loop over \<open>char_indices\<close>, from the byte offset \<open>idx\<close>.\<close>

fun split_loop :: "nat \<Rightarrow> nat \<Rightarrow> nat \<Rightarrow> str \<Rightarrow> split_state \<Rightarrow> split_state" where
  "split_loop beginning tail_start idx [] st = st"
| "split_loop beginning tail_start idx (ch # s) st =
     (let char_end = idx + len_utf8 ch
      in split_loop beginning tail_start char_end s
           (if char_end \<le> beginning then st\<lparr>prefix_end := char_end\<rparr>
            else if tail_start \<le> idx then
              (if suffix_started st then st else st\<lparr>suffix_start := idx, suffix_started := True\<rparr>)
            else st\<lparr>removed_chars := sat_add (removed_chars st) 1\<rparr>))"

definition split_string :: "str \<Rightarrow> nat \<Rightarrow> nat \<Rightarrow> (nat \<times> str \<times> str) option" where
  "split_string s beginning_bytes end_bytes =
     (if s = [] then Some (0, [], [])
      else
        (let len = str_len s;
             st = split_loop beginning_bytes (len - end_bytes) 0 s
                    \<lparr>prefix_end = 0, suffix_start = len, removed_chars = 0, suffix_started = False\<rparr>;
             suffix_start' = (if suffix_start st < prefix_end st then prefix_end st else suffix_start st)
         in case (split_at_byte (prefix_end st) s, split_at_byte suffix_start' s) of
              (Some (before, _), Some (_, after)) \<Rightarrow> Some (removed_chars st, before, after)
            | _ \<Rightarrow> None))"

definition split_budget :: "nat \<Rightarrow> nat \<times> nat" where
  "split_budget budget = (let left = budget div 2 in (left, budget - left))"

definition ELLIPSIS :: uchar where "ELLIPSIS = 8230"

definition format_truncation_marker :: "bool \<Rightarrow> nat \<Rightarrow> str" where
  "format_truncation_marker use_tokens removed_count =
     (if use_tokens then ELLIPSIS # show_nat removed_count @ lit '' tokens truncated'' @ [ELLIPSIS]
      else ELLIPSIS # show_nat removed_count @ lit '' chars truncated'' @ [ELLIPSIS])"

definition removed_units :: "bool \<Rightarrow> nat \<Rightarrow> nat \<Rightarrow> nat" where
  "removed_units use_tokens removed_bytes removed = (if use_tokens then approx_tokens_from_byte_count removed_bytes else removed)"

definition truncate_with_byte_estimate :: "str \<Rightarrow> nat \<Rightarrow> bool \<Rightarrow> str option" where
  "truncate_with_byte_estimate s max_bytes use_tokens =
     (if s = [] then Some []
      else if max_bytes = 0 then
        Some (format_truncation_marker use_tokens (removed_units use_tokens (str_len s) (length s)))
      else if str_len s \<le> max_bytes then Some s
      else
        (case split_budget max_bytes of
           (left_budget, right_budget) \<Rightarrow>
             (case split_string s left_budget right_budget of
                None \<Rightarrow> None
              | Some (removed, left, right) \<Rightarrow>
                  Some (left @ format_truncation_marker use_tokens
                          (removed_units use_tokens (str_len s - max_bytes) removed) @ right))))"

definition truncate_middle_chars :: "str \<Rightarrow> nat \<Rightarrow> str option" where
  "truncate_middle_chars s max_bytes = truncate_with_byte_estimate s max_bytes False"

definition truncate_middle_with_token_budget :: "str \<Rightarrow> nat \<Rightarrow> (str \<times> nat option) option" where
  "truncate_middle_with_token_budget s max_tokens =
     (if s = [] then Some ([], None)
      else if 0 < max_tokens \<and> str_len s \<le> approx_bytes_for_tokens max_tokens then Some (s, None)
      else map_option (\<lambda>truncated. if truncated = s then (truncated, None)
                                   else (truncated, Some (approx_token_count s)))
             (truncate_with_byte_estimate s (approx_bytes_for_tokens max_tokens) True))"

section \<open>Truncation policies\<close>

datatype truncation_policy = PolicyBytes nat | PolicyTokens nat

fun token_budget :: "truncation_policy \<Rightarrow> nat" where
  "token_budget (PolicyBytes bytes) = approx_tokens_from_byte_count bytes"
| "token_budget (PolicyTokens tokens) = tokens"

fun byte_budget :: "truncation_policy \<Rightarrow> nat" where
  "byte_budget (PolicyBytes bytes) = bytes"
| "byte_budget (PolicyTokens tokens) = approx_bytes_for_tokens tokens"

text \<open>Multiplying by the \<open>f64\<close> \<open>1.2\<close>, which is \<open>5404319552844595 / 2 ^ 52\<close>, and rounding up.
  \<open>round53\<close> rounds a natural number to a 53-bit significand, ties to even; scaling by a power of two
  commutes with it, and the cast back to \<open>usize\<close> saturates.\<close>

fun bit_length :: "nat \<Rightarrow> nat" where
  "bit_length n = (if n = 0 then 0 else Suc (bit_length (n div 2)))"

declare bit_length.simps [simp del]

definition round53 :: "nat \<Rightarrow> nat" where
  "round53 m =
     (let shift = bit_length m - 53;
          q = m div 2 ^ shift;
          r = m mod 2 ^ shift
      in (if 2 ^ shift < 2 * r \<or> 2 ^ shift = 2 * r \<and> odd q then Suc q else q) * 2 ^ shift)"

definition scale_by_1_2 :: "nat \<Rightarrow> nat" where
  "scale_by_1_2 n =
     (let product = round53 (round53 n * 5404319552844595)
      in min usize_max ((product + (2 ^ 52 - 1)) div 2 ^ 52))"

fun scaled_policy :: "truncation_policy \<Rightarrow> truncation_policy" where
  "scaled_policy (PolicyBytes bytes) = PolicyBytes (scale_by_1_2 bytes)"
| "scaled_policy (PolicyTokens tokens) = PolicyTokens (scale_by_1_2 tokens)"

section \<open>Tool output\<close>

definition truncate_text :: "str \<Rightarrow> truncation_policy \<Rightarrow> str option" where
  "truncate_text content policy =
     (case policy of
        PolicyBytes bytes \<Rightarrow> truncate_middle_chars content bytes
      | PolicyTokens tokens \<Rightarrow> map_option fst (truncate_middle_with_token_budget content tokens))"

definition formatted_truncate_text :: "str \<Rightarrow> truncation_policy \<Rightarrow> str option" where
  "formatted_truncate_text content policy =
     (if str_len content \<le> byte_budget policy then Some content
      else map_option (\<lambda>result.
             lit ''Warning: truncated output (original token count: '' @ show_nat (approx_token_count content) @
             lit '')'' @ [NL] @ lit ''Total output lines: '' @ show_nat (length (str_lines content)) @ [NL, NL] @ result)
           (truncate_text content policy))"

definition text_segments :: "output_content_item list \<Rightarrow> str list" where
  "text_segments items = List.map_filter (\<lambda>i. case i of OutInputText text \<Rightarrow> Some text | _ \<Rightarrow> None) items"

fun combine_texts :: "str \<Rightarrow> str list \<Rightarrow> str" where
  "combine_texts combined [] = combined"
| "combine_texts combined (text # texts) =
     combine_texts ((if combined \<noteq> [] then combined @ [NL] else combined) @ text) texts"

definition is_text_item :: "output_content_item \<Rightarrow> bool" where
  "is_text_item i = (case i of OutInputText _ \<Rightarrow> True | _ \<Rightarrow> False)"

definition formatted_truncate_items ::
    "output_content_item list \<Rightarrow> truncation_policy \<Rightarrow> (output_content_item list \<times> nat option) option" where
  "formatted_truncate_items items policy =
     (let segments = text_segments items
      in if segments = [] then Some (items, None)
         else
           (let combined = combine_texts [] segments
            in if str_len combined \<le> byte_budget policy then Some (items, None)
               else map_option (\<lambda>text.
                      (OutInputText text # filter (\<lambda>i. \<not> is_text_item i) items, Some (approx_token_count combined)))
                    (formatted_truncate_text combined policy)))"

record item_truncation =
  trunc_out :: "output_content_item list"
  remaining_budget :: nat
  omitted_text_items :: nat
  omitted_audio_items :: nat

text \<open>One round of the loop over the content items; \<open>estimate\<close> is the estimate of the tokens of an
  audio url.\<close>

fun truncate_item ::
    "truncation_policy \<Rightarrow> (str \<Rightarrow> nat) \<Rightarrow> output_content_item \<Rightarrow> item_truncation \<Rightarrow> item_truncation option" where
  "truncate_item policy estimate (OutInputText text) st =
     (if remaining_budget st = 0 then Some (st\<lparr>omitted_text_items := omitted_text_items st + 1\<rparr>)
      else
        (let cost = (case policy of PolicyBytes _ \<Rightarrow> str_len text | PolicyTokens _ \<Rightarrow> approx_token_count text)
         in if cost \<le> remaining_budget st then
              Some (st\<lparr>trunc_out := trunc_out st @ [OutInputText text],
                       remaining_budget := remaining_budget st - cost\<rparr>)
            else
              (let snippet_policy =
                     (case policy of
                        PolicyBytes _ \<Rightarrow> PolicyBytes (remaining_budget st)
                      | PolicyTokens _ \<Rightarrow> PolicyTokens (remaining_budget st))
               in case truncate_text text snippet_policy of
                    None \<Rightarrow> None
                  | Some snippet \<Rightarrow>
                      Some ((if snippet = [] then st\<lparr>omitted_text_items := omitted_text_items st + 1\<rparr>
                             else st\<lparr>trunc_out := trunc_out st @ [OutInputText snippet]\<rparr>)
                            \<lparr>remaining_budget := 0\<rparr>))))"
| "truncate_item policy estimate (OutInputImage url detail) st =
     Some (st\<lparr>trunc_out := trunc_out st @ [OutInputImage url detail]\<rparr>)"
| "truncate_item policy estimate (OutInputAudio url) st =
     (let token_cost = estimate url;
          cost = (case policy of PolicyBytes _ \<Rightarrow> approx_bytes_for_tokens token_cost | PolicyTokens _ \<Rightarrow> token_cost)
      in if cost \<le> remaining_budget st then
           Some (st\<lparr>trunc_out := trunc_out st @ [OutInputAudio url],
                    remaining_budget := remaining_budget st - cost\<rparr>)
         else Some (st\<lparr>omitted_audio_items := omitted_audio_items st + 1\<rparr>))"
| "truncate_item policy estimate (OutEncryptedContent content) st =
     Some (st\<lparr>trunc_out := trunc_out st @ [OutEncryptedContent content]\<rparr>)"

fun truncate_item_loop ::
    "truncation_policy \<Rightarrow> (str \<Rightarrow> nat) \<Rightarrow> output_content_item list \<Rightarrow> item_truncation \<Rightarrow> item_truncation option" where
  "truncate_item_loop policy estimate [] st = Some st"
| "truncate_item_loop policy estimate (item # items) st =
     (case truncate_item policy estimate item st of
        None \<Rightarrow> None
      | Some st' \<Rightarrow> truncate_item_loop policy estimate items st')"

definition omitted_note :: "nat \<Rightarrow> string \<Rightarrow> output_content_item list" where
  "omitted_note n kind =
     (if 0 < n then [OutInputText (lit ''[omitted '' @ show_nat n @ lit kind @ lit '' items ...]'')] else [])"

definition truncate_function_output_items ::
    "output_content_item list \<Rightarrow> truncation_policy \<Rightarrow> (str \<Rightarrow> nat) \<Rightarrow> output_content_item list option" where
  "truncate_function_output_items items policy estimate =
     (let budget = (case policy of PolicyBytes _ \<Rightarrow> byte_budget policy | PolicyTokens _ \<Rightarrow> token_budget policy)
      in map_option (\<lambda>st. trunc_out st @ omitted_note (omitted_text_items st) '' text'' @
                            omitted_note (omitted_audio_items st) '' audio'')
           (truncate_item_loop policy estimate items
              \<lparr>trunc_out = [], remaining_budget = budget, omitted_text_items = 0, omitted_audio_items = 0\<rparr>))"

section \<open>Lemmas\<close>

lemma split_at_byte_append [simp]: "split_at_byte (str_len p) (p @ r) = Some (p, r)"
proof (induction p)
  case (Cons c p)
  obtain k where k: "len_utf8 c + str_len p = Suc k" by (metis add_gr_0 gr0_implies_Suc len_utf8_pos)
  have "split_at_byte (Suc k) (c # (p @ r)) =
      (if len_utf8 c \<le> Suc k then map_option (\<lambda>(a, b). (c # a, b)) (split_at_byte (Suc k - len_utf8 c) (p @ r)) else None)"
    by simp
  moreover have "len_utf8 c \<le> Suc k" "Suc k - len_utf8 c = str_len p" using k by simp_all
  ultimately have "split_at_byte (Suc k) (c # (p @ r)) = Some (c # p, r)" by (simp only: Cons) simp
  then show ?case by (simp add: k)
qed simp

lemma longest_prefix:
  assumes "b < str_len s"
  obtains p c r where "s = p @ c # r" "str_len p \<le> b" "b < str_len p + len_utf8 c"
  using assms
proof (induction s arbitrary: b thesis)
  case (Cons c s)
  show ?case
  proof (cases "len_utf8 c \<le> b")
    case False
    then show ?thesis using Cons.prems(1) [of "[]" c s] by simp
  next
    case True
    then have "b - len_utf8 c < str_len s" using Cons.prems(2) by simp
    then obtain p d r where "s = p @ d # r" "str_len p \<le> b - len_utf8 c" "b - len_utf8 c < str_len p + len_utf8 d"
      using Cons.IH by blast
    then show ?thesis using Cons.prems(1) [of "c # p" d r] True by simp
  qed
qed simp

lemma str_len_rev [simp]: "str_len (rev s) = str_len s"
  by (induction s) auto

lemma longest_suffix:
  assumes "e < str_len s"
  obtains p c r where "s = p @ c # r" "str_len r \<le> e" "e < len_utf8 c + str_len r"
proof -
  from assms obtain p c r where "rev s = p @ c # r" "str_len p \<le> e" "e < str_len p + len_utf8 c"
    using longest_prefix [of e "rev s"] by auto
  moreover from this(1) have "s = rev r @ c # rev p"
    by (metis append.assoc append_Cons append_Nil rev.simps(2) rev_append rev_rev_ident)
  ultimately show ?thesis using that by (metis add.commute str_len_rev)
qed

text \<open>The longest prefix and the longest suffix within two budgets that the text exceeds.\<close>

definition cut_middle :: "nat \<Rightarrow> nat \<Rightarrow> str \<Rightarrow> str \<Rightarrow> str \<Rightarrow> str \<Rightarrow> bool" where
  "cut_middle b e s left mid right \<longleftrightarrow>
     s = left @ mid @ right \<and> mid \<noteq> [] \<and>
     str_len left \<le> b \<and> b < str_len left + len_utf8 (hd mid) \<and>
     str_len right \<le> e \<and> e < len_utf8 (last mid) + str_len right"

lemma cut_middle_exists:
  assumes "b + e < str_len s"
  obtains left mid right where "cut_middle b e s left mid right"
proof -
  from assms obtain p c r where p: "s = p @ c # r" "str_len p \<le> b" "b < str_len p + len_utf8 c"
    using longest_prefix [of b s] by auto
  from assms obtain u d q where q: "s = u @ d # q" "str_len q \<le> e" "e < len_utf8 d + str_len q"
    using longest_suffix [of e s] by auto
  have "length p \<le> length u"
  proof (rule ccontr)
    assume "\<not> length p \<le> length u"
    then have "length (u @ [d]) \<le> length p" by simp
    moreover have "p @ c # r = (u @ [d]) @ q" using p(1) q(1) by simp
    ultimately obtain w where w: "p = (u @ [d]) @ w"
      by (metis prefixE prefixI prefix_length_prefix)
    then have "q = w @ c # r" using p(1) q(1) by simp
    then have "str_len s \<le> str_len p + str_len q" using p(1) by simp
    with p(2) q(2) assms show False by simp
  qed
  then obtain w where w: "u = p @ w" "c # r = w @ d # q"
    using p(1) q(1) by (auto simp: append_eq_append_conv2)
  have "cut_middle b e s p (w @ [d]) q"
    using p q w by (cases w) (auto simp: cut_middle_def)
  then show ?thesis by (rule that)
qed

lemma split_loop_prefix:
  "idx + str_len p \<le> b \<Longrightarrow>
   split_loop b ts idx (p @ s) st =
     split_loop b ts (idx + str_len p) s (st\<lparr>prefix_end := if p = [] then prefix_end st else idx + str_len p\<rparr>)"
proof (induction p arbitrary: idx st)
  case (Cons c p)
  have "split_loop b ts idx ((c # p) @ s) st =
      split_loop b ts (idx + len_utf8 c) (p @ s) (st\<lparr>prefix_end := idx + len_utf8 c\<rparr>)"
    using Cons.prems by (simp add: Let_def)
  also have "\<dots> = split_loop b ts (idx + str_len (c # p)) s
      (st\<lparr>prefix_end := idx + len_utf8 c, prefix_end := if p = [] then idx + len_utf8 c else idx + len_utf8 c + str_len p\<rparr>)"
    using Cons.IH [of "idx + len_utf8 c" "st\<lparr>prefix_end := idx + len_utf8 c\<rparr>"] Cons.prems by (simp add: add.assoc)
  finally show ?case by (cases p) (simp_all add: add.assoc)
qed simp

lemma split_loop_middle:
  assumes "m \<noteq> []" "b < idx + len_utf8 (hd m)" "idx + str_len (butlast m) < ts"
    "removed_chars st + length m \<le> usize_max"
  shows "split_loop b ts idx (m @ s) st =
     split_loop b ts (idx + str_len m) s (st\<lparr>removed_chars := removed_chars st + length m\<rparr>)"
  using assms
proof (induction m arbitrary: idx st)
  case (Cons c m)
  have step: "split_loop b ts idx ((c # m) @ s) st =
      split_loop b ts (idx + len_utf8 c) (m @ s) (st\<lparr>removed_chars := removed_chars st + 1\<rparr>)"
    using Cons.prems by (auto simp: Let_def split: if_splits)
  show ?case
  proof (cases m)
    case Nil
    then show ?thesis using step by simp
  next
    case (Cons d ds)
    then show ?thesis
      using step Cons.IH [of "idx + len_utf8 c" "st\<lparr>removed_chars := removed_chars st + 1\<rparr>"] Cons.prems
        len_utf8_pos [of d]
      by (simp add: add.assoc)
  qed
qed simp

lemma split_loop_suffix:
  "ts \<le> idx \<Longrightarrow> (q \<noteq> [] \<longrightarrow> b < idx + len_utf8 (hd q)) \<Longrightarrow>
   split_loop b ts idx q st =
     (if q = [] \<or> suffix_started st then st else st\<lparr>suffix_start := idx, suffix_started := True\<rparr>)"
proof (induction q arbitrary: idx st)
  case (Cons c q)
  have "q \<noteq> [] \<Longrightarrow> b < idx + len_utf8 c + len_utf8 (hd q)" using Cons.prems by simp
  then show ?case
    using Cons.prems Cons.IH [of "idx + len_utf8 c"] by simp
qed simp

lemma split_string_cut:
  assumes "cut_middle b e s left mid right" "str_len s \<le> usize_max"
  shows "split_string s b e = Some (length mid, left, right)"
proof -
  define st where "st = \<lparr>prefix_end = 0, suffix_start = str_len s, removed_chars = 0, suffix_started = False\<rparr>"
  have s: "s = left @ mid @ right" "mid \<noteq> []" and len: "str_len s = str_len left + str_len mid + str_len right"
    using assms(1) by (auto simp: cut_middle_def)
  have mid: "str_len mid = str_len (butlast mid) + len_utf8 (last mid)"
    using s(2) str_len_simps by (metis add.right_neutral append_butlast_last_id str_len_simps(1,2) str_len_simps(3))
  define ts where "ts = str_len s - e"
  have ts: "str_len left + str_len (butlast mid) < ts" "ts \<le> str_len left + str_len mid"
    using assms(1) mid len by (auto simp: cut_middle_def ts_def)
  have "length mid \<le> usize_max" using length_le_str_len [of mid] len assms(2) by simp
  then have count: "removed_chars st + length mid \<le> usize_max" by (simp add: st_def)
  have after: "b < str_len left + str_len mid + n" for n
    using assms(1) s(2) by (cases mid) (auto simp: cut_middle_def)
  have "split_loop b ts 0 s st = split_loop b ts (str_len left) (mid @ right) (st\<lparr>prefix_end := str_len left\<rparr>)"
    using split_loop_prefix [of 0 left b ts "mid @ right" st] assms(1)
    by (cases left) (simp_all add: cut_middle_def st_def)
  also have "\<dots> = split_loop b ts (str_len left + str_len mid) right
      (st\<lparr>prefix_end := str_len left, removed_chars := length mid\<rparr>)"
    using split_loop_middle [of mid b "str_len left" ts "st\<lparr>prefix_end := str_len left\<rparr>" right] assms(1) ts count
    by (simp add: cut_middle_def st_def)
  also have "\<dots> = st\<lparr>prefix_end := str_len left, removed_chars := length mid,
         suffix_start := str_len left + str_len mid, suffix_started := right \<noteq> []\<rparr>"
    using split_loop_suffix [of ts "str_len left + str_len mid" right b] ts after len by (simp add: st_def)
  finally have loop: "split_loop b (str_len s - e) 0 s st = \<dots>" by (simp only: ts_def)
  have "split_at_byte (str_len left) s = Some (left, mid @ right)" by (simp add: s(1))
  moreover have "split_at_byte (str_len left + str_len mid) s = Some (left @ mid, right)"
    using split_at_byte_append [of "left @ mid" right] by (simp add: s(1))
  ultimately show ?thesis
    using s unfolding split_string_def st_def [symmetric] Let_def loop by simp
qed

lemma cut_middle_zero: "cut_middle 0 0 s left mid right \<Longrightarrow> left = [] \<and> mid = s \<and> right = []"
  by (auto simp: cut_middle_def)

lemma truncate_with_byte_estimate_cut:
  assumes "cut_middle (n div 2) (n - n div 2) s left mid right" "n < str_len s" "str_len s \<le> usize_max"
  shows "truncate_with_byte_estimate s n use_tokens =
     Some (left @ format_truncation_marker use_tokens (removed_units use_tokens (str_len s - n) (length mid)) @ right)"
proof (cases "n = 0")
  case True
  then show ?thesis
    using assms cut_middle_zero [of s left mid right] by (auto simp: truncate_with_byte_estimate_def)
next
  case False
  then show ?thesis
    using assms split_string_cut [OF assms(1,3)]
    by (auto simp: truncate_with_byte_estimate_def split_budget_def Let_def)
qed

lemma truncate_with_byte_estimate_short:
  "str_len s \<le> n \<Longrightarrow> truncate_with_byte_estimate s n use_tokens = Some s"
  by (auto simp: truncate_with_byte_estimate_def)

lemma truncate_with_byte_estimate_iff:
  assumes "str_len s \<le> usize_max"
  shows "truncate_with_byte_estimate s n use_tokens = Some t \<longleftrightarrow>
     (if str_len s \<le> n then t = s
      else \<exists>left mid right. cut_middle (n div 2) (n - n div 2) s left mid right \<and>
             t = left @ format_truncation_marker use_tokens
                   (removed_units use_tokens (str_len s - n) (length mid)) @ right)"
proof (cases "str_len s \<le> n")
  case True
  then show ?thesis by (auto simp: truncate_with_byte_estimate_short)
next
  case False
  then obtain l m r where C: "cut_middle (n div 2) (n - n div 2) s l m r"
    using cut_middle_exists [of "n div 2" "n - n div 2" s] by auto
  show ?thesis
    using False C truncate_with_byte_estimate_cut [OF C _ assms, of use_tokens]
      truncate_with_byte_estimate_cut [OF _ _ assms, of n _ _ _ use_tokens]
    by (metis not_le option.inject)
qed

lemma truncate_with_byte_estimate_total:
  assumes "str_len s \<le> usize_max"
  obtains t where "truncate_with_byte_estimate s n use_tokens = Some t"
proof (cases "str_len s \<le> n")
  case True
  then show ?thesis using that truncate_with_byte_estimate_short by blast
next
  case False
  then obtain l m r where C: "cut_middle (n div 2) (n - n div 2) s l m r"
    using cut_middle_exists [of "n div 2" "n - n div 2" s] by auto
  with False that truncate_with_byte_estimate_cut [OF C _ assms] show ?thesis by auto
qed

text \<open>The marker has at most 43 bytes.\<close>

lemma length_show_nat: "0 < k \<Longrightarrow> n < 10 ^ k \<Longrightarrow> length (show_nat n) \<le> k"
proof (induction k arbitrary: n)
  case (Suc k)
  show ?case
  proof (cases "n < 10")
    case True
    then show ?thesis by (subst show_nat.simps) simp
  next
    case False
    then have k: "0 < k" using Suc.prems(2) by (cases k) auto
    have "n div 10 < 10 ^ k" using Suc.prems(2) by (simp add: less_mult_imp_div_less)
    from Suc.IH [OF k this] False show ?thesis by (subst show_nat.simps) simp
  qed
qed simp

lemma str_len_ascii: "(\<And>c. c \<in> set s \<Longrightarrow> c < 128) \<Longrightarrow> str_len s = length s"
  by (induction s) (auto simp: len_utf8_def)

lemma str_len_show_nat: "n \<le> usize_max \<Longrightarrow> str_len (show_nat n) \<le> 20"
  using length_show_nat [of 20 n] str_len_ascii [of "show_nat n"] show_nat_digits [of _ n]
  by (fastforce simp: usize_max_def is_ascii_digit_def)

lemma str_len_marker: "n \<le> usize_max \<Longrightarrow> str_len (format_truncation_marker use_tokens n) \<le> 43"
  using str_len_show_nat [of n]
  by (auto simp: format_truncation_marker_def ELLIPSIS_def lit_simps len_utf8_def)

lemma approx_tokens_le: "approx_tokens_from_byte_count n \<le> usize_max"
proof -
  have "sat_add n (APPROX_BYTES_PER_TOKEN - 1) \<le> usize_max" by (simp add: sat_add_def)
  then show ?thesis unfolding approx_tokens_from_byte_count_def by (rule order_trans [OF div_le_dividend])
qed

lemma truncate_with_byte_estimate_bound:
  assumes "str_len s \<le> usize_max" "truncate_with_byte_estimate s n use_tokens = Some t"
  shows "str_len t \<le> n + 43"
proof (cases "str_len s \<le> n")
  case True
  then show ?thesis using assms(2) by (simp add: truncate_with_byte_estimate_short)
next
  case False
  then obtain l m r where C: "cut_middle (n div 2) (n - n div 2) s l m r"
    and t: "t = l @ format_truncation_marker use_tokens (removed_units use_tokens (str_len s - n) (length m)) @ r"
    using truncate_with_byte_estimate_iff [OF assms(1)] assms(2) by auto
  have "length m \<le> usize_max"
    using C assms(1) length_le_str_len [of m] by (auto simp: cut_middle_def)
  then have "removed_units use_tokens (str_len s - n) (length m) \<le> usize_max"
    by (simp add: removed_units_def approx_tokens_le)
  from str_len_marker [OF this, of use_tokens] have "str_len t \<le> str_len l + 43 + str_len r" by (simp add: t)
  moreover have "str_len l \<le> n div 2" "str_len r \<le> n - n div 2" using C by (simp_all add: cut_middle_def)
  ultimately show ?thesis by linarith
qed

section \<open>Properties\<close>

text \<open>
  C29 A text within the budget is kept as it is; otherwise the longest prefix within one half of
  the budget and the longest suffix within the other are kept, at code point boundaries, around
  a marker that counts exactly the code points between them. No slice panics.
\<close>

theorem truncate_middle_chars_spec:
  assumes "str_len s \<le> usize_max"
  shows "(\<exists>t. truncate_middle_chars s max_bytes = Some t \<and> str_len t \<le> max_bytes + 43) \<and>
     (truncate_middle_chars s max_bytes = Some t \<longleftrightarrow>
        (if str_len s \<le> max_bytes then t = s
         else \<exists>left mid right. cut_middle (max_bytes div 2) (max_bytes - max_bytes div 2) s left mid right \<and>
                t = left @ format_truncation_marker False (length mid) @ right))"
proof -
  obtain u where u: "truncate_with_byte_estimate s max_bytes False = Some u"
    using truncate_with_byte_estimate_total [OF assms] .
  have "\<exists>t. truncate_middle_chars s max_bytes = Some t \<and> str_len t \<le> max_bytes + 43"
    using u truncate_with_byte_estimate_bound [OF assms u] by (simp add: truncate_middle_chars_def)
  then show ?thesis
    using truncate_with_byte_estimate_iff [OF assms, of max_bytes False t]
    by (simp add: truncate_middle_chars_def removed_units_def)
qed

theorem truncate_middle_chars_spec_witness:
  "truncate_middle_chars (lit ''abcdefgh'') 5 = Some (lit ''ab'' @ format_truncation_marker False 3 @ lit ''fgh'')"
proof -
  have len: "str_len (lit ''abcdefgh'') \<le> usize_max" "\<not> str_len (lit ''abcdefgh'') \<le> 5"
    and cut: "cut_middle (5 div 2) (5 - 5 div 2) (lit ''abcdefgh'') (lit ''ab'') (lit ''cde'') (lit ''fgh'')"
    by (simp_all add: usize_max_def lit_simps len_utf8_def cut_middle_def)
  have "format_truncation_marker False 3 = format_truncation_marker False (length (lit ''cde''))" by (simp add: numeral_3_eq_3)
  with len cut show ?thesis
    using truncate_middle_chars_spec [OF len(1), THEN conjunct2, THEN iffD2, of 5] by metis
qed

section \<open>Truncating the content items of a tool output\<close>

lemma approx_token_count_le:
  assumes "str_len t \<le> 4 * n + 43"
  shows "approx_token_count t \<le> n + 11"
proof -
  have "sat_add (str_len t) 3 \<le> 4 * n + 46" using assms by (simp add: sat_add_def)
  then have "sat_add (str_len t) 3 div 4 \<le> (4 * n + 46) div 4" by (rule div_le_mono)
  also have "(4 * n + 46) div 4 = n + 11" by presburger
  finally show ?thesis by (simp add: approx_token_count_def APPROX_BYTES_PER_TOKEN_def)
qed

lemma truncate_text_total:
  assumes "str_len content \<le> usize_max"
  obtains t where "truncate_text content policy = Some t"
    and "\<And>n. policy = PolicyBytes n \<Longrightarrow> str_len t \<le> n + 43"
    and "\<And>n. policy = PolicyTokens n \<Longrightarrow> approx_token_count t \<le> n + 11"
proof (cases policy)
  case (PolicyBytes n)
  obtain t where "truncate_with_byte_estimate content n False = Some t"
    using truncate_with_byte_estimate_total [OF assms] .
  with that PolicyBytes truncate_with_byte_estimate_bound [OF assms this] show ?thesis
    by (simp add: truncate_text_def truncate_middle_chars_def)
next
  case (PolicyTokens n)
  have b: "approx_bytes_for_tokens n \<le> 4 * n"
    by (simp add: approx_bytes_for_tokens_def sat_mul_def APPROX_BYTES_PER_TOKEN_def)
  obtain u where u: "truncate_with_byte_estimate content (approx_bytes_for_tokens n) True = Some u"
    using truncate_with_byte_estimate_total [OF assms] .
  have "truncate_text content policy = Some (if content = [] \<or> 0 < n \<and> str_len content \<le> approx_bytes_for_tokens n then content else u)"
    using u by (simp add: PolicyTokens truncate_text_def truncate_middle_with_token_budget_def)
  then obtain t where t: "truncate_text content policy = Some t" "t = u \<or> str_len t \<le> approx_bytes_for_tokens n"
    by (metis str_len_simps(1) zero_le)
  have "str_len t \<le> 4 * n + 43"
    using t(2) b truncate_with_byte_estimate_bound [OF assms u] by auto
  with that [OF t(1)] PolicyTokens show ?thesis using approx_token_count_le by auto
qed

definition opaque_items :: "output_content_item list \<Rightarrow> output_content_item list" where
  "opaque_items items =
     filter (\<lambda>i. case i of OutInputImage _ _ \<Rightarrow> True | OutEncryptedContent _ \<Rightarrow> True | _ \<Rightarrow> False) items"

lemma segment_simps [simp]:
  "text_segments [] = []" "opaque_items [] = []"
  "text_segments (xs @ ys) = text_segments xs @ text_segments ys"
  "opaque_items (xs @ ys) = opaque_items xs @ opaque_items ys"
  "text_segments (OutInputText t # xs) = t # text_segments xs"
  "opaque_items (OutInputText t # xs) = opaque_items xs"
  "text_segments (OutInputImage u d # xs) = text_segments xs"
  "opaque_items (OutInputImage u d # xs) = OutInputImage u d # opaque_items xs"
  "text_segments (OutInputAudio u # xs) = text_segments xs"
  "opaque_items (OutInputAudio u # xs) = opaque_items xs"
  "text_segments (OutEncryptedContent e # xs) = text_segments xs"
  "opaque_items (OutEncryptedContent e # xs) = OutEncryptedContent e # opaque_items xs"
  by (simp_all add: text_segments_def opaque_items_def List.map_filter_def)

text \<open>
  The reference: an item is charged what it costs in the unit of the policy, an audio item only when it
  is kept; what is left before an item is the budget less the charges of the items before it.
\<close>

definition policy_budget :: "truncation_policy \<Rightarrow> nat" where
  "policy_budget policy = (case policy of PolicyBytes n \<Rightarrow> n | PolicyTokens n \<Rightarrow> n)"

definition text_cost :: "truncation_policy \<Rightarrow> str \<Rightarrow> nat" where
  "text_cost policy t = (case policy of PolicyBytes _ \<Rightarrow> str_len t | PolicyTokens _ \<Rightarrow> approx_token_count t)"

definition audio_cost :: "truncation_policy \<Rightarrow> (str \<Rightarrow> nat) \<Rightarrow> str \<Rightarrow> nat" where
  "audio_cost policy estimate url =
     (case policy of PolicyBytes _ \<Rightarrow> approx_bytes_for_tokens (estimate url) | PolicyTokens _ \<Rightarrow> estimate url)"

fun charge :: "truncation_policy \<Rightarrow> (str \<Rightarrow> nat) \<Rightarrow> output_content_item \<times> output_content_item list \<Rightarrow> nat" where
  "charge policy estimate (OutInputText t, out) = text_cost policy t"
| "charge policy estimate (OutInputAudio url, out) = (if out = [] then 0 else audio_cost policy estimate url)"
| "charge policy estimate _ = 0"

definition left_before ::
    "truncation_policy \<Rightarrow> (str \<Rightarrow> nat) \<Rightarrow> output_content_item list \<Rightarrow> output_content_item list list \<Rightarrow> nat \<Rightarrow> nat" where
  "left_before policy estimate items outs i =
     policy_budget policy - sum_list (map (charge policy estimate) (take i (zip items outs)))"

text \<open>What becomes of an item with so much left: a text is kept, cut to what is left, or omitted.\<close>

fun expected_items :: "truncation_policy \<Rightarrow> (str \<Rightarrow> nat) \<Rightarrow> nat \<Rightarrow> output_content_item \<Rightarrow> output_content_item list" where
  "expected_items policy estimate left (OutInputText t) =
     (if left = 0 then []
      else if text_cost policy t \<le> left then [OutInputText t]
      else (case truncate_text t (case policy of PolicyBytes _ \<Rightarrow> PolicyBytes left | PolicyTokens _ \<Rightarrow> PolicyTokens left) of
              Some (c # snippet) \<Rightarrow> [OutInputText (c # snippet)]
            | _ \<Rightarrow> []))"
| "expected_items policy estimate left (OutInputAudio url) =
     (if audio_cost policy estimate url \<le> left then [OutInputAudio url] else [])"
| "expected_items policy estimate left item = [item]"

definition is_audio_item :: "output_content_item \<Rightarrow> bool" where
  "is_audio_item i = (case i of OutInputAudio _ \<Rightarrow> True | _ \<Rightarrow> False)"

definition omitted_items :: "(output_content_item \<Rightarrow> bool) \<Rightarrow> output_content_item list \<Rightarrow> output_content_item list list \<Rightarrow> nat" where
  "omitted_items kind items outs = length (filter (\<lambda>(item, out). kind item \<and> out = []) (zip items outs))"

text \<open>The bytes or tokens of one marker.\<close>

definition marker_cost :: "truncation_policy \<Rightarrow> nat" where
  "marker_cost policy = (case policy of PolicyBytes _ \<Rightarrow> 43 | PolicyTokens _ \<Rightarrow> 11)"

definition accounted ::
    "truncation_policy \<Rightarrow> (str \<Rightarrow> nat) \<Rightarrow> output_content_item list \<Rightarrow> output_content_item list list \<Rightarrow> bool" where
  "accounted policy estimate items outs \<longleftrightarrow>
     length outs = length items \<and>
     (\<forall>i<length items. outs ! i = expected_items policy estimate (left_before policy estimate items outs i) (items ! i))"

definition truncation_inv ::
    "truncation_policy \<Rightarrow> (str \<Rightarrow> nat) \<Rightarrow> output_content_item list \<Rightarrow> output_content_item list list \<Rightarrow> item_truncation \<Rightarrow> bool" where
  "truncation_inv policy estimate prior outs st \<longleftrightarrow>
     accounted policy estimate prior outs \<and>
     trunc_out st = concat outs \<and>
     remaining_budget st = left_before policy estimate prior outs (length prior) \<and>
     omitted_text_items st = omitted_items is_text_item prior outs \<and>
     omitted_audio_items st = omitted_items is_audio_item prior outs \<and>
     opaque_items (concat outs) = opaque_items prior \<and>
     sum_list (map (text_cost policy) (text_segments (concat outs))) + remaining_budget st
       \<le> policy_budget policy + (if remaining_budget st = 0 then marker_cost policy else 0)"

lemma left_before_snoc:
  "length outs = length items \<Longrightarrow> i \<le> length items \<Longrightarrow>
   left_before policy estimate (items @ [item]) (outs @ [out]) i = left_before policy estimate items outs i"
  by (simp add: left_before_def)

lemma left_before_all:
  "length outs = length items \<Longrightarrow>
   left_before policy estimate (items @ [item]) (outs @ [out]) (Suc (length items)) =
     left_before policy estimate items outs (length items) - charge policy estimate (item, out)"
  by (simp add: left_before_def)

lemma accounted_snoc:
  assumes "accounted policy estimate items outs"
    and "out = expected_items policy estimate (left_before policy estimate items outs (length items)) item"
  shows "accounted policy estimate (items @ [item]) (outs @ [out])"
  using assms by (auto simp: accounted_def nth_append left_before_snoc less_Suc_eq)

lemma omitted_items_snoc:
  "length outs = length items \<Longrightarrow>
   omitted_items kind (items @ [item]) (outs @ [out]) = omitted_items kind items outs + (if kind item \<and> out = [] then 1 else 0)"
  by (simp add: omitted_items_def)

lemma truncation_inv_snoc:
  assumes "truncation_inv policy estimate prior outs st"
    and "out = expected_items policy estimate (remaining_budget st) item"
    and "trunc_out st' = trunc_out st @ out"
    and "remaining_budget st' = remaining_budget st - charge policy estimate (item, out)"
    and "omitted_text_items st' = omitted_text_items st + (if is_text_item item \<and> out = [] then 1 else 0)"
    and "omitted_audio_items st' = omitted_audio_items st + (if is_audio_item item \<and> out = [] then 1 else 0)"
    and "opaque_items out = opaque_items [item]"
    and "sum_list (map (text_cost policy) (text_segments (concat outs @ out))) + remaining_budget st'
       \<le> policy_budget policy + (if remaining_budget st' = 0 then marker_cost policy else 0)"
  shows "truncation_inv policy estimate (prior @ [item]) (outs @ [out]) st'"
proof -
  have len: "length outs = length prior" using assms(1) by (simp add: truncation_inv_def accounted_def)
  have left: "remaining_budget st = left_before policy estimate prior outs (length prior)" using assms(1) by (simp add: truncation_inv_def)
  show ?thesis
    using assms(1) accounted_snoc [of policy estimate prior outs out item] assms(2) left_before_all [OF len] assms(3-8)
    unfolding truncation_inv_def left omitted_items_snoc [OF len]
    by simp
qed

lemma truncate_item_inv:
  assumes "truncation_inv policy estimate prior outs st" "\<And>t. item = OutInputText t \<Longrightarrow> str_len t \<le> usize_max"
  shows "\<exists>st' out. truncate_item policy estimate item st = Some st' \<and> truncation_inv policy estimate (prior @ [item]) (outs @ [out]) st'"
proof -
  have b: "sum_list (map (text_cost policy) (text_segments (concat outs))) + remaining_budget st
       \<le> policy_budget policy + (if remaining_budget st = 0 then marker_cost policy else 0)"
    using assms(1) unfolding truncation_inv_def by blast
  note snoc = truncation_inv_snoc [OF assms(1) refl, of _ item]
  note kinds = is_text_item_def is_audio_item_def
  have finish: ?thesis if "truncate_item policy estimate item st = Some st'"
    "truncation_inv policy estimate (prior @ [item]) (outs @ [expected_items policy estimate (remaining_budget st) item]) st'" for st'
    using that by blast
  show ?thesis
  proof (cases item)
    case (OutInputText s)
    define snippet_policy where "snippet_policy =
      (case policy of PolicyBytes _ \<Rightarrow> PolicyBytes (remaining_budget st) | PolicyTokens _ \<Rightarrow> PolicyTokens (remaining_budget st))"
    have cost: "(case policy of PolicyBytes _ \<Rightarrow> str_len s | PolicyTokens _ \<Rightarrow> approx_token_count s) = text_cost policy s"
      by (simp add: text_cost_def)
    consider (spent) "remaining_budget st = 0" | (fits) "remaining_budget st \<noteq> 0" "text_cost policy s \<le> remaining_budget st"
      | (long) "remaining_budget st \<noteq> 0" "\<not> text_cost policy s \<le> remaining_budget st" by blast
    then show ?thesis
    proof cases
      case spent
      show ?thesis
        by (rule finish [of "st\<lparr>omitted_text_items := omitted_text_items st + 1\<rparr>"], simp add: OutInputText spent, rule snoc)
          (use spent b in \<open>simp_all add: OutInputText kinds\<close>)
    next
      case fits
      show ?thesis
        by (rule finish [of "st\<lparr>trunc_out := trunc_out st @ [OutInputText s], remaining_budget := remaining_budget st - text_cost policy s\<rparr>"],
            use fits cost in \<open>simp add: OutInputText Let_def\<close>, rule snoc)
          (use fits b in \<open>auto simp: OutInputText kinds\<close>)
    next
      case long
      obtain snippet where S: "truncate_text s snippet_policy = Some snippet"
        "\<And>n. snippet_policy = PolicyBytes n \<Longrightarrow> str_len snippet \<le> n + 43"
        "\<And>n. snippet_policy = PolicyTokens n \<Longrightarrow> approx_token_count snippet \<le> n + 11"
        using truncate_text_total [OF assms(2) [OF OutInputText]] by metis
      have small: "text_cost policy snippet \<le> remaining_budget st + marker_cost policy"
        using S(2,3) by (cases policy) (auto simp: text_cost_def marker_cost_def snippet_policy_def)
      let ?st' = "(if snippet = [] then st\<lparr>omitted_text_items := omitted_text_items st + 1\<rparr>
               else st\<lparr>trunc_out := trunc_out st @ [OutInputText snippet]\<rparr>)\<lparr>remaining_budget := 0\<rparr>"
      have step: "truncate_item policy estimate item st = Some ?st'"
        using long S(1) cost by (simp add: OutInputText Let_def snippet_policy_def)
      have out: "expected_items policy estimate (remaining_budget st) item = (if snippet = [] then [] else [OutInputText snippet])"
        using long S(1) by (cases snippet) (simp_all add: OutInputText snippet_policy_def)
      have "truncation_inv policy estimate (prior @ [item]) (outs @ [if snippet = [] then [] else [OutInputText snippet]]) ?st'"
        by (rule truncation_inv_snoc [OF assms(1) out [symmetric]]) (use long b small in \<open>auto simp: OutInputText kinds\<close>)
      with step show ?thesis by blast
    qed
  next
    case (OutInputAudio url)
    have cost: "(case policy of PolicyBytes _ \<Rightarrow> approx_bytes_for_tokens (estimate url) | PolicyTokens _ \<Rightarrow> estimate url) =
        audio_cost policy estimate url" by (simp add: audio_cost_def)
    show ?thesis
    proof (cases "audio_cost policy estimate url \<le> remaining_budget st")
      case True
      show ?thesis
        by (rule finish [of "st\<lparr>trunc_out := trunc_out st @ [OutInputAudio url],
              remaining_budget := remaining_budget st - audio_cost policy estimate url\<rparr>"],
            use True cost in \<open>simp add: OutInputAudio Let_def\<close>, rule snoc)
          (use True b in \<open>auto simp: OutInputAudio kinds split: if_splits\<close>)
    next
      case False
      show ?thesis
        by (rule finish [of "st\<lparr>omitted_audio_items := omitted_audio_items st + 1\<rparr>"],
            use False cost in \<open>simp add: OutInputAudio Let_def\<close>, rule snoc)
          (use False b in \<open>auto simp: OutInputAudio kinds split: if_splits\<close>)
    qed
  next
    case (OutInputImage url detail)
    show ?thesis
      by (rule finish [of "st\<lparr>trunc_out := trunc_out st @ [OutInputImage url detail]\<rparr>"], simp add: OutInputImage, rule snoc)
        (use b in \<open>simp_all add: OutInputImage kinds\<close>)
  next
    case (OutEncryptedContent e)
    show ?thesis
      by (rule finish [of "st\<lparr>trunc_out := trunc_out st @ [OutEncryptedContent e]\<rparr>"], simp add: OutEncryptedContent, rule snoc)
        (use b in \<open>simp_all add: OutEncryptedContent kinds\<close>)
  qed
qed

lemma truncate_item_loop_inv:
  assumes "truncation_inv policy estimate prior outs st" "\<And>t. OutInputText t \<in> set items \<Longrightarrow> str_len t \<le> usize_max"
  shows "\<exists>st' outs'. truncate_item_loop policy estimate items st = Some st' \<and> truncation_inv policy estimate (prior @ items) outs' st'"
  using assms
proof (induction items arbitrary: prior outs st)
  case (Cons item items)
  obtain st1 out where s1: "truncate_item policy estimate item st = Some st1"
      "truncation_inv policy estimate (prior @ [item]) (outs @ [out]) st1"
    using truncate_item_inv [OF Cons.prems(1), of item] Cons.prems(2) by force
  obtain st2 outs' where "truncate_item_loop policy estimate items st1 = Some st2"
      "truncation_inv policy estimate ((prior @ [item]) @ items) outs' st2"
    using Cons.IH [OF s1(2)] Cons.prems(2) by auto
  with s1(1) show ?case by auto
qed auto

lemma truncate_items_outs:
  assumes "\<And>t. OutInputText t \<in> set items \<Longrightarrow> str_len t \<le> usize_max"
  shows "\<exists>outs.
     truncate_function_output_items items policy estimate =
       Some (concat outs @ omitted_note (omitted_items is_text_item items outs) '' text'' @
             omitted_note (omitted_items is_audio_item items outs) '' audio'') \<and>
     accounted policy estimate items outs \<and> opaque_items (concat outs) = opaque_items items \<and>
     sum_list (map (text_cost policy) (text_segments (concat outs))) \<le> policy_budget policy + marker_cost policy"
proof -
  define st where "st = \<lparr>trunc_out = [], remaining_budget = policy_budget policy, omitted_text_items = 0, omitted_audio_items = 0\<rparr>"
  have budget: "(case policy of PolicyBytes _ \<Rightarrow> byte_budget policy | PolicyTokens _ \<Rightarrow> token_budget policy) = policy_budget policy"
    by (cases policy) (simp_all add: policy_budget_def)
  have "truncation_inv policy estimate [] [] st"
    by (simp add: truncation_inv_def st_def accounted_def left_before_def omitted_items_def)
  then obtain st' outs where L: "truncate_item_loop policy estimate items st = Some st'"
      and I: "truncation_inv policy estimate ([] @ items) outs st'"
    using truncate_item_loop_inv assms by blast
  have "truncate_function_output_items items policy estimate =
      Some (trunc_out st' @ omitted_note (omitted_text_items st') '' text'' @ omitted_note (omitted_audio_items st') '' audio'')"
    using L by (simp add: truncate_function_output_items_def budget st_def [symmetric])
  with I show ?thesis
    by (intro exI [of _ outs]) (auto simp: truncation_inv_def split: if_splits)
qed

text \<open>
  C30 Truncating the content items of a tool output, item by item. It never panics. Images and encrypted contents all
  stay. With what is left of the budget after the texts and the kept audio items before it, a text is kept whole if it costs no
  more, and is otherwise cut to what is left, after which nothing is left; without anything left it is omitted. An audio item is kept if it
  costs no more than what is left. The items keep their order, the omitted ones are counted exactly in the closing notes, and the
  kept texts cost no more than the budget and one marker, in bytes or in tokens as the policy says.
\<close>

theorem truncate_items_accounted:
  assumes "\<And>t. OutInputText t \<in> set items \<Longrightarrow> str_len t \<le> usize_max"
  shows "\<exists>outs.
     truncate_function_output_items items policy estimate =
       Some (concat outs @ omitted_note (omitted_items is_text_item items outs) '' text'' @
             omitted_note (omitted_items is_audio_item items outs) '' audio'') \<and>
     length outs = length items \<and>
     (\<forall>i<length items. outs ! i = expected_items policy estimate (left_before policy estimate items outs i) (items ! i)) \<and>
     opaque_items (concat outs) = opaque_items items \<and>
     sum_list (map (text_cost policy) (text_segments (concat outs))) \<le> policy_budget policy + marker_cost policy"
  using truncate_items_outs [OF assms] unfolding accounted_def by simp

theorem truncate_items_accounted_witness:
  "\<forall>estimate. \<exists>t. truncate_function_output_items [OutInputText (lit ''abcdefgh''), OutInputImage (lit ''u'') None] (PolicyBytes 8) estimate =
       Some [OutInputText t, OutInputImage (lit ''u'') None] \<and> t = lit ''abcdefgh''"
proof
  fix estimate
  let ?items = "[OutInputText (lit ''abcdefgh''), OutInputImage (lit ''u'') None]"
  have len: "str_len (lit ''abcdefgh'') = 8" by (simp add: lit_simps len_utf8_def)
  have "str_len t \<le> usize_max" if "OutInputText t \<in> set ?items" for t
    using that len by (auto simp: usize_max_def)
  from truncate_items_accounted [OF this, where policy = "PolicyBytes 8" and estimate = estimate] obtain outs where
    o: "truncate_function_output_items ?items (PolicyBytes 8) estimate =
       Some (concat outs @ omitted_note (omitted_items is_text_item ?items outs) '' text'' @
             omitted_note (omitted_items is_audio_item ?items outs) '' audio'')"
      "length outs = length ?items"
      "\<forall>i<length ?items. outs ! i = expected_items (PolicyBytes 8) estimate (left_before (PolicyBytes 8) estimate ?items outs i) (?items ! i)"
    by blast
  then obtain a b where ab: "outs = [a, b]" by (auto simp: length_Suc_conv)
  have "a = [OutInputText (lit ''abcdefgh'')]" "b = [OutInputImage (lit ''u'') None]"
    using o(3)[rule_format, of 0] o(3)[rule_format, of 1] len
    by (simp_all add: ab left_before_def policy_budget_def text_cost_def)
  then show "\<exists>t. truncate_function_output_items ?items (PolicyBytes 8) estimate =
       Some [OutInputText t, OutInputImage (lit ''u'') None] \<and> t = lit ''abcdefgh''"
    using o(1) by (simp add: ab omitted_items_def omitted_note_def is_audio_item_def)
qed

text \<open>The scaled budget is never below the budget.\<close>

lemma bit_length_lower: "m \<noteq> 0 \<Longrightarrow> 2 ^ (bit_length m - 1) \<le> m"
proof (induction m rule: bit_length.induct)
  case (1 n)
  show ?case
  proof (cases "n div 2 = 0")
    case True
    then have "n = 1" using 1(2) by simp
    then show ?thesis by (simp add: bit_length.simps)
  next
    case False
    then have "2 ^ (bit_length (n div 2) - 1) \<le> n div 2" using 1 by simp
    moreover have "bit_length (n div 2) = Suc (bit_length (n div 2 div 2))"
      using False by (simp add: bit_length.simps [of "n div 2"])
    moreover have "bit_length n = Suc (bit_length (n div 2))" using 1(2) by (simp add: bit_length.simps [of n])
    moreover have "2 * (n div 2) \<le> n" by simp
    ultimately show ?thesis by (metis One_nat_def diff_Suc_1 le_trans mult_le_mono2 power_Suc)
  qed
qed

lemma round53_lower: "m * (2 ^ 53 - 1) \<le> round53 m * 2 ^ 53"
proof -
  define sh where "sh = bit_length m - 53"
  define q r where "q = m div 2 ^ sh" and "r = m mod 2 ^ sh"
  have m: "m = q * 2 ^ sh + r" unfolding q_def r_def by (rule div_mult_mod_eq [symmetric])
  have r: "r < 2 ^ sh" by (simp add: r_def)
  have R: "round53 m = (if 2 ^ sh < 2 * r \<or> 2 ^ sh = 2 * r \<and> odd q then Suc q else q) * 2 ^ sh"
    by (simp add: round53_def Let_def sh_def q_def r_def)
  show ?thesis
  proof (cases "2 ^ sh < 2 * r \<or> 2 ^ sh = 2 * r \<and> odd q")
    case True
    then have "m \<le> round53 m" using R m r by simp
    then show ?thesis by (simp add: mult_le_mono)
  next
    case False
    then have down: "round53 m = q * 2 ^ sh" "2 * r \<le> 2 ^ sh" using R by auto
    have "r * 2 ^ 53 \<le> m"
    proof (cases "sh = 0")
      case True
      then show ?thesis using r by simp
    next
      case False
      then have "bit_length m - 1 = sh + 52" by (simp add: sh_def)
      moreover have "m \<noteq> 0" using \<open>sh \<noteq> 0\<close> by (intro notI) (simp add: sh_def bit_length.simps [of 0])
      ultimately have "2 ^ (sh + 52) \<le> m" using bit_length_lower [of m] by metis
      moreover have "r * 2 ^ 53 \<le> 2 ^ sh * 2 ^ 52" using down(2) by simp
      ultimately show ?thesis by (simp add: power_add)
    qed
    then have "m * 2 ^ 53 - m \<le> m * 2 ^ 53 - r * 2 ^ 53" by simp
    also have "\<dots> = round53 m * 2 ^ 53" using down(1) m by (metis add_diff_cancel_right' diff_mult_distrib)
    finally show ?thesis by (simp only: diff_mult_distrib2 mult_1_right)
  qed
qed

lemma scale_by_1_2_lower:
  assumes "n \<le> usize_max"
  shows "n \<le> scale_by_1_2 n"
proof -
  define c k :: nat where "c = 5404319552844595" and "k = 2 ^ 53 - 1"
  define a where "a = round53 n"
  define p where "p = round53 (a * c)"
  have "n * k \<le> a * 2 ^ 53" unfolding a_def k_def by (rule round53_lower)
  then have "n * k * (c * k) \<le> a * 2 ^ 53 * (c * k)" by (rule mult_le_mono1)
  also have "\<dots> = (a * c * k) * 2 ^ 53" by (simp add: ac_simps)
  also have "\<dots> \<le> (p * 2 ^ 53) * 2 ^ 53"
    using round53_lower [of "a * c"] unfolding p_def k_def by (rule mult_le_mono1)
  finally have P: "n * (k * (c * k)) \<le> p * (2 ^ 53 * 2 ^ 53)" by (simp only: mult.assoc)
  have "(2 ^ 53 * 2 ^ 53) * 2 ^ 52 \<le> k * (c * k)" by (simp add: k_def c_def)
  then have "n * ((2 ^ 53 * 2 ^ 53) * 2 ^ 52) \<le> n * (k * (c * k))" by (rule mult_le_mono2)
  also note P
  finally have "n * 2 ^ 52 * (2 ^ 53 * 2 ^ 53) \<le> p * (2 ^ 53 * 2 ^ 53)" by (simp only: ac_simps)
  then have "n * 2 ^ 52 \<le> p" by (simp only: mult_le_cancel2) simp
  then have "n \<le> (p + (2 ^ 52 - 1)) div 2 ^ 52"
    by (simp add: less_eq_div_iff_mult_less_eq)
  with assms show ?thesis by (simp add: scale_by_1_2_def Let_def p_def a_def c_def)
qed

lemma scaled_policy_lower:
  "byte_budget policy \<le> usize_max \<Longrightarrow> (case policy of PolicyTokens n \<Rightarrow> n \<le> usize_max | PolicyBytes _ \<Rightarrow> True) \<Longrightarrow>
   byte_budget policy \<le> byte_budget (scaled_policy policy)"
proof (cases policy)
  case (PolicyTokens n)
  assume "case policy of PolicyTokens n \<Rightarrow> n \<le> usize_max | PolicyBytes _ \<Rightarrow> True"
  then have "n * APPROX_BYTES_PER_TOKEN \<le> scale_by_1_2 n * APPROX_BYTES_PER_TOKEN"
    using scale_by_1_2_lower PolicyTokens by (simp add: mult_le_mono1)
  then show ?thesis
    unfolding PolicyTokens byte_budget.simps scaled_policy.simps approx_bytes_for_tokens_def sat_mul_def
    by (rule min.mono) simp
qed (use scale_by_1_2_lower in simp)

end
