(* ===== verification/ContextFragment.thy ===== *)
theory ContextFragment
  imports Truncation
begin

text \<open>
  The context fragments the runtime writes into a conversation and how they are recognised when
  the history is read (\<open>context-fragments/src/fragment.rs\<close>, \<open>additional_context.rs\<close>,
  \<open>core/src/context/contextual_user_message.rs\<close>, \<open>internal_model_context.rs\<close> and the other
  fragments under \<open>core/src/context\<close>, \<open>core/src/event_mapping.rs\<close>).
\<close>

section \<open>Definitions\<close>

text \<open>\<open>get(..n)\<close> and \<open>get(n..)\<close> with byte offsets.\<close>

definition get_to :: "nat \<Rightarrow> str \<Rightarrow> str option" where
  "get_to n s = map_option fst (split_at_byte n s)"

definition get_from :: "nat \<Rightarrow> str \<Rightarrow> str option" where
  "get_from n s = map_option snd (split_at_byte n s)"

definition matches_marked_text :: "str \<Rightarrow> str \<Rightarrow> str \<Rightarrow> bool" where
  "matches_marked_text start_marker end_marker s =
     (if start_marker = [] \<or> end_marker = [] then False
      else
        (let trimmed = trim_start s;
             starts_with_marker =
               is_some_and (\<lambda>candidate. eq_ignore_ascii_case candidate start_marker) (get_to (str_len start_marker) trimmed);
             trimmed = trim_end trimmed;
             ends_with_marker =
               is_some_and (\<lambda>candidate. eq_ignore_ascii_case candidate end_marker)
                 (get_from (str_len trimmed - str_len end_marker) trimmed)
         in starts_with_marker \<and> ends_with_marker))"

definition render_fragment :: "str \<times> str \<Rightarrow> str \<Rightarrow> str" where
  "render_fragment markers body =
     (case markers of (start_marker, end_marker) \<Rightarrow>
        if start_marker = [] \<and> end_marker = [] then body else start_marker @ body @ end_marker)"

text \<open>The markers of the fragments matched in the default way.\<close>

definition user_instructions_markers :: "str \<times> str" where
  "user_instructions_markers = (lit ''# AGENTS.md instructions'', lit ''</INSTRUCTIONS>'')"
definition environment_context_markers :: "str \<times> str" where
  "environment_context_markers = (lit ''<environment_context>'', lit ''</environment_context>'')"
definition skill_instructions_markers :: "str \<times> str" where
  "skill_instructions_markers = (lit ''<skill>'', lit ''</skill>'')"
definition user_shell_command_markers :: "str \<times> str" where
  "user_shell_command_markers = (lit ''<user_shell_command>'', lit ''</user_shell_command>'')"
definition turn_aborted_markers :: "str \<times> str" where
  "turn_aborted_markers = (lit ''<turn_aborted>'', lit ''</turn_aborted>'')"
definition subagent_notification_markers :: "str \<times> str" where
  "subagent_notification_markers = (lit ''<subagent_notification>'', lit ''</subagent_notification>'')"
definition recommended_plugins_markers :: "str \<times> str" where
  "recommended_plugins_markers = (lit ''<recommended_plugins>'', lit ''</recommended_plugins>'')"

definition user_instructions_body :: "str option \<Rightarrow> str \<Rightarrow> str" where
  "user_instructions_body directory s =
     (case directory of Some d \<Rightarrow> lit '' for '' @ d | None \<Rightarrow> []) @
     [NL, NL] @ lit ''<INSTRUCTIONS>'' @ [NL] @ s @ [NL]"

text \<open>Context added by clients, under a key.\<close>

definition MAX_ADDITIONAL_CONTEXT_VALUE_TOKENS :: nat where "MAX_ADDITIONAL_CONTEXT_VALUE_TOKENS = 1000"

definition additional_context_markers :: "str \<times> str" where
  "additional_context_markers = (lit ''<external_'', lit ''>'')"

definition additional_context_matches :: "str \<Rightarrow> bool" where
  "additional_context_matches s =
     (case strip_prefix (trim s) (lit ''<external_'') of
        None \<Rightarrow> False
      | Some rest \<Rightarrow>
          (case split_once 62 rest of
             None \<Rightarrow> False
           | Some (key, value_and_close) \<Rightarrow>
               ends_with value_and_close (lit ''</external_'' @ key @ lit ''>'')))"

definition additional_context_body :: "str \<Rightarrow> str \<Rightarrow> str option" where
  "additional_context_body key val =
     map_option (\<lambda>(v, _). key @ lit ''>'' @ v @ lit ''</external_'' @ key)
       (truncate_middle_with_token_budget val MAX_ADDITIONAL_CONTEXT_VALUE_TOKENS)"

text \<open>Context the runtime adds, with a source label.\<close>

definition is_ascii_lowercase :: "uchar \<Rightarrow> bool" where
  "is_ascii_lowercase c \<longleftrightarrow> 97 \<le> c \<and> c \<le> 122"

definition is_valid_source :: "str \<Rightarrow> bool" where
  "is_valid_source source =
     (case source of
        [] \<Rightarrow> False
      | first # chars \<Rightarrow>
          is_ascii_lowercase first \<and>
          list_all (\<lambda>ch. is_ascii_lowercase ch \<or> is_ascii_digit ch \<or> ch = 95) chars)"

definition internal_context_new :: "str \<Rightarrow> str + str" where
  "internal_context_new source = (if is_valid_source source then Inr source else Inl source)"

definition matches_legacy_goal_context :: "str \<Rightarrow> bool" where
  "matches_legacy_goal_context s \<longleftrightarrow> starts_with s (lit ''<goal_context>'') \<and> ends_with s (lit ''</goal_context>'')"

definition CONTEXT_START_MARKER :: str where "CONTEXT_START_MARKER = lit ''<codex_internal_context''"
definition CONTEXT_END_MARKER :: str where "CONTEXT_END_MARKER = lit ''</codex_internal_context>''"
definition SOURCE_ATTR_START :: str where "SOURCE_ATTR_START = lit '' source='' @ [34]"

definition internal_context_matches :: "str \<Rightarrow> bool" where
  "internal_context_matches s =
     (let trimmed = trim s
      in if matches_legacy_goal_context trimmed then True
         else
           (case strip_prefix trimmed CONTEXT_START_MARKER of
              None \<Rightarrow> False
            | Some rest \<Rightarrow>
                (case strip_prefix rest SOURCE_ATTR_START of
                   None \<Rightarrow> False
                 | Some rest \<Rightarrow>
                     (case split_once_str [34, 62] rest of
                        None \<Rightarrow> False
                      | Some (source, body_and_close) \<Rightarrow>
                          is_valid_source source \<and> ends_with body_and_close CONTEXT_END_MARKER))))"

definition internal_context_body :: "str \<Rightarrow> str \<Rightarrow> str" where
  "internal_context_body source body = SOURCE_ATTR_START @ source @ [34, 62, NL] @ body @ [NL]"

text \<open>Warnings written by older versions.\<close>

definition legacy_process_limit_matches :: "str \<Rightarrow> bool" where
  "legacy_process_limit_matches s =
     starts_with (trim s) (lit ''Warning: The maximum number of unified exec processes you can keep open is'')"

definition legacy_apply_patch_matches :: "str \<Rightarrow> bool" where
  "legacy_apply_patch_matches s \<longleftrightarrow>
     starts_with (trim s) (lit ''Warning: apply_patch was requested via '') \<and>
     ends_with (trim s) (lit ''Use the apply_patch tool instead of exec_command.'')"

definition legacy_model_mismatch_matches :: "str \<Rightarrow> bool" where
  "legacy_model_mismatch_matches s =
     starts_with (trim s) (lit ''Warning: Your account was flagged for potentially high-risk cyber activity'')"

definition matches_markers :: "str \<times> str \<Rightarrow> str \<Rightarrow> bool" where
  "matches_markers markers s = matches_marked_text (fst markers) (snd markers) s"

definition CONTEXTUAL_USER_FRAGMENTS :: "(str \<Rightarrow> bool) list" where
  "CONTEXTUAL_USER_FRAGMENTS =
     [matches_markers user_instructions_markers,
      matches_markers environment_context_markers,
      additional_context_matches,
      matches_markers skill_instructions_markers,
      matches_markers user_shell_command_markers,
      matches_markers turn_aborted_markers,
      matches_markers subagent_notification_markers,
      internal_context_matches,
      matches_markers recommended_plugins_markers,
      legacy_process_limit_matches,
      legacy_apply_patch_matches,
      legacy_model_mismatch_matches]"

definition is_standard_contextual_user_text :: "str \<Rightarrow> bool" where
  "is_standard_contextual_user_text s = list_ex (\<lambda>matches_text. matches_text s) CONTEXTUAL_USER_FRAGMENTS"

text \<open>Hook prompts are XML; \<open>hook_xml\<close> stands for the XML reader and gives the text and the
  run id of a hook prompt element.\<close>

definition parse_hook_prompt_fragment :: "(str \<Rightarrow> (str \<times> str) option) \<Rightarrow> str \<Rightarrow> (str \<times> str) option" where
  "parse_hook_prompt_fragment hook_xml s =
     (case hook_xml (trim s) of
        None \<Rightarrow> None
      | Some (t, hook_run_id) \<Rightarrow> if trim hook_run_id = [] then None else Some (t, hook_run_id))"

definition is_contextual_user_fragment :: "(str \<Rightarrow> (str \<times> str) option) \<Rightarrow> content_item \<Rightarrow> bool" where
  "is_contextual_user_fragment hook_xml c =
     (case c of
        InputText t \<Rightarrow> parse_hook_prompt_fragment hook_xml t \<noteq> None \<or> is_standard_contextual_user_text t
      | _ \<Rightarrow> False)"

definition is_contextual_user_message_content :: "(str \<Rightarrow> (str \<times> str) option) \<Rightarrow> content_item list \<Rightarrow> bool" where
  "is_contextual_user_message_content hook_xml message = list_ex (is_contextual_user_fragment hook_xml) message"

definition CONTEXTUAL_DEVELOPER_PREFIXES :: "str list" where
  "CONTEXTUAL_DEVELOPER_PREFIXES =
     [lit ''<permissions instructions>'', lit ''<model_switch>'', lit ''<apps_instructions>'',
      lit ''<collaboration_mode>'', lit ''<multi_agent_mode>'', lit ''<environments_instructions>'',
      lit ''<git_attribution>'', lit ''<plugins_instructions>'', lit ''<realtime_conversation>'',
      lit ''<skills_instructions>'', lit ''<tools>'', lit ''<personality_spec>'', lit ''<token_budget>'',
      lit ''<context_window>'', lit ''<context_window_guidance>'', lit ''<rollout_budget>'']"

definition is_contextual_dev_fragment :: "content_item \<Rightarrow> bool" where
  "is_contextual_dev_fragment c =
     (case c of
        InputText t \<Rightarrow>
          (let trimmed = trim_start t
           in list_ex (\<lambda>pre. is_some_and (\<lambda>candidate. eq_ignore_ascii_case candidate pre) (get_to (str_len pre) trimmed))
                CONTEXTUAL_DEVELOPER_PREFIXES)
      | _ \<Rightarrow> False)"

definition is_contextual_dev_message_content :: "content_item list \<Rightarrow> bool" where
  "is_contextual_dev_message_content message = list_ex is_contextual_dev_fragment message"

definition has_non_contextual_dev_message_content :: "content_item list \<Rightarrow> bool" where
  "has_non_contextual_dev_message_content message = list_ex (\<lambda>c. \<not> is_contextual_dev_fragment c) message"

definition USER_MESSAGE_BEGIN :: str where "USER_MESSAGE_BEGIN = lit ''## My request for Codex:''"

definition strip_user_message_prefix :: "str \<Rightarrow> str" where
  "strip_user_message_prefix s =
     (case find_sub USER_MESSAGE_BEGIN s of
        Some idx \<Rightarrow> trim (drop (idx + length USER_MESSAGE_BEGIN) s)
      | None \<Rightarrow> trim s)"

section \<open>Lemmas\<close>

lemma trim_start_id: "s \<noteq> [] \<Longrightarrow> \<not> is_whitespace (hd s) \<Longrightarrow> trim_start s = s"
  by (cases s) (simp_all add: trim_start_def)

lemma trim_end_append_id: "e \<noteq> [] \<Longrightarrow> \<not> is_whitespace (last e) \<Longrightarrow> trim_end (s @ e) = s @ e"
  by (cases e rule: rev_cases) (simp_all add: trim_end_snoc flip: append_assoc)

lemma trim_marked:
  "s \<noteq> [] \<Longrightarrow> \<not> is_whitespace (hd s) \<Longrightarrow> e \<noteq> [] \<Longrightarrow> \<not> is_whitespace (last e) \<Longrightarrow> trim (s @ b @ e) = s @ b @ e"
  using trim_start_id [of "s @ b @ e"] trim_end_append_id [of e "s @ b"]
  by (cases s) (auto simp: trim_def trim_start_def)

lemma get_to_append [simp]: "get_to (str_len s) (s @ x) = Some s"
  by (simp add: get_to_def)

lemma get_from_append: "get_from (str_len (s @ e) - str_len e) (s @ e) = Some e"
  using split_at_byte_append [of s e] by (simp add: get_from_def)

text \<open>A marker that neither begins nor ends with white space.\<close>

definition solid :: "str \<Rightarrow> bool" where
  "solid s \<longleftrightarrow> s \<noteq> [] \<and> \<not> is_whitespace (hd s) \<and> \<not> is_whitespace (last s)"

lemma matches_rendered:
  assumes "solid (fst markers)" "solid (snd markers)"
  shows "matches_markers markers (render_fragment markers body)"
proof -
  obtain s e where m: "markers = (s, e)" by (cases markers)
  with assms have s: "s \<noteq> []" "\<not> is_whitespace (hd s)" and e: "e \<noteq> []" "\<not> is_whitespace (last e)"
    by (auto simp: solid_def)
  have ts: "trim_start (s @ body @ e) = s @ body @ e" using s by (intro trim_start_id) auto
  have te: "trim_end (s @ body @ e) = s @ body @ e" using trim_end_append_id [OF e, of "s @ body"] by simp
  have "get_from (str_len (s @ body @ e) - str_len e) (s @ body @ e) = Some e"
    using get_from_append [of "s @ body" e] by simp
  then show ?thesis
    using s(1) e(1) ts te
    by (simp add: m matches_markers_def render_fragment_def matches_marked_text_def Let_def is_some_and_def
        eq_ignore_ascii_case_def)
qed

definition standard_markers :: "(str \<times> str) list" where
  "standard_markers =
     [user_instructions_markers, environment_context_markers, skill_instructions_markers,
      user_shell_command_markers, turn_aborted_markers, subagent_notification_markers,
      recommended_plugins_markers]"

lemma standard_markers_solid: "list_all (\<lambda>(s, e). solid s \<and> solid e) standard_markers"
  by (simp add: standard_markers_def user_instructions_markers_def environment_context_markers_def
      skill_instructions_markers_def user_shell_command_markers_def turn_aborted_markers_def
      subagent_notification_markers_def recommended_plugins_markers_def solid_def lit_simps is_whitespace_def)

lemma standard_markers_matched:
  "markers \<in> set standard_markers \<Longrightarrow> matches_markers markers s \<Longrightarrow> is_standard_contextual_user_text s"
  by (auto simp: standard_markers_def is_standard_contextual_user_text_def CONTEXTUAL_USER_FRAGMENTS_def)

lemma additional_context_matches_rendered:
  assumes "62 \<notin> set key"
  shows "additional_context_matches (render_fragment additional_context_markers (key @ lit ''>'' @ v @ lit ''</external_'' @ key))"
proof -
  let ?t = "lit ''<external_'' @ (key @ lit ''>'' @ v @ lit ''</external_'' @ key) @ lit ''>''"
  have "trim ?t = ?t" by (rule trim_marked) (simp_all add: lit_simps is_whitespace_def)
  moreover have "split_once 62 (key @ 62 # v @ lit ''</external_'' @ key @ lit ''>'') =
      Some (key, v @ lit ''</external_'' @ key @ lit ''>'')"
    using assms by (simp add: split_once_Some)
  moreover have "lit ''>'' = [62]" by (simp add: lit_simps)
  ultimately show ?thesis
    by (auto simp: additional_context_matches_def render_fragment_def additional_context_markers_def
        ends_with_suffix suffix_def)
qed

lemma valid_source_chars: "is_valid_source source \<Longrightarrow> c \<in> set source \<Longrightarrow> c \<noteq> 34"
  by (auto simp: is_valid_source_def is_ascii_lowercase_def is_ascii_digit_def list_all_iff split: list.splits)

lemma find_sub_quote:
  assumes "34 \<notin> set source"
  shows "find_sub [34, 62] (source @ 34 # 62 # r) = Some (length source)"
proof -
  have "\<not> prefix [34, 62] (drop j (source @ 34 # 62 # r))" if "j < length source" for j
  proof
    assume "prefix [34, 62] (drop j (source @ 34 # 62 # r))"
    then have "hd (drop j source) = 34" using that by (cases "drop j source") (auto simp: prefix_def)
    then have "source ! j = 34" using that by (simp add: hd_drop_conv_nth)
    then show False using assms that by (metis nth_mem)
  qed
  then show ?thesis by (simp add: find_sub_Some)
qed

lemma internal_context_matches_rendered:
  assumes "is_valid_source source"
  shows "internal_context_matches (render_fragment (CONTEXT_START_MARKER, CONTEXT_END_MARKER) (internal_context_body source body))"
proof -
  let ?t = "CONTEXT_START_MARKER @ internal_context_body source body @ CONTEXT_END_MARKER"
  have T: "trim ?t = ?t"
    by (rule trim_marked) (simp_all add: CONTEXT_START_MARKER_def CONTEXT_END_MARKER_def lit_simps is_whitespace_def)
  have "34 \<notin> set source" using valid_source_chars [OF assms] by blast
  from find_sub_quote [OF this, of "NL # body @ NL # CONTEXT_END_MARKER"]
  have "split_once_str [34, 62] (source @ 34 # 62 # NL # body @ NL # CONTEXT_END_MARKER) =
      Some (source, NL # body @ NL # CONTEXT_END_MARKER)"
    by (simp add: split_once_str_def)
  moreover have "ends_with (NL # body @ NL # CONTEXT_END_MARKER) CONTEXT_END_MARKER"
    unfolding ends_with_suffix by (rule suffixI [of _ "NL # body @ [NL]"]) simp
  moreover have "render_fragment (CONTEXT_START_MARKER, CONTEXT_END_MARKER) (internal_context_body source body) = ?t"
    by (simp add: render_fragment_def CONTEXT_START_MARKER_def)
  ultimately show ?thesis
    using assms T by (simp add: internal_context_matches_def Let_def internal_context_body_def)
qed

section \<open>Properties\<close>

text \<open>
  C31 Context fragments that the runtime writes into user messages are recognised as context when the
  history is read again: those with one of the listed pairs of markers and any body, client context under a key without
  the character \<open>>\<close>, whatever its truncated value, and internal context whose source is valid. Client context under
  a key with that character is not, as a lemma below shows; hook prompts and the older warnings are not covered.
\<close>

theorem rendered_fragments_recognised:
  assumes "markers \<in> set standard_markers" "62 \<notin> set key" "additional_context_body key val = Some added"
    "internal_context_new source = Inr label"
  shows "is_contextual_user_fragment hook_xml (InputText (render_fragment markers body)) \<and>
     is_contextual_user_fragment hook_xml (InputText (render_fragment additional_context_markers added)) \<and>
     is_contextual_user_fragment hook_xml
       (InputText (render_fragment (CONTEXT_START_MARKER, CONTEXT_END_MARKER) (internal_context_body label body)))"
proof (intro conjI)
  have "matches_markers markers (render_fragment markers body)"
    using assms(1) standard_markers_solid by (intro matches_rendered) (auto simp: list_all_iff case_prod_beta)
  then show "is_contextual_user_fragment hook_xml (InputText (render_fragment markers body))"
    using standard_markers_matched [OF assms(1)] by (simp add: is_contextual_user_fragment_def)
  obtain v where v: "added = key @ lit ''>'' @ v @ lit ''</external_'' @ key"
    using assms(3) by (auto simp: additional_context_body_def)
  show "is_contextual_user_fragment hook_xml (InputText (render_fragment additional_context_markers added))"
    using additional_context_matches_rendered [OF assms(2), of v]
    by (simp add: v is_contextual_user_fragment_def is_standard_contextual_user_text_def CONTEXTUAL_USER_FRAGMENTS_def)
  have "is_valid_source source" "label = source" using assms(4) by (auto simp: internal_context_new_def split: if_splits)
  then show "is_contextual_user_fragment hook_xml
       (InputText (render_fragment (CONTEXT_START_MARKER, CONTEXT_END_MARKER) (internal_context_body label body)))"
    using internal_context_matches_rendered [of source body]
    by (simp add: is_contextual_user_fragment_def is_standard_contextual_user_text_def CONTEXTUAL_USER_FRAGMENTS_def)
qed

theorem rendered_fragments_recognised_witness:
  "\<forall>hook_xml body. is_contextual_user_fragment hook_xml (InputText (render_fragment turn_aborted_markers body)) \<and>
     is_contextual_user_fragment hook_xml
       (InputText (render_fragment additional_context_markers (lit ''app>hi</external_app''))) \<and>
     is_contextual_user_fragment hook_xml
       (InputText (render_fragment (CONTEXT_START_MARKER, CONTEXT_END_MARKER) (internal_context_body (lit ''goal'') body)))"
proof -
  have "turn_aborted_markers \<in> set standard_markers" by (simp add: standard_markers_def)
  moreover have "62 \<notin> set (lit ''app'')" by (simp add: lit_simps)
  moreover have "additional_context_body (lit ''app'') (lit ''hi'') = Some (lit ''app>hi</external_app'')"
    by (simp add: additional_context_body_def truncate_middle_with_token_budget_def lit_simps len_utf8_def
        MAX_ADDITIONAL_CONTEXT_VALUE_TOKENS_def approx_bytes_for_tokens_def APPROX_BYTES_PER_TOKEN_def usize_max_def)
  moreover have "internal_context_new (lit ''goal'') = Inr (lit ''goal'')"
    by (simp add: internal_context_new_def is_valid_source_def lit_simps is_ascii_lowercase_def is_ascii_digit_def)
  ultimately show ?thesis using rendered_fragments_recognised by blast
qed
text \<open>A key with a closing bracket is written all the same, but not recognised when it is read.\<close>

lemma bracket_key_not_recognised:
  "additional_context_body (lit ''a>b'') (lit ''v'') = Some (lit ''a>b>v</external_a>b'') \<and>
   \<not> additional_context_matches (render_fragment additional_context_markers (lit ''a>b>v</external_a>b''))"
  by (simp add: additional_context_body_def truncate_middle_with_token_budget_def lit_simps len_utf8_def
      MAX_ADDITIONAL_CONTEXT_VALUE_TOKENS_def approx_bytes_for_tokens_def APPROX_BYTES_PER_TOKEN_def usize_max_def
      additional_context_matches_def render_fragment_def additional_context_markers_def trim_def trim_start_def
      trim_end_def is_whitespace_def strip_prefix_def ends_with_suffix suffix_def starts_with_def ends_with_def)

end
