(* ===== verification/ContextHistory.thy ===== *)
theory ContextHistory
  imports ContextNormalize ContextFragment
begin

text \<open>
  The conversation history of a thread (\<open>core/src/context_manager/history.rs\<close>) with the token
  accounting of \<open>protocol/src/protocol.rs\<close>: recording and truncating items, preparing them for the
  model, removing the oldest item, rolling back turns and estimating the tokens in use.

  The world state and the reference context are opaque to the history and stay parameters of the
  state; \<open>debug\<close> is a build with overflow checks and debug assertions.
\<close>

section \<open>Token usage\<close>

text \<open>An \<open>i64\<close> addition or subtraction: past the range a debug build panics, value \<open>None\<close>, and a
  release build wraps around.\<close>

definition wrap_i64 :: "int \<Rightarrow> int" where
  "wrap_i64 x = (x + 2 ^ 63) mod 2 ^ 64 - 2 ^ 63"

definition checked_i64 :: "bool \<Rightarrow> int \<Rightarrow> int option" where
  "checked_i64 debug x =
     (if i64_min \<le> x \<and> x \<le> i64_max then Some x else if debug then None else Some (wrap_i64 x))"

record token_usage =
  input_tokens :: int
  cached_input_tokens :: int
  cache_write_input_tokens :: int
  output_tokens :: int
  reasoning_output_tokens :: int
  total_tokens :: int
  rollout_budget_units :: "str option"

record token_usage_info =
  total_token_usage :: token_usage
  last_token_usage :: token_usage
  model_context_window :: "int option"

definition default_usage :: token_usage where
  "default_usage =
     \<lparr>input_tokens = 0, cached_input_tokens = 0, cache_write_input_tokens = 0, output_tokens = 0,
      reasoning_output_tokens = 0, total_tokens = 0, rollout_budget_units = None\<rparr>"

definition add_usage :: "bool \<Rightarrow> token_usage \<Rightarrow> token_usage \<Rightarrow> token_usage option" where
  "add_usage debug u other =
     Option.bind (checked_i64 debug (input_tokens u + input_tokens other)) (\<lambda>i.
     Option.bind (checked_i64 debug (cached_input_tokens u + cached_input_tokens other)) (\<lambda>c.
     Option.bind (checked_i64 debug (cache_write_input_tokens u + cache_write_input_tokens other)) (\<lambda>w.
     Option.bind (checked_i64 debug (output_tokens u + output_tokens other)) (\<lambda>out.
     Option.bind (checked_i64 debug (reasoning_output_tokens u + reasoning_output_tokens other)) (\<lambda>r.
     Option.bind (checked_i64 debug (total_tokens u + total_tokens other)) (\<lambda>t.
       Some (u\<lparr>input_tokens := i, cached_input_tokens := c, cache_write_input_tokens := w,
               output_tokens := out, reasoning_output_tokens := r, total_tokens := t\<rparr>)))))))"

definition append_last_usage :: "bool \<Rightarrow> token_usage_info \<Rightarrow> token_usage \<Rightarrow> token_usage_info option" where
  "append_last_usage debug info last_usage =
     map_option (\<lambda>total. info\<lparr>total_token_usage := total, last_token_usage := last_usage\<rparr>)
       (add_usage debug (total_token_usage info) last_usage)"

text \<open>The outer option is the panic.\<close>

definition new_or_append ::
    "bool \<Rightarrow> token_usage_info option \<Rightarrow> token_usage option \<Rightarrow> int option \<Rightarrow> token_usage_info option option" where
  "new_or_append debug info last_usage window =
     (if info = None \<and> last_usage = None then Some None
      else
        (let info = (case info of
                       Some i \<Rightarrow> i
                     | None \<Rightarrow> \<lparr>total_token_usage = default_usage, last_token_usage = default_usage,
                                model_context_window = window\<rparr>)
         in case (case last_usage of None \<Rightarrow> Some info | Some u \<Rightarrow> append_last_usage debug info u) of
              None \<Rightarrow> None
            | Some info \<Rightarrow>
                Some (Some (case window of
                              Some w \<Rightarrow> info\<lparr>model_context_window := Some w\<rparr>
                            | None \<Rightarrow> info))))"

definition fill_to_context_window :: "bool \<Rightarrow> int \<Rightarrow> token_usage_info \<Rightarrow> token_usage_info option" where
  "fill_to_context_window debug context_window info =
     map_option (\<lambda>d.
       info\<lparr>model_context_window := Some context_window,
            total_token_usage := default_usage\<lparr>total_tokens := context_window\<rparr>,
            last_token_usage := default_usage\<lparr>total_tokens := max d 0\<rparr>\<rparr>)
       (checked_i64 debug (context_window - total_tokens (total_token_usage info)))"

definition full_context_window :: "bool \<Rightarrow> int \<Rightarrow> token_usage_info option" where
  "full_context_window debug context_window =
     fill_to_context_window debug context_window
       \<lparr>total_token_usage = default_usage, last_token_usage = default_usage,
        model_context_window = Some context_window\<rparr>"

definition cached_input :: "token_usage \<Rightarrow> int" where
  "cached_input u = max (cached_input_tokens u) 0"

definition non_cached_input :: "bool \<Rightarrow> token_usage \<Rightarrow> int option" where
  "non_cached_input debug u = map_option (\<lambda>d. max d 0) (checked_i64 debug (input_tokens u - cached_input u))"

definition blended_total :: "bool \<Rightarrow> token_usage \<Rightarrow> int option" where
  "blended_total debug u =
     Option.bind (non_cached_input debug u) (\<lambda>n.
       map_option (\<lambda>s. max s 0) (checked_i64 debug (n + max (output_tokens u) 0)))"

section \<open>Token estimates\<close>

text \<open>What the history relies on outside the modelled code: the XML reader of hook prompts, whether
  a text is the JSON of an inter-agent communication, the length of an item's JSON, the
  dimensions of a decoded image payload and the tokens of an audio url whose duration is known.\<close>

record 'j history_env =
  hook_xml :: "str \<Rightarrow> (str \<times> str) option"
  is_communication_json :: "str \<Rightarrow> bool"
  json_len :: "'j response_item \<Rightarrow> nat option"
  image_dimensions :: "str \<Rightarrow> (nat \<times> nat) option"
  audio_duration_tokens :: "str \<Rightarrow> nat option"

definition estimate_audio_token_count :: "'j history_env \<Rightarrow> str \<Rightarrow> nat" where
  "estimate_audio_token_count env audio_url =
     (case audio_duration_tokens env audio_url of
        None \<Rightarrow> approx_token_count audio_url
      | Some tokens \<Rightarrow> min tokens usize_max)"

definition estimate_reasoning_length :: "nat \<Rightarrow> nat" where
  "estimate_reasoning_length encoded_len = sat_mul encoded_len 3 div 4 - 650"

definition estimate_encrypted_function_output_length :: "nat \<Rightarrow> nat" where
  "estimate_encrypted_function_output_length encoded_len = (sat_mul encoded_len 9 + 15) div 16"

definition parse_base64_data_url :: "str \<Rightarrow> str \<Rightarrow> str option" where
  "parse_base64_data_url url media_type_prefix =
     (if \<not> is_some_and (\<lambda>pre. eq_ignore_ascii_case pre (lit ''data:'')) (get_to (str_len (lit ''data:'')) url) then None
      else
        (case split_once 44 url of
           None \<Rightarrow> None
         | Some (metadata, payload) \<Rightarrow>
             (case split_on 59 (drop (length (lit ''data:'')) metadata) of
                [] \<Rightarrow> None
              | mime_type # parts \<Rightarrow>
                  (let has_base64_marker = list_ex (\<lambda>part. eq_ignore_ascii_case part (lit ''base64'')) parts
                   in if \<not> is_some_and (\<lambda>pre. eq_ignore_ascii_case pre media_type_prefix)
                              (get_to (str_len media_type_prefix) mime_type) then None
                      else if \<not> has_base64_marker then None
                      else Some payload))))"

definition parse_base64_image_data_url :: "str \<Rightarrow> str option" where
  "parse_base64_image_data_url url = parse_base64_data_url url (lit ''image/'')"

definition parse_base64_audio_data_url :: "str \<Rightarrow> str option" where
  "parse_base64_audio_data_url url = parse_base64_data_url url (lit ''audio/'')"

definition RESIZED_IMAGE_BYTES_ESTIMATE :: int where "RESIZED_IMAGE_BYTES_ESTIMATE = 7373"
definition ORIGINAL_IMAGE_PATCH_SIZE :: int where "ORIGINAL_IMAGE_PATCH_SIZE = 32"
definition ORIGINAL_IMAGE_MAX_PATCHES :: nat where "ORIGINAL_IMAGE_MAX_PATCHES = 10000"

definition estimate_original_image_bytes :: "'j history_env \<Rightarrow> str \<Rightarrow> int option" where
  "estimate_original_image_bytes env image_url =
     (case parse_base64_image_data_url image_url of
        None \<Rightarrow> None
      | Some payload \<Rightarrow>
          (case image_dimensions env payload of
             None \<Rightarrow> None
           | Some (width, height) \<Rightarrow>
               (let patch_size = ORIGINAL_IMAGE_PATCH_SIZE;
                    patches_wide = sat_add_i64 (int width) (sat_sub_i64 patch_size 1) div patch_size;
                    patches_high = sat_add_i64 (int height) (sat_sub_i64 patch_size 1) div patch_size;
                    patch_count = min (nat (clamp_i64 (patches_wide * patches_high))) ORIGINAL_IMAGE_MAX_PATCHES
                in Some (i64_of_usize (approx_bytes_for_tokens patch_count)))))"

text \<open>The accumulating closures: the payload bytes to subtract and the bytes to add instead.\<close>

definition accumulate_image :: "'j history_env \<Rightarrow> str \<Rightarrow> image_detail option \<Rightarrow> int \<times> int \<Rightarrow> int \<times> int" where
  "accumulate_image env image_url detail acc =
     (case parse_base64_image_data_url image_url of
        None \<Rightarrow> acc
      | Some payload \<Rightarrow>
          (sat_add_i64 (fst acc) (i64_of_usize (str_len payload)),
           sat_add_i64 (snd acc)
             (case detail of
                Some DetailOriginal \<Rightarrow>
                  (case estimate_original_image_bytes env image_url of
                     Some n \<Rightarrow> n
                   | None \<Rightarrow> RESIZED_IMAGE_BYTES_ESTIMATE)
              | _ \<Rightarrow> RESIZED_IMAGE_BYTES_ESTIMATE)))"

definition accumulate_audio :: "'j history_env \<Rightarrow> str \<Rightarrow> int \<times> int \<Rightarrow> int \<times> int" where
  "accumulate_audio env audio_url acc =
     (case parse_base64_audio_data_url audio_url of
        None \<Rightarrow> acc
      | Some payload \<Rightarrow>
          (sat_add_i64 (fst acc) (i64_of_usize (str_len payload)),
           sat_add_i64 (snd acc) (i64_of_usize (approx_bytes_for_tokens (estimate_audio_token_count env audio_url)))))"

definition accumulate_encrypted :: "str \<Rightarrow> int \<times> int \<Rightarrow> int \<times> int" where
  "accumulate_encrypted content acc =
     (sat_add_i64 (fst acc) (i64_of_usize (str_len content)),
      sat_add_i64 (snd acc) (i64_of_usize (estimate_encrypted_function_output_length (str_len content))))"

definition output_items :: "output_payload \<Rightarrow> output_content_item list" where
  "output_items p = (case payload_body p of BodyContentItems items \<Rightarrow> items | BodyText _ \<Rightarrow> [])"

definition image_data_url_estimate_adjustment :: "'j history_env \<Rightarrow> 'j response_item \<Rightarrow> int \<times> int" where
  "image_data_url_estimate_adjustment env item =
     (let of_output = (\<lambda>output. fold (\<lambda>c acc. case c of OutInputImage url detail \<Rightarrow> accumulate_image env url detail acc | _ \<Rightarrow> acc)
                         (output_items output) (0, 0))
      in case item of
           Message _ _ content _ _ \<Rightarrow>
             fold (\<lambda>c acc. case c of InputImage url detail \<Rightarrow> accumulate_image env url detail acc | _ \<Rightarrow> acc) content (0, 0)
         | FunctionCallOutput _ _ output _ \<Rightarrow> of_output output
         | CustomToolCallOutput _ _ _ output _ \<Rightarrow> of_output output
         | _ \<Rightarrow> (0, 0))"

definition audio_data_url_estimate_adjustment :: "'j history_env \<Rightarrow> 'j response_item \<Rightarrow> int \<times> int" where
  "audio_data_url_estimate_adjustment env item =
     (let of_output = (\<lambda>output. fold (\<lambda>c acc. case c of OutInputAudio url \<Rightarrow> accumulate_audio env url acc | _ \<Rightarrow> acc)
                         (output_items output) (0, 0))
      in case item of
           Message _ _ content _ _ \<Rightarrow>
             fold (\<lambda>c acc. case c of InputAudio url \<Rightarrow> accumulate_audio env url acc | _ \<Rightarrow> acc) content (0, 0)
         | FunctionCallOutput _ _ output _ \<Rightarrow> of_output output
         | CustomToolCallOutput _ _ _ output _ \<Rightarrow> of_output output
         | _ \<Rightarrow> (0, 0))"

definition encrypted_function_output_estimate_adjustment :: "'j response_item \<Rightarrow> int \<times> int" where
  "encrypted_function_output_estimate_adjustment item =
     (case item of
        FunctionCallOutput _ _ output _ \<Rightarrow>
          fold (\<lambda>c acc. case c of OutEncryptedContent e \<Rightarrow> accumulate_encrypted e acc | _ \<Rightarrow> acc)
            (output_items output) (0, 0)
      | AgentMessage _ _ _ content _ \<Rightarrow>
          fold (\<lambda>c acc. case c of AgentEncryptedContent e \<Rightarrow> accumulate_encrypted e acc | _ \<Rightarrow> acc) content (0, 0)
      | _ \<Rightarrow> (0, 0))"

definition adjusted_json_bytes :: "'j history_env \<Rightarrow> 'j response_item \<Rightarrow> int" where
  "adjusted_json_bytes env item =
     (let raw = (case json_len env item of Some n \<Rightarrow> i64_of_usize n | None \<Rightarrow> 0);
          (image_payload, image_replacement) = image_data_url_estimate_adjustment env item;
          (audio_payload, audio_replacement) = audio_data_url_estimate_adjustment env item;
          (encrypted_payload, encrypted_replacement) = encrypted_function_output_estimate_adjustment item;
          raw = sat_add_i64 (sat_sub_i64 (sat_add_i64 (sat_sub_i64 raw image_payload) image_replacement)
                  audio_payload) audio_replacement
      in sat_add_i64 (sat_sub_i64 raw encrypted_payload) encrypted_replacement)"

definition estimate_response_item_model_visible_bytes :: "'j history_env \<Rightarrow> 'j response_item \<Rightarrow> int" where
  "estimate_response_item_model_visible_bytes env item =
     (case item of
        Reasoning _ _ _ (Some content) _ \<Rightarrow> i64_of_usize (estimate_reasoning_length (str_len content))
      | Compaction _ content _ \<Rightarrow> i64_of_usize (estimate_reasoning_length (str_len content))
      | ContextCompaction _ (Some content) _ \<Rightarrow> i64_of_usize (estimate_reasoning_length (str_len content))
      | _ \<Rightarrow> adjusted_json_bytes env item)"

definition estimate_item_token_count :: "'j history_env \<Rightarrow> 'j response_item \<Rightarrow> int" where
  "estimate_item_token_count env item =
     approx_tokens_from_byte_count_i64 (estimate_response_item_model_visible_bytes env item)"

text \<open>\<open>map(estimate_item_token_count).fold(0, i64::saturating_add)\<close>.\<close>

definition sum_estimates :: "'j history_env \<Rightarrow> 'j response_item list \<Rightarrow> int" where
  "sum_estimates env items = foldl (\<lambda>acc item. sat_add_i64 acc (estimate_item_token_count env item)) 0 items"

section \<open>The history\<close>

record ('j, 'r, 'w) context_manager =
  history_items :: "'j response_item list"
  history_version :: nat
  token_info :: "token_usage_info option"
  reference_context_item :: "'r option"
  world_state_baseline :: "'w option"

definition new_context_manager :: "bool \<Rightarrow> ('j, 'r, 'w) context_manager option" where
  "new_context_manager debug =
     map_option (\<lambda>info. \<lparr>history_items = [], history_version = 0, token_info = info,
                        reference_context_item = None, world_state_baseline = None\<rparr>)
       (new_or_append debug None None None)"

fun is_api_message :: "'j response_item \<Rightarrow> bool" where
  "is_api_message (Message _ role _ _ _) \<longleftrightarrow> role \<noteq> lit ''system''"
| "is_api_message CompactionTrigger \<longleftrightarrow> False"
| "is_api_message OtherItem \<longleftrightarrow> False"
| "is_api_message _ \<longleftrightarrow> True"

definition truncate_function_output_payload ::
    "'j history_env \<Rightarrow> output_payload \<Rightarrow> truncation_policy \<Rightarrow> output_payload option" where
  "truncate_function_output_payload env output policy =
     map_option (\<lambda>body. \<lparr>payload_body = body, payload_success = payload_success output\<rparr>)
       (case payload_body output of
          BodyText content \<Rightarrow> map_option BodyText (truncate_text content policy)
        | BodyContentItems items \<Rightarrow>
            map_option BodyContentItems
              (truncate_function_output_items items policy (estimate_audio_token_count env)))"

definition process_item :: "'j history_env \<Rightarrow> 'j response_item \<Rightarrow> truncation_policy \<Rightarrow> 'j response_item option" where
  "process_item env item policy =
     (case item of
        FunctionCallOutput i c output m \<Rightarrow>
          map_option (\<lambda>output. FunctionCallOutput i c output m)
            (truncate_function_output_payload env output (scaled_policy policy))
      | CustomToolCallOutput i c n output m \<Rightarrow>
          map_option (\<lambda>output. CustomToolCallOutput i c n output m)
            (truncate_function_output_payload env output (scaled_policy policy))
      | _ \<Rightarrow> Some item)"

fun record_items ::
    "'j history_env \<Rightarrow> truncation_policy \<Rightarrow> 'j response_item list \<Rightarrow> ('j, 'r, 'w) context_manager \<Rightarrow>
     ('j, 'r, 'w) context_manager option" where
  "record_items env policy [] cm = Some cm"
| "record_items env policy (item # items) cm =
     (if \<not> is_api_message item then record_items env policy items cm
      else
        (case process_item env item policy of
           None \<Rightarrow> None
         | Some processed \<Rightarrow>
             record_items env policy items (cm\<lparr>history_items := history_items cm @ [processed]\<rparr>)))"

definition for_prompt ::
    "bool \<Rightarrow> (str \<Rightarrow> str) \<Rightarrow> input_modality list \<Rightarrow> ('j, 'r, 'w) context_manager \<Rightarrow> 'j response_item list option" where
  "for_prompt debug uuid_v5 modalities cm = normalize_items debug uuid_v5 modalities (history_items cm)"

definition set_token_usage_full ::
    "bool \<Rightarrow> int \<Rightarrow> ('j, 'r, 'w) context_manager \<Rightarrow> ('j, 'r, 'w) context_manager option" where
  "set_token_usage_full debug context_window cm =
     (case token_info cm of
        Some info \<Rightarrow> map_option (\<lambda>i. cm\<lparr>token_info := Some i\<rparr>) (fill_to_context_window debug context_window info)
      | None \<Rightarrow> map_option (\<lambda>i. cm\<lparr>token_info := Some i\<rparr>) (full_context_window debug context_window))"

definition update_token_info ::
    "bool \<Rightarrow> token_usage \<Rightarrow> int option \<Rightarrow> ('j, 'r, 'w) context_manager \<Rightarrow> ('j, 'r, 'w) context_manager option" where
  "update_token_info debug usage window cm =
     map_option (\<lambda>info. cm\<lparr>token_info := info\<rparr>) (new_or_append debug (token_info cm) (Some usage) window)"

definition estimate_token_count_with_base_instructions ::
    "'j history_env \<Rightarrow> str \<Rightarrow> ('j, 'r, 'w) context_manager \<Rightarrow> int" where
  "estimate_token_count_with_base_instructions env base_instructions cm =
     sat_add_i64 (i64_of_usize (approx_token_count base_instructions)) (sum_estimates env (history_items cm))"

definition remove_first_item :: "('j, 'r, 'w) context_manager \<Rightarrow> ('j, 'r, 'w) context_manager" where
  "remove_first_item cm =
     (case history_items cm of
        [] \<Rightarrow> cm
      | removed # items \<Rightarrow>
          cm\<lparr>history_items := remove_corresponding_for removed items, world_state_baseline := None\<rparr>)"

definition replace_items :: "'j response_item list \<Rightarrow> ('j, 'r, 'w) context_manager \<Rightarrow> ('j, 'r, 'w) context_manager" where
  "replace_items items cm =
     cm\<lparr>history_items := items, history_version := sat_add (history_version cm) 1, world_state_baseline := None\<rparr>"

definition is_message_content :: "'j history_env \<Rightarrow> content_item list \<Rightarrow> bool" where
  "is_message_content env content =
     (case content of
        [InputText t] \<Rightarrow> is_communication_json env t
      | [OutputText t] \<Rightarrow> is_communication_json env t
      | _ \<Rightarrow> False)"

definition is_user_turn_boundary :: "'j history_env \<Rightarrow> 'j response_item \<Rightarrow> bool" where
  "is_user_turn_boundary env item =
     (case item of
        AgentMessage _ _ _ _ _ \<Rightarrow> True
      | Message _ role content _ _ \<Rightarrow>
          role = lit ''user'' \<and> \<not> is_contextual_user_message_content (hook_xml env) content \<or>
          role = lit ''assistant'' \<and> is_message_content env content
      | _ \<Rightarrow> False)"

definition user_message_positions :: "'j history_env \<Rightarrow> 'j response_item list \<Rightarrow> nat list" where
  "user_message_positions env items = filter (\<lambda>idx. is_user_turn_boundary env (items ! idx)) [0..<length items]"

text \<open>The loop over the items above the cut; also whether the reference context was cleared.\<close>

fun trim_pre_turn_context_updates ::
    "'j history_env \<Rightarrow> 'j response_item list \<Rightarrow> nat \<Rightarrow> nat \<Rightarrow> bool \<Rightarrow> nat \<times> bool" where
  "trim_pre_turn_context_updates env snapshot first_idx 0 cleared = (0, cleared)"
| "trim_pre_turn_context_updates env snapshot first_idx (Suc k) cleared =
     (if first_idx < Suc k then
        (case snapshot ! k of
           Message _ role content _ _ \<Rightarrow>
             if role = lit ''developer'' \<and> is_contextual_dev_message_content content then
               trim_pre_turn_context_updates env snapshot first_idx k
                 (cleared \<or> has_non_contextual_dev_message_content content)
             else if role = lit ''user'' \<and> is_contextual_user_message_content (hook_xml env) content then
               trim_pre_turn_context_updates env snapshot first_idx k cleared
             else (Suc k, cleared)
         | _ \<Rightarrow> (Suc k, cleared))
      else (Suc k, cleared))"

definition drop_last_n_user_turns ::
    "'j history_env \<Rightarrow> nat \<Rightarrow> ('j, 'r, 'w) context_manager \<Rightarrow> ('j, 'r, 'w) context_manager" where
  "drop_last_n_user_turns env num_turns cm =
     (if num_turns = 0 then cm
      else
        (let snapshot = history_items cm;
             user_positions = user_message_positions env snapshot
         in case user_positions of
              [] \<Rightarrow> replace_items snapshot cm
            | first_idx # _ \<Rightarrow>
                (let cut_idx = (if length user_positions \<le> num_turns then first_idx
                                else user_positions ! (length user_positions - num_turns));
                     (cut_idx, cleared) = trim_pre_turn_context_updates env snapshot first_idx cut_idx False;
                     cm = (if cleared then cm\<lparr>reference_context_item := None\<rparr> else cm)
                 in replace_items (take cut_idx snapshot) cm)))"

text \<open>\<open>iter().rposition(p)\<close>.\<close>

definition rposition :: "('a \<Rightarrow> bool) \<Rightarrow> 'a list \<Rightarrow> nat option" where
  "rposition p xs = map_option (\<lambda>i. length xs - 1 - i) (position p (rev xs))"

definition get_non_last_reasoning_items_tokens :: "'j history_env \<Rightarrow> ('j, 'r, 'w) context_manager \<Rightarrow> int" where
  "get_non_last_reasoning_items_tokens env cm =
     (case rposition (is_user_turn_boundary env) (history_items cm) of
        None \<Rightarrow> 0
      | Some last_user_index \<Rightarrow>
          sum_estimates env
            (filter (\<lambda>i. case i of Reasoning _ _ _ (Some _) _ \<Rightarrow> True | _ \<Rightarrow> False)
               (take last_user_index (history_items cm))))"

fun is_model_generated_item :: "'j response_item \<Rightarrow> bool" where
  "is_model_generated_item (Message _ role _ _ _) \<longleftrightarrow> role = lit ''assistant''"
| "is_model_generated_item (Reasoning _ _ _ _ _) \<longleftrightarrow> True"
| "is_model_generated_item (FunctionCall _ _ _ _ _ _ _) \<longleftrightarrow> True"
| "is_model_generated_item (ToolSearchCall _ _ _ _ _ _) \<longleftrightarrow> True"
| "is_model_generated_item (WebSearchCall _ _ _ _) \<longleftrightarrow> True"
| "is_model_generated_item (ImageGenerationCall _ _ _ _ _) \<longleftrightarrow> True"
| "is_model_generated_item (CustomToolCall _ _ _ _ _ _ _) \<longleftrightarrow> True"
| "is_model_generated_item (LocalShellCall _ _ _ _ _) \<longleftrightarrow> True"
| "is_model_generated_item (Compaction _ _ _) \<longleftrightarrow> True"
| "is_model_generated_item (ContextCompaction _ _ _) \<longleftrightarrow> True"
| "is_model_generated_item _ \<longleftrightarrow> False"

definition items_after_last_model_generated_item :: "('j, 'r, 'w) context_manager \<Rightarrow> 'j response_item list" where
  "items_after_last_model_generated_item cm =
     (case rposition is_model_generated_item (history_items cm) of
        None \<Rightarrow> drop (length (history_items cm)) (history_items cm)
      | Some index \<Rightarrow> drop (sat_add index 1) (history_items cm))"

definition get_total_token_usage :: "'j history_env \<Rightarrow> bool \<Rightarrow> ('j, 'r, 'w) context_manager \<Rightarrow> int" where
  "get_total_token_usage env server_reasoning_included cm =
     (let last_tokens = (case token_info cm of Some info \<Rightarrow> total_tokens (last_token_usage info) | None \<Rightarrow> 0);
          after = sum_estimates env (items_after_last_model_generated_item cm)
      in if server_reasoning_included then sat_add_i64 last_tokens after
         else sat_add_i64 (sat_add_i64 last_tokens (get_non_last_reasoning_items_tokens env cm)) after)"

definition estimated_tokens_after_last_model_generated_item :: "'j history_env \<Rightarrow> ('j, 'r, 'w) context_manager \<Rightarrow> int" where
  "estimated_tokens_after_last_model_generated_item env cm = sum_estimates env (items_after_last_model_generated_item cm)"

section \<open>Removing the oldest item\<close>

text \<open>The id by which an item belongs to a call and its output: whether it is the output, the kind of
  the call and the call id.\<close>

datatype link_kind = FunctionLink | SearchLink | CustomLink

fun link :: "'j response_item \<Rightarrow> (bool \<times> link_kind \<times> str) option" where
  "link (FunctionCall _ _ _ _ _ c _) = Some (False, FunctionLink, c)"
| "link (LocalShellCall _ (Some c) _ _ _) = Some (False, FunctionLink, c)"
| "link (FunctionCallOutput _ c _ _) = Some (True, FunctionLink, c)"
| "link (ToolSearchCall _ (Some c) _ _ _ _) = Some (False, SearchLink, c)"
| "link (ToolSearchOutput _ (Some c) _ _ _ _) = Some (True, SearchLink, c)"
| "link (CustomToolCall _ _ c _ _ _ _) = Some (False, CustomLink, c)"
| "link (CustomToolCallOutput _ c _ _ _) = Some (True, CustomLink, c)"
| "link _ = None"

text \<open>No two calls and no two outputs of a kind share a call id.\<close>

definition unique_links :: "'j response_item list \<Rightarrow> bool" where
  "unique_links items = distinct (List.map_filter link items)"

lemma unique_links_simps [simp]:
  "unique_links []"
  "unique_links (x # xs) \<longleftrightarrow> unique_links xs \<and> (\<forall>k. link x = Some k \<longrightarrow> (\<forall>i\<in>set xs. link i \<noteq> Some k))"
  by (auto simp: unique_links_def List.map_filter_def split: option.splits) (force simp: image_iff)+

lemma unique_links_eq:
  "unique_links items \<Longrightarrow> i \<in> set items \<Longrightarrow> j \<in> set items \<Longrightarrow> link i = Some k \<Longrightarrow> link j = Some k \<Longrightarrow> i = j"
proof (induction items)
  case (Cons x items)
  have "i = j" if "i \<in> set items" "j \<in> set items" using Cons that by (auto simp del: split_paired_All)
  moreover have "\<not> (x = a \<and> b \<in> set items)" if "link a = Some k" "link b = Some k" for a b
    using Cons.prems(1) that by (auto simp del: split_paired_All)
  ultimately show ?case using Cons.prems(2-5) by auto
qed simp

lemma link_iff:
  "function_output_id i = Some c \<longleftrightarrow> link i = Some (True, FunctionLink, c)"
  "tool_search_output_id i = Some c \<longleftrightarrow> link i = Some (True, SearchLink, c)"
  "custom_output_id i = Some c \<longleftrightarrow> link i = Some (True, CustomLink, c)"
  "tool_search_call_id i = Some c \<longleftrightarrow> link i = Some (False, SearchLink, c)"
  "custom_call_id i = Some c \<longleftrightarrow> link i = Some (False, CustomLink, c)"
  by (cases i rule: link.cases; simp)+

lemma function_link_iff:
  "link i = Some (False, FunctionLink, c) \<longleftrightarrow> function_call_id i = Some c \<or> local_shell_call_id i = Some c"
  by (cases i rule: link.cases) auto

lemma all_link_kinds: "(\<forall>k. P k) \<longleftrightarrow> P FunctionLink \<and> P SearchLink \<and> P CustomLink"
  by (metis link_kind.exhaust)

lemma server_output_search: "server_output i \<Longrightarrow> link i = Some (b, k, c) \<Longrightarrow> k = SearchLink"
  by (cases i rule: link.cases) auto

lemma paired_iff:
  "paired items \<longleftrightarrow>
     (\<forall>i\<in>set items. \<forall>k c.
        (link i = Some (False, k, c) \<longrightarrow> (\<exists>j\<in>set items. link j = Some (True, k, c))) \<and>
        (link i = Some (True, k, c) \<longrightarrow> server_output i \<or> (\<exists>j\<in>set items. link j = Some (False, k, c))))"
proof -
  have *: "\<not> unanswered items i \<and> \<not> orphan items i \<longleftrightarrow>
     (\<forall>k c. (link i = Some (False, k, c) \<longrightarrow> (\<exists>j\<in>set items. link j = Some (True, k, c))) \<and>
        (link i = Some (True, k, c) \<longrightarrow> server_output i \<or> (\<exists>j\<in>set items. link j = Some (False, k, c))))" for i
  proof -
    have S: "server_output i \<Longrightarrow> link i \<noteq> Some (True, FunctionLink, c) \<and> link i \<noteq> Some (True, CustomLink, c)" for c
      using server_output_search [of i] by blast
    show ?thesis
      unfolding unanswered_def orphan_def ids_of_iff link_iff all_link_kinds function_link_iff using S by blast
  qed
  show ?thesis unfolding paired_def * ..
qed

lemma position_cong: "(\<And>x. x \<in> set xs \<Longrightarrow> p x = q x) \<Longrightarrow> position p xs = position q xs"
  by (induction xs) auto

lemma remove_link:
  "unique_links items \<Longrightarrow>
   (case position (\<lambda>i. link i = Some k) items of Some pos \<Rightarrow> vec_remove pos items | None \<Rightarrow> items) =
     filter (\<lambda>i. link i \<noteq> Some k) items"
proof (induction items)
  case (Cons x xs)
  show ?case
  proof (cases "link x = Some k")
    case True
    then have "\<forall>i\<in>set xs. link i \<noteq> Some k" using Cons.prems by auto
    then show ?thesis using True by (simp add: vec_remove_def)
  next
    case False
    have "(case map_option Suc p of Some pos \<Rightarrow> vec_remove pos (x # xs) | None \<Rightarrow> x # xs) =
        x # (case p of Some pos \<Rightarrow> vec_remove pos xs | None \<Rightarrow> xs)" for p
      by (cases p) (simp_all add: vec_remove_def)
    then show ?thesis using False Cons by simp
  qed
qed simp

lemma remove_function_link:
  assumes "unique_links items"
  shows "(case position (\<lambda>i. function_call_id i = Some c) items of
            Some pos \<Rightarrow> vec_remove pos items
          | None \<Rightarrow> (case position (\<lambda>i. local_shell_call_id i = Some c) items of
                       Some pos \<Rightarrow> vec_remove pos items | None \<Rightarrow> items)) =
         filter (\<lambda>i. link i \<noteq> Some (False, FunctionLink, c)) items"
proof (cases "\<exists>i\<in>set items. function_call_id i = Some c")
  case True
  then obtain i where i: "i \<in> set items" "function_call_id i = Some c" by blast
  have P: "position (\<lambda>i. function_call_id i = Some c) items = position (\<lambda>i. link i = Some (False, FunctionLink, c)) items"
  proof (rule position_cong)
    fix j assume "j \<in> set items"
    then have "j = i" if "link j = Some (False, FunctionLink, c)"
      using unique_links_eq [OF assms _ i(1) that] i(2) function_link_iff [of i c] by blast
    then show "(function_call_id j = Some c) = (link j = Some (False, FunctionLink, c))"
      using i(2) function_link_iff by blast
  qed
  moreover have "position (\<lambda>i. function_call_id i = Some c) items \<noteq> None"
    using i by (auto simp: position_None)
  ultimately show ?thesis using remove_link [OF assms, of "(False, FunctionLink, c)"] by auto
next
  case False
  then have "position (\<lambda>i. function_call_id i = Some c) items = None" by (simp add: position_None)
  moreover have "position (\<lambda>i. local_shell_call_id i = Some c) items = position (\<lambda>i. link i = Some (False, FunctionLink, c)) items"
    using False by (intro position_cong) (auto simp: function_link_iff)
  ultimately show ?thesis using remove_link [OF assms, of "(False, FunctionLink, c)"] by simp
qed

lemma remove_corresponding_for_eq:
  assumes "unique_links items"
  shows "remove_corresponding_for x items =
     (case link x of
        Some (out, k, c) \<Rightarrow> filter (\<lambda>i. link i \<noteq> Some (\<not> out, k, c)) items
      | None \<Rightarrow> items)"
  using remove_link [OF assms] remove_function_link [OF assms]
  by (cases "(x, items)" rule: remove_corresponding_for.cases)
     (simp_all add: remove_first_matching_def link_iff)

text \<open>
  Removing the oldest item together with its counterpart keeps every other call with its output
  and every other output with its call, as long as no call id is used twice.
\<close>

theorem remove_first_item_paired:
  assumes "paired (history_items cm)" "unique_links (history_items cm)"
  shows "paired (history_items (remove_first_item cm)) \<and> unique_links (history_items (remove_first_item cm))"
proof (cases "history_items cm")
  case Nil
  then show ?thesis using assms by (simp add: remove_first_item_def)
next
  case (Cons x xs)
  have U: "unique_links xs" and x: "\<And>k i. link x = Some k \<Longrightarrow> i \<in> set xs \<Longrightarrow> link i \<noteq> Some k"
    using assms(2) Cons by auto
  define rest where "rest = remove_corresponding_for x xs"
  have rest: "rest = filter (\<lambda>i. \<forall>out k c. link x = Some (out, k, c) \<longrightarrow> link i \<noteq> Some (\<not> out, k, c)) xs"
    unfolding rest_def remove_corresponding_for_eq [OF U] by (auto split: option.splits)
  have kept: "j \<in> set rest"
    if "i \<in> set rest" "j \<in> set (x # xs)" "link i = Some (out, k, c)" "link j = Some (\<not> out, k, c)" for i j out k c
  proof -
    have i: "i \<in> set xs" using that(1) by (simp add: rest)
    have "j \<noteq> x" using that(1,3,4) by (auto simp: rest)
    moreover have "link x \<noteq> Some (out', k', c')" if "link j = Some (\<not> out', k', c')" for out' k' c'
      using that \<open>link j = Some (\<not> out, k, c)\<close> \<open>link i = Some (out, k, c)\<close> x i by auto
    ultimately show ?thesis using that(2) by (auto simp: rest)
  qed
  have P: "paired (x # xs)" using assms(1) Cons by simp
  have "paired rest"
    unfolding paired_iff
  proof (intro ballI allI conjI impI)
    fix i k c assume i: "i \<in> set rest"
    then have ix: "i \<in> set (x # xs)" by (simp add: rest)
    { assume l: "link i = Some (False, k, c)"
      obtain j where "j \<in> set (x # xs)" "link j = Some (True, k, c)"
        using P ix l unfolding paired_iff by blast
      with kept [OF i this(1) l] show "\<exists>j\<in>set rest. link j = Some (True, k, c)" by auto }
    { assume l: "link i = Some (True, k, c)"
      have "server_output i \<or> (\<exists>j\<in>set (x # xs). link j = Some (False, k, c))"
        using P ix l unfolding paired_iff by blast
      then show "server_output i \<or> (\<exists>j\<in>set rest. link j = Some (False, k, c))"
        using kept [OF i _ l] by auto }
  qed
  moreover have "unique_links rest"
    using U unfolding rest by (induction xs) auto
  ultimately show ?thesis using Cons by (simp add: remove_first_item_def rest_def)
qed

theorem remove_first_item_paired_witness:
  "let cm = \<lparr>history_items = [FunctionCall None (lit ''shell'') None [] None (lit ''c1'') None, CompactionTrigger,
                FunctionCallOutput None (lit ''c1'') aborted_payload None :: nat response_item],
             history_version = 0, token_info = None, reference_context_item = Some (0 :: nat),
             world_state_baseline = Some (0 :: nat)\<rparr>
   in paired (history_items cm) \<and> history_items (remove_first_item cm) = [CompactionTrigger] \<and>
      paired (history_items (remove_first_item cm))"
proof -
  define cm :: "(nat, nat, nat) context_manager" where
    "cm = \<lparr>history_items = [FunctionCall None (lit ''shell'') None [] None (lit ''c1'') None, CompactionTrigger,
                FunctionCallOutput None (lit ''c1'') aborted_payload None],
             history_version = 0, token_info = None, reference_context_item = Some 0, world_state_baseline = Some 0\<rparr>"
  have "paired (history_items cm)" "unique_links (history_items cm)" by (auto simp: cm_def paired_iff)
  moreover from remove_first_item_paired [OF this] have "paired (history_items (remove_first_item cm))" by simp
  moreover have "history_items (remove_first_item cm) = [CompactionTrigger]"
    by (simp add: cm_def remove_first_item_def remove_first_matching_def vec_remove_def)
  ultimately show ?thesis by (simp add: cm_def Let_def)
qed

section \<open>Dropping turns\<close>

definition is_context_update :: "'j history_env \<Rightarrow> 'j response_item \<Rightarrow> bool" where
  "is_context_update env item =
     (case item of
        Message _ role content _ _ \<Rightarrow>
          role = lit ''developer'' \<and> is_contextual_dev_message_content content \<or>
          role = lit ''user'' \<and> is_contextual_user_message_content (hook_xml env) content
      | _ \<Rightarrow> False)"

lemma roles_differ [simp]:
  "lit ''developer'' \<noteq> lit ''user''" "lit ''developer'' \<noteq> lit ''assistant''" "lit ''user'' \<noteq> lit ''assistant''"
  "lit ''user'' \<noteq> lit ''developer''" "lit ''assistant'' \<noteq> lit ''developer''" "lit ''assistant'' \<noteq> lit ''user''"
  by (simp_all add: lit_simps)

lemma context_update_not_boundary: "is_context_update env item \<Longrightarrow> \<not> is_user_turn_boundary env item"
  by (auto simp: is_context_update_def is_user_turn_boundary_def split: response_item.splits)

text \<open>The trimming loop stops at the first item from above that is not a context update, or at the
  first turn; it clears the reference context when it passes a mixed developer message.\<close>

lemma trim_pre_turn_cut:
  assumes "first_idx \<le> stop"
  shows "fst (trim_pre_turn_context_updates env items first_idx stop cleared) \<le> stop \<and>
     first_idx \<le> fst (trim_pre_turn_context_updates env items first_idx stop cleared) \<and>
     (\<forall>k. fst (trim_pre_turn_context_updates env items first_idx stop cleared) \<le> k \<and> k < stop \<longrightarrow>
        is_context_update env (items ! k)) \<and>
     (fst (trim_pre_turn_context_updates env items first_idx stop cleared) = first_idx \<or>
      \<not> is_context_update env (items ! (fst (trim_pre_turn_context_updates env items first_idx stop cleared) - 1)))"
    (is "?P stop cleared")
  using assms
proof (induction stop arbitrary: cleared)
  case (Suc k)
  show ?case
  proof (cases "first_idx < Suc k \<and> is_context_update env (items ! k)")
    case True
    then obtain cleared' where
        "trim_pre_turn_context_updates env items first_idx (Suc k) cleared =
         trim_pre_turn_context_updates env items first_idx k cleared'"
      by (auto simp: is_context_update_def split: response_item.splits)
    moreover have "?P k cleared'" by (rule Suc.IH) (use True in simp)
    ultimately show ?thesis using True by (auto simp: less_Suc_eq)
  next
    case False
    then have "trim_pre_turn_context_updates env items first_idx (Suc k) cleared = (Suc k, cleared)"
      by (auto simp: is_context_update_def split: response_item.splits)
    then show ?thesis using False Suc.prems by auto
  qed
qed simp

text \<open>A developer message with context and other text: it cannot be rebuilt from differences.\<close>

definition is_mixed_update :: "'j response_item \<Rightarrow> bool" where
  "is_mixed_update item =
     (case item of
        Message _ role content _ _ \<Rightarrow>
          role = lit ''developer'' \<and> is_contextual_dev_message_content content \<and> has_non_contextual_dev_message_content content
      | _ \<Rightarrow> False)"

lemma trim_pre_turn_cleared:
  "snd (trim_pre_turn_context_updates env items first_idx stop cleared) \<longleftrightarrow>
     cleared \<or> (\<exists>k. fst (trim_pre_turn_context_updates env items first_idx stop cleared) \<le> k \<and> k < stop \<and> is_mixed_update (items ! k))"
    (is "?P stop cleared")
proof (induction stop arbitrary: cleared)
  case (Suc k)
  have le: "fst (trim_pre_turn_context_updates env items first_idx k c) \<le> k" for c
    by (induction k arbitrary: c) (auto split: response_item.splits intro: le_SucI)
  show ?case
  proof (cases "first_idx < Suc k \<and> is_context_update env (items ! k)")
    case True
    have e: "trim_pre_turn_context_updates env items first_idx (Suc k) cleared =
         trim_pre_turn_context_updates env items first_idx k (cleared \<or> is_mixed_update (items ! k))"
      using True by (auto simp: is_context_update_def is_mixed_update_def split: response_item.splits)
    show ?thesis
      unfolding e Suc.IH[of "cleared \<or> is_mixed_update (items ! k)"]
      using le[of "cleared \<or> is_mixed_update (items ! k)"] by (auto simp: less_Suc_eq)
  next
    case False
    then have "trim_pre_turn_context_updates env items first_idx (Suc k) cleared = (Suc k, cleared)"
      by (auto simp: is_context_update_def split: response_item.splits)
    then show ?thesis by auto
  qed
qed simp

lemma filter_upt_count:
  assumes "k < length (filter p [0..<n])"
  shows "length (filter p [0..<filter p [0..<n] ! k]) = k" "filter p [0..<n] ! k < n" "p (filter p [0..<n] ! k)"
proof -
  define m where "m = filter p [0..<n] ! k"
  have "m \<in> set (filter p [0..<n])" unfolding m_def using assms by (rule nth_mem)
  then have m: "m < n" "p m" by auto
  then have split: "filter p [0..<n] = filter p [0..<m] @ m # filter p [Suc m..<n]"
    using upt_add_eq_append [of 0 m "n - m"] upt_conv_Cons [of m n] by simp
  then have "filter p [0..<n] ! length (filter p [0..<m]) = m" "length (filter p [0..<m]) < length (filter p [0..<n])"
    by (simp_all add: nth_append)
  moreover have "distinct (filter p [0..<n])" by simp
  ultimately have "length (filter p [0..<m]) = k" using assms nth_eq_iff_index_eq [of "filter p [0..<n]"] m_def by metis
  then show "length (filter p [0..<filter p [0..<n] ! k]) = k" "filter p [0..<n] ! k < n" "p (filter p [0..<n] ! k)"
    using m by (simp_all add: m_def)
qed

lemma filter_take_positions:
  "m \<le> length items \<Longrightarrow> length (filter p (take m items)) = length (filter (\<lambda>i. p (items ! i)) [0..<m])"
proof (induction m)
  case (Suc m)
  then show ?case by (simp add: take_Suc_conv_app_nth)
qed simp

definition turn_count :: "'j history_env \<Rightarrow> 'j response_item list \<Rightarrow> nat" where
  "turn_count env items = length (filter (is_user_turn_boundary env) items)"

lemma length_positions: "length (user_message_positions env items) = turn_count env items"
  using filter_take_positions [of "length items" items "is_user_turn_boundary env"]
  by (simp add: user_message_positions_def turn_count_def)

lemma turn_count_positions:
  assumes "k < turn_count env items"
  shows "turn_count env (take (user_message_positions env items ! k) items) = k"
    "user_message_positions env items ! k < length items"
proof -
  have k: "k < length (filter (\<lambda>i. is_user_turn_boundary env (items ! i)) [0..<length items])"
    using assms length_positions [of env items] by (simp add: user_message_positions_def)
  note F = filter_upt_count [OF k, folded user_message_positions_def]
  show "user_message_positions env items ! k < length items" by (rule F(2))
  then show "turn_count env (take (user_message_positions env items ! k) items) = k"
    using F(1) by (simp add: turn_count_def filter_take_positions)
qed

lemma turn_count_drop_updates:
  assumes "stop \<le> m" "m \<le> length items" "\<And>k. stop \<le> k \<Longrightarrow> k < m \<Longrightarrow> \<not> is_user_turn_boundary env (items ! k)"
  shows "turn_count env (take stop items) = turn_count env (take m items)"
proof -
  have "filter (\<lambda>i. is_user_turn_boundary env (items ! i)) [stop..<m] = []"
    using assms(3) by (auto simp: filter_empty_conv)
  moreover have "[0..<m] = [0..<stop] @ [stop..<m]" using assms(1) upt_add_eq_append [of 0 stop "m - stop"] by simp
  ultimately show ?thesis using assms(1,2) by (simp add: turn_count_def filter_take_positions)
qed

text \<open>
  C24 Dropping the last \<open>n\<close> turns keeps a prefix of the history. It ends before the first dropped
  turn and before exactly the context updates written for it: all items between are such updates, and the last item kept is not one, unless
  everything after the first turn is dropped. The prefix has exactly \<open>n\<close> turns fewer (none left when
  there were fewer) and keeps everything before the first turn. One more rewrite is counted, the baseline of the world state is forgotten, and the reference
  context is forgotten exactly when a dropped update was mixed with other developer text.
\<close>

theorem drop_last_n_user_turns_spec:
  assumes "0 < num_turns" "0 < turn_count env (history_items cm)"
  shows "\<exists>stop turn.
     history_items (drop_last_n_user_turns env num_turns cm) = take stop (history_items cm) \<and>
     turn = user_message_positions env (history_items cm) ! (turn_count env (history_items cm) - num_turns) \<and>
     hd (user_message_positions env (history_items cm)) \<le> stop \<and> stop \<le> turn \<and>
     (\<forall>k. stop \<le> k \<and> k < turn \<longrightarrow> is_context_update env (history_items cm ! k)) \<and>
     (stop = hd (user_message_positions env (history_items cm)) \<or>
      0 < stop \<and> \<not> is_context_update env (history_items cm ! (stop - 1))) \<and>
     turn_count env (take stop (history_items cm)) = turn_count env (history_items cm) - num_turns \<and>
     history_version (drop_last_n_user_turns env num_turns cm) = sat_add (history_version cm) 1 \<and>
     world_state_baseline (drop_last_n_user_turns env num_turns cm) = None \<and>
     reference_context_item (drop_last_n_user_turns env num_turns cm) =
       (if \<exists>k. stop \<le> k \<and> k < turn \<and> is_mixed_update (history_items cm ! k) then None else reference_context_item cm) \<and>
     token_info (drop_last_n_user_turns env num_turns cm) = token_info cm"
proof -
  define items where "items = history_items cm"
  define ps where "ps = user_message_positions env items"
  define turn where "turn = ps ! (turn_count env items - num_turns)"
  have len: "length ps = turn_count env items" by (simp add: ps_def length_positions)
  then obtain first_idx rest where F: "ps = first_idx # rest"
    using assms(2) by (cases ps) (auto simp: items_def)
  have lt: "turn_count env items - num_turns < turn_count env items" using assms by (simp add: items_def)
  have turn: "(if length ps \<le> num_turns then first_idx else ps ! (length ps - num_turns)) = turn"
    using F len by (auto simp: turn_def)
  have "sorted ps" unfolding ps_def user_message_positions_def by (simp add: sorted_wrt_filter)
  then have first: "first_idx \<le> turn" using lt len unfolding turn_def F
    by (cases "turn_count env (items) - num_turns") auto
  define r where "r = trim_pre_turn_context_updates env items first_idx turn False"
  have D: "drop_last_n_user_turns env num_turns cm =
      replace_items (take (fst r) items) (if snd r then cm\<lparr>reference_context_item := None\<rparr> else cm)"
    using assms(1) F
    by (simp add: drop_last_n_user_turns_def Let_def items_def [symmetric] ps_def [symmetric] r_def turn_def
        len [symmetric] case_prod_beta)
  note C = trim_pre_turn_cut [OF first, of env items False, folded r_def]
  have T: "turn_count env (take turn items) = turn_count env items - num_turns" "turn < length items"
    using turn_count_positions [OF lt] by (simp_all add: turn_def ps_def)
  have "turn_count env (take (fst r) items) = turn_count env (take turn items)"
    using C T(2) context_update_not_boundary by (intro turn_count_drop_updates) auto
  moreover have "snd r \<longleftrightarrow> (\<exists>k. fst r \<le> k \<and> k < turn \<and> is_mixed_update (items ! k))"
    using trim_pre_turn_cleared [of env items first_idx turn False, folded r_def] by simp
  moreover have "fst r = first_idx \<or> 0 < fst r \<and> \<not> is_context_update env (items ! (fst r - 1))"
    using C by (cases "fst r = first_idx") auto
  ultimately have "history_items (drop_last_n_user_turns env num_turns cm) = take (fst r) items \<and>
      hd ps \<le> fst r \<and> fst r \<le> turn \<and> (\<forall>k. fst r \<le> k \<and> k < turn \<longrightarrow> is_context_update env (items ! k)) \<and>
      turn_count env (take (fst r) items) = turn_count env items - num_turns \<and>
      (fst r = hd ps \<or> 0 < fst r \<and> \<not> is_context_update env (items ! (fst r - 1))) \<and>
      history_version (drop_last_n_user_turns env num_turns cm) = sat_add (history_version cm) 1 \<and>
      world_state_baseline (drop_last_n_user_turns env num_turns cm) = None \<and>
      reference_context_item (drop_last_n_user_turns env num_turns cm) =
        (if \<exists>k. fst r \<le> k \<and> k < turn \<and> is_mixed_update (items ! k) then None else reference_context_item cm) \<and>
      token_info (drop_last_n_user_turns env num_turns cm) = token_info cm"
    using T C by (simp add: D replace_items_def F) blast
  then show ?thesis unfolding items_def [symmetric] ps_def [symmetric] turn_def [symmetric]
    by (intro exI [of _ "fst r"] exI [of _ turn]) simp
qed

theorem drop_last_n_user_turns_spec_witness:
  "let items = [CompactionTrigger, AgentMessage None [] [] [] None, OtherItem, AgentMessage None [] [] [] None,
                OtherItem :: nat response_item];
       cm = \<lparr>history_items = items, history_version = 3, token_info = None, reference_context_item = Some (0 :: nat),
              world_state_baseline = Some (0 :: nat)\<rparr>
   in \<forall>env. \<exists>stop \<ge> 1. history_items (drop_last_n_user_turns env 1 cm) = take stop items \<and> stop \<le> 3 \<and>
        turn_count env (take stop items) = 1"
proof -
  define items :: "nat response_item list" where
    "items = [CompactionTrigger, AgentMessage None [] [] [] None, OtherItem, AgentMessage None [] [] [] None, OtherItem]"
  define cm :: "(nat, nat, nat) context_manager" where
    "cm = \<lparr>history_items = items, history_version = 3, token_info = None, reference_context_item = Some 0,
           world_state_baseline = Some 0\<rparr>"
  have "\<exists>stop \<ge> 1. history_items (drop_last_n_user_turns env 1 cm) = take stop items \<and> stop \<le> 3 \<and>
        turn_count env (take stop items) = 1" for env
  proof -
    have P: "user_message_positions env items = [1, 3]"
      by (simp add: user_message_positions_def items_def is_user_turn_boundary_def upt_rec)
    then have T: "turn_count env items = 2" using length_positions [of env items] by simp
    have "0 < turn_count env (history_items cm)" by (simp add: cm_def T)
    from drop_last_n_user_turns_spec [OF _ this, of 1] show ?thesis
      by (auto simp: cm_def T P)
  qed
  then show ?thesis by (simp add: Let_def cm_def items_def)
qed

section \<open>Recording items\<close>

definition texts_bounded :: "output_payload \<Rightarrow> bool" where
  "texts_bounded output =
     (case payload_body output of
        BodyText s \<Rightarrow> str_len s \<le> usize_max
      | BodyContentItems items \<Rightarrow> list_all (\<lambda>s. str_len s \<le> usize_max) (text_segments items))"

fun outputs_bounded :: "'j response_item \<Rightarrow> bool" where
  "outputs_bounded (FunctionCallOutput _ _ output _) = texts_bounded output"
| "outputs_bounded (CustomToolCallOutput _ _ _ output _) = texts_bounded output"
| "outputs_bounded _ = True"

lemma OutInputText_segment: "OutInputText s \<in> set items \<Longrightarrow> s \<in> set (text_segments items)"
  by (induction items) (auto simp: text_segments_def List.map_filter_simps split: output_content_item.splits option.splits)

lemma truncate_items_total:
  assumes "list_all (\<lambda>s. str_len s \<le> usize_max) (text_segments items)"
  obtains out where "truncate_function_output_items items policy estimate = Some out"
proof -
  have "str_len s \<le> usize_max" if "OutInputText s \<in> set items" for s
    using OutInputText_segment [OF that] assms by (simp add: list_all_iff)
  from truncate_items_outs [OF this, of items policy estimate] that show ?thesis by blast
qed

lemma truncate_payload_total:
  assumes "texts_bounded output"
  shows "truncate_function_output_payload env output policy \<noteq> None"
proof (cases "payload_body output")
  case (BodyText s)
  then have "str_len s \<le> usize_max" using assms by (simp add: texts_bounded_def)
  then obtain t where "truncate_text s policy = Some t" by (rule truncate_text_total)
  then show ?thesis by (simp add: truncate_function_output_payload_def BodyText)
next
  case (BodyContentItems items)
  then obtain out where "truncate_function_output_items items policy (estimate_audio_token_count env) = Some out"
    using truncate_items_total [of items policy "estimate_audio_token_count env"] assms by (auto simp: texts_bounded_def)
  then show ?thesis by (simp add: truncate_function_output_payload_def BodyContentItems)
qed

lemma process_item_total: "outputs_bounded item \<Longrightarrow> \<exists>p. process_item env item policy = Some p"
  using truncate_payload_total by (cases item) (auto simp: process_item_def)

lemma process_item_link: "process_item env item policy = Some p \<Longrightarrow> link p = link item"
  by (cases item) (auto simp: process_item_def)

text \<open>
  Recording never panics; it appends, in order, the processed form of every item that is sent to
  the model and leaves the rest of the state; processing keeps what links a call and its output.
\<close>

theorem record_items_spec:
  assumes "list_all outputs_bounded items"
  shows "\<exists>processed.
     record_items env policy items cm = Some (cm\<lparr>history_items := history_items cm @ processed\<rparr>) \<and>
     list_all2 (\<lambda>item p. process_item env item policy = Some p \<and> link p = link item)
       (filter is_api_message items) processed"
  using assms
proof (induction items arbitrary: cm)
  case (Cons item items)
  show ?case
  proof (cases "is_api_message item")
    case False
    then show ?thesis using Cons by simp
  next
    case True
    obtain p where p: "process_item env item policy = Some p"
      using process_item_total [of item env policy] Cons.prems by auto
    obtain ps where ps: "record_items env policy items (cm\<lparr>history_items := history_items cm @ [p]\<rparr>) =
        Some (cm\<lparr>history_items := (history_items cm @ [p]) @ ps\<rparr>)"
      "list_all2 (\<lambda>item p. process_item env item policy = Some p \<and> link p = link item) (filter is_api_message items) ps"
      using Cons.IH [of "cm\<lparr>history_items := history_items cm @ [p]\<rparr>"] Cons.prems by auto
    then show ?thesis
      using True p process_item_link [OF p] by (intro exI [of _ "p # ps"]) simp
  qed
qed simp

theorem record_items_spec_witness:
  "let items = [Message None (lit ''system'') [] None None, FunctionCallOutput None (lit ''c'') aborted_payload None,
                OtherItem :: nat response_item]
   in \<forall>env cm. \<exists>p. record_items env (PolicyBytes 100) items cm =
        Some (cm\<lparr>history_items := history_items cm @ [p]\<rparr>) \<and> link p = Some (True, FunctionLink, lit ''c'')"
proof -
  have "list_all outputs_bounded [Message None (lit ''system'') [] None None,
      FunctionCallOutput None (lit ''c'') aborted_payload None, OtherItem :: nat response_item]"
    by (simp add: aborted_payload_def payload_from_text_def texts_bounded_def lit_simps len_utf8_def usize_max_def)
  from record_items_spec [OF this, of _ "PolicyBytes 100"] show ?thesis
    by (force simp: Let_def list_all2_Cons1)
qed

section \<open>Token estimates\<close>

lemma estimate_bounds: "0 \<le> estimate_item_token_count env item \<and> estimate_item_token_count env item \<le> i64_max"
  using i64_of_usize_bounds by (simp add: estimate_item_token_count_def approx_tokens_from_byte_count_i64_def i64_max_def)

lemma sum_estimates_from:
  "0 \<le> a \<Longrightarrow> a \<le> i64_max \<Longrightarrow>
   a \<le> foldl (\<lambda>acc item. sat_add_i64 acc (estimate_item_token_count env item)) a items \<and>
   foldl (\<lambda>acc item. sat_add_i64 acc (estimate_item_token_count env item)) a items \<le> i64_max"
proof (induction items arbitrary: a)
  case (Cons item items)
  have "a \<le> sat_add_i64 a (estimate_item_token_count env item)" "sat_add_i64 a (estimate_item_token_count env item) \<le> i64_max"
    using Cons.prems estimate_bounds [of env item] by (auto simp: sat_add_i64_def clamp_i64_def i64_min_def)
  then show ?case using Cons.IH [of "sat_add_i64 a (estimate_item_token_count env item)"] Cons.prems(1) by simp
qed simp

lemma sum_estimates_bounds: "0 \<le> sum_estimates env items \<and> sum_estimates env items \<le> i64_max"
  using sum_estimates_from [of 0 env items] by (simp add: sum_estimates_def i64_max_def)

text \<open>
  The estimated usage is never below the usage the server reported last, counting the reasoning
  items too never lowers it, and no estimate leaves the range of an \<open>i64\<close>.
\<close>

theorem total_token_usage_bounds:
  assumes "last_tokens = (case token_info cm of Some info \<Rightarrow> total_tokens (last_token_usage info) | None \<Rightarrow> 0)"
    and "i64_min \<le> last_tokens" "last_tokens \<le> i64_max"
  shows "last_tokens \<le> get_total_token_usage env True cm \<and>
         get_total_token_usage env True cm \<le> get_total_token_usage env False cm \<and>
         get_total_token_usage env False cm \<le> i64_max \<and>
         0 \<le> estimate_token_count_with_base_instructions env base cm \<and>
         estimate_token_count_with_base_instructions env base cm \<le> i64_max"
proof -
  have R: "0 \<le> get_non_last_reasoning_items_tokens env cm"
    using sum_estimates_bounds by (auto simp: get_non_last_reasoning_items_tokens_def split: option.splits)
  have mono: "x \<le> sat_add_i64 x y" "sat_add_i64 x y \<le> i64_max" if "i64_min \<le> x" "x \<le> i64_max" "0 \<le> y" for x y
    using that by (auto simp: sat_add_i64_def clamp_i64_def i64_min_def i64_max_def)
  have le: "sat_add_i64 x z \<le> sat_add_i64 y z" if "x \<le> y" for x y z
    using that by (auto simp: sat_add_i64_def clamp_i64_def)
  define after where "after = sum_estimates env (items_after_last_model_generated_item cm)"
  have A: "0 \<le> after" unfolding after_def by (rule sum_estimates_bounds [THEN conjunct1])
  have G: "get_total_token_usage env True cm = sat_add_i64 last_tokens after"
      "get_total_token_usage env False cm = sat_add_i64 (sat_add_i64 last_tokens (get_non_last_reasoning_items_tokens env cm)) after"
    by (simp_all add: get_total_token_usage_def Let_def after_def assms(1))
  have "i64_min \<le> sat_add_i64 last_tokens (get_non_last_reasoning_items_tokens env cm)"
    using mono(1) [OF assms(2,3) R] assms(2) by simp
  then have "last_tokens \<le> get_total_token_usage env True cm \<and>
      get_total_token_usage env True cm \<le> get_total_token_usage env False cm \<and> get_total_token_usage env False cm \<le> i64_max"
    unfolding G using mono [OF assms(2,3) A] le [OF mono(1) [OF assms(2,3) R]] mono(2) [OF _ mono(2) [OF assms(2,3) R] A]
    by simp
  moreover have "0 \<le> estimate_token_count_with_base_instructions env base cm"
    unfolding estimate_token_count_with_base_instructions_def
    by (intro sat_add_i64_nonneg i64_of_usize_bounds [THEN conjunct1] sum_estimates_bounds [THEN conjunct1])
  moreover have "estimate_token_count_with_base_instructions env base cm \<le> i64_max"
    unfolding estimate_token_count_with_base_instructions_def sat_add_i64_def by (rule clamp_i64_bounds [THEN conjunct2])
  ultimately show ?thesis by blast
qed

theorem total_token_usage_bounds_witness:
  "\<forall>(env :: nat history_env) (cm :: (nat, nat, nat) context_manager).
     0 \<le> get_total_token_usage env True (cm\<lparr>token_info := None\<rparr>)"
proof (intro allI)
  fix env :: "nat history_env" and cm :: "(nat, nat, nat) context_manager"
  have "0 = (case token_info (cm\<lparr>token_info := None\<rparr>) of Some info \<Rightarrow> total_tokens (last_token_usage info) | None \<Rightarrow> 0)"
    by simp
  from total_token_usage_bounds [OF this, of env] show "0 \<le> get_total_token_usage env True (cm\<lparr>token_info := None\<rparr>)"
    by (simp add: i64_min_def i64_max_def)
qed

section \<open>Token accounting\<close>

text \<open>Recording one usage after the other.\<close>

fun record_usages ::
    "bool \<Rightarrow> int option \<Rightarrow> token_usage list \<Rightarrow> ('j, 'r, 'w) context_manager \<Rightarrow> ('j, 'r, 'w) context_manager option" where
  "record_usages debug window [] cm = Some cm"
| "record_usages debug window (u # us) cm = Option.bind (update_token_info debug u window cm) (record_usages debug window us)"

definition usage_in_range :: "token_usage \<Rightarrow> bool" where
  "usage_in_range u \<longleftrightarrow>
     0 \<le> input_tokens u \<and> 0 \<le> cached_input_tokens u \<and> 0 \<le> cache_write_input_tokens u \<and>
     0 \<le> output_tokens u \<and> 0 \<le> reasoning_output_tokens u \<and> 0 \<le> total_tokens u"

definition usage_sum :: "(token_usage \<Rightarrow> int) \<Rightarrow> token_usage \<Rightarrow> token_usage list \<Rightarrow> int" where
  "usage_sum f start us = f start + sum_list (map f us)"

definition sums_fit :: "token_usage \<Rightarrow> token_usage list \<Rightarrow> bool" where
  "sums_fit start us \<longleftrightarrow>
     list_all usage_in_range (start # us) \<and>
     usage_sum input_tokens start us \<le> i64_max \<and> usage_sum cached_input_tokens start us \<le> i64_max \<and>
     usage_sum cache_write_input_tokens start us \<le> i64_max \<and> usage_sum output_tokens start us \<le> i64_max \<and>
     usage_sum reasoning_output_tokens start us \<le> i64_max \<and> usage_sum total_tokens start us \<le> i64_max"

definition added_usage :: "token_usage \<Rightarrow> token_usage \<Rightarrow> token_usage" where
  "added_usage u v =
     u\<lparr>input_tokens := input_tokens u + input_tokens v,
       cached_input_tokens := cached_input_tokens u + cached_input_tokens v,
       cache_write_input_tokens := cache_write_input_tokens u + cache_write_input_tokens v,
       output_tokens := output_tokens u + output_tokens v,
       reasoning_output_tokens := reasoning_output_tokens u + reasoning_output_tokens v,
       total_tokens := total_tokens u + total_tokens v\<rparr>"

lemma checked_i64_Some: "0 \<le> x \<Longrightarrow> x \<le> i64_max \<Longrightarrow> checked_i64 debug x = Some x"
  by (simp add: checked_i64_def i64_min_def)

lemma sum_list_nonneg_map: "(\<And>x. x \<in> set xs \<Longrightarrow> 0 \<le> f x) \<Longrightarrow> 0 \<le> sum_list (map f xs)" for f :: "'a \<Rightarrow> int"
  by (induction xs) auto

lemma sums_fit_Cons:
  assumes "sums_fit start (u # us)"
  shows "add_usage debug start u = Some (added_usage start u)" "sums_fit (added_usage start u) us"
proof -
  have r: "usage_in_range start" "usage_in_range u" "list_all usage_in_range us"
    using assms by (simp_all add: sums_fit_def)
  have pos: "0 \<le> sum_list (map f us)"
    if "\<And>v. usage_in_range v \<Longrightarrow> 0 \<le> f v" for f :: "token_usage \<Rightarrow> int"
    using r(3) that by (intro sum_list_nonneg_map) (auto simp: list_all_iff)
  note nonneg = pos [of input_tokens] pos [of cached_input_tokens] pos [of cache_write_input_tokens]
    pos [of output_tokens] pos [of reasoning_output_tokens] pos [of total_tokens]
  show "add_usage debug start u = Some (added_usage start u)"
    using assms r nonneg
    by (simp add: sums_fit_def usage_sum_def add_usage_def added_usage_def usage_in_range_def checked_i64_Some)
  show "sums_fit (added_usage start u) us"
    using assms r by (simp add: sums_fit_def usage_sum_def added_usage_def usage_in_range_def add.assoc)
qed

definition usage_before :: "token_usage_info option \<Rightarrow> token_usage" where
  "usage_before info = (case info of Some i \<Rightarrow> total_token_usage i | None \<Rightarrow> default_usage)"

text \<open>
  As long as the sums stay in range, recording usages never panics, the total of every counter
  is the sum of the recorded ones, and the last usage is the one recorded last.
\<close>

theorem record_usages_sum:
  assumes "sums_fit (usage_before (token_info cm)) (us @ [u])"
  shows "\<exists>cm' info.
     record_usages debug window (us @ [u]) cm = Some cm' \<and> token_info cm' = Some info \<and>
     last_token_usage info = u \<and> total_token_usage info = foldl added_usage (usage_before (token_info cm)) (us @ [u]) \<and>
     total_tokens (total_token_usage info) = usage_sum total_tokens (usage_before (token_info cm)) (us @ [u]) \<and>
     history_items cm' = history_items cm"
  using assms
proof (induction us arbitrary: cm)
  case Nil
  then show ?case
    using sums_fit_Cons(1) [of _ u "[]" debug]
    by (cases "token_info cm")
       (auto simp: update_token_info_def new_or_append_def append_last_usage_def usage_before_def Let_def
          usage_sum_def added_usage_def split: option.splits)
next
  case (Cons v us)
  have A: "add_usage debug (usage_before (token_info cm)) v = Some (added_usage (usage_before (token_info cm)) v)"
      "sums_fit (added_usage (usage_before (token_info cm)) v) (us @ [u])"
    using sums_fit_Cons [of "usage_before (token_info cm)" v "us @ [u]"] Cons.prems by simp_all
  obtain info where I: "update_token_info debug v window cm = Some (cm\<lparr>token_info := Some info\<rparr>)"
      "total_token_usage info = added_usage (usage_before (token_info cm)) v"
    using A(1) by (cases "token_info cm")
      (auto simp: update_token_info_def new_or_append_def append_last_usage_def usage_before_def Let_def split: option.splits)
  have B: "usage_before (token_info (cm\<lparr>token_info := Some info\<rparr>)) = added_usage (usage_before (token_info cm)) v"
    using I(2) by (simp add: usage_before_def)
  have S: "usage_sum total_tokens (added_usage w v) xs = usage_sum total_tokens w (v # xs)" for w xs
    by (simp add: usage_sum_def added_usage_def)
  show ?case
    using Cons.IH [of "cm\<lparr>token_info := Some info\<rparr>"] A(2) unfolding B S by (simp add: I(1))
qed

theorem record_usages_sum_witness:
  "let cm = \<lparr>history_items = [] :: nat response_item list, history_version = 0, token_info = None,
             reference_context_item = Some (0 :: nat), world_state_baseline = Some (0 :: nat)\<rparr>;
       u = default_usage\<lparr>total_tokens := 5\<rparr>
   in \<exists>cm' info. record_usages True (Some 100) [u, u] cm = Some cm' \<and> token_info cm' = Some info \<and>
        total_tokens (total_token_usage info) = 10"
proof -
  let ?cm = "\<lparr>history_items = [] :: nat response_item list, history_version = 0, token_info = None,
             reference_context_item = Some (0 :: nat), world_state_baseline = Some (0 :: nat)\<rparr>"
  let ?u = "default_usage\<lparr>total_tokens := 5\<rparr>"
  have "sums_fit (usage_before (token_info ?cm)) ([?u] @ [?u])"
    by (simp add: sums_fit_def usage_before_def usage_sum_def usage_in_range_def default_usage_def i64_max_def)
  from record_usages_sum [OF this, of True "Some 100"] show ?thesis
    by (auto simp: Let_def usage_before_def usage_sum_def default_usage_def)
qed

end
