(* ===== verification/HeadTail.thy ===== *)
theory HeadTail
  imports RustStr
begin

text \<open>
  The capped output buffer of a running command
  (\<open>core/src/unified_exec/head_tail_buffer.rs\<close>): it keeps the beginning and the end of a byte
  stream and counts what it drops. Bytes are numbers below 256.
\<close>

section \<open>Definitions\<close>

definition UNIFIED_EXEC_OUTPUT_MAX_BYTES :: nat where "UNIFIED_EXEC_OUTPUT_MAX_BYTES = 1024 * 1024"

record head_tail_buffer =
  max_bytes :: nat
  head_budget :: nat
  tail_budget :: nat
  head_bytes :: "nat list"
  tail_bytes :: "nat list"
  omitted_bytes :: nat

definition new_buffer :: "nat \<Rightarrow> head_tail_buffer" where
  "new_buffer limit =
     (let hb = limit div 2
      in \<lparr>max_bytes = limit, head_budget = hb, tail_budget = limit - hb,
          head_bytes = [], tail_bytes = [], omitted_bytes = 0\<rparr>)"

definition default_buffer :: head_tail_buffer where
  "default_buffer = new_buffer UNIFIED_EXEC_OUTPUT_MAX_BYTES"

definition retained_bytes :: "head_tail_buffer \<Rightarrow> nat" where
  "retained_bytes b = sat_add (length (head_bytes b)) (length (tail_bytes b))"

definition total_bytes :: "head_tail_buffer \<Rightarrow> nat" where
  "total_bytes b = sat_add (retained_bytes b) (omitted_bytes b)"

definition trim_tail_to_budget :: "head_tail_buffer \<Rightarrow> head_tail_buffer" where
  "trim_tail_to_budget b =
     (let excess = length (tail_bytes b) - tail_budget b
      in if 0 < excess
         then b\<lparr>tail_bytes := drop excess (tail_bytes b), omitted_bytes := sat_add (omitted_bytes b) excess\<rparr>
         else b)"

definition push_to_tail :: "head_tail_buffer \<Rightarrow> nat list \<Rightarrow> head_tail_buffer" where
  "push_to_tail b chunk =
     (if chunk = [] then b
      else if tail_budget b = 0 then b\<lparr>omitted_bytes := sat_add (omitted_bytes b) (length chunk)\<rparr>
      else if tail_budget b \<le> length chunk then
        (let start = length chunk - tail_budget b;
             kept = drop start chunk;
             dropped = length chunk - length kept
         in b\<lparr>omitted_bytes := sat_add (sat_add (omitted_bytes b) (length (tail_bytes b))) dropped,
              tail_bytes := kept\<rparr>)
      else trim_tail_to_budget (b\<lparr>tail_bytes := tail_bytes b @ chunk\<rparr>))"

definition push_chunk :: "head_tail_buffer \<Rightarrow> nat list \<Rightarrow> head_tail_buffer" where
  "push_chunk b chunk =
     (if chunk = [] then b
      else if max_bytes b = 0 then b\<lparr>omitted_bytes := sat_add (omitted_bytes b) (length chunk)\<rparr>
      else
        (let remaining_head = head_budget b - length (head_bytes b);
             head_len = min remaining_head (length chunk);
             b = (if 0 < head_len then b\<lparr>head_bytes := head_bytes b @ take head_len chunk\<rparr> else b)
         in push_to_tail b (drop head_len chunk)))"

definition snapshot_chunks :: "head_tail_buffer \<Rightarrow> nat list list" where
  "snapshot_chunks b =
     (if head_bytes b \<noteq> [] then [head_bytes b] else []) @ (if tail_bytes b \<noteq> [] then [tail_bytes b] else [])"

definition to_bytes :: "head_tail_buffer \<Rightarrow> nat list" where
  "to_bytes b = head_bytes b @ tail_bytes b"

text \<open>The marker is ASCII, so its bytes are its code points.\<close>

definition format_output_omission_marker :: "nat \<Rightarrow> str" where
  "format_output_omission_marker omitted =
     lit ''... '' @ show_nat omitted @ lit '' bytes omitted ...''"

definition to_bytes_with_omission_marker :: "head_tail_buffer \<Rightarrow> nat list" where
  "to_bytes_with_omission_marker b =
     (if omitted_bytes b = 0 then to_bytes b
      else head_bytes b @ [NL] @ format_output_omission_marker (omitted_bytes b) @ [NL] @ tail_bytes b)"

text \<open>The drained buffer and the one left behind.\<close>

definition drain :: "head_tail_buffer \<Rightarrow> head_tail_buffer \<times> head_tail_buffer" where
  "drain b = (b, b\<lparr>head_bytes := [], tail_bytes := [], omitted_bytes := 0\<rparr>)"

definition push_buffer :: "head_tail_buffer \<Rightarrow> head_tail_buffer \<Rightarrow> head_tail_buffer" where
  "push_buffer b buffer =
     (let b = push_chunk (push_chunk b (head_bytes buffer)) (tail_bytes buffer)
      in b\<lparr>omitted_bytes := sat_add (omitted_bytes b) (omitted_bytes buffer)\<rparr>)"

section \<open>A sink of chunks\<close>

text \<open>What the buffer promises its writers: pushing chunks one after the other is pushing their
  concatenation.\<close>

locale chunk_sink =
  fixes inv :: "'s \<Rightarrow> bool"
    and push :: "'s \<Rightarrow> 'b list \<Rightarrow> 's"
  assumes push_inv: "inv s \<Longrightarrow> inv (push s chunk)"
    and push_Nil: "inv s \<Longrightarrow> push s [] = s"
    and push_push: "inv s \<Longrightarrow> push (push s c) d = push s (c @ d)"
begin

lemma push_chunks: "inv s \<Longrightarrow> foldl push s chunks = push s (concat chunks)"
proof (induction chunks arbitrary: s)
  case (Cons c chunks)
  then show ?case using push_inv push_push by simp
qed (simp add: push_Nil)

lemma chunks_invisible: "inv s \<Longrightarrow> concat chunks = concat chunks' \<Longrightarrow> foldl push s chunks = foldl push s chunks'"
  by (simp add: push_chunks)

end

section \<open>The buffer keeps a prefix and a suffix\<close>

text \<open>The content of a buffer that has seen the bytes \<open>stream\<close>.\<close>

definition last_n :: "nat \<Rightarrow> 'a list \<Rightarrow> 'a list" where
  "last_n n xs = drop (length xs - n) xs"

lemma length_last_n [simp]: "length (last_n n xs) = min n (length xs)"
  by (simp add: last_n_def)

lemma last_n_zero [simp]: "last_n 0 xs = []" "last_n n [] = []"
  by (simp_all add: last_n_def)

lemma last_n_append_long: "n \<le> length ys \<Longrightarrow> last_n n (xs @ ys) = last_n n ys"
  by (simp add: last_n_def)

lemma last_n_last_n_append: "last_n n (last_n n xs @ ys) = last_n n (xs @ ys)"
proof (cases "n \<le> length xs")
  case True
  then show ?thesis by (simp add: last_n_def add.commute)
next
  case False
  then show ?thesis by (simp add: last_n_def)
qed

definition represents :: "head_tail_buffer \<Rightarrow> nat list \<Rightarrow> nat \<Rightarrow> bool" where
  "represents b stream lost \<longleftrightarrow>
     head_budget b = max_bytes b div 2 \<and> tail_budget b = max_bytes b - max_bytes b div 2 \<and>
     head_bytes b = take (head_budget b) stream \<and>
     tail_bytes b = last_n (tail_budget b) (drop (head_budget b) stream) \<and>
     omitted_bytes b = min (length stream - max_bytes b + lost) usize_max"

lemma represents_new: "represents (new_buffer limit) [] 0"
  by (simp add: represents_def new_buffer_def Let_def)

lemma sat_add_min_eq: "sat_add (min a usize_max) b = min (a + b) usize_max"
  by (simp add: sat_add_def)

lemma push_to_tail_represents:
  assumes "head_budget b \<le> length stream" "represents b stream lost"
  shows "represents (push_to_tail b chunk) (stream @ chunk) lost"
proof -
  define tb mid where "tb = tail_budget b" and "mid = drop (head_budget b) stream"
  have tail: "tail_bytes b = last_n tb mid" and head: "head_bytes b = take (head_budget b) stream"
    and om: "omitted_bytes b = min (length mid - tb + lost) usize_max"
    and split: "max_bytes b = head_budget b + tb"
    using assms by (auto simp: represents_def tb_def mid_def)
  have goal: "represents b' (stream @ chunk) lost \<longleftrightarrow>
      tail_bytes b' = last_n tb (mid @ chunk) \<and>
      omitted_bytes b' = min (length mid + length chunk - tb + lost) usize_max"
    if "max_bytes b' = max_bytes b" "head_budget b' = head_budget b" "tail_budget b' = tb"
      "head_bytes b' = head_bytes b" for b'
    using that assms split by (auto simp: represents_def mid_def tb_def)
  consider (Nil) "chunk = []" | (no_tail) "chunk \<noteq> []" "tb = 0" | (long) "tb \<noteq> 0" "chunk \<noteq> []" "tb \<le> length chunk"
    | (short) "tb \<noteq> 0" "chunk \<noteq> []" "length chunk < tb" by fastforce
  then show ?thesis
  proof cases
    case Nil
    then show ?thesis using assms by (simp add: push_to_tail_def)
  next
    case no_tail
    then have "push_to_tail b chunk = b\<lparr>omitted_bytes := sat_add (omitted_bytes b) (length chunk)\<rparr>"
      by (simp add: push_to_tail_def tb_def)
    then show ?thesis
      using no_tail tail om by (subst goal) (simp_all add: tb_def sat_add_min_eq)
  next
    case long
    then have P: "push_to_tail b chunk =
        b\<lparr>omitted_bytes := sat_add (sat_add (omitted_bytes b) (length (tail_bytes b))) (length chunk - tb),
          tail_bytes := last_n tb chunk\<rparr>"
      by (simp add: push_to_tail_def tb_def Let_def last_n_def)
    have "length mid - tb + lost + min tb (length mid) + length chunk - tb = length mid + length chunk + lost - tb"
      using long(3) by arith
    then show ?thesis
      unfolding P using long om tail
      by (subst goal) (simp_all add: tb_def sat_add_min_eq last_n_append_long)
  next
    case short
    define excess where "excess = length (last_n tb mid @ chunk) - tb"
    have T: "push_to_tail b chunk = trim_tail_to_budget (b\<lparr>tail_bytes := last_n tb mid @ chunk\<rparr>)"
      using short tail by (simp add: push_to_tail_def tb_def)
    have "last_n tb (mid @ chunk) = drop excess (last_n tb mid @ chunk)"
      using last_n_last_n_append [of tb mid chunk] by (simp add: last_n_def excess_def)
    moreover have "length mid - tb + lost + excess = length mid + length chunk - tb + lost"
      by (simp add: excess_def)
    moreover have "length mid - tb + lost + (min tb (length mid) + length chunk) - tb = length mid + length chunk + lost - tb"
      if "tb < min tb (length mid) + length chunk"
      using that by arith
    ultimately show ?thesis
      unfolding T trim_tail_to_budget_def Let_def using om
      by (subst goal) (auto simp: tb_def excess_def sat_add_min_eq)
  qed
qed

lemma push_chunk_represents:
  assumes "represents b stream lost"
  shows "represents (push_chunk b chunk) (stream @ chunk) lost"
proof -
  consider "chunk = []" | (off) "chunk \<noteq> []" "max_bytes b = 0" | (on) "chunk \<noteq> []" "max_bytes b \<noteq> 0" by blast
  then show ?thesis
  proof cases
    case off
    then show ?thesis using assms by (auto simp: push_chunk_def represents_def sat_add_min_eq add.commute add.left_commute)
  next
    case on
    define hl where "hl = min (head_budget b - length (head_bytes b)) (length chunk)"
    define b1 where "b1 = (if 0 < hl then b\<lparr>head_bytes := head_bytes b @ take hl chunk\<rparr> else b)"
    have P: "push_chunk b chunk = push_to_tail b1 (drop hl chunk)"
      using on by (simp add: push_chunk_def Let_def hl_def b1_def)
    show ?thesis
    proof (cases "head_budget b \<le> length stream")
      case True
      then have "hl = 0" using assms by (simp add: hl_def represents_def)
      then show ?thesis using push_to_tail_represents [OF True assms] by (simp add: P b1_def)
    next
      case False
      then have len: "length (head_bytes b) = length stream" "head_bytes b = stream" using assms by (simp_all add: represents_def)
      have hb: "head_budget b \<le> max_bytes b" using assms by (simp add: represents_def)
      have R1: "represents b1 (stream @ take hl chunk) lost"
        using assms False len hb by (auto simp: represents_def b1_def hl_def)
      show ?thesis
      proof (cases "hl = length chunk")
        case True
        then show ?thesis using R1 by (simp add: P push_to_tail_def)
      next
        case False
        then have "head_budget b1 \<le> length (stream @ take hl chunk)"
          using len by (auto simp: hl_def b1_def)
        from push_to_tail_represents [OF this R1, of "drop hl chunk"] show ?thesis by (simp add: P)
      qed
    qed
  qed (use assms in \<open>simp add: push_chunk_def\<close>)
qed

text \<open>A buffer is determined by what it represents.\<close>

definition buffer_ok :: "head_tail_buffer \<Rightarrow> bool" where
  "buffer_ok b \<longleftrightarrow> (\<exists>stream lost. represents b stream lost)"

lemma max_bytes_push [simp]:
  "max_bytes (push_chunk b c) = max_bytes b" "head_budget (push_chunk b c) = head_budget b"
  "tail_budget (push_chunk b c) = tail_budget b"
  by (simp_all add: push_chunk_def push_to_tail_def trim_tail_to_budget_def Let_def)

lemma represents_unique:
  assumes "represents b stream lost" "represents b' stream lost" "max_bytes b = max_bytes b'"
  shows "b = b'"
  using assms by (simp add: represents_def head_tail_buffer.equality)

interpretation output_buffer: chunk_sink buffer_ok push_chunk
proof unfold_locales
  fix b c d
  assume "buffer_ok b"
  then obtain stream lost where R: "represents b stream lost" by (auto simp: buffer_ok_def)
  show "buffer_ok (push_chunk b c)" using push_chunk_represents [OF R] by (auto simp: buffer_ok_def)
  show "push_chunk b [] = b" by (simp add: push_chunk_def)
  have "represents (push_chunk (push_chunk b c) d) ((stream @ c) @ d) lost"
    by (intro push_chunk_represents R)
  then show "push_chunk (push_chunk b c) d = push_chunk b (c @ d)"
    using represents_unique push_chunk_represents [OF R, of "c @ d"] by simp
qed

lemma buffer_ok_new: "buffer_ok (new_buffer limit)"
  using represents_new buffer_ok_def by blast

lemma retained_length: "h \<le> m \<Longrightarrow> min n h + min (m - h) (n - h) = min m n" for h m n :: nat
  by arith

lemma represents_retained:
  "represents c stream lost \<Longrightarrow> length (head_bytes c) + length (tail_bytes c) = min (max_bytes c) (length stream)"
  using retained_length [of "max_bytes c div 2" "max_bytes c" "length stream"] by (simp add: represents_def)

section \<open>Properties\<close>

text \<open>
  C28 Whatever the chunks, a buffer of a given capacity ends up with the first half of the capacity
  from the front of the stream, the other half from its end, and the number of bytes between,
  up to the largest \<open>usize\<close>; the parts never overlap and nothing is omitted while it fits.
\<close>

theorem pushed_chunks_content:
  "let b = foldl push_chunk (new_buffer limit) chunks;
       stream = concat chunks
   in head_bytes b = take (limit div 2) stream \<and>
      tail_bytes b = last_n (limit - limit div 2) (drop (limit div 2) stream) \<and>
      omitted_bytes b = min (length stream - limit) usize_max \<and>
      length (to_bytes b) = min limit (length stream)"
proof -
  define b where "b = push_chunk (new_buffer limit) (concat chunks)"
  have F: "foldl push_chunk (new_buffer limit) chunks = b"
    unfolding b_def by (rule output_buffer.push_chunks [OF buffer_ok_new])
  have M: "max_bytes b = limit" "head_budget b = limit div 2" "tail_budget b = limit - limit div 2"
    by (simp_all add: b_def new_buffer_def Let_def)
  have "represents b (concat chunks) 0"
    using push_chunk_represents [OF represents_new, of limit "concat chunks"] by (simp add: b_def)
  then show ?thesis
    unfolding F Let_def using represents_retained [of b "concat chunks" 0]
    by (simp add: represents_def M to_bytes_def)
qed

text \<open>
  Moving the output of one buffer into another loses no count: the total grows by the total of
  the moved buffer, up to the largest \<open>usize\<close>, and the capacity is respected.
\<close>

theorem push_buffer_total:
  assumes "buffer_ok b" "buffer_ok moved"
  shows "total_bytes (push_buffer b moved) = sat_add (total_bytes b) (total_bytes moved) \<and>
         length (to_bytes (push_buffer b moved)) \<le> max_bytes b \<and>
         total_bytes (fst (drain b)) = total_bytes b \<and> buffer_ok (snd (drain b)) \<and> to_bytes (snd (drain b)) = []"
proof -
  have T: "total_bytes c = min (length stream + lost) usize_max" if "represents c stream lost" for c stream lost
  proof -
    have retained: "length (head_bytes c) + length (tail_bytes c) = min (max_bytes c) (length stream)"
      by (rule represents_retained [OF that])
    have "omitted_bytes c = min (length stream - max_bytes c + lost) usize_max"
      using that by (simp add: represents_def)
    moreover have "min (min (min m n) u + min (n - m + k) u) u = min (n + k) u" for m n k u :: nat
      by (cases "m \<le> n") (auto simp: min_def)
    ultimately show ?thesis by (simp add: total_bytes_def retained_bytes_def sat_add_def retained)
  qed
  obtain s l where b: "represents b s l" using assms(1) by (auto simp: buffer_ok_def)
  obtain s' l' where m: "represents moved s' l'" using assms(2) by (auto simp: buffer_ok_def)
  define c where "c = push_chunk (push_chunk b (head_bytes moved)) (tail_bytes moved)"
  have c: "represents c ((s @ head_bytes moved) @ tail_bytes moved) l"
    unfolding c_def by (intro push_chunk_represents b)
  then have "represents (c\<lparr>omitted_bytes := sat_add (omitted_bytes c) (omitted_bytes moved)\<rparr>)
      ((s @ head_bytes moved) @ tail_bytes moved) (l + omitted_bytes moved)"
    by (simp add: represents_def sat_add_min_eq)
  then have R: "represents (push_buffer b moved) ((s @ head_bytes moved) @ tail_bytes moved) (l + omitted_bytes moved)"
    by (simp add: push_buffer_def Let_def c_def)
  have M: "max_bytes (push_buffer b moved) = max_bytes b" by (simp add: push_buffer_def Let_def)
  have "length (head_bytes moved) + length (tail_bytes moved) + omitted_bytes moved =
      min (length s' + l') usize_max \<or>
      usize_max \<le> length (head_bytes moved) + length (tail_bytes moved) + omitted_bytes moved \<and> usize_max \<le> length s' + l'"
    using T [OF m] by (auto simp: total_bytes_def retained_bytes_def sat_add_def min_def split: if_splits)
  then have "total_bytes (push_buffer b moved) = sat_add (total_bytes b) (total_bytes moved)"
    unfolding T [OF R] T [OF b] T [OF m] by (auto simp: sat_add_def)
  moreover have "length (to_bytes (push_buffer b moved)) \<le> max_bytes b"
    using represents_retained [OF R] by (simp add: to_bytes_def M)
  moreover have "represents (snd (drain b)) [] 0" using b by (simp add: drain_def represents_def)
  ultimately show ?thesis
    by (auto simp: drain_def buffer_ok_def to_bytes_def)
qed

theorem push_buffer_total_witness:
  "total_bytes (push_buffer (new_buffer 4) (push_chunk (new_buffer 2) [1, 2, 3])) = 3"
proof -
  have ok: "buffer_ok (push_chunk (new_buffer 2) [1, 2, 3])"
    by (rule output_buffer.push_inv [OF buffer_ok_new])
  have "total_bytes (push_chunk (new_buffer 2) [1, 2, 3]) = 3" "total_bytes (new_buffer 4) = 0"
    by (simp_all add: total_bytes_def retained_bytes_def push_chunk_def new_buffer_def push_to_tail_def Let_def
        usize_max_def)
  then show ?thesis using push_buffer_total [OF buffer_ok_new ok, of 4] by (simp add: usize_max_def)
qed

end
