(* ===== verification/Spec2Isabelle.thy ===== *)
theory Spec2Isabelle
  imports Orchestrator Utf8Stream ContextHistory HeadTail
begin

text \<open>
  Lemurclaw is a coding agent: a language model proposes shell commands and patches, and the program
  decides what may run, confines it, feeds the output back and keeps the conversation. The Rust
  workspace under \<open>src/codex-rs\<close> holds the program; \<open>src/lemurclaw-rs\<close> is a copy of it with the
  crates renamed and is not looked at. This development models the parts of it that decide and
  transform, from the source and without simplification, and proves what makes them correct. File
  names below are relative to \<open>src/codex-rs\<close>.

  The parts and how they interact. A shell command of the model is split into its plain commands
  (\<open>ShellSyntax\<close>), each is matched against the rules of the user and the administrator
  (\<open>ExecRule\<close>, \<open>ExecPolicy\<close>, loaded by \<open>ExecPolicyParser\<close> and amended by \<open>ExecAmend\<close>) and
  classified where no rule speaks (\<open>CommandSafety\<close>); the outcome is a requirement: run, ask or refuse
  (\<open>ExecApproval\<close>). A patch is recognised in a command and verified, and its requirement comes from the paths it
  writes (\<open>PatchSafety\<close>). The orchestrator takes a tool with its requirement through reviews, a first attempt in the
  sandbox and perhaps a second without it (\<open>Orchestrator\<close>). What runs is confined by permission profiles
  (\<open>PermProfile\<close>), the file system policies they hold (\<open>FsPath\<close>, \<open>FsPolicy\<close>, \<open>FsAccess\<close>, \<open>FsSandbox\<close>) and
  the network proxy (\<open>NetAddr\<close>, \<open>NetPolicy\<close>, \<open>NetMitm\<close>, \<open>NetConfig\<close>, \<open>NetRuntime\<close>). A patch is parsed,
  located in the files and applied (\<open>PatchParser\<close>, \<open>PatchText\<close>, \<open>SeekSequence\<close>, \<open>PatchApply\<close>, \<open>PatchFs\<close>).
  Output of commands is capped and shortened (\<open>HeadTail\<close>, \<open>Truncation\<close>), the model's stream is cut into visible
  text, citations and plans (\<open>StreamText\<close>, \<open>PlanStream\<close>, \<open>Utf8Stream\<close>), and the conversation is recorded and
  normalised (\<open>ResponseItem\<close>, \<open>ContextNormalize\<close>, \<open>ContextFragment\<close>, \<open>ContextHistory\<close>).

  Shared theories.
  \<^item> \<open>Prelude\<close>: machine arithmetic of \<open>usize\<close>, \<open>u64\<close>, \<open>u32\<close>, \<open>u16\<close> and \<open>i64\<close> with the saturating and
    checked methods, the operations of \<open>Vec\<close> that can panic as options, named collections, lemmas on
    lists used by several components.
  \<^item> \<open>RustStr\<close>: a \<open>str\<close> is the list of its code points; byte lengths are the UTF-8 widths. The methods of
    the standard library that the code calls are defined there once, with their laws.

  Patches (\<open>apply-patch/src\<close>).
  \<^item> \<open>PatchParser\<close>: \<open>streaming_parser.rs\<close>, the line-driven state machine, and \<open>parser.rs\<close>, the entry point
    with its heredoc leniency; an operation returns its result and the parser, so the state after an error
    is modelled. Feeding a patch in pieces gives what feeding it at once gives.
  \<^item> \<open>PatchText\<close>: the grammar as a renderer; parsing a rendered patch gives its hunks back.
  \<^item> \<open>SeekSequence\<close>: the four passes of the line matcher in \<open>seek_sequence.rs\<close>; the locale \<open>coarser_view\<close>
    states when one pass finds whatever the one before it does.
  \<^item> \<open>PatchApply\<close>: \<open>compute_replacements\<close>, \<open>apply_replacements\<close> and the text part of
    \<open>derive_new_contents_from_chunks\<close> in \<open>lib.rs\<close>. The editing in place never panics and equals a left to
    right splice when the replacements do not overlap.
  \<^item> \<open>PatchFs\<close>: \<open>apply_hunks_to_files\<close>, the delta of committed changes and \<open>apply_patch\<close>. The file system
    and the path URIs are a record of functions over an arbitrary state, of which nothing is assumed. A delta still
    marked exact is the account of what was read and done (\<open>patch_done\<close>, \<open>hunk_stopped\<close>), also on failure; what
    it says of the disk is as good as the file system underneath.
  \<^item> \<open>PatchSafety\<close>: \<open>invocation.rs\<close>, and \<open>safety.rs\<close> and \<open>apply_patch.rs\<close> of \<open>core/src\<close>: recognising an
    invocation, verifying it, assessing it and what is delegated and shown. The theorem composes the parser, the
    verification, the assessment and the application over a file system that logs every call: an automatically approved patch
    writes and removes only files that are writable under the policy, and makes directories only right above such files,
    as long as no path is named twice; with a repeated path it may not be so, and a lemma shows how.

  Commands (\<open>shell-command/src\<close>, \<open>execpolicy/src\<close>).
  \<^item> \<open>AbsPath\<close>: \<open>AbsolutePathBuf::try_from\<close> on Unix as text (\<open>utils/absolute-path/src\<close>).
  \<^item> \<open>ExecRule\<close>, \<open>ExecPolicy\<close>: \<open>decision.rs\<close>, \<open>rule.rs\<close>, \<open>policy.rs\<close>, \<open>executable_name.rs\<close>: rules,
    matching through the base name of an executable, merging and evaluation. The strictest matching rule
    decides, a merge only adds rules, and host executables cannot be reached from other paths.
  \<^item> \<open>ExecPolicyParser\<close>: the builtins of \<open>parser.rs\<close> on the builder, and the examples of a rule file.
  \<^item> \<open>ExecAmend\<close>: \<open>amend.rs\<close> and \<open>sandbox_migration.rs\<close> on the text of a policy file.
  \<^item> \<open>ShellSyntax\<close>, \<open>CommandSafety\<close>: \<open>bash.rs\<close>, \<open>shell_detect.rs\<close>, \<open>command_safety/\<close> as compiled for Linux.
    A command is not both known safe and dangerous; the list of safe commands is characterised.
  \<^item> \<open>ExecApproval\<close>: \<open>core/src/exec_policy.rs\<close>: the requirement of a command, the reasons shown, proposed
    amendments, the manager that appends them to the rules file and the policy in force, and loading the rules of all configuration
    layers. Managed rules that match a command as written stand whatever the other files hold and whatever is amended;
    those that match under the base name of its program can be shadowed by a rule for the path. A command that runs
    unasked is allowed in every segment; accepting a proposal leaves strictly fewer questions.

  From a call to an attempt (\<open>core/src/tools\<close>).
  \<^item> \<open>Orchestrator\<close>: \<open>orchestrator.rs\<close>, \<open>approvals.rs\<close>, \<open>sandboxing.rs\<close>, the settings of the shell and the
    patch runtime, the part of the shell handler before them and the permissions granted earlier in
    \<open>handlers/mod.rs\<close>, the keys of the cache of approvals. A run over an arbitrary state of the world records the reviews
    and attempts in order. The locale \<open>standard_tool\<close> is what the orchestrator relies on in a tool; it is interpreted on the
    shell and the patch runtime. Theorems: attempts follow accepted reviews; denied reads keep every attempt in the
    sandbox; a shell command leaves it only by rules that match all of its segments or by a review, a patch only by a
    review; with questions off nobody is asked; a cached approval was given for each of its keys.

  Permissions (\<open>protocol/src/permissions.rs\<close>, \<open>SandboxPolicy\<close> in \<open>protocol.rs\<close>).
  \<^item> \<open>FsPath\<close>: absolute paths as component lists, effective paths through symbolic links, the metadata
    directories that stay protected. \<open>fs_view\<close> is what the code reads of the process and the disk.
  \<^item> \<open>FsPolicy\<close>: entries, their resolution, the access of a path, the operations that change a policy, the
    bridge to the legacy policies, the projections and the matcher for denied reads. \<open>governs\<close> names the
    entry that decides a path.
  \<^item> \<open>FsAccess\<close>, \<open>FsSandbox\<close>: what the policies guarantee, and that what the sandboxes are handed stays
    within them.
  \<^item> \<open>PermProfile\<close>: permission profiles and additional permissions (\<open>protocol/src/models.rs\<close>), merging and
    intersecting them and the effective profile of a command (\<open>sandboxing/src/policy_transforms.rs\<close>), which sandbox an attempt
    gets (\<open>sandboxing/src/manager.rs\<close>). An intersection makes nothing readable that request and grant did not both let be read, and nothing writable
    outside the roots they both open, where it can lose a read-only exception; added permissions reopen a denied path only by a more specific entry.

  The network proxy (\<open>network-proxy/src\<close>).
  \<^item> \<open>NetAddr\<close>: addresses as words and the classes that are not public (\<open>policy.rs\<close>).
  \<^item> \<open>NetPolicy\<close>: hosts, domain patterns, their comparison and compilation (\<open>policy.rs\<close>).
  \<^item> \<open>NetMitm\<close>: validation, compilation and evaluation of request hooks (\<open>mitm_hook.rs\<close>).
  \<^item> \<open>NetConfig\<close>: permissions, setters and the validation against managed constraints (\<open>config.rs\<close>,
    \<open>state.rs\<close>), read as one condition, \<open>within_constraints\<close>.
  \<^item> \<open>NetRuntime\<close>: the state of the running proxy and the operations on it (\<open>runtime.rs\<close>), decisions and
    their audit (\<open>network_policy.rs\<close>), the connection check (\<open>connect_policy.rs\<close>). Updates read, prepare
    and install under separate locks; the theory gives them as a step relation over the state and the
    operations in flight, with the invariant of its reachable states by rule induction.

  Text and conversation.
  \<^item> \<open>StreamText\<close>, \<open>PlanStream\<close>, \<open>Utf8Stream\<close>: \<open>utils/stream-parser/src\<close>. The trait \<open>StreamTextParser\<close> is the
    locale \<open>stream_text_parser\<close>: the cut between two pushes cannot be seen; it is interpreted on the
    citation, plan and assistant text parsers, and the byte front end is proved over it.
  \<^item> \<open>HeadTail\<close>: \<open>core/src/unified_exec/head_tail_buffer.rs\<close>.
  \<^item> \<open>ResponseItem\<close>, \<open>ContextNormalize\<close>, \<open>ContextHistory\<close>: \<open>protocol/src/models.rs\<close> and
    \<open>core/src/context_manager/\<close>: items, the invariants the prompt needs, recording, rollback, token accounting.
  \<^item> \<open>ContextFragment\<close>: the fragments the runtime writes into a conversation and their recognition.
  \<^item> \<open>Truncation\<close>: \<open>utils/string/src/truncate.rs\<close>, \<open>utils/output-truncation/src/lib.rs\<close>.

  Parameters. Code outside the repository is an argument of the definitions that use it: the executor's
  file system and path URIs (without any law), tree-sitter's tree of a script and the matches of its query, the
  unified diff of two texts, the answers of hooks, reviewers and tools (functions on the state of the world), the word splitting
  and quoting of \<open>shlex\<close>, Starlark (a policy file is the sequence of builtin calls it makes), JSON lengths
  and strings, UUIDs, the decoding of images and audio, the XML of hook prompts, the file system and environment as \<open>fs_view\<close>
  or as functions, the crates \<open>globset\<close>, \<open>url\<close>, \<open>http\<close> and \<open>form_urlencoded\<close>, DNS and certificates. What a
  theorem needs of them is a named hypothesis with a witness on a concrete instance. The standard library
  is written out where the code's behaviour depends on it (UTF-8 decoding, address parsing, path components).

  Bounds and fuel. \<open>usize\<close> values are natural numbers below \<open>2 ^ 64\<close> and saturation is written out. Loops are
  structural recursion or \<open>function\<close>s with a measure. The parser loop of the hidden tags and the retry
  of an update are options whose value \<open>None\<close> would be a call that does not return: the first is shown
  total, the second to finish once nobody else writes. The nesting bound of the command classification is the code's own.

  Not modelled. The terminal interface, the app server and its protocol, the session and agent loop, the dispatch of
  tool calls and the processes they start, the MCP client
  and servers, login and key storage, the HTTP clients, the cloud tasks, the rollout and state databases and the
  telemetry move data between processes and hold little logic of their own. The platform sandboxes
  (seatbelt, bubblewrap and landlock, the Windows tokens) and the proxy servers are made of system calls; what they
  are told is modelled in \<open>FsSandbox\<close> and \<open>NetRuntime\<close>. PowerShell and the Windows branches are not in the
  build that is modelled. Serialisation is derived code of serde. Logging is left out everywhere.
\<close>

end
